(* ===== verification/Prelude.thy ===== *)
theory Prelude
  imports Main "HOL-Library.Word"
begin

text \<open>
  Shared vocabulary of the development: the integer widths of the Rust code, the three-way outcome
  of a Rust call (a value, an \<open>Err\<close>, a panic), byte buffers with Rust's checked slicing and
  \<open>copy_from_slice\<close>, little-endian decoding and encoding, strings as lists of Unicode scalar
  values, and the generic lemmas about them that the component theories use through the
  collections \<open>buf_simps\<close> and \<open>res_simps\<close>.

  Conventions. The kernel is built for \<open>x86_64-unknown-none\<close>, so \<open>usize\<close> is 64 bits wide, and
  with \<^verbatim>\<open>cargo build --release\<close> (\<^verbatim>\<open>src/xtask/src/build/mod.rs\<close>), whose profile leaves overflow
  checks off: machine arithmetic wraps. Quantities for which that matters are words. Lengths and
  offsets into buffers are \<open>nat\<close>: they are sums of a few 8, 16 or 32 bit fields and of positions
  inside a buffer, whose length is below \<open>2 ^ 63\<close>, so they never reach \<open>2 ^ 64\<close>; where a
  \<open>usize\<close> subtraction could go below zero the model writes the case out.
\<close>

unbundle bit_operations_syntax

named_theorems buf_simps \<open>rewrite rules for byte buffers and little-endian fields\<close>
named_theorems res_simps \<open>rewrite rules for outcomes of calls\<close>

section \<open>Machine integers\<close>

type_synonym u8 = "8 word"
type_synonym u16 = "16 word"
type_synonym u32 = "32 word"
type_synonym u64 = "64 word"

lemma unat_bound: "unat (w :: 'a::len word) < 2 ^ LENGTH('a)"
  by (rule unsigned_less)

lemma unat_u8_less: "unat (b :: u8) < 256"
  using unat_bound [of b] by simp

lemma word_eq_of_natI: "unat w = n \<Longrightarrow> w = of_nat n"
  by auto

text \<open>Rust's checked and saturating operations on unsigned integers.\<close>

definition checked_add :: "'a::len word \<Rightarrow> 'a word \<Rightarrow> 'a word option" where
  "checked_add a b = (if unat a + unat b < 2 ^ LENGTH('a) then Some (a + b) else None)"

definition checked_sub :: "'a::len word \<Rightarrow> 'a word \<Rightarrow> 'a word option" where
  "checked_sub a b = (if b \<le> a then Some (a - b) else None)"

definition checked_mul :: "'a::len word \<Rightarrow> 'a word \<Rightarrow> 'a word option" where
  "checked_mul a b = (if unat a * unat b < 2 ^ LENGTH('a) then Some (a * b) else None)"

definition saturating_sub :: "'a::len word \<Rightarrow> 'a word \<Rightarrow> 'a word" where
  "saturating_sub a b = (if b \<le> a then a - b else 0)"

definition saturating_add :: "'a::len word \<Rightarrow> 'a word \<Rightarrow> 'a word" where
  "saturating_add a b = (if unat a + unat b < 2 ^ LENGTH('a) then a + b else - 1)"

lemmas unat_u64_less = unat_bound [where 'a = 64, simplified]

lemma checked_add_SomeD:
  "checked_add a b = Some c \<Longrightarrow> unat c = unat a + unat b"
  by (auto simp: checked_add_def unat_word_ariths split: if_splits)

lemma checked_mul_SomeD:
  "checked_mul a b = Some c \<Longrightarrow> unat c = unat a * unat b"
  by (auto simp: checked_mul_def unat_word_ariths split: if_splits)

lemma checked_sub_SomeD:
  "checked_sub a b = Some c \<Longrightarrow> unat c = unat a - unat b \<and> unat b \<le> unat a"
  by (auto simp: checked_sub_def unat_sub word_le_nat_alt split: if_splits)

lemma unat_saturating_sub: "unat (saturating_sub a b) = unat a - unat b"
  by (auto simp: saturating_sub_def unat_sub word_le_nat_alt)

lemma unat_ucast_32_64: "unat (ucast (w :: u32) :: u64) = unat w"
  using unat_bound [of w] by (simp add: unsigned_ucast_eq take_bit_nat_eq_self)

lemma unat_of_nat_mult:
  "n < 2 ^ 64 \<Longrightarrow> n * unat s < 2 ^ 64 \<Longrightarrow> unat (of_nat n * (s :: u64)) = n * unat s"
  by (simp add: unat_word_ariths unat_of_nat)

section \<open>Outcomes of calls\<close>

text \<open>
  \<open>Ok\<close> and \<open>Err\<close> are the two values of Rust's \<open>Result\<close>; \<open>Panic\<close> is a call that does not
  return because of an out-of-range index or slice, a failed \<open>unwrap\<close>, \<open>expect\<close> or \<open>assert\<close>.
  Both kernel profiles abort on panic, so nothing runs after it.
\<close>

datatype ('a, 'e) result = Ok 'a | Err 'e | Panic

fun rbind :: "('a, 'e) result \<Rightarrow> ('a \<Rightarrow> ('b, 'e) result) \<Rightarrow> ('b, 'e) result" where
  "rbind (Ok a) f = f a"
| "rbind (Err e) f = Err e"
| "rbind Panic f = Panic"

fun map_err :: "('e \<Rightarrow> 'f) \<Rightarrow> ('a, 'e) result \<Rightarrow> ('a, 'f) result" where
  "map_err f (Ok a) = Ok a"
| "map_err f (Err e) = Err (f e)"
| "map_err f Panic = Panic"

fun ok_or :: "'e \<Rightarrow> 'a option \<Rightarrow> ('a, 'e) result" where
  "ok_or e (Some a) = Ok a"
| "ok_or e None = Err e"

fun is_ok :: "('a, 'e) result \<Rightarrow> bool" where
  "is_ok (Ok a) = True"
| "is_ok (Err e) = False"
| "is_ok Panic = False"

lemma rbind_Ok_iff [res_simps]: "rbind m f = Ok b \<longleftrightarrow> (\<exists>a. m = Ok a \<and> f a = Ok b)"
  by (cases m) auto

lemma rbind_Err_iff [res_simps]:
  "rbind m f = Err e \<longleftrightarrow> m = Err e \<or> (\<exists>a. m = Ok a \<and> f a = Err e)"
  by (cases m) auto

lemma rbind_Panic_iff [res_simps]:
  "rbind m f = Panic \<longleftrightarrow> m = Panic \<or> (\<exists>a. m = Ok a \<and> f a = Panic)"
  by (cases m) auto

lemma rbind_assoc: "rbind (rbind m f) g = rbind m (\<lambda>x. rbind (f x) g)"
  by (cases m) auto

lemma rbind_cong [fundef_cong]:
  "m = m' \<Longrightarrow> (\<And>a. m' = Ok a \<Longrightarrow> f a = f' a) \<Longrightarrow> rbind m f = rbind m' f'"
  by (cases m') auto

lemma map_err_Ok_iff [res_simps]: "map_err f m = Ok a \<longleftrightarrow> m = Ok a"
  by (cases m) auto

lemma map_err_Panic_iff [res_simps]: "map_err f m = Panic \<longleftrightarrow> m = Panic"
  by (cases m) auto

lemma map_err_Err_iff [res_simps]: "map_err f m = Err e \<longleftrightarrow> (\<exists>e'. m = Err e' \<and> e = f e')"
  by (cases m) auto

lemma ok_or_simps [res_simps]:
  "ok_or e m = Ok a \<longleftrightarrow> m = Some a"
  "ok_or e m = Err e' \<longleftrightarrow> m = None \<and> e' = e"
  "ok_or e m \<noteq> Panic"
  by (cases m; auto)+

lemma is_ok_iff: "is_ok r \<longleftrightarrow> (\<exists>a. r = Ok a)"
  by (cases r) auto

text \<open>A stateful call returns its outcome and the state it leaves behind, also when it fails.\<close>

fun sbind :: "('a, 'e) result \<times> 's \<Rightarrow> ('a \<Rightarrow> 's \<Rightarrow> ('b, 'e) result \<times> 's) \<Rightarrow> ('b, 'e) result \<times> 's" where
  "sbind (Ok a, s) f = f a s"
| "sbind (Err e, s) f = (Err e, s)"
| "sbind (Panic, s) f = (Panic, s)"

lemma sbind_Ok_iff [res_simps]:
  "sbind m f = (Ok b, s') \<longleftrightarrow> (\<exists>a s. m = (Ok a, s) \<and> f a s = (Ok b, s'))"
  by (cases "(m, f)" rule: sbind.cases) auto

lemma sbind_case:
  "sbind m f = (case fst m of Ok a \<Rightarrow> f a (snd m) | Err e \<Rightarrow> (Err e, snd m) | Panic \<Rightarrow> (Panic, snd m))"
  by (cases "(m, f)" rule: sbind.cases) auto

lemma map_err_case: "map_err f m = (case m of Ok a \<Rightarrow> Ok a | Err e \<Rightarrow> Err (f e) | Panic \<Rightarrow> Panic)"
  by (cases m) auto

lemma sbind_cong [fundef_cong]:
  "m = m' \<Longrightarrow> (\<And>a s. m' = (Ok a, s) \<Longrightarrow> f a s = f' a s) \<Longrightarrow> sbind m f = sbind m' f'"
  by (cases "(m', f)" rule: sbind.cases) auto

text \<open>A \<open>for\<close> loop over \<open>xs\<close> whose body updates a value and may leave the function.\<close>

fun rfold :: "('b \<Rightarrow> 'a \<Rightarrow> ('a, 'e) result) \<Rightarrow> 'b list \<Rightarrow> 'a \<Rightarrow> ('a, 'e) result" where
  "rfold f [] a = Ok a"
| "rfold f (x # xs) a = rbind (f x a) (rfold f xs)"

lemma rfold_append: "rfold f (xs @ ys) a = rbind (rfold f xs a) (rfold f ys)"
proof (induction xs arbitrary: a)
  case Nil
  then show ?case by simp
next
  case (Cons x xs)
  then show ?case by (cases "f x a") auto
qed

lemma rfold_upt_Suc: "m \<le> n \<Longrightarrow> rfold f [m..<Suc n] a = rbind (rfold f [m..<n] a) (f n)"
proof -
  assume "m \<le> n"
  moreover have "rbind (f n b) (rfold f []) = f n b" for b by (cases "f n b") auto
  ultimately show ?thesis by (cases "rfold f [m..<n] a") (auto simp: rfold_append)
qed

lemma mult_add_inj:
  assumes "a * n + i = b * n + j" "i < n" "j < (n :: nat)"
  shows "a = b \<and> i = j"
proof -
  have "(a * n + i) div n = a" "(b * n + j) div n = b" using assms(2,3) by simp_all
  then have "a = b" using assms(1) by simp
  then show ?thesis using assms(1) by simp
qed

text \<open>A counting loop with an invariant.\<close>

lemma rfold_upt_inv:
  assumes step: "\<And>k a. m \<le> k \<Longrightarrow> k < n \<Longrightarrow> P k a \<Longrightarrow> \<exists>a'. f k a = Ok a' \<and> P (Suc k) a'"
    and "P m a" "m \<le> n"
  shows "\<exists>a'. rfold f [m..<n] a = Ok a' \<and> P n a'"
  using assms(3,1)
proof (induction n rule: dec_induct)
  case base
  then show ?case using assms(2) by simp
next
  case (step n)
  from step.IH obtain b where b: "rfold f [m..<n] a = Ok b" "P n b" using step.prems by (meson less_SucI)
  with step.prems [of n b] step.hyps obtain b' where "f n b = Ok b'" "P (Suc n) b'" by auto
  with b step.hyps(1) show ?case by (simp add: rfold_upt_Suc del: upt_Suc)
qed

section \<open>Byte buffers\<close>

definition seg :: "'a list \<Rightarrow> nat \<Rightarrow> nat \<Rightarrow> 'a list" where
  "seg xs a b = take (b - a) (drop a xs)"

text \<open>\<open>&xs[a..b]\<close>, \<open>xs[i]\<close>, \<open>xs.get(a..b)\<close>, \<open>&xs[a..]\<close>.\<close>

definition slice_r :: "'a list \<Rightarrow> nat \<Rightarrow> nat \<Rightarrow> ('a list, 'e) result" where
  "slice_r xs a b = (if a \<le> b \<and> b \<le> length xs then Ok (seg xs a b) else Panic)"

definition index_r :: "'a list \<Rightarrow> nat \<Rightarrow> ('a, 'e) result" where
  "index_r xs i = (if i < length xs then Ok (xs ! i) else Panic)"

definition get_slice :: "'a list \<Rightarrow> nat \<Rightarrow> nat \<Rightarrow> 'a list option" where
  "get_slice xs a b = (if a \<le> b \<and> b \<le> length xs then Some (seg xs a b) else None)"

definition drop_r :: "'a list \<Rightarrow> nat \<Rightarrow> ('a list, 'e) result" where
  "drop_r xs a = (if a \<le> length xs then Ok (drop a xs) else Panic)"

text \<open>
  \<open>blit xs a ys\<close> overwrites \<open>xs\<close> from position \<open>a\<close> with \<open>ys\<close>;
  \<open>xs[a..b].copy_from_slice(ys)\<close> is \<open>blit\<close> behind the range and length checks Rust makes,
  \<open>xs[i] = v\<close> and \<open>xs[a..b].fill(v)\<close> likewise.
\<close>

definition blit :: "'a list \<Rightarrow> nat \<Rightarrow> 'a list \<Rightarrow> 'a list" where
  "blit xs a ys = take a xs @ ys @ drop (a + length ys) xs"

definition copy_r :: "'a list \<Rightarrow> nat \<Rightarrow> nat \<Rightarrow> 'a list \<Rightarrow> ('a list, 'e) result" where
  "copy_r xs a b ys =
     (if a \<le> b \<and> b \<le> length xs \<and> length ys = b - a then Ok (blit xs a ys) else Panic)"

definition set_r :: "'a list \<Rightarrow> nat \<Rightarrow> 'a \<Rightarrow> ('a list, 'e) result" where
  "set_r xs i v = (if i < length xs then Ok (blit xs i [v]) else Panic)"

definition fill_r :: "'a list \<Rightarrow> nat \<Rightarrow> nat \<Rightarrow> 'a \<Rightarrow> ('a list, 'e) result" where
  "fill_r xs a b v = copy_r xs a b (replicate (b - a) v)"

text \<open>\<open>vec![0u8; n]\<close>: a capacity above \<open>isize::MAX\<close> panics; below it the allocation succeeds.\<close>

definition vec_zeroed :: "nat \<Rightarrow> (u8 list, 'e) result" where
  "vec_zeroed n = (if n < 2 ^ 63 then Ok (replicate n 0) else Panic)"

text \<open>
  A run of consecutive \<open>xs[a..b].copy_from_slice(ys)\<close> statements, in source order; \<open>xs[i] = v\<close> is
  the entry \<open>(i, i + 1, [v])\<close> and \<open>xs[a..b].fill(0)\<close> has \<open>b - a\<close> zero bytes.
\<close>

fun copies_r :: "'a list \<Rightarrow> (nat \<times> nat \<times> 'a list) list \<Rightarrow> ('a list, 'e) result" where
  "copies_r xs [] = Ok xs"
| "copies_r xs ((a, b, ys) # us) = rbind (copy_r xs a b ys) (\<lambda>xs'. copies_r xs' us)"

definition zeros :: "nat \<Rightarrow> u8 list" where
  "zeros n = replicate n 0"

text \<open>\<open>xs.chunks_exact(n)\<close>: the full chunks; a shorter rest is dropped.\<close>

function chunks_exact :: "nat \<Rightarrow> 'a list \<Rightarrow> 'a list list" where
  "chunks_exact n xs =
     (if n = 0 \<or> length xs < n then [] else take n xs # chunks_exact n (drop n xs))"
  by pat_completeness auto
termination
  by (relation "measure (\<lambda>(n, xs). length xs)") auto

declare chunks_exact.simps [simp del]

lemma length_zeros [simp]: "length (zeros n) = n"
  by (simp add: zeros_def)

lemma zeros_0 [simp]: "zeros 0 = []"
  by (simp add: zeros_def)

lemma length_seg [simp]: "length (seg xs a b) = min (b - a) (length xs - a)"
  by (simp add: seg_def)

lemma nth_seg [buf_simps]: "a + i < b \<Longrightarrow> b \<le> length xs \<Longrightarrow> seg xs a b ! i = xs ! (a + i)"
  by (simp add: seg_def)

lemma seg_append_mid [buf_simps]:
  "a = length pre \<Longrightarrow> b = length pre + length ys \<Longrightarrow> seg (pre @ ys @ post) a b = ys"
  by (simp add: seg_def)

lemma seg_take: "j \<le> n \<Longrightarrow> seg (take n xs) i j = seg xs i j"
  by (simp add: seg_def drop_take min_def)

lemma seg_all: "length xs \<le> b \<Longrightarrow> seg xs 0 b = xs"
  by (simp add: seg_def)

lemma seg_seg: "c \<le> d \<Longrightarrow> a + d \<le> b \<Longrightarrow> seg (seg xs a b) c d = seg xs (a + c) (a + d)"
  by (simp add: seg_def drop_take min_def add.commute)

lemma length_blit: "a + length ys \<le> length xs \<Longrightarrow> length (blit xs a ys) = length xs"
  by (simp add: blit_def)

lemma blit_Nil [simp]: "blit xs a [] = xs"
  by (simp add: blit_def)

lemma nth_blit:
  "a + length ys \<le> length xs \<Longrightarrow> i < length xs \<Longrightarrow>
   blit xs a ys ! i = (if a \<le> i \<and> i < a + length ys then ys ! (i - a) else xs ! i)"
  by (auto simp: blit_def nth_append min_def)

lemma blit_blit_adjacent:
  assumes "b = a + length ys" "b + length zs \<le> length xs"
  shows "blit (blit xs a ys) b zs = blit xs a (ys @ zs)"
  using assms by (simp add: blit_def add.commute add.left_commute)

lemma seg_blit_same [buf_simps]:
  "a + length ys \<le> length xs \<Longrightarrow> b = a + length ys \<Longrightarrow> seg (blit xs a ys) a b = ys"
  by (simp add: seg_def blit_def)

lemma seg_blit_disjoint [buf_simps]:
  assumes "c + length ys \<le> length xs" "b \<le> c \<or> c + length ys \<le> a"
  shows "seg (blit xs c ys) a b = seg xs a b"
  using assms by (intro nth_equalityI) (auto simp: length_blit seg_def nth_blit)

lemma seg_append_left [buf_simps]:
  "b \<le> length xs \<Longrightarrow> seg (xs @ ys) a b = seg xs a b"
  by (rule nth_equalityI) (auto simp: seg_def nth_append)

lemma seg_cong:
  assumes "length xs = length ys" "\<And>p. a \<le> p \<Longrightarrow> p < b \<Longrightarrow> p < length ys \<Longrightarrow> xs ! p = ys ! p"
  shows "seg xs a b = seg ys a b"
  using assms by (intro nth_equalityI) (auto simp: seg_def)

lemma seg_append_right:
  "length xs \<le> a \<Longrightarrow> seg (xs @ ys) a b = seg ys (a - length xs) (b - length xs)"
  by (simp add: seg_def)

lemma seg_join: "a \<le> b \<Longrightarrow> b \<le> c \<Longrightarrow> seg xs a b @ seg xs b c = seg xs a c"
  using take_add [of "b - a" "c - b" "drop a xs"] by (simp add: seg_def)

lemma slice_r_Ok_iff [res_simps]:
  "slice_r xs a b = Ok ys \<longleftrightarrow> a \<le> b \<and> b \<le> length xs \<and> ys = seg xs a b"
  by (auto simp: slice_r_def)

lemma index_r_Ok_iff [res_simps]: "index_r xs i = Ok v \<longleftrightarrow> i < length xs \<and> v = xs ! i"
  by (auto simp: index_r_def)

lemma slice_r_not_Err [res_simps]: "slice_r xs a b \<noteq> Err e"
  by (simp add: slice_r_def)

lemma index_r_not_Err [res_simps]: "index_r xs i \<noteq> Err e"
  by (simp add: index_r_def)

lemma copy_r_Ok: "a \<le> b \<Longrightarrow> b \<le> length xs \<Longrightarrow> length ys = b - a \<Longrightarrow> copy_r xs a b ys = Ok (blit xs a ys)"
  by (simp add: copy_r_def)

lemma copy_r_Ok_iff [res_simps]:
  "copy_r xs a b ys = Ok zs \<longleftrightarrow>
     a \<le> b \<and> b \<le> length xs \<and> length ys = b - a \<and> zs = blit xs a ys"
  by (auto simp: copy_r_def)

lemma copy_r_not_Err [res_simps]: "copy_r xs a b ys \<noteq> Err e"
  by (simp add: copy_r_def)

lemma set_r_Ok: "i < length xs \<Longrightarrow> set_r xs i v = Ok (blit xs i [v])"
  by (simp add: set_r_def)

lemma fill_r_Ok: "a \<le> b \<Longrightarrow> b \<le> length xs \<Longrightarrow> fill_r xs a b v = Ok (blit xs a (replicate (b - a) v))"
  by (simp add: fill_r_def copy_r_def)

lemma copies_r_fold:
  "list_all (\<lambda>(a, b, ys). b = a + length ys \<and> b \<le> length xs) us \<Longrightarrow>
   copies_r xs us = Ok (fold (\<lambda>(a, b, ys) zs. blit zs a ys) us xs)"
proof (induction us arbitrary: xs)
  case Nil
  then show ?case by simp
next
  case (Cons u us)
  obtain a b ys where u: "u = (a, b, ys)" by (cases u) auto
  with Cons.prems have ab: "b = a + length ys" "b \<le> length xs" by auto
  then have "length (blit xs a ys) = length xs" by (simp add: length_blit)
  with Cons u ab show ?case by (simp add: copy_r_Ok)
qed

lemma copies_r_length: "copies_r xs us = Ok zs \<Longrightarrow> length zs = length xs"
proof (induction us arbitrary: xs)
  case Nil
  then show ?case by simp
next
  case (Cons u us)
  obtain a b ys where u: "u = (a, b, ys)" by (cases u) auto
  with Cons show ?case by (auto simp: res_simps length_blit)
qed

lemma copies_r_not_Err [res_simps]: "copies_r xs us \<noteq> Err e"
proof (induction us arbitrary: xs)
  case Nil
  then show ?case by simp
next
  case (Cons u us)
  then show ?case by (cases u) (auto simp: res_simps)
qed

text \<open>A run of copies into adjacent ranges is one copy of the concatenation.\<close>

fun contiguous :: "nat \<Rightarrow> (nat \<times> nat \<times> 'a list) list \<Rightarrow> bool" where
  "contiguous a [] \<longleftrightarrow> True"
| "contiguous a ((x, y, ys) # us) \<longleftrightarrow> x = a \<and> y = a + length ys \<and> contiguous y us"

lemma copies_r_contiguous:
  "contiguous a us \<Longrightarrow> a + length (concat (map (snd \<circ> snd) us)) \<le> length xs \<Longrightarrow>
   copies_r xs us = (Ok (blit xs a (concat (map (snd \<circ> snd) us))) :: ('a list, 'e) result)"
proof (induction us arbitrary: a xs)
  case Nil
  then show ?case by simp
next
  case (Cons u us)
  obtain x y ys where u: "u = (x, y, ys)" by (cases u) auto
  have x: "x = a" "y = a + length ys" "contiguous (a + length ys) us" using Cons.prems by (auto simp: u)
  have l: "length (blit xs a ys) = length xs" using Cons.prems by (intro length_blit) (simp add: u)
  have "copies_r (blit xs a ys) us
      = (Ok (blit (blit xs a ys) (a + length ys) (concat (map (snd \<circ> snd) us))) :: ('a list, 'e) result)"
    by (rule Cons.IH) (use Cons.prems x(3) l in \<open>auto simp: u\<close>)
  with Cons.prems x show ?case by (simp add: u copy_r_Ok blit_blit_adjacent comp_def)
qed

lemma blit_zero_tail:
  "length A \<le> a \<Longrightarrow> a + length ys \<le> length A + k \<Longrightarrow>
   blit (A @ zeros k) a ys = A @ zeros (a - length A) @ ys @ zeros (length A + k - (a + length ys))"
  by (auto simp: blit_def zeros_def take_replicate min_def add.commute)

lemma zeros_append_zeros:
  "zeros m @ zeros n = zeros (m + n)" "zeros m @ zeros n @ xs = zeros (m + n) @ xs"
  by (simp_all add: zeros_def replicate_add)

lemma chunks_exact_append:
  assumes "length xs = n" "0 < n"
  shows "chunks_exact n (xs @ ys) = xs # chunks_exact n ys"
  using assms by (subst chunks_exact.simps) simp

lemma chunks_exact_short [simp]: "length xs < n \<Longrightarrow> chunks_exact n xs = []"
  by (subst chunks_exact.simps) simp

lemma chunks_exact_concat:
  assumes "0 < n" "\<forall>x \<in> set xss. length x = n"
  shows "chunks_exact n (concat xss) = xss"
  using assms(2) by (induction xss) (auto simp: chunks_exact_append assms(1))

lemma concat_chunks_exact:
  "0 < n \<Longrightarrow> n dvd length xs \<Longrightarrow> concat (chunks_exact n xs) = xs"
proof (induction n xs rule: chunks_exact.induct)
  case (1 n xs)
  show ?case
  proof (cases "length xs < n")
    case True
    with 1 have "length xs = 0" by (metis dvd_imp_le le_numeral_extra(3) linorder_not_less not_gr_zero)
    with True show ?thesis by simp
  next
    case False
    with 1 have "concat (chunks_exact n (drop n xs)) = drop n xs" by (simp add: dvd_diff_nat)
    with False 1 show ?thesis by (subst chunks_exact.simps) simp
  qed
qed

lemma chunks_exact_lengths: "x \<in> set (chunks_exact n xs) \<Longrightarrow> length x = n"
proof (induction n xs rule: chunks_exact.induct)
  case (1 n xs)
  then show ?case by (subst (asm) (2) chunks_exact.simps) (auto split: if_splits)
qed

lemma length_chunks_exact: "length (chunks_exact n xs) = length xs div n"
proof (induction n xs rule: chunks_exact.induct)
  case (1 n xs)
  show ?case
  proof (cases "n = 0 \<or> length xs < n")
    case True
    then show ?thesis by (subst chunks_exact.simps) auto
  next
    case False
    with 1 show ?thesis by (subst chunks_exact.simps) (simp add: le_div_geq)
  qed
qed

section \<open>Little-endian integers\<close>

text \<open>
  \<open>uN::from_le_bytes\<close> and \<open>to_le_bytes\<close>: the value of a byte string, and the \<open>n\<close> low bytes
  of a value. \<open>rd n buf off\<close> is \<open>uN::from_le_bytes\<close> of the \<open>n\<close> bytes of \<open>buf\<close> at \<open>off\<close>, read by
  indexing or through \<open>try_into().unwrap()\<close>; both panic when they are not there.
\<close>

fun le_val :: "u8 list \<Rightarrow> nat" where
  "le_val [] = 0"
| "le_val (b # bs) = unat b + 256 * le_val bs"

fun le_bytes :: "nat \<Rightarrow> nat \<Rightarrow> u8 list" where
  "le_bytes 0 v = []"
| "le_bytes (Suc n) v = of_nat (v mod 256) # le_bytes n (v div 256)"

definition rd :: "nat \<Rightarrow> u8 list \<Rightarrow> nat \<Rightarrow> (nat, 'e) result" where
  "rd n buf off = rbind (slice_r buf off (off + n)) (\<lambda>bs. Ok (le_val bs))"

definition rd64 :: "u8 list \<Rightarrow> nat \<Rightarrow> (u64, 'e) result" where
  "rd64 buf off = rbind (rd 8 buf off) (\<lambda>v. Ok (of_nat v))"

abbreviation rd16 :: "u8 list \<Rightarrow> nat \<Rightarrow> (nat, 'e) result" where
  "rd16 \<equiv> rd 2"

abbreviation rd32 :: "u8 list \<Rightarrow> nat \<Rightarrow> (nat, 'e) result" where
  "rd32 \<equiv> rd 4"

abbreviation le16 :: "nat \<Rightarrow> u8 list" where
  "le16 \<equiv> le_bytes 2"

abbreviation le32 :: "nat \<Rightarrow> u8 list" where
  "le32 \<equiv> le_bytes 4"

definition le64 :: "u64 \<Rightarrow> u8 list" where
  "le64 x = le_bytes 8 (unat x)"

lemma le_bytes_0: "le_bytes n 0 = zeros n"
  by (induction n) (auto simp: zeros_def)

lemma length_le_bytes [simp]: "length (le_bytes n v) = n"
  by (induction n arbitrary: v) auto

lemma take_le_bytes: "take m (le_bytes n v) = le_bytes (min m n) v"
proof (induction n arbitrary: m v)
  case 0
  then show ?case by simp
next
  case (Suc n)
  then show ?case by (cases m) auto
qed

lemma length_le64 [simp]: "length (le64 x) = 8"
  by (simp add: le64_def)

lemma le_val_append: "le_val (xs @ ys) = le_val xs + 256 ^ length xs * le_val ys"
  by (induction xs) (auto simp: algebra_simps)

lemma le_val_bound: "le_val bs < 256 ^ length bs"
proof (induction bs)
  case Nil
  then show ?case by simp
next
  case (Cons b bs)
  have "unat b < 256" using unat_bound [of b] by simp
  with Cons show ?case by simp
qed

lemma le_val_le_bytes: "le_val (le_bytes n v) = v mod 256 ^ n"
proof (induction n arbitrary: v)
  case 0
  then show ?case by simp
next
  case (Suc n)
  have "unat (of_nat (v mod 256) :: u8) = v mod 256"
    by (simp add: unat_of_nat)
  with Suc show ?case
    by (simp add: mod_mult2_eq add.commute)
qed

lemma le_bytes_le_val: "le_bytes (length bs) (le_val bs) = bs"
proof (induction bs)
  case Nil
  then show ?case by simp
next
  case (Cons b bs)
  have "unat b < 256" using unat_bound [of b] by simp
  with Cons show ?case by simp
qed

lemma le_val_le16 [buf_simps]: "v < 65536 \<Longrightarrow> le_val (le16 v) = v"
  by (simp add: le_val_le_bytes)

lemma le_val_le32 [buf_simps]: "v < 4294967296 \<Longrightarrow> le_val (le32 v) = v"
  by (simp add: le_val_le_bytes)

lemma le_val_le64 [buf_simps]: "le_val (le64 x) = unat x"
  using unat_bound [of x] by (simp add: le64_def le_val_le_bytes)

lemma of_nat_le_val_le64 [buf_simps]: "of_nat (le_val (le64 x)) = x"
  by (simp add: le_val_le64)

lemma of_nat_le_val_le32: "of_nat (le_val (le32 (unat (x :: u32)))) = x"
  using unat_bound [of x] by (simp add: le_val_le_bytes)

lemma le_val_zeros: "le_val (zeros n) = 0"
  by (induction n) (auto simp: zeros_def)

lemma le64_of_nat_le_val: "length bs = 8 \<Longrightarrow> le64 (of_nat (le_val bs)) = bs"
proof -
  assume l: "length bs = 8"
  have "le_val bs < 2 ^ 64" using le_val_bound [of bs] l by simp
  then have "unat (of_nat (le_val bs) :: u64) = le_val bs" by (simp add: unat_of_nat)
  then show ?thesis using le_bytes_le_val [of bs] l by (simp add: le64_def)
qed

lemma rd_Ok: "off + n \<le> length buf \<Longrightarrow> rd n buf off = Ok (le_val (seg buf off (off + n)))"
  by (simp add: rd_def slice_r_def)

lemma rd_Panic: "length buf < off + n \<Longrightarrow> rd n buf off = Panic"
  by (simp add: rd_def slice_r_def)

lemma rd_Ok_iff [res_simps]:
  "rd n buf off = Ok v \<longleftrightarrow> off + n \<le> length buf \<and> v = le_val (seg buf off (off + n))"
  by (auto simp: rd_def slice_r_def)

lemma rd_not_Err [res_simps]: "rd n buf off \<noteq> Err e"
  by (simp add: rd_def slice_r_def)

lemma rd_Panic_iff [res_simps]: "rd n buf off = Panic \<longleftrightarrow> length buf < off + n"
  by (auto simp: rd_def slice_r_def)

lemma rd64_Ok: "off + 8 \<le> length buf \<Longrightarrow> rd64 buf off = Ok (of_nat (le_val (seg buf off (off + 8))))"
  by (simp add: rd64_def rd_Ok)

lemma rd64_not_Err [res_simps]: "rd64 buf off \<noteq> Err e"
  by (simp add: rd64_def res_simps)

lemma rd64_Panic_iff [res_simps]: "rd64 buf off = Panic \<longleftrightarrow> length buf < off + 8"
  by (simp add: rd64_def res_simps)

lemma rd_bound: "rd n buf off = Ok v \<Longrightarrow> v < 256 ^ n"
proof -
  assume a: "rd n buf off = Ok v"
  then show ?thesis
    using le_val_bound [of "seg buf off (off + n)"] by (auto simp: res_simps min_def split: if_splits)
qed

text \<open>Reading a field of a buffer given as a concatenation, or after a \<open>blit\<close>.\<close>

lemma rd_append_mid [buf_simps]:
  "off = length pre \<Longrightarrow> n = length ys \<Longrightarrow> rd n (pre @ ys @ post) off = Ok (le_val ys)"
  by (simp add: rd_Ok seg_append_mid)

lemma rd_blit_disjoint:
  "c + length ys \<le> length xs \<Longrightarrow> off + n \<le> c \<or> c + length ys \<le> off \<Longrightarrow>
   rd n (blit xs c ys) off = rd n xs off"
  by (simp add: rd_def slice_r_def length_blit seg_blit_disjoint)

lemma rd_blit_same:
  "off + length ys \<le> length xs \<Longrightarrow> n = length ys \<Longrightarrow> rd n (blit xs off ys) off = Ok (le_val ys)"
  by (simp add: rd_def slice_r_def length_blit seg_blit_same)

section \<open>Alignment\<close>

text \<open>\<open>(n + 7) & !7\<close> on a \<open>usize\<close> that is far from wrapping.\<close>

definition align8 :: "nat \<Rightarrow> nat" where
  "align8 n = (n + 7) div 8 * 8"

lemma align8_ge: "n \<le> align8 n"
  unfolding align8_def by presburger

lemma align8_less: "align8 n < n + 8"
  unfolding align8_def by presburger

lemma align8_dvd: "8 dvd align8 n"
  by (simp add: align8_def)

section \<open>Strings\<close>

text \<open>
  A Rust \<open>str\<close> is a sequence of Unicode scalar values; \<open>chars()\<close> enumerates them, \<open>len()\<close>
  counts UTF-8 bytes and \<open>encode_utf16()\<close> yields one or two units for each.
\<close>

type_synonym rchar = nat
type_synonym rstr = "rchar list"

definition str :: "string \<Rightarrow> rstr" where
  "str s = map of_char s"

definition utf8_width :: "rchar \<Rightarrow> nat" where
  "utf8_width c = (if c < 0x80 then 1 else if c < 0x800 then 2 else if c < 0x10000 then 3 else 4)"

definition str_len :: "rstr \<Rightarrow> nat" where
  "str_len s = sum_list (map utf8_width s)"

definition utf16_units :: "rchar \<Rightarrow> nat list" where
  "utf16_units c =
     (if c < 0x10000 then [c]
      else [0xD800 + (c - 0x10000) div 0x400, 0xDC00 + (c - 0x10000) mod 0x400])"

definition encode_utf16 :: "rstr \<Rightarrow> nat list" where
  "encode_utf16 s = concat (map utf16_units s)"

lemma encode_utf16_length_le: "length (encode_utf16 s) \<le> str_len s"
  by (induction s) (auto simp: encode_utf16_def str_len_def utf16_units_def utf8_width_def)

lemma str_len_append [simp]: "str_len (s @ t) = str_len s + str_len t"
  by (simp add: str_len_def)

lemma str_len_pos: "s \<noteq> [] \<Longrightarrow> 0 < str_len s"
  by (cases s) (auto simp: str_len_def utf8_width_def)

lemma encode_utf16_ascii: "\<forall>c \<in> set s. c < 128 \<Longrightarrow> encode_utf16 s = s"
  by (induction s) (auto simp: encode_utf16_def utf16_units_def)

text \<open>\<open>s.split(c)\<close>: the pieces between the separators, empty ones included.\<close>

fun str_split :: "rchar \<Rightarrow> rstr \<Rightarrow> rstr list" where
  "str_split c [] = [[]]"
| "str_split c (x # xs) =
     (if x = c then [] # str_split c xs
      else (x # hd (str_split c xs)) # tl (str_split c xs))"

lemma str_split_not_Nil [simp]: "str_split c s \<noteq> []"
  by (induction s) auto

lemma str_split_free: "p \<in> set (str_split c s) \<Longrightarrow> c \<notin> set p"
proof (induction s arbitrary: p)
  case Nil
  then show ?case by simp
next
  case (Cons x xs)
  have "hd (str_split c xs) \<in> set (str_split c xs)" by simp
  with Cons show ?case by (auto split: if_splits dest: list.set_sel(2) [rotated])
qed

text \<open>\<open>eq_ignore_ascii_case\<close>.\<close>

definition ascii_lower :: "rchar \<Rightarrow> rchar" where
  "ascii_lower c = (if 65 \<le> c \<and> c \<le> 90 then c + 32 else c)"

definition eq_ignore_ascii_case :: "rstr \<Rightarrow> rstr \<Rightarrow> bool" where
  "eq_ignore_ascii_case s t \<longleftrightarrow> map ascii_lower s = map ascii_lower t"

text \<open>\<open>{:0wx}\<close> of the formatting macros, for a value that fits the width.\<close>

definition hex_digit :: "nat \<Rightarrow> rchar" where
  "hex_digit d = (if d < 10 then 48 + d else 87 + d)"

fun hex_pad :: "nat \<Rightarrow> nat \<Rightarrow> rstr" where
  "hex_pad 0 v = []"
| "hex_pad (Suc w) v = hex_pad w (v div 16) @ [hex_digit (v mod 16)]"

lemma length_hex_pad [simp]: "length (hex_pad w v) = w"
  by (induction w arbitrary: v) simp_all

lemma hex_digit_inj: "a < 16 \<Longrightarrow> b < 16 \<Longrightarrow> hex_digit a = hex_digit b \<longleftrightarrow> a = b"
  by (auto simp: hex_digit_def split: if_splits)

lemma hex_pad_inj: "hex_pad w a = hex_pad w b \<longleftrightarrow> a mod 16 ^ w = b mod 16 ^ w"
proof (induction w arbitrary: a b)
  case (Suc w)
  have "x mod 16 ^ Suc w = x div 16 mod 16 ^ w * 16 + x mod 16" for x :: nat by (simp add: mod_mult2_eq)
  then have "a mod 16 ^ Suc w = b mod 16 ^ Suc w \<longleftrightarrow> a div 16 mod 16 ^ w = b div 16 mod 16 ^ w \<and> a mod 16 = b mod 16"
    using mult_add_inj [of "a div 16 mod 16 ^ w" 16 "a mod 16" "b div 16 mod 16 ^ w" "b mod 16"] by (metis mod_less_divisor zero_less_numeral)
  then show ?case by (simp add: Suc.IH hex_digit_inj del: power_Suc)
qed simp

lemma concat_hex_inj:
  "length bs = length cs \<Longrightarrow> concat (map (\<lambda>b. hex_pad 2 (unat b)) bs) = concat (map (\<lambda>b. hex_pad 2 (unat (b :: u8))) cs) \<longleftrightarrow> bs = cs"
proof (induction bs cs rule: list_induct2)
  case (Cons b bs c cs)
  have "hex_pad 2 (unat b) = hex_pad 2 (unat c) \<longleftrightarrow> b = c"
    unfolding hex_pad_inj using unat_u8_less [of b] unat_u8_less [of c] by (simp add: word_unat_eq_iff)
  then show ?case using Cons.IH by simp
qed simp

lemma le_val_inj: "length bs = length cs \<Longrightarrow> le_val bs = le_val cs \<longleftrightarrow> bs = cs"
  by (metis le_bytes_le_val)

lemma hex_le_val_inj:
  "length bs = n \<Longrightarrow> length cs = n \<Longrightarrow> hex_pad (2 * n) (le_val bs) = hex_pad (2 * n) (le_val cs) \<longleftrightarrow> bs = cs"
  using le_val_bound [of bs] le_val_bound [of cs] by (simp add: hex_pad_inj power_mult le_val_inj)

end
