(* ===== verification/Hal.thy ===== *)
theory Hal
  imports Prelude
begin

text \<open>
  The hardware abstraction layer (\<^verbatim>\<open>src/lib/hal/src\<close>): error types and their conversions, physical
  addresses, colours, the \<open>BlockDevice\<close> interface that the partition and file system code is
  generic in, the \<open>Read\<close> and \<open>Seek\<close> interfaces with the default methods \<open>read_exact\<close> and
  \<open>stream_position\<close>, and the \<open>File\<close> and \<open>FileSystem\<close> interfaces.

  A Rust trait object is a record of its methods (its vtable) over a state type. A method that takes
  \<open>&mut self\<close> returns the new state with its outcome; one that fills \<open>buf: &mut [u8]\<close> takes the old
  contents of the buffer and returns the new ones.
\<close>

section \<open>Errors\<close>

datatype IoError =
    UnexpectedEof | InvalidInput | InvalidData | TimedOut | Interrupted
  | NotFound | PermissionDenied | OutOfMemory | Unsupported | Other

datatype BlockError =
    DeviceNotReady | DeviceError | Timeout | NoMemory | OutOfBounds | BadSector | ReadError
  | WriteError | InvalidGeometry | UnsupportedSectorSize | Other | InvalidRequest | DeviceBusy
  | InvalidBuffer

fun io_error_from_block :: "BlockError \<Rightarrow> IoError" where
  "io_error_from_block OutOfBounds = IoError.InvalidInput"
| "io_error_from_block ReadError = IoError.UnexpectedEof"
| "io_error_from_block Timeout = IoError.TimedOut"
| "io_error_from_block NoMemory = IoError.OutOfMemory"
| "io_error_from_block UnsupportedSectorSize = IoError.InvalidInput"
| "io_error_from_block InvalidGeometry = IoError.InvalidInput"
| "io_error_from_block BadSector = IoError.InvalidData"
| "io_error_from_block _ = IoError.Other"

datatype HalFsError =
    NotFound | NotAFile | NotADirectory | Io IoError | InvalidPath | Corrupted | Other

section \<open>Physical addresses\<close>

type_synonym PhysAddr = u64

definition low_u32 :: "PhysAddr \<Rightarrow> u32" where
  "low_u32 a = ucast a"

definition high_u32 :: "PhysAddr \<Rightarrow> u32" where
  "high_u32 a = ucast (drop_bit 32 a)"

definition as_virt :: "PhysAddr \<Rightarrow> u64 \<Rightarrow> u64" where
  "as_virt a phys_offset = a + phys_offset"

lemma phys_addr_halves:
  "push_bit 32 (ucast (high_u32 a)) OR ucast (low_u32 a) = a"
  by (rule bit_word_eqI) (auto simp: low_u32_def high_u32_def bit_simps)

section \<open>Colours\<close>

record Color =
  red :: u8
  green :: u8
  blue :: u8

definition to_rgb32 :: "Color \<Rightarrow> u32" where
  "to_rgb32 c = push_bit 16 (ucast (red c)) OR push_bit 8 (ucast (green c)) OR ucast (blue c)"

definition to_bgr32 :: "Color \<Rightarrow> u32" where
  "to_bgr32 c = push_bit 16 (ucast (blue c)) OR push_bit 8 (ucast (green c)) OR ucast (red c)"

definition from_rgb32 :: "u32 \<Rightarrow> Color" where
  "from_rgb32 v = \<lparr>red = ucast (drop_bit 16 v), green = ucast (drop_bit 8 v), blue = ucast v\<rparr>"

lemma rgb32_fields:
  "ucast (drop_bit 16 (to_rgb32 c)) = red c"
  "ucast (drop_bit 8 (to_rgb32 c)) = green c"
  "ucast (to_rgb32 c) = blue c"
  by (rule bit_word_eqI; auto simp: to_rgb32_def bit_simps dest: bit_imp_le_length)+

lemma from_rgb32_to_rgb32: "from_rgb32 (to_rgb32 c) = c"
  by (simp add: from_rgb32_def rgb32_fields)

section \<open>Block devices\<close>

text \<open>
  The trait \<open>BlockDevice\<close>. \<open>read_blocks d lba buf\<close> gives the new contents of \<open>buf\<close>; the
  implementations keep its length.
\<close>

record 'd block_device =
  read_blocks :: "'d \<Rightarrow> u64 \<Rightarrow> u8 list \<Rightarrow> (u8 list, BlockError) result \<times> 'd"
  write_blocks :: "'d \<Rightarrow> u64 \<Rightarrow> u8 list \<Rightarrow> (unit, BlockError) result \<times> 'd"
  block_size :: "'d \<Rightarrow> nat"
  block_count :: "'d \<Rightarrow> u64"

section \<open>Reading and seeking\<close>

datatype SeekFrom = Start u64 | Current u64 | End u64

text \<open>
  \<open>Current\<close> and \<open>End\<close> carry an \<open>i64\<close>, kept here as its 64-bit two's complement pattern, which is
  what \<open>n as u64\<close> yields. A \<open>Read\<close> implementation returns the byte count and the new buffer.
\<close>

record 'f file_ops =
  f_read :: "'f \<Rightarrow> u8 list \<Rightarrow> (nat \<times> u8 list, IoError) result \<times> 'f"
  f_seek :: "'f \<Rightarrow> SeekFrom \<Rightarrow> (u64, IoError) result \<times> 'f"
  f_size :: "'f \<Rightarrow> u64"
  f_path :: "'f \<Rightarrow> rstr"

text \<open>
  The default method \<open>read_exact\<close>: call \<open>read\<close> on what is left of the buffer until it is full. A
  reader that claims more bytes than the buffer holds makes \<open>&mut buf[n..]\<close> panic. The result is the
  whole buffer.
\<close>

function read_exact ::
    "('f \<Rightarrow> u8 list \<Rightarrow> (nat \<times> u8 list, IoError) result \<times> 'f) \<Rightarrow> 'f \<Rightarrow> u8 list
     \<Rightarrow> (u8 list, IoError) result \<times> 'f" where
  "read_exact rdr f buf =
     (if buf = [] then (Ok [], f)
      else case rdr f buf of
        (Ok (n, buf'), f') \<Rightarrow>
          (if n = 0 then (Err UnexpectedEof, f')
           else if length buf < n then (Panic, f')
           else case read_exact rdr f' (take (length buf - n) (drop n buf')) of
             (Ok rest, f'') \<Rightarrow> (Ok (take n buf' @ rest), f'')
           | (Err e, f'') \<Rightarrow> (Err e, f'')
           | (Panic, f'') \<Rightarrow> (Panic, f''))
      | (Err e, f') \<Rightarrow> (Err e, f')
      | (Panic, f') \<Rightarrow> (Panic, f'))"
  by pat_completeness auto
termination
  by (relation "measure (\<lambda>(rdr, f, buf). length buf)") auto

declare read_exact.simps [simp del]

definition stream_position :: "'f file_ops \<Rightarrow> 'f \<Rightarrow> (u64, IoError) result \<times> 'f" where
  "stream_position ops f = f_seek ops f (Current 0)"

record ('fs, 'f) fs_ops =
  fs_open :: "'fs \<Rightarrow> rstr \<Rightarrow> ('f, HalFsError) result \<times> 'fs"
  fs_exists :: "'fs \<Rightarrow> rstr \<Rightarrow> bool \<times> 'fs"

section \<open>DMA buffers\<close>

record DmaBuffer =
  dma_phys :: PhysAddr
  dma_virt :: u64
  dma_size :: nat

end
