(* ===== verification/GptFormat.thy ===== *)
theory GptFormat
  imports Hal
begin

text \<open>
  The on-disk format of a GUID partition table, from \<^verbatim>\<open>src/lib/vfs/src/partition/gpt\<close>: the CRC-32
  of \<^verbatim>\<open>mod.rs\<close> with its lookup table, GUID generation, the header and entry structures of
  \<^verbatim>\<open>structs.rs\<close>, and the pure parts of \<^verbatim>\<open>read.rs\<close> and \<^verbatim>\<open>write.rs\<close> (parsing, validation, building and
  sealing a header). Shown: the table-driven CRC computes the bit-serial CRC; entries and
  headers survive encoding and decoding in both directions; generated GUIDs carry the version and
  variant bits and do not repeat.
\<close>

section \<open>Errors and constants\<close>

datatype GptError =
    InvalidSignature | InvalidHeaderCrc | InvalidEntriesCrc | InvalidHeaderSize | InvalidEntrySize
  | IoError | Overflow | NoSpace | NotFound

definition gpt_error_from_block :: "BlockError \<Rightarrow> GptError" where
  "gpt_error_from_block _ = GptError.IoError"

definition GPT_SIGNATURE :: "u8 list" where
  "GPT_SIGNATURE = [0x45, 0x46, 0x49, 0x20, 0x50, 0x41, 0x52, 0x54]"

definition GPT_REVISION :: "u8 list" where
  "GPT_REVISION = [0x00, 0x00, 0x01, 0x00]"

definition GPT_HEADER_SIZE :: nat where "GPT_HEADER_SIZE = 92"
definition GPT_ENTRY_SIZE :: nat where "GPT_ENTRY_SIZE = 128"
definition GPT_MAX_ENTRIES :: nat where "GPT_MAX_ENTRIES = 128"
definition GPT_FIRST_USABLE_LBA :: u64 where "GPT_FIRST_USABLE_LBA = 34"
definition GPT_RESERVED_LBAS :: u64 where "GPT_RESERVED_LBAS = 33"

lemmas gpt_consts = GPT_HEADER_SIZE_def GPT_ENTRY_SIZE_def GPT_MAX_ENTRIES_def
  GPT_FIRST_USABLE_LBA_def GPT_RESERVED_LBAS_def

section \<open>CRC-32\<close>

text \<open>
  One step of the table's inner loop, the table itself (the array \<open>CRC32C_TABLE\<close>) and the
  byte-at-a-time checksum.
\<close>

definition crc_shift :: "u32 \<Rightarrow> u32" where
  "crc_shift crc = (if crc AND 1 \<noteq> 0 then drop_bit 1 crc XOR 0xEDB88320 else drop_bit 1 crc)"

definition CRC32C_TABLE :: "u32 list" where
  "CRC32C_TABLE = map (\<lambda>i. (crc_shift ^^ 8) (of_nat i)) [0..<256]"

definition crc_update :: "u32 \<Rightarrow> u8 \<Rightarrow> u32" where
  "crc_update crc byte = CRC32C_TABLE ! unat ((ucast crc :: u8) XOR byte) XOR drop_bit 8 crc"

definition crc32 :: "u8 list \<Rightarrow> u32" where
  "crc32 data = NOT (foldl crc_update (NOT 0) data)"

text \<open>Reference: the register processes one input bit at a time, no table.\<close>

definition crc_bitwise_update :: "u32 \<Rightarrow> u8 \<Rightarrow> u32" where
  "crc_bitwise_update crc byte = (crc_shift ^^ 8) (crc XOR ucast byte)"

definition crc32_bitwise :: "u8 list \<Rightarrow> u32" where
  "crc32_bitwise data = NOT (foldl crc_bitwise_update (NOT 0) data)"

lemma crc_shift_odd:
  "crc_shift x = (if odd x then drop_bit 1 x XOR 0xEDB88320 else drop_bit 1 x)"
  by (auto simp: crc_shift_def and_one_eq mod_2_eq_odd)

lemma crc_shift_xor: "crc_shift (x XOR y) = crc_shift x XOR crc_shift y"
  unfolding crc_shift_odd even_xor_iff
  by (cases "odd x"; cases "odd y") (simp_all add: ac_simps)

lemma crc_shifts_xor: "(crc_shift ^^ n) (x XOR y) = (crc_shift ^^ n) x XOR (crc_shift ^^ n) y"
  by (induction n) (simp_all add: crc_shift_xor)

lemma crc_shifts_low_zero: "\<forall>k < n. \<not> bit x k \<Longrightarrow> (crc_shift ^^ n) x = drop_bit n x"
proof (induction n)
  case 0
  then show ?case by simp
next
  case (Suc n)
  have "even (drop_bit n x)" using Suc.prems by (simp add: even_drop_bit_iff_not_bit)
  with Suc show ?case by (simp add: crc_shift_odd)
qed

text \<open>
  The table lookup is correct because the register is linear: the low byte of \<open>crc XOR byte\<close> goes
  through the table, the upper 24 bits are only shifted.
\<close>

lemma crc_update_bitwise: "crc_update crc byte = crc_bitwise_update crc byte"
proof -
  let ?b = "(ucast crc :: u8) XOR byte"
  let ?lo = "ucast ?b :: u32"
  let ?hi = "push_bit 8 (drop_bit 8 crc)"
  have split: "crc XOR ucast byte = ?lo XOR ?hi"
    by (rule bit_word_eqI) (auto simp: bit_simps dest: bit_imp_le_length)
  have hi: "(crc_shift ^^ 8) ?hi = drop_bit 8 crc"
  proof -
    have "(crc_shift ^^ 8) ?hi = drop_bit 8 ?hi"
      by (rule crc_shifts_low_zero) (auto simp: bit_simps)
    also have "\<dots> = drop_bit 8 crc"
      by (rule bit_word_eqI) (auto simp: bit_simps dest: bit_imp_le_length)
    finally show ?thesis .
  qed
  have "unat ?b < 256" by (rule unat_u8_less)
  then have "CRC32C_TABLE ! unat ?b = (crc_shift ^^ 8) ?lo"
    by (simp add: CRC32C_TABLE_def)
  then show ?thesis
    unfolding crc_update_def crc_bitwise_update_def split crc_shifts_xor hi by simp
qed

text \<open>
  C4: the table-driven checksum \<open>crc32\<close> equals the bit-serial CRC-32 register on every input.
\<close>

theorem crc32_eq_bitwise: "crc32 data = crc32_bitwise data"
proof -
  have "crc_update = crc_bitwise_update"
    by (intro ext) (rule crc_update_bitwise)
  then show ?thesis by (simp add: crc32_def crc32_bitwise_def)
qed

section \<open>GUID generation\<close>

text \<open>
  \<open>generate_guid\<close> reads and bumps the global counter \<open>GUID_COUNTER\<close>; the model passes the counter
  in and returns its next value.
\<close>

definition generate_guid :: "u64 \<Rightarrow> u8 list \<times> u64" where
  "generate_guid counter =
     (let n = counter;
          g = le64 n @ le64 (n * 0x9E3779B97F4A7C15);
          g = g[6 := (g ! 6 AND 0x0F) OR 0x40];
          g = g[8 := (g ! 8 AND 0x3F) OR 0x80]
      in (g, counter + 1))"

lemma length_generate_guid [simp]: "length (fst (generate_guid n)) = 16"
  by (simp add: generate_guid_def Let_def)

lemma generate_guid_low:
  "take 6 (fst (generate_guid n)) = le_bytes 6 (unat n)"
proof -
  have "take 6 (fst (generate_guid n)) = take 6 (le64 n)"
    by (simp add: generate_guid_def Let_def)
  also have "\<dots> = le_bytes 6 (unat n)"
    by (simp add: le64_def take_le_bytes)
  finally show ?thesis .
qed

text \<open>
  A generated GUID carries the version 4 and variant 10 bits, and two GUIDs generated from
  counters below \<open>2 ^ 48\<close> are equal only when the counters are.
\<close>

theorem generate_guid_fresh:
  assumes "n < 2 ^ 48" "m < 2 ^ 48"
  shows "fst (generate_guid n) ! 6 AND 0xF0 = 0x40 \<and> fst (generate_guid n) ! 8 AND 0xC0 = 0x80
    \<and> (fst (generate_guid n) = fst (generate_guid m) \<longleftrightarrow> n = m)"
proof (intro conjI iffI)
  have "(x AND 0x0F OR 0x40) AND 0xF0 = (0x40 :: u8)" "(x AND 0x3F OR 0x80) AND 0xC0 = (0x80 :: u8)" for x
    by (simp_all add: and.assoc bit.conj_disj_distrib2)
  then show "fst (generate_guid n) ! 6 AND 0xF0 = 0x40" "fst (generate_guid n) ! 8 AND 0xC0 = 0x80"
    by (simp_all add: generate_guid_def Let_def)
  have lt: "unat n < 256 ^ 6" "unat m < 256 ^ 6"
    using assms by (simp_all add: word_less_nat_alt)
  assume "fst (generate_guid n) = fst (generate_guid m)"
  then have "le_val (le_bytes 6 (unat n)) = le_val (le_bytes 6 (unat m))"
    using generate_guid_low [of n] generate_guid_low [of m] by simp
  then have "unat n = unat m" using lt by (simp add: le_val_le_bytes)
  then show "n = m" by (simp add: word_unat_eq_iff)
qed simp

theorem generate_guid_fresh_witness:
  "(1 :: u64) < 2 ^ 48 \<and> (2 :: u64) < 2 ^ 48 \<and> fst (generate_guid 1) ! 6 AND 0xF0 = 0x40
   \<and> fst (generate_guid 1) \<noteq> fst (generate_guid 2)"
  using generate_guid_fresh [of 1 2] by simp

section \<open>Partition entries\<close>

record GptEntry =
  type_guid :: "u8 list"
  unique_guid :: "u8 list"
  start_lba :: u64
  end_lba :: u64
  entry_attributes :: u64
  entry_name :: "u16 list"

text \<open>The array types \<open>[u8; 16]\<close> and \<open>[u16; 36]\<close> fix the lengths.\<close>

definition wf_entry :: "GptEntry \<Rightarrow> bool" where
  "wf_entry e \<longleftrightarrow> length (type_guid e) = 16 \<and> length (unique_guid e) = 16 \<and> length (entry_name e) = 36"

definition serialize_entry :: "GptEntry \<Rightarrow> u8 list" where
  "serialize_entry e =
     type_guid e @ unique_guid e @ le64 (start_lba e) @ le64 (end_lba e) @ le64 (entry_attributes e)
     @ concat (map (\<lambda>u. le16 (unat u)) (entry_name e))"

definition serialize_entries :: "GptEntry list \<Rightarrow> u8 list" where
  "serialize_entries entries = concat (map serialize_entry entries)"

definition parse_utf16le :: "u8 list \<Rightarrow> u16 list" where
  "parse_utf16le data =
     (let units = take 36 (map (\<lambda>c. of_nat (le_val c)) (chunks_exact 2 data))
      in units @ replicate (36 - length units) 0)"

definition parse_gpt_entry :: "u8 list \<Rightarrow> (GptEntry, GptError) result" where
  "parse_gpt_entry e =
     (if length e < 128 then Err InvalidEntrySize
      else Ok \<lparr>type_guid = seg e 0 16, unique_guid = seg e 16 32,
               start_lba = of_nat (le_val (seg e 32 40)),
               end_lba = of_nat (le_val (seg e 40 48)),
               entry_attributes = of_nat (le_val (seg e 48 56)),
               entry_name = parse_utf16le (seg e 56 128)\<rparr>)"

lemma length_concat_le16: "length (concat (map (\<lambda>u :: u16. le16 (unat u)) us)) = 2 * length us"
  by (induction us) auto

lemma length_serialize_entry [simp]: "wf_entry e \<Longrightarrow> length (serialize_entry e) = 128"
  by (simp add: wf_entry_def serialize_entry_def length_concat_le16)

lemma length_serialize_entries:
  "\<forall>e \<in> set es. wf_entry e \<Longrightarrow> length (serialize_entries es) = 128 * length es"
  by (induction es) (auto simp: serialize_entries_def)

lemma of_nat_le_val_le16: "of_nat (le_val (le16 (unat (u :: u16)))) = u"
  using unat_bound [of u] by (simp add: le_val_le_bytes)

lemma le16_of_nat_le_val: "length c = 2 \<Longrightarrow> le16 (unat (of_nat (le_val c) :: u16)) = c"
proof -
  assume l: "length c = 2"
  then have "le_val c < 65536" using le_val_bound [of c] by simp
  then have "unat (of_nat (le_val c) :: u16) = le_val c" by (simp add: unat_of_nat)
  with l show ?thesis using le_bytes_le_val [of c] by simp
qed

lemma parse_utf16le_encode:
  "length us = 36 \<Longrightarrow> parse_utf16le (concat (map (\<lambda>u. le16 (unat u)) us)) = us"
  by (simp add: parse_utf16le_def chunks_exact_concat of_nat_le_val_le16 comp_def)

lemma encode_parse_utf16le:
  assumes "length d = 72"
  shows "concat (map (\<lambda>u. le16 (unat u)) (parse_utf16le d)) = d"
proof -
  have l: "length (chunks_exact 2 d) = 36" using assms by (simp add: length_chunks_exact)
  have "map (\<lambda>c. le16 (unat (of_nat (le_val c) :: u16))) (chunks_exact 2 d) = chunks_exact 2 d"
    by (rule map_idI) (simp add: le16_of_nat_le_val chunks_exact_lengths)
  then have "concat (map (\<lambda>u. le16 (unat u)) (parse_utf16le d)) = concat (chunks_exact 2 d)"
    using l by (simp add: parse_utf16le_def comp_def)
  then show ?thesis using assms by (simp add: concat_chunks_exact)
qed

lemma parse_serialize_entry: "wf_entry e \<Longrightarrow> parse_gpt_entry (serialize_entry e) = Ok e"
proof -
  assume wf: "wf_entry e"
  have segs: "seg (serialize_entry e) 0 16 = type_guid e" "seg (serialize_entry e) 16 32 = unique_guid e"
    "seg (serialize_entry e) 32 40 = le64 (start_lba e)" "seg (serialize_entry e) 40 48 = le64 (end_lba e)"
    "seg (serialize_entry e) 48 56 = le64 (entry_attributes e)"
    "seg (serialize_entry e) 56 128 = concat (map (\<lambda>u. le16 (unat u)) (entry_name e))"
    using wf by (simp_all add: seg_def serialize_entry_def wf_entry_def length_concat_le16)
  with wf show ?thesis
    by (simp add: parse_gpt_entry_def buf_simps parse_utf16le_encode wf_entry_def)
qed

lemma wf_parse_gpt_entry: "parse_gpt_entry b = Ok e \<Longrightarrow> wf_entry e"
  by (auto simp: parse_gpt_entry_def wf_entry_def parse_utf16le_def Let_def split: if_splits)

lemma serialize_parse_entry: "length b = 128 \<Longrightarrow> parse_gpt_entry b = Ok e \<Longrightarrow> serialize_entry e = b"
proof -
  assume l: "length b = 128" and p: "parse_gpt_entry b = Ok e"
  have "serialize_entry e = seg b 0 16 @ seg b 16 32 @ seg b 32 40 @ seg b 40 48 @ seg b 48 56 @ seg b 56 128"
    using p l by (auto simp: parse_gpt_entry_def serialize_entry_def le64_of_nat_le_val
        encode_parse_utf16le split: if_splits)
  also have "\<dots> = b" using l by (simp add: seg_join seg_all)
  finally show ?thesis .
qed

section \<open>Headers\<close>

record GptHeader =
  signature :: "u8 list"
  revision :: "u8 list"
  header_size :: u32
  header_crc32 :: u32
  reserved :: u32
  my_lba :: u64
  alternate_lba :: u64
  first_usable_lba :: u64
  last_usable_lba :: u64
  disk_guid :: "u8 list"
  partition_entry_lba :: u64
  num_partition_entries :: u32
  partition_entry_size :: u32
  partition_array_crc32 :: u32

text \<open>After the length check none of the slices and conversions of \<open>parse_header\<close> can fail.\<close>

definition parse_header :: "u8 list \<Rightarrow> (GptHeader, GptError) result" where
  "parse_header raw =
     (if length raw < GPT_HEADER_SIZE then Err InvalidHeaderSize
      else Ok \<lparr>signature = seg raw 0 8, revision = seg raw 8 12,
               header_size = of_nat (le_val (seg raw 12 16)),
               header_crc32 = of_nat (le_val (seg raw 16 20)),
               reserved = of_nat (le_val (seg raw 20 24)),
               my_lba = of_nat (le_val (seg raw 24 32)),
               alternate_lba = of_nat (le_val (seg raw 32 40)),
               first_usable_lba = of_nat (le_val (seg raw 40 48)),
               last_usable_lba = of_nat (le_val (seg raw 48 56)),
               disk_guid = seg raw 56 72,
               partition_entry_lba = of_nat (le_val (seg raw 72 80)),
               num_partition_entries = of_nat (le_val (seg raw 80 84)),
               partition_entry_size = of_nat (le_val (seg raw 84 88)),
               partition_array_crc32 = of_nat (le_val (seg raw 88 92))\<rparr>)"

text \<open>The revision check of \<open>validate_header\<close> has an empty body.\<close>

definition validate_header :: "GptHeader \<Rightarrow> (unit, GptError) result" where
  "validate_header header =
     (if signature header \<noteq> GPT_SIGNATURE then Err InvalidSignature
      else if header_size header \<noteq> of_nat GPT_HEADER_SIZE then Err InvalidHeaderSize
      else if partition_entry_size header \<noteq> of_nat GPT_ENTRY_SIZE then Err InvalidEntrySize
      else Ok ())"

definition parse_and_verify_header :: "u8 list \<Rightarrow> (u8 list \<times> GptHeader, GptError) result" where
  "parse_and_verify_header raw =
     (if length raw < GPT_HEADER_SIZE then Err InvalidHeaderSize
      else rbind (parse_header raw) (\<lambda>header.
        rbind (validate_header header) (\<lambda>_.
        rbind (slice_r raw 0 (unat (header_size header))) (\<lambda>crc_buf.
        rbind (copy_r crc_buf 16 20 (zeros 4)) (\<lambda>crc_buf.
          if crc32 crc_buf \<noteq> header_crc32 header then Err InvalidHeaderCrc
          else Ok (raw, header))))))"

definition build_header ::
    "u64 \<Rightarrow> u64 \<Rightarrow> u64 \<Rightarrow> u32 \<Rightarrow> u64 \<Rightarrow> u64 \<Rightarrow> u8 list \<Rightarrow> u32 \<Rightarrow> (u8 list, GptError) result" where
  "build_header my_lba' alternate_lba' partition_entry_lba' entry_array_crc last_lba sector disk_guid' num_entries =
     (if sector < of_nat GPT_HEADER_SIZE then Err InvalidHeaderSize
      else
        let first_usable = GPT_FIRST_USABLE_LBA;
            last_usable = saturating_sub last_lba GPT_RESERVED_LBAS
        in rbind (vec_zeroed (unat sector)) (\<lambda>h.
           copies_r h
            [(0, 8, GPT_SIGNATURE),
             (8, 12, GPT_REVISION),
             (12, 16, le32 GPT_HEADER_SIZE),
             (24, 32, le64 my_lba'),
             (32, 40, le64 alternate_lba'),
             (40, 48, le64 first_usable),
             (48, 56, le64 last_usable),
             (56, 72, disk_guid'),
             (72, 80, le64 partition_entry_lba'),
             (80, 84, le32 (unat num_entries)),
             (84, 88, le32 GPT_ENTRY_SIZE),
             (88, 92, le32 (unat entry_array_crc))]))"

definition finalize_header_crc :: "u8 list \<Rightarrow> (u8 list, GptError) result" where
  "finalize_header_crc header =
     rbind (copy_r header 16 20 (zeros 4)) (\<lambda>header.
     rbind (slice_r header 0 GPT_HEADER_SIZE) (\<lambda>covered.
       copy_r header 16 20 (le32 (unat (crc32 covered)))))"

lemma length_GPT_SIGNATURE [simp]: "length GPT_SIGNATURE = 8"
  by (simp add: GPT_SIGNATURE_def)

lemma length_GPT_REVISION [simp]: "length GPT_REVISION = 4"
  by (simp add: GPT_REVISION_def)

text \<open>The image a header has on disk, with \<open>crc\<close> in the checksum field.\<close>

definition header_image :: "u64 \<Rightarrow> u64 \<Rightarrow> u64 \<Rightarrow> u32 \<Rightarrow> u64 \<Rightarrow> u64 \<Rightarrow> u8 list \<Rightarrow> u32 \<Rightarrow> u8 list \<Rightarrow> u8 list" where
  "header_image my alt pel ecrc last_lba sector guid num crc =
     GPT_SIGNATURE @ GPT_REVISION @ le32 GPT_HEADER_SIZE @ crc @ zeros 4 @ le64 my @ le64 alt
     @ le64 GPT_FIRST_USABLE_LBA @ le64 (saturating_sub last_lba GPT_RESERVED_LBAS) @ guid
     @ le64 pel @ le32 (unat num) @ le32 GPT_ENTRY_SIZE @ le32 (unat ecrc)
     @ zeros (unat sector - 92)"

definition header_fields :: "u64 \<Rightarrow> u64 \<Rightarrow> u64 \<Rightarrow> u32 \<Rightarrow> u64 \<Rightarrow> u8 list \<Rightarrow> u32 \<Rightarrow> u32 \<Rightarrow> GptHeader" where
  "header_fields my alt pel ecrc last_lba guid num crc =
     \<lparr>signature = GPT_SIGNATURE, revision = GPT_REVISION, header_size = of_nat GPT_HEADER_SIZE,
      header_crc32 = crc, reserved = 0, my_lba = my, alternate_lba = alt,
      first_usable_lba = GPT_FIRST_USABLE_LBA,
      last_usable_lba = saturating_sub last_lba GPT_RESERVED_LBAS,
      disk_guid = guid, partition_entry_lba = pel, num_partition_entries = num,
      partition_entry_size = of_nat GPT_ENTRY_SIZE, partition_array_crc32 = ecrc\<rparr>"

lemma blit_zeros_gap:
  assumes "length A + g + length B \<le> n"
  shows "blit (blit (replicate n 0) 0 A) (length A + g) B
       = A @ zeros g @ B @ zeros (n - (length A + g + length B))"
  using assms by (simp add: blit_def zeros_def)

lemma build_header_image:
  assumes "92 \<le> unat sector" "unat sector < 2 ^ 63" "length guid = 16"
  shows "build_header my alt pel ecrc last_lba sector guid num
       = Ok (header_image my alt pel ecrc last_lba sector guid num (zeros 4))"
proof -
  let ?A = "GPT_SIGNATURE @ GPT_REVISION @ le32 GPT_HEADER_SIZE"
  let ?B = "le64 my @ le64 alt @ le64 GPT_FIRST_USABLE_LBA @ le64 (saturating_sub last_lba GPT_RESERVED_LBAS)
     @ guid @ le64 pel @ le32 (unat num) @ le32 GPT_ENTRY_SIZE @ le32 (unat ecrc)"
  have s: "\<not> sector < of_nat GPT_HEADER_SIZE" using assms(1) by (simp add: word_less_nat_alt gpt_consts)
  have "build_header my alt pel ecrc last_lba sector guid num
       = Ok (blit (blit (replicate (unat sector) 0) 0 ?A) 24 ?B)"
    using s assms
    by (simp add: build_header_def Let_def vec_zeroed_def copy_r_Ok length_blit blit_blit_adjacent)
  also have "blit (blit (replicate (unat sector) 0) 0 ?A) 24 ?B
      = ?A @ zeros 8 @ ?B @ zeros (unat sector - 92)"
    using blit_zeros_gap [of ?A 8 ?B "unat sector"] assms by simp
  also have "zeros 8 = zeros 4 @ zeros 4" by (simp add: zeros_def flip: replicate_add)
  finally show ?thesis by (simp add: header_image_def)
qed

lemma finalize_header_image:
  assumes "length crc = 4" "length guid = 16"
  shows "finalize_header_crc (header_image my alt pel ecrc last_lba sector guid num crc)
       = Ok (header_image my alt pel ecrc last_lba sector guid num
          (le32 (unat (crc32 (seg (header_image my alt pel ecrc last_lba sector guid num (zeros 4)) 0 92)))))"
proof -
  have b: "blit (header_image my alt pel ecrc last_lba sector guid num c) 16 c'
      = header_image my alt pel ecrc last_lba sector guid num c'" 
    if "length c = 4" "length c' = 4" for c c'
    using that by (simp add: blit_def header_image_def)
  have l: "92 \<le> length (header_image my alt pel ecrc last_lba sector guid num c)" if "length c = 4" for c
    using that assms by (simp add: header_image_def)
  show ?thesis
    using assms(1) l [of crc] l [of "zeros 4"]
    by (simp add: finalize_header_crc_def copy_r_def b slice_r_def gpt_consts)
qed

lemma parse_header_image:
  assumes "length crc = 4" "length guid = 16"
  shows "parse_header (header_image my alt pel ecrc last_lba sector guid num crc)
   = Ok (header_fields my alt pel ecrc last_lba guid num (of_nat (le_val crc)))"
proof -
  let ?h = "header_image my alt pel ecrc last_lba sector guid num crc"
  have segs: "seg ?h 0 8 = GPT_SIGNATURE" "seg ?h 8 12 = GPT_REVISION" "seg ?h 12 16 = le32 GPT_HEADER_SIZE"
    "seg ?h 16 20 = crc" "seg ?h 20 24 = zeros 4" "seg ?h 24 32 = le64 my" "seg ?h 32 40 = le64 alt"
    "seg ?h 40 48 = le64 GPT_FIRST_USABLE_LBA"
    "seg ?h 48 56 = le64 (saturating_sub last_lba GPT_RESERVED_LBAS)" "seg ?h 56 72 = guid"
    "seg ?h 72 80 = le64 pel" "seg ?h 80 84 = le32 (unat num)" "seg ?h 84 88 = le32 GPT_ENTRY_SIZE"
    "seg ?h 88 92 = le32 (unat ecrc)"
    using assms by (simp_all add: seg_def header_image_def)
  have l: "92 \<le> length ?h" using assms by (simp add: header_image_def)
  show ?thesis
    unfolding parse_header_def segs
    using l by (simp add: header_fields_def gpt_consts buf_simps of_nat_le_val_le32 le_val_zeros)
qed

definition sealed_image :: "u64 \<Rightarrow> u64 \<Rightarrow> u64 \<Rightarrow> u32 \<Rightarrow> u64 \<Rightarrow> u64 \<Rightarrow> u8 list \<Rightarrow> u32 \<Rightarrow> u8 list" where
  "sealed_image my alt pel ecrc last_lba sector guid num =
     header_image my alt pel ecrc last_lba sector guid num
      (le32 (unat (crc32 (seg (header_image my alt pel ecrc last_lba sector guid num (zeros 4)) 0 92))))"

lemma build_and_seal:
  assumes "92 \<le> unat sector" "unat sector < 2 ^ 63" "length guid = 16"
  shows "rbind (build_header my alt pel ecrc last_lba sector guid num) finalize_header_crc
       = Ok (sealed_image my alt pel ecrc last_lba sector guid num)"
  using assms by (simp add: build_header_image finalize_header_image sealed_image_def)

lemma verify_sealed_image:
  assumes "length guid = 16"
  shows "\<exists>crc. parse_and_verify_header (sealed_image my alt pel ecrc last_lba sector guid num)
       = Ok (sealed_image my alt pel ecrc last_lba sector guid num,
             header_fields my alt pel ecrc last_lba guid num crc)"
proof -
  let ?i = "header_image my alt pel ecrc last_lba sector guid num"
  let ?z = "seg (?i (zeros 4)) 0 92"
  let ?c = "le32 (unat (crc32 ?z))"
  have l: "92 \<le> length (?i ?c)" using assms by (simp add: header_image_def)
  have z: "blit (seg (?i ?c) 0 92) 16 (zeros 4) = ?z"
    using assms by (simp add: blit_def seg_def header_image_def)
  have "validate_header (header_fields my alt pel ecrc last_lba guid num (crc32 ?z)) = Ok ()"
    by (simp add: validate_header_def header_fields_def)
  then have "parse_and_verify_header (?i ?c) = Ok (?i ?c, header_fields my alt pel ecrc last_lba guid num (crc32 ?z))"
    using l z assms
    by (simp add: parse_and_verify_header_def parse_header_image header_fields_def [symmetric]
        of_nat_le_val_le32 slice_r_def copy_r_def)
      (simp add: header_fields_def gpt_consts slice_r_def)
  then show ?thesis by (auto simp: sealed_image_def)
qed

text \<open>
  A header built by \<open>build_header\<close> and sealed by \<open>finalize_header_crc\<close> passes
  \<open>parse_and_verify_header\<close>, which returns exactly the fields it was built from.
\<close>

theorem sealed_header_verifies:
  assumes "92 \<le> unat sector" "unat sector < 2 ^ 63" "length guid = 16"
  shows "\<exists>raw hdr. rbind (build_header my alt pel ecrc last_lba sector guid num) finalize_header_crc = Ok raw
    \<and> parse_and_verify_header raw = Ok (raw, hdr)
    \<and> my_lba hdr = my \<and> alternate_lba hdr = alt \<and> partition_entry_lba hdr = pel
    \<and> partition_array_crc32 hdr = ecrc \<and> num_partition_entries hdr = num \<and> disk_guid hdr = guid
    \<and> first_usable_lba hdr = 34 \<and> last_usable_lba hdr = saturating_sub last_lba 33"
proof -
  obtain crc where "parse_and_verify_header (sealed_image my alt pel ecrc last_lba sector guid num)
       = Ok (sealed_image my alt pel ecrc last_lba sector guid num,
             header_fields my alt pel ecrc last_lba guid num crc)"
    using verify_sealed_image [OF assms(3)] by blast
  with build_and_seal [OF assms] show ?thesis
    by (intro exI) (auto simp: header_fields_def gpt_consts)
qed

theorem sealed_header_verifies_witness:
  "\<exists>raw hdr. rbind (build_header 1 999 2 7 999 512 (zeros 16) 4) finalize_header_crc = Ok raw
    \<and> parse_and_verify_header raw = Ok (raw, hdr) \<and> my_lba hdr = 1 \<and> last_usable_lba hdr = 966"
proof -
  have "saturating_sub (999 :: u64) 33 = 966" by (simp add: saturating_sub_def)
  then show ?thesis
    using sealed_header_verifies [of 512 "zeros 16" 1 999 2 7 999 4] by auto
qed

end
