(* ===== verification/GptDisk.thy ===== *)
theory GptDisk
  imports GptFormat
begin

text \<open>
  Partition tables on a device: \<open>read_gpt\<close> and its helpers (\<^verbatim>\<open>read.rs\<close>), \<open>write_gpt\<close> and its helpers
  (\<^verbatim>\<open>write.rs\<close>) and the operations of \<open>GptManager\<close> (\<^verbatim>\<open>manager.rs\<close>). The device is any
  implementation of the \<open>BlockDevice\<close> trait; the state of the writing operations is the
  device together with the global GUID counter.
\<close>

section \<open>Reading\<close>

definition gpt_read_blocks ::
    "'d block_device \<Rightarrow> 'd \<Rightarrow> u64 \<Rightarrow> u8 list \<Rightarrow> (u8 list, GptError) result \<times> 'd" where
  "gpt_read_blocks ops d offset buf =
     (case read_blocks ops d offset buf of (r, d') \<Rightarrow> (map_err gpt_error_from_block r, d'))"

text \<open>\<open>read_header_raw\<close>: every failure, a device error included, is \<open>None\<close>.\<close>

definition read_header_raw ::
    "'d block_device \<Rightarrow> 'd \<Rightarrow> u64 \<Rightarrow> u64 \<Rightarrow> (u8 list option, GptError) result \<times> 'd" where
  "read_header_raw ops d lba sector =
     (if 4096 < unat sector then (Ok None, d)
      else case checked_mul lba sector of
        None \<Rightarrow> (Ok None, d)
      | Some off \<Rightarrow>
          (case read_blocks ops d off (replicate (unat sector) 0) of
            (Ok buf, d') \<Rightarrow> (Ok (if get_slice buf 0 8 = Some GPT_SIGNATURE then Some buf else None), d')
          | (Err _, d') \<Rightarrow> (Ok None, d')
          | (Panic, d') \<Rightarrow> (Panic, d')))"

fun collect_results :: "('a, 'e) result list \<Rightarrow> ('a list, 'e) result" where
  "collect_results [] = Ok []"
| "collect_results (r # rs) = rbind r (\<lambda>x. rbind (collect_results rs) (\<lambda>xs. Ok (x # xs)))"

definition read_entries ::
    "'d block_device \<Rightarrow> 'd \<Rightarrow> u64 \<Rightarrow> GptHeader \<Rightarrow> (GptEntry list, GptError) result \<times> 'd" where
  "read_entries ops d sector h =
     (if partition_entry_size h \<noteq> of_nat GPT_ENTRY_SIZE then (Err InvalidEntrySize, d)
      else if of_nat (GPT_MAX_ENTRIES * 4) < num_partition_entries h then (Err InvalidHeaderSize, d)
      else case checked_mul (ucast (num_partition_entries h)) (ucast (partition_entry_size h) :: u64) of
        None \<Rightarrow> (Err Overflow, d)
      | Some total_bytes \<Rightarrow>
          (case checked_mul (partition_entry_lba h) sector of
            None \<Rightarrow> (Err Overflow, d)
          | Some offset \<Rightarrow>
              sbind (gpt_read_blocks ops d offset (replicate (unat total_bytes) 0)) (\<lambda>buf d'.
                (collect_results (map parse_gpt_entry (chunks_exact GPT_ENTRY_SIZE buf)), d'))))"

definition verify_entries_crc :: "GptEntry list \<Rightarrow> u32 \<Rightarrow> (unit, GptError) result" where
  "verify_entries_crc entries stored =
     (if crc32 (serialize_entries entries) = stored then Ok () else Err InvalidEntriesCrc)"

text \<open>The header bytes to use: the primary header when it verifies, else the backup in the last block.\<close>

definition locate_header ::
    "'d block_device \<Rightarrow> 'd \<Rightarrow> u64 \<Rightarrow> (u8 list, GptError) result \<times> 'd" where
  "locate_header ops d sector =
     sbind (read_header_raw ops d 1 sector) (\<lambda>primary d.
       case (case primary of None \<Rightarrow> Err InvalidSignature | Some raw \<Rightarrow> parse_and_verify_header raw) of
         Ok (raw, _) \<Rightarrow> (Ok raw, d)
       | Panic \<Rightarrow> (Panic, d)
       | Err _ \<Rightarrow>
           sbind (ok_or InvalidSignature (checked_sub (block_count ops d) 1), d) (\<lambda>last_lba d.
           sbind (read_header_raw ops d last_lba sector) (\<lambda>backup d.
           sbind (ok_or InvalidSignature backup, d) (\<lambda>raw d.
             (rbind (parse_and_verify_header raw) (\<lambda>(r, _). Ok r), d)))))"

definition read_gpt ::
    "'d block_device \<Rightarrow> 'd \<Rightarrow> (GptHeader \<times> GptEntry list, GptError) result \<times> 'd" where
  "read_gpt ops d =
     (let sector = of_nat (block_size ops d) in
      sbind (locate_header ops d sector) (\<lambda>header_raw d.
      sbind (parse_header header_raw, d) (\<lambda>header d.
      sbind (validate_header header, d) (\<lambda>_ d.
      sbind (read_entries ops d sector header) (\<lambda>entries d.
      sbind (verify_entries_crc entries (partition_array_crc32 header), d) (\<lambda>_ d.
        (Ok (header, entries), d)))))))"

section \<open>Writing\<close>

type_synonym 'd gpt_env = "'d \<times> u64"

definition gpt_write_blocks ::
    "'d block_device \<Rightarrow> 'd gpt_env \<Rightarrow> u64 \<Rightarrow> u8 list \<Rightarrow> (unit, GptError) result \<times> 'd gpt_env" where
  "gpt_write_blocks ops s offset buf =
     (case write_blocks ops (fst s) offset buf of
        (r, d') \<Rightarrow> (map_err gpt_error_from_block r, (d', snd s)))"

definition write_protective_mbr ::
    "'d block_device \<Rightarrow> 'd gpt_env \<Rightarrow> u64 \<Rightarrow> (unit, GptError) result \<times> 'd gpt_env" where
  "write_protective_mbr ops s last_lba =
     (let sector = of_nat (block_size ops (fst s)) :: u64;
          size = min (unat last_lba) 0xFFFFFFFF
      in sbind (vec_zeroed (unat sector), s) (\<lambda>mbr s.
         sbind (copies_r mbr
            [(446, 447, [0x00]),
             (447, 448, [0x00]), (448, 449, [0x02]), (449, 450, [0x00]),
             (450, 451, [0xEE]),
             (451, 452, [0xFF]), (452, 453, [0xFF]), (453, 454, [0xFF]),
             (454, 458, le32 1),
             (458, 462, le32 size),
             (510, 511, [0x55]), (511, 512, [0xAA])], s) (\<lambda>mbr s.
         gpt_write_blocks ops s 0 mbr)))"

definition write_gpt ::
    "'d block_device \<Rightarrow> 'd gpt_env \<Rightarrow> GptEntry list \<Rightarrow> (unit, GptError) result \<times> 'd gpt_env" where
  "write_gpt ops s entries =
     (if GPT_MAX_ENTRIES < length entries then (Err NoSpace, s)
      else
        let sector = of_nat (block_size ops (fst s)) :: u64 in
        sbind (ok_or NoSpace (checked_sub (block_count ops (fst s)) 1), s) (\<lambda>last_lba s.
        sbind (write_protective_mbr ops s last_lba) (\<lambda>_ s.
        if sector = 0 then (Panic, s)
        else let entries_end_lba =
               2 + (of_nat (length entries) * of_nat GPT_ENTRY_SIZE + sector - 1) div sector
        in if saturating_sub last_lba GPT_RESERVED_LBAS \<le> entries_end_lba then (Err NoSpace, s)
        else
          let entry_array = serialize_entries entries;
              entry_array_crc = crc32 entry_array;
              (disk_guid', counter) = generate_guid (snd s);
              s = (fst s, counter);
              backup_entries_lba = last_lba - GPT_RESERVED_LBAS + 1
          in
          sbind (build_header 1 last_lba 2 entry_array_crc last_lba sector disk_guid'
                   (of_nat (length entries)), s) (\<lambda>primary s.
          sbind (build_header last_lba 1 backup_entries_lba entry_array_crc last_lba sector disk_guid'
                   (of_nat (length entries)), s) (\<lambda>backup s.
          sbind (finalize_header_crc primary, s) (\<lambda>primary s.
          sbind (finalize_header_crc backup, s) (\<lambda>backup s.
          sbind (gpt_write_blocks ops s (2 * sector) entry_array) (\<lambda>_ s.
          sbind (gpt_write_blocks ops s (backup_entries_lba * sector) entry_array) (\<lambda>_ s.
          sbind (gpt_write_blocks ops s (1 * sector) primary) (\<lambda>_ s.
          gpt_write_blocks ops s (last_lba * sector) backup))))))))))"

section \<open>The partition manager\<close>

definition ESP_GUID :: "u8 list" where
  "ESP_GUID = [0x28, 0x73, 0x2A, 0xC1, 0x1F, 0xF8, 0xD2, 0x11,
               0xBA, 0x4B, 0x00, 0xA0, 0xC9, 0x3E, 0xC9, 0x3B]"

definition NTFS_GUID :: "u8 list" where
  "NTFS_GUID = [0xA2, 0xA0, 0xD0, 0xEB, 0xE5, 0xB9, 0x33, 0x44,
                0x87, 0xC0, 0x68, 0xB6, 0xB7, 0x26, 0x99, 0xC7]"

definition ESP_SIZE_SECTORS :: u64 where
  "ESP_SIZE_SECTORS = 1048576"

definition str_to_utf16le :: "rstr \<Rightarrow> u16 list" where
  "str_to_utf16le s =
     (let units = take 36 (map of_nat (encode_utf16 s)) in units @ replicate (36 - length units) 0)"

definition utf16le_to_str :: "u16 list \<Rightarrow> rstr" where
  "utf16le_to_str us = map unat (filter (\<lambda>c. c < 128) (takeWhile (\<lambda>c. c \<noteq> 0) us))"

definition is_zero_guid :: "u8 list \<Rightarrow> bool" where
  "is_zero_guid guid \<longleftrightarrow> list_all (\<lambda>b. b = 0) guid"

definition format_disk ::
    "'d block_device \<Rightarrow> 'd gpt_env \<Rightarrow> u64 \<Rightarrow> (u64 \<times> u64 \<times> u64 \<times> u64, GptError) result \<times> 'd gpt_env" where
  "format_disk ops s ntfs_size_sectors =
     (let total_sectors = block_count ops (fst s) in
      if total_sectors < ESP_SIZE_SECTORS + 128 then (Err NoSpace, s)
      else
        let first_usable = GPT_FIRST_USABLE_LBA;
            last_usable = saturating_sub total_sectors (GPT_RESERVED_LBAS + 1);
            usable_total = last_usable - first_usable
        in if usable_total < ESP_SIZE_SECTORS + 1 then (Err NoSpace, s)
        else
          let esp_start = first_usable;
              esp_end = esp_start + ESP_SIZE_SECTORS - 1;
              ntfs_start = esp_end + 1;
              available = last_usable - ntfs_start;
              ntfs_size = (if ntfs_size_sectors = 0 \<or> available < ntfs_size_sectors then available
                           else ntfs_size_sectors);
              ntfs_end = ntfs_start + ntfs_size - 1;
              (guid1, counter) = generate_guid (snd s);
              (guid2, counter) = generate_guid counter;
              entries =
                [\<lparr>type_guid = ESP_GUID, unique_guid = guid1, start_lba = esp_start, end_lba = esp_end,
                  entry_attributes = 0, entry_name = str_to_utf16le (str ''EFI System'')\<rparr>,
                 \<lparr>type_guid = NTFS_GUID, unique_guid = guid2, start_lba = ntfs_start, end_lba = ntfs_end,
                  entry_attributes = 0, entry_name = str_to_utf16le (str ''Userspace'')\<rparr>]
          in sbind (write_gpt ops (fst s, counter) entries) (\<lambda>_ s.
               (Ok (esp_start, ESP_SIZE_SECTORS, ntfs_start, ntfs_size), s)))"

datatype PartitionKind = Esp | Ntfs | Unknown

record PartitionInfo =
  pi_kind :: PartitionKind
  pi_type_guid :: rstr
  pi_unique_guid :: rstr
  pi_start_lba :: u64
  pi_end_lba :: u64
  pi_size_bytes :: u64
  pi_attributes :: u64
  pi_name :: rstr

record GptInfo =
  gi_disk_guid :: rstr
  gi_sector_size :: nat
  gi_total_sectors :: u64
  gi_first_usable_lba :: u64
  gi_last_usable_lba :: u64
  gi_partitions :: "PartitionInfo list"

definition format_guid :: "u8 list \<Rightarrow> rstr" where
  "format_guid guid =
     hex_pad 8 (le_val (seg guid 0 4)) @ str ''-'' @ hex_pad 4 (le_val (seg guid 4 6)) @ str ''-''
     @ hex_pad 4 (le_val (seg guid 6 8)) @ str ''-''
     @ concat (map (\<lambda>b. hex_pad 2 (unat b)) (seg guid 8 10)) @ str ''-''
     @ concat (map (\<lambda>b. hex_pad 2 (unat b)) (seg guid 10 16))"

definition partition_info :: "nat \<Rightarrow> GptEntry \<Rightarrow> PartitionInfo" where
  "partition_info sector_size e =
     \<lparr>pi_kind = (if type_guid e = ESP_GUID then Esp else if type_guid e = NTFS_GUID then Ntfs else Unknown),
      pi_type_guid = format_guid (type_guid e), pi_unique_guid = format_guid (unique_guid e),
      pi_start_lba = start_lba e, pi_end_lba = end_lba e,
      pi_size_bytes = (end_lba e - start_lba e + 1) * of_nat sector_size,
      pi_attributes = entry_attributes e, pi_name = utf16le_to_str (entry_name e)\<rparr>"

definition read_disk :: "'d block_device \<Rightarrow> 'd \<Rightarrow> (GptInfo, GptError) result \<times> 'd" where
  "read_disk ops d =
     sbind (read_gpt ops d) (\<lambda>(header, entries) d.
       (Ok \<lparr>gi_disk_guid = format_guid (disk_guid header), gi_sector_size = block_size ops d,
            gi_total_sectors = block_count ops d, gi_first_usable_lba = first_usable_lba header,
            gi_last_usable_lba = last_usable_lba header,
            gi_partitions = map (partition_info (block_size ops d))
                           (filter (\<lambda>e. \<not> is_zero_guid (type_guid e)) entries)\<rparr>, d))"

definition find_partition_offset ::
    "'d block_device \<Rightarrow> u8 list \<Rightarrow> 'd \<Rightarrow> (u64, GptError) result \<times> 'd" where
  "find_partition_offset ops guid d =
     sbind (read_gpt ops d) (\<lambda>(_, entries) d.
       case find (\<lambda>e. type_guid e = guid) entries of
         Some entry \<Rightarrow> (Ok (start_lba entry * of_nat (block_size ops d)), d)
       | None \<Rightarrow> (Err GptError.NotFound, d))"

definition find_esp_offset :: "'d block_device \<Rightarrow> 'd \<Rightarrow> (u64, GptError) result \<times> 'd" where
  "find_esp_offset ops d = find_partition_offset ops ESP_GUID d"

definition find_ntfs_offset :: "'d block_device \<Rightarrow> 'd \<Rightarrow> (u64, GptError) result \<times> 'd" where
  "find_ntfs_offset ops d = find_partition_offset ops NTFS_GUID d"

definition create_ntfs_boot_sector :: "u64 \<Rightarrow> nat \<Rightarrow> (u8 list, GptError) result" where
  "create_ntfs_boot_sector total_sectors sector_size =
     (if sector_size < 512 then Err InvalidHeaderSize
      else rbind (vec_zeroed sector_size) (\<lambda>boot.
        copies_r boot
          [(0, 3, [0xEB, 0x52, 0x90]),
           (3, 11, [0x4E, 0x54, 0x46, 0x53, 0x20, 0x20, 0x20, 0x20]),
           (11, 13, le16 (sector_size mod 65536)),
           (13, 14, [8]),
           (40, 48, le64 total_sectors),
           (48, 56, le64 2),
           (72, 80, le64 0x123456789ABCDEF0),
           (510, 511, [0x55]),
           (511, 512, [0xAA])]))"

end
