(* ===== verification/BlockStore.thy ===== *)
theory BlockStore
  imports Hal
begin

text \<open>
  The contract the file system and partition code expects of a \<open>BlockDevice\<close>: a device is an array
  of bytes, an address counts blocks of \<open>granule\<close> bytes, a transfer of at most \<open>burst\<close> bytes within
  the capacity succeeds as long as the device is \<open>ready\<close> for one more request, a read returns the stored bytes, and a write changes the addressed bytes and
  at most the rest of the last block it touches. The partition code passes byte offsets as addresses
  (\<open>granule = 1\<close>) while the block drivers take sector numbers (\<open>granule = 512\<close>), so the contract
  leaves \<open>granule\<close> open.
\<close>

definition spill :: "nat \<Rightarrow> nat \<Rightarrow> nat" where
  "spill granule n = (n + granule - 1) div granule * granule"

lemma spill_ge: "0 < granule \<Longrightarrow> n \<le> spill granule n"
proof -
  assume g: "0 < granule"
  have "(n + granule - 1) mod granule < granule" using g by simp
  then have "n + granule - 1 < spill granule n + granule"
    using div_mult_mod_eq [of "n + granule - 1" granule] unfolding spill_def by linarith
  with g show ?thesis by linarith
qed

lemma spill_le_mult: "0 < granule \<Longrightarrow> spill granule n \<le> n * granule"
proof -
  assume g: "0 < granule"
  have "n \<le> n * granule" using g by simp
  then have "n + granule - 1 < (n + 1) * granule"
    using g unfolding add_mult_distrib by linarith
  then have "(n + granule - 1) div granule < n + 1"
    by (rule less_mult_imp_div_less)
  then have "(n + granule - 1) div granule \<le> n" by simp
  then show ?thesis unfolding spill_def by (rule mult_le_mono1)
qed

locale block_store =
  fixes ops :: "'d block_device"
    and granule :: nat
    and burst :: nat
    and capacity :: nat
    and bytes :: "'d \<Rightarrow> nat \<Rightarrow> u8"
    and ready :: "nat \<Rightarrow> 'd \<Rightarrow> bool"
  assumes granule_pos: "0 < granule"
    and ready_less: "ready n d \<Longrightarrow> k \<le> n \<Longrightarrow> ready k d"
    and read_ok: "ready (Suc n) d \<Longrightarrow> length buf \<le> burst \<Longrightarrow> unat a * granule + length buf \<le> capacity \<Longrightarrow>
      \<exists>d'. read_blocks ops d a buf = (Ok (map (\<lambda>i. bytes d (unat a * granule + i)) [0..<length buf]), d')
         \<and> ready n d' \<and> bytes d' = bytes d
         \<and> block_size ops d' = block_size ops d \<and> block_count ops d' = block_count ops d"
    and write_ok: "ready (Suc n) d \<Longrightarrow> length data \<le> burst \<Longrightarrow> unat a * granule + length data \<le> capacity \<Longrightarrow>
      \<exists>d'. write_blocks ops d a data = (Ok (), d') \<and> ready n d'
         \<and> (\<forall>i < length data. bytes d' (unat a * granule + i) = data ! i)
         \<and> (\<forall>p. p < unat a * granule \<or> unat a * granule + spill granule (length data) \<le> p
               \<longrightarrow> bytes d' p = bytes d p)
         \<and> block_size ops d' = block_size ops d \<and> block_count ops d' = block_count ops d"
begin

definition holds :: "'d \<Rightarrow> u64 \<Rightarrow> u8 list \<Rightarrow> bool" where
  "holds d a xs \<longleftrightarrow> (\<forall>i < length xs. bytes d (unat a * granule + i) = xs ! i)"

definition same_geometry :: "'d \<Rightarrow> 'd \<Rightarrow> bool" where
  "same_geometry d d' \<longleftrightarrow> block_size ops d' = block_size ops d \<and> block_count ops d' = block_count ops d"

definition kept :: "u64 \<Rightarrow> nat \<Rightarrow> 'd \<Rightarrow> 'd \<Rightarrow> bool" where
  "kept a n d d' \<longleftrightarrow>
     (\<forall>p. p < unat a * granule \<or> unat a * granule + n * granule \<le> p \<longrightarrow> bytes d' p = bytes d p)"

lemma read_holds:
  assumes "ready (Suc n) d" "holds d a xs" "length buf = length xs" "length xs \<le> burst"
    "unat a * granule + length xs \<le> capacity"
  obtains d' where "read_blocks ops d a buf = (Ok xs, d')" "ready n d'" "bytes d' = bytes d" "same_geometry d d'"
proof -
  have "map (\<lambda>i. bytes d (unat a * granule + i)) [0..<length buf] = xs"
    using assms(2,3) by (intro nth_equalityI) (auto simp: holds_def)
  with read_ok [OF assms(1), of buf a] assms(3-5) that show thesis
    by (auto simp: same_geometry_def)
qed

lemma write_holds:
  assumes "ready (Suc n) d" "length data \<le> burst" "unat a * granule + length data \<le> capacity"
  obtains d' where "write_blocks ops d a data = (Ok (), d')" "ready n d'" "holds d' a data"
    "kept a (length data) d d'" "same_geometry d d'"
proof -
  have "spill granule (length data) \<le> length data * granule"
    by (rule spill_le_mult [OF granule_pos])
  with write_ok [OF assms] that show thesis
    unfolding holds_def kept_def same_geometry_def by fastforce
qed

lemma holds_kept:
  assumes "holds d b ys" "kept a n d d'"
    and "unat b + length ys \<le> unat a \<or> unat a + n \<le> unat b"
  shows "holds d' b ys"
proof -
  have bound: "unat b * granule + i < (unat b + length ys) * granule" if "i < length ys" for i
  proof -
    have "i < length ys * granule" using that granule_pos
      by (metis One_nat_def Suc_leI less_le_trans mult.right_neutral mult_le_mono2)
    then show ?thesis by (simp add: add_mult_distrib)
  qed
  have out: "unat b * granule + i < unat a * granule \<or> (unat a + n) * granule \<le> unat b * granule + i"
    if "i < length ys" for i
    using assms(3)
  proof
    assume "unat b + length ys \<le> unat a"
    then have "(unat b + length ys) * granule \<le> unat a * granule" by (rule mult_le_mono1)
    with bound [OF that] show ?thesis by linarith
  next
    assume "unat a + n \<le> unat b"
    then have "(unat a + n) * granule \<le> unat b * granule" by (rule mult_le_mono1)
    then show ?thesis by linarith
  qed
  show ?thesis
    using assms(1,2) out unfolding holds_def kept_def add_mult_distrib by metis
qed

lemma holds_bytes_cong: "bytes d' = bytes d \<Longrightarrow> holds d' a xs = holds d a xs"
  by (simp add: holds_def)

lemma same_geometry_trans: "same_geometry d d' \<Longrightarrow> same_geometry d' d'' \<Longrightarrow> same_geometry d d''"
  by (simp add: same_geometry_def)

end

section \<open>A disk in memory\<close>

text \<open>
  A byte-addressed disk in memory, the device the partition code is written for: \<open>lba\<close> is a byte
  offset. It meets the contract, which shows that the contract can be met.
\<close>

definition ram_disk :: "nat \<Rightarrow> u64 \<Rightarrow> (nat \<Rightarrow> u8) block_device" where
  "ram_disk S N =
     \<lparr>read_blocks = (\<lambda>m a buf. (Ok (map (\<lambda>i. m (unat a + i)) [0..<length buf]), m)),
      write_blocks = (\<lambda>m a data. (Ok (), \<lambda>p. if unat a \<le> p \<and> p < unat a + length data
                                            then data ! (p - unat a) else m p)),
      block_size = (\<lambda>m. S), block_count = (\<lambda>m. N)\<rparr>"

lemma ram_disk_geometry [simp]: "block_size (ram_disk S N) m = S" "block_count (ram_disk S N) m = N"
  by (simp_all add: ram_disk_def)

lemma block_store_ram_disk: "block_store (ram_disk S N) 1 burst capacity (\<lambda>m. m) (\<lambda>n m. True)"
  by unfold_locales (auto simp: ram_disk_def spill_def)

end
