(* ===== verification/GptStore.thy ===== *)
theory GptStore
  imports GptDisk BlockStore
begin

text \<open>
  Partition tables on a conforming device: \<open>write_gpt\<close> followed by \<open>read_gpt\<close>, recovery from the backup
  header, and \<open>format_disk\<close> followed by the look-up of its partitions, all proved once against the
  contract \<open>block_store\<close>.
\<close>

lemma collect_parse_entries:
  "\<forall>e \<in> set es. wf_entry e \<Longrightarrow>
   collect_results (map parse_gpt_entry (map serialize_entry es)) = Ok es"
  by (induction es) (auto simp: parse_serialize_entry)

lemma chunks_serialize_entries:
  "\<forall>e \<in> set es. wf_entry e \<Longrightarrow> chunks_exact 128 (serialize_entries es) = map serialize_entry es"
  by (simp add: serialize_entries_def chunks_exact_concat)

lemma checked_mul_entries:
  "n \<le> 128 \<Longrightarrow> checked_mul (ucast (of_nat n :: u32)) (128 :: u64) = Some (of_nat (128 * n))"
  by (simp add: checked_mul_def unat_ucast_32_64 unat_of_nat word_unat_eq_iff unat_word_ariths)

text \<open>
  What a device of \<open>N\<close> blocks of \<open>S\<close> bytes must offer for a table of \<open>n\<close> entries: block sizes the
  header reader accepts, room between the two copies, and offsets that neither wrap nor leave the device.
\<close>

definition gpt_fits :: "nat \<Rightarrow> nat \<Rightarrow> nat \<Rightarrow> nat \<Rightarrow> nat \<Rightarrow> nat \<Rightarrow> bool" where
  "gpt_fits granule burst capacity S N n \<longleftrightarrow>
     512 \<le> S \<and> S \<le> 4096 \<and> n \<le> 128 \<and> 2 + (128 * n + S - 1) div S < N - 1 - 33
     \<and> (N - 1) * S < 2 ^ 64 \<and> (N - 1) * S * granule + S \<le> capacity \<and> S \<le> burst \<and> 128 * n \<le> burst"

lemma gpt_fits_room:
  assumes "gpt_fits granule burst capacity S N n"
  shows "2 * S + 128 * n \<le> (N - 1 - 32) * S" "(N - 1 - 32) * S + 128 * n \<le> (N - 1) * S"
    "36 < N" "2 * S < 2 ^ 64"
proof -
  let ?k = "(128 * n + S - 1) div S"
  have f: "512 \<le> S" "n \<le> 128" "2 + ?k < N - 1 - 33" "S \<le> 4096"
    using assms by (auto simp: gpt_fits_def)
  have k: "128 * n \<le> ?k * S"
    using spill_ge [of S "128 * n"] f(1) by (simp add: spill_def)
  have "(2 + ?k) * S \<le> (N - 1 - 32) * S" using f(3) by (intro mult_le_mono1) linarith
  with k show "2 * S + 128 * n \<le> (N - 1 - 32) * S" by (simp add: add_mult_distrib)
  have "(N - 1) * S = (N - 1 - 32) * S + 32 * S"
    using f(3) by (simp flip: add_mult_distrib)
  with f show "(N - 1 - 32) * S + 128 * n \<le> (N - 1) * S" by linarith
  show "36 < N" using f by linarith
  show "2 * S < 2 ^ 64" using f(4) by simp
qed

definition boot_signature :: "u8 list \<Rightarrow> bool" where
  "boot_signature xs \<longleftrightarrow> 512 \<le> length xs \<and> xs ! 510 = 0x55 \<and> xs ! 511 = 0xAA"

lemma write_protective_mbr_Ok:
  assumes "block_size ops (fst s) = S" "512 \<le> S" "S \<le> 4096"
  shows "\<exists>mbr. length mbr = S \<and> boot_signature mbr \<and> write_protective_mbr ops s last_lba = gpt_write_blocks ops s 0 mbr"
proof -
  have u: "unat (of_nat S :: u64) = S" using assms by (simp add: unat_of_nat)
  let ?us = "[(446, 447, [0x00]),
             (447, 448, [0x00]), (448, 449, [0x02]), (449, 450, [0x00]),
             (450, 451, [0xEE]),
             (451, 452, [0xFF]), (452, 453, [0xFF]), (453, 454, [0xFF]),
             (454, 458, le32 1),
             (458, 462, le32 (min (unat last_lba) 0xFFFFFFFF)),
             (510, 511, [0x55]), (511, 512, [0xAA :: u8])]"
  obtain mbr where m: "copies_r (replicate S 0) ?us = (Ok mbr :: (_, GptError) result)"
    using assms(2) copies_r_fold [of "replicate S 0" ?us] by (auto simp: list_all_def)
  have len: "length mbr = S" using copies_r_length [OF m] by simp
  have "copies_r (replicate S 0) ?us = (Ok (fold (\<lambda>(a, b :: nat, ys) xs. blit xs a ys) ?us (replicate S 0)) :: (_, GptError) result)"
    using assms(2) by (intro copies_r_fold) (auto simp: list_all_def)
  then have "mbr = fold (\<lambda>(a, b :: nat, ys) xs. blit xs a ys) ?us (replicate S 0)" using m by simp
  then obtain z where "mbr = blit (blit z 510 [0x55]) 511 [0xAA]" "length z = S"
    using assms(2) by (auto simp: length_blit)
  then have "boot_signature mbr" using assms(2) len by (simp add: boot_signature_def nth_blit length_blit)
  with m len show ?thesis
    using assms u by (auto simp: write_protective_mbr_def Let_def vec_zeroed_def)
qed

text \<open>The addresses that \<open>write_gpt\<close> computes, on a device where the table fits.\<close>

lemma gpt_fits_words:
  fixes N :: u64
  assumes fits: "gpt_fits granule burst capacity S (unat N) n"
  shows "unat (of_nat S :: u64) = S" "checked_sub N 1 = Some (N - 1)" "unat (N - 1) = unat N - 1"
    "unat (2 * of_nat S :: u64) = 2 * S"
    "unat ((N - 1 - 33 + 1) * of_nat S) = (unat N - 1 - 32) * S"
    "unat ((N - 1) * of_nat S) = (unat N - 1) * S"
    "unat (N - 1 - 33 + 1) = unat N - 1 - 32"
proof -
  note room = gpt_fits_room [OF fits]
  show us: "unat (of_nat S :: u64) = S" using fits by (simp add: gpt_fits_def unat_of_nat)
  show "checked_sub N 1 = Some (N - 1)" using room(3) by (simp add: checked_sub_def word_le_nat_alt)
  show ul: "unat (N - 1) = unat N - 1" using room(3) by (simp add: unat_sub word_le_nat_alt)
  show ub: "unat (N - 1 - 33 + 1) = unat N - 1 - 32"
    using room(3) ul unat_u64_less [of N] by (simp add: unat_word_ariths unat_sub word_le_nat_alt)
  show "unat (2 * of_nat S :: u64) = 2 * S" using us room(4) by (simp add: unat_word_ariths)
  show "unat ((N - 1) * of_nat S) = (unat N - 1) * S"
    using us ul fits by (simp add: unat_word_ariths gpt_fits_def)
  show "unat ((N - 1 - 33 + 1) * of_nat S) = (unat N - 1 - 32) * S"
  proof -
    have "(unat N - 1 - 32) * S < 2 ^ 64" using room(1,2) fits unfolding gpt_fits_def by linarith
    then show ?thesis using us ub by (simp only: unat_word_ariths) simp
  qed
qed

lemma gpt_fits_guard:
  fixes N :: u64
  assumes fits: "gpt_fits granule burst capacity S (unat N) n"
  shows "\<not> saturating_sub (N - 1) 33 \<le> 2 + (of_nat n * 128 + of_nat S - 1) div of_nat S"
proof -
  note w = gpt_fits_words [OF fits]
  have f: "512 \<le> S" "S \<le> 4096" "n \<le> 128" "2 + (128 * n + S - 1) div S < unat N - 1 - 33"
    using fits by (auto simp: gpt_fits_def)
  have "unat (of_nat n * 128 + of_nat S - 1 :: u64) = 128 * n + S - 1"
    using f(1-3) w(1) by (simp add: unat_word_ariths unat_of_nat unat_sub word_le_nat_alt)
  then have "unat ((of_nat n * 128 + of_nat S - 1) div of_nat S :: u64) = (128 * n + S - 1) div S"
    using w(1) by (simp add: unat_div)
  moreover have "2 + (128 * n + S - 1) div S < 2 ^ 64"
    using f(4) unat_u64_less [of N] by simp
  ultimately show ?thesis
    using f(4) w(3) by (simp add: word_le_nat_alt unat_saturating_sub unat_word_ariths)
qed

lemma gpt_fits_capacity:
  assumes fits: "gpt_fits granule burst capacity S N n" and "0 < granule" "x + k \<le> (N - 1) * S"
  shows "x * granule + k \<le> capacity"
proof -
  have "k \<le> k * granule" using assms(2) mult_le_mono2 [of 1 granule k] by simp
  moreover have "(x + k) * granule \<le> (N - 1) * S * granule" using assms(3) by (rule mult_le_mono1)
  ultimately have "x * granule + k \<le> (N - 1) * S * granule" unfolding add_mult_distrib by linarith
  with fits show ?thesis by (simp add: gpt_fits_def)
qed

lemma length_sealed_image:
  "length guid = 16 \<Longrightarrow> 92 \<le> unat sector \<Longrightarrow>
   length (sealed_image m a e crc l sector guid n) = unat sector"
  by (simp add: sealed_image_def header_image_def)

text \<open>Once its checks have passed, \<open>write_gpt\<close> is four writes after that of the protective MBR.\<close>

lemma write_gpt_writes:
  assumes fits: "gpt_fits granule burst capacity S (unat N) (length es)"
    and S: "S = block_size ops d" and N: "N = block_count ops d"
  shows "\<exists>mbr. length mbr = S \<and> boot_signature mbr \<and> write_gpt ops (d, c) es =
     (let s = of_nat S; l = N - 1; b = l - 33 + 1; ent = serialize_entries es; guid = fst (generate_guid c);
          hdr = (\<lambda>m a e. sealed_image m a e (crc32 ent) l s guid (of_nat (length es)))
      in sbind (gpt_write_blocks ops (d, c) 0 mbr) (\<lambda>_ t.
         sbind (gpt_write_blocks ops (fst t, snd (generate_guid (snd t))) (2 * s) ent) (\<lambda>_ t.
         sbind (gpt_write_blocks ops t (b * s) ent) (\<lambda>_ t.
         sbind (gpt_write_blocks ops t s (hdr 1 l 2)) (\<lambda>_ t.
         gpt_write_blocks ops t (l * s) (hdr l 1 b))))))"
proof -
  have f: "512 \<le> S" "S \<le> 4096" "length es \<le> 128" using fits by (auto simp: gpt_fits_def)
  obtain mbr where mbr: "length mbr = S"
      "write_protective_mbr ops (d, c) (N - 1) = gpt_write_blocks ops (d, c) 0 mbr" "boot_signature mbr"
    using write_protective_mbr_Ok [of ops "(d, c)" S "N - 1"] f(1,2) S by auto
  have guid: "length (fst (generate_guid c)) = 16" by (simp add: generate_guid_def Let_def)
  have build: "build_header m a e (crc32 ent) l (of_nat S) (fst (generate_guid c)) k
      = Ok (header_image m a e (crc32 ent) l (of_nat S) (fst (generate_guid c)) k (zeros 4))" for m a e l k ent
    by (rule build_header_image) (use f(1,2) guid gpt_fits_words(1) [OF fits] in auto)
  have fin: "finalize_header_crc (header_image m a e (crc32 ent) l (of_nat S) (fst (generate_guid c)) k (zeros 4))
      = Ok (sealed_image m a e (crc32 ent) l (of_nat S) (fst (generate_guid c)) k)" for m a e l k ent
    using finalize_header_image [of "zeros 4"] guid by (simp add: sealed_image_def)
  obtain r d1 where g: "gpt_write_blocks ops (d, c) 0 mbr = (r, d1, c)"
    by (cases "write_blocks ops d 0 mbr") (auto simp: gpt_write_blocks_def)
  have nz: "(of_nat S :: u64) \<noteq> 0" using f(1) gpt_fits_words(1) [OF fits] by auto
  have small: "\<not> GPT_MAX_ENTRIES < length es" using f(3) by (simp add: gpt_consts)
  have "write_gpt ops (d, c) es =
     (let s = of_nat S; l = N - 1; b = l - 33 + 1; ent = serialize_entries es; guid = fst (generate_guid c);
          hdr = (\<lambda>m a e. sealed_image m a e (crc32 ent) l s guid (of_nat (length es)))
      in sbind (gpt_write_blocks ops (d, c) 0 mbr) (\<lambda>_ t.
         sbind (gpt_write_blocks ops (fst t, snd (generate_guid (snd t))) (2 * s) ent) (\<lambda>_ t.
         sbind (gpt_write_blocks ops t (b * s) ent) (\<lambda>_ t.
         sbind (gpt_write_blocks ops t s (hdr 1 l 2)) (\<lambda>_ t.
         gpt_write_blocks ops t (l * s) (hdr l 1 b))))))"
    unfolding write_gpt_def Let_def fst_conv S [symmetric] N [symmetric] gpt_fits_words(2) [OF fits]
      mbr(2) g if_not_P [OF small]
    using gpt_fits_guard [OF fits] nz
    by (cases r) (simp_all add: mbr(2) g gpt_consts build fin case_prod_beta)
  with mbr(1,3) show ?thesis by blast
qed

context block_store
begin

lemma gpt_write_holds:
  assumes "ready (Suc n) d" "length data \<le> burst" "unat a * granule + length data \<le> capacity"
  obtains d' where "gpt_write_blocks ops (d, c) a data = (Ok (), d', c)" "ready n d'" "holds d' a data"
    "kept a (length data) d d'" "same_geometry d d'"
  using write_holds [OF assms] by (metis (no_types, lifting) case_prod_conv fst_conv gpt_write_blocks_def map_err.simps(1) snd_conv)

lemma read_entries_holds:
  assumes "ready (Suc n) d" "holds d a (serialize_entries es)" "\<forall>e \<in> set es. wf_entry e" "length es \<le> 128"
    "128 * length es \<le> burst" "unat a * granule + 128 * length es \<le> capacity"
    and a: "checked_mul pel sector = Some a"
  obtains d' where "read_entries ops d sector (header_fields my alt pel ecrc last_lba guid (of_nat (length es)) crc) = (Ok es, d')"
    "ready n d'" "bytes d' = bytes d" "same_geometry d d'"
proof -
  have l: "length (serialize_entries es) = 128 * length es"
    using assms(3) by (rule length_serialize_entries)
  have n: "unat (of_nat (128 * length es) :: u64) = 128 * length es"
    using assms(4) by (simp add: unat_word_ariths unat_of_nat)
  have small: "\<not> 512 < (of_nat (length es) :: u32)"
    using assms(4) by (simp add: word_less_nat_alt unat_of_nat)
  obtain d' where d': "read_blocks ops d a (replicate (128 * length es) 0) = (Ok (serialize_entries es), d')"
      "ready n d'" "bytes d' = bytes d" "same_geometry d d'"
    using read_holds [of n d a "serialize_entries es" "replicate (128 * length es) 0"] assms l by auto
  have "read_entries ops d sector (header_fields my alt pel ecrc last_lba guid (of_nat (length es)) crc) = (Ok es, d')"
    using assms(3,4) a d'(1) small n
    by (simp add: read_entries_def header_fields_def gpt_consts checked_mul_entries gpt_read_blocks_def
        chunks_serialize_entries collect_parse_entries del: of_nat_mult map_map)
  with d' that show thesis by blast
qed


definition gpt_laid_out :: "'d \<Rightarrow> u8 list \<Rightarrow> GptEntry list \<Rightarrow> bool" where
  "gpt_laid_out d guid es \<longleftrightarrow>
     (let S = of_nat (block_size ops d); L = block_count ops d - 1;
          crc = crc32 (serialize_entries es); num = of_nat (length es)
      in holds d S (sealed_image 1 L 2 crc L S guid num)
       \<and> holds d (L * S) (sealed_image L 1 (L - 33 + 1) crc L S guid num)
       \<and> holds d (2 * S) (serialize_entries es)
       \<and> holds d ((L - 33 + 1) * S) (serialize_entries es))"

lemma write_gpt_lays_out:
  assumes "ready (n + 5) d" and wf: "\<forall>e \<in> set es. wf_entry e"
    and fits: "gpt_fits granule burst capacity (block_size ops d) (unat (block_count ops d)) (length es)"
  obtains d' where "write_gpt ops (d, c) es = (Ok (), d', snd (generate_guid c))" "ready n d'"
    "same_geometry d d'" "gpt_laid_out d' (fst (generate_guid c)) es"
    "\<exists>mbr. length mbr = block_size ops d \<and> boot_signature mbr \<and> holds d' 0 mbr"
proof -
  define S where "S = block_size ops d"
  define s :: u64 where "s = of_nat S"
  define l :: u64 where "l = block_count ops d - 1"
  define b :: u64 where "b = l - 33 + 1"
  define ent where "ent = serialize_entries es"
  define guid where "guid = fst (generate_guid c)"
  define hdr where "hdr = (\<lambda>m a e. sealed_image m a e (crc32 ent) l s guid (of_nat (length es)))"
  let ?c = "snd (generate_guid c)" and ?N = "unat (block_count ops d)" and ?n = "length es"
  note fits = fits [folded S_def]
  note w = gpt_fits_words [OF fits, folded s_def l_def, folded b_def]
  note room = gpt_fits_room [OF fits]
  note cap = gpt_fits_capacity [OF fits granule_pos]
  have f: "512 \<le> S" "S \<le> burst" "128 * ?n \<le> burst" "(?N - 1) * S * granule + S \<le> capacity"
    using fits by (auto simp: gpt_fits_def)
  have budget: "n + 1 = Suc (n + 0)" "n + 2 = Suc (n + 1)" "n + 3 = Suc (n + 2)" "n + 4 = Suc (n + 3)" "n + 5 = Suc (n + 4)" by simp_all
  have guid: "length guid = 16" by (simp add: guid_def generate_guid_def Let_def)
  have len: "length (hdr m a e) = S" "length ent = 128 * ?n" for m a e
    using f(1) w(1) guid wf by (simp_all add: hdr_def length_sealed_image ent_def length_serialize_entries)
  obtain mbr where sig: "boot_signature mbr" and mbr: "length mbr = S" "write_gpt ops (d, c) es =
      sbind (gpt_write_blocks ops (d, c) 0 mbr) (\<lambda>_ t.
         sbind (gpt_write_blocks ops (fst t, snd (generate_guid (snd t))) (2 * s) ent) (\<lambda>_ t.
         sbind (gpt_write_blocks ops t (b * s) ent) (\<lambda>_ t.
         sbind (gpt_write_blocks ops t s (hdr 1 l 2)) (\<lambda>_ t.
         gpt_write_blocks ops t (l * s) (hdr l 1 b)))))"
    using write_gpt_writes [OF fits S_def refl, of c]
    by (auto simp: Let_def hdr_def s_def l_def b_def ent_def guid_def)
  have two: "0 + S \<le> (?N - 1) * S" "S + S \<le> (?N - 1) * S" using room(1,2) by linarith+
  have bounds: "length mbr \<le> burst" "unat (0 :: u64) * granule + length mbr \<le> capacity"
    "length ent \<le> burst" "unat (2 * s) * granule + length ent \<le> capacity"
    "unat (b * s) * granule + length ent \<le> capacity"
    "length (hdr m a e) \<le> burst" "unat s * granule + length (hdr m a e) \<le> capacity"
    "unat (l * s) * granule + length (hdr m a e) \<le> capacity" for m a e
    unfolding mbr(1) len w using f cap [OF two(1)] cap [OF two(2)] cap [OF room(2)]
      cap [of "2 * S" "128 * ?n"] room(1,2) by auto
  obtain d0 where d0: "gpt_write_blocks ops (d, c) 0 mbr = (Ok (), d0, c)" "ready (n + 4) d0" "same_geometry d d0"
      "holds d0 0 mbr"
    using gpt_write_holds [OF assms(1) [unfolded budget(5)] bounds(1,2), of c] by blast
  obtain d1 where d1: "gpt_write_blocks ops (d0, ?c) (2 * s) ent = (Ok (), d1, ?c)" "ready (n + 3) d1"
      "holds d1 (2 * s) ent" "same_geometry d0 d1" "kept (2 * s) (128 * ?n) d0 d1"
    using gpt_write_holds [OF d0(2) [unfolded budget(4)] bounds(3,4), of ?c, unfolded len] by blast
  obtain d2 where d2: "gpt_write_blocks ops (d1, ?c) (b * s) ent = (Ok (), d2, ?c)" "ready (n + 2) d2"
      "holds d2 (b * s) ent" "kept (b * s) (128 * ?n) d1 d2" "same_geometry d1 d2"
    using gpt_write_holds [OF d1(2) [unfolded budget(3)] bounds(3,5), of ?c, unfolded len] by blast
  obtain d3 where d3: "gpt_write_blocks ops (d2, ?c) s (hdr 1 l 2) = (Ok (), d3, ?c)" "ready (n + 1) d3"
      "holds d3 s (hdr 1 l 2)" "kept s S d2 d3" "same_geometry d2 d3"
    using gpt_write_holds [OF d2(2) [unfolded budget(2)] bounds(6,7), of ?c, unfolded len] by blast
  obtain d4 where d4: "gpt_write_blocks ops (d3, ?c) (l * s) (hdr l 1 b) = (Ok (), d4, ?c)" "ready (n + 0) d4"
      "holds d4 (l * s) (hdr l 1 b)" "kept (l * s) S d3 d4" "same_geometry d3 d4"
    using gpt_write_holds [OF d3(2) [unfolded budget(1)] bounds(6,8), of ?c, unfolded len] by blast
  have geo: "same_geometry d d4"
    using d0(3) d1(4) d2(5) d3(5) d4(5) by (auto simp: same_geometry_def)
  have e1: "holds d4 (2 * s) ent"
    by (rule holds_kept [OF holds_kept [OF holds_kept [OF d1(3) d2(4)] d3(4)] d4(4)])
      (use w room len in linarith)+
  have e2: "holds d4 (b * s) ent"
    by (rule holds_kept [OF holds_kept [OF d2(3) d3(4)] d4(4)]) (use w room len in linarith)+
  have p: "holds d4 s (hdr 1 l 2)"
    by (rule holds_kept [OF d3(3) d4(4)]) (use two in \<open>simp add: len w\<close>)
  have "unat (0 :: u64) + length mbr \<le> unat (2 * s)" "unat (0 :: u64) + length mbr \<le> unat (b * s)"
      "unat (0 :: u64) + length mbr \<le> unat s" "unat (0 :: u64) + length mbr \<le> unat (l * s)"
    using w room two mbr(1) unfolding unat_0 by linarith+
  then have "holds d4 0 mbr"
    by (intro holds_kept [OF holds_kept [OF holds_kept [OF holds_kept [OF d0(4) d1(5)] d2(4)] d3(4)] d4(4)])
      (blast intro: disjI1)+
  moreover have "gpt_laid_out d4 guid es"
    using e1 e2 p d4(3) geo
    by (simp add: gpt_laid_out_def Let_def same_geometry_def hdr_def s_def l_def b_def ent_def S_def)
  ultimately show thesis
    using mbr sig d0(1) d1(1) d2(1) d3(1) d4(1,2) geo that by (auto simp: guid_def S_def)
qed

lemma read_header_raw_holds:
  assumes "ready (Suc n) d" "holds d a img" "length img = unat sector" "unat sector \<le> 4096" "unat sector \<le> burst"
    "unat a * granule + unat sector \<le> capacity" "checked_mul lba sector = Some a"
  obtains d' where "read_header_raw ops d lba sector
      = (Ok (if get_slice img 0 8 = Some GPT_SIGNATURE then Some img else None), d')"
    "ready n d'" "bytes d' = bytes d" "same_geometry d d'"
proof -
  have l: "length (replicate (unat sector) (0 :: u8)) = length img" using assms(3) by simp
  obtain d' where d': "read_blocks ops d a (replicate (unat sector) 0) = (Ok img, d')" "ready n d'"
      "bytes d' = bytes d" "same_geometry d d'"
    using read_holds [OF assms(1,2) l] assms(3,5,6) by metis
  have "\<not> 4096 < unat sector" using assms(4) by simp
  then have "read_header_raw ops d lba sector
      = (Ok (if get_slice img 0 8 = Some GPT_SIGNATURE then Some img else None), d')"
    unfolding read_header_raw_def assms(7) by (simp only: if_False option.case d'(1) prod.case result.case)
  with d'(2-4) that show thesis by blast
qed

text \<open>A header found in any block leads to the entry array it names.\<close>

lemma read_gpt_located:
  assumes "locate_header ops d (of_nat (block_size ops d))
      = (Ok (sealed_image my alt pel (crc32 (serialize_entries es)) l sector guid (of_nat (length es))), d1)"
    and "ready (Suc n) d1" "length guid = 16"
    and "holds d1 a (serialize_entries es)" "checked_mul pel (of_nat (block_size ops d)) = Some a"
    and "\<forall>e \<in> set es. wf_entry e" "length es \<le> 128"
    and "128 * length es \<le> burst" "unat a * granule + 128 * length es \<le> capacity"
  shows "\<exists>hdr d'. read_gpt ops d = (Ok (hdr, es), d') \<and> same_geometry d1 d' \<and> my_lba hdr = my
     \<and> disk_guid hdr = guid"
proof -
  obtain crc where crc: "parse_header (sealed_image my alt pel (crc32 (serialize_entries es)) l sector guid (of_nat (length es)))
     = Ok (header_fields my alt pel (crc32 (serialize_entries es)) l guid (of_nat (length es)) crc)"
    using assms(3) by (auto simp: sealed_image_def parse_header_image)
  let ?h = "header_fields my alt pel (crc32 (serialize_entries es)) l guid (of_nat (length es)) crc"
  have v: "validate_header ?h = Ok ()"
    by (simp add: validate_header_def header_fields_def)
  obtain d' where "read_entries ops d1 (of_nat (block_size ops d)) ?h = (Ok es, d')" "same_geometry d1 d'"
    using read_entries_holds [OF assms(2,4,6-9,5)] by metis
  moreover have "verify_entries_crc es (partition_array_crc32 ?h) = Ok ()"
    by (simp add: verify_entries_crc_def header_fields_def)
  ultimately show ?thesis
    using assms(1) crc v by (simp add: read_gpt_def) (simp add: header_fields_def)
qed

lemma get_slice_sealed: "get_slice (sealed_image my alt pel ecrc l sector guid n) 0 8 = Some GPT_SIGNATURE"
  by (simp add: get_slice_def sealed_image_def header_image_def seg_def)

lemma locate_primary:
  assumes "ready (Suc n) d" "length guid = 16" and lay: "gpt_laid_out d guid es"
    and fits: "gpt_fits granule burst capacity (block_size ops d) (unat (block_count ops d)) (length es)"
  obtains d' where "locate_header ops d (of_nat (block_size ops d))
      = (Ok (sealed_image 1 (block_count ops d - 1) 2 (crc32 (serialize_entries es)) (block_count ops d - 1)
           (of_nat (block_size ops d)) guid (of_nat (length es))), d')"
    "ready n d'" "bytes d' = bytes d" "same_geometry d d'"
proof -
  let ?s = "of_nat (block_size ops d) :: u64" and ?l = "block_count ops d - 1"
  let ?img = "sealed_image 1 ?l 2 (crc32 (serialize_entries es)) ?l ?s guid (of_nat (length es))"
  note w = gpt_fits_words [OF fits] and room = gpt_fits_room [OF fits]
  have f: "512 \<le> block_size ops d" "block_size ops d \<le> 4096" "block_size ops d \<le> burst"
    using fits by (auto simp: gpt_fits_def)
  have "block_size ops d + block_size ops d \<le> (unat (block_count ops d) - 1) * block_size ops d"
    using room(1,2) by linarith
  then have cap: "unat ?s * granule + unat ?s \<le> capacity"
    unfolding w(1) by (rule gpt_fits_capacity [OF fits granule_pos])
  have h: "holds d ?s ?img" using lay by (simp add: gpt_laid_out_def Let_def)
  have len: "length ?img = unat ?s" using assms(2) f(1) w(1) by (simp add: length_sealed_image)
  have m: "checked_mul 1 ?s = Some ?s" using unat_u64_less [of ?s] by (simp add: checked_mul_def)
  obtain d' where "read_header_raw ops d 1 ?s = (Ok (Some ?img), d')" "ready n d'" "bytes d' = bytes d"
      "same_geometry d d'"
    using read_header_raw_holds [OF assms(1) h len _ _ cap m] f(2,3)
    unfolding w(1) get_slice_sealed if_P [OF refl] by blast
  with verify_sealed_image [OF assms(2), of 1 ?l 2 "crc32 (serialize_entries es)" ?l ?s "of_nat (length es)"] that
  show thesis by (auto simp: locate_header_def)
qed

lemma locate_backup:
  assumes "ready (Suc (Suc k)) d" "length guid = 16"
    and junk: "holds d (of_nat (block_size ops d)) junk" "length junk = block_size ops d"
      "\<not> is_ok (parse_and_verify_header junk)"
    and backup: "holds d ((block_count ops d - 1) * of_nat (block_size ops d)) img"
      "img = sealed_image (block_count ops d - 1) 1 (block_count ops d - 1 - 33 + 1) ecrc
         (block_count ops d - 1) (of_nat (block_size ops d)) guid (of_nat n)"
    and fits: "gpt_fits granule burst capacity (block_size ops d) (unat (block_count ops d)) n"
  obtains d' where "locate_header ops d (of_nat (block_size ops d)) = (Ok img, d')"
    "ready k d'" "bytes d' = bytes d" "same_geometry d d'"
proof -
  let ?s = "of_nat (block_size ops d) :: u64" and ?l = "block_count ops d - 1"
  note w = gpt_fits_words [OF fits] and room = gpt_fits_room [OF fits]
  have f: "512 \<le> block_size ops d" "block_size ops d \<le> 4096" "block_size ops d \<le> burst"
      "(unat (block_count ops d) - 1) * block_size ops d * granule + block_size ops d \<le> capacity"
    using fits by (auto simp: gpt_fits_def)
  have "block_size ops d + block_size ops d \<le> (unat (block_count ops d) - 1) * block_size ops d"
    using room(1,2) by linarith
  then have cap: "unat ?s * granule + unat ?s \<le> capacity" "unat (?l * ?s) * granule + unat ?s \<le> capacity"
    unfolding w(1,6) using f(4) gpt_fits_capacity [OF fits granule_pos] by auto
  have len: "length junk = unat ?s" "length img = unat ?s"
    using assms(2) junk(2) f(1) w(1) by (simp_all add: backup(2) length_sealed_image)
  have m: "checked_mul 1 ?s = Some ?s" "checked_mul ?l ?s = Some (?l * ?s)"
    using unat_u64_less [of ?s] fits w(1,3) by (simp_all add: checked_mul_def gpt_fits_def)
  have small: "unat ?s \<le> 4096" "unat ?s \<le> burst" using f(2,3) w(1) by simp_all
  obtain d1 where d1: "read_header_raw ops d 1 ?s
      = (Ok (if get_slice junk 0 8 = Some GPT_SIGNATURE then Some junk else None), d1)"
      "ready (Suc k) d1" "bytes d1 = bytes d" "same_geometry d d1"
    using read_header_raw_holds [OF assms(1) junk(1) len(1) small cap(1) m(1)] by blast
  have h1: "holds d1 (?l * ?s) img" using backup(1) holds_bytes_cong [OF d1(3)] by simp
  have sig: "get_slice img 0 8 = Some GPT_SIGNATURE" by (simp add: backup(2) get_slice_sealed)
  obtain d2 where d2: "read_header_raw ops d1 ?l ?s = (Ok (Some img), d2)"
      "ready k d2" "bytes d2 = bytes d1" "same_geometry d1 d2"
    using read_header_raw_holds [OF d1(2) h1 len(2) small cap(2) m(2)] unfolding sig if_P [OF refl] by blast
  have nopanic: "parse_and_verify_header junk \<noteq> Panic"
    by (auto simp: parse_and_verify_header_def parse_header_def validate_header_def slice_r_def copy_r_def
        gpt_consts split: if_splits)
  obtain hdr where "parse_and_verify_header img = Ok (img, hdr)"
    using verify_sealed_image [OF assms(2)] unfolding backup(2) by blast
  then have "locate_header ops d ?s = (Ok img, d2)"
    using d1(1,4) d2(1) junk(3) w(2) nopanic
    by (cases "parse_and_verify_header junk") (auto simp: locate_header_def same_geometry_def)
  with d1 d2 that show thesis by (auto intro: same_geometry_trans)
qed

lemma gpt_fits_entries:
  assumes fits: "gpt_fits granule burst capacity (block_size ops d) (unat (block_count ops d)) n"
  shows "checked_mul 2 (of_nat (block_size ops d) :: u64) = Some (2 * of_nat (block_size ops d))"
    "unat (2 * of_nat (block_size ops d) :: u64) * granule + 128 * n \<le> capacity"
    "checked_mul (block_count ops d - 1 - 33 + 1) (of_nat (block_size ops d))
       = Some ((block_count ops d - 1 - 33 + 1) * of_nat (block_size ops d))"
    "unat ((block_count ops d - 1 - 33 + 1) * of_nat (block_size ops d)) * granule + 128 * n \<le> capacity"
proof -
  note w = gpt_fits_words [OF fits] and room = gpt_fits_room [OF fits]
  note cap = gpt_fits_capacity [OF fits granule_pos]
  have "unat (2 :: u64) * unat (of_nat (block_size ops d) :: u64) < 2 ^ 64" using w(1) room(4) by simp
  then show "checked_mul 2 (of_nat (block_size ops d) :: u64) = Some (2 * of_nat (block_size ops d))"
    by (simp add: checked_mul_def)
  have "(unat (block_count ops d) - 1 - 32) * block_size ops d < 2 ^ 64"
    using room(1,2) fits unfolding gpt_fits_def by linarith
  then show "checked_mul (block_count ops d - 1 - 33 + 1) (of_nat (block_size ops d))
       = Some ((block_count ops d - 1 - 33 + 1) * of_nat (block_size ops d))"
    unfolding checked_mul_def w(1,7) by simp
  show "unat (2 * of_nat (block_size ops d) :: u64) * granule + 128 * n \<le> capacity"
    unfolding w(4) using room(1,2) by (intro cap) linarith
  show "unat ((block_count ops d - 1 - 33 + 1) * of_nat (block_size ops d)) * granule + 128 * n \<le> capacity"
    unfolding w(5) by (rule cap [OF room(2)])
qed

theorem read_laid_out:
  assumes "ready 2 d" "length guid = 16" "gpt_laid_out d guid es" "\<forall>e \<in> set es. wf_entry e"
    and fits: "gpt_fits granule burst capacity (block_size ops d) (unat (block_count ops d)) (length es)"
  shows "\<exists>hdr d'. read_gpt ops d = (Ok (hdr, es), d') \<and> my_lba hdr = 1 \<and> disk_guid hdr = guid
     \<and> same_geometry d d'"
proof -
  have f: "length es \<le> 128" "128 * length es \<le> burst" using fits by (auto simp: gpt_fits_def)
  obtain d1 where d1: "locate_header ops d (of_nat (block_size ops d))
      = (Ok (sealed_image 1 (block_count ops d - 1) 2 (crc32 (serialize_entries es)) (block_count ops d - 1)
           (of_nat (block_size ops d)) guid (of_nat (length es))), d1)"
    "ready (Suc 0) d1" "bytes d1 = bytes d" "same_geometry d d1"
    using locate_primary [OF assms(1) [unfolded numeral_2_eq_2] assms(2,3) fits] by blast
  have "holds d1 (2 * of_nat (block_size ops d)) (serialize_entries es)"
    using assms(3) holds_bytes_cong [OF d1(3)] by (simp add: gpt_laid_out_def Let_def)
  from read_gpt_located [OF d1(1,2) assms(2) this gpt_fits_entries(1) [OF fits] assms(4) f
      gpt_fits_entries(2) [OF fits]] d1(4)
  show ?thesis by (metis same_geometry_trans)
qed

theorem read_recovers:
  assumes "ready 4 d" "length guid = 16" "gpt_laid_out d guid es" "\<forall>e \<in> set es. wf_entry e"
    and fits: "gpt_fits granule burst capacity (block_size ops d) (unat (block_count ops d)) (length es)"
    and junk: "length junk = block_size ops d" "\<not> is_ok (parse_and_verify_header junk)"
    and wr: "write_blocks ops d (of_nat (block_size ops d)) junk = (r, d')"
  shows "\<exists>hdr d''. read_gpt ops d' = (Ok (hdr, es), d'') \<and> my_lba hdr = block_count ops d - 1
     \<and> disk_guid hdr = guid"
proof -
  let ?s = "of_nat (block_size ops d) :: u64" and ?l = "block_count ops d - 1"
  let ?ent = "serialize_entries es" and ?b = "block_count ops d - 1 - 33 + 1"
  define img where "img = sealed_image ?l 1 ?b (crc32 ?ent) ?l ?s guid (of_nat (length es))"
  note w = gpt_fits_words [OF fits] and room = gpt_fits_room [OF fits]
  have f: "512 \<le> block_size ops d" "length es \<le> 128" "128 * length es \<le> burst" "block_size ops d \<le> burst"
    using fits by (auto simp: gpt_fits_def)
  have two: "block_size ops d + block_size ops d \<le> (unat (block_count ops d) - 1) * block_size ops d"
    using room(1,2) by linarith
  have "unat ?s * granule + length junk \<le> capacity"
    unfolding w(1) junk(1) by (rule gpt_fits_capacity [OF fits granule_pos two])
  moreover have "ready (Suc (Suc (Suc (Suc 0)))) d" using assms(1) by (simp add: eval_nat_numeral)
  ultimately obtain d0 where "write_blocks ops d ?s junk = (Ok (), d0)" "ready (Suc (Suc (Suc 0))) d0" "holds d0 ?s junk"
      "kept ?s (length junk) d d0" "same_geometry d d0"
    using write_holds f(4) junk(1) by metis
  then have d': "ready (Suc (Suc (Suc 0))) d'" "holds d' ?s junk" "kept ?s (block_size ops d) d d'" "same_geometry d d'"
    using wr junk(1) by auto
  have lay: "holds d (?l * ?s) img" "holds d (?b * ?s) ?ent" "length img = block_size ops d"
    using assms(2,3) f(1) w(1) by (simp_all add: gpt_laid_out_def Let_def img_def length_sealed_image)
  have h: "holds d' (?l * ?s) img" "holds d' (?b * ?s) ?ent"
    by (rule holds_kept [OF lay(1) d'(3)], use w two in simp)
      (rule holds_kept [OF lay(2) d'(3)], use w room two in linarith)
  note geo = d'(4) [unfolded same_geometry_def]
  obtain d1 where d1: "locate_header ops d' (of_nat (block_size ops d')) = (Ok img, d1)" "ready (Suc 0) d1"
      "bytes d1 = bytes d'"
    using locate_backup [of "Suc 0" d' guid junk img "crc32 ?ent" "length es"] d'(1,2) h(1) junk assms(2) fits geo
    by (auto simp: img_def)
  have "holds d1 (?b * ?s) ?ent" using h(2) holds_bytes_cong [OF d1(3)] by simp
  from read_gpt_located [OF d1(1) [unfolded img_def] d1(2) assms(2) this _ assms(4) f(2,3)] 
    gpt_fits_entries(3,4) [OF fits] geo
  show ?thesis by auto
qed

theorem write_then_read:
  assumes "ready 7 d" "\<forall>e \<in> set es. wf_entry e"
    and fits: "gpt_fits granule burst capacity (block_size ops d) (unat (block_count ops d)) (length es)"
  obtains d' where "write_gpt ops (d, c) es = (Ok (), d', snd (generate_guid c))" "ready 2 d'" "same_geometry d d'"
    "gpt_laid_out d' (fst (generate_guid c)) es"
    "\<exists>hdr d''. read_gpt ops d' = (Ok (hdr, es), d'') \<and> my_lba hdr = 1
       \<and> disk_guid hdr = fst (generate_guid c) \<and> same_geometry d' d''"
    "\<exists>mbr. length mbr = block_size ops d \<and> boot_signature mbr \<and> holds d' 0 mbr"
proof -
  obtain d' where d': "write_gpt ops (d, c) es = (Ok (), d', snd (generate_guid c))" "ready 2 d'"
    "same_geometry d d'" "gpt_laid_out d' (fst (generate_guid c)) es"
    "\<exists>mbr. length mbr = block_size ops d \<and> boot_signature mbr \<and> holds d' 0 mbr"
    using write_gpt_lays_out [of 2, OF _ assms(2) fits] assms(1) by auto
  have "length (fst (generate_guid c)) = 16" by (simp add: generate_guid_def Let_def)
  with d' read_laid_out [of d'] assms(2) fits that show thesis by (simp add: same_geometry_def)
qed

theorem write_damage_read:
  assumes "ready 9 d" "\<forall>e \<in> set es. wf_entry e"
    and fits: "gpt_fits granule burst capacity (block_size ops d) (unat (block_count ops d)) (length es)"
    and junk: "length junk = block_size ops d" "\<not> is_ok (parse_and_verify_header junk)"
  shows "\<exists>d1 r d2 hdr d3. write_gpt ops (d, c) es = (Ok (), d1, snd (generate_guid c))
    \<and> write_blocks ops d1 (of_nat (block_size ops d)) junk = (r, d2)
    \<and> read_gpt ops d2 = (Ok (hdr, es), d3)
    \<and> my_lba hdr = block_count ops d - 1 \<and> disk_guid hdr = fst (generate_guid c)"
proof -
  obtain d1 where d1: "write_gpt ops (d, c) es = (Ok (), d1, snd (generate_guid c))" "ready 4 d1"
    "same_geometry d d1" "gpt_laid_out d1 (fst (generate_guid c)) es"
    using write_gpt_lays_out [of 4, OF _ assms(2) fits] assms(1) by auto
  obtain r d2 where w: "write_blocks ops d1 (of_nat (block_size ops d)) junk = (r, d2)" by fastforce
  have guid: "length (fst (generate_guid c)) = 16" by (simp add: generate_guid_def Let_def)
  have geo: "block_size ops d1 = block_size ops d" "block_count ops d1 = block_count ops d"
    using d1(3) by (simp_all add: same_geometry_def)
  from read_recovers [OF d1(2) guid d1(4) assms(2), unfolded geo, OF fits junk w] d1(1) w
  show ?thesis by blast
qed

end

section \<open>The partition table on any conforming device\<close>

text \<open>
  C1: on a device that keeps the \<open>BlockDevice\<close> contract and has room, \<open>write_gpt\<close> succeeds and
  \<open>read_gpt\<close> then returns exactly the entries written, from the primary header, with the disk GUID
  that was generated.
\<close>

theorem write_gpt_read_gpt:
  assumes "block_store ops granule burst capacity bytes ready" "ready 7 d" "\<forall>e \<in> set es. wf_entry e"
    and "gpt_fits granule burst capacity (block_size ops d) (unat (block_count ops d)) (length es)"
  shows "\<exists>d' hdr d''. write_gpt ops (d, c) es = (Ok (), d', snd (generate_guid c))
    \<and> read_gpt ops d' = (Ok (hdr, es), d'') \<and> my_lba hdr = 1 \<and> disk_guid hdr = fst (generate_guid c)"
  using block_store.write_then_read [OF assms] by metis

theorem write_gpt_read_gpt_witness:
  "\<exists>d' hdr d''. write_gpt (ram_disk 512 2048) (\<lambda>_. 0, 7) [] = (Ok (), d', snd (generate_guid 7))
    \<and> read_gpt (ram_disk 512 2048) d' = (Ok (hdr, []), d'') \<and> my_lba hdr = 1"
proof -
  have "gpt_fits 1 512 (2048 * 512) (block_size (ram_disk 512 2048) (\<lambda>_. 0))
     (unat (block_count (ram_disk 512 2048) (\<lambda>_. 0))) (length ([] :: GptEntry list))"
    by (simp add: gpt_fits_def ram_disk_def)
  from write_gpt_read_gpt [OF block_store_ram_disk TrueI _ this, of 7] show ?thesis by auto
qed

text \<open>
  C2: when the block of the primary header is afterwards overwritten with anything that does not
  verify as a header, \<open>read_gpt\<close> still returns the same entries, from the backup in the last block.
\<close>

theorem read_gpt_recovers_from_backup:
  assumes "block_store ops granule burst capacity bytes ready" "ready 9 d" "\<forall>e \<in> set es. wf_entry e"
    and "gpt_fits granule burst capacity (block_size ops d) (unat (block_count ops d)) (length es)"
    and "length junk = block_size ops d" "\<not> is_ok (parse_and_verify_header junk)"
  shows "\<exists>d1 r d2 hdr d3. write_gpt ops (d, c) es = (Ok (), d1, snd (generate_guid c))
    \<and> write_blocks ops d1 (of_nat (block_size ops d)) junk = (r, d2)
    \<and> read_gpt ops d2 = (Ok (hdr, es), d3)
    \<and> my_lba hdr = block_count ops d - 1 \<and> disk_guid hdr = fst (generate_guid c)"
  by (rule block_store.write_damage_read [OF assms])

theorem read_gpt_recovers_from_backup_witness:
  "\<exists>d1 r d2 hdr d3. write_gpt (ram_disk 512 2048) (\<lambda>_. 0, 7) [] = (Ok (), d1, snd (generate_guid 7))
    \<and> write_blocks (ram_disk 512 2048) d1 512 (zeros 512) = (r, d2)
    \<and> read_gpt (ram_disk 512 2048) d2 = (Ok (hdr, []), d3) \<and> my_lba hdr = 2047"
proof -
  have "gpt_fits 1 512 (2048 * 512) (block_size (ram_disk 512 2048) (\<lambda>_. 0))
     (unat (block_count (ram_disk 512 2048) (\<lambda>_. 0))) (length ([] :: GptEntry list))"
    by (simp add: gpt_fits_def ram_disk_def)
  moreover have "\<not> is_ok (parse_and_verify_header (zeros 512))"
  proof -
    have "seg (zeros 512) 0 8 \<noteq> GPT_SIGNATURE"
      by (auto simp: seg_def zeros_def take_replicate GPT_SIGNATURE_def dest: arg_cong [where f = hd])
    then show ?thesis
      by (simp add: parse_and_verify_header_def parse_header_def validate_header_def gpt_consts(1))
  qed
  ultimately show ?thesis
    using read_gpt_recovers_from_backup [OF block_store_ram_disk [of 512 2048 512 "2048 * 512"] TrueI,
        where es = "[]" and d = "\<lambda>_. 0" and junk = "zeros 512" and c = 7]
    by simp blast
qed

section \<open>Formatting a disk\<close>

lemma length_str_to_utf16le: "length (str_to_utf16le s) = 36"
  by (simp add: str_to_utf16le_def Let_def)

text \<open>The table \<open>format_disk\<close> writes, for an NTFS partition of \<open>n\<close> sectors.\<close>

definition formatted_entries :: "u64 \<Rightarrow> u64 \<Rightarrow> GptEntry list" where
  "formatted_entries c n =
     [\<lparr>type_guid = ESP_GUID, unique_guid = fst (generate_guid c), start_lba = 34, end_lba = 1048609,
       entry_attributes = 0, entry_name = str_to_utf16le (str ''EFI System'')\<rparr>,
      \<lparr>type_guid = NTFS_GUID, unique_guid = fst (generate_guid (snd (generate_guid c))), start_lba = 1048610,
       end_lba = 1048609 + n, entry_attributes = 0, entry_name = str_to_utf16le (str ''Userspace'')\<rparr>]"

definition formatted_size :: "u64 \<Rightarrow> u64 \<Rightarrow> u64" where
  "formatted_size N want = (let avail = N - 34 - 1048610 in if want = 0 \<or> avail < want then avail else want)"

lemma wf_formatted_entries: "\<forall>e \<in> set (formatted_entries c n). wf_entry e"
  by (simp add: formatted_entries_def wf_entry_def length_str_to_utf16le length_generate_guid
      ESP_GUID_def NTFS_GUID_def)

lemma format_disk_writes:
  assumes "1048704 \<le> unat (block_count ops d)"
  shows "format_disk ops (d, c) want =
     sbind (write_gpt ops (d, snd (generate_guid (snd (generate_guid c))))
              (formatted_entries c (formatted_size (block_count ops d) want)))
       (\<lambda>_ s. (Ok (34, 1048576, 1048610, formatted_size (block_count ops d) want), s))"
proof -
  let ?N = "block_count ops d"
  have g: "\<not> ?N < 1048704" using assms by (simp add: word_less_nat_alt)
  have u: "unat (?N - 34) = unat ?N - 34" using assms by (simp add: unat_sub word_le_nat_alt)
  then have "unat (?N - 34 - 34) = unat ?N - 68" using assms by (simp add: unat_sub word_le_nat_alt)
  then have h: "\<not> ?N - 34 - 34 < 1048577" using assms by (simp add: word_less_nat_alt)
  have s: "saturating_sub ?N 34 = ?N - 34" using assms by (simp add: saturating_sub_def word_le_nat_alt)
  show ?thesis
    using g h s
    by (simp add: format_disk_def Let_def ESP_SIZE_SECTORS_def gpt_consts formatted_entries_def
        formatted_size_def case_prod_beta add.commute)
qed

lemma formatted_size_bounds:
  assumes "1048704 \<le> unat N"
  shows "formatted_size N want \<noteq> 0" "1048610 + unat (formatted_size N want) \<le> unat N - 34"
    "want \<noteq> 0 \<longrightarrow> formatted_size N want \<le> want"
proof -
  have "unat (N - 34) = unat N - 34" using assms by (simp add: unat_sub word_le_nat_alt)
  then have "unat (N - 34 - 1048610) = unat N - 34 - 1048610"
    using assms by (simp add: unat_sub word_le_nat_alt)
  then show "formatted_size N want \<noteq> 0" "1048610 + unat (formatted_size N want) \<le> unat N - 34"
    "want \<noteq> 0 \<longrightarrow> formatted_size N want \<le> want"
    using assms by (auto simp: formatted_size_def Let_def word_less_nat_alt word_le_nat_alt unat_gt_0)
qed

text \<open>
  C3: on a conforming device of at least 1048704 sectors \<open>format_disk\<close> succeeds; the EFI partition is
  sectors 34 to 1048609, the NTFS partition follows it, is not empty, is no larger than asked for and
  ends before the backup table; and \<open>find_esp_offset\<close> and \<open>find_ntfs_offset\<close> then return the byte
  offsets of the two partitions.
\<close>

theorem format_disk_then_find:
  assumes "block_store ops granule burst capacity bytes ready" "ready 7 d"
    and "1048704 \<le> unat (block_count ops d)"
    and "gpt_fits granule burst capacity (block_size ops d) (unat (block_count ops d)) 2"
  shows "\<exists>n d' c'. format_disk ops (d, c) want = (Ok (34, 1048576, 1048610, n), d', c')
    \<and> 0 < n \<and> (want \<noteq> 0 \<longrightarrow> n \<le> want) \<and> 1048610 + unat n \<le> unat (block_count ops d) - 34
    \<and> fst (find_esp_offset ops d') = Ok (34 * of_nat (block_size ops d))
    \<and> fst (find_ntfs_offset ops d') = Ok (1048610 * of_nat (block_size ops d))"
proof -
  let ?n = "formatted_size (block_count ops d) want" and ?c = "snd (generate_guid (snd (generate_guid c)))"
  let ?es = "formatted_entries c ?n"
  have fits: "gpt_fits granule burst capacity (block_size ops d) (unat (block_count ops d)) (length ?es)"
    using assms(4) by (simp add: formatted_entries_def numeral_2_eq_2)
  obtain d' hdr d'' where d': "write_gpt ops (d, ?c) ?es = (Ok (), d', snd (generate_guid ?c))"
      "block_size ops d' = block_size ops d" "read_gpt ops d' = (Ok (hdr, ?es), d'')"
    and g: "block_size ops d'' = block_size ops d'"
    using block_store.write_then_read [OF assms(1,2) wf_formatted_entries fits, of ?c]
    unfolding block_store.same_geometry_def [OF assms(1)] by blast
  have ne: "ESP_GUID \<noteq> NTFS_GUID" by (simp add: ESP_GUID_def NTFS_GUID_def)
  have "find (\<lambda>e. type_guid e = ESP_GUID) ?es = Some (?es ! 0)" "find (\<lambda>e. type_guid e = NTFS_GUID) ?es = Some (?es ! 1)"
    "start_lba (?es ! 0) = 34" "start_lba (?es ! 1) = 1048610"
    using ne by (simp_all add: formatted_entries_def)
  then have "fst (find_esp_offset ops d') = Ok (34 * of_nat (block_size ops d))"
    "fst (find_ntfs_offset ops d') = Ok (1048610 * of_nat (block_size ops d))"
    using d'(2,3) g by (simp_all add: find_esp_offset_def find_ntfs_offset_def find_partition_offset_def)
  then show ?thesis
    using format_disk_writes [OF assms(3), of c want] d'(1) formatted_size_bounds [OF assms(3), of want]
    by (auto simp: unat_gt_0 word_neq_0_conv)
qed

theorem format_disk_then_find_witness:
  "\<exists>n d' c'. format_disk (ram_disk 512 2097152) (\<lambda>_. 0, 1) 4096 = (Ok (34, 1048576, 1048610, n), d', c')
    \<and> 0 < n \<and> n \<le> 4096 \<and> fst (find_ntfs_offset (ram_disk 512 2097152) d') = Ok (1048610 * 512)"
proof -
  have "gpt_fits 1 512 (2097152 * 512) (block_size (ram_disk 512 2097152) (\<lambda>_. 0))
     (unat (block_count (ram_disk 512 2097152) (\<lambda>_. 0))) 2"
    by (simp add: gpt_fits_def)
  from format_disk_then_find [OF block_store_ram_disk TrueI _ this, of 1 4096] show ?thesis
    by simp blast
qed

end
