(* ===== verification/NtfsTypes.thy ===== *)
theory NtfsTypes
  imports Hal
begin

text \<open>
  The data of the NTFS driver: \<open>NtfsError\<close> and its conversions (\<^verbatim>\<open>error.rs\<close>), the boot sector with the
  offsets computed from it (\<^verbatim>\<open>boot.rs\<close>), and the structures and parsers of \<^verbatim>\<open>types.rs\<close>.

  The two flag types of \<^verbatim>\<open>types.rs\<close> are declared with the \<^verbatim>\<open>bitflags\<close> crate: a type is the list of its flags,
  and \<open>from_bits_truncate\<close> keeps the bits of these flags, as the crate documents it.
\<close>

section \<open>Errors\<close>

datatype NtfsError =
    InvalidBootSector | InvalidMftRecord | InvalidAttribute | FileNotFound | InvalidPath | IoError
  | NotADirectory | NotAFile | CorruptedFilesystem | NoSpace | AlreadyExists | InvalidInput
  | NotSupported | NameTooLong

fun hal_fs_error_from_ntfs :: "NtfsError \<Rightarrow> HalFsError" where
  "hal_fs_error_from_ntfs FileNotFound = HalFsError.NotFound"
| "hal_fs_error_from_ntfs NotADirectory = HalFsError.NotADirectory"
| "hal_fs_error_from_ntfs NotAFile = HalFsError.NotAFile"
| "hal_fs_error_from_ntfs InvalidPath = HalFsError.InvalidPath"
| "hal_fs_error_from_ntfs CorruptedFilesystem = HalFsError.Corrupted"
| "hal_fs_error_from_ntfs _ = HalFsError.Other"

definition io_error_from_ntfs :: "NtfsError \<Rightarrow> IoError" where
  "io_error_from_ntfs e = IoError.Other"

fun ntfs_error_text :: "NtfsError \<Rightarrow> string" where
  "ntfs_error_text InvalidBootSector = ''invalid boot sector''"
| "ntfs_error_text InvalidMftRecord = ''invalid MFT record''"
| "ntfs_error_text InvalidAttribute = ''invalid attribute''"
| "ntfs_error_text FileNotFound = ''file not found''"
| "ntfs_error_text InvalidPath = ''invalid path''"
| "ntfs_error_text IoError = ''I/O error''"
| "ntfs_error_text NotADirectory = ''not a directory''"
| "ntfs_error_text NotAFile = ''not a file''"
| "ntfs_error_text CorruptedFilesystem = ''corrupted filesystem''"
| "ntfs_error_text NoSpace = ''no space left on device''"
| "ntfs_error_text AlreadyExists = ''file already exists''"
| "ntfs_error_text InvalidInput = ''Invalid Input given''"
| "ntfs_error_text NotSupported = ''not supported''"
| "ntfs_error_text NameTooLong = ''name too long''"

section \<open>The boot sector\<close>

record BootSector =
  bytes_per_sector :: u16
  sectors_per_cluster :: u8
  media_type :: u8
  total_sectors :: u64
  mft_start_cluster :: u64
  mft_mirror_start_cluster :: u64
  clusters_per_mft_record :: u8
  clusters_per_index_buffer :: u8
  serial_number :: u64
  partition_byte_offset :: u64

text \<open>
  The two signed fields keep their bit pattern; \<open>sint\<close> reads it. \<open>from_bytes\<close> takes a \<open>[u8; 512]\<close>, so
  its indexing cannot fail.
\<close>

definition boot_from_bytes :: "u8 list \<Rightarrow> u64 \<Rightarrow> (BootSector, NtfsError) result" where
  "boot_from_bytes buf part_off =
     (if seg buf 0x03 0x0B \<noteq> [0x4E, 0x54, 0x46, 0x53, 0x20, 0x20, 0x20, 0x20] then Err InvalidBootSector
      else if buf ! 0x1FE \<noteq> 0x55 \<or> buf ! 0x1FF \<noteq> 0xAA then Err InvalidBootSector
      else Ok \<lparr>bytes_per_sector = of_nat (le_val (seg buf 0x0B 0x0D)),
               sectors_per_cluster = buf ! 0x0D,
               media_type = buf ! 0x15,
               total_sectors = of_nat (le_val (seg buf 0x28 0x30)),
               mft_start_cluster = of_nat (le_val (seg buf 0x30 0x38)),
               mft_mirror_start_cluster = of_nat (le_val (seg buf 0x38 0x40)),
               clusters_per_mft_record = buf ! 0x40,
               clusters_per_index_buffer = buf ! 0x44,
               serial_number = of_nat (le_val (seg buf 0x48 0x50)),
               partition_byte_offset = part_off\<rparr>)"

definition bytes_per_cluster :: "BootSector \<Rightarrow> u64" where
  "bytes_per_cluster b = ucast (bytes_per_sector b) * ucast (sectors_per_cluster b)"

definition mft_record_size :: "BootSector \<Rightarrow> (nat, NtfsError) result" where
  "mft_record_size b =
     (if 0 < sint (clusters_per_mft_record b)
      then Ok (nat (sint (clusters_per_mft_record b)) * unat (bytes_per_cluster b))
      else let e = nat (- sint (clusters_per_mft_record b)) in
        if e < 64 then Ok (2 ^ e) else Panic)"

definition mft_byte_offset :: "BootSector \<Rightarrow> u64" where
  "mft_byte_offset b = partition_byte_offset b + mft_start_cluster b * bytes_per_cluster b"

definition mft_mirror_byte_offset :: "BootSector \<Rightarrow> u64" where
  "mft_mirror_byte_offset b = partition_byte_offset b + mft_mirror_start_cluster b * bytes_per_cluster b"

definition cluster_to_disk_offset :: "BootSector \<Rightarrow> u64 \<Rightarrow> u64" where
  "cluster_to_disk_offset b lcn = partition_byte_offset b + lcn * bytes_per_cluster b"

lemma unat_bytes_per_cluster:
  "unat (bytes_per_cluster b) = unat (bytes_per_sector b) * unat (sectors_per_cluster b)"
proof -
  have s: "unat (bytes_per_sector b) < 65536" "unat (sectors_per_cluster b) < 256"
    using unat_bound [of "bytes_per_sector b"] unat_bound [of "sectors_per_cluster b"] by simp_all
  then have "unat (bytes_per_sector b) * unat (sectors_per_cluster b) < 65536 * 256"
    by (intro mult_strict_mono) auto
  with s show ?thesis
    by (simp add: bytes_per_cluster_def unat_word_ariths unsigned_ucast_eq take_bit_nat_eq_self)
qed

section \<open>Files and their attributes\<close>

record NtfsFile =
  record_number :: u64

datatype DataRun = Resident "u8 list" | NonResident "(u64 \<times> u64) list"

definition FileAttributes :: "u32 list" where
  "FileAttributes = [0x0001, 0x0002, 0x0004, 0x0020, 0x0040, 0x0080, 0x0100, 0x0200, 0x0400, 0x0800, 0x1000, 0x2000, 0x4000,
     0x10000000, 0x20000000]"

definition from_bits_truncate :: "'a::len word list \<Rightarrow> 'a word \<Rightarrow> 'a word" where
  "from_bits_truncate flags bits = bits AND foldr (OR) flags 0"

record StandardInformation =
  si_created :: u64
  si_modified :: u64
  si_mft_modified :: u64
  si_accessed :: u64
  si_attribute_bits :: u32
  si_owner_id :: "u32 option"
  si_security_id :: "u32 option"
  si_quota_charged :: "u64 option"
  si_usn :: "u64 option"

text \<open>\<open>attr_data.get(24..)\<close> and the fields of the value that follows the resident header.\<close>

definition get_from :: "'a list \<Rightarrow> nat \<Rightarrow> 'a list option" where
  "get_from xs a = (if a \<le> length xs then Some (drop a xs) else None)"

definition fld :: "u8 list \<Rightarrow> nat \<Rightarrow> nat \<Rightarrow> 'a::len word" where
  "fld d a b = of_nat (le_val (seg d a b))"

definition parse_standard_information :: "u8 list \<Rightarrow> StandardInformation option" where
  "parse_standard_information attr_data =
     (case get_from attr_data 24 of
        None \<Rightarrow> None
      | Some d \<Rightarrow>
          if length d < 48 then None
          else Some \<lparr>si_created = fld d 0 8, si_modified = fld d 8 16, si_mft_modified = fld d 16 24,
                     si_accessed = fld d 24 32, si_attribute_bits = from_bits_truncate FileAttributes (fld d 32 36),
                     si_owner_id = (if 72 \<le> length d then Some (fld d 48 52) else None),
                     si_security_id = (if 72 \<le> length d then Some (fld d 52 56) else None),
                     si_quota_charged = (if 72 \<le> length d then Some (fld d 56 64) else None),
                     si_usn = (if 72 \<le> length d then Some (fld d 64 72) else None)\<rparr>)"

text \<open>The result is an \<open>i64\<close>; it is never negative.\<close>

definition filetime_to_unix :: "u64 \<Rightarrow> u64" where
  "filetime_to_unix filetime = saturating_sub (filetime div 10000000) 11644473600"

record ObjectId =
  oi_object_id :: "u8 list"
  oi_birth_volume_id :: "u8 list option"
  oi_birth_object_id :: "u8 list option"
  oi_domain_id :: "u8 list option"

definition parse_object_id :: "u8 list \<Rightarrow> ObjectId option" where
  "parse_object_id attr_data =
     (case get_from attr_data 24 of
        None \<Rightarrow> None
      | Some d \<Rightarrow>
          if length d < 16 then None
          else Some \<lparr>oi_object_id = seg d 0 16,
                     oi_birth_volume_id = (if 32 \<le> length d then Some (seg d 16 32) else None),
                     oi_birth_object_id = (if 48 \<le> length d then Some (seg d 32 48) else None),
                     oi_domain_id = (if 64 \<le> length d then Some (seg d 48 64) else None)\<rparr>)"

definition object_id_format_guid :: "u8 list \<Rightarrow> rstr" where
  "object_id_format_guid guid =
     hex_pad 8 (le_val (seg guid 0 4)) @ str ''-'' @ hex_pad 4 (le_val (seg guid 4 6)) @ str ''-''
     @ hex_pad 4 (le_val (seg guid 6 8)) @ str ''-''
     @ concat (map (\<lambda>b. hex_pad 2 (unat b)) (seg guid 8 10)) @ str ''-''
     @ concat (map (\<lambda>b. hex_pad 2 (unat b)) (seg guid 10 16))"

text \<open>The printed form tells any two identifiers apart.\<close>

lemma object_id_format_guid_inj:
  assumes "length a = 16" "length b = 16"
  shows "object_id_format_guid a = object_id_format_guid b \<longleftrightarrow> a = b"
proof
  assume "object_id_format_guid a = object_id_format_guid b"
  then have "seg a 0 4 = seg b 0 4" "seg a 4 6 = seg b 4 6" "seg a 6 8 = seg b 6 8" "seg a 8 10 = seg b 8 10" "seg a 10 16 = seg b 10 16"
    using assms hex_le_val_inj [of _ 4] hex_le_val_inj [of _ 2] concat_hex_inj
    by (simp_all add: object_id_format_guid_def length_concat sum_list_triv comp_def)
  moreover have "x = seg x 0 4 @ seg x 4 6 @ seg x 6 8 @ seg x 8 10 @ seg x 10 16" if "length x = 16" for x :: "u8 list"
    using that seg_all [of x 16] by (simp add: seg_join)
  ultimately show "a = b" using assms by metis
qed simp

definition SecurityDescriptorControl :: "u16 list" where
  "SecurityDescriptorControl = [0x0001, 0x0002, 0x0004, 0x0008, 0x0010, 0x0020, 0x0400, 0x0800, 0x1000, 0x2000, 0x4000, 0x8000]"

record SecurityDescriptor =
  sd_raw :: "u8 list"
  sd_revision :: u8
  sd_control_bits :: u16
  sd_owner_offset :: "u32 option"
  sd_group_offset :: "u32 option"
  sd_dacl_offset :: "u32 option"
  sd_sacl_offset :: "u32 option"

definition nonzero :: "'a::len word \<Rightarrow> 'a word option" where
  "nonzero w = (if w \<noteq> 0 then Some w else None)"

definition parse_security_descriptor :: "u8 list \<Rightarrow> bool \<Rightarrow> SecurityDescriptor option" where
  "parse_security_descriptor attr_data is_resident =
     (if \<not> is_resident then None
      else case get_slice attr_data 20 22 of
        None \<Rightarrow> None
      | Some vo \<Rightarrow>
          (case get_from attr_data (le_val vo) of
            None \<Rightarrow> None
          | Some d \<Rightarrow>
              if length d < 20 then None
              else Some \<lparr>sd_raw = d, sd_revision = d ! 0, sd_control_bits = from_bits_truncate SecurityDescriptorControl (fld d 2 4),
                         sd_owner_offset = nonzero (fld d 4 8), sd_group_offset = nonzero (fld d 8 12),
                         sd_dacl_offset = nonzero (fld d 16 20), sd_sacl_offset = nonzero (fld d 12 16)\<rparr>))"

datatype ReparseTag = SymbolicLink | MountPoint | OtherTag u32

record ReparsePoint =
  rp_reparse_tag :: ReparseTag
  rp_reparse_data :: "u8 list"
  rp_substitute_name :: "rstr option"
  rp_print_name :: "rstr option"

definition ascii_or_mark :: "nat \<Rightarrow> rchar" where
  "ascii_or_mark c = (if c < 128 then c else 63)"

definition decode_utf16 :: "u8 list \<Rightarrow> rstr" where
  "decode_utf16 raw = map (\<lambda>c. ascii_or_mark (le_val c)) (chunks_exact 2 raw)"

definition parse_name_buffer :: "u8 list \<Rightarrow> ReparseTag \<Rightarrow> (rstr option \<times> rstr option) option" where
  "parse_name_buffer d tag =
     (if length d < 8 then None
      else
        let sub_off = le_val (seg d 0 2); sub_len = le_val (seg d 2 4);
            prt_off = le_val (seg d 4 6); prt_len = le_val (seg d 6 8);
            buf_start = (if tag = SymbolicLink then 12 else 8)
        in case get_slice d (buf_start + sub_off) (buf_start + sub_off + sub_len) of
             None \<Rightarrow> None
           | Some sub \<Rightarrow>
               (case get_slice d (buf_start + prt_off) (buf_start + prt_off + prt_len) of
                  None \<Rightarrow> None
                | Some prt \<Rightarrow> Some (Some (decode_utf16 sub), Some (decode_utf16 prt))))"

definition parse_reparse_point :: "u8 list \<Rightarrow> ReparsePoint option" where
  "parse_reparse_point attr_data =
     (case get_from attr_data 24 of
        None \<Rightarrow> None
      | Some d \<Rightarrow>
          if length d < 8 then None
          else case get_slice d 8 (8 + le_val (seg d 4 6)) of
            None \<Rightarrow> None
          | Some reparse_data \<Rightarrow>
              let tag = fld d 0 4;
                  reparse_tag = (if tag = 0xA000000C then SymbolicLink
                                 else if tag = 0xA0000003 then MountPoint else OtherTag tag);
                  names = (case reparse_tag of
                             OtherTag _ \<Rightarrow> (None, None)
                           | _ \<Rightarrow> (case parse_name_buffer reparse_data reparse_tag of
                                    Some ns \<Rightarrow> ns | None \<Rightarrow> (None, None)))
              in Some \<lparr>rp_reparse_tag = reparse_tag, rp_reparse_data = reparse_data,
                       rp_substitute_name = fst names, rp_print_name = snd names\<rparr>)"

record AlternateDataStream =
  ads_name :: rstr
  ads_size :: u64
  ads_data :: DataRun

record NtfsStat =
  is_directory :: bool
  stat_size :: u64
  stat_name :: "rstr option"
  data_runs :: "DataRun list"
  index_root :: "u8 list option"
  standard_info :: "StandardInformation option"
  security_descriptor :: "SecurityDescriptor option"
  object_id :: "ObjectId option"
  reparse_point :: "ReparsePoint option"
  alternate_data_streams :: "AlternateDataStream list"

definition empty_stat :: NtfsStat where
  "empty_stat = \<lparr>is_directory = False, stat_size = 0, stat_name = None, data_runs = [], index_root = None,
     standard_info = None, security_descriptor = None, object_id = None, reparse_point = None,
     alternate_data_streams = []\<rparr>"

record VolumeInfo =
  vi_sector_size :: u16
  vi_cluster_size :: u32
  vi_file_record_size :: u32
  vi_mft_position :: u64
  vi_serial_number :: u64

record CreateOptions =
  co_is_directory :: bool
  co_data :: "u8 list"

datatype AttributeType =
    AtStandardInformation | AtAttributeList | AtFileName | AtObjectId | AtSecurityDescriptor
  | AtVolumeName | AtVolumeInformation | AtData | AtIndexRoot | AtIndexAllocation | AtBitmap
  | AtReparsePoint | AtEaInformation | AtEa | AtLoggedUtilityStream

end
