(* ===== verification/NtfsRuns.thy ===== *)
theory NtfsRuns
  imports NtfsTypes
begin

text \<open>
  Cluster runs (\<^verbatim>\<open>runs.rs\<close>): \<open>parse_data_runs\<close> decodes the run list of a non-resident attribute and
  \<open>read_data_runs\<close> reads the clusters it names.
\<close>

section \<open>Decoding\<close>

text \<open>\<open>length |= (byte as u64) << (i * 8)\<close> for the bytes of a field of at most eight bytes.\<close>

fun or_bytes :: "nat \<Rightarrow> u8 list \<Rightarrow> u64" where
  "or_bytes i [] = 0"
| "or_bytes i (b # bs) = push_bit (8 * i) (ucast b) OR or_bytes (Suc i) bs"

text \<open>
  \<open>run_offset_signed |= !((1i64 << (offset_size * 8)) - 1)\<close>. The shift amount of a 64-bit shift is
  taken modulo 64 when overflow checks are off.
\<close>

definition sign_fill :: "nat \<Rightarrow> u64" where
  "sign_fill n = NOT (push_bit (8 * n mod 64) 1 - 1)"

definition signed_offset :: "u8 list \<Rightarrow> u64" where
  "signed_offset bs =
     (if bs \<noteq> [] \<and> last bs AND 0x80 \<noteq> 0 then or_bytes 0 bs OR sign_fill (length bs) else or_bytes 0 bs)"

definition checked_add_signed :: "u64 \<Rightarrow> u64 \<Rightarrow> u64 option" where
  "checked_add_signed a b =
     (if - (2 ^ 63) \<le> sint a + sint b \<and> sint a + sint b < 2 ^ 63 then Some (a + b) else None)"

text \<open>The loop of \<open>parse_data_runs\<close> from \<open>current_offset\<close> on; \<open>prev\<close> is \<open>prev_cluster\<close>, an \<open>i64\<close>.\<close>

function run_loop :: "u8 list \<Rightarrow> nat \<Rightarrow> u64 \<Rightarrow> ((u64 \<times> u64) list, NtfsError) result" where
  "run_loop attr off prev =
     (if length attr \<le> off then Ok []
      else
        let header = attr ! off in
        if header = 0 then Ok []
        else
          let len_size = unat (header AND 0x0F);
              offset_size = unat (drop_bit 4 header AND 0x0F)
          in if len_size = 0 \<or> 8 < len_size \<or> 8 < offset_size then Ok []
          else if length attr < off + 1 + len_size + offset_size then Ok []
          else
            let len = or_bytes 0 (seg attr (off + 1) (off + 1 + len_size));
                delta = signed_offset (seg attr (off + 1 + len_size) (off + 1 + len_size + offset_size))
            in case checked_add_signed prev delta of
                 None \<Rightarrow> Err CorruptedFilesystem
               | Some absolute \<Rightarrow>
                   if sint absolute < 0 then Err CorruptedFilesystem
                   else rbind (run_loop attr (off + 1 + len_size + offset_size) absolute)
                     (\<lambda>rest. Ok ((absolute, len) # rest)))"
  by pat_completeness auto
termination
  by (relation "measure (\<lambda>(attr, off, prev). length attr - off)") auto

declare run_loop.simps [simp del]

definition parse_data_runs :: "u8 list \<Rightarrow> ((u64 \<times> u64) list, NtfsError) result" where
  "parse_data_runs attr =
     (if length attr < 64 then Err InvalidAttribute
      else if attr ! 8 \<noteq> 1 then Err InvalidAttribute
      else
        let run_offset = le_val (seg attr 32 34) in
        if run_offset = 0 then Ok []
        else if run_offset < 64 \<or> length attr \<le> run_offset then Err InvalidAttribute
        else if le_val (seg attr 40 48) = 0 then Ok []
        else run_loop attr run_offset 0)"

section \<open>Reading\<close>

text \<open>One run: \<open>offset = cluster * bytes_per_cluster\<close>, read at \<open>offset / 512\<close>.\<close>

definition read_cluster_run ::
    "'d block_device \<Rightarrow> u64 \<Rightarrow> u64 \<times> u64 \<Rightarrow> 'd \<Rightarrow> (u8 list, NtfsError) result \<times> 'd" where
  "read_cluster_run ops bpc run d =
     sbind (vec_zeroed (unat (snd run * bpc)), d) (\<lambda>buffer d.
       case read_blocks ops d (fst run * bpc div 512) buffer of
         (r, d') \<Rightarrow> (map_err (\<lambda>_. IoError) r, d'))"

fun read_cluster_runs ::
    "'d block_device \<Rightarrow> u64 \<Rightarrow> (u64 \<times> u64) list \<Rightarrow> 'd \<Rightarrow> (u8 list, NtfsError) result \<times> 'd" where
  "read_cluster_runs ops bpc [] d = (Ok [], d)"
| "read_cluster_runs ops bpc (r # rs) d =
     sbind (read_cluster_run ops bpc r d) (\<lambda>buffer d.
     sbind (read_cluster_runs ops bpc rs d) (\<lambda>rest d. (Ok (buffer @ rest), d)))"

fun read_runs ::
    "'d block_device \<Rightarrow> u64 \<Rightarrow> DataRun list \<Rightarrow> 'd \<Rightarrow> (u8 list, NtfsError) result \<times> 'd" where
  "read_runs ops bpc [] d = (Ok [], d)"
| "read_runs ops bpc (Resident data # rs) d =
     sbind (read_runs ops bpc rs d) (\<lambda>rest d. (Ok (data @ rest), d))"
| "read_runs ops bpc (NonResident runs # rs) d =
     sbind (read_cluster_runs ops bpc runs d) (\<lambda>buffer d.
     sbind (read_runs ops bpc rs d) (\<lambda>rest d. (Ok (buffer @ rest), d)))"

definition read_data_runs ::
    "'d block_device \<Rightarrow> 'd \<Rightarrow> DataRun list \<Rightarrow> BootSector \<Rightarrow> (u8 list, NtfsError) result \<times> 'd" where
  "read_data_runs ops d runs boot = read_runs ops (bytes_per_cluster boot) runs d"

section \<open>What the decoder computes\<close>

lemma disjoint_or_add: "(a :: 'a::len word) AND b = 0 \<Longrightarrow> a OR b = a + b"
  by (simp add: disjunctive_add_eq_or)

lemma le_val_Cons_word: "(of_nat (le_val (b # bs)) :: u64) = ucast b OR push_bit 8 (of_nat (le_val bs))"
proof -
  have "ucast b AND push_bit 8 (of_nat (le_val bs)) = (0 :: u64)"
    by (rule bit_word_eqI) (auto simp: bit_simps dest: bit_imp_le_length)
  then have "ucast b OR push_bit 8 (of_nat (le_val bs)) = ucast b + push_bit 8 (of_nat (le_val bs) :: u64)"
    by (rule disjoint_or_add)
  also have "\<dots> = of_nat (le_val (b # bs))" by (simp add: push_bit_eq_mult)
  finally show ?thesis ..
qed

lemma or_bytes_shift: "or_bytes i bs = push_bit (8 * i) (of_nat (le_val bs))"
proof (induction bs arbitrary: i)
  case Nil
  then show ?case by simp
next
  case (Cons b bs)
  then have "or_bytes i (b # bs) = push_bit (8 * i) (ucast b OR push_bit 8 (of_nat (le_val bs)))"
    by (simp add: push_bit_or add.commute)
  then show ?case by (simp only: le_val_Cons_word)
qed

lemma or_bytes_0: "or_bytes 0 bs = of_nat (le_val bs)"
  by (simp add: or_bytes_shift)

text \<open>The two's complement reading of a byte string, the value a run offset stands for.\<close>

definition le_sval :: "u8 list \<Rightarrow> int" where
  "le_sval bs =
     (if bs \<noteq> [] \<and> 2 ^ (8 * length bs - 1) \<le> le_val bs
      then int (le_val bs) - 2 ^ (8 * length bs) else int (le_val bs))"

lemma top_bit_iff: "(b :: u8) AND 0x80 \<noteq> 0 \<longleftrightarrow> 128 \<le> unat b"
proof -
  have "b AND 0x80 = b AND push_bit 7 1" by simp
  then have "b AND 0x80 \<noteq> 0 \<longleftrightarrow> bit b 7"
    by (simp only: and_exp_eq_0_iff_not_bit push_bit_of_1) simp
  also have "\<dots> \<longleftrightarrow> bit (unat b) 7" by (simp add: bit_unsigned_iff)
  also have "\<dots> \<longleftrightarrow> odd (unat b div 128)" by (simp add: bit_iff_odd)
  also have "\<dots> \<longleftrightarrow> 128 \<le> unat b" 
    using unat_u8_less [of b] div_nat_eqI [of 128 1 "unat b"] by (cases "128 \<le> unat b") auto
  finally show ?thesis .
qed

lemma last_byte_sign:
  assumes "bs \<noteq> []"
  shows "last bs AND 0x80 \<noteq> 0 \<longleftrightarrow> 2 ^ (8 * length bs - 1) \<le> le_val bs"
proof -
  obtain xs b where bs: "bs = xs @ [b]" using assms by (metis append_butlast_last_id)
  have p: "(2 :: nat) ^ (8 * length bs - 1) = 256 ^ length xs * 128"
    by (simp add: bs power_add power_mult)
  have lt: "le_val xs < 256 ^ length xs" by (rule le_val_bound)
  have "256 ^ length xs * 128 \<le> le_val xs + 256 ^ length xs * unat b \<longleftrightarrow> 128 \<le> unat b"
  proof
    assume "128 \<le> unat b"
    then show "256 ^ length xs * 128 \<le> le_val xs + 256 ^ length xs * unat b"
      by (intro trans_le_add2 mult_le_mono2)
  next
    assume a: "256 ^ length xs * 128 \<le> le_val xs + 256 ^ length xs * unat b"
    show "128 \<le> unat b"
    proof (rule ccontr)
      assume "\<not> 128 \<le> unat b"
      then have "256 ^ length xs * (unat b + 1) \<le> 256 ^ length xs * (128 :: nat)" by (intro mult_le_mono2) simp
      with a lt show False unfolding add_mult_distrib2 by linarith
    qed
  qed
  with p top_bit_iff [of b] show ?thesis by (simp add: bs le_val_append)
qed

lemma sign_fill_eq: "n \<le> 7 \<Longrightarrow> sign_fill n = NOT (mask (8 * n))"
  by (simp add: sign_fill_def mask_eq_exp_minus_1)

text \<open>Up to seven bytes the decoded offset is the two's complement value.\<close>

lemma signed_offset_value:
  assumes "length bs \<le> 7"
  shows "signed_offset bs = word_of_int (le_sval bs)"
proof (cases "bs \<noteq> [] \<and> last bs AND 0x80 \<noteq> 0")
  case True
  let ?v = "of_nat (le_val bs) :: u64" and ?k = "8 * length bs"
  have lt: "le_val bs < 2 ^ ?k" using le_val_bound [of bs] by (simp add: power_mult)
  then have "take_bit ?k ?v = ?v" by (simp add: take_bit_of_nat take_bit_nat_eq_self)
  then have dis: "?v AND NOT (mask ?k) = 0"
    by (metis and.assoc bit.conj_cancel_right bit.conj_zero_right take_bit_eq_mask)
  have "signed_offset bs = ?v OR NOT (mask ?k)"
    using True assms by (simp add: signed_offset_def or_bytes_0 sign_fill_eq)
  also have "\<dots> = ?v + NOT (mask ?k)" by (rule disjoint_or_add [OF dis])
  also have "\<dots> = ?v - 2 ^ ?k" by (simp add: mask_eq_exp_minus_1 not_eq_complement)
  also have "\<dots> = word_of_int (le_sval bs)"
    using True last_byte_sign [of bs] by (simp add: le_sval_def)
  finally show ?thesis .
next
  case False
  then show ?thesis
    using last_byte_sign [of bs] by (auto simp: signed_offset_def or_bytes_0 le_sval_def)
qed

text \<open>
  Reference encoding of a run list: for each run a header byte with the two field sizes, the length
  and the signed cluster delta; a zero byte ends the list. \<open>run_values\<close> is its meaning.
\<close>

fun run_bytes :: "(u8 list \<times> u8 list) list \<Rightarrow> u8 list" where
  "run_bytes [] = [0]"
| "run_bytes ((lb, ob) # fs) = of_nat (length lb + 16 * length ob) # lb @ ob @ run_bytes fs"

fun run_values :: "int \<Rightarrow> (u8 list \<times> u8 list) list \<Rightarrow> (int \<times> nat) list" where
  "run_values prev [] = []"
| "run_values prev ((lb, ob) # fs) =
     (prev + le_sval ob, le_val lb) # run_values (prev + le_sval ob) fs"

definition wf_run_field :: "u8 list \<times> u8 list \<Rightarrow> bool" where
  "wf_run_field f \<longleftrightarrow> 1 \<le> length (fst f) \<and> length (fst f) \<le> 8 \<and> length (snd f) \<le> 7"

lemma run_header_sizes:
  assumes "a \<le> 8" "b \<le> 7"
  shows "unat ((of_nat (a + 16 * b) :: u8) AND 0x0F) = a"
    "unat (drop_bit 4 (of_nat (a + 16 * b) :: u8) AND 0x0F) = b"
proof -
  let ?h = "of_nat (a + 16 * b) :: u8"
  have u: "unat ?h = a + 16 * b" using assms by (simp add: unat_of_nat del: of_nat_add)
  have m: "x AND 0x0F = take_bit 4 x" for x :: u8
    by (simp add: take_bit_eq_mask mask_eq_exp_minus_1)
  have t: "unat (take_bit 4 x) = unat x mod 16" for x :: u8
    by (simp add: take_bit_eq_mod unat_mod)
  show "unat (?h AND 0x0F) = a" using assms u by (simp add: m t del: of_nat_add)
  have "unat (drop_bit 4 ?h) = b"
    using assms u by (simp add: drop_bit_eq_div unat_div del: of_nat_add)
  then show "unat (drop_bit 4 ?h AND 0x0F) = b"
    using assms by (simp add: m t del: of_nat_add)
qed

lemma le_sval_bounds:
  assumes "length bs \<le> 7"
  shows "- (2 ^ 62) \<le> le_sval bs" "le_sval bs < 2 ^ 62"
proof -
  have "le_val bs < 256 ^ length bs" by (rule le_val_bound)
  also have "(256 :: nat) ^ length bs \<le> 256 ^ 7" using assms by (intro power_increasing) auto
  finally have v: "int (le_val bs) < 2 ^ 56" by simp
  have p: "(2 :: int) ^ (8 * length bs) \<le> 2 ^ 56" using assms by (intro power_increasing) auto
  have gen: "- (2 ^ 62) \<le> x - y \<and> x - y < 2 ^ 62 \<and> x < 2 ^ 62"
    if "x < 2 ^ 56" "0 \<le> x" "y \<le> 2 ^ 56" "0 < y" for x y :: int using that by simp
  from gen [OF v _ p] show "- (2 ^ 62) \<le> le_sval bs" "le_sval bs < 2 ^ 62"
    by (auto simp: le_sval_def)
qed

lemma sint_small: "- (2 ^ 63) \<le> k \<Longrightarrow> k < 2 ^ 63 \<Longrightarrow> sint (word_of_int k :: u64) = k"
  by (simp add: signed_of_int signed_take_bit_int_eq_self)

lemma run_loop_decodes:
  assumes "\<forall>f \<in> set fs. wf_run_field f" "0 \<le> prev" "prev < 2 ^ 62"
    and "\<forall>(c, n) \<in> set (run_values prev fs). 0 \<le> c \<and> c < 2 ^ 62"
  shows "run_loop (pre @ run_bytes fs @ post) (length pre) (word_of_int prev)
       = Ok (map (\<lambda>(c, n). (word_of_int c, of_nat n)) (run_values prev fs))"
  using assms
proof (induction fs arbitrary: pre prev)
  case Nil
  then show ?case by (subst run_loop.simps) (simp add: nth_append)
next
  case (Cons f fs)
  obtain lb ob where f: "f = (lb, ob)" by fastforce
  let ?h = "of_nat (length lb + 16 * length ob) :: u8"
  let ?attr = "pre @ run_bytes ((lb, ob) # fs) @ post" and ?c = "prev + le_sval ob"
  have wf: "1 \<le> length lb" "length lb \<le> 8" "length ob \<le> 7" using Cons.prems(1) by (auto simp: f wf_run_field_def)
  note sz = run_header_sizes [OF wf(2,3)]
  have h: "?attr ! length pre = ?h" by (simp add: nth_append)
  have nz: "?h \<noteq> 0" using sz(1) wf(1) by auto
  have c: "0 \<le> ?c" "?c < 2 ^ 62" using Cons.prems(4) by (auto simp: f)
  have s1: "seg ?attr (length pre + 1) (length pre + 1 + length lb) = lb"
    "seg ?attr (length pre + 1 + length lb) (length pre + 1 + length lb + length ob) = ob"
    by (simp_all add: seg_def)
  have add: "checked_add_signed (word_of_int prev) (signed_offset ob) = Some (word_of_int ?c)"
    using Cons.prems(2,3) le_sval_bounds [OF wf(3)]
    by (simp add: checked_add_signed_def signed_offset_value [OF wf(3)] sint_small)
  have nn: "\<not> sint (word_of_int ?c :: u64) < 0" using c by (simp add: sint_small del: of_int_add)
  have IH: "run_loop ?attr (length pre + 1 + length lb + length ob) (word_of_int ?c)
      = Ok (map (\<lambda>(c, n). (word_of_int c, of_nat n)) (run_values ?c fs))"
    using Cons.IH [of ?c "pre @ ?h # lb @ ob"] Cons.prems c
    by (simp add: f add.assoc del: of_nat_add of_nat_mult of_int_add)
  have "run_loop ?attr (length pre) (word_of_int prev)
      = rbind (run_loop ?attr (length pre + 1 + length lb + length ob) (word_of_int ?c))
         (\<lambda>rest. Ok ((word_of_int ?c, of_nat (le_val lb)) # rest))"
    unfolding run_loop.simps [of ?attr "length pre"] h Let_def sz s1 add or_bytes_0
    using nz nn wf by (auto simp del: of_nat_add of_nat_mult of_int_add)
  then show ?case unfolding IH by (simp add: f del: of_nat_add of_nat_mult of_int_add)
qed

text \<open>
  C5: \<open>parse_data_runs\<close> decodes every run list whose cluster deltas take at most seven bytes to the
  runs it encodes: each start cluster is the sum of the signed deltas so far, each length is unsigned.
\<close>

theorem parse_data_runs_decodes:
  assumes "\<forall>f \<in> set fs. wf_run_field f"
    and "\<forall>(c, n) \<in> set (run_values 0 fs). 0 \<le> c \<and> c < 2 ^ 62"
    and "64 \<le> length hdr" "hdr ! 8 = 1" "le_val (seg hdr 32 34) = length hdr" "le_val (seg hdr 40 48) \<noteq> 0"
  shows "parse_data_runs (hdr @ run_bytes fs @ post)
       = Ok (map (\<lambda>(c, n). (word_of_int c, of_nat n)) (run_values 0 fs))"
proof -
  have ne: "0 < length (run_bytes fs)" by (cases fs rule: run_bytes.cases) auto
  have s: "seg (hdr @ run_bytes fs @ post) 32 34 = seg hdr 32 34" "seg (hdr @ run_bytes fs @ post) 40 48 = seg hdr 40 48"
    using assms(3) by (simp_all add: seg_append_left)
  show ?thesis
    using assms s ne run_loop_decodes [of fs 0 hdr post]
    by (auto simp: parse_data_runs_def nth_append Let_def)
qed

theorem parse_data_runs_decodes_witness:
  "parse_data_runs (blit (blit (blit (zeros 64) 8 [1]) 32 [64, 0]) 40 [1] @ run_bytes [([4], [16]), ([2], [0xFE])])
     = Ok [(16, 4), (14, 2)]"
proof -
  let ?hdr = "blit (blit (blit (zeros 64) 8 [1]) 32 [64, 0]) 40 [1]"
  have "length ?hdr = 64" "?hdr ! 8 = 1" by (simp_all add: length_blit nth_blit)
  moreover have "seg ?hdr 32 34 = [64, 0]"
    by (simp add: seg_blit_disjoint seg_blit_same length_blit)
  moreover have "le_val (seg ?hdr 40 48) \<noteq> 0"
    by (simp add: seg_def blit_def)
  ultimately show ?thesis
    using parse_data_runs_decodes [of "[([4], [16]), ([2], [0xFE])]" ?hdr "[]"]
    by (simp add: wf_run_field_def le_sval_def)
qed

text \<open>
  A cluster delta of eight bytes with its top bit set always decodes to -1: the sign mask
  \<open>1i64 << 64\<close> has its shift amount reduced to 0.
\<close>

theorem eight_byte_negative_offset_is_minus_one:
  assumes "length bs = 8" "last bs AND 0x80 \<noteq> 0"
  shows "sint (signed_offset bs) = -1"
proof -
  have "signed_offset bs = - 1" using assms by (auto simp: signed_offset_def sign_fill_def)
  then show ?thesis by simp
qed

theorem eight_byte_negative_offset_is_minus_one_witness:
  "sint (signed_offset [0xFE, 0xFF, 0xFF, 0xFF, 0xFF, 0xFF, 0xFF, 0xFF]) = -1
   \<and> le_sval [0xFE, 0xFF, 0xFF, 0xFF, 0xFF, 0xFF, 0xFF, 0xFF] = -2"
  using eight_byte_negative_offset_is_minus_one [of "[0xFE, 0xFF, 0xFF, 0xFF, 0xFF, 0xFF, 0xFF, 0xFF]"]
  by (simp add: le_sval_def)

end
