(* ===== verification/NtfsFixups.thy ===== *)
theory NtfsFixups
  imports NtfsTypes
begin

text \<open>
  Update sequences (\<open>apply_fixups\<close>, \<open>reapply_fixups\<close> and \<open>fixups_applied\<close> of \<^verbatim>\<open>attr.rs\<close>): the last two
  bytes of each sector of a record are replaced on disk by a sequence number and kept in the update
  sequence array, so that a torn write is noticed.
\<close>

section \<open>Operations\<close>

text \<open>
  One round of the loop of \<open>apply_fixups\<close>. \<open>end = i * sector_size - 2\<close> wraps when the product is below 2;
  the bound test \<open>end + 2 > buf.len()\<close> then passes and \<open>buf[end]\<close> panics.
\<close>

definition apply_fixup :: "nat \<Rightarrow> nat \<Rightarrow> nat \<Rightarrow> nat \<Rightarrow> u8 list \<Rightarrow> (u8 list, NtfsError) result" where
  "apply_fixup uso seq_number sector_size i buf =
     (if i * sector_size < 2 then Panic
      else let e = i * sector_size - 2 in
        if length buf < e + 2 then Err CorruptedFilesystem
        else rbind (rd16 buf (uso + i * 2)) (\<lambda>stored.
          rbind (rd16 buf e) (\<lambda>bytes.
            if bytes \<noteq> seq_number then Err CorruptedFilesystem
            else copy_r buf e (e + 2) (le16 stored))))"

definition apply_fixups :: "u8 list \<Rightarrow> nat \<Rightarrow> (u8 list, NtfsError) result" where
  "apply_fixups buf sector_size =
     rbind (rd16 buf 4) (\<lambda>uso.
     rbind (rd16 buf 6) (\<lambda>usc.
       if uso < 48 \<or> length buf < uso + 2 then Ok buf
       else if usc = 0 then Ok buf
       else if length buf < uso + 2 * usc then Err CorruptedFilesystem
       else rbind (rd16 buf uso) (\<lambda>seq_number.
         rfold (apply_fixup uso seq_number sector_size) [1..<usc] buf)))"

definition reapply_fixup :: "nat \<Rightarrow> nat \<Rightarrow> nat \<Rightarrow> nat \<Rightarrow> u8 list \<Rightarrow> (u8 list, NtfsError) result" where
  "reapply_fixup uso seq_number sector_size i buf =
     (if i * sector_size < 2 then Panic
      else let e = i * sector_size - 2 in
        if length buf < e + 2 then Err CorruptedFilesystem
        else rbind (rd16 buf e) (\<lambda>original.
          rbind (copy_r buf (uso + i * 2) (uso + i * 2 + 2) (le16 original)) (\<lambda>buf.
            copy_r buf e (e + 2) (le16 seq_number))))"

definition reapply_fixups :: "u8 list \<Rightarrow> nat \<Rightarrow> (u8 list, NtfsError) result" where
  "reapply_fixups buf sector_size =
     rbind (rd16 buf 4) (\<lambda>uso.
     rbind (rd16 buf 6) (\<lambda>usc.
       if uso < 48 \<or> usc = 0 then Ok buf
       else if length buf < uso + 2 * usc then Err CorruptedFilesystem
       else rbind (rd16 buf uso) (\<lambda>seq_number.
         rfold (reapply_fixup uso seq_number sector_size) [1..<usc] buf)))"

definition fixups_applied :: "u8 list \<Rightarrow> nat \<Rightarrow> (bool, NtfsError) result" where
  "fixups_applied buf sector_size =
     rbind (rd16 buf 4) (\<lambda>uso.
     rbind (rd16 buf 6) (\<lambda>usc.
       if uso < 48 \<or> usc = 0 \<or> length buf < uso + 2 then Ok False
       else rbind (rd16 buf uso) (\<lambda>seq_number.
         if 1 < usc then
           if sector_size < 2 then Panic
           else if sector_size \<le> length buf
             then rbind (rd16 buf (sector_size - 2)) (\<lambda>bytes. Ok (bytes \<noteq> seq_number))
             else Ok False
         else Ok False)))"

section \<open>Sector ends\<close>

text \<open>Position \<open>p\<close> is one of the last two bytes of one of the sectors 1 to \<open>n - 1\<close>.\<close>

definition sector_end :: "nat \<Rightarrow> nat \<Rightarrow> nat \<Rightarrow> bool" where
  "sector_end ss n p \<longleftrightarrow> (p + 2) mod ss < 2 \<and> 1 \<le> (p + 2) div ss \<and> (p + 2) div ss < n"

lemma sector_end_unique:
  fixes ss i p :: nat
  assumes "2 \<le> ss" "1 \<le> i"
  shows "i * ss - 2 \<le> p \<and> p < i * ss \<longleftrightarrow> (p + 2) div ss = i \<and> (p + 2) mod ss < 2"
proof
  assume "i * ss - 2 \<le> p \<and> p < i * ss"
  then have "p + 2 = i * ss + (p + 2 - i * ss)" "p + 2 - i * ss < 2" by linarith+
  with assms show "(p + 2) div ss = i \<and> (p + 2) mod ss < 2"
    by (metis add.commute div_mult_self3 div_less less_le_trans mod_less mod_mult_self2 add_0_right
        mult.commute not_less_zero gr_zeroI)
next
  assume "(p + 2) div ss = i \<and> (p + 2) mod ss < 2"
  moreover have "p + 2 = (p + 2) div ss * ss + (p + 2) mod ss" by simp
  ultimately show "i * ss - 2 \<le> p \<and> p < i * ss" by (metis add_less_cancel_left le_add1 le_diff_conv add.commute)
qed

lemma sector_end_div:
  fixes ss i p :: nat
  assumes "2 \<le> ss" "1 \<le> i" "i * ss - 2 \<le> p" "p < i * ss"
  shows "(p + 2) div ss = i" "(p + 2) mod ss = p - (i * ss - 2)"
proof -
  show d: "(p + 2) div ss = i" using sector_end_unique [OF assms(1,2), of p] assms(3,4) by simp
  have "2 \<le> i * ss" using assms(1,2) mult_le_mono [of 1 i 2 ss] by simp
  then show "(p + 2) mod ss = p - (i * ss - 2)"
    using div_mult_mod_eq [of "p + 2" ss] assms(3) unfolding d by linarith
qed

lemma sector_end_Suc:
  assumes "2 \<le> ss" "1 \<le> n"
  shows "sector_end ss (Suc n) p \<longleftrightarrow> sector_end ss n p \<or> (n * ss - 2 \<le> p \<and> p < n * ss)"
  unfolding sector_end_unique [OF assms] using assms by (auto simp: sector_end_def)

lemma sector_end_later:
  "2 \<le> ss \<Longrightarrow> 1 \<le> n \<Longrightarrow> n * ss - 2 \<le> p \<Longrightarrow> p < n * ss \<Longrightarrow> \<not> sector_end ss n p"
  using sector_end_unique [of ss n p] by (simp add: sector_end_def)

lemma sector_end_1: "\<not> sector_end ss 1 p"
  by (simp add: sector_end_def)

text \<open>
  The layouts on which update sequences make sense: the array lies behind the header and inside the
  record, and apart from the sector ends it protects, which are inside the record too.
\<close>

definition fixup_layout :: "nat \<Rightarrow> nat \<Rightarrow> nat \<Rightarrow> nat \<Rightarrow> bool" where
  "fixup_layout len uso usc ss \<longleftrightarrow>
     48 \<le> uso \<and> 1 \<le> usc \<and> uso + 2 * usc \<le> len \<and> 10 \<le> ss \<and> (usc - 1) * ss \<le> len
     \<and> (\<forall>i < usc. 1 \<le> i \<longrightarrow> i * ss \<le> uso \<or> uso + 2 * usc \<le> i * ss - 2)"

lemma fixup_layout_sector:
  assumes "fixup_layout len uso usc ss" "1 \<le> i" "i < usc"
  shows "10 \<le> i * ss" "i * ss \<le> len" "i * ss \<le> uso \<or> uso + 2 * usc \<le> i * ss - 2"
proof -
  have f: "10 \<le> ss" "(usc - 1) * ss \<le> len" using assms(1) by (auto simp: fixup_layout_def)
  show "10 \<le> i * ss" using f(1) assms(2) mult_le_mono [of 1 i 10 ss] by simp
  have "i * ss \<le> (usc - 1) * ss" using assms(3) by (intro mult_le_mono1) simp
  with f(2) show "i * ss \<le> len" by linarith
  show "i * ss \<le> uso \<or> uso + 2 * usc \<le> i * ss - 2" using assms by (auto simp: fixup_layout_def)
qed

lemma fixup_layout_array:
  assumes "fixup_layout len uso usc ss" "uso \<le> p" "p < uso + 2 * usc" "n \<le> usc"
  shows "\<not> sector_end ss n p"
proof
  assume e: "sector_end ss n p"
  let ?i = "(p + 2) div ss"
  have i: "1 \<le> ?i" "?i < usc" "(p + 2) mod ss < 2" using e assms(4) by (auto simp: sector_end_def)
  have "2 \<le> ss" using assms(1) by (simp add: fixup_layout_def)
  then have "?i * ss - 2 \<le> p \<and> p < ?i * ss" using sector_end_unique [of ss ?i p] i by simp
  with fixup_layout_sector(3) [OF assms(1) i(1,2)] assms(2,3) show False by linarith
qed

lemma nth_blit_pair:
  "a + 2 \<le> length xs \<Longrightarrow> length ys = 2 \<Longrightarrow> p < length xs \<Longrightarrow>
   blit xs a ys ! p = (if a \<le> p \<and> p < a + 2 then ys ! (p - a) else xs ! p)"
  by (simp add: nth_blit)

lemma nth_blit_end:
  "2 \<le> e \<Longrightarrow> e \<le> length xs \<Longrightarrow> length ys = 2 \<Longrightarrow> p < length xs \<Longrightarrow>
   blit xs (e - 2) ys ! p = (if e - 2 \<le> p \<and> p < e then ys ! (p - (e - 2)) else xs ! p)"
proof -
  assume a: "2 \<le> e" "e \<le> length xs" "length ys = 2" "p < length xs"
  then obtain f where "e = f + 2" by (metis le_add_diff_inverse2)
  with a show ?thesis by (simp add: nth_blit_pair)
qed

lemma le16_seg: "a + 2 \<le> length xs \<Longrightarrow> le16 (le_val (seg xs a (a + 2))) = seg xs a (a + 2)"
  using le_bytes_le_val [of "seg xs a (a + 2)"] by simp

lemma apply_fixup_Ok:
  assumes "10 \<le> i * ss" "i * ss \<le> length b" "uso + i * 2 + 2 \<le> length b"
    and "seg b (i * ss - 2) (i * ss) = le16 q" "q < 65536"
  shows "apply_fixup uso q ss i b = Ok (blit b (i * ss - 2) (seg b (uso + i * 2) (uso + i * 2 + 2)))"
proof -
  have "i * ss - 2 + 2 = i * ss" using assms(1) by linarith
  with assms le16_seg [of "uso + i * 2" b] show ?thesis
    by (simp add: apply_fixup_def Let_def rd_Ok copy_r_Ok le_val_le16)
qed

lemma reapply_fixup_Ok:
  assumes "10 \<le> i * ss" "i * ss \<le> length b" "uso + i * 2 + 2 \<le> length b"
  shows "reapply_fixup uso q ss i b
       = Ok (blit (blit b (uso + i * 2) (seg b (i * ss - 2) (i * ss))) (i * ss - 2) (le16 q))"
proof -
  have "i * ss - 2 + 2 = i * ss" using assms(1) by linarith
  with assms le16_seg [of "i * ss - 2" b] show ?thesis
    by (simp add: reapply_fixup_def Let_def rd_Ok copy_r_Ok length_blit)
qed

section \<open>What the loops compute\<close>

text \<open>The record after \<open>n - 1\<close> rounds of \<open>apply_fixups\<close>, and of \<open>reapply_fixups\<close>, byte by byte.\<close>

definition fixed_byte :: "u8 list \<Rightarrow> nat \<Rightarrow> nat \<Rightarrow> nat \<Rightarrow> nat \<Rightarrow> u8" where
  "fixed_byte buf uso ss n p =
     (if sector_end ss n p then buf ! (uso + (p + 2) div ss * 2 + (p + 2) mod ss) else buf ! p)"

definition unfixed_byte :: "u8 list \<Rightarrow> nat \<Rightarrow> nat \<Rightarrow> nat \<Rightarrow> nat \<Rightarrow> u8" where
  "unfixed_byte buf uso ss n p =
     (if sector_end ss n p then buf ! (uso + (p + 2) mod ss)
      else if uso + 2 \<le> p \<and> p < uso + 2 * n then buf ! ((p - uso) div 2 * ss - 2 + (p - uso) mod 2)
      else buf ! p)"

lemma apply_loop:
  assumes lay: "fixup_layout (length buf) uso usc ss" and "n \<le> usc" "1 \<le> n"
    and ends: "\<forall>i < n. 1 \<le> i \<longrightarrow> seg buf (i * ss - 2) (i * ss) = seg buf uso (uso + 2)"
  shows "\<exists>b. rfold (apply_fixup uso (le_val (seg buf uso (uso + 2))) ss) [1..<n] buf = Ok b
    \<and> length b = length buf \<and> (\<forall>p < length buf. b ! p = fixed_byte buf uso ss n p)"
  using assms(3,2) ends
proof (induction n rule: dec_induct)
  case base
  then show ?case by (simp add: fixed_byte_def sector_end_1 del: One_nat_def)
next
  case (step n)
  let ?q = "le_val (seg buf uso (uso + 2))"
  obtain b where b: "rfold (apply_fixup uso ?q ss) [1..<n] buf = Ok b" "length b = length buf"
    "\<forall>p < length buf. b ! p = fixed_byte buf uso ss n p" using step by auto
  have n: "1 \<le> n" "n < usc" using step by auto
  note sec = fixup_layout_sector [OF lay n]
  have lay': "uso + 2 * usc \<le> length buf" "2 \<le> ss" using lay by (auto simp: fixup_layout_def)
  have "seg b (n * ss - 2) (n * ss) = seg buf (n * ss - 2) (n * ss)"
    using b sector_end_later [OF lay'(2) n(1)] by (intro seg_cong) (auto simp: fixed_byte_def)
  then have e: "seg b (n * ss - 2) (n * ss) = le16 ?q"
    using step.prems(2) n lay' le16_seg [of uso buf] by simp
  have q: "?q < 65536" using le_val_bound [of "seg buf uso (uso + 2)"] lay' n by simp
  have s: "seg b (uso + n * 2) (uso + n * 2 + 2) = seg buf (uso + n * 2) (uso + n * 2 + 2)"
    using b n fixup_layout_array [OF lay, of _ n] by (intro seg_cong) (auto simp: fixed_byte_def)
  let ?b = "blit b (n * ss - 2) (seg buf (uso + n * 2) (uso + n * 2 + 2))"
  have r: "rfold (apply_fixup uso ?q ss) [1..<Suc n] buf = Ok ?b"
    unfolding rfold_upt_Suc [OF n(1)] b(1)
    using apply_fixup_Ok [of n ss b uso ?q] sec e q s n lay' b(2) by simp
  have "?b ! p = fixed_byte buf uso ss (Suc n) p" if p: "p < length buf" for p
  proof -
    define E where "E \<longleftrightarrow> n * ss - 2 \<le> p \<and> p < n * ss"
    have w: "?b ! p = (if E then seg buf (uso + n * 2) (uso + n * 2 + 2) ! (p - (n * ss - 2)) else b ! p)"
      unfolding E_def by (rule nth_blit_end) (use sec b(2) n lay' p in auto)
    have x: "sector_end ss (Suc n) p \<longleftrightarrow> sector_end ss n p \<or> E"
      unfolding E_def by (rule sector_end_Suc [OF lay'(2) n(1)])
    show ?thesis
    proof (cases E)
      case True
      then have E: "n * ss - 2 \<le> p" "p < n * ss" "p - (n * ss - 2) < 2" unfolding E_def by auto
      note d = sector_end_div [OF lay'(2) n(1) E(1,2)]
      show ?thesis unfolding w x fixed_byte_def d using True E(3) n lay' by (simp add: nth_seg)
    next
      case False
      with b(3) p show ?thesis unfolding w x fixed_byte_def by simp
    qed
  qed
  with r show ?case using b(2) sec n lay' by (simp add: length_blit)
qed

lemma reapply_loop:
  assumes lay: "fixup_layout (length buf) uso usc ss" and "n \<le> usc" "1 \<le> n"
  shows "\<exists>b. rfold (reapply_fixup uso (le_val (seg buf uso (uso + 2))) ss) [1..<n] buf = Ok b
    \<and> length b = length buf \<and> (\<forall>p < length buf. b ! p = unfixed_byte buf uso ss n p)"
  using assms(3,2)
proof (induction n rule: dec_induct)
  case base
  then show ?case by (auto simp: unfixed_byte_def sector_end_1 simp del: One_nat_def)
next
  case (step n)
  let ?q = "le_val (seg buf uso (uso + 2))"
  obtain b where b: "rfold (reapply_fixup uso ?q ss) [1..<n] buf = Ok b" "length b = length buf"
    "\<forall>p < length buf. b ! p = unfixed_byte buf uso ss n p" using step by auto
  have n: "1 \<le> n" "n < usc" using step by auto
  note sec = fixup_layout_sector [OF lay n]
  have lay': "uso + 2 * usc \<le> length buf" "2 \<le> ss" using lay by (auto simp: fixup_layout_def)
  have e: "seg b (n * ss - 2) (n * ss) = seg buf (n * ss - 2) (n * ss)"
    using b n sec sector_end_later [OF lay'(2) n(1)] by (intro seg_cong) (auto simp: unfixed_byte_def)
  have q: "le16 ?q = seg buf uso (uso + 2)" using le16_seg [of uso buf] lay' n by simp
  let ?a = "blit b (uso + n * 2) (seg buf (n * ss - 2) (n * ss))"
  let ?b = "blit ?a (n * ss - 2) (seg buf uso (uso + 2))"
  have r: "rfold (reapply_fixup uso ?q ss) [1..<Suc n] buf = Ok ?b"
    unfolding rfold_upt_Suc [OF n(1)] b(1)
    using reapply_fixup_Ok [of n ss b uso ?q] sec e n lay' b(2) unfolding q by simp
  have la: "length ?a = length buf" using b(2) sec n lay' by (simp add: length_blit)
  have "?b ! p = unfixed_byte buf uso ss (Suc n) p" if p: "p < length buf" for p
  proof -
    define E where "E \<longleftrightarrow> n * ss - 2 \<le> p \<and> p < n * ss"
    define A where "A \<longleftrightarrow> uso + n * 2 \<le> p \<and> p < uso + n * 2 + 2"
    have w: "?b ! p = (if E then seg buf uso (uso + 2) ! (p - (n * ss - 2)) else ?a ! p)"
      unfolding E_def by (rule nth_blit_end) (use sec la n lay' p in auto)
    have v: "?a ! p = (if A then seg buf (n * ss - 2) (n * ss) ! (p - (uso + n * 2)) else b ! p)"
      unfolding A_def by (rule nth_blit_pair) (use sec b(2) n lay' p in auto)
    have x: "sector_end ss (Suc n) p \<longleftrightarrow> sector_end ss n p \<or> E"
      unfolding E_def by (rule sector_end_Suc [OF lay'(2) n(1)])
    have y: "uso + 2 \<le> p \<and> p < uso + 2 * Suc n \<longleftrightarrow> (uso + 2 \<le> p \<and> p < uso + 2 * n) \<or> A"
      using n by (auto simp: A_def)
    show ?thesis
    proof (cases E)
      case True
      then have E: "n * ss - 2 \<le> p" "p < n * ss" "p - (n * ss - 2) < 2" unfolding E_def by auto
      note d = sector_end_div [OF lay'(2) n(1) E(1,2)]
      show ?thesis unfolding w x unfixed_byte_def d using True E(3) n lay' by (simp add: nth_seg)
    next
      case notE: False
      show ?thesis
      proof (cases A)
        case True
        then obtain j where j: "p = uso + n * 2 + j" "j < 2"
          unfolding A_def by (metis add_less_cancel_left le_Suc_ex)
        have "\<not> sector_end ss n p" using fixup_layout_array [OF lay, of p n] True n by (simp add: A_def)
        then show ?thesis
          unfolding w v x y unfixed_byte_def using True notE j sec by (simp add: nth_seg)
      next
        case False
        with notE b(3) p show ?thesis unfolding w v x y unfixed_byte_def by (simp add: unfixed_byte_def)
      qed
    qed
  qed
  with r show ?case using la sec n lay' by (simp add: length_blit)
qed

section \<open>Round trips\<close>

definition usa_offset :: "u8 list \<Rightarrow> nat" where
  "usa_offset buf = le_val (seg buf 4 6)"

definition usa_count :: "u8 list \<Rightarrow> nat" where
  "usa_count buf = le_val (seg buf 6 8)"

definition good_layout :: "u8 list \<Rightarrow> nat \<Rightarrow> bool" where
  "good_layout buf ss \<longleftrightarrow> fixup_layout (length buf) (usa_offset buf) (usa_count buf) ss"

lemma apply_fixups_loop:
  assumes "good_layout buf ss"
  shows "apply_fixups buf ss = rfold (apply_fixup (usa_offset buf)
     (le_val (seg buf (usa_offset buf) (usa_offset buf + 2))) ss) [1..<usa_count buf] buf"
  using assms by (simp add: good_layout_def fixup_layout_def apply_fixups_def rd_Ok usa_offset_def usa_count_def)

lemma reapply_fixups_loop:
  assumes "good_layout buf ss"
  shows "reapply_fixups buf ss = rfold (reapply_fixup (usa_offset buf)
     (le_val (seg buf (usa_offset buf) (usa_offset buf + 2))) ss) [1..<usa_count buf] buf"
  using assms by (simp add: good_layout_def fixup_layout_def reapply_fixups_def rd_Ok usa_offset_def usa_count_def)

lemma good_layout_head:
  assumes "good_layout buf ss" "p < 8"
  shows "\<not> sector_end ss n p"
proof
  assume e: "sector_end ss n p"
  have "10 \<le> ss" using assms(1) by (simp add: good_layout_def fixup_layout_def)
  with assms(2) have "(p + 2) div ss = 0" by simp
  with e show False by (simp add: sector_end_def)
qed

text \<open>Neither direction touches the header fields that locate the array.\<close>

lemma good_layout_transfer:
  assumes "good_layout buf ss" "length b = length buf" "\<And>p. p < 8 \<Longrightarrow> b ! p = buf ! p"
  shows "usa_offset b = usa_offset buf" "usa_count b = usa_count buf" "good_layout b ss"
proof -
  have "8 \<le> length buf" using assms(1) by (simp add: good_layout_def fixup_layout_def)
  then have "seg b 4 6 = seg buf 4 6" "seg b 6 8 = seg buf 6 8"
    using assms(2,3) by (auto intro!: seg_cong)
  then show "usa_offset b = usa_offset buf" "usa_count b = usa_count buf"
    by (simp_all add: usa_offset_def usa_count_def)
  with assms show "good_layout b ss" by (simp add: good_layout_def)
qed

abbreviation seq_bytes :: "u8 list \<Rightarrow> u8 list" where
  "seq_bytes buf \<equiv> seg buf (usa_offset buf) (usa_offset buf + 2)"

abbreviation end_bytes :: "u8 list \<Rightarrow> nat \<Rightarrow> nat \<Rightarrow> u8 list" where
  "end_bytes buf ss i \<equiv> seg buf (i * ss - 2) (i * ss)"

lemma torn_loop:
  assumes lay: "good_layout buf ss" and i: "1 \<le> i" "i < usa_count buf"
    and least: "\<forall>j < i. 1 \<le> j \<longrightarrow> end_bytes buf ss j = seq_bytes buf"
    and torn: "end_bytes buf ss i \<noteq> seq_bytes buf"
  shows "apply_fixups buf ss = Err CorruptedFilesystem"
proof -
  let ?u = "usa_offset buf" and ?c = "usa_count buf" and ?q = "le_val (seq_bytes buf)"
  note fl = lay [unfolded good_layout_def]
  note sec = fixup_layout_sector [OF fl i]
  have f: "?u + 2 * ?c \<le> length buf" "2 \<le> ss" using fl by (auto simp: fixup_layout_def)
  obtain b where b: "rfold (apply_fixup ?u ?q ss) [1..<i] buf = Ok b" "length b = length buf"
      "\<forall>p < length buf. b ! p = fixed_byte buf ?u ss i p"
    using apply_loop [OF fl _ i(1) least] i by auto
  have "end_bytes b ss i = end_bytes buf ss i"
    using b sector_end_later [OF f(2) i(1)] by (intro seg_cong) (auto simp: fixed_byte_def)
  moreover have "le_val (end_bytes buf ss i) \<noteq> ?q"
  proof
    assume "le_val (end_bytes buf ss i) = ?q"
    then have "le16 (le_val (end_bytes buf ss i)) = le16 ?q" by simp
    moreover have "i * ss - 2 + 2 = i * ss" using sec(1) by linarith
    ultimately have "end_bytes buf ss i = seq_bytes buf"
      using le16_seg [of "i * ss - 2" buf] le16_seg [of ?u buf] sec f i by simp
    with torn show False ..
  qed
  moreover have "i * ss - 2 + 2 = i * ss" using sec(1) by linarith
  ultimately have e: "apply_fixup ?u ?q ss i b = Err CorruptedFilesystem"
    using sec f i b(2) by (simp add: apply_fixup_def Let_def rd_Ok)
  have "[1..<?c] = [1..<i] @ i # [Suc i..<?c]"
    using i upt_add_eq_append [of 1 i "?c - i"] upt_conv_Cons [of i ?c] by simp
  then show ?thesis using b(1) e unfolding apply_fixups_loop [OF lay] by (simp add: rfold_append)
qed

lemma torn_write_detected:
  assumes "good_layout buf ss" "1 \<le> i" "i < usa_count buf" "end_bytes buf ss i \<noteq> seq_bytes buf"
  shows "apply_fixups buf ss = Err CorruptedFilesystem"
proof -
  let ?P = "\<lambda>j. 1 \<le> j \<and> end_bytes buf ss j \<noteq> seq_bytes buf"
  have P: "?P i" using assms by simp
  define k where "k = (LEAST j. ?P j)"
  have k: "?P k" "k \<le> i" unfolding k_def using LeastI [of ?P, OF P] Least_le [of ?P, OF P] by auto
  have "\<forall>j < k. 1 \<le> j \<longrightarrow> end_bytes buf ss j = seq_bytes buf"
    using not_less_Least [of _ ?P] unfolding k_def by auto
  with k assms(1,3) show ?thesis by (intro torn_loop) auto
qed

text \<open>
  C6: a torn write is detected: when the last two bytes of some protected sector are not the sequence
  number, \<open>apply_fixups\<close> fails with \<open>CorruptedFilesystem\<close>.
\<close>

theorem apply_fixups_detects_torn_write:
  assumes "good_layout buf ss" "1 \<le> i" "i < usa_count buf" "end_bytes buf ss i \<noteq> seq_bytes buf"
  shows "apply_fixups buf ss = Err CorruptedFilesystem"
  using assms by (rule torn_write_detected)

text \<open>A record of two 64-byte sectors: the array at 48 holds the number 7 and two saved pairs.\<close>

definition sample_record :: "u8 list" where
  "sample_record = [0x46, 0x49, 0x4C, 0x45, 48, 0, 3, 0] @ zeros 40 @ [7, 0, 1, 2, 3, 4] @ zeros 8 @ [7, 0]
     @ zeros 62 @ [7, 0]"

lemma sample_record_layout:
  "length sample_record = 128" "usa_offset sample_record = 48" "usa_count sample_record = 3"
  "good_layout sample_record 64"
proof -
  show l: "length sample_record = 128" by (simp add: sample_record_def)
  show u: "usa_offset sample_record = 48" by (simp add: usa_offset_def sample_record_def seg_def)
  show c: "usa_count sample_record = 3" by (simp add: usa_count_def sample_record_def seg_def)
  have "i = 1 \<or> i = 2" if "1 \<le> i" "i < 3" for i :: nat using that by linarith
  then show "good_layout sample_record 64"
    by (auto simp: good_layout_def fixup_layout_def l u c)
qed

theorem apply_fixups_detects_torn_write_witness:
  "apply_fixups (sample_record[127 := 9]) 64 = Err CorruptedFilesystem"
proof -
  let ?b = "sample_record[127 := 9]"
  have s: "seg ?b a b = seg sample_record a b" if "b \<le> 127" for a b
    using that by (intro seg_cong) (auto simp: sample_record_layout(1))
  have u: "usa_offset ?b = 48" "usa_count ?b = 3"
    using sample_record_layout by (simp_all add: usa_offset_def usa_count_def s)
  have "good_layout ?b 64"
    using sample_record_layout u by (simp add: good_layout_def)
  moreover have "end_bytes ?b 64 2 ! 1 = 9" by (simp add: nth_seg sample_record_layout(1))
  moreover have "seq_bytes ?b = [7, 0]" unfolding u using s [of 50 48] by (simp add: sample_record_def seg_def)
  ultimately show ?thesis
    by (intro apply_fixups_detects_torn_write [of ?b 64 2]) (auto simp: u)
qed

lemma apply_fixups_fixed:
  assumes lay: "good_layout buf ss" and ends: "\<forall>i < usa_count buf. 1 \<le> i \<longrightarrow> end_bytes buf ss i = seq_bytes buf"
  obtains c where "apply_fixups buf ss = Ok c" "length c = length buf"
    "\<forall>p < length buf. c ! p = fixed_byte buf (usa_offset buf) ss (usa_count buf) p"
proof -
  have "1 \<le> usa_count buf" using lay by (simp add: good_layout_def fixup_layout_def)
  from apply_loop [OF lay [unfolded good_layout_def] le_refl this ends] that show thesis
    by (auto simp: apply_fixups_loop [OF lay])
qed

lemma reapply_fixups_unfixed:
  assumes lay: "good_layout buf ss"
  obtains b where "reapply_fixups buf ss = Ok b" "length b = length buf"
    "\<forall>p < length buf. b ! p = unfixed_byte buf (usa_offset buf) ss (usa_count buf) p"
proof -
  have "1 \<le> usa_count buf" using lay by (simp add: good_layout_def fixup_layout_def)
  from reapply_loop [OF lay [unfolded good_layout_def] le_refl this] that show thesis
    by (auto simp: reapply_fixups_loop [OF lay])
qed

lemma sector_end_position:
  assumes "2 \<le> ss" "sector_end ss n p"
  shows "(p + 2) div ss * ss - 2 + (p + 2) mod ss = p"
proof -
  have "1 \<le> (p + 2) div ss" using assms(2) by (simp add: sector_end_def)
  then have "2 \<le> (p + 2) div ss * ss" using assms(1) mult_le_mono [of 1 "(p + 2) div ss" 2 ss] by simp
  with div_mult_mod_eq [of "p + 2" ss] show ?thesis by linarith
qed

lemma unfixed_ends:
  assumes lay: "good_layout buf ss" and b: "length b = length buf"
    "\<forall>p < length buf. b ! p = unfixed_byte buf (usa_offset buf) ss (usa_count buf) p"
  shows "good_layout b ss" "usa_offset b = usa_offset buf" "usa_count b = usa_count buf"
    "seq_bytes b = seq_bytes buf" "\<forall>i < usa_count buf. 1 \<le> i \<longrightarrow> end_bytes b ss i = seq_bytes buf"
proof -
  note fl = lay [unfolded good_layout_def]
  have f: "48 \<le> usa_offset buf" "usa_offset buf + 2 * usa_count buf \<le> length buf" "2 \<le> ss" "1 \<le> usa_count buf"
    using fl by (auto simp: fixup_layout_def)
  have "b ! p = buf ! p" if "p < 8" for p
    using b good_layout_head [OF lay that] that f by (simp add: unfixed_byte_def)
  from good_layout_transfer [OF lay b(1) this]
  show t: "good_layout b ss" "usa_offset b = usa_offset buf" "usa_count b = usa_count buf" by auto
  have "seg b (usa_offset buf) (usa_offset buf + 2) = seq_bytes buf"
    using b f fixup_layout_array [OF fl] by (intro seg_cong) (auto simp: unfixed_byte_def)
  with t show "seq_bytes b = seq_bytes buf" by simp
  show "\<forall>i < usa_count buf. 1 \<le> i \<longrightarrow> end_bytes b ss i = seq_bytes buf"
  proof (intro allI impI)
    fix i assume i: "i < usa_count buf" "1 \<le> i"
    note sec = fixup_layout_sector [OF fl i(2,1)]
    show "end_bytes b ss i = seq_bytes buf"
    proof (rule nth_equalityI)
      fix k assume "k < length (end_bytes b ss i)"
      then have k: "k < 2" "i * ss - 2 + k < i * ss" using sec by auto
      note d = sector_end_div [OF f(3) i(2) le_add1 k(2)]
      have "sector_end ss (usa_count buf) (i * ss - 2 + k)"
        unfolding sector_end_def d using i k by simp
      moreover have "b ! (i * ss - 2 + k) = unfixed_byte buf (usa_offset buf) ss (usa_count buf) (i * ss - 2 + k)"
        using b(2) sec k by simp
      ultimately have "b ! (i * ss - 2 + k) = buf ! (usa_offset buf + k)"
        unfolding unfixed_byte_def d by simp
      then show "end_bytes b ss i ! k = seq_bytes buf ! k"
        using k sec b(1) f by (simp add: nth_seg)
    qed (use sec f b(1) in auto)
  qed
qed

lemma reapply_apply_round_trip:
  assumes lay: "good_layout buf ss"
  shows "\<exists>b c. reapply_fixups buf ss = Ok b \<and> length b = length buf \<and> (\<forall>p < 8. b ! p = buf ! p)
    \<and> (\<forall>i < usa_count buf. 1 \<le> i \<longrightarrow> end_bytes b ss i = seq_bytes buf)
    \<and> apply_fixups b ss = Ok c \<and> length c = length buf
    \<and> (\<forall>p < length buf. p < usa_offset buf + 2 \<or> usa_offset buf + 2 * usa_count buf \<le> p \<longrightarrow> c ! p = buf ! p)"
proof -
  note fl = lay [unfolded good_layout_def]
  let ?u = "usa_offset buf" and ?n = "usa_count buf"
  have f: "?u + 2 * ?n \<le> length buf" "2 \<le> ss" using fl by (auto simp: fixup_layout_def)
  obtain b where b: "reapply_fixups buf ss = Ok b" "length b = length buf"
      "\<forall>p < length buf. b ! p = unfixed_byte buf ?u ss ?n p"
    using reapply_fixups_unfixed [OF lay] by blast
  note u = unfixed_ends [OF lay b(2,3)]
  have "\<forall>i < usa_count b. 1 \<le> i \<longrightarrow> end_bytes b ss i = seq_bytes b" using u(3-5) by simp
  from apply_fixups_fixed [OF u(1) this]
  obtain c where c: "apply_fixups b ss = Ok c" "length c = length buf"
      "\<forall>p < length buf. c ! p = fixed_byte b ?u ss ?n p"
    unfolding u(2,3) b(2) by blast
  have "c ! p = buf ! p" if p: "p < length buf" "p < ?u + 2 \<or> ?u + 2 * ?n \<le> p" for p
  proof (cases "sector_end ss ?n p")
    case True
    let ?i = "(p + 2) div ss" and ?k = "(p + 2) mod ss"
    have i: "1 \<le> ?i" "?i < ?n" "?k < 2" using True by (auto simp: sector_end_def)
    then have q: "?u + ?i * 2 + ?k < ?u + 2 * ?n" by linarith
    have ns: "\<not> sector_end ss ?n (?u + ?i * 2 + ?k)" using fixup_layout_array [OF fl _ q] by simp
    have "?u + 2 \<le> ?u + ?i * 2 + ?k" "(?u + ?i * 2 + ?k - ?u) div 2 = ?i" "(?u + ?i * 2 + ?k - ?u) mod 2 = ?k"
      using i by simp_all
    then have "b ! (?u + ?i * 2 + ?k) = buf ! (?i * ss - 2 + ?k)"
      using b(3) ns q f(1) unfolding unfixed_byte_def by simp
    with True c(3) p(1) show ?thesis
      unfolding fixed_byte_def sector_end_position [OF f(2) True] by simp
  next
    case False
    with p b(3) c(3) show ?thesis by (auto simp: fixed_byte_def unfixed_byte_def)
  qed
  moreover have "b ! p = buf ! p" if "p < 8" for p
    using b(3) [rule_format, of p] good_layout_head [OF lay that] that fl by (simp add: unfixed_byte_def fixup_layout_def)
  ultimately show ?thesis using b(1,2) c(1,2) u(5) by blast
qed

lemma reapply_restores_byte:
  assumes fl: "fixup_layout (length buf) u n ss"
    and ends: "\<forall>i < n. 1 \<le> i \<longrightarrow> end_bytes buf ss i = seg buf u (u + 2)"
    and c: "\<forall>p < length buf. c ! p = fixed_byte buf u ss n p" and p: "p < length buf"
  shows "unfixed_byte c u ss n p = buf ! p"
proof -
  have f: "u + 2 * n \<le> length buf" "2 \<le> ss" using fl by (auto simp: fixup_layout_def)
  have array: "c ! q = buf ! q" if "u \<le> q" "q < u + 2 * n" for q
    using c fixup_layout_array [OF fl that le_refl] that f(1) by (simp add: fixed_byte_def)
  consider (sector) "sector_end ss n p"
    | (array) "\<not> sector_end ss n p" "u + 2 \<le> p" "p < u + 2 * n"
    | (other) "\<not> sector_end ss n p" "\<not> (u + 2 \<le> p \<and> p < u + 2 * n)" by blast
  then show ?thesis
  proof cases
    case sector
    define i k where "i = (p + 2) div ss" and "k = (p + 2) mod ss"
    have pos: "i * ss - 2 + k = p" unfolding i_def k_def by (rule sector_end_position [OF f(2) sector])
    have i: "1 \<le> i" "i < n" "k < 2" using sector by (auto simp: sector_end_def i_def k_def)
    note sec = fixup_layout_sector [OF fl i(1,2)]
    have "end_bytes buf ss i ! k = seg buf u (u + 2) ! k" using ends i by metis
    then have "buf ! (i * ss - 2 + k) = buf ! (u + k)" using i sec f(1) by (simp add: nth_seg)
    then have "buf ! p = c ! (u + k)" using array [of "u + k"] i pos by simp
    with sector show ?thesis unfolding unfixed_byte_def k_def by simp
  next
    case array
    define i k where "i = (p - u) div 2" and "k = (p - u) mod 2"
    have "p - u = i * 2 + k" unfolding i_def k_def by (simp only: div_mult_mod_eq)
    then have pu: "p = u + i * 2 + k" using array by linarith
    have k: "k < 2" by (simp add: k_def)
    have i: "1 \<le> i" "i < n" "k < 2" using array(2,3) pu k by linarith+
    note sec = fixup_layout_sector [OF fl i(1,2)]
    have e: "i * ss - 2 + k < i * ss" using sec i(3) by linarith
    note d = sector_end_div [OF f(2) i(1) le_add1 e]
    have se: "sector_end ss n (i * ss - 2 + k)" unfolding sector_end_def d using i by simp
    have "c ! (i * ss - 2 + k) = fixed_byte buf u ss n (i * ss - 2 + k)" using c e sec by simp
    also have "\<dots> = buf ! p" using se unfolding fixed_byte_def d by (simp add: pu)
    finally show ?thesis using array unfolding unfixed_byte_def i_def k_def by simp
  next
    case other
    with c p show ?thesis by (auto simp: unfixed_byte_def fixed_byte_def)
  qed
qed

text \<open>
  C7: \<open>reapply_fixups\<close> puts the sequence number at the end of every protected sector, and
  \<open>apply_fixups\<close> then restores every byte of the record outside the update sequence array itself.
\<close>

theorem reapply_then_apply_fixups:
  assumes lay: "good_layout buf ss"
  shows "\<exists>b c. reapply_fixups buf ss = Ok b
    \<and> (\<forall>i < usa_count buf. 1 \<le> i \<longrightarrow> end_bytes b ss i = seq_bytes buf)
    \<and> apply_fixups b ss = Ok c \<and> length c = length buf
    \<and> (\<forall>p < length buf. p < usa_offset buf + 2 \<or> usa_offset buf + 2 * usa_count buf \<le> p \<longrightarrow> c ! p = buf ! p)"
  using reapply_apply_round_trip [OF lay] by blast

theorem reapply_then_apply_fixups_witness:
  "\<exists>b c. reapply_fixups sample_record 64 = Ok b \<and> apply_fixups b 64 = Ok c
    \<and> (\<forall>p < 128. p < 50 \<or> 54 \<le> p \<longrightarrow> c ! p = sample_record ! p)"
  using reapply_then_apply_fixups [OF sample_record_layout(4)] by (auto simp: sample_record_layout)

text \<open>
  A record that was read (\<open>apply_fixups\<close>) and not changed is written back (\<open>reapply_fixups\<close>)
  as exactly the bytes that were read.
\<close>

theorem apply_then_reapply_fixups:
  assumes lay: "good_layout buf ss" and ok: "apply_fixups buf ss = Ok c"
  shows "reapply_fixups c ss = Ok buf"
proof -
  note fl = lay [unfolded good_layout_def]
  let ?u = "usa_offset buf" and ?n = "usa_count buf"
  have ends: "\<forall>i < ?n. 1 \<le> i \<longrightarrow> end_bytes buf ss i = seq_bytes buf"
    using torn_write_detected [OF lay] ok by fastforce
  obtain c' where "apply_fixups buf ss = Ok c'" "length c' = length buf"
      "\<forall>p < length buf. c' ! p = fixed_byte buf ?u ss ?n p"
    using apply_fixups_fixed [OF lay ends] by blast
  with ok have c: "length c = length buf" "\<forall>p < length buf. c ! p = fixed_byte buf ?u ss ?n p" by auto
  have "50 \<le> length buf" using fl by (simp add: fixup_layout_def)
  then have head: "c ! p = buf ! p" if "p < 8" for p
    using c(2) [rule_format, of p] good_layout_head [OF lay that] that by (simp add: fixed_byte_def)
  have t: "usa_offset c = usa_offset buf" "usa_count c = usa_count buf" "good_layout c ss"
    using good_layout_transfer [OF lay c(1) head] by auto
  obtain b where b: "reapply_fixups c ss = Ok b" "length b = length buf"
      "\<forall>p < length buf. b ! p = unfixed_byte c ?u ss ?n p"
    by (rule reapply_fixups_unfixed [OF t(3), unfolded t(1,2) c(1)])
  have "b = buf"
    using b(2,3) reapply_restores_byte [OF fl ends c(2)] by (intro nth_equalityI) auto
  with b(1) show ?thesis by simp
qed

theorem apply_then_reapply_fixups_witness:
  "\<exists>c. apply_fixups sample_record 64 = Ok c \<and> reapply_fixups c 64 = Ok sample_record"
proof -
  have ends: "end_bytes sample_record 64 1 = [7, 0]" "end_bytes sample_record 64 2 = [7, 0]"
    "seg sample_record 48 (48 + 2) = [7, 0]"
    by (simp_all add: sample_record_def seg_def)
  have "i = 1 \<or> i = 2" if "1 \<le> i" "i < 3" for i :: nat using that by linarith
  with ends have "\<forall>i < usa_count sample_record. 1 \<le> i \<longrightarrow> end_bytes sample_record 64 i = seq_bytes sample_record"
    unfolding sample_record_layout(2,3) by metis
  then obtain c where "apply_fixups sample_record 64 = Ok c"
    using apply_fixups_fixed [OF sample_record_layout(4)] by blast
  with apply_then_reapply_fixups [OF sample_record_layout(4) this] show ?thesis by blast
qed

end
