(* ===== verification/NtfsAttr.thy ===== *)
theory NtfsAttr
  imports NtfsRuns NtfsFixups
begin

text \<open>
  MFT records as sequences of attributes (\<^verbatim>\<open>attr.rs\<close>): the attribute iterator, the file name parser,
  \<open>parse_stat\<close>, and the in-place update of resident data.
\<close>

section \<open>Names\<close>

definition utf16_name_unit :: "u8 list \<Rightarrow> nat \<Rightarrow> nat" where
  "utf16_name_unit raw i = le_val (seg raw (i * 2) (i * 2 + 2))"

definition parse_name_and_parent :: "u8 list \<Rightarrow> nat \<Rightarrow> (rstr \<times> u64) option" where
  "parse_name_and_parent data name_offset =
     (if length data < name_offset + 2 then None
      else
        let parent = fld data 0 8; name_len = unat (data ! 0x40); raw = drop name_offset data
        in if length raw < name_len * 2 then None
           else Some (map ascii_or_mark (takeWhile (\<lambda>c. c \<noteq> 0) (map (utf16_name_unit raw) [0..<name_len])), parent))"

definition parse_filename :: "u8 list \<Rightarrow> ((rstr \<times> u64) option, NtfsError) result" where
  "parse_filename attr_data = rbind (drop_r attr_data 24) (\<lambda>d. Ok (parse_name_and_parent d 0x42))"

definition parse_filename_from_key :: "u8 list \<Rightarrow> (rstr \<times> u64) option" where
  "parse_filename_from_key key = parse_name_and_parent key 0x42"

definition parse_attr_name :: "u8 list \<Rightarrow> nat \<Rightarrow> rstr" where
  "parse_attr_name attr_data name_length =
     (if length attr_data < 12 then []
      else let name_offset = le_val (seg attr_data 10 12) in
        case get_slice attr_data name_offset (name_offset + name_length * 2) of
          None \<Rightarrow> []
        | Some raw \<Rightarrow> map (\<lambda>c. ascii_or_mark (le_val c)) (chunks_exact 2 raw))"

section \<open>The attribute iterator\<close>

definition attribute_type :: "nat \<Rightarrow> AttributeType option" where
  "attribute_type code =
     (if code = 0x10 then Some AtStandardInformation
      else if code = 0x20 then Some AtAttributeList
      else if code = 0x30 then Some AtFileName
      else if code = 0x40 then Some AtObjectId
      else if code = 0x50 then Some AtSecurityDescriptor
      else if code = 0x60 then Some AtVolumeName
      else if code = 0x70 then Some AtVolumeInformation
      else if code = 0x80 then Some AtData
      else if code = 0x90 then Some AtIndexRoot
      else if code = 0xA0 then Some AtIndexAllocation
      else if code = 0xB0 then Some AtBitmap
      else if code = 0xC0 then Some AtReparsePoint
      else if code = 0xD0 then Some AtEaInformation
      else if code = 0xE0 then Some AtEa
      else if code = 0x100 then Some AtLoggedUtilityStream
      else None)"

text \<open>
  One call of the iterator of \<open>parse_attributes\<close>: the attribute at \<open>off\<close> and the offset of the next one.
  \<open>record[offset + 8]\<close> panics when the record ends right behind the eight bytes read so far.
\<close>

definition next_attribute ::
    "u8 list \<Rightarrow> nat \<Rightarrow> ((AttributeType \<times> u8 list \<times> bool \<times> nat) option, NtfsError) result" where
  "next_attribute record off =
     (if length record < off + 8 then Ok None
      else
        let type_code = le_val (seg record off (off + 4));
            record_length = le_val (seg record (off + 4) (off + 8))
        in if type_code = 0xFFFFFFFF then Ok None
           else if record_length = 0 \<or> length record < off + record_length then Ok None
           else rbind (index_r record (off + 8)) (\<lambda>flag.
             case attribute_type type_code of
               None \<Rightarrow> Ok None
             | Some ty \<Rightarrow> Ok (Some (ty, seg record off (off + record_length), flag = 0, off + record_length))))"

lemma next_attribute_progress:
  "next_attribute record off = Ok (Some (ty, attr, res, off')) \<Longrightarrow>
   off < off' \<and> off' \<le> length record \<and> attr = seg record off off'"
  by (auto simp: next_attribute_def Let_def res_simps split: if_splits option.splits)

section \<open>Statistics of a file\<close>

definition add_data_stream :: "rstr option \<Rightarrow> u64 \<Rightarrow> DataRun \<Rightarrow> NtfsStat \<Rightarrow> NtfsStat" where
  "add_data_stream name n run stat =
     (case name of
        None \<Rightarrow> stat\<lparr>stat_size := n, data_runs := data_runs stat @ [run]\<rparr>
      | Some nm \<Rightarrow> stat\<lparr>alternate_data_streams := alternate_data_streams stat
                        @ [\<lparr>ads_name = nm, ads_size = n, ads_data = run\<rparr>]\<rparr>)"

text \<open>The \<open>Data\<close> arm of \<open>parse_stat\<close>; \<open>continue\<close> leaves the statistics as they are.\<close>

definition stat_data :: "BootSector \<Rightarrow> u8 list \<Rightarrow> bool \<Rightarrow> NtfsStat \<Rightarrow> (NtfsStat, NtfsError) result" where
  "stat_data boot attr_data is_resident stat =
     rbind (index_r attr_data 9) (\<lambda>nl.
       let name_length = unat nl;
           name = (if name_length = 0 then None else Some (parse_attr_name attr_data name_length))
       in if is_resident then
            if length attr_data < 24 then Ok stat
            else
              let value_length = le_val (seg attr_data 16 20); value_offset = le_val (seg attr_data 20 22)
              in if length attr_data < value_offset + value_length then Ok stat
                 else Ok (add_data_stream name (of_nat value_length)
                        (Resident (seg attr_data value_offset (value_offset + value_length))) stat)
          else
            rbind (parse_data_runs attr_data) (\<lambda>runs.
              Ok (add_data_stream name (sum_list (map (\<lambda>(_, len). len * bytes_per_cluster boot) runs))
                    (NonResident runs) stat)))"

definition stat_attribute ::
    "BootSector \<Rightarrow> AttributeType \<Rightarrow> u8 list \<Rightarrow> bool \<Rightarrow> NtfsStat \<Rightarrow> (NtfsStat, NtfsError) result" where
  "stat_attribute boot ty attr_data is_resident stat =
     (case ty of
        AtStandardInformation \<Rightarrow>
          Ok (if is_resident then stat\<lparr>standard_info := parse_standard_information attr_data\<rparr> else stat)
      | AtObjectId \<Rightarrow>
          Ok (if is_resident then stat\<lparr>object_id := parse_object_id attr_data\<rparr> else stat)
      | AtSecurityDescriptor \<Rightarrow>
          Ok (stat\<lparr>security_descriptor := parse_security_descriptor attr_data is_resident\<rparr>)
      | AtReparsePoint \<Rightarrow>
          Ok (if is_resident then stat\<lparr>reparse_point := parse_reparse_point attr_data\<rparr> else stat)
      | AtFileName \<Rightarrow>
          if is_resident \<and> stat_name stat = None
          then rbind (parse_filename attr_data) (\<lambda>r.
            Ok (case r of Some (name, _) \<Rightarrow> stat\<lparr>stat_name := Some name\<rparr> | None \<Rightarrow> stat))
          else Ok stat
      | AtIndexRoot \<Rightarrow>
          if is_resident
          then let stat = stat\<lparr>is_directory := True\<rparr> in
            rbind (rd16 attr_data 20) (\<lambda>val_off.
              Ok (if val_off < length attr_data then stat\<lparr>index_root := Some (drop val_off attr_data)\<rparr> else stat))
          else Ok stat
      | AtData \<Rightarrow> stat_data boot attr_data is_resident stat
      | _ \<Rightarrow> Ok stat)"

function stat_loop :: "u8 list \<Rightarrow> BootSector \<Rightarrow> nat \<Rightarrow> NtfsStat \<Rightarrow> (NtfsStat, NtfsError) result" where
  "stat_loop record boot off stat =
     rbind (next_attribute record off) (\<lambda>item.
       case item of
         None \<Rightarrow> Ok stat
       | Some (ty, attr, is_resident, off') \<Rightarrow>
           rbind (stat_attribute boot ty attr is_resident stat) (\<lambda>stat'. stat_loop record boot off' stat'))"
  by pat_completeness auto
termination
  by (relation "measure (\<lambda>(record, boot, off, stat). length record - off)")
    (auto dest: next_attribute_progress)

declare stat_loop.simps [simp del]

definition parse_stat :: "u8 list \<Rightarrow> BootSector \<Rightarrow> (NtfsStat, NtfsError) result" where
  "parse_stat record boot = rbind (rd16 record 20) (\<lambda>first. stat_loop record boot first empty_stat)"

section \<open>Resident data\<close>

function data_attribute_loop :: "u8 list \<Rightarrow> nat \<Rightarrow> (nat, NtfsError) result" where
  "data_attribute_loop record off =
     (if length record < off + 8 then Err InvalidAttribute
      else
        let attr_type = le_val (seg record off (off + 4)); attr_len = le_val (seg record (off + 4) (off + 8))
        in if attr_type = 0xFFFFFFFF then Err InvalidAttribute
           else if attr_type = 0x80 then Ok off
           else if attr_len = 0 then Err InvalidAttribute
           else data_attribute_loop record (off + attr_len))"
  by pat_completeness auto
termination
  by (relation "measure (\<lambda>(record, off). length record - off)") auto

declare data_attribute_loop.simps [simp del]

definition find_data_attribute_offset :: "u8 list \<Rightarrow> (nat, NtfsError) result" where
  "find_data_attribute_offset record = rbind (rd16 record 20) (data_attribute_loop record)"

definition update_resident_data :: "u8 list \<Rightarrow> nat \<Rightarrow> u8 list \<Rightarrow> (u8 list, NtfsError) result" where
  "update_resident_data record attr_offset data =
     (if length record < attr_offset + 24 then Err InvalidAttribute
      else
        let value_offset = le_val (seg record (attr_offset + 20) (attr_offset + 22));
            value_length = le_val (seg record (attr_offset + 16) (attr_offset + 20));
            start = attr_offset + value_offset; stop = start + value_length
        in if length data \<noteq> value_length \<or> length record < stop then Err InvalidAttribute
           else copy_r record start stop data)"

end
