(* ===== verification/NtfsIndex.thy ===== *)
theory NtfsIndex
  imports NtfsAttr
begin

text \<open>
  Directory indexes (the read-only half of \<^verbatim>\<open>index.rs\<close>): locating an attribute in a record, listing the
  names in an index and looking one up.
\<close>

section \<open>Operations\<close>

function attribute_offset_loop :: "u8 list \<Rightarrow> nat \<Rightarrow> nat \<Rightarrow> (nat, NtfsError) result" where
  "attribute_offset_loop record attr_type off =
     (if length record < off + 8 then Err InvalidAttribute
      else
        let type_code = le_val (seg record off (off + 4)); attr_len = le_val (seg record (off + 4) (off + 8))
        in if type_code = 0xFFFFFFFF then Err InvalidAttribute
           else if type_code = attr_type then Ok off
           else if attr_len = 0 \<or> length record < off + attr_len then Err InvalidAttribute
           else attribute_offset_loop record attr_type (off + attr_len))"
  by pat_completeness auto
termination
  by (relation "measure (\<lambda>(record, attr_type, off). length record - off)") auto

declare attribute_offset_loop.simps [simp del]

definition find_attribute_offset :: "u8 list \<Rightarrow> nat \<Rightarrow> (nat, NtfsError) result" where
  "find_attribute_offset record attr_type =
     (if length record < 22 then Err InvalidMftRecord
      else attribute_offset_loop record attr_type (le_val (seg record 20 22)))"

definition find_index_root_offset :: "u8 list \<Rightarrow> (nat, NtfsError) result" where
  "find_index_root_offset record = find_attribute_offset record 0x90"

text \<open>The fields of the index entry at \<open>off\<close>, and the name in its key if it has one.\<close>

definition entry_file_ref :: "u8 list \<Rightarrow> nat \<Rightarrow> u64" where
  "entry_file_ref d off = fld d off (off + 8)"

definition entry_length :: "u8 list \<Rightarrow> nat \<Rightarrow> nat" where
  "entry_length d off = le_val (seg d (off + 8) (off + 10))"

definition entry_is_last :: "u8 list \<Rightarrow> nat \<Rightarrow> bool" where
  "entry_is_last d off \<longleftrightarrow> (fld d (off + 12) (off + 14) :: u16) AND 0x0002 \<noteq> 0"

definition entry_key_name :: "u8 list \<Rightarrow> nat \<Rightarrow> rstr option" where
  "entry_key_name d off =
     (let key_len = le_val (seg d (off + 10) (off + 12)) in
      if 0 < key_len \<and> off + 16 + key_len \<le> length d
      then map_option fst (parse_filename_from_key (seg d (off + 16) (off + 16 + key_len)))
      else None)"

function list_loop :: "u8 list \<Rightarrow> nat \<Rightarrow> nat \<Rightarrow> rstr list" where
  "list_loop d stop off =
     (if min stop (length d) < off + 16 then []
      else if entry_is_last d off then []
      else
        let names = (case entry_key_name d off of Some name \<Rightarrow> [name] | None \<Rightarrow> [])
        in if entry_length d off = 0 then names
           else names @ list_loop d stop (off + entry_length d off))"
  by pat_completeness auto
termination
  by (relation "measure (\<lambda>(d, stop, off). length d - off)") auto

declare list_loop.simps [simp del]

definition index_list_directory :: "u8 list \<Rightarrow> (rstr list, NtfsError) result" where
  "index_list_directory index_data =
     (if length index_data < 32 then Ok []
      else Ok (list_loop index_data (16 + le_val (seg index_data 20 24)) (16 + le_val (seg index_data 16 20))))"

function find_loop :: "u8 list \<Rightarrow> rstr \<Rightarrow> nat \<Rightarrow> nat \<Rightarrow> (u64, NtfsError) result" where
  "find_loop d name stop off =
     (if min stop (length d) < off + 16 then Err FileNotFound
      else if entry_is_last d off then Err FileNotFound
      else if (case entry_key_name d off of Some n \<Rightarrow> eq_ignore_ascii_case n name | None \<Rightarrow> False)
        then Ok (entry_file_ref d off AND 0x0000FFFFFFFFFFFF)
      else if entry_length d off = 0 then Err FileNotFound
      else find_loop d name stop (off + entry_length d off))"
  by pat_completeness auto
termination
  by (relation "measure (\<lambda>(d, name, stop, off). length d - off)") auto

declare find_loop.simps [simp del]

definition index_find_in_directory :: "u8 list \<Rightarrow> rstr \<Rightarrow> (u64, NtfsError) result" where
  "index_find_in_directory index_data name =
     (if length index_data < 32 then Err FileNotFound
      else find_loop index_data name (16 + le_val (seg index_data 20 24)) (16 + le_val (seg index_data 16 20)))"

section \<open>Listing and look-up agree\<close>

lemma find_loop_iff:
  "(\<exists>r. find_loop d name stop off = Ok r) \<longleftrightarrow> (\<exists>n \<in> set (list_loop d stop off). eq_ignore_ascii_case n name)"
proof (induction d name stop off rule: find_loop.induct)
  case (1 d name stop off)
  then show ?case
    by (subst find_loop.simps, subst list_loop.simps) (auto split: option.splits simp: Let_def)
qed

lemma find_loop_outcomes:
  "find_loop d name stop off = Err FileNotFound \<or> (\<exists>r. find_loop d name stop off = Ok r \<and> r < 2 ^ 48)"
proof (induction d name stop off rule: find_loop.induct)
  case (1 d name stop off)
  have "(w :: u64) AND 0x0000FFFFFFFFFFFF < 2 ^ 48" for w
  proof -
    have "w AND 0x0000FFFFFFFFFFFF = take_bit 48 w" by (simp add: take_bit_eq_mask mask_eq_exp_minus_1)
    also have "\<dots> < 2 ^ 48" by (simp add: take_bit_eq_mod word_mod_less_divisor)
    finally show ?thesis .
  qed
  with 1 show ?case by (subst (1 2) find_loop.simps) (auto split: option.splits)
qed

text \<open>
  C8: a look-up succeeds exactly when the listing of the same index holds a name that equals the
  wanted one up to the case of ASCII letters; it then returns a 48-bit record number, and otherwise
  reports \<open>FileNotFound\<close>.
\<close>

theorem find_in_directory_iff_listed:
  "(\<exists>names. index_list_directory d = Ok names
     \<and> ((\<exists>r. index_find_in_directory d name = Ok r \<and> r < 2 ^ 48)
          \<longleftrightarrow> (\<exists>n \<in> set names. eq_ignore_ascii_case n name)))
   \<and> (\<not> is_ok (index_find_in_directory d name) \<longleftrightarrow> index_find_in_directory d name = Err FileNotFound)"
proof (cases "length d < 32")
  case True
  then show ?thesis by (simp add: index_list_directory_def index_find_in_directory_def)
next
  case False
  let ?s = "16 + le_val (seg d 20 24)" and ?o = "16 + le_val (seg d 16 20)"
  show ?thesis
    using False find_loop_iff [of d name ?s ?o] find_loop_outcomes [of d name ?s ?o]
    by (auto simp: index_list_directory_def index_find_in_directory_def)
qed

end
