(* ===== verification/NtfsDriver.thy ===== *)
theory NtfsDriver
  imports NtfsIndex
begin

text \<open>
  The file system driver (\<^verbatim>\<open>mod.rs\<close>): mounting, reading MFT records, statistics, path resolution,
  reading files and directories. The driver owns its device; \<open>ops\<close> is the device's \<open>BlockDevice\<close>
  implementation.
\<close>

record 'd NtfsDriver =
  device :: 'd
  boot :: BootSector
  record_size :: nat

section \<open>Records\<close>

definition drv_read ::
    "'d block_device \<Rightarrow> 'd NtfsDriver \<Rightarrow> u64 \<Rightarrow> u8 list \<Rightarrow> (u8 list, NtfsError) result \<times> 'd NtfsDriver" where
  "drv_read ops drv off buf =
     (case read_blocks ops (device drv) off buf of (r, d') \<Rightarrow> (map_err (\<lambda>_. IoError) r, drv\<lparr>device := d'\<rparr>))"

definition drv_write ::
    "'d block_device \<Rightarrow> 'd NtfsDriver \<Rightarrow> u64 \<Rightarrow> u8 list \<Rightarrow> (unit, NtfsError) result \<times> 'd NtfsDriver" where
  "drv_write ops drv off buf =
     (case write_blocks ops (device drv) off buf of (r, d') \<Rightarrow> (map_err (\<lambda>_. IoError) r, drv\<lparr>device := d'\<rparr>))"

text \<open>\<open>mount\<close> consumes the device: on failure the driver does not exist and the device is dropped.\<close>

definition mount :: "'d block_device \<Rightarrow> 'd \<Rightarrow> u64 \<Rightarrow> ('d NtfsDriver, NtfsError) result" where
  "mount ops d part_off =
     (case read_blocks ops d part_off (zeros 512) of (r, d') \<Rightarrow>
        rbind (map_err (\<lambda>_. IoError) r) (\<lambda>boot_buf.
        rbind (boot_from_bytes boot_buf part_off) (\<lambda>b.
        rbind (mft_record_size b) (\<lambda>n.
          Ok \<lparr>device = d', boot = b, record_size = n\<rparr>))))"

definition unmount :: "'d NtfsDriver \<Rightarrow> 'd" where
  "unmount drv = device drv"

definition mft_record_offset :: "'d NtfsDriver \<Rightarrow> u64 \<Rightarrow> u64" where
  "mft_record_offset drv n = mft_byte_offset (boot drv) + n * of_nat (record_size drv)"

definition FILE_MAGIC :: "u8 list" where
  "FILE_MAGIC = [0x46, 0x49, 0x4C, 0x45]"

definition sector_bytes :: "'d NtfsDriver \<Rightarrow> nat" where
  "sector_bytes drv = unat (bytes_per_sector (boot drv))"

definition read_mft_record ::
    "'d block_device \<Rightarrow> 'd NtfsDriver \<Rightarrow> u64 \<Rightarrow> (u8 list, NtfsError) result \<times> 'd NtfsDriver" where
  "read_mft_record ops drv n =
     sbind (vec_zeroed (record_size drv), drv) (\<lambda>buf drv.
     sbind (drv_read ops drv (mft_record_offset drv n) buf) (\<lambda>buf drv.
     sbind (slice_r buf 0 4, drv) (\<lambda>magic drv.
       if magic \<noteq> FILE_MAGIC then (Err InvalidMftRecord, drv)
       else (apply_fixups buf (sector_bytes drv), drv))))"

section \<open>Files\<close>

definition root_directory :: NtfsFile where
  "root_directory = \<lparr>record_number = 5\<rparr>"

definition open_file ::
    "'d block_device \<Rightarrow> 'd NtfsDriver \<Rightarrow> u64 \<Rightarrow> (NtfsFile, NtfsError) result \<times> 'd NtfsDriver" where
  "open_file ops drv n = sbind (read_mft_record ops drv n) (\<lambda>_ drv. (Ok \<lparr>record_number = n\<rparr>, drv))"

definition stat ::
    "'d block_device \<Rightarrow> 'd NtfsDriver \<Rightarrow> NtfsFile \<Rightarrow> (NtfsStat, NtfsError) result \<times> 'd NtfsDriver" where
  "stat ops drv f =
     sbind (read_mft_record ops drv (record_number f)) (\<lambda>rec drv. (parse_stat rec (boot drv), drv))"

definition drv_is_directory ::
    "'d block_device \<Rightarrow> 'd NtfsDriver \<Rightarrow> NtfsFile \<Rightarrow> (bool, NtfsError) result \<times> 'd NtfsDriver" where
  "drv_is_directory ops drv f =
     (if record_number f = 5 then (Ok True, drv)
      else sbind (stat ops drv f) (\<lambda>st drv. (Ok (is_directory st), drv)))"

definition file_size ::
    "'d block_device \<Rightarrow> 'd NtfsDriver \<Rightarrow> NtfsFile \<Rightarrow> (u64, NtfsError) result \<times> 'd NtfsDriver" where
  "file_size ops drv f = sbind (stat ops drv f) (\<lambda>st drv. (Ok (stat_size st), drv))"

definition file_name ::
    "'d block_device \<Rightarrow> 'd NtfsDriver \<Rightarrow> NtfsFile \<Rightarrow> (rstr option, NtfsError) result \<times> 'd NtfsDriver" where
  "file_name ops drv f = sbind (stat ops drv f) (\<lambda>st drv. (Ok (stat_name st), drv))"

definition read_file_all ::
    "'d block_device \<Rightarrow> 'd NtfsDriver \<Rightarrow> NtfsFile \<Rightarrow> (u8 list, NtfsError) result \<times> 'd NtfsDriver" where
  "read_file_all ops drv f =
     sbind (stat ops drv f) (\<lambda>st drv.
       if is_directory st then (Err NotAFile, drv)
       else case read_data_runs ops (device drv) (data_runs st) (boot drv) of
              (r, d') \<Rightarrow> (r, drv\<lparr>device := d'\<rparr>))"

definition read_file ::
    "'d block_device \<Rightarrow> 'd NtfsDriver \<Rightarrow> NtfsFile \<Rightarrow> u8 list \<Rightarrow> (nat \<times> u8 list, NtfsError) result \<times> 'd NtfsDriver" where
  "read_file ops drv f buf =
     sbind (read_file_all ops drv f) (\<lambda>data drv.
       let n = min (length buf) (length data) in (Ok (n, blit buf 0 (take n data)), drv))"

section \<open>Directories\<close>

definition get_index_data ::
    "'d block_device \<Rightarrow> 'd NtfsDriver \<Rightarrow> NtfsFile \<Rightarrow> NtfsStat \<Rightarrow> (u8 list, NtfsError) result \<times> 'd NtfsDriver" where
  "get_index_data ops drv f st =
     (case index_root st of
        Some data \<Rightarrow> (Ok data, drv)
      | None \<Rightarrow>
          sbind (read_mft_record ops drv (record_number f)) (\<lambda>rec drv.
          sbind (find_index_root_offset rec, drv) (\<lambda>off drv.
          sbind (index_r rec (off + 8), drv) (\<lambda>flag drv.
            if flag \<noteq> 0 then (Err NotSupported, drv)
            else (rbind (rd16 rec (off + 20)) (\<lambda>val_off. drop_r rec (off + val_off)), drv)))))"

definition list_directory ::
    "'d block_device \<Rightarrow> 'd NtfsDriver \<Rightarrow> NtfsFile \<Rightarrow> (rstr list, NtfsError) result \<times> 'd NtfsDriver" where
  "list_directory ops drv dir =
     sbind (stat ops drv dir) (\<lambda>st drv.
     sbind (get_index_data ops drv dir st) (\<lambda>data drv. (index_list_directory data, drv)))"

definition find_in_directory ::
    "'d block_device \<Rightarrow> 'd NtfsDriver \<Rightarrow> NtfsFile \<Rightarrow> rstr \<Rightarrow> (u64, NtfsError) result \<times> 'd NtfsDriver" where
  "find_in_directory ops drv dir name =
     sbind (stat ops drv dir) (\<lambda>st drv.
     sbind (get_index_data ops drv dir st) (\<lambda>data drv. (index_find_in_directory data name, drv)))"

section \<open>Paths\<close>

text \<open>The loop of \<open>normalize_path\<close>: a slash right after a slash is dropped.\<close>

fun collapse_slashes :: "bool \<Rightarrow> rstr \<Rightarrow> rstr" where
  "collapse_slashes prev [] = []"
| "collapse_slashes prev (c # cs) =
     (if c = 47 then (if prev then collapse_slashes True cs else c # collapse_slashes True cs)
      else c # collapse_slashes False cs)"

definition normalize_path :: "rstr \<Rightarrow> rstr" where
  "normalize_path path =
     (if path = [] then [47]
      else let r = collapse_slashes False path in
        if 1 < str_len r \<and> last r = 47 then butlast r else r)"

definition path_components :: "rstr \<Rightarrow> rstr list" where
  "path_components path = filter (\<lambda>s. s \<noteq> []) (str_split 47 path)"

fun open_components ::
    "'d block_device \<Rightarrow> 'd NtfsDriver \<Rightarrow> NtfsFile \<Rightarrow> rstr list \<Rightarrow> (NtfsFile, NtfsError) result \<times> 'd NtfsDriver" where
  "open_components ops drv cur [] = (Ok cur, drv)"
| "open_components ops drv cur (c # cs) =
     (if c = str ''..'' then (Err InvalidInput, drv)
      else
        sbind (stat ops drv cur) (\<lambda>st drv.
          if \<not> is_directory st then (Err NotADirectory, drv)
          else
            sbind (get_index_data ops drv cur st) (\<lambda>data drv.
            sbind (index_find_in_directory data c, drv) (\<lambda>child drv.
            sbind (open_file ops drv child) (\<lambda>f drv.
              open_components ops drv f cs)))))"

definition open_path ::
    "'d block_device \<Rightarrow> 'd NtfsDriver \<Rightarrow> rstr \<Rightarrow> (NtfsFile, NtfsError) result \<times> 'd NtfsDriver" where
  "open_path ops drv path =
     (let normalized = normalize_path path in
      if normalized = [47] \<or> normalized = [] then (Ok root_directory, drv)
      else open_components ops drv root_directory (path_components normalized))"

definition volume_info :: "'d NtfsDriver \<Rightarrow> VolumeInfo" where
  "volume_info drv =
     \<lparr>vi_sector_size = bytes_per_sector (boot drv), vi_cluster_size = ucast (bytes_per_cluster (boot drv)),
      vi_file_record_size = of_nat (record_size drv), vi_mft_position = mft_byte_offset (boot drv),
      vi_serial_number = serial_number (boot drv)\<rparr>"

section \<open>Normalised paths\<close>

lemma components_slash [simp]: "path_components (47 # s) = path_components s"
  by (simp add: path_components_def)

lemma components_snoc_slash: "path_components (s @ [47]) = path_components s"
proof -
  have "str_split 47 (s @ [47]) = str_split 47 s @ [[]]"
    by (induction s) auto
  then show ?thesis by (simp add: path_components_def)
qed

lemma components_cong:
  "hd (str_split 47 s) = hd (str_split 47 t) \<Longrightarrow>
   filter (\<lambda>x. x \<noteq> []) (tl (str_split 47 s)) = filter (\<lambda>x. x \<noteq> []) (tl (str_split 47 t)) \<Longrightarrow>
   path_components s = path_components t"
  unfolding path_components_def by (cases "str_split 47 s"; cases "str_split 47 t") auto

lemma collapse_components:
  "path_components (collapse_slashes b s) = path_components s
   \<and> hd (str_split 47 (collapse_slashes False s)) = hd (str_split 47 s)
   \<and> filter (\<lambda>x. x \<noteq> []) (tl (str_split 47 (collapse_slashes False s)))
       = filter (\<lambda>x. x \<noteq> []) (tl (str_split 47 s))"
proof (induction s arbitrary: b)
  case Nil
  then show ?case by simp
next
  case (Cons c cs)
  have eq: "path_components (collapse_slashes b cs) = path_components cs" for b using Cons by blast
  have hd: "hd (str_split 47 (collapse_slashes False cs)) = hd (str_split 47 cs)"
    "filter (\<lambda>x. x \<noteq> []) (tl (str_split 47 (collapse_slashes False cs))) = filter (\<lambda>x. x \<noteq> []) (tl (str_split 47 cs))"
    using Cons by blast+
  show ?case
  proof (cases "c = 47")
    case True
    with eq show ?thesis by (simp flip: path_components_def)
  next
    case False
    have "path_components (c # collapse_slashes False cs) = path_components (c # cs)"
      using False hd by (intro components_cong) auto
    with False hd show ?thesis by auto
  qed
qed

fun no_double_slash :: "rstr \<Rightarrow> bool" where
  "no_double_slash (x # y # s) \<longleftrightarrow> \<not> (x = 47 \<and> y = 47) \<and> no_double_slash (y # s)"
| "no_double_slash _ \<longleftrightarrow> True"

lemma collapse_no_double:
  "no_double_slash (collapse_slashes b s) \<and> (b \<longrightarrow> collapse_slashes b s = [] \<or> hd (collapse_slashes b s) \<noteq> 47)"
proof (induction b s rule: collapse_slashes.induct)
  case (2 prev c cs)
  have cons: "no_double_slash (x # r) \<longleftrightarrow> (r = [] \<or> \<not> (x = 47 \<and> hd r = 47)) \<and> no_double_slash r" for x r
    by (cases r) auto
  show ?case using 2 by (auto simp: cons)
qed simp

lemma collapse_id: "no_double_slash s \<Longrightarrow> (b \<longrightarrow> s = [] \<or> hd s \<noteq> 47) \<Longrightarrow> collapse_slashes b s = s"
proof (induction s arbitrary: b)
  case Nil
  then show ?case by simp
next
  case (Cons c cs)
  then show ?case by (cases cs) auto
qed

lemma no_double_butlast:
  assumes "no_double_slash s"
  shows "no_double_slash (butlast s)" "butlast s \<noteq> [] \<Longrightarrow> last s = 47 \<Longrightarrow> last (butlast s) \<noteq> 47"
  using assms by (induction s rule: no_double_slash.induct) (auto split: if_splits simp: neq_Nil_conv)

lemma collapse_not_Nil: "s \<noteq> [] \<Longrightarrow> collapse_slashes False s \<noteq> []"
  by (cases s) auto

lemma components_normalize: "path_components (normalize_path p) = path_components p"
proof (cases "p = []")
  case True
  then show ?thesis by (simp add: normalize_path_def)
next
  case False
  let ?r = "collapse_slashes False p"
  have r: "path_components ?r = path_components p" using collapse_components by blast
  have "path_components (butlast ?r) = path_components ?r" if "last ?r = 47"
    using collapse_not_Nil [OF False] that components_snoc_slash [of "butlast ?r"]
    by (metis append_butlast_last_id)
  with False r show ?thesis by (simp add: normalize_path_def Let_def)
qed

lemma normalize_shape:
  "no_double_slash (normalize_path p)" "normalize_path p \<noteq> []"
  "str_len (normalize_path p) \<le> 1 \<or> last (normalize_path p) \<noteq> 47"
proof -
  let ?r = "collapse_slashes False p"
  have nd: "no_double_slash ?r" using collapse_no_double by blast
  have b: "butlast ?r \<noteq> []" if "1 < str_len ?r" "last ?r = 47"
    using that by (cases ?r rule: list.exhaust) (auto simp: str_len_def utf8_width_def split: if_splits)
  show "no_double_slash (normalize_path p)" using nd no_double_butlast(1) by (simp add: normalize_path_def Let_def)
  show "normalize_path p \<noteq> []" using b collapse_not_Nil by (auto simp: normalize_path_def Let_def)
  show "str_len (normalize_path p) \<le> 1 \<or> last (normalize_path p) \<noteq> 47"
    using b no_double_butlast(2) [OF nd]
    by (auto simp: normalize_path_def Let_def str_len_def utf8_width_def split: if_splits)
qed

lemma normalize_idem: "normalize_path (normalize_path p) = normalize_path p"
proof -
  have "collapse_slashes False (normalize_path p) = normalize_path p"
    by (rule collapse_id [OF normalize_shape(1)]) simp
  with normalize_shape(2,3) [of p] show ?thesis
    unfolding normalize_path_def [of "normalize_path p"] Let_def by auto
qed

text \<open>
  \<open>normalize_path\<close> keeps the components of a path, is idempotent, and leaves no two slashes in a
  row and, apart from the root, no trailing slash.
\<close>

theorem normalize_path_canonical:
  "path_components (normalize_path p) = path_components p
   \<and> normalize_path (normalize_path p) = normalize_path p
   \<and> no_double_slash (normalize_path p)
   \<and> (str_len (normalize_path p) \<le> 1 \<or> last (normalize_path p) \<noteq> 47)"
  using components_normalize normalize_idem normalize_shape by blast

theorem normalize_path_canonical_witness:
  "normalize_path (str ''//a//b/'') = str ''/a/b'' \<and> path_components (str ''//a//b/'') = [str ''a'', str ''b'']
   \<and> normalize_path (str ''/a/b'') = str ''/a/b''"
proof -
  have "normalize_path (str ''//a//b/'') = str ''/a/b''"
    by (simp add: normalize_path_def str_def str_len_def utf8_width_def)
  moreover have "path_components (str ''/a/b'') = [str ''a'', str ''b'']"
    by (simp add: path_components_def str_def)
  ultimately show ?thesis using normalize_path_canonical [of "str ''//a//b/''"] by simp
qed

lemma open_components_dotdot:
  "str ''..'' \<in> set cs \<Longrightarrow> \<not> is_ok (fst (open_components ops drv f cs))"
proof (induction cs arbitrary: drv f)
  case Nil
  then show ?case by simp
next
  case (Cons c cs)
  show ?case
  proof
    assume "is_ok (fst (open_components ops drv f (c # cs)))"
    then obtain g drv' where "open_components ops drv f (c # cs) = (Ok g, drv')"
      by (metis is_ok_iff prod.collapse)
    then obtain h drv'' where "c \<noteq> str ''..''" "open_components ops drv'' h cs = (Ok g, drv')"
      by (auto simp: res_simps split: if_splits)
    with Cons show False by (metis fst_conv is_ok.simps(1) set_ConsD)
  qed
qed

lemma open_path_components:
  "open_path ops drv p = open_components ops drv root_directory (path_components p)"
proof (cases "normalize_path p = [47]")
  case True
  then have "path_components p = []" using components_normalize [of p] by (simp add: path_components_def)
  with True show ?thesis by (simp add: open_path_def)
next
  case False
  with normalize_shape(2) [of p] show ?thesis by (simp add: open_path_def components_normalize)
qed

text \<open>
  What \<open>open\<close> does depends only on the components of the path, walked from the root directory,
  record 5; a path with a \<open>..\<close> component is never opened.
\<close>

theorem open_path_walks_components:
  "open_path ops drv p = open_components ops drv root_directory (path_components p)
   \<and> (is_ok (fst (open_path ops drv p)) \<longrightarrow> str ''..'' \<notin> set (path_components p))"
  using open_path_components open_components_dotdot by metis

theorem open_path_walks_components_witness:
  "\<exists>ops :: unit block_device. \<exists>drv. is_ok (fst (open_path ops drv (str ''//'')))
     \<and> str ''..'' \<notin> set (path_components (str ''//''))"
proof -
  have "is_ok (fst (open_path ops drv (str ''//'')))" for ops :: "unit block_device" and drv
    by (simp add: open_path_def normalize_path_def str_def str_len_def utf8_width_def)
  with open_path_walks_components [where p = "str ''//''"] show ?thesis by blast
qed

end
