(* ===== verification/NtfsWrite.thy ===== *)
theory NtfsWrite
  imports NtfsDriver
begin

text \<open>
  Changing a volume: inserting directory entries (the writing half of \<^verbatim>\<open>index.rs\<close>) and \<^verbatim>\<open>write.rs\<close>, which
  overwrites resident files and creates files and directories.
\<close>

section \<open>Index entries\<close>

definition units_le :: "rstr \<Rightarrow> u8 list" where
  "units_le name = concat (map le16 (encode_utf16 name))"

definition name_key_len :: "rstr \<Rightarrow> nat" where
  "name_key_len name = 66 + length (encode_utf16 name) * 2"

definition entry_len_aligned :: "rstr \<Rightarrow> nat" where
  "entry_len_aligned name = align8 (16 + name_key_len name)"

text \<open>
  The bytes written into the zeroed entry slice; the loop over the UTF-16 units writes consecutive
  pairs. The external variant leaves out the two zero fields at 12 and 14, to the same effect.
\<close>

definition build_index_entry :: "u64 \<Rightarrow> u64 \<Rightarrow> rstr \<Rightarrow> (u8 list, NtfsError) result" where
  "build_index_entry child parent name =
     (let key_len = name_key_len name in
      copies_r (zeros (entry_len_aligned name))
       [(0, 8, le64 child),
        (8, 10, le16 (entry_len_aligned name)),
        (10, 12, le16 key_len),
        (12, 14, le16 0),
        (14, 16, le16 0),
        (16, 24, le64 parent),
        (24, 72, zeros 48),
        (72, 76, le32 0x10),
        (76, 80, zeros 4),
        (80, 81, [of_nat (length (encode_utf16 name))]),
        (81, 82, [1]),
        (82, 82 + 2 * length (encode_utf16 name), units_le name)])"

text \<open>\<open>record.copy_within(a..b, c)\<close>.\<close>

definition copy_within :: "u8 list \<Rightarrow> nat \<Rightarrow> nat \<Rightarrow> nat \<Rightarrow> (u8 list, NtfsError) result" where
  "copy_within xs a b c = rbind (slice_r xs a b) (\<lambda>ys. copy_r xs c (c + (b - a)) ys)"

section \<open>Resident indexes\<close>

text \<open>
  \<open>add_to_resident_index\<close> up to the write: the new record, or the error it returns. The record is changed
  only after the last check that can fail with \<open>NoSpace\<close>, so a caller that falls back on \<open>NoSpace\<close>
  still has the old record.
\<close>

definition insert_resident_entry :: "u8 list \<Rightarrow> u64 \<Rightarrow> u64 \<Rightarrow> rstr \<Rightarrow> (u8 list, NtfsError) result" where
  "insert_resident_entry record parent child name =
     rbind (map_err (\<lambda>_. InvalidAttribute) (find_attribute_offset record 0x90)) (\<lambda>attr_off.
       if length record \<le> attr_off + 8 \<or> record ! (attr_off + 8) \<noteq> 0 then Err NotSupported
       else if length record \<le> attr_off + 22 then Err CorruptedFilesystem
       else
         let val_off = le_val (seg record (attr_off + 20) (attr_off + 22));
             ih = attr_off + val_off + 16
         in if length record < ih + 12 then Err CorruptedFilesystem
         else
           let total_size = le_val (seg record (ih + 4) (ih + 8));
               allocated_size = le_val (seg record (ih + 8) (ih + 12));
               entries_end = ih + total_size
           in if entries_end < 16 \<or> length record < entries_end then Err CorruptedFilesystem
           else
             let end_marker = entries_end - 16;
                 n = entry_len_aligned name;
                 new_total_size = total_size + n;
                 new_end_marker = end_marker + n
             in if allocated_size < new_total_size then Err NoSpace
             else if length record < new_end_marker + 16 then Err NoSpace
             else
               rbind (copy_within record end_marker entries_end new_end_marker) (\<lambda>record.
               rbind (build_index_entry child parent name) (\<lambda>entry.
               rbind (copy_r record end_marker (end_marker + n) entry) (\<lambda>record.
               rbind (copy_r record (ih + 4) (ih + 8) (le32 new_total_size)) (\<lambda>record.
               rbind (rd32 record 24) (\<lambda>current_used.
                 copy_r record 24 28 (le32 (current_used + n))))))))"

definition add_to_resident_index ::
    "'d block_device \<Rightarrow> 'd NtfsDriver \<Rightarrow> u8 list \<Rightarrow> NtfsFile \<Rightarrow> u64 \<Rightarrow> rstr
     \<Rightarrow> (unit, NtfsError) result \<times> 'd NtfsDriver" where
  "add_to_resident_index ops drv record parent child name =
     sbind (insert_resident_entry record (record_number parent) child name, drv) (\<lambda>record drv.
     sbind (reapply_fixups record (sector_bytes drv), drv) (\<lambda>record drv.
       drv_write ops drv (mft_record_offset drv (record_number parent)) record))"

section \<open>External indexes\<close>

definition INDX_MAGIC :: "u8 list" where
  "INDX_MAGIC = [0x49, 0x4E, 0x44, 0x58]"

text \<open>The size of an index record and the first run of the index allocation, from the parent's record.\<close>

definition external_index_location :: "u8 list \<Rightarrow> (nat \<times> u64, NtfsError) result" where
  "external_index_location record =
     rbind (find_attribute_offset record 0x90) (\<lambda>root_off.
       if length record < root_off + 22 then Err CorruptedFilesystem
       else
         let idx_root_val = root_off + le_val (seg record (root_off + 20) (root_off + 22))
         in if length record < idx_root_val + 12 then Err CorruptedFilesystem
         else
           let idx_record_size = le_val (seg record (idx_root_val + 8) (idx_root_val + 12))
           in rbind (find_attribute_offset record 0xA0) (\<lambda>alloc_off.
             if length record < alloc_off + 48 then Err CorruptedFilesystem
             else if record ! (alloc_off + 8) \<noteq> 1 then Err NotSupported
             else if le_val (seg record (alloc_off + 40) (alloc_off + 48)) = 0 then Err NoSpace
             else rbind (parse_data_runs (drop alloc_off record)) (\<lambda>runs.
               case runs of
                 [] \<Rightarrow> Err NoSpace
               | (start_cluster, _) # _ \<Rightarrow> Ok (idx_record_size, start_cluster))))"

text \<open>The loop that writes the update sequence back; its bounds were checked when it was applied.\<close>

definition reapply_indx_fixup :: "nat \<Rightarrow> nat \<Rightarrow> nat \<Rightarrow> u8 list \<Rightarrow> (u8 list, NtfsError) result" where
  "reapply_indx_fixup uso seq_number i buf =
     rbind (rd16 buf (i * 512 - 2)) (\<lambda>original.
     rbind (copy_r buf (uso + i * 2) (uso + i * 2 + 2) (le16 original)) (\<lambda>buf.
       copy_r buf (i * 512 - 2) (i * 512) (le16 seq_number)))"

text \<open>The new contents of the index record \<open>idx_buf\<close> as read from the disk.\<close>

definition insert_external_entry :: "u8 list \<Rightarrow> u64 \<Rightarrow> u64 \<Rightarrow> rstr \<Rightarrow> (u8 list, NtfsError) result" where
  "insert_external_entry idx_buf parent child name =
     rbind (slice_r idx_buf 0 4) (\<lambda>magic.
       if magic \<noteq> INDX_MAGIC then Err CorruptedFilesystem
       else rbind (rd16 idx_buf 4) (\<lambda>uso. rbind (rd16 idx_buf 6) (\<lambda>usc.
         if uso < 24 \<or> usc = 0 \<or> length idx_buf < uso + 2 * usc then Err CorruptedFilesystem
         else rbind (rd16 idx_buf uso) (\<lambda>s.
           rbind (rfold (apply_fixup uso s 512) [1..<usc] idx_buf) (\<lambda>buf.
             if length buf < 24 + 6 then Err CorruptedFilesystem
             else
               let entries_offset = le_val (seg buf 24 26); total_size = le_val (seg buf 26 28);
                   allocated_size = le_val (seg buf 28 30);
                   entries_end = 24 + entries_offset + total_size
               in if entries_end < 16 \<or> length buf < entries_end then Err CorruptedFilesystem
               else
                 let end_marker = entries_end - 16; n = entry_len_aligned name; new_total = total_size + n
                 in if allocated_size < new_total then Err NoSpace
                 else
                   rbind (copy_within buf end_marker entries_end (end_marker + n)) (\<lambda>buf.
                   rbind (build_index_entry child parent name) (\<lambda>entry.
                   rbind (copy_r buf end_marker (end_marker + n) entry) (\<lambda>buf.
                   rbind (copy_r buf 26 28 (le16 new_total)) (\<lambda>buf.
                     rfold (reapply_indx_fixup uso s) [1..<usc] buf)))))))))"

text \<open>The division by the cluster size panics on a boot sector that makes it zero.\<close>

definition add_to_external_index ::
    "'d block_device \<Rightarrow> 'd NtfsDriver \<Rightarrow> u8 list \<Rightarrow> NtfsFile \<Rightarrow> u64 \<Rightarrow> rstr
     \<Rightarrow> (unit, NtfsError) result \<times> 'd NtfsDriver" where
  "add_to_external_index ops drv parent_record parent child name =
     sbind (external_index_location parent_record, drv) (\<lambda>(idx_record_size, start_cluster) drv.
       let bpc = bytes_per_cluster (boot drv);
           partition_size = total_sectors (boot drv) * ucast (bytes_per_sector (boot drv))
       in if bpc = 0 then (Panic, drv)
       else if partition_size div bpc < start_cluster then (Err CorruptedFilesystem, drv)
       else
         let idx_offset = start_cluster * bpc in
         sbind (vec_zeroed idx_record_size, drv) (\<lambda>idx_buf drv.
         sbind (drv_read ops drv idx_offset idx_buf) (\<lambda>idx_buf drv.
         sbind (insert_external_entry idx_buf (record_number parent) child name, drv) (\<lambda>idx_buf drv.
           drv_write ops drv idx_offset idx_buf))))"

definition add_directory_entry ::
    "'d block_device \<Rightarrow> 'd NtfsDriver \<Rightarrow> NtfsFile \<Rightarrow> u64 \<Rightarrow> rstr \<Rightarrow> (unit, NtfsError) result \<times> 'd NtfsDriver" where
  "add_directory_entry ops drv parent child name =
     sbind (read_mft_record ops drv (record_number parent)) (\<lambda>record drv.
       if is_ok (find_attribute_offset record 0xA0) then
         (case add_to_resident_index ops drv record parent child name of
            (Err NoSpace, drv) \<Rightarrow> add_to_external_index ops drv record parent child name
          | res \<Rightarrow> res)
       else add_to_resident_index ops drv record parent child name)"

section \<open>Overwriting a resident file\<close>

definition write_resident_file ::
    "'d block_device \<Rightarrow> 'd NtfsDriver \<Rightarrow> NtfsFile \<Rightarrow> u8 list \<Rightarrow> (unit, NtfsError) result \<times> 'd NtfsDriver" where
  "write_resident_file ops drv f data =
     sbind (stat ops drv f) (\<lambda>st drv.
       case data_runs st of
         Resident existing # _ \<Rightarrow>
           if length data \<noteq> length existing then (Err InvalidAttribute, drv)
           else
             sbind (read_mft_record ops drv (record_number f)) (\<lambda>record drv.
             sbind (find_data_attribute_offset record, drv) (\<lambda>off drv.
             sbind (update_resident_data record off data, drv) (\<lambda>record drv.
             sbind (reapply_fixups record (sector_bytes drv), drv) (\<lambda>record drv.
               drv_write ops drv (mft_record_offset drv (record_number f)) record))))
       | _ \<Rightarrow> (Err InvalidAttribute, drv))"

section \<open>Building a record\<close>

definition write_standard_info_attr :: "u8 list \<Rightarrow> nat \<Rightarrow> bool \<Rightarrow> (u8 list \<times> nat, NtfsError) result" where
  "write_standard_info_attr record off dir =
     (if length record < off + 96 then Err NoSpace
      else let d = off + 24 in
        rbind (copies_r record
          [(off, off + 4, le32 0x10),
           (off + 4, off + 8, le32 96),
           (off + 8, off + 9, [0]),
           (off + 9, off + 10, [0]),
           (off + 10, off + 12, le16 0),
           (off + 12, off + 14, le16 0),
           (off + 14, off + 16, le16 0),
           (off + 16, off + 20, le32 72),
           (off + 20, off + 22, le16 24),
           (off + 22, off + 24, zeros 2),
           (d, d + 8, le64 0),
           (d + 8, d + 16, le64 0),
           (d + 16, d + 24, le64 0),
           (d + 24, d + 32, le64 0),
           (d + 32, d + 36, le32 (if dir then 0x10 else 0x20)),
           (d + 36, d + 72, zeros 36)])
        (\<lambda>record. Ok (record, off + 96)))"

definition write_filename_attr :: "u8 list \<Rightarrow> nat \<Rightarrow> rstr \<Rightarrow> u64 \<Rightarrow> (u8 list \<times> nat, NtfsError) result" where
  "write_filename_attr record off name parent =
     (let name_len = length (encode_utf16 name) in
      if 255 < name_len then Err NameTooLong
      else
        let data_len = 66 + name_len * 2; attr_len = align8 (24 + data_len); d = off + 24
        in if length record < off + attr_len then Err NoSpace
        else rbind (copies_r record
          [(off, off + 4, le32 0x30),
           (off + 4, off + 8, le32 attr_len),
           (off + 8, off + 9, [0]),
           (off + 9, off + 10, [0]),
           (off + 10, off + 12, le16 0),
           (off + 12, off + 16, le32 0),
           (off + 16, off + 20, le32 data_len),
           (off + 20, off + 22, le16 24),
           (off + 22, off + 23, [1]),
           (off + 23, off + 24, [0]),
           (d, d + 8, le64 parent),
           (d + 8, d + 64, zeros 56),
           (d + 64, d + 65, [of_nat name_len]),
           (d + 65, d + 66, [1]),
           (d + 66, d + 66 + 2 * name_len, units_le name)])
        (\<lambda>record. Ok (record, off + attr_len)))"

definition write_data_attr :: "u8 list \<Rightarrow> nat \<Rightarrow> u8 list \<Rightarrow> (u8 list \<times> nat, NtfsError) result" where
  "write_data_attr record off data =
     (if 700 < length data then Err InvalidAttribute
      else
        let data_len = length data; attr_len = align8 (24 + data_len)
        in if length record < off + attr_len then Err NoSpace
        else rbind (copies_r record
          [(off, off + 4, le32 0x80),
           (off + 4, off + 8, le32 attr_len),
           (off + 8, off + 9, [0]),
           (off + 9, off + 10, [0]),
           (off + 10, off + 12, le16 0),
           (off + 12, off + 16, le32 0),
           (off + 16, off + 20, le32 data_len),
           (off + 20, off + 22, le16 24),
           (off + 22, off + 24, zeros 2),
           (off + 24, off + 24 + data_len, data),
           (off + 24 + data_len, off + attr_len, zeros (attr_len - (24 + data_len)))])
        (\<lambda>record. Ok (record, off + attr_len)))"

definition write_index_root_attr :: "nat \<Rightarrow> u8 list \<Rightarrow> nat \<Rightarrow> (u8 list \<times> nat, NtfsError) result" where
  "write_index_root_attr rec_size record off =
     (let data_len = 48; attr_len = 24 + data_len; d = off + 24; ih = d + 16; le = d + 32
      in if length record < off + attr_len then Err NoSpace
      else rbind (copies_r record
        [(off, off + 4, le32 0x90),
         (off + 4, off + 8, le32 attr_len),
         (off + 8, off + 9, [0]),
         (off + 9, off + 10, [0]),
         (off + 10, off + 12, le16 0),
         (off + 12, off + 16, le32 0),
         (off + 16, off + 20, le32 data_len),
         (off + 20, off + 22, le16 24),
         (off + 22, off + 24, zeros 2),
         (d, d + 4, le32 0x30),
         (d + 4, d + 8, le32 0),
         (d + 8, d + 12, le32 rec_size),
         (d + 12, d + 13, [1]),
         (d + 13, d + 16, zeros 3),
         (ih, ih + 4, le32 32),
         (ih + 4, ih + 8, le32 48),
         (ih + 8, ih + 12, le32 48),
         (ih + 12, ih + 16, zeros 4),
         (le, le + 8, le64 0),
         (le + 8, le + 10, le16 16),
         (le + 10, le + 12, le16 0),
         (le + 12, le + 14, le16 2),
         (le + 14, le + 16, zeros 2)])
      (\<lambda>record. Ok (record, off + attr_len)))"

definition build_mft_record ::
    "nat \<Rightarrow> u64 \<Rightarrow> rstr \<Rightarrow> u64 \<Rightarrow> bool \<Rightarrow> u8 list \<Rightarrow> (u8 list, NtfsError) result" where
  "build_mft_record rec_size rec_number name parent dir data =
     (let sq = unat rec_number mod 65536 in
      rbind (vec_zeroed rec_size) (\<lambda>record.
      rbind (copies_r record
        [(0x00, 0x04, FILE_MAGIC),
         (0x04, 0x06, le16 48),
         (0x06, 0x08, le16 3),
         (0x08, 0x10, le64 0),
         (0x10, 0x12, le16 sq),
         (0x12, 0x14, le16 1),
         (0x14, 0x16, le16 56),
         (0x16, 0x18, le16 1),
         (0x18, 0x1C, le32 0),
         (0x1C, 0x20, le32 rec_size),
         (0x20, 0x28, le64 0),
         (0x28, 0x2A, le16 0),
         (0x2A, 0x30, zeros 6),
         (0x30, 0x32, le16 sq),
         (0x32, 0x36, zeros 4)]) (\<lambda>record.
      rbind (write_standard_info_attr record 56 dir) (\<lambda>(record, off).
      rbind (write_filename_attr record off name parent) (\<lambda>(record, off).
      rbind (if dir then write_index_root_attr rec_size record off else write_data_attr record off data)
        (\<lambda>(record, off).
      rbind (copy_r record off (off + 4) (le32 0xFFFFFFFF)) (\<lambda>record.
        copy_r record 0x18 0x1C (le32 (align8 (off + 4))))))))))"

section \<open>Creating files\<close>

definition BAAD_MAGIC :: "u8 list" where
  "BAAD_MAGIC = [0x42, 0x41, 0x41, 0x44]"

text \<open>The scan over \<open>START_SCAN..MAX_SCAN\<close>; a record that cannot be read is skipped.\<close>

fun scan_free_record ::
    "'d block_device \<Rightarrow> 'd NtfsDriver \<Rightarrow> nat list \<Rightarrow> (u64, NtfsError) result \<times> 'd NtfsDriver" where
  "scan_free_record ops drv [] = (Err NoSpace, drv)"
| "scan_free_record ops drv (num # nums) =
     sbind (vec_zeroed (record_size drv), drv) (\<lambda>buf drv.
       case drv_read ops drv (mft_record_offset drv (of_nat num)) buf of
         (Panic, drv) \<Rightarrow> (Panic, drv)
       | (Err _, drv) \<Rightarrow> scan_free_record ops drv nums
       | (Ok buf, drv) \<Rightarrow>
           sbind (slice_r buf 0 4, drv) (\<lambda>sig drv.
             if sig \<noteq> FILE_MAGIC \<and> sig \<noteq> BAAD_MAGIC then (Ok (of_nat num), drv)
             else scan_free_record ops drv nums))"

definition allocate_mft_record ::
    "'d block_device \<Rightarrow> 'd NtfsDriver \<Rightarrow> (u64, NtfsError) result \<times> 'd NtfsDriver" where
  "allocate_mft_record ops drv = scan_free_record ops drv [16..<100000]"

definition create_file ::
    "'d block_device \<Rightarrow> 'd NtfsDriver \<Rightarrow> NtfsFile \<Rightarrow> rstr \<Rightarrow> CreateOptions
     \<Rightarrow> (NtfsFile, NtfsError) result \<times> 'd NtfsDriver" where
  "create_file ops drv parent name options =
     sbind (drv_is_directory ops drv parent) (\<lambda>dir drv.
       if \<not> dir then (Err NotADirectory, drv)
       else
         (case find_in_directory ops drv parent name of
            (Ok _, drv) \<Rightarrow> (Err AlreadyExists, drv)
          | (Panic, drv) \<Rightarrow> (Panic, drv)
          | (Err e, drv) \<Rightarrow>
              if e \<noteq> FileNotFound then (Err e, drv)
              else if 255 < str_len name then (Err NameTooLong, drv)
              else
                sbind (allocate_mft_record ops drv) (\<lambda>num drv.
                sbind (build_mft_record (record_size drv) num name (record_number parent)
                         (co_is_directory options) (co_data options), drv) (\<lambda>record drv.
                sbind (reapply_fixups record (sector_bytes drv), drv) (\<lambda>record drv.
                sbind (drv_write ops drv (mft_record_offset drv num) record) (\<lambda>_ drv.
                sbind (add_directory_entry ops drv parent num name) (\<lambda>_ drv.
                  open_file ops drv num)))))))"

definition write_file ::
    "'d block_device \<Rightarrow> 'd NtfsDriver \<Rightarrow> NtfsFile \<Rightarrow> u8 list \<Rightarrow> (unit, NtfsError) result \<times> 'd NtfsDriver" where
  "write_file ops drv f data = write_resident_file ops drv f data"

end
