(* ===== verification/NtfsRecord.thy ===== *)
theory NtfsRecord
  imports NtfsWrite BlockStore
begin

text \<open>
  The records that \<open>build_mft_record\<close> writes, read back with \<open>parse_stat\<close>.
\<close>

section \<open>The bytes of the attributes\<close>

definition res_header :: "nat \<Rightarrow> nat \<Rightarrow> nat \<Rightarrow> u8 list \<Rightarrow> u8 list" where
  "res_header code attr_len data_len flags =
     le32 code @ le32 attr_len @ [0, 0] @ zeros 6 @ le32 data_len @ le16 24 @ flags"

definition si_attr :: "bool \<Rightarrow> u8 list" where
  "si_attr dir = res_header 0x10 96 72 (zeros 2) @ zeros 32 @ le32 (if dir then 0x10 else 0x20) @ zeros 36"

definition fn_attr :: "rstr \<Rightarrow> u64 \<Rightarrow> u8 list" where
  "fn_attr name parent =
     (let n = length (encode_utf16 name); data_len = 66 + n * 2 in
      res_header 0x30 (align8 (24 + data_len)) data_len [1, 0]
       @ le64 parent @ zeros 56 @ [of_nat n, 1] @ units_le name)"

definition data_attr :: "u8 list \<Rightarrow> u8 list" where
  "data_attr data =
     res_header 0x80 (align8 (24 + length data)) (length data) (zeros 2) @ data
      @ zeros (align8 (24 + length data) - (24 + length data))"

definition index_attr :: "nat \<Rightarrow> u8 list" where
  "index_attr rec_size =
     res_header 0x90 72 48 (zeros 2) @ le32 0x30 @ le32 0 @ le32 rec_size @ [1] @ zeros 3
      @ le32 32 @ le32 48 @ le32 48 @ zeros 4 @ le64 0 @ le16 16 @ le16 0 @ le16 2 @ zeros 2"

lemma length_units_le [simp]: "length (units_le name) = 2 * length (encode_utf16 name)"
proof -
  have "length (concat (map le16 us)) = 2 * length us" for us by (induction us) auto
  then show ?thesis by (simp add: units_le_def)
qed

lemma attr_lengths [simp]:
  "length (res_header c a d fl) = 22 + length fl" "length (si_attr dir) = 96"
  "length (fn_attr name parent) = 90 + 2 * length (encode_utf16 name)"
  "length (data_attr data) = align8 (24 + length data)" "length (index_attr n) = 72"
  using align8_ge [of "24 + length data"]
  by (simp_all add: res_header_def si_attr_def fn_attr_def data_attr_def index_attr_def Let_def le64_def)

lemma write_standard_info_blit:
  assumes "off + 96 \<le> length record"
  shows "write_standard_info_attr record off dir = Ok (blit record off (si_attr dir), off + 96)"
  unfolding write_standard_info_attr_def Let_def using assms
  by (subst copies_r_contiguous [where a = off])
    (simp_all add: si_attr_def res_header_def le64_def le_bytes_0 zeros_append_zeros)

lemma write_filename_blit:
  assumes "length (encode_utf16 name) \<le> 255" "off + align8 (90 + 2 * length (encode_utf16 name)) \<le> length record"
  shows "write_filename_attr record off name parent
       = Ok (blit record off (fn_attr name parent), off + align8 (90 + 2 * length (encode_utf16 name)))"
  unfolding write_filename_attr_def Let_def using assms align8_ge [of "90 + 2 * length (encode_utf16 name)"]
  by (subst copies_r_contiguous [where a = off])
    (simp_all add: fn_attr_def res_header_def le_bytes_0 zeros_append_zeros mult.commute Let_def)

lemma write_data_blit:
  assumes "length data \<le> 700" "off + align8 (24 + length data) \<le> length record"
  shows "write_data_attr record off data = Ok (blit record off (data_attr data), off + align8 (24 + length data))"
  unfolding write_data_attr_def Let_def using assms align8_ge [of "24 + length data"]
  by (subst copies_r_contiguous [where a = off])
    (simp_all add: data_attr_def res_header_def le_bytes_0 zeros_append_zeros)

lemma write_index_root_blit:
  assumes "off + 72 \<le> length record"
  shows "write_index_root_attr rs record off = Ok (blit record off (index_attr rs), off + 72)"
  unfolding write_index_root_attr_def Let_def using assms
  by (subst copies_r_contiguous [where a = off])
    (simp_all add: index_attr_def res_header_def le64_def le_bytes_0 zeros_append_zeros)

section \<open>The bytes of a record\<close>

text \<open>\<open>usa\<close> are the four bytes of the update sequence array behind its sequence number.\<close>

definition mft_header :: "nat \<Rightarrow> nat \<Rightarrow> nat \<Rightarrow> u8 list \<Rightarrow> u8 list" where
  "mft_header rs sq used usa =
     FILE_MAGIC @ le16 48 @ le16 3 @ zeros 8 @ le16 sq @ le16 1 @ le16 56 @ le16 1 @ le32 used @ le32 rs
      @ zeros 16 @ le16 sq @ usa @ zeros 2"

definition fn_padded :: "rstr \<Rightarrow> u64 \<Rightarrow> u8 list" where
  "fn_padded name parent = fn_attr name parent
     @ zeros (align8 (90 + 2 * length (encode_utf16 name)) - (90 + 2 * length (encode_utf16 name)))"

definition body_attr :: "nat \<Rightarrow> bool \<Rightarrow> u8 list \<Rightarrow> u8 list" where
  "body_attr rs dir data = (if dir then index_attr rs else data_attr data)"

definition used_end :: "nat \<Rightarrow> rstr \<Rightarrow> bool \<Rightarrow> u8 list \<Rightarrow> nat" where
  "used_end rs name dir data = 152 + length (fn_padded name 0) + length (body_attr rs dir data) + 4"

definition record_image :: "nat \<Rightarrow> u64 \<Rightarrow> rstr \<Rightarrow> u64 \<Rightarrow> bool \<Rightarrow> u8 list \<Rightarrow> u8 list \<Rightarrow> u8 list" where
  "record_image rs num name parent dir data usa =
     mft_header rs (unat num mod 65536) (align8 (used_end rs name dir data)) usa @ si_attr dir
      @ fn_padded name parent @ body_attr rs dir data @ le32 0xFFFFFFFF
      @ zeros (rs - used_end rs name dir data)"

text \<open>What \<open>build_mft_record\<close> can store in a record of \<open>rs\<close> bytes.\<close>

definition record_fits :: "nat \<Rightarrow> rstr \<Rightarrow> bool \<Rightarrow> u8 list \<Rightarrow> bool" where
  "record_fits rs name dir data \<longleftrightarrow>
     length (encode_utf16 name) \<le> 255 \<and> (\<not> dir \<longrightarrow> length data \<le> 700)
     \<and> used_end rs name dir data \<le> rs \<and> rs < 2 ^ 32"

lemma length_mft_header [simp]: "length usa = 4 \<Longrightarrow> length (mft_header rs sq used usa) = 56"
  by (simp add: mft_header_def FILE_MAGIC_def)

lemma length_fn_padded [simp]:
  "length (fn_padded name parent) = align8 (90 + 2 * length (encode_utf16 name))"
  using align8_ge [of "90 + 2 * length (encode_utf16 name)"] by (simp add: fn_padded_def)

lemma header_copies:
  assumes "56 \<le> rs"
  shows "copies_r (zeros rs)
        [(0x00, 0x04, FILE_MAGIC), (0x04, 0x06, le16 48), (0x06, 0x08, le16 3), (0x08, 0x10, le64 0),
         (0x10, 0x12, le16 sq), (0x12, 0x14, le16 1), (0x14, 0x16, le16 56), (0x16, 0x18, le16 1),
         (0x18, 0x1C, le32 0), (0x1C, 0x20, le32 rs), (0x20, 0x28, le64 0), (0x28, 0x2A, le16 0),
         (0x2A, 0x30, zeros 6), (0x30, 0x32, le16 sq), (0x32, 0x36, zeros 4)]
       = (Ok (mft_header rs sq 0 (zeros 4) @ zeros (rs - 56)) :: (u8 list, NtfsError) result)" (is "copies_r _ ?us = _")
proof -
  have l: "length FILE_MAGIC = 4" by (simp add: FILE_MAGIC_def)
  let ?h = "concat (map (snd \<circ> snd) ?us)"
  have "copies_r (zeros rs) ?us = (Ok (blit (zeros rs) 0 ?h) :: (u8 list, NtfsError) result)"
    by (rule copies_r_contiguous) (use assms l in simp_all)
  also have "blit (zeros rs) 0 ?h = ?h @ zeros (rs - 54)"
    using blit_zero_tail [of "[]" 0 ?h rs] assms l by simp
  also have "zeros (rs - 54) = zeros 2 @ zeros (rs - 56)"
    using assms unfolding zeros_append_zeros(1) by (intro arg_cong [where f = zeros]) linarith
  also have "?h @ zeros 2 @ zeros (rs - 56) = mft_header rs sq 0 (zeros 4) @ zeros (rs - 56)"
    by (simp add: mft_header_def le_bytes_0 zeros_append_zeros le64_def)
  finally show ?thesis .
qed

lemma header_used: "blit (mft_header rs sq u usa @ xs) 24 (le32 v) = mft_header rs sq v usa @ xs"
  by (simp add: blit_def mft_header_def FILE_MAGIC_def)

lemma write_body_blit:
  assumes "\<not> dir \<longrightarrow> length data \<le> 700" "off + length (body_attr rs dir data) \<le> length record"
  shows "(if dir then write_index_root_attr rs record off else write_data_attr record off data)
       = Ok (blit record off (body_attr rs dir data), off + length (body_attr rs dir data))"
  using assms by (cases dir) (simp_all add: body_attr_def write_index_root_blit write_data_blit)

lemma build_mft_record_image:
  assumes "record_fits rs name dir data"
  shows "build_mft_record rs num name parent dir data = Ok (record_image rs num name parent dir data (zeros 4))"
proof -
  let ?sq = "unat num mod 65536" and ?n = "90 + 2 * length (encode_utf16 name)"
  let ?B = "body_attr rs dir data" and ?e = "used_end rs name dir data" and ?H = "mft_header rs (unat num mod 65536) 0 (zeros 4)"
  have f: "length (encode_utf16 name) \<le> 255" "\<not> dir \<longrightarrow> length data \<le> 700" "rs < 2 ^ 32"
    "156 + align8 ?n + length ?B \<le> rs" "?e = 156 + align8 ?n + length ?B" "56 \<le> rs"
    using assms by (auto simp: record_fits_def used_end_def)
  have a: "?n \<le> align8 ?n" by (rule align8_ge)
  have r1: "blit (?H @ zeros (rs - 56)) 56 (si_attr dir) = (?H @ si_attr dir) @ zeros (rs - 152)"
    using blit_zero_tail [of ?H 56 "si_attr dir" "rs - 56"] f(4) by simp
  have r2: "blit ((?H @ si_attr dir) @ zeros (rs - 152)) 152 (fn_attr name parent)
      = (?H @ si_attr dir @ fn_padded name parent) @ zeros (rs - (152 + align8 ?n))"
    using blit_zero_tail [of "?H @ si_attr dir" 152 "fn_attr name parent" "rs - 152"] f(4) a
    by (simp add: fn_padded_def zeros_append_zeros)
  have r3: "blit ((?H @ si_attr dir @ fn_padded name parent) @ zeros (rs - (152 + align8 ?n))) (152 + align8 ?n) ?B
      = (?H @ si_attr dir @ fn_padded name parent @ ?B) @ zeros (rs - (152 + align8 ?n + length ?B))"
    using blit_zero_tail [of "?H @ si_attr dir @ fn_padded name parent" "152 + align8 ?n" ?B "rs - (152 + align8 ?n)"] f(4)
    by simp
  have r4: "blit ((?H @ si_attr dir @ fn_padded name parent @ ?B) @ zeros (rs - (152 + align8 ?n + length ?B)))
        (152 + align8 ?n + length ?B) (le32 0xFFFFFFFF)
      = ?H @ si_attr dir @ fn_padded name parent @ ?B @ le32 0xFFFFFFFF @ zeros (rs - ?e)"
    using blit_zero_tail [of "?H @ si_attr dir @ fn_padded name parent @ ?B" "152 + align8 ?n + length ?B"
        "le32 0xFFFFFFFF" "rs - (152 + align8 ?n + length ?B)"] f(4,5)
    by (simp add: add.assoc)
  have v: "vec_zeroed rs = (Ok (zeros rs) :: (u8 list, NtfsError) result)"
    using f(3) by (simp add: vec_zeroed_def zeros_def)
  have s1: "write_standard_info_attr (?H @ zeros (rs - 56)) 56 dir = Ok ((?H @ si_attr dir) @ zeros (rs - 152), 152)"
    using f(4) by (simp add: write_standard_info_blit r1)
  have s2: "write_filename_attr ((?H @ si_attr dir) @ zeros (rs - 152)) 152 name parent
      = Ok ((?H @ si_attr dir @ fn_padded name parent) @ zeros (rs - (152 + align8 ?n)), 152 + align8 ?n)"
    using f(1,4) write_filename_blit [of name 152 "(?H @ si_attr dir) @ zeros (rs - 152)" parent] r2 by simp
  have s3: "(if dir then write_index_root_attr rs r off else write_data_attr r off data)
      = Ok ((?H @ si_attr dir @ fn_padded name parent @ ?B) @ zeros (rs - (152 + align8 ?n + length ?B)),
            152 + align8 ?n + length ?B)"
    if "r = (?H @ si_attr dir @ fn_padded name parent) @ zeros (rs - (152 + align8 ?n))" "off = 152 + align8 ?n" for r off
    using write_body_blit [OF f(2), of off rs r] f(4) r3 that by simp
  let ?R = "?H @ si_attr dir @ fn_padded name parent @ ?B @ le32 0xFFFFFFFF @ zeros (rs - ?e)"
  have s4: "copy_r ((?H @ si_attr dir @ fn_padded name parent @ ?B) @ zeros (rs - (152 + align8 ?n + length ?B)))
        (152 + align8 ?n + length ?B) (152 + align8 ?n + length ?B + 4) (le32 0xFFFFFFFF)
      = (Ok ?R :: (u8 list, NtfsError) result)"
    using f(4) r4 by (subst copy_r_Ok) simp_all
  have e: "152 + align8 ?n + length ?B + 4 = ?e" using f(5) by simp
  have s5: "copy_r ?R 0x18 0x1C (le32 (align8 ?e)) = (Ok (record_image rs num name parent dir data (zeros 4)) :: (u8 list, NtfsError) result)"
    by (subst copy_r_Ok) (simp_all add: header_used record_image_def)
  show ?thesis
    unfolding build_mft_record_def Let_def v rbind.simps header_copies [OF f(6)] s1 s2 prod.case
      s3 [OF refl refl] s4
    using s5 e by simp
qed

section \<open>Reading a record back\<close>

text \<open>The iterator on an attribute in the middle of a record.\<close>

lemma next_attribute_mid:
  assumes "length flags = 2" "n = 24 + length rest" "n < 2 ^ 32" "attribute_type code = Some ty" "code < 0xFFFFFFFF"
  shows "next_attribute (pre @ (res_header code n dl flags @ rest) @ post) (length pre)
       = Ok (Some (ty, res_header code n dl flags @ rest, True, length pre + n))"
proof -
  let ?a = "res_header code n dl flags @ rest" and ?o = "length pre"
  let ?r = "pre @ (res_header code n dl flags @ rest) @ post"
  have s: "seg ?r ?o (?o + 4) = le32 code" "seg ?r (?o + 4) (?o + 8) = le32 n"
    by (simp_all add: seg_def res_header_def)
  have a: "seg ?r ?o (?o + n) = ?a" using assms(1,2) by (simp add: seg_def)
  have f: "index_r ?r (?o + 8) = (Ok 0 :: (u8, NtfsError) result)"
    using assms(1) by (simp add: index_r_def nth_append res_header_def)
  show ?thesis
    unfolding next_attribute_def Let_def s f
    using assms(1,3-5) a assms(2) by (simp add: le_val_le32)
qed

lemma stat_loop_attr:
  assumes "length flags = 2" "n = 24 + length rest" "n < 2 ^ 32" "attribute_type code = Some ty" "code < 0xFFFFFFFF"
    and "attr = res_header code n dl flags @ rest" "off = length pre" "off' = length pre + n"
    and "stat_attribute bs ty attr True st = Ok st'"
  shows "stat_loop (pre @ attr @ post) bs off st = stat_loop (pre @ attr @ post) bs off' st'"
proof -
  have "next_attribute (pre @ attr @ post) off = Ok (Some (ty, attr, True, off'))"
    using next_attribute_mid [OF assms(1-5), of pre dl post] unfolding assms(6-8) .
  then show ?thesis unfolding stat_loop.simps [of "pre @ attr @ post" bs off] by (simp add: assms(9))
qed

lemma stat_loop_end:
  "off = length pre \<Longrightarrow> stat_loop (pre @ le32 0xFFFFFFFF @ post) bs off st = Ok st"
  by (subst stat_loop.simps) (simp add: next_attribute_def Let_def le_val_le32 seg_append_mid)

lemma seg_units:
  "i < length us \<Longrightarrow> seg (concat (map le16 us) @ zs) (i * 2) (i * 2 + 2) = le16 (us ! i)"
proof (induction us arbitrary: i)
  case Nil
  then show ?case by simp
next
  case (Cons u us)
  show ?case
  proof (cases i)
    case 0
    then show ?thesis by (simp add: seg_def)
  next
    case (Suc j)
    then have "seg (concat (map le16 us) @ zs) (j * 2) (j * 2 + 2) = le16 (us ! j)"
      using Cons by simp
    then show ?thesis using Suc by (simp add: seg_append_right)
  qed
qed

definition scalar_values :: "rstr \<Rightarrow> bool" where
  "scalar_values s \<longleftrightarrow> (\<forall>c \<in> set s. c < 0x110000)"

lemma encode_utf16_units: "scalar_values s \<Longrightarrow> \<forall>u \<in> set (encode_utf16 s). u < 65536"
  by (auto simp: encode_utf16_def utf16_units_def scalar_values_def split: if_splits)

text \<open>The name a stored name is read back as: up to the first NUL, non-ASCII units as question marks.\<close>

definition shown_name :: "rstr \<Rightarrow> rstr" where
  "shown_name name = map ascii_or_mark (takeWhile (\<lambda>c. c \<noteq> 0) (encode_utf16 name))"

lemma shown_name_ascii: "\<forall>c \<in> set name. 0 < c \<and> c < 128 \<Longrightarrow> shown_name name = name"
proof -
  assume a: "\<forall>c \<in> set name. 0 < c \<and> c < 128"
  then have "encode_utf16 name = name" by (simp add: encode_utf16_ascii)
  moreover have "takeWhile (\<lambda>c. c \<noteq> 0) name = name" using a by (simp add: takeWhile_eq_all_conv)
  moreover have "map ascii_or_mark name = name" using a by (intro map_idI) (simp add: ascii_or_mark_def)
  ultimately show ?thesis by (simp only: shown_name_def)
qed

lemma units_read_back:
  assumes "scalar_values name"
  shows "map (utf16_name_unit (units_le name @ zs)) [0..<length (encode_utf16 name)] = encode_utf16 name"
proof (rule nth_equalityI)
  fix i assume "i < length (map (utf16_name_unit (units_le name @ zs)) [0..<length (encode_utf16 name)])"
  then have i: "i < length (encode_utf16 name)" by simp
  then have "encode_utf16 name ! i < 65536" using encode_utf16_units [OF assms] by simp
  with i show "map (utf16_name_unit (units_le name @ zs)) [0..<length (encode_utf16 name)] ! i = encode_utf16 name ! i"
    using seg_units [OF i, of zs] by (simp add: utf16_name_unit_def units_le_def le_val_le16)
qed simp

lemma parse_name_of_key:
  assumes "scalar_values name" "length (encode_utf16 name) \<le> 255" "2 \<le> 2 * length (encode_utf16 name) + length zs"
    and "length mid = 56"
  shows "parse_name_and_parent (le64 parent @ mid @ [of_nat (length (encode_utf16 name)), 1] @ units_le name @ zs) 0x42
       = Some (shown_name name, parent)"
proof -
  let ?k = "length (encode_utf16 name)"
  let ?d = "le64 parent @ mid @ [of_nat ?k, 1] @ units_le name @ zs"
  have f: "(fld ?d 0 8 :: u64) = parent" by (simp add: fld_def seg_def of_nat_le_val_le64)
  have n: "unat (?d ! 0x40) = ?k" using assms(2,4) by (simp add: nth_append unat_of_nat)
  have r: "drop 0x42 ?d = units_le name @ zs" using assms(4) by simp
  show ?thesis
    unfolding parse_name_and_parent_def f n r Let_def
    using assms by (simp add: units_read_back shown_name_def)
qed

lemma res_header_fields:
  assumes "length flags = 2"
  shows "drop 24 (res_header c a d flags @ rest) = rest"
    "seg (res_header c a d flags @ rest) 16 20 = le32 d" "seg (res_header c a d flags @ rest) 20 22 = le16 24"
    "(res_header c a d flags @ rest) ! 9 = 0"
  using assms by (simp_all add: res_header_def seg_def nth_append)

definition fn_rest :: "rstr \<Rightarrow> u64 \<Rightarrow> u8 list" where
  "fn_rest name parent = le64 parent @ zeros 56 @ [of_nat (length (encode_utf16 name)), 1] @ units_le name
     @ zeros (align8 (90 + 2 * length (encode_utf16 name)) - (90 + 2 * length (encode_utf16 name)))"

lemma fn_padded_split:
  "fn_padded name parent = res_header 0x30 (align8 (90 + 2 * length (encode_utf16 name)))
     (66 + 2 * length (encode_utf16 name)) [1, 0] @ fn_rest name parent"
  by (simp add: fn_padded_def fn_attr_def fn_rest_def Let_def mult.commute)

lemma stat_fn:
  assumes "scalar_values name" "length (encode_utf16 name) \<le> 255" "stat_name st = None"
  shows "stat_attribute bs AtFileName (fn_padded name parent) True st = Ok (st\<lparr>stat_name := Some (shown_name name)\<rparr>)"
proof -
  let ?k = "length (encode_utf16 name)"
  have "2 \<le> 2 * ?k + (align8 (90 + 2 * ?k) - (90 + 2 * ?k))" 
  proof (cases "?k = 0")
    case True
    then show ?thesis by (simp add: align8_def)
  next
    case False
    then show ?thesis by linarith
  qed
  then have "parse_name_and_parent (fn_rest name parent) 0x42 = Some (shown_name name, parent)"
    unfolding fn_rest_def using assms(1,2) by (intro parse_name_of_key) simp_all
  moreover have "24 \<le> length (fn_padded name parent)"
    using align8_ge [of "90 + 2 * length (encode_utf16 name)"] by simp
  ultimately show ?thesis
    using assms(3) res_header_fields(1) [of "[1, 0]"] unfolding fn_padded_split
    by (simp add: stat_attribute_def parse_filename_def drop_r_def)
qed

lemma stat_data_attr:
  assumes "length data \<le> 700"
  shows "stat_attribute bs AtData (data_attr data) True st
       = Ok (st\<lparr>stat_size := of_nat (length data), data_runs := data_runs st @ [Resident data]\<rparr>)"
proof -
  have a: "24 + length data \<le> align8 (24 + length data)" by (rule align8_ge)
  have "seg (data_attr data) 24 (24 + length data) = data"
    by (simp add: data_attr_def seg_def)
  moreover have "le_val (seg (data_attr data) 16 20) = length data" "le_val (seg (data_attr data) 20 22) = 24"
    "data_attr data ! 9 = 0"
    using assms res_header_fields(2-4) [of "zeros 2"] by (simp_all add: data_attr_def le_val_le32 le_val_le16)
  ultimately show ?thesis
    using a by (simp add: stat_attribute_def stat_data_def index_r_def add_data_stream_def)
qed

lemma stat_index_attr:
  "stat_attribute bs AtIndexRoot (index_attr rs) True st
     = Ok (st\<lparr>is_directory := True, index_root := Some (drop 24 (index_attr rs))\<rparr>)"
proof -
  have "seg (index_attr rs) 20 22 = le16 24" using res_header_fields(3) [of "zeros 2"] by (simp add: index_attr_def)
  then have "rd16 (index_attr rs) 20 = (Ok 24 :: (nat, NtfsError) result)"
    by (simp add: rd_Ok le_val_le16)
  then show ?thesis by (simp add: stat_attribute_def Let_def)
qed

definition created_stat :: "nat \<Rightarrow> rstr \<Rightarrow> bool \<Rightarrow> u8 list \<Rightarrow> NtfsStat" where
  "created_stat rs name dir data =
     (let st = empty_stat\<lparr>standard_info := parse_standard_information (si_attr dir),
                          stat_name := Some (shown_name name)\<rparr>
      in if dir then st\<lparr>is_directory := True, index_root := Some (drop 24 (index_attr rs))\<rparr>
         else st\<lparr>stat_size := of_nat (length data), data_runs := [Resident data]\<rparr>)"

lemma align8_bound: "n \<le> 4000 \<Longrightarrow> align8 n < 2 ^ 32"
  using align8_less [of n] by simp

lemma parse_stat_image:
  assumes fits: "record_fits rs name dir data" and sv: "scalar_values name" and usa: "length usa = 4"
  shows "parse_stat (record_image rs num name parent dir data usa) bs = Ok (created_stat rs name dir data)"
proof -
  let ?sq = "unat num mod 65536" and ?n = "align8 (90 + 2 * length (encode_utf16 name))"
  let ?H = "mft_header rs ?sq (align8 (used_end rs name dir data)) usa" and ?B = "body_attr rs dir data"
  let ?Z = "zeros (rs - used_end rs name dir data)"
  let ?R = "record_image rs num name parent dir data usa"
  have f: "length (encode_utf16 name) \<le> 255" "\<not> dir \<longrightarrow> length data \<le> 700"
    using fits by (auto simp: record_fits_def)
  have first: "rd16 ?R 20 = (Ok 56 :: (nat, NtfsError) result)"
    by (simp add: rd_Ok record_image_def mft_header_def FILE_MAGIC_def seg_def le_val_le16)
  let ?s1 = "empty_stat\<lparr>standard_info := parse_standard_information (si_attr dir)\<rparr>"
  let ?s2 = "?s1\<lparr>stat_name := Some (shown_name name)\<rparr>"
  have R: "?R = ?H @ si_attr dir @ (fn_padded name parent @ ?B @ le32 0xFFFFFFFF @ ?Z)"
    "?R = (?H @ si_attr dir) @ fn_padded name parent @ (?B @ le32 0xFFFFFFFF @ ?Z)"
    "?R = (?H @ si_attr dir @ fn_padded name parent) @ ?B @ (le32 0xFFFFFFFF @ ?Z)"
    "?R = (?H @ si_attr dir @ fn_padded name parent @ ?B) @ le32 0xFFFFFFFF @ ?Z"
    by (simp_all add: record_image_def)
  have l1: "stat_loop ?R bs 56 empty_stat = stat_loop ?R bs 152 ?s1"
    unfolding R(1) by (rule stat_loop_attr [where code = "0x10" and flags = "zeros 2" and ty = AtStandardInformation
          and rest = "zeros 32 @ le32 (if dir then 0x10 else 0x20) @ zeros 36"])
      (simp_all add: attribute_type_def si_attr_def stat_attribute_def usa)
  have l2: "stat_loop ?R bs 152 ?s1 = stat_loop ?R bs (152 + ?n) ?s2"
    unfolding R(2) by (rule stat_loop_attr [where flags = "[1, 0]" and ty = AtFileName, OF _ _ _ _ _ fn_padded_split])
      (use f align8_ge [of "90 + 2 * length (encode_utf16 name)"] align8_bound [of "90 + 2 * length (encode_utf16 name)"]
        in \<open>simp_all add: attribute_type_def stat_fn [OF sv] fn_rest_def empty_stat_def usa\<close>)
  have l3: "stat_loop ?R bs (152 + ?n) ?s2 = stat_loop ?R bs (152 + ?n + length ?B) (created_stat rs name dir data)"
  proof (cases dir)
    case True
    show ?thesis
      unfolding R(3) by (rule stat_loop_attr [where code = "0x90" and flags = "zeros 2" and ty = AtIndexRoot
            and rest = "drop 24 (index_attr rs)" and n = 72 and dl = 48])
        (use True in \<open>simp_all add: attribute_type_def body_attr_def stat_index_attr created_stat_def usa\<close>,
         simp add: index_attr_def)
  next
    case False
    with f have d: "length data \<le> 700" by simp
    show ?thesis
      unfolding R(3) by (rule stat_loop_attr [where code = "0x80" and flags = "zeros 2" and ty = AtData
            and rest = "drop 24 (data_attr data)" and n = "align8 (24 + length data)" and dl = "length data"])
        (use False d align8_ge [of "24 + length data"] align8_bound [of "24 + length data"]
          in \<open>simp_all add: attribute_type_def body_attr_def stat_data_attr created_stat_def empty_stat_def usa\<close>,
         simp add: data_attr_def)
  qed
  have l4: "stat_loop ?R bs (152 + ?n + length ?B) st = Ok st" for st
    unfolding R(4) by (rule stat_loop_end) (simp add: usa)
  show ?thesis by (simp add: parse_stat_def first l1 l2 l3 l4)
qed

text \<open>
  For every name and contents that fit, \<open>build_mft_record\<close> succeeds and \<open>parse_stat\<close> reads the
  record back as what was asked for: the kind, the name (non-ASCII characters shown as question marks)
  and, for a file, its size and contents.
\<close>

theorem build_mft_record_parse_stat:
  assumes "record_fits rs name dir data" "scalar_values name"
  shows "\<exists>rec st. build_mft_record rs num name parent dir data = Ok rec \<and> length rec = rs
    \<and> parse_stat rec bs = Ok st \<and> is_directory st = dir \<and> stat_name st = Some (shown_name name)
    \<and> (\<not> dir \<longrightarrow> stat_size st = of_nat (length data) \<and> data_runs st = [Resident data])"
proof -
  have "length (record_image rs num name parent dir data (zeros 4)) = rs"
    using assms(1) by (simp add: record_image_def record_fits_def used_end_def)
  then show ?thesis
    using build_mft_record_image [OF assms(1)] parse_stat_image [OF assms, of "zeros 4"]
    by (auto simp: created_stat_def Let_def empty_stat_def)
qed

lemma record_fits_notes: "record_fits 1024 (str ''notes.txt'') False [1, 2, 3]"
  by (simp add: record_fits_def used_end_def body_attr_def align8_def str_def encode_utf16_def utf16_units_def)

theorem build_mft_record_parse_stat_witness:
  "\<forall>bs. \<exists>rec st. build_mft_record 1024 77 (str ''notes.txt'') 5 False [1, 2, 3] = Ok rec
    \<and> parse_stat rec bs = Ok st \<and> stat_name st = Some (str ''notes.txt'') \<and> data_runs st = [Resident [1, 2, 3]]"
proof
  fix bs
  have "scalar_values (str ''notes.txt'')" "shown_name (str ''notes.txt'') = str ''notes.txt''"
    by (simp add: scalar_values_def str_def, rule shown_name_ascii, simp add: str_def)
  with build_mft_record_parse_stat [OF record_fits_notes, of 77 5 bs]
  show "\<exists>rec st. build_mft_record 1024 77 (str ''notes.txt'') 5 False [1, 2, 3] = Ok rec
    \<and> parse_stat rec bs = Ok st \<and> stat_name st = Some (str ''notes.txt'') \<and> data_runs st = [Resident [1, 2, 3]]"
    by auto
qed

section \<open>Through the disk\<close>

lemma record_image_layout:
  assumes "record_fits rs name dir data" "56 \<le> ss" "2 * ss \<le> rs" "length usa = 4"
  shows "length (record_image rs num name parent dir data usa) = rs"
    "usa_offset (record_image rs num name parent dir data usa) = 48"
    "usa_count (record_image rs num name parent dir data usa) = 3"
    "good_layout (record_image rs num name parent dir data usa) ss"
proof -
  let ?R = "record_image rs num name parent dir data usa"
  show l: "length ?R = rs"
    using assms(1,4) by (simp add: record_image_def record_fits_def used_end_def)
  show u: "usa_offset ?R = 48" "usa_count ?R = 3"
    by (simp_all add: usa_offset_def usa_count_def record_image_def mft_header_def FILE_MAGIC_def seg_def le_val_le16)
  have "i = 1 \<or> i = 2" if "1 \<le> i" "i < 3" for i :: nat using that by linarith
  with assms(2,3) show "good_layout ?R ss" by (fastforce simp: good_layout_def fixup_layout_def l u)
qed

lemma record_image_usa:
  "length u = 4 \<Longrightarrow> length v = 4 \<Longrightarrow>
   blit (record_image rs num name parent dir data u) 50 v = record_image rs num name parent dir data v"
  by (simp add: blit_def record_image_def mft_header_def FILE_MAGIC_def)

lemma agree_outside_blit:
  assumes "length c = length b" "a + k \<le> length b" "\<forall>p < length b. p < a \<or> a + k \<le> p \<longrightarrow> c ! p = b ! p"
  shows "c = blit b a (seg c a (a + k))"
proof (rule nth_equalityI)
  fix p assume "p < length c"
  then show "c ! p = blit b a (seg c a (a + k)) ! p"
    using assms by (auto simp: nth_blit nth_seg)
qed (use assms in \<open>simp add: length_blit\<close>)

lemma record_image_fixups:
  assumes "record_fits rs name dir data" "56 \<le> ss" "2 * ss \<le> rs"
  obtains b usa where "reapply_fixups (record_image rs num name parent dir data (zeros 4)) ss = Ok b"
    "length b = rs" "seg b 0 4 = FILE_MAGIC" "length usa = 4"
    "apply_fixups b ss = Ok (record_image rs num name parent dir data usa)"
proof -
  let ?R = "record_image rs num name parent dir data (zeros 4)"
  have z: "length (zeros 4) = 4" by simp
  note lay = record_image_layout [OF assms z, of num parent]
  obtain b c where bc: "reapply_fixups ?R ss = Ok b" "length b = length ?R" "\<forall>p < 8. b ! p = ?R ! p"
      "apply_fixups b ss = Ok c" "length c = length ?R"
      "\<forall>p < length ?R. p < 48 + 2 \<or> 48 + 2 * 3 \<le> p \<longrightarrow> c ! p = ?R ! p"
    using reapply_apply_round_trip [OF lay(4)] unfolding lay(2,3) by blast
  have rs: "56 \<le> rs" using assms(2,3) by simp
  have "c = blit ?R 50 (seg c 50 (50 + 4))"
    by (rule agree_outside_blit [OF bc(5)]) (use bc(6) lay(1) rs in simp_all)
  also have "\<dots> = record_image rs num name parent dir data (seg c 50 (50 + 4))"
    by (rule record_image_usa) (use bc(5) lay(1) rs in simp_all)
  finally have c: "c = record_image rs num name parent dir data (seg c 50 (50 + 4))" .
  have "seg b 0 4 = seg ?R 0 4" using bc(2,3) by (intro seg_cong) auto
  also have "\<dots> = FILE_MAGIC" by (simp add: record_image_def mft_header_def FILE_MAGIC_def seg_def)
  finally show thesis
    using that [OF bc(1), of "seg c 50 (50 + 4)"] bc(2,4,5) c lay(1) rs by auto
qed

text \<open>The device covers the record, and transfers it in one request.\<close>

definition record_on_device :: "nat \<Rightarrow> nat \<Rightarrow> nat \<Rightarrow> 'd NtfsDriver \<Rightarrow> u64 \<Rightarrow> bool" where
  "record_on_device granule burst capacity drv num \<longleftrightarrow> record_size drv \<le> burst
     \<and> unat (mft_record_offset drv num) * granule + record_size drv \<le> capacity"

context block_store
begin

lemma drv_write_holds:
  assumes "ready (Suc n) (device drv)" "record_on_device granule burst capacity drv num" "length b = record_size drv"
  obtains d' where "drv_write ops drv (mft_record_offset drv num) b = (Ok (), drv\<lparr>device := d'\<rparr>)"
    "ready n d'" "holds d' (mft_record_offset drv num) b"
proof -
  obtain d' where "write_blocks ops (device drv) (mft_record_offset drv num) b = (Ok (), d')" "ready n d'"
      "holds d' (mft_record_offset drv num) b"
    using write_holds [of n "device drv" b "mft_record_offset drv num"] assms
    by (auto simp: record_on_device_def)
  with that show thesis by (simp add: drv_write_def)
qed

lemma read_mft_record_holds:
  assumes "ready (Suc n) (device drv)" "record_on_device granule burst capacity drv num" "record_size drv < 2 ^ 63"
    and "holds (device drv) (mft_record_offset drv num) b" "length b = record_size drv" "4 \<le> length b"
    and "seg b 0 4 = FILE_MAGIC"
  obtains d' where "read_mft_record ops drv num = (apply_fixups b (sector_bytes drv), drv\<lparr>device := d'\<rparr>)"
    "ready n d'" "bytes d' = bytes (device drv)"
proof -
  have l: "length (replicate (record_size drv) (0 :: u8)) = length b" using assms(5) by simp
  obtain d' where d': "read_blocks ops (device drv) (mft_record_offset drv num) (replicate (record_size drv) 0) = (Ok b, d')"
      "ready n d'" "bytes d' = bytes (device drv)"
    using read_holds [OF assms(1,4) l] assms(2,5) by (auto simp: record_on_device_def)
  have "read_mft_record ops drv num = (apply_fixups b (sector_bytes drv), drv\<lparr>device := d'\<rparr>)"
    using d'(1) assms(3,6,7)
    by (simp add: read_mft_record_def vec_zeroed_def drv_read_def slice_r_def sector_bytes_def)
  with d'(2,3) that show thesis by blast
qed

theorem stored_record_stat:
  assumes "ready (Suc (Suc n)) (device drv)" "record_on_device granule burst capacity drv num"
    and fits: "record_fits (record_size drv) name dir data" and sv: "scalar_values name"
    and ss: "56 \<le> sector_bytes drv" "2 * sector_bytes drv \<le> record_size drv"
  shows "\<exists>rec b drv1 drv2. build_mft_record (record_size drv) num name parent dir data = Ok rec
    \<and> reapply_fixups rec (sector_bytes drv) = Ok b
    \<and> drv_write ops drv (mft_record_offset drv num) b = (Ok (), drv1)
    \<and> stat ops drv1 \<lparr>record_number = num\<rparr> = (Ok (created_stat (record_size drv) name dir data), drv2)"
proof -
  let ?rs = "record_size drv"
  obtain b usa where b: "reapply_fixups (record_image ?rs num name parent dir data (zeros 4)) (sector_bytes drv) = Ok b"
    "length b = ?rs" "seg b 0 4 = FILE_MAGIC" "length usa = 4"
    "apply_fixups b (sector_bytes drv) = Ok (record_image ?rs num name parent dir data usa)"
    using record_image_fixups [OF fits ss] by blast
  obtain d' where d': "drv_write ops drv (mft_record_offset drv num) b = (Ok (), drv\<lparr>device := d'\<rparr>)"
    "ready (Suc n) d'" "holds d' (mft_record_offset drv num) b"
    using drv_write_holds [OF assms(1,2) b(2)] by blast
  have rs: "?rs < 2 ^ 63" "4 \<le> length b" using fits ss b(2) by (auto simp: record_fits_def)
  let ?drv1 = "drv\<lparr>device := d'\<rparr>"
  have same: "record_on_device granule burst capacity ?drv1 num" "mft_record_offset ?drv1 num = mft_record_offset drv num"
      "sector_bytes ?drv1 = sector_bytes drv"
    using assms(2) by (simp_all add: record_on_device_def mft_record_offset_def sector_bytes_def)
  obtain d2 where "read_mft_record ops ?drv1 num = (apply_fixups b (sector_bytes ?drv1), ?drv1\<lparr>device := d2\<rparr>)"
    using read_mft_record_holds [of n ?drv1 num b] d'(2,3) same rs b(2,3) by auto
  then have "stat ops ?drv1 \<lparr>record_number = num\<rparr> = (Ok (created_stat ?rs name dir data), ?drv1\<lparr>device := d2\<rparr>)"
    using b(5) parse_stat_image [OF fits sv b(4)] by (simp add: stat_def same(3))
  with b(1) d'(1) build_mft_record_image [OF fits] show ?thesis by blast
qed

end

text \<open>
  On a conforming device, the record that \<open>create_file\<close> builds, protects with \<open>reapply_fixups\<close> and
  writes is read back by \<open>stat\<close> as the file or directory that was created.
\<close>

theorem created_record_read_back:
  assumes "block_store ops granule burst capacity bytes ready" "ready 2 (device drv)"
    and "record_on_device granule burst capacity drv num"
    and "record_fits (record_size drv) name dir data" "scalar_values name"
    and "56 \<le> sector_bytes drv" "2 * sector_bytes drv \<le> record_size drv"
  shows "\<exists>rec b drv1 st drv2. build_mft_record (record_size drv) num name parent dir data = Ok rec
    \<and> reapply_fixups rec (sector_bytes drv) = Ok b
    \<and> drv_write ops drv (mft_record_offset drv num) b = (Ok (), drv1)
    \<and> stat ops drv1 \<lparr>record_number = num\<rparr> = (Ok st, drv2)
    \<and> is_directory st = dir \<and> stat_name st = Some (shown_name name)
    \<and> (\<not> dir \<longrightarrow> data_runs st = [Resident data])"
proof -
  have "is_directory (created_stat (record_size drv) name dir data) = dir"
    "stat_name (created_stat (record_size drv) name dir data) = Some (shown_name name)"
    "\<not> dir \<longrightarrow> data_runs (created_stat (record_size drv) name dir data) = [Resident data]"
    by (simp_all add: created_stat_def empty_stat_def Let_def)
  with block_store.stored_record_stat [OF assms(1) assms(2) [unfolded numeral_2_eq_2] assms(3-), of parent] show ?thesis by metis
qed

definition sample_driver :: "(nat \<Rightarrow> u8) NtfsDriver" where
  "sample_driver =
     \<lparr>device = (\<lambda>_. 0),
      boot = \<lparr>bytes_per_sector = 512, sectors_per_cluster = 8, media_type = 0, total_sectors = 4096,
              mft_start_cluster = 2, mft_mirror_start_cluster = 3, clusters_per_mft_record = 246,
              clusters_per_index_buffer = 1, serial_number = 0, partition_byte_offset = 0\<rparr>,
      record_size = 1024\<rparr>"

theorem created_record_read_back_witness:
  "\<exists>rec b drv1 st drv2. build_mft_record 1024 77 (str ''notes.txt'') 5 False [1, 2, 3] = Ok rec
    \<and> reapply_fixups rec 512 = Ok b
    \<and> drv_write (ram_disk 512 4096) sample_driver (mft_record_offset sample_driver 77) b = (Ok (), drv1)
    \<and> stat (ram_disk 512 4096) drv1 \<lparr>record_number = 77\<rparr> = (Ok st, drv2)
    \<and> data_runs st = [Resident [1, 2, 3]]"
proof -
  have rs: "record_size sample_driver = 1024" "sector_bytes sample_driver = 512"
    by (simp_all add: sample_driver_def sector_bytes_def)
  have "unat (mft_record_offset sample_driver 77) = 87040"
    by (simp add: mft_record_offset_def mft_byte_offset_def bytes_per_cluster_def sample_driver_def)
  then have "record_on_device 1 4096 (4096 * 512) sample_driver 77"
    by (simp add: record_on_device_def rs)
  moreover have "scalar_values (str ''notes.txt'')" by (simp add: scalar_values_def str_def)
  ultimately show ?thesis
    using created_record_read_back [OF block_store_ram_disk [of 512 4096] TrueI, of 4096 "4096 * 512" sample_driver 77
        "str ''notes.txt''" False "[1, 2, 3]" 5] record_fits_notes
    unfolding rs by auto
qed

section \<open>New directories\<close>

lemma attribute_offset_mid:
  assumes "n = 24 + length rest" "n < 2 ^ 32" "code < 0xFFFFFFFF" "length flags = 2"
    and "attr = res_header code n dl flags @ rest" "off = length pre"
  shows "attribute_offset_loop (pre @ attr @ post) ty off
       = (if code = ty then Ok off else attribute_offset_loop (pre @ attr @ post) ty (off + n))"
proof -
  let ?r = "pre @ (res_header code n dl flags @ rest) @ post"
  have s: "seg ?r (length pre) (length pre + 4) = le32 code" "seg ?r (length pre + 4) (length pre + 8) = le32 n"
    by (simp_all add: seg_def res_header_def)
  show ?thesis
    unfolding assms(5,6) attribute_offset_loop.simps [of ?r ty "length pre"] s Let_def
    using assms(1-4) by (simp add: le_val_le32)
qed

definition index_root_at :: "rstr \<Rightarrow> nat" where
  "index_root_at name = 152 + align8 (90 + 2 * length (encode_utf16 name))"

lemma index_attr_split: "index_attr rs = res_header 0x90 72 48 (zeros 2) @ drop 24 (index_attr rs)"
  by (simp add: index_attr_def)

lemma find_index_root_image:
  assumes fits: "record_fits rs name True data" and usa: "length usa = 4"
  shows "find_attribute_offset (record_image rs num name parent True data usa) 0x90 = Ok (index_root_at name)"
proof -
  let ?R = "record_image rs num name parent True data usa"
  let ?H = "mft_header rs (unat num mod 65536) (align8 (used_end rs name True data)) usa"
  let ?Z = "le32 0xFFFFFFFF @ zeros (rs - used_end rs name True data)"
  have k: "length (encode_utf16 name) \<le> 255" using fits by (simp add: record_fits_def)
  have R: "?R = ?H @ si_attr True @ (fn_padded name parent @ index_attr rs @ ?Z)"
    "?R = (?H @ si_attr True) @ fn_padded name parent @ (index_attr rs @ ?Z)"
    "?R = (?H @ si_attr True @ fn_padded name parent) @ index_attr rs @ ?Z"
    by (simp_all add: record_image_def body_attr_def)
  have "le_val (seg ?R 20 22) = 56"
    by (simp add: record_image_def mft_header_def FILE_MAGIC_def seg_def le_val_le16)
  moreover have "attribute_offset_loop ?R 0x90 56 = attribute_offset_loop ?R 0x90 (56 + 96)"
    unfolding R(1) by (subst attribute_offset_mid [where code = "0x10" and flags = "zeros 2" and n = 96
          and dl = 72 and rest = "zeros 32 @ le32 0x10 @ zeros 36"]) (simp_all add: si_attr_def usa)
  moreover have "attribute_offset_loop ?R 0x90 152 = attribute_offset_loop ?R 0x90 (index_root_at name)"
    unfolding R(2) by (subst attribute_offset_mid [where flags = "[1, 0]", OF _ _ _ _ fn_padded_split])
      (use k align8_ge [of "90 + 2 * length (encode_utf16 name)"] align8_bound [of "90 + 2 * length (encode_utf16 name)"]
        in \<open>simp_all add: fn_rest_def usa index_root_at_def\<close>)
  moreover have "attribute_offset_loop ?R 0x90 (index_root_at name) = Ok (index_root_at name)"
    unfolding R(3) by (subst attribute_offset_mid [where flags = "zeros 2", OF _ _ _ _ index_attr_split])
      (simp_all add: usa index_root_at_def)
  moreover have "22 \<le> length ?R" by (simp add: record_image_def usa)
  ultimately show ?thesis by (simp add: find_attribute_offset_def)
qed

text \<open>The fields of the index header as \<open>add_to_resident_index\<close> reads them.\<close>

lemma index_header_image:
  assumes usa: "length usa = 4" and r_def: "r = record_image rs num name parent True data usa"
    and o1_def: "o1 = index_root_at name"
  shows "r ! (o1 + 8) = 0" "le_val (seg r (o1 + 20) (o1 + 22)) = 24"
    "le_val (seg r (o1 + 44) (o1 + 48)) = 48" "le_val (seg r (o1 + 48) (o1 + 52)) = 48"
proof -
  let ?H = "mft_header rs (unat num mod 65536) (align8 (used_end rs name True data)) usa"
  let ?P = "?H @ si_attr True @ fn_padded name parent"
  let ?Z = "le32 0xFFFFFFFF @ zeros (rs - used_end rs name True data)"
  have r: "r = ?P @ index_attr rs @ ?Z" by (simp add: r_def record_image_def body_attr_def)
  have l: "length ?P = o1" using usa by (simp add: o1_def index_root_at_def)
  have mid: "seg r (o1 + a) (o1 + b) = seg (index_attr rs) a b" if "b \<le> 72" for a b
  proof -
    have "seg r (o1 + a) (o1 + b) = seg (index_attr rs @ ?Z) a b"
      unfolding r l [symmetric] by (subst seg_append_right) simp_all
    then show ?thesis using that by (simp add: seg_append_left)
  qed
  show "r ! (o1 + 8) = 0" unfolding r l [symmetric]
    by (subst nth_append_length_plus) (simp add: nth_append index_attr_def res_header_def)
  show "le_val (seg r (o1 + 20) (o1 + 22)) = 24" "le_val (seg r (o1 + 44) (o1 + 48)) = 48"
    "le_val (seg r (o1 + 48) (o1 + 52)) = 48"
    by (simp_all add: mid) (simp_all add: index_attr_def res_header_def seg_def le_val_le16 le_val_le32 le_bytes_0)
qed

lemma new_index_empty: "index_list_directory (drop 24 (index_attr rs)) = Ok []"
proof -
  let ?d = "drop 24 (index_attr rs)"
  have s: "le_val (seg ?d 16 20) = 32" "le_val (seg ?d 20 24) = 48" "length ?d = 48"
    by (simp_all add: index_attr_def res_header_def seg_def le_val_le32)
  then show ?thesis
    unfolding index_list_directory_def s by (subst list_loop.simps) simp
qed

text \<open>
  C10: a directory made by \<open>build_mft_record\<close> lists no names, and no entry can ever be added to its
  resident index: for every name \<open>add_to_resident_index\<close> fails before it changes anything, because the
  index header claims no free space.
\<close>

theorem new_directory_takes_no_entries:
  assumes fits: "record_fits rs name True data" and sv: "scalar_values name"
  shows "\<exists>rec st ix. build_mft_record rs num name parent True data = Ok rec
    \<and> parse_stat rec bs = Ok st \<and> index_root st = Some ix \<and> index_list_directory ix = Ok []
    \<and> (\<forall>p c nm. insert_resident_entry rec p c nm \<in> {Err NoSpace, Err CorruptedFilesystem})"
proof -
  let ?R = "record_image rs num name parent True data (zeros 4)"
  have z: "length (zeros 4) = 4" by simp
  note hd = index_header_image [OF z refl refl, of rs num name parent data]
  note at = find_index_root_image [OF fits z, of num parent]
  have len: "length ?R = rs" "index_root_at name + 76 \<le> rs"
    using fits by (simp_all add: record_image_def record_fits_def used_end_def index_root_at_def body_attr_def)
  have "insert_resident_entry ?R p c nm \<in> {Err NoSpace, Err CorruptedFilesystem}" for p c nm
  proof -
    have a: "0 < entry_len_aligned nm" using align8_ge [of "16 + name_key_len nm"] by (simp add: entry_len_aligned_def)
    have ih: "index_root_at name + 24 + 16 + 4 = index_root_at name + 44"
      "index_root_at name + 24 + 16 + 8 = index_root_at name + 48"
      "index_root_at name + 24 + 16 + 12 = index_root_at name + 52" by simp_all
    show ?thesis
      unfolding insert_resident_entry_def at map_err.simps rbind.simps Let_def hd(1,2) ih hd(3,4) len(1)
      using a len(2) by simp
  qed
  moreover have "index_root (created_stat rs name True data) = Some (drop 24 (index_attr rs))"
    by (simp add: created_stat_def Let_def)
  ultimately show ?thesis
    using build_mft_record_image [OF fits] parse_stat_image [OF fits sv z] new_index_empty by blast
qed

theorem new_directory_takes_no_entries_witness:
  "\<forall>bs. \<exists>rec st ix. build_mft_record 1024 30 (str ''docs'') 5 True [] = Ok rec
    \<and> parse_stat rec bs = Ok st \<and> index_root st = Some ix \<and> index_list_directory ix = Ok []
    \<and> insert_resident_entry rec 30 31 (str ''a'') \<in> {Err NoSpace, Err CorruptedFilesystem}"
proof
  fix bs
  have f: "record_fits 1024 (str ''docs'') True []" "scalar_values (str ''docs'')"
    by (simp_all add: record_fits_def used_end_def body_attr_def align8_def str_def encode_utf16_def
        utf16_units_def scalar_values_def)
  show "\<exists>rec st ix. build_mft_record 1024 30 (str ''docs'') 5 True [] = Ok rec
    \<and> parse_stat rec bs = Ok st \<and> index_root st = Some ix \<and> index_list_directory ix = Ok []
    \<and> insert_resident_entry rec 30 31 (str ''a'') \<in> {Err NoSpace, Err CorruptedFilesystem}"
    using new_directory_takes_no_entries [OF f, of 30 5 bs] by blast
qed

end
