(* ===== verification/BTreeMap.thy ===== *)
theory BTreeMap
  imports Prelude "HOL-Library.List_Lexorder"
begin

text \<open>
  Rust's \<open>BTreeMap\<close> as an association list with ascending keys: iteration runs through the list. The
  contract its clients (the mount table, the file descriptor table, the device registry, the executor) rely on is the
  locale \<open>map_store\<close>, which the list operations are shown to meet. Strings compare by Unicode scalar
  values, which is the order of their UTF-8 bytes.
\<close>

type_synonym ('k, 'v) btree = "('k \<times> 'v) list"

definition bt_get :: "('k, 'v) btree \<Rightarrow> 'k \<Rightarrow> 'v option" where
  "bt_get m k = map_of m k"

fun bt_insert :: "'k::linorder \<Rightarrow> 'v \<Rightarrow> ('k, 'v) btree \<Rightarrow> ('k, 'v) btree" where
  "bt_insert k v [] = [(k, v)]"
| "bt_insert k v ((k', v') # m) =
     (if k < k' then (k, v) # (k', v') # m
      else if k = k' then (k, v) # m
      else (k', v') # bt_insert k v m)"

definition bt_remove :: "'k \<Rightarrow> ('k, 'v) btree \<Rightarrow> ('k, 'v) btree" where
  "bt_remove k m = filter (\<lambda>(k', _). k' \<noteq> k) m"

definition bt_wf :: "('k::linorder, 'v) btree \<Rightarrow> bool" where
  "bt_wf m \<longleftrightarrow> sorted_wrt (<) (map fst m)"

section \<open>The contract\<close>

locale map_store =
  fixes get :: "'m \<Rightarrow> 'k \<Rightarrow> 'v option"
    and insert :: "'k \<Rightarrow> 'v \<Rightarrow> 'm \<Rightarrow> 'm"
    and remove :: "'k \<Rightarrow> 'm \<Rightarrow> 'm"
    and empty :: 'm
    and wf :: "'m \<Rightarrow> bool"
  assumes wf_empty: "wf empty"
    and get_empty: "get empty k = None"
    and wf_insert: "wf m \<Longrightarrow> wf (insert k v m)"
    and wf_remove: "wf m \<Longrightarrow> wf (remove k m)"
    and get_insert: "wf m \<Longrightarrow> get (insert k v m) k' = (if k' = k then Some v else get m k')"
    and get_remove: "wf m \<Longrightarrow> get (remove k m) k' = (if k' = k then None else get m k')"
begin

definition keys :: "'m \<Rightarrow> 'k set" where
  "keys m = {k. get m k \<noteq> None}"

lemma keys_insert: "wf m \<Longrightarrow> keys (insert k v m) = {k} \<union> keys m"
  by (auto simp: keys_def get_insert)

lemma keys_remove: "wf m \<Longrightarrow> keys (remove k m) = keys m - {k}"
  by (auto simp: keys_def get_remove)

lemma insert_remove: "wf m \<Longrightarrow> get m k = None \<Longrightarrow> get (remove k (insert k v m)) k' = get m k'"
  by (simp add: get_insert get_remove wf_insert)

text \<open>Keys handed out in increasing order stay below the next one.\<close>

definition fresh_from :: "('k \<Rightarrow> nat) \<Rightarrow> nat \<Rightarrow> 'm \<Rightarrow> bool" where
  "fresh_from rank n m \<longleftrightarrow> wf m \<and> (\<forall>k. get m k \<noteq> None \<longrightarrow> rank k < n)"

lemma fresh_from_empty: "fresh_from rank n empty"
  by (simp add: fresh_from_def wf_empty get_empty)

lemma fresh_from_insert: "fresh_from rank n m \<Longrightarrow> rank k = n \<Longrightarrow> fresh_from rank (Suc n) (insert k v m)"
  by (auto simp: fresh_from_def wf_insert get_insert less_SucI)

lemma fresh_from_update:
  "fresh_from rank n m \<Longrightarrow> get m k \<noteq> None \<Longrightarrow> fresh_from rank n (insert k v m)"
  by (auto simp: fresh_from_def wf_insert get_insert)

lemma fresh_from_remove: "fresh_from rank n m \<Longrightarrow> fresh_from rank n (remove k m)"
  by (auto simp: fresh_from_def wf_remove get_remove)

lemma fresh_from_new: "fresh_from rank n m \<Longrightarrow> rank k = n \<Longrightarrow> get m k = None"
  by (auto simp: fresh_from_def)

end

section \<open>The sorted list meets it\<close>

lemma bt_insert_keys: "set (map fst (bt_insert k v m)) = {k} \<union> set (map fst m)"
  by (induction k v m rule: bt_insert.induct) auto

lemma bt_wf_distinct: "bt_wf m \<Longrightarrow> distinct (map fst m)"
  by (simp add: bt_wf_def strict_sorted_iff)

lemma bt_wf_insert: "bt_wf m \<Longrightarrow> bt_wf (bt_insert k v m)"
proof (induction k v m rule: bt_insert.induct)
  case (1 k v)
  then show ?case by (simp add: bt_wf_def)
next
  case (2 k v k' v' m)
  then show ?case using bt_insert_keys [of k v m] by (auto simp: bt_wf_def)
qed

lemma bt_get_simps [simp]: "bt_get [] k = None" "bt_get ((k', v) # m) k = (if k = k' then Some v else bt_get m k)"
  by (simp_all add: bt_get_def)

lemma bt_get_insert: "bt_wf m \<Longrightarrow> bt_get (bt_insert k v m) k' = (if k' = k then Some v else bt_get m k')"
  by (induction k v m rule: bt_insert.induct) (auto simp: bt_wf_def)

lemma bt_wf_remove: "bt_wf m \<Longrightarrow> bt_wf (bt_remove k m)"
  by (induction m) (auto simp: bt_wf_def bt_remove_def)

lemma bt_get_remove: "bt_get (bt_remove k m) k' = (if k' = k then None else bt_get m k')"
  by (induction m) (auto simp: bt_get_def bt_remove_def)

interpretation bt: map_store bt_get bt_insert bt_remove "[]" bt_wf
  by unfold_locales (simp_all add: bt_wf_insert bt_wf_remove bt_get_insert bt_get_remove, simp_all add: bt_wf_def bt_get_def)

lemma bt_get_mem: "bt_wf m \<Longrightarrow> bt_get m k = Some v \<longleftrightarrow> (k, v) \<in> set m"
  by (simp add: bt_wf_distinct bt_get_def)

lemma length_bt_insert:
  "bt_wf m \<Longrightarrow> length (bt_insert k v m) = (if bt_get m k = None then Suc (length m) else length m)"
proof -
  assume w: "bt_wf m"
  have c: "length m' = card (set (map fst m'))" if "bt_wf m'" for m' :: "('a, 'b) btree"
    using distinct_card [OF bt_wf_distinct [OF that]] by simp
  have "k \<in> set (map fst m) \<longleftrightarrow> bt_get m k \<noteq> None" by (auto simp: bt_get_def map_of_eq_None_iff)
  then show ?thesis
    using c [OF w] c [OF bt_wf_insert [OF w]] bt_insert_keys [of k v m] by (simp add: card_insert_if)
qed

lemma length_bt_remove: "bt_wf m \<Longrightarrow> bt_get m k \<noteq> None \<Longrightarrow> Suc (length (bt_remove k m)) = length m"
proof (induction m)
  case Nil
  then show ?case by simp
next
  case (Cons e m)
  obtain k' v where e: "e = (k', v)" by (cases e)
  have wf: "bt_wf m" and new: "\<forall>x \<in> set m. k' < fst x" using Cons.prems(1) by (auto simp: bt_wf_def e)
  show ?case
  proof (cases "k' = k")
    case True
    then have "filter (\<lambda>(x, _). x \<noteq> k) m = m" using new by (intro filter_True) auto
    then show ?thesis using True by (simp add: bt_remove_def e)
  next
    case False
    then show ?thesis using Cons.IH [OF wf] Cons.prems(2) by (simp add: bt_remove_def e)
  qed
qed

end
