(* ===== verification/Vfs.thy ===== *)
theory Vfs
  imports Hal BTreeMap
begin

text \<open>
  The virtual file system (\<^verbatim>\<open>src/lib/vfs/src\<close>): paths, the mount table, the inode-based \<open>File\<close>, and the
  \<open>Vfs\<close> manager with its file descriptors. A mounted file system is its method table over a state \<open>'w\<close>
  that all mounts share; an open file is a value \<open>'f\<close> whose \<open>read\<close> method \<open>rdr\<close> works on \<open>'w \<times> 'f\<close>.
\<close>

datatype FsError =
    NotFound | NotDir | IsDir | PermissionDenied | BadFd | InvalidPath | MountFailed | IoError | NotImplemented

definition fs_error_from_io :: "IoError \<Rightarrow> FsError" where
  "fs_error_from_io e = FsError.IoError"

section \<open>Paths\<close>

record Path =
  components :: "rstr list"
  absolute :: bool

definition path_new :: "rstr \<Rightarrow> (Path, FsError) result" where
  "path_new s =
     (if s = [] then Err InvalidPath
      else Ok \<lparr>components = filter (\<lambda>c. c \<noteq> []) (str_split 47 s), absolute = (hd s = 47)\<rparr>)"

definition path_parent :: "Path \<Rightarrow> Path option" where
  "path_parent p =
     (if components p = [] then None
      else Some \<lparr>components = butlast (components p), absolute = absolute p\<rparr>)"

definition path_filename :: "Path \<Rightarrow> rstr option" where
  "path_filename p = (if components p = [] then None else Some (last (components p)))"

text \<open>\<open>join("/")\<close>.\<close>

fun join_slash :: "rstr list \<Rightarrow> rstr" where
  "join_slash [] = []"
| "join_slash [c] = c"
| "join_slash (c # d # cs) = c @ 47 # join_slash (d # cs)"

definition path_to_string :: "Path \<Rightarrow> rstr" where
  "path_to_string p = (if absolute p then 47 # join_slash (components p) else join_slash (components p))"

section \<open>The mount table\<close>

type_synonym 'fs MountTable = "(rstr, 'fs) btree"

definition mt_mount :: "'fs MountTable \<Rightarrow> 'fs \<Rightarrow> Path \<Rightarrow> (unit, FsError) result \<times> 'fs MountTable" where
  "mt_mount mounts fs path =
     (let key = path_to_string path in
      if bt_get mounts key \<noteq> None then (Err MountFailed, mounts)
      else (Ok (), bt_insert key fs mounts))"

definition mt_unmount :: "'fs MountTable \<Rightarrow> Path \<Rightarrow> (unit, FsError) result \<times> 'fs MountTable" where
  "mt_unmount mounts path =
     (case bt_get mounts (path_to_string path) of
        None \<Rightarrow> (Err NotFound, mounts)
      | Some _ \<Rightarrow> (Ok (), bt_remove (path_to_string path) mounts))"

definition starts_with :: "rstr \<Rightarrow> rstr \<Rightarrow> bool" where
  "starts_with s p \<longleftrightarrow> take (length p) s = p"

text \<open>The loop shared by \<open>resolve\<close> and \<open>find_mount\<close>: the best match so far and its length.\<close>

fun best_mount :: "rstr \<Rightarrow> (rstr \<times> 'fs) option \<Rightarrow> nat \<Rightarrow> 'fs MountTable \<Rightarrow> (rstr \<times> 'fs) option" where
  "best_mount s best best_len [] = best"
| "best_mount s best best_len ((p, fs) # m) =
     (if starts_with s p \<and> best_len \<le> str_len p then best_mount s (Some (p, fs)) (str_len p) m
      else best_mount s best best_len m)"

definition mt_resolve :: "'fs MountTable \<Rightarrow> Path \<Rightarrow> ('fs \<times> Path, FsError) result" where
  "mt_resolve mounts path =
     (let s = path_to_string path in
      rbind (ok_or NotFound (best_mount s None 0 mounts)) (\<lambda>(p, fs).
        rbind (if str_len p < str_len s then path_new (drop (length p) s) else path_new (str ''/''))
          (\<lambda>rel. Ok (fs, rel))))"

definition mt_find_mount :: "'fs MountTable \<Rightarrow> Path \<Rightarrow> ('fs, FsError) result" where
  "mt_find_mount mounts path =
     ok_or NotFound (map_option snd (best_mount (path_to_string path) None 0 mounts))"

section \<open>Inode files\<close>

datatype InodeType = InFile | InDirectory | InSymlink | InBlockDevice | InCharDevice | InSocket

record Metadata =
  md_inode_num :: u64
  md_size :: u64
  md_typ :: InodeType
  md_permissions :: u16
  md_created :: u64
  md_modified :: u64
  md_accessed :: u64
  md_links :: u32

record DirectoryEntry =
  de_name :: rstr
  de_inode_num :: u64
  de_typ :: InodeType

text \<open>The methods of the trait \<open>Inode\<close> that \<open>File\<close> uses, over the state behind the inode.\<close>

record 'i inode_ops =
  in_metadata :: "'i \<Rightarrow> Metadata \<times> 'i"
  in_read_at :: "'i \<Rightarrow> u64 \<Rightarrow> u8 list \<Rightarrow> (nat \<times> u8 list, FsError) result \<times> 'i"
  in_write_at :: "'i \<Rightarrow> u64 \<Rightarrow> u8 list \<Rightarrow> (nat, FsError) result \<times> 'i"

text \<open>\<open>OpenFlags\<close>: the three flags that are tested; a handle is a set of them.\<close>

record OpenFlags =
  of_read :: bool
  of_write :: bool
  of_append :: bool

record 'i VfsFile =
  vf_inode :: 'i
  vf_flags :: OpenFlags
  vf_offset :: u64

definition vfile_new :: "'i \<Rightarrow> OpenFlags \<Rightarrow> 'i VfsFile" where
  "vfile_new i flags = \<lparr>vf_inode = i, vf_flags = flags, vf_offset = 0\<rparr>"

definition vfile_read ::
    "'i inode_ops \<Rightarrow> 'i VfsFile \<Rightarrow> u8 list \<Rightarrow> (nat \<times> u8 list, FsError) result \<times> 'i VfsFile" where
  "vfile_read io f buf =
     (if \<not> of_read (vf_flags f) then (Err PermissionDenied, f)
      else case in_read_at io (vf_inode f) (vf_offset f) buf of
        (Ok (n, buf'), i) \<Rightarrow> (Ok (n, buf'), f\<lparr>vf_inode := i, vf_offset := vf_offset f + of_nat n\<rparr>)
      | (Err e, i) \<Rightarrow> (Err e, f\<lparr>vf_inode := i\<rparr>)
      | (Panic, i) \<Rightarrow> (Panic, f\<lparr>vf_inode := i\<rparr>))"

definition vfile_write ::
    "'i inode_ops \<Rightarrow> 'i VfsFile \<Rightarrow> u8 list \<Rightarrow> (nat, FsError) result \<times> 'i VfsFile" where
  "vfile_write io f buf =
     (if \<not> of_write (vf_flags f) then (Err PermissionDenied, f)
      else
        let f = (if of_append (vf_flags f)
                 then case in_metadata io (vf_inode f) of (md, i) \<Rightarrow> f\<lparr>vf_inode := i, vf_offset := md_size md\<rparr>
                 else f)
        in case in_write_at io (vf_inode f) (vf_offset f) buf of
             (Ok n, i) \<Rightarrow> (Ok n, f\<lparr>vf_inode := i, vf_offset := vf_offset f + of_nat n\<rparr>)
           | (Err e, i) \<Rightarrow> (Err e, f\<lparr>vf_inode := i\<rparr>)
           | (Panic, i) \<Rightarrow> (Panic, f\<lparr>vf_inode := i\<rparr>))"

definition vfile_seek :: "'i VfsFile \<Rightarrow> u64 \<Rightarrow> 'i VfsFile" where
  "vfile_seek f pos = f\<lparr>vf_offset := pos\<rparr>"

section \<open>The manager\<close>

record ('w, 'f) Vfs =
  mount_table :: "('w, 'f) fs_ops MountTable"
  fd_table :: "(u64, 'f) btree"
  next_fd :: u64

definition vfs_new :: "('w, 'f) Vfs" where
  "vfs_new = \<lparr>mount_table = [], fd_table = [], next_fd = 0\<rparr>"

definition vfs_mount :: "('w, 'f) Vfs \<Rightarrow> ('w, 'f) fs_ops \<Rightarrow> Path \<Rightarrow> (unit, FsError) result \<times> ('w, 'f) Vfs" where
  "vfs_mount v fs mount_point =
     (case mt_mount (mount_table v) fs mount_point of (r, m) \<Rightarrow> (r, v\<lparr>mount_table := m\<rparr>))"

definition alloc_fd :: "('w, 'f) Vfs \<Rightarrow> u64 \<times> ('w, 'f) Vfs" where
  "alloc_fd v = (next_fd v, v\<lparr>next_fd := next_fd v + 1\<rparr>)"

text \<open>The flags given to \<open>open\<close> are not used. The state is the manager together with \<open>'w\<close>.\<close>

definition vfs_open :: "('w, 'f) Vfs \<Rightarrow> 'w \<Rightarrow> rstr \<Rightarrow> OpenFlags \<Rightarrow> (u64, FsError) result \<times> ('w, 'f) Vfs \<times> 'w" where
  "vfs_open v w path flags =
     sbind (path_new path, v, w) (\<lambda>p (v, w).
     sbind (mt_find_mount (mount_table v) p, v, w) (\<lambda>fs (v, w).
       case fs_open fs w (path_to_string p) of
         (r, w) \<Rightarrow>
           sbind (map_err (\<lambda>_. NotFound) r, v, w) (\<lambda>file (v, w).
             case alloc_fd v of
               (fd, v) \<Rightarrow> (Ok fd, v\<lparr>fd_table := bt_insert fd file (fd_table v)\<rparr>, w))))"

definition vfs_read ::
    "('w \<times> 'f \<Rightarrow> u8 list \<Rightarrow> (nat \<times> u8 list, IoError) result \<times> 'w \<times> 'f)
     \<Rightarrow> ('w, 'f) Vfs \<Rightarrow> 'w \<Rightarrow> u64 \<Rightarrow> u8 list \<Rightarrow> (nat \<times> u8 list, FsError) result \<times> ('w, 'f) Vfs \<times> 'w" where
  "vfs_read rdr v w fd buf =
     (case bt_get (fd_table v) fd of
        None \<Rightarrow> (Err BadFd, v, w)
      | Some file \<Rightarrow>
          (case rdr (w, file) buf of
             (r, w, file) \<Rightarrow>
               (map_err fs_error_from_io r, v\<lparr>fd_table := bt_insert fd file (fd_table v)\<rparr>, w)))"

text \<open>\<open>FileHandle::write\<close> always fails.\<close>

definition handle_write :: "'f \<Rightarrow> u8 list \<Rightarrow> (nat, IoError) result" where
  "handle_write file buf = Err IoError.Other"

definition vfs_write :: "('w, 'f) Vfs \<Rightarrow> 'w \<Rightarrow> u64 \<Rightarrow> u8 list \<Rightarrow> (nat, FsError) result \<times> ('w, 'f) Vfs \<times> 'w" where
  "vfs_write v w fd buf =
     (case bt_get (fd_table v) fd of
        None \<Rightarrow> (Err BadFd, v, w)
      | Some file \<Rightarrow> (map_err fs_error_from_io (handle_write file buf), v, w))"

definition vfs_close :: "('w, 'f) Vfs \<Rightarrow> u64 \<Rightarrow> (unit, FsError) result \<times> ('w, 'f) Vfs" where
  "vfs_close v fd =
     (case bt_get (fd_table v) fd of
        None \<Rightarrow> (Err BadFd, v)
      | Some _ \<Rightarrow> (Ok (), v\<lparr>fd_table := bt_remove fd (fd_table v)\<rparr>))"

section \<open>Paths and their strings\<close>

definition wf_components :: "rstr list \<Rightarrow> bool" where
  "wf_components cs \<longleftrightarrow> (\<forall>c \<in> set cs. c \<noteq> [] \<and> 47 \<notin> set c)"

lemma str_split_no_sep: "47 \<notin> set c \<Longrightarrow> str_split 47 c = [c]"
  by (induction c) auto

lemma str_split_append: "47 \<notin> set c \<Longrightarrow> str_split 47 (c @ 47 # s) = c # str_split 47 s"
  by (induction c) auto

lemma str_split_join: "wf_components cs \<Longrightarrow> cs \<noteq> [] \<Longrightarrow> str_split 47 (join_slash cs) = cs"
  by (induction cs rule: join_slash.induct) (auto simp: wf_components_def str_split_no_sep str_split_append)

lemma filter_wf_components: "wf_components cs \<Longrightarrow> filter (\<lambda>c. c \<noteq> []) cs = cs"
  by (auto simp: wf_components_def filter_id_conv)

lemma wf_path_new: "path_new s = Ok p \<Longrightarrow> wf_components (components p) \<and> (\<not> absolute p \<longrightarrow> components p \<noteq> [])"
proof -
  assume a: "path_new s = Ok p"
  have "components p \<noteq> []" if "hd s \<noteq> 47"
  proof (cases s)
    case Nil
    then show ?thesis using a by (simp add: path_new_def)
  next
    case (Cons c t)
    then show ?thesis using a that by (auto simp: path_new_def)
  qed
  with a show ?thesis
    by (auto simp: path_new_def wf_components_def dest: str_split_free split: if_splits)
qed

lemma join_slash_hd: "wf_components cs \<Longrightarrow> cs \<noteq> [] \<Longrightarrow> join_slash cs \<noteq> [] \<and> hd (join_slash cs) \<noteq> 47"
  by (cases cs rule: join_slash.cases) (auto simp: wf_components_def neq_Nil_conv)

lemma path_new_to_string:
  assumes "wf_components (components p)" "\<not> absolute p \<longrightarrow> components p \<noteq> []"
  shows "path_new (path_to_string p) = Ok p"
proof (cases "components p = []")
  case True
  with assms(2) show ?thesis by (simp add: path_new_def path_to_string_def)
next
  case False
  with assms join_slash_hd [of "components p"] show ?thesis
    by (simp add: path_new_def path_to_string_def str_split_join filter_wf_components)
qed

text \<open>
  Parsing the string of a parsed path gives the path back.
\<close>

theorem path_roundtrip: "path_new s = Ok p \<Longrightarrow> path_new (path_to_string p) = Ok p"
  using wf_path_new path_new_to_string by blast

theorem path_roundtrip_witness:
  "\<exists>p. path_new (str ''//usr//bin/'') = Ok p \<and> components p = [str ''usr'', str ''bin'']
     \<and> path_new (path_to_string p) = Ok p"
proof -
  let ?p = "\<lparr>components = [str ''usr'', str ''bin''], absolute = True\<rparr>"
  have "path_new (str ''//usr//bin/'') = Ok ?p" by (simp add: path_new_def str_def)
  with path_roundtrip [OF this] show ?thesis by (intro exI [of _ ?p]) simp
qed

section \<open>Choosing a mount\<close>

lemma starts_with_str_len: "starts_with s k \<Longrightarrow> starts_with s k' \<Longrightarrow> str_len k \<le> str_len k' \<longleftrightarrow> length k \<le> length k'"
proof -
  assume a: "starts_with s k" "starts_with s k'"
  have lt: "str_len x < str_len y" if "starts_with s x" "starts_with s y" "length x < length y" for x y
  proof -
    have "take (length x) y = take (length x) (take (length y) s)" using that(2) unfolding starts_with_def by simp
    also have "\<dots> = take (length x) s" using that(3) by simp
    finally have "x = take (length x) y" using that(1) unfolding starts_with_def by simp
    then have "y = x @ drop (length x) y" by (metis append_take_drop_id)
    moreover have "0 < str_len (drop (length x) y)" using that(3) by (intro str_len_pos) simp
    ultimately show ?thesis by (metis less_add_same_cancel1 str_len_append)
  qed
  have "k = k'" if "length k = length k'"
  proof -
    have "k = take (length k) s" using a(1) unfolding starts_with_def by (rule sym)
    also have "\<dots> = k'" using a(2) that unfolding starts_with_def by simp
    finally show ?thesis .
  qed
  then consider "length k < length k'" | "length k' < length k" | "k = k'" by linarith
  then show ?thesis
    by cases (use lt [OF a] lt [OF a(2,1)] in auto)
qed

lemma best_mount_None:
  "best_mount s best best_len m = None \<Longrightarrow> (best = None \<longrightarrow> best_len = 0) \<Longrightarrow>
   best = None \<and> (\<forall>e \<in> set m. \<not> starts_with s (fst e))"
proof (induction m arbitrary: best best_len)
  case Nil
  then show ?case by simp
next
  case (Cons e m)
  obtain p fs where e: "e = (p, fs)" by fastforce
  show ?case
  proof (cases "starts_with s p \<and> best_len \<le> str_len p")
    case True
    then have "best_mount s (Some (p, fs)) (str_len p) m = None" using Cons.prems(1) by (simp add: e)
    with Cons.IH [of "Some (p, fs)" "str_len p"] show ?thesis by simp
  next
    case False
    then have "best_mount s best best_len m = None" using Cons.prems(1) by (auto simp: e)
    with Cons.IH [of best best_len] Cons.prems(2) False show ?thesis by (simp add: e)
  qed
qed

lemma best_mount_Some:
  "best_mount s best best_len m = Some x \<Longrightarrow> (best = None \<longrightarrow> best_len = 0) \<Longrightarrow>
   (\<forall>y. best = Some y \<longrightarrow> starts_with s (fst y) \<and> best_len = str_len (fst y)) \<Longrightarrow>
   best_len \<le> str_len (fst x) \<and> starts_with s (fst x) \<and> (x \<in> set m \<or> best = Some x)
    \<and> (\<forall>e \<in> set m. starts_with s (fst e) \<longrightarrow> str_len (fst e) \<le> str_len (fst x))"
proof (induction m arbitrary: best best_len)
  case Nil
  then show ?case by simp
next
  case (Cons e m)
  obtain p fs where e: "e = (p, fs)" by fastforce
  show ?case
  proof (cases "starts_with s p \<and> best_len \<le> str_len p")
    case True
    then have "best_mount s (Some (p, fs)) (str_len p) m = Some x" using Cons.prems(1) by (simp add: e)
    have "str_len p \<le> str_len (fst x) \<and> starts_with s (fst x) \<and> (x \<in> set m \<or> Some (p, fs) = Some x)
        \<and> (\<forall>e \<in> set m. starts_with s (fst e) \<longrightarrow> str_len (fst e) \<le> str_len (fst x))"
      by (rule Cons.IH) (use \<open>best_mount s (Some (p, fs)) (str_len p) m = Some x\<close> True in auto)
    with True show ?thesis unfolding e by (simp only: list.set ball_simps fst_conv insert_iff option.inject) (metis le_trans)
  next
    case False
    then have "best_mount s best best_len m = Some x" using Cons.prems(1) by (auto simp: e)
    note IH = Cons.IH [OF this Cons.prems(2,3)]
    have "starts_with s p \<longrightarrow> str_len p \<le> str_len (fst x)" using False IH by linarith
    with IH show ?thesis unfolding e by (simp only: list.set ball_simps fst_conv insert_iff) blast
  qed
qed

text \<open>
  C12: \<open>find_mount\<close> returns the file system of the longest mounted path that is a prefix of the string
  of the path, and \<open>NotFound\<close> exactly when no mounted path is a prefix.
\<close>

theorem find_mount_longest_prefix:
  "case mt_find_mount mounts p of
     Ok fs \<Rightarrow> \<exists>k. (k, fs) \<in> set mounts \<and> starts_with (path_to_string p) k
        \<and> (\<forall>k' fs'. (k', fs') \<in> set mounts \<and> starts_with (path_to_string p) k' \<longrightarrow> length k' \<le> length k)
   | Err e \<Rightarrow> e = NotFound \<and> (\<forall>k fs. (k, fs) \<in> set mounts \<longrightarrow> \<not> starts_with (path_to_string p) k)
   | Panic \<Rightarrow> False"
proof (cases "best_mount (path_to_string p) None 0 mounts")
  case None
  from best_mount_None [OF None] have "\<forall>k fs. (k, fs) \<in> set mounts \<longrightarrow> \<not> starts_with (path_to_string p) k" by auto
  with None show ?thesis by (simp add: mt_find_mount_def)
next
  case (Some kf)
  obtain k fs where kf: "kf = (k, fs)" by fastforce
  have b: "starts_with (path_to_string p) k" "(k, fs) \<in> set mounts"
    "\<forall>k' fs'. (k', fs') \<in> set mounts \<and> starts_with (path_to_string p) k' \<longrightarrow> str_len k' \<le> str_len k"
    using best_mount_Some [OF Some] by (auto simp: kf)
  then have "\<forall>k' fs'. (k', fs') \<in> set mounts \<and> starts_with (path_to_string p) k' \<longrightarrow> length k' \<le> length k"
    using starts_with_str_len [of "path_to_string p"] by blast
  with b Some show ?thesis by (auto simp: mt_find_mount_def kf)
qed

theorem find_mount_longest_prefix_witness:
  "case mt_find_mount [(str ''/'', 1), (str ''/mnt'', 2 :: nat)]
       \<lparr>components = [str ''mnt'', str ''a''], absolute = True\<rparr> of
     Ok fs \<Rightarrow> fs = 2 | Err e \<Rightarrow> False | Panic \<Rightarrow> False"
  using find_mount_longest_prefix [of "[(str ''/'', 1), (str ''/mnt'', 2 :: nat)]"
      "\<lparr>components = [str ''mnt'', str ''a''], absolute = True\<rparr>"]
  by (auto simp: path_to_string_def starts_with_def str_def split: result.splits)

text \<open>
  The prefix is taken on characters and not on components: a path whose first component merely
  begins with the name of a mount point is handed to the file system mounted there.
\<close>

theorem mount_prefix_ignores_components:
  "mt_find_mount [(str ''/'', 1), (str ''/mnt'', 2 :: nat)]
     \<lparr>components = [str ''mnt2'', str ''a''], absolute = True\<rparr> = Ok 2"
  by (simp add: mt_find_mount_def path_to_string_def starts_with_def str_def str_len_def utf8_width_def)

section \<open>File descriptors\<close>

text \<open>
  The states a manager can get into, with the list of the descriptors \<open>open\<close> has returned, the last one
  first.
\<close>

inductive vfs_reach ::
    "('w \<times> 'f \<Rightarrow> u8 list \<Rightarrow> (nat \<times> u8 list, IoError) result \<times> 'w \<times> 'f) \<Rightarrow> u64 list \<Rightarrow> ('w, 'f) Vfs \<times> 'w \<Rightarrow> bool"
  for rdr where
  reach_new: "vfs_reach rdr [] (vfs_new, w)"
| reach_mount: "vfs_reach rdr fds (v, w) \<Longrightarrow> vfs_mount v fs p = (r, v') \<Longrightarrow> vfs_reach rdr fds (v', w)"
| reach_open: "vfs_reach rdr fds (v, w) \<Longrightarrow> vfs_open v w path flags = (Ok fd, v', w') \<Longrightarrow>
    vfs_reach rdr (fd # fds) (v', w')"
| reach_open_failed: "vfs_reach rdr fds (v, w) \<Longrightarrow> vfs_open v w path flags = (Err e, v', w') \<Longrightarrow>
    vfs_reach rdr fds (v', w')"
| reach_read: "vfs_reach rdr fds (v, w) \<Longrightarrow> vfs_read rdr v w fd buf = (r, v', w') \<Longrightarrow> vfs_reach rdr fds (v', w')"
| reach_write: "vfs_reach rdr fds (v, w) \<Longrightarrow> vfs_write v w fd buf = (r, v', w') \<Longrightarrow> vfs_reach rdr fds (v', w')"
| reach_close: "vfs_reach rdr fds (v, w) \<Longrightarrow> vfs_close v fd = (r, v') \<Longrightarrow> vfs_reach rdr fds (v', w)"

definition fd_inv :: "u64 list \<Rightarrow> ('w, 'f) Vfs \<Rightarrow> bool" where
  "fd_inv fds v \<longleftrightarrow> bt_wf (mount_table v) \<and> unat (next_fd v) = length fds
     \<and> bt.fresh_from unat (length fds) (fd_table v) \<and> rev (map unat fds) = [0..<length fds]"

lemma vfs_open_cases:
  assumes "vfs_open v w path flags = (r, v', w')"
  shows "(\<exists>fd file. r = Ok fd \<and> fd = next_fd v
      \<and> v' = v\<lparr>next_fd := next_fd v + 1, fd_table := bt_insert fd file (fd_table v)\<rparr>) \<or> (v' = v \<and> \<not> is_ok r)"
  using assms
  by (auto simp: vfs_open_def alloc_fd_def sbind_case map_err_case split: prod.splits result.splits)

lemma fd_inv_reach: "vfs_reach rdr fds s \<Longrightarrow> length fds < 2 ^ 64 \<Longrightarrow> fd_inv fds (fst s)"
proof (induction rule: vfs_reach.induct)
  case (reach_new w)
  then show ?case by (simp add: fd_inv_def vfs_new_def bt.fresh_from_empty bt.wf_empty)
next
  case (reach_mount fds v w fs p r v')
  then show ?case
    by (auto simp: fd_inv_def vfs_mount_def mt_mount_def Let_def bt.wf_insert split: if_splits)
next
  case (reach_open fds v w path flags fd v' w')
  then have inv: "fd_inv fds v" by simp
  obtain fl where opened: "fd = next_fd v" "v' = v\<lparr>next_fd := next_fd v + 1, fd_table := bt_insert fd fl (fd_table v)\<rparr>"
    using vfs_open_cases [OF reach_open.hyps(2)] by auto
  have n: "unat (next_fd v) = length fds" using inv by (simp add: fd_inv_def)
  then have "unat (next_fd v + 1) = Suc (length fds)"
    using reach_open.prems by (simp add: unat_word_ariths)
  with inv opened n show ?case by (simp add: fd_inv_def bt.fresh_from_insert)
next
  case (reach_open_failed fds v w path flags e v' w')
  then show ?case using vfs_open_cases [OF reach_open_failed.hyps(2)] by auto
next
  case (reach_read fds v w fd buf r v' w')
  then show ?case
    by (auto simp: fd_inv_def vfs_read_def bt.fresh_from_update split: option.splits prod.splits)
next
  case (reach_write fds v w fd buf r v' w')
  then show ?case by (auto simp: vfs_write_def split: option.splits)
next
  case (reach_close fds v w fd r v')
  then show ?case by (auto simp: fd_inv_def vfs_close_def bt.fresh_from_remove split: option.splits)
qed

text \<open>
  C13: in every state reachable with fewer than \<open>2 ^ 64\<close> successful opens, the descriptors returned so far
  are pairwise different, every open descriptor is one of them, and the next \<open>open\<close> returns a descriptor
  that is neither open nor was ever returned before.
\<close>

theorem fds_never_reused:
  assumes "vfs_reach rdr fds (v, w)" "length fds < 2 ^ 64"
  shows "distinct fds \<and> next_fd v \<notin> set fds \<and> bt_get (fd_table v) (next_fd v) = None
    \<and> (\<forall>fd. bt_get (fd_table v) fd \<noteq> None \<longrightarrow> fd \<in> set fds)
    \<and> (vfs_open v w path flags = (Ok fd, v', w') \<longrightarrow> fd = next_fd v \<and> bt_get (fd_table v') fd \<noteq> None)"
proof -
  have inv: "bt.fresh_from unat (length fds) (fd_table v)" "unat (next_fd v) = length fds"
      "rev (map unat fds) = [0..<length fds]"
    using fd_inv_reach [OF assms] by (auto simp: fd_inv_def)
  have d: "distinct (map unat fds)" using inv(3) by (metis distinct_rev distinct_upt)
  have s: "unat ` set fds = {0..<length fds}" using inv(3) by (metis atLeast_upt list.set_map set_rev set_upt)
  have mem: "fd \<in> set fds" if "unat fd < length fds" for fd
  proof -
    have "unat fd \<in> unat ` set fds" using s that by simp
    then show ?thesis by (auto simp: word_unat_eq_iff [symmetric])
  qed
  have "next_fd v \<notin> set fds" using s inv(2) by (metis atLeastLessThan_iff imageI less_irrefl)
  moreover have "bt_get (fd_table v) (next_fd v) = None" using bt.fresh_from_new [OF inv(1,2)] .
  moreover have "\<forall>fd. bt_get (fd_table v) fd \<noteq> None \<longrightarrow> fd \<in> set fds"
    using inv(1) mem by (auto simp: bt.fresh_from_def)
  moreover have "fd = next_fd v \<and> bt_get (fd_table v') fd \<noteq> None" if "vfs_open v w path flags = (Ok fd, v', w')"
    using vfs_open_cases [OF that] inv(1) by (auto simp: bt.get_insert bt.fresh_from_def)
  ultimately show ?thesis using d by (auto simp: distinct_map)
qed

definition sample_fs :: "(unit, nat) fs_ops" where
  "sample_fs = \<lparr>fs_open = (\<lambda>w path. (Ok (length path), w)), fs_exists = (\<lambda>w path. (True, w))\<rparr>"

definition sample_flags :: OpenFlags where
  "sample_flags = \<lparr>of_read = True, of_write = False, of_append = False\<rparr>"

theorem fds_never_reused_witness:
  "\<exists>v. vfs_reach (\<lambda>s buf. (Ok (0, buf), s)) [1, 0] (v :: (unit, nat) Vfs, ()) \<and> next_fd v = 2
     \<and> bt_get (fd_table v) 1 \<noteq> None \<and> bt_get (fd_table v) 2 = None"
proof -
  let ?rdr = "\<lambda>(s :: unit \<times> nat) buf :: u8 list. (Ok (0 :: nat, buf) :: (nat \<times> u8 list, IoError) result, s)"
  let ?root = "\<lparr>components = [], absolute = True\<rparr>" and ?path = "str ''/a''"
  let ?v1 = "vfs_new\<lparr>mount_table := [(str ''/'', sample_fs)]\<rparr> :: (unit, nat) Vfs"
  let ?v2 = "?v1\<lparr>fd_table := [(0, 2)], next_fd := 1\<rparr>" and ?v3 = "?v1\<lparr>fd_table := [(0, 2), (1, 2)], next_fd := 2\<rparr>"
  have m: "vfs_mount vfs_new sample_fs ?root = (Ok (), ?v1)"
    by (simp add: vfs_mount_def mt_mount_def path_to_string_def vfs_new_def str_def)
  have o2: "vfs_open ?v1 () ?path sample_flags = (Ok 0, ?v2, ())" and o3: "vfs_open ?v2 () ?path sample_flags = (Ok 1, ?v3, ())"
    by (simp_all add: vfs_open_def path_new_def mt_find_mount_def path_to_string_def starts_with_def str_def
        str_len_def utf8_width_def alloc_fd_def sample_fs_def vfs_new_def)
  have r: "vfs_reach ?rdr [1, 0] (?v3, ())"
    using reach_open [OF reach_open [OF reach_mount [OF reach_new m] o2] o3] .
  with fds_never_reused [OF r] show ?thesis by (intro exI [of _ ?v3]) auto
qed

end
