(* ===== verification/NtfsFs.thy ===== *)
theory NtfsFs
  imports NtfsRecord Vfs
begin

text \<open>
  The NTFS driver behind the file system interfaces: \<open>NtfsFsImpl\<close> and \<open>NtfsFileImpl\<close> (\<^verbatim>\<open>hal_impl.rs\<close>),
  \<open>NtfsFsAdapter\<close> and \<open>NtfsInode\<close> (\<^verbatim>\<open>vfs_adapter.rs\<close>). The driver is shared behind a mutex, so each method
  runs on the one driver state; an open file carries its own offset. What sequential readers rely on is
  the locale \<open>byte_file\<close>.
\<close>

section \<open>Files of the HAL interface\<close>

record NtfsFileImpl =
  nf_file :: NtfsFile
  nf_offset :: u64
  nf_path :: rstr
  nf_size :: u64

definition ntfs_fs_new :: "'d block_device \<Rightarrow> 'd \<Rightarrow> ('d NtfsDriver, HalFsError) result" where
  "ntfs_fs_new ops d = map_err (\<lambda>_. HalFsError.Io IoError.Other) (mount ops d 0)"

definition ntfs_fs_open ::
    "'d block_device \<Rightarrow> 'd NtfsDriver \<Rightarrow> rstr \<Rightarrow> (NtfsFileImpl, HalFsError) result \<times> 'd NtfsDriver" where
  "ntfs_fs_open ops drv path =
     (case open_path ops drv path of (r, drv) \<Rightarrow>
       sbind (map_err (\<lambda>_. HalFsError.NotFound) r, drv) (\<lambda>f drv.
         case stat ops drv f of (r, drv) \<Rightarrow>
           sbind (map_err (\<lambda>_. HalFsError.Io IoError.Other) r, drv) (\<lambda>st drv.
             if is_directory st then (Err HalFsError.NotAFile, drv)
             else (Ok \<lparr>nf_file = f, nf_offset = 0, nf_path = path, nf_size = stat_size st\<rparr>, drv))))"

text \<open>A panic inside \<open>open\<close> is not an answer; the model lets it through.\<close>

definition ntfs_fs_exists :: "'d block_device \<Rightarrow> 'd NtfsDriver \<Rightarrow> rstr \<Rightarrow> (bool, HalFsError) result \<times> 'd NtfsDriver" where
  "ntfs_fs_exists ops drv path =
     (case ntfs_fs_open ops drv path of
        (Panic, drv) \<Rightarrow> (Panic, drv)
      | (r, drv) \<Rightarrow> (Ok (is_ok r), drv))"

definition nf_read ::
    "'d block_device \<Rightarrow> 'd NtfsDriver \<times> NtfsFileImpl \<Rightarrow> u8 list
     \<Rightarrow> (nat \<times> u8 list, IoError) result \<times> 'd NtfsDriver \<times> NtfsFileImpl" where
  "nf_read ops s buf =
     (case read_file_all ops (fst s) (nf_file (snd s)) of
        (Err _, drv) \<Rightarrow> (Err IoError.Other, drv, snd s)
      | (Panic, drv) \<Rightarrow> (Panic, drv, snd s)
      | (Ok data, drv) \<Rightarrow>
          let start = unat (nf_offset (snd s));
              to_read = min (length buf) (length data - start)
          in if 0 < to_read
             then (Ok (to_read, blit buf 0 (seg data start (start + to_read))), drv,
                   (snd s)\<lparr>nf_offset := nf_offset (snd s) + of_nat to_read\<rparr>)
             else (Ok (0, buf), drv, snd s))"

definition nf_seek :: "NtfsFileImpl \<Rightarrow> SeekFrom \<Rightarrow> u64 \<times> NtfsFileImpl" where
  "nf_seek f pos =
     (let f' = (case pos of
                  Start n \<Rightarrow> f\<lparr>nf_offset := n\<rparr>
                | Current n \<Rightarrow> f\<lparr>nf_offset := nf_offset f + n\<rparr>
                | End n \<Rightarrow> f\<lparr>nf_offset := saturating_add (nf_size f) n\<rparr>)
      in (nf_offset f', f'))"

section \<open>The VFS adapter\<close>

definition adapter_exists :: "'d block_device \<Rightarrow> 'd NtfsDriver \<Rightarrow> rstr \<Rightarrow> (bool, HalFsError) result \<times> 'd NtfsDriver" where
  "adapter_exists ops drv path =
     (case open_path ops drv path of
        (Panic, drv) \<Rightarrow> (Panic, drv)
      | (r, drv) \<Rightarrow> (Ok (is_ok r), drv))"

text \<open>\<open>NtfsFsAdapter::open\<close> has the body of \<open>NtfsFsImpl::open\<close>.\<close>

definition adapter_open ::
    "'d block_device \<Rightarrow> 'd NtfsDriver \<Rightarrow> rstr \<Rightarrow> (NtfsFileImpl, HalFsError) result \<times> 'd NtfsDriver" where
  "adapter_open ops drv path = ntfs_fs_open ops drv path"

record NtfsInode =
  ni_ino :: u64
  ni_typ :: InodeType

definition inode_file :: "NtfsInode \<Rightarrow> NtfsFile" where
  "inode_file i = \<lparr>record_number = ni_ino i\<rparr>"

definition inode_kind :: "NtfsStat \<Rightarrow> InodeType" where
  "inode_kind st = (if is_directory st then InDirectory else InFile)"

text \<open>\<open>fs.stat(..).unwrap_or_default()\<close>.\<close>

definition stat_or_default ::
    "'d block_device \<Rightarrow> 'd NtfsDriver \<Rightarrow> NtfsFile \<Rightarrow> (NtfsStat, FsError) result \<times> 'd NtfsDriver" where
  "stat_or_default ops drv f =
     (case stat ops drv f of
        (Ok st, drv) \<Rightarrow> (Ok st, drv)
      | (Err _, drv) \<Rightarrow> (Ok empty_stat, drv)
      | (Panic, drv) \<Rightarrow> (Panic, drv))"

definition inode_metadata ::
    "'d block_device \<Rightarrow> 'd NtfsDriver \<Rightarrow> NtfsInode \<Rightarrow> (Metadata, FsError) result \<times> 'd NtfsDriver" where
  "inode_metadata ops drv i =
     sbind (stat_or_default ops drv (inode_file i)) (\<lambda>st drv.
       (Ok \<lparr>md_inode_num = ni_ino i, md_size = stat_size st, md_typ = inode_kind st, md_permissions = 0x1ED,
            md_created = 0, md_modified = 0, md_accessed = 0, md_links = 1\<rparr>, drv))"

definition inode_lookup ::
    "'d block_device \<Rightarrow> 'd NtfsDriver \<Rightarrow> NtfsInode \<Rightarrow> rstr \<Rightarrow> (NtfsInode, FsError) result \<times> 'd NtfsDriver" where
  "inode_lookup ops drv i name =
     (case find_in_directory ops drv (inode_file i) name of (r, drv) \<Rightarrow>
       sbind (map_err (\<lambda>_. FsError.NotFound) r, drv) (\<lambda>child drv.
         case stat ops drv \<lparr>record_number = child\<rparr> of (r, drv) \<Rightarrow>
           sbind (map_err (\<lambda>_. FsError.IoError) r, drv) (\<lambda>st drv.
             (Ok \<lparr>ni_ino = child, ni_typ = inode_kind st\<rparr>, drv))))"

definition inode_readlink :: "NtfsInode \<Rightarrow> (rstr, FsError) result" where
  "inode_readlink i = Err FsError.NotImplemented"

definition inode_read_at ::
    "'d block_device \<Rightarrow> 'd NtfsDriver \<Rightarrow> NtfsInode \<Rightarrow> u64 \<Rightarrow> u8 list
     \<Rightarrow> (nat \<times> u8 list, FsError) result \<times> 'd NtfsDriver" where
  "inode_read_at ops drv i offset buf =
     (case read_file_all ops drv (inode_file i) of (r, drv) \<Rightarrow>
       sbind (map_err (\<lambda>_. FsError.IoError) r, drv) (\<lambda>data drv.
         let start = unat offset; to_read = min (length buf) (length data - start)
         in (Ok (to_read, if 0 < to_read then blit buf 0 (seg data start (start + to_read)) else buf), drv)))"

text \<open>The offset is ignored: the whole contents are replaced.\<close>

definition inode_write_at ::
    "'d block_device \<Rightarrow> 'd NtfsDriver \<Rightarrow> NtfsInode \<Rightarrow> u64 \<Rightarrow> u8 list \<Rightarrow> (nat, FsError) result \<times> 'd NtfsDriver" where
  "inode_write_at ops drv i offset buf =
     (case write_file ops drv (inode_file i) buf of (r, drv) \<Rightarrow>
       sbind (map_err (\<lambda>_. FsError.IoError) r, drv) (\<lambda>_ drv. (Ok (length buf), drv)))"

text \<open>The loop of \<open>readdir\<close>: a listed name that is not found again is left out.\<close>

fun readdir_entries ::
    "'d block_device \<Rightarrow> 'd NtfsDriver \<Rightarrow> NtfsFile \<Rightarrow> rstr list \<Rightarrow> (DirectoryEntry list, FsError) result \<times> 'd NtfsDriver" where
  "readdir_entries ops drv dir [] = (Ok [], drv)"
| "readdir_entries ops drv dir (name # names) =
     (case find_in_directory ops drv dir name of
        (Panic, drv) \<Rightarrow> (Panic, drv)
      | (Err _, drv) \<Rightarrow> readdir_entries ops drv dir names
      | (Ok ino, drv) \<Rightarrow>
          sbind (stat_or_default ops drv \<lparr>record_number = ino\<rparr>) (\<lambda>st drv.
          sbind (readdir_entries ops drv dir names) (\<lambda>rest drv.
            (Ok (\<lparr>de_name = name, de_inode_num = ino, de_typ = inode_kind st\<rparr> # rest), drv))))"

definition inode_readdir ::
    "'d block_device \<Rightarrow> 'd NtfsDriver \<Rightarrow> NtfsInode \<Rightarrow> (DirectoryEntry list, FsError) result \<times> 'd NtfsDriver" where
  "inode_readdir ops drv i =
     (case list_directory ops drv (inode_file i) of (r, drv) \<Rightarrow>
       sbind (map_err (\<lambda>_. FsError.IoError) r, drv) (\<lambda>names drv.
         readdir_entries ops drv (inode_file i) names))"

section \<open>Sequential reading\<close>

text \<open>
  What a sequential reader expects of a file: it stands for some contents and a position, a \<open>read\<close> fills
  the buffer from the position as far as the contents go, and moves the position on. \<open>good n\<close> files can be read
  \<open>n\<close> more times.
\<close>

locale byte_file =
  fixes rdr :: "'f \<Rightarrow> u8 list \<Rightarrow> (nat \<times> u8 list, IoError) result \<times> 'f"
    and contents :: "'f \<Rightarrow> u8 list"
    and pos :: "'f \<Rightarrow> nat"
    and good :: "nat \<Rightarrow> 'f \<Rightarrow> bool"
  assumes read_window: "good (Suc n) f \<Longrightarrow>
      \<exists>f'. rdr f buf = (Ok (min (length buf) (length (contents f) - pos f),
               blit buf 0 (seg (contents f) (pos f) (pos f + min (length buf) (length (contents f) - pos f)))), f')
         \<and> good n f' \<and> (0 < n \<longrightarrow> contents f' = contents f)
         \<and> pos f' = pos f + min (length buf) (length (contents f) - pos f)"
begin

lemma read_exact_in_bounds:
  assumes "good (Suc n) f" "pos f + length buf \<le> length (contents f)"
  shows "\<exists>f'. read_exact rdr f buf = (Ok (seg (contents f) (pos f) (pos f + length buf)), f')
     \<and> (buf \<noteq> [] \<longrightarrow> good n f') \<and> pos f' = pos f + length buf"
proof (cases "buf = []")
  case True
  with assms show ?thesis by (subst read_exact.simps) (simp add: seg_def)
next
  case False
  have n: "min (length buf) (length (contents f) - pos f) = length buf" using assms(2) by simp
  obtain f' where f': "rdr f buf = (Ok (length buf, blit buf 0 (seg (contents f) (pos f) (pos f + length buf))), f')"
      "good n f'" "pos f' = pos f + length buf"
    using read_window [OF assms(1), of buf] unfolding n by blast
  have "blit buf 0 (seg (contents f) (pos f) (pos f + length buf)) = seg (contents f) (pos f) (pos f + length buf)"
    using assms(2) by (simp add: blit_def)
  with f' False assms(2) show ?thesis
    by (subst read_exact.simps) (simp add: read_exact.simps [of rdr f' "[]"])
qed

lemma read_exact_at_end:
  assumes "good (Suc n) f" "length (contents f) \<le> pos f" "buf \<noteq> []"
  shows "\<exists>f'. read_exact rdr f buf = (Err UnexpectedEof, f')"
proof -
  have n: "min (length buf) (length (contents f) - pos f) = 0" using assms(2) by simp
  obtain f' b where "rdr f buf = (Ok (0, b), f')"
    using read_window [OF assms(1), of buf] unfolding n by blast
  with assms(3) show ?thesis by (subst read_exact.simps) simp
qed

lemma read_exact_past_end:
  assumes "good (Suc (Suc n)) f" "length (contents f) < pos f + length buf" "buf \<noteq> []"
  shows "\<exists>f'. read_exact rdr f buf = (Err UnexpectedEof, f')"
proof (cases "length (contents f) \<le> pos f")
  case True
  with assms show ?thesis by (intro read_exact_at_end [of "Suc n"])
next
  case False
  define k where "k = length (contents f) - pos f"
  have m: "min (length buf) k = k" and np: "0 < k" and nb: "k < length buf"
    using assms(2) False by (auto simp: k_def)
  obtain f' b where f': "rdr f buf = (Ok (k, b), f')" "good (Suc n) f'" "contents f' = contents f" "pos f' = pos f + k"
      "b = blit buf 0 (seg (contents f) (pos f) (pos f + k))"
    using read_window [OF assms(1), of buf] unfolding k_def [symmetric] m by auto
  have "length b = length buf" using f'(5) nb by (simp add: length_blit)
  then have "take (length buf - k) (drop k b) \<noteq> []" using nb by simp
  moreover have "length (contents f') \<le> pos f'" using f'(3,4) False by (simp add: k_def)
  ultimately obtain g where "read_exact rdr f' (take (length buf - k) (drop k b)) = (Err UnexpectedEof, g)"
    using read_exact_at_end [OF f'(2)] by blast
  with f'(1) assms(3) np nb show ?thesis by (subst read_exact.simps) simp
qed

end

text \<open>
  The driver reads a file back the same however often it is asked: the contents of an open file are
  \<open>data\<close> for \<open>n\<close> reads when \<open>read_file_all\<close> gives them each time.
\<close>

fun read_again :: "'d block_device \<Rightarrow> NtfsFile \<Rightarrow> nat \<Rightarrow> 'd NtfsDriver \<Rightarrow> 'd NtfsDriver" where
  "read_again ops f 0 drv = drv"
| "read_again ops f (Suc n) drv = read_again ops f n (snd (read_file_all ops drv f))"

definition steady_file :: "'d block_device \<Rightarrow> nat \<Rightarrow> NtfsFile \<Rightarrow> u8 list \<Rightarrow> 'd NtfsDriver \<Rightarrow> bool" where
  "steady_file ops n f data drv \<longleftrightarrow> (\<forall>k < n. fst (read_file_all ops (read_again ops f k drv) f) = Ok data)"

definition file_contents :: "'d block_device \<Rightarrow> 'd NtfsDriver \<times> NtfsFileImpl \<Rightarrow> u8 list" where
  "file_contents ops s = (case read_file_all ops (fst s) (nf_file (snd s)) of (Ok data, _) \<Rightarrow> data | _ \<Rightarrow> [])"

definition readable :: "'d block_device \<Rightarrow> nat \<Rightarrow> 'd NtfsDriver \<times> NtfsFileImpl \<Rightarrow> bool" where
  "readable ops n s \<longleftrightarrow> (\<exists>data. steady_file ops n (nf_file (snd s)) data (fst s) \<and> length data < 2 ^ 64)"

lemma steady_file_step:
  assumes "steady_file ops (Suc n) f data drv"
  obtains drv' where "read_file_all ops drv f = (Ok data, drv')" "steady_file ops n f data drv'"
proof -
  obtain r drv' where r: "read_file_all ops drv f = (r, drv')" by fastforce
  have "r = Ok data" using assms [unfolded steady_file_def, rule_format, of 0] r by simp
  moreover have "steady_file ops n f data drv'"
    unfolding steady_file_def
  proof (intro allI impI)
    fix k assume "k < n"
    then show "fst (read_file_all ops (read_again ops f k drv') f) = Ok data"
      using assms [unfolded steady_file_def, rule_format, of "Suc k"] r by simp
  qed
  ultimately show ?thesis using r that by blast
qed

lemma steady_file_contents:
  "steady_file ops (Suc n) (nf_file (snd s)) data (fst s) \<Longrightarrow> file_contents ops s = data"
  by (erule steady_file_step) (simp add: file_contents_def)

lemma nf_read_window:
  assumes "readable ops (Suc n) s"
  shows "\<exists>s'. nf_read ops s buf =
      (Ok (min (length buf) (length (file_contents ops s) - unat (nf_offset (snd s))),
           blit buf 0 (seg (file_contents ops s) (unat (nf_offset (snd s)))
             (unat (nf_offset (snd s)) + min (length buf) (length (file_contents ops s) - unat (nf_offset (snd s)))))), s')
    \<and> readable ops n s' \<and> (0 < n \<longrightarrow> file_contents ops s' = file_contents ops s)
    \<and> unat (nf_offset (snd s')) = unat (nf_offset (snd s))
        + min (length buf) (length (file_contents ops s) - unat (nf_offset (snd s)))"
proof -
  obtain data where d: "steady_file ops (Suc n) (nf_file (snd s)) data (fst s)" "length data < 2 ^ 64"
    using assms unfolding readable_def by blast
  obtain drv' where drv': "read_file_all ops (fst s) (nf_file (snd s)) = (Ok data, drv')"
      "steady_file ops n (nf_file (snd s)) data drv'"
    using d(1) by (rule steady_file_step)
  define k where "k = min (length buf) (length data - unat (nf_offset (snd s)))"
  have c: "file_contents ops s = data" using d(1) by (rule steady_file_contents)
  define s' where "s' = (if 0 < k then (drv', (snd s)\<lparr>nf_offset := nf_offset (snd s) + of_nat k\<rparr>) else (drv', snd s))"
  have f': "nf_file (snd s') = nf_file (snd s)" "fst s' = drv'" by (simp_all add: s'_def)
  have "readable ops n s'" "0 < n \<longrightarrow> file_contents ops s' = data"
    using drv'(2) d(2) f' steady_file_contents [of ops "n - 1" s' data] by (auto simp: readable_def)
  moreover have "unat (nf_offset (snd s')) = unat (nf_offset (snd s)) + k"
  proof (cases "0 < k")
    case True
    then have "unat (nf_offset (snd s)) + k \<le> length data" unfolding k_def by linarith
    then have "unat (nf_offset (snd s)) + k < 2 ^ 64" "k < 2 ^ 64" using d(2) by linarith+
    with True show ?thesis by (simp add: s'_def unat_word_ariths unat_of_nat)
  qed (simp add: s'_def)
  moreover have "nf_read ops s buf = (Ok (k, blit buf 0 (seg data (unat (nf_offset (snd s))) (unat (nf_offset (snd s)) + k))), s')"
    by (simp add: nf_read_def drv'(1) Let_def k_def [symmetric] s'_def seg_def)
      (auto simp: k_def)
  ultimately show ?thesis unfolding c k_def [symmetric] by blast
qed

interpretation nf: byte_file "nf_read ops" "file_contents ops" "\<lambda>s. unat (nf_offset (snd s))" "readable ops"
  for ops
  by unfold_locales (rule nf_read_window)


lemma read_exact_nf_read:
  assumes "steady_file ops (Suc (Suc n)) (nf_file h) data drv" "length data < 2 ^ 64" "buf \<noteq> []"
  shows "fst (read_exact (nf_read ops) (drv, h) buf) =
     (if unat (nf_offset h) + length buf \<le> length data
      then Ok (seg data (unat (nf_offset h)) (unat (nf_offset h) + length buf)) else Err UnexpectedEof)"
proof -
  have r: "readable ops (Suc (Suc n)) (drv, h)" using assms(1,2) by (auto simp: readable_def)
  have c: "file_contents ops (drv, h) = data" using assms(1) by (simp add: steady_file_contents)
  show ?thesis
    using nf.read_exact_in_bounds [OF r, of buf] nf.read_exact_past_end [OF r _ assms(3)]
    unfolding c by (auto simp: not_le)
qed

context block_store
begin

lemma read_file_all_stored:
  assumes "ready (Suc n) (device drv)" "record_on_device granule burst capacity drv num" "record_size drv < 2 ^ 63"
    and "holds (device drv) (mft_record_offset drv num) b" "length b = record_size drv" "4 \<le> length b"
    and "seg b 0 4 = FILE_MAGIC" "apply_fixups b (sector_bytes drv) = Ok rec"
    and "parse_stat rec (boot drv) = Ok st" "\<not> is_directory st" "data_runs st = [Resident data]"
  obtains d' where "read_file_all ops drv \<lparr>record_number = num\<rparr> = (Ok data, drv\<lparr>device := d'\<rparr>)"
    "ready n d'" "bytes d' = bytes (device drv)"
proof -
  obtain d' where d': "read_mft_record ops drv num = (apply_fixups b (sector_bytes drv), drv\<lparr>device := d'\<rparr>)"
    "ready n d'" "bytes d' = bytes (device drv)"
    using read_mft_record_holds [OF assms(1-7)] by blast
  then have "read_file_all ops drv \<lparr>record_number = num\<rparr> = (Ok data, drv\<lparr>device := d'\<rparr>)"
    using assms(8-11) by (simp add: read_file_all_def stat_def read_data_runs_def)
  with d'(2,3) that show thesis by blast
qed

lemma stored_file_steady:
  assumes "ready n (device drv)" "record_on_device granule burst capacity drv num" "record_size drv < 2 ^ 63"
    and "holds (device drv) (mft_record_offset drv num) b" "length b = record_size drv" "4 \<le> length b"
    and "seg b 0 4 = FILE_MAGIC" "apply_fixups b (sector_bytes drv) = Ok rec"
    and "parse_stat rec (boot drv) = Ok st" "\<not> is_directory st" "data_runs st = [Resident data]"
  shows "steady_file ops n \<lparr>record_number = num\<rparr> data drv"
  unfolding steady_file_def
proof (intro allI impI)
  fix k assume "k < n"
  then have "ready (Suc k) (device drv)" using assms(1) ready_less Suc_leI by blast
  then show "fst (read_file_all ops (read_again ops \<lparr>record_number = num\<rparr> k drv) \<lparr>record_number = num\<rparr>) = Ok data"
    using assms(2-)
  proof (induction k arbitrary: drv)
    case 0
    obtain d' where "read_file_all ops drv \<lparr>record_number = num\<rparr> = (Ok data, drv\<lparr>device := d'\<rparr>)"
      using read_file_all_stored [OF 0] by blast
    then show ?case by simp
  next
    case (Suc n)
    obtain d' where d': "read_file_all ops drv \<lparr>record_number = num\<rparr> = (Ok data, drv\<lparr>device := d'\<rparr>)"
        "ready (Suc n) d'" "bytes d' = bytes (device drv)"
      using read_file_all_stored [OF Suc.prems] by blast
    have same: "record_on_device granule burst capacity (drv\<lparr>device := d'\<rparr>) num"
        "mft_record_offset (drv\<lparr>device := d'\<rparr>) num = mft_record_offset drv num"
        "sector_bytes (drv\<lparr>device := d'\<rparr>) = sector_bytes drv"
      using Suc.prems(2) by (simp_all add: record_on_device_def mft_record_offset_def sector_bytes_def)
    have "fst (read_file_all ops (read_again ops \<lparr>record_number = num\<rparr> n (drv\<lparr>device := d'\<rparr>)) \<lparr>record_number = num\<rparr>) = Ok data"
      by (rule Suc.IH [OF _ same(1)])
        (use Suc.prems d'(2,3) holds_bytes_cong [OF d'(3)] in \<open>simp_all add: same(2,3)\<close>)
    then show ?case by (simp add: d'(1))
  qed
qed

lemma written_file_steady:
  assumes "ready (Suc n) (device drv)" "record_on_device granule burst capacity drv num"
    and fits: "record_fits (record_size drv) name False data" and sv: "scalar_values name"
    and ss: "56 \<le> sector_bytes drv" "2 * sector_bytes drv \<le> record_size drv"
  shows "\<exists>rec b drv1. build_mft_record (record_size drv) num name parent False data = Ok rec
    \<and> reapply_fixups rec (sector_bytes drv) = Ok b
    \<and> drv_write ops drv (mft_record_offset drv num) b = (Ok (), drv1)
    \<and> steady_file ops n \<lparr>record_number = num\<rparr> data drv1"
proof -
  let ?rs = "record_size drv"
  obtain b usa where b: "reapply_fixups (record_image ?rs num name parent False data (zeros 4)) (sector_bytes drv) = Ok b"
    "length b = ?rs" "seg b 0 4 = FILE_MAGIC" "length usa = 4"
    "apply_fixups b (sector_bytes drv) = Ok (record_image ?rs num name parent False data usa)"
    using record_image_fixups [OF fits ss] by blast
  obtain d' where d': "drv_write ops drv (mft_record_offset drv num) b = (Ok (), drv\<lparr>device := d'\<rparr>)"
    "ready n d'" "holds d' (mft_record_offset drv num) b"
    using drv_write_holds [OF assms(1,2) b(2)] by blast
  have rs: "?rs < 2 ^ 63" "4 \<le> length b" using fits ss b(2) by (auto simp: record_fits_def)
  let ?drv1 = "drv\<lparr>device := d'\<rparr>"
  have same: "record_on_device granule burst capacity ?drv1 num" "mft_record_offset ?drv1 num = mft_record_offset drv num"
      "sector_bytes ?drv1 = sector_bytes drv"
    using assms(2) by (simp_all add: record_on_device_def mft_record_offset_def sector_bytes_def)
  have st: "\<not> is_directory (created_stat ?rs name False data)" "data_runs (created_stat ?rs name False data) = [Resident data]"
    by (simp_all add: created_stat_def empty_stat_def Let_def)
  have "steady_file ops n \<lparr>record_number = num\<rparr> data ?drv1"
    by (rule stored_file_steady [OF _ same(1) _ _ _ _ b(3) _ parse_stat_image [OF fits sv b(4)] st])
      (use b d' rs in \<open>simp_all add: same\<close>)
  with b(1) d'(1) build_mft_record_image [OF fits] show ?thesis by blast
qed

end

text \<open>
  C11: a resident file, whose data \<open>build_mft_record\<close> has just put into its record, once the driver has written
  that record to a conforming device, is read through an open handle: \<open>read_exact\<close> fills a nonempty buffer with the bytes of the
  file at the offset of the handle when they are all there, and reports the end of the file otherwise. (Files with data runs are
  not covered; their last cluster is read to its end, past the size of the file.)
\<close>

theorem written_file_read_exact:
  assumes "block_store ops granule burst capacity bytes ready" "ready 3 (device drv)"
    and "record_on_device granule burst capacity drv num"
    and "record_fits (record_size drv) name False data" "scalar_values name"
    and "56 \<le> sector_bytes drv" "2 * sector_bytes drv \<le> record_size drv"
  shows "\<exists>rec b drv1. build_mft_record (record_size drv) num name parent False data = Ok rec
    \<and> reapply_fixups rec (sector_bytes drv) = Ok b
    \<and> drv_write ops drv (mft_record_offset drv num) b = (Ok (), drv1)
    \<and> (\<forall>h buf. nf_file h = \<lparr>record_number = num\<rparr> \<and> buf \<noteq> [] \<longrightarrow>
         fst (read_exact (nf_read ops) (drv1, h) buf) =
           (if unat (nf_offset h) + length buf \<le> length data
            then Ok (seg data (unat (nf_offset h)) (unat (nf_offset h) + length buf)) else Err UnexpectedEof))"
proof -
  have "length data < 2 ^ 64" using assms(4) by (auto simp: record_fits_def used_end_def body_attr_def)
  with block_store.written_file_steady [OF assms(1) assms(2) [unfolded numeral_3_eq_3] assms(3-), of parent]
    read_exact_nf_read [where n = 0] show ?thesis by metis
qed

theorem written_file_read_exact_witness:
  "\<exists>rec b drv1. build_mft_record 1024 77 (str ''notes.txt'') 5 False [1, 2, 3] = Ok rec
    \<and> reapply_fixups rec 512 = Ok b
    \<and> drv_write (ram_disk 512 4096) sample_driver (mft_record_offset sample_driver 77) b = (Ok (), drv1)
    \<and> fst (read_exact (nf_read (ram_disk 512 4096))
         (drv1, \<lparr>nf_file = \<lparr>record_number = 77\<rparr>, nf_offset = 1, nf_path = [], nf_size = 3\<rparr>) [0, 0]) = Ok [2, 3]
    \<and> fst (read_exact (nf_read (ram_disk 512 4096))
         (drv1, \<lparr>nf_file = \<lparr>record_number = 77\<rparr>, nf_offset = 2, nf_path = [], nf_size = 3\<rparr>) [0, 0]) = Err UnexpectedEof"
proof -
  have rs: "record_size sample_driver = 1024" "sector_bytes sample_driver = 512"
    by (simp_all add: sample_driver_def sector_bytes_def)
  have "unat (mft_record_offset sample_driver 77) = 87040"
    by (simp add: mft_record_offset_def mft_byte_offset_def bytes_per_cluster_def sample_driver_def)
  then have dev: "record_on_device 1 4096 (4096 * 512) sample_driver 77"
    by (simp add: record_on_device_def rs)
  have sv: "scalar_values (str ''notes.txt'')" by (simp add: scalar_values_def str_def)
  obtain rec b drv1 where r: "build_mft_record 1024 77 (str ''notes.txt'') 5 False [1, 2, 3] = Ok rec"
      "reapply_fixups rec 512 = Ok b"
      "drv_write (ram_disk 512 4096) sample_driver (mft_record_offset sample_driver 77) b = (Ok (), drv1)"
    and h: "\<And>h buf. nf_file h = \<lparr>record_number = 77\<rparr> \<and> buf \<noteq> [] \<Longrightarrow>
       fst (read_exact (nf_read (ram_disk 512 4096)) (drv1, h) buf) =
           (if unat (nf_offset h) + length buf \<le> length [1, 2, 3 :: u8]
            then Ok (seg [1, 2, 3] (unat (nf_offset h)) (unat (nf_offset h) + length buf)) else Err UnexpectedEof)"
    using written_file_read_exact [OF block_store_ram_disk [of 512 4096] TrueI dev, of "str ''notes.txt''" "[1, 2, 3]" 5]
      record_fits_notes sv unfolding rs by (auto simp del: ram_disk_geometry)
  show ?thesis using r by (intro exI [of _ rec] exI [of _ b] exI [of _ drv1]) (simp add: h seg_def)
qed

end
