(* ===== verification/NtfsDir.thy ===== *)
theory NtfsDir
  imports NtfsRecord
begin

text \<open>
  Directory records as images: a header, attributes, and a resident index with its entries, end marker and free
  space. Listing and look-up read the entries, and \<open>insert_resident_entry\<close> appends one.
\<close>

section \<open>Index entries\<close>

definition key_length :: "u8 list \<Rightarrow> nat" where
  "key_length e = le_val (seg e 10 12)"

text \<open>An entry that states its own length, is not the end marker and holds its key.\<close>

definition index_entry :: "u8 list \<Rightarrow> bool" where
  "index_entry e \<longleftrightarrow> 16 + key_length e \<le> length e \<and> entry_length e 0 = length e \<and> \<not> entry_is_last e 0"

definition entry_name :: "u8 list \<Rightarrow> rstr option" where
  "entry_name e = entry_key_name e 0"

definition entry_names :: "u8 list list \<Rightarrow> rstr list" where
  "entry_names es = concat (map (\<lambda>e. case entry_name e of Some n \<Rightarrow> [n] | None \<Rightarrow> []) es)"

definition names_entry :: "rstr \<Rightarrow> u8 list \<Rightarrow> bool" where
  "names_entry name e \<longleftrightarrow> (case entry_name e of Some n \<Rightarrow> eq_ignore_ascii_case n name | None \<Rightarrow> False)"

definition find_entry :: "u8 list list \<Rightarrow> rstr \<Rightarrow> (u64, NtfsError) result" where
  "find_entry es name =
     (case find (names_entry name) es of
        Some e \<Rightarrow> Ok (entry_file_ref e 0 AND 0x0000FFFFFFFFFFFF)
      | None \<Rightarrow> Err FileNotFound)"

lemma seg_shift: "b \<le> length e \<Longrightarrow> seg (pre @ e @ post) (length pre + a) (length pre + b) = seg e a b"
  by (simp add: seg_append_right seg_append_left)

lemma entry_fields_shift:
  assumes "index_entry e"
  shows "entry_length (pre @ e @ post) (length pre) = length e"
    "entry_is_last (pre @ e @ post) (length pre) = False"
    "entry_file_ref (pre @ e @ post) (length pre) = entry_file_ref e 0"
    "entry_key_name (pre @ e @ post) (length pre) = entry_name e"
proof -
  have l: "16 + key_length e \<le> length e" using assms by (simp add: index_entry_def)
  note s = seg_shift [of _ e pre post]
  show "entry_length (pre @ e @ post) (length pre) = length e" "entry_is_last (pre @ e @ post) (length pre) = False"
      "entry_file_ref (pre @ e @ post) (length pre) = entry_file_ref e 0"
    using assms s [of 10 8] s [of 14 12] s [of 8 0] l
    by (simp_all add: index_entry_def entry_length_def entry_is_last_def entry_file_ref_def fld_def)
  show "entry_key_name (pre @ e @ post) (length pre) = entry_name e"
    using s [of 12 10] s [of "16 + key_length e" 16] l
    by (simp add: entry_name_def entry_key_name_def key_length_def Let_def add.assoc)
qed

lemma list_loop_entry:
  assumes "index_entry e" "stop \<le> length (pre @ e @ post)" "length pre + length e \<le> stop"
  shows "list_loop (pre @ e @ post) stop (length pre)
       = entry_names [e] @ list_loop (pre @ e @ post) stop (length pre + length e)"
proof -
  have l: "16 \<le> length e" using assms(1) by (simp add: index_entry_def)
  show ?thesis
    using l assms(2,3) entry_fields_shift [OF assms(1), of pre post]
    by (subst list_loop.simps) (auto simp: entry_names_def Let_def split: option.splits)
qed

lemma list_loop_marker:
  assumes "entry_is_last m 0" "length m = 16"
  shows "list_loop (pre @ m @ post) stop (length pre) = []"
    and "find_loop (pre @ m @ post) name stop (length pre) = Err FileNotFound"
  using assms seg_shift [of 14 m pre post 12]
  by (subst list_loop.simps, simp add: entry_is_last_def fld_def)
    (subst find_loop.simps, use assms seg_shift [of 14 m pre post 12] in \<open>simp add: entry_is_last_def fld_def\<close>)

lemma list_loop_entries:
  assumes "\<forall>e \<in> set es. index_entry e" "entry_is_last m 0" "length m = 16"
    and "stop = length pre + length (concat es) + 16"
  shows "list_loop (pre @ concat es @ m @ post) stop (length pre) = entry_names es"
  using assms(1,4)
proof (induction es arbitrary: pre)
  case Nil
  then show ?case using list_loop_marker(1) [OF assms(2,3)] by (simp add: entry_names_def)
next
  case (Cons e es)
  have "list_loop (pre @ e @ concat es @ m @ post) stop (length pre)
      = entry_names [e] @ list_loop ((pre @ e) @ concat es @ m @ post) stop (length (pre @ e))"
    using Cons.prems assms(3) by (subst list_loop_entry) auto
  also have "list_loop ((pre @ e) @ concat es @ m @ post) stop (length (pre @ e)) = entry_names es"
    using Cons.prems by (intro Cons.IH) auto
  finally show ?case by (simp add: entry_names_def)
qed

lemma find_loop_entry:
  assumes "index_entry e" "stop \<le> length (pre @ e @ post)" "length pre + length e \<le> stop"
  shows "find_loop (pre @ e @ post) name stop (length pre)
       = (if names_entry name e then Ok (entry_file_ref e 0 AND 0x0000FFFFFFFFFFFF)
          else find_loop (pre @ e @ post) name stop (length pre + length e))"
proof -
  have l: "16 \<le> length e" using assms(1) by (simp add: index_entry_def)
  show ?thesis
    using l assms(2,3) entry_fields_shift [OF assms(1), of pre post]
    by (subst find_loop.simps) (auto simp: names_entry_def split: option.splits)
qed

lemma find_loop_entries:
  assumes "\<forall>e \<in> set es. index_entry e" "entry_is_last m 0" "length m = 16"
    and "stop = length pre + length (concat es) + 16"
  shows "find_loop (pre @ concat es @ m @ post) name stop (length pre) = find_entry es name"
  using assms(1,4)
proof (induction es arbitrary: pre)
  case Nil
  then show ?case using list_loop_marker(2) [OF assms(2,3)] by (simp add: find_entry_def)
next
  case (Cons e es)
  have "find_loop (pre @ e @ concat es @ m @ post) name stop (length pre)
      = (if names_entry name e then Ok (entry_file_ref e 0 AND 0x0000FFFFFFFFFFFF)
         else find_loop ((pre @ e) @ concat es @ m @ post) name stop (length (pre @ e)))"
    using Cons.prems assms(3) by (subst find_loop_entry) auto
  also have "find_loop ((pre @ e) @ concat es @ m @ post) name stop (length (pre @ e)) = find_entry es name"
    using Cons.prems by (intro Cons.IH) auto
  finally show ?case by (simp add: find_entry_def)
qed

section \<open>The entry of a new file\<close>

definition new_entry :: "u64 \<Rightarrow> u64 \<Rightarrow> rstr \<Rightarrow> u8 list" where
  "new_entry child parent name =
     (let n = length (encode_utf16 name) in
      le64 child @ le16 (entry_len_aligned name) @ le16 (name_key_len name) @ zeros 4
       @ le64 parent @ (zeros 48 @ le32 0x10 @ zeros 4) @ [of_nat n, 1] @ units_le name
       @ zeros (entry_len_aligned name - (82 + 2 * n)))"

lemma entry_len_ge: "82 + 2 * length (encode_utf16 name) \<le> entry_len_aligned name"
  using align8_ge [of "16 + name_key_len name"] by (simp add: entry_len_aligned_def name_key_len_def)

lemma entry_len_bound: "length (encode_utf16 name) \<le> 255 \<Longrightarrow> entry_len_aligned name < 600"
  using align8_less [of "16 + name_key_len name"] by (simp add: entry_len_aligned_def name_key_len_def)

lemma build_index_entry_new: "build_index_entry child parent name = Ok (new_entry child parent name)"
proof -
  let ?n = "length (encode_utf16 name)"
  let ?us = "[(0 :: nat, 8 :: nat, le64 child), (8, 10, le16 (entry_len_aligned name)), (10, 12, le16 (name_key_len name)),
        (12, 14, le16 0), (14, 16, le16 0), (16, 24, le64 parent), (24, 72, zeros 48), (72, 76, le32 0x10),
        (76, 80, zeros 4), (80, 81, [of_nat ?n]), (81, 82, [1]), (82, 82 + 2 * ?n, units_le name)]"
  let ?b = "concat (map (snd \<circ> snd) ?us)"
  have l: "length ?b = 82 + 2 * ?n" by simp
  have "build_index_entry child parent name = Ok (blit (zeros (entry_len_aligned name)) 0 ?b)"
    unfolding build_index_entry_def Let_def
    by (subst copies_r_contiguous [where a = 0]) (use entry_len_ge [of name] l in simp_all)
  also have "blit (zeros (entry_len_aligned name)) 0 ?b = ?b @ zeros (entry_len_aligned name - (82 + 2 * ?n))"
    using blit_zero_tail [of "[]" 0 ?b "entry_len_aligned name"] entry_len_ge [of name] l by simp
  also have "\<dots> = new_entry child parent name"
    by (simp add: new_entry_def Let_def le_bytes_0 zeros_append_zeros)
  finally show ?thesis .
qed

lemma new_entry_fields:
  shows "length (new_entry child parent name) = entry_len_aligned name"
    and "seg (new_entry child parent name) 0 8 = le64 child"
    and "seg (new_entry child parent name) 8 10 = le16 (entry_len_aligned name)"
    and "seg (new_entry child parent name) 10 12 = le16 (name_key_len name)"
    and "seg (new_entry child parent name) 12 14 = zeros 2"
  using entry_len_ge [of name] by (simp_all add: new_entry_def Let_def seg_def zeros_def)

lemma new_entry_ok:
  assumes "length (encode_utf16 name) \<le> 255"
  shows "index_entry (new_entry child parent name)"
    and "entry_file_ref (new_entry child parent name) 0 = child"
proof -
  have "name_key_len name < 65536" "entry_len_aligned name < 65536" "16 + name_key_len name \<le> entry_len_aligned name"
    using assms entry_len_bound [OF assms] entry_len_ge [of name] by (simp_all add: name_key_len_def)
  then show "index_entry (new_entry child parent name)"
    by (simp add: index_entry_def key_length_def entry_length_def entry_is_last_def fld_def new_entry_fields buf_simps le_val_zeros)
  show "entry_file_ref (new_entry child parent name) 0 = child"
    by (simp add: entry_file_ref_def fld_def new_entry_fields buf_simps)
qed

lemma new_entry_name:
  assumes "length (encode_utf16 name) \<le> 255" "scalar_values name" "name \<noteq> []"
  shows "entry_name (new_entry child parent name) = Some (shown_name name)"
proof -
  let ?n = "length (encode_utf16 name)" and ?e = "new_entry child parent name"
  let ?key = "le64 parent @ (zeros 48 @ le32 0x10 @ zeros 4) @ [of_nat ?n, 1] @ units_le name"
  have k: "name_key_len name = 66 + 2 * ?n" "name_key_len name < 65536" using assms(1) by (simp_all add: name_key_len_def)
  have "encode_utf16 name \<noteq> []" using assms(3) by (cases name) (auto simp: encode_utf16_def utf16_units_def)
  then have "2 \<le> 2 * ?n" by (cases "encode_utf16 name") auto
  then have p: "parse_name_and_parent (?key @ []) 0x42 = Some (shown_name name, parent)"
    using parse_name_of_key [OF assms(2,1), of "[]" "zeros 48 @ le32 0x10 @ zeros 4" parent] by simp
  have e: "?e = (le64 child @ le16 (entry_len_aligned name) @ le16 (name_key_len name) @ zeros 4) @ ?key
      @ zeros (entry_len_aligned name - (82 + 2 * ?n))" by (simp add: new_entry_def Let_def)
  have "seg ?e 16 (16 + name_key_len name) = ?key" unfolding e by (rule seg_append_mid) (simp_all add: k)
  moreover have "16 + name_key_len name \<le> length ?e" using entry_len_ge [of name] by (simp add: new_entry_fields k)
  ultimately show ?thesis
    using p k by (simp add: entry_name_def entry_key_name_def new_entry_fields buf_simps parse_filename_from_key_def)
qed

section \<open>Directory records\<close>

text \<open>
  The parts of a record with a resident index: \<open>im_head\<close> up to the first attribute, the attributes before and after
  the index, the header of the index attribute up to its value, and of the value the 16 bytes of the index root, the
  allocated size, the rest of the index header, the entries, the end marker and the free space.
\<close>

record dir_image =
  im_head :: "u8 list"
  im_before :: "u8 list list"
  im_attr :: "u8 list"
  im_root :: "u8 list"
  im_alloc :: nat
  im_flags :: "u8 list"
  im_entries :: "u8 list list"
  im_mark :: "u8 list"
  im_slack :: "u8 list"
  im_after :: "u8 list list"
  im_tail :: "u8 list"

definition im_total :: "dir_image \<Rightarrow> nat" where
  "im_total im = 12 + length (im_flags im) + length (concat (im_entries im)) + 16"

definition im_index :: "dir_image \<Rightarrow> u8 list" where
  "im_index im = im_root im @ le32 (12 + length (im_flags im)) @ le32 (im_total im) @ le32 (im_alloc im)
     @ im_flags im @ concat (im_entries im) @ im_mark im @ im_slack im"

definition im_bytes :: "dir_image \<Rightarrow> u8 list" where
  "im_bytes im = im_head im @ concat (im_before im) @ (im_attr im @ im_index im) @ concat (im_after im)
     @ le32 0xFFFFFFFF @ im_tail im"

definition attr_code :: "u8 list \<Rightarrow> nat" where
  "attr_code a = le_val (seg a 0 4)"

definition wf_attr :: "u8 list \<Rightarrow> bool" where
  "wf_attr a \<longleftrightarrow> 9 \<le> length a \<and> le_val (seg a 4 8) = length a \<and> attribute_type (attr_code a) \<noteq> None"

definition wf_image :: "dir_image \<Rightarrow> bool" where
  "wf_image im \<longleftrightarrow>
     28 \<le> length (im_head im) \<and> le_val (seg (im_head im) 20 22) = length (im_head im)
     \<and> (\<forall>a \<in> set (im_before im) \<union> set (im_after im). wf_attr a \<and> attr_code a \<noteq> 0x90)
     \<and> 24 \<le> length (im_attr im) \<and> wf_attr (im_attr im @ im_index im) \<and> attr_code (im_attr im) = 0x90
     \<and> im_attr im ! 8 = 0 \<and> le_val (seg (im_attr im) 20 22) = length (im_attr im)
     \<and> length (im_root im) = 16 \<and> im_alloc im < 2 ^ 32 \<and> 4 \<le> length (im_flags im) \<and> im_total im < 2 ^ 32
     \<and> (\<forall>e \<in> set (im_entries im). index_entry e) \<and> length (im_mark im) = 16 \<and> entry_is_last (im_mark im) 0"

lemma length_im_index:
  "wf_image im \<Longrightarrow> length (im_index im) = 16 + im_total im + length (im_slack im)"
  by (simp add: im_index_def im_total_def wf_image_def)

lemma index_header_fields:
  assumes "wf_image im"
  shows "le_val (seg (im_index im) 16 20) = 12 + length (im_flags im)"
    "le_val (seg (im_index im) 20 24) = im_total im" "le_val (seg (im_index im) 24 28) = im_alloc im"
proof -
  have "length (im_root im) = 16" "im_total im < 2 ^ 32" "im_alloc im < 2 ^ 32" "12 + length (im_flags im) < 2 ^ 32"
    using assms by (auto simp: wf_image_def im_total_def)
  then show "le_val (seg (im_index im) 16 20) = 12 + length (im_flags im)"
    "le_val (seg (im_index im) 20 24) = im_total im" "le_val (seg (im_index im) 24 28) = im_alloc im"
    by (simp_all add: im_index_def seg_def le_val_le32)
qed

text \<open>What listing and look-up make of the index of an image.\<close>

lemma image_index_read:
  assumes wf: "wf_image im"
  shows "index_list_directory (im_index im) = Ok (entry_names (im_entries im))"
    and "index_find_in_directory (im_index im) name = find_entry (im_entries im) name"
proof -
  let ?pre = "im_root im @ le32 (12 + length (im_flags im)) @ le32 (im_total im) @ le32 (im_alloc im) @ im_flags im"
  have d: "im_index im = ?pre @ concat (im_entries im) @ im_mark im @ im_slack im" by (simp add: im_index_def)
  have f: "\<forall>e \<in> set (im_entries im). index_entry e" "entry_is_last (im_mark im) 0" "length (im_mark im) = 16"
    "length (im_root im) = 16" using wf by (simp_all add: wf_image_def)
  have o: "16 + (12 + length (im_flags im)) = length ?pre" "16 + im_total im = length ?pre + length (concat (im_entries im)) + 16"
    using f(4) by (simp_all add: im_total_def)
  have n: "\<not> length (im_index im) < 32" using length_im_index [OF wf] by (simp add: im_total_def)
  show "index_list_directory (im_index im) = Ok (entry_names (im_entries im))"
    unfolding index_list_directory_def index_header_fields [OF wf] o(1) if_not_P [OF n]
    unfolding d using list_loop_entries [OF f(1-3) o(2)] by simp
  show "index_find_in_directory (im_index im) name = find_entry (im_entries im) name"
    unfolding index_find_in_directory_def index_header_fields [OF wf] o(1) if_not_P [OF n]
    unfolding d using find_loop_entries [OF f(1-3) o(2)] by simp
qed

section \<open>Walking the attributes\<close>

lemma attr_fields_shift:
  assumes "wf_attr a"
  shows "le_val (seg (pre @ a @ post) (length pre) (length pre + 4)) = attr_code a"
    "le_val (seg (pre @ a @ post) (length pre + 4) (length pre + 8)) = length a"
  using assms seg_shift [of 4 a pre post 0] seg_shift [of 8 a pre post 4]
  by (auto simp: wf_attr_def attr_code_def attribute_type_def)

lemma wf_attr_code: "wf_attr a \<Longrightarrow> attr_code a \<noteq> 0xFFFFFFFF"
  by (auto simp: wf_attr_def attribute_type_def)

lemma attribute_offset_attr:
  assumes "wf_attr a"
  shows "attribute_offset_loop (pre @ a @ post) ty (length pre)
       = (if attr_code a = ty then Ok (length pre) else attribute_offset_loop (pre @ a @ post) ty (length pre + length a))"
  using assms attr_fields_shift [OF assms, of pre post] wf_attr_code [OF assms]
  by (subst attribute_offset_loop.simps) (auto simp: Let_def wf_attr_def)

lemma attribute_offset_attrs:
  assumes "\<forall>a \<in> set as. wf_attr a \<and> attr_code a \<noteq> ty"
  shows "attribute_offset_loop (pre @ concat as @ post) ty (length pre)
       = attribute_offset_loop (pre @ concat as @ post) ty (length pre + length (concat as))"
  using assms
proof (induction as arbitrary: pre)
  case Nil
  then show ?case by simp
next
  case (Cons a as)
  then have "attribute_offset_loop (pre @ a @ concat as @ post) ty (length pre)
      = attribute_offset_loop ((pre @ a) @ concat as @ post) ty (length (pre @ a))"
    by (subst attribute_offset_attr) auto
  then show ?case using Cons.IH [of "pre @ a"] Cons.prems by (simp add: add.assoc)
qed

definition im_index_at :: "dir_image \<Rightarrow> nat" where
  "im_index_at im = length (im_head im) + length (concat (im_before im))"

lemma attr_code_append: "4 \<le> length a \<Longrightarrow> attr_code (a @ b) = attr_code a"
  by (simp add: attr_code_def seg_append_left)

lemma image_index_found:
  assumes wf: "wf_image im"
  shows "find_attribute_offset (im_bytes im) 0x90 = Ok (im_index_at im)"
proof -
  let ?i = "im_attr im @ im_index im" and ?post = "concat (im_after im) @ le32 0xFFFFFFFF @ im_tail im"
  have f: "28 \<le> length (im_head im)" "le_val (seg (im_head im) 20 22) = length (im_head im)"
    "\<forall>a \<in> set (im_before im). wf_attr a \<and> attr_code a \<noteq> 0x90" "wf_attr ?i" "attr_code ?i = 0x90"
    using wf by (simp_all add: wf_image_def attr_code_append)
  have "attribute_offset_loop (im_bytes im) 0x90 (length (im_head im)) = attribute_offset_loop (im_bytes im) 0x90 (im_index_at im)"
    using attribute_offset_attrs [OF f(3), of "im_head im" "?i @ ?post"] by (simp add: im_bytes_def im_index_at_def)
  also have "\<dots> = Ok (im_index_at im)"
    using attribute_offset_attr [OF f(4), of "im_head im @ concat (im_before im)" ?post "0x90"] f(5)
    by (simp add: im_bytes_def im_index_at_def)
  finally show ?thesis
    using f(1,2) by (simp add: find_attribute_offset_def im_bytes_def seg_append_left)
qed

section \<open>Insertion\<close>

lemma blit_mid:
  assumes "k + length ys \<le> length B" "a = length A + k"
  shows "blit (A @ B @ C) a ys = A @ blit B k ys @ C"
  using assms by (simp add: blit_def)

definition im_used :: "nat \<Rightarrow> u8 list \<Rightarrow> u8 list" where
  "im_used n head = blit head 24 (le32 (le_val (seg head 24 28) + n))"

definition im_add :: "u64 \<Rightarrow> u64 \<Rightarrow> rstr \<Rightarrow> dir_image \<Rightarrow> dir_image" where
  "im_add parent child name im =
     im\<lparr>im_head := im_used (entry_len_aligned name) (im_head im),
        im_entries := im_entries im @ [new_entry child parent name],
        im_slack := drop (entry_len_aligned name) (im_slack im)\<rparr>"

definition im_room :: "dir_image \<Rightarrow> rstr \<Rightarrow> bool" where
  "im_room im name \<longleftrightarrow> entry_len_aligned name \<le> length (im_slack im) \<and> im_total im + entry_len_aligned name \<le> im_alloc im"

lemma im_total_add: "im_total (im_add parent child name im) = im_total im + entry_len_aligned name"
  by (simp add: im_total_def im_add_def new_entry_fields)

lemma length_im_index_add:
  assumes "im_room im name"
  shows "length (im_index (im_add parent child name im)) = length (im_index im)"
  using assms by (simp add: im_index_def im_add_def new_entry_fields im_room_def)

lemma im_used_head:
  assumes "28 \<le> length head"
  shows "length (im_used n head) = length head" "seg (im_used n head) 20 22 = seg head 20 22"
  using assms by (simp_all add: im_used_def length_blit seg_blit_disjoint)

lemma wf_image_add:
  assumes wf: "wf_image im" and room: "im_room im name" and len: "length (encode_utf16 name) \<le> 255"
  shows "wf_image (im_add parent child name im)"
proof -
  let ?im = "im_add parent child name im"
  have "24 \<le> length (im_attr im)" using wf by (simp add: wf_image_def)
  then have "seg (im_attr im @ d) 4 8 = seg (im_attr im) 4 8" "attr_code (im_attr im @ d) = attr_code (im_attr im)" for d
    by (simp_all add: seg_append_left attr_code_append)
  then have "wf_attr (im_attr im @ im_index ?im) = wf_attr (im_attr im @ im_index im)"
    unfolding wf_attr_def using length_im_index_add [OF room, of parent child] by simp
  moreover have "im_total ?im < 2 ^ 32" using wf room unfolding im_total_add by (simp add: wf_image_def im_room_def)
  ultimately show ?thesis
    using wf im_used_head [of "im_head im"] new_entry_ok(1) [OF len]
    by (auto simp: wf_image_def im_add_def)
qed

text \<open>The moves of \<open>insert_resident_entry\<close> on the bytes of an image.\<close>

lemma insert_moves:
  assumes X: "length X = ih + 4" "28 \<le> length H" and n: "length e = n" "n \<le> length slack" and m: "length m = 16"
    and r: "r = H @ X' @ le32 t @ Y @ (m @ slack) @ Z" "X = H @ X'" and em: "em = length X + 4 + length Y"
  shows "rbind (copy_within r em (em + 16) (em + n)) (\<lambda>record.
         rbind (copy_r record em (em + n) e) (\<lambda>record.
         rbind (copy_r record (ih + 4) (ih + 8) (le32 t')) (\<lambda>record.
         rbind (rd32 record 24) (\<lambda>u. copy_r record 24 28 (le32 (u + n))))))
      = (Ok (im_used n H @ X' @ le32 t' @ Y @ e @ m @ drop n slack @ Z) :: (u8 list, NtfsError) result)"
proof -
  let ?P = "X @ le32 t @ Y"
  have r1: "r = ?P @ (m @ slack) @ Z" using r by simp
  have "seg r em (em + 16) = m" unfolding r1 using seg_shift [of 16 "m @ slack" ?P Z 0] m em by (simp add: seg_append_left seg_all add.assoc)
  then have c1: "copy_within r em (em + 16) (em + n) = Ok (blit r (em + n) m)"
    using n m em by (simp add: copy_within_def slice_r_def copy_r_def r1)
  have b1: "blit r (em + n) m = ?P @ blit (m @ slack) n m @ Z" unfolding r1 by (rule blit_mid) (use n m em in simp_all)
  have b2: "blit (?P @ blit (m @ slack) n m @ Z) em e = ?P @ blit (blit (m @ slack) n m) 0 e @ Z"
    by (rule blit_mid) (use n m em in \<open>simp_all add: length_blit\<close>)
  have "blit (blit (m @ slack) n m) 0 e = e @ m @ drop n slack"
    using n m by (simp add: blit_def)
  with b2 have c2: "copy_r (?P @ blit (m @ slack) n m @ Z) em (em + n) e = (Ok (?P @ (e @ m @ drop n slack) @ Z) :: (u8 list, NtfsError) result)"
    using n m em by (subst copy_r_Ok) (simp_all add: length_blit)
  have "blit (X @ le32 t @ (Y @ (e @ m @ drop n slack) @ Z)) (ih + 4) (le32 t') = X @ blit (le32 t) 0 (le32 t') @ (Y @ (e @ m @ drop n slack) @ Z)"
    by (rule blit_mid) (use X in simp_all)
  then have c3: "copy_r (?P @ (e @ m @ drop n slack) @ Z) (ih + 4) (ih + 8) (le32 t')
      = (Ok (X @ le32 t' @ Y @ (e @ m @ drop n slack) @ Z) :: (u8 list, NtfsError) result)"
    using X by (subst copy_r_Ok) (simp_all add: blit_def)
  let ?r = "H @ X' @ le32 t' @ Y @ (e @ m @ drop n slack) @ Z"
  have c4: "rd32 ?r 24 = (Ok (le_val (seg H 24 28)) :: (nat, NtfsError) result)"
    using X(2) by (simp add: rd_Ok seg_append_left)
  have "blit ?r 24 ys = blit H 24 ys @ X' @ le32 t' @ Y @ (e @ m @ drop n slack) @ Z" if "length ys = 4" for ys
    using X(2) that by (simp add: blit_def)
  then have c5: "copy_r ?r 24 28 (le32 (u + n)) = (Ok (blit H 24 (le32 (u + n)) @ X' @ le32 t' @ Y @ (e @ m @ drop n slack) @ Z) :: (u8 list, NtfsError) result)" for u
    using X(2) by (subst copy_r_Ok) simp_all
  show ?thesis
    unfolding c1 rbind.simps b1 c2 c3 unfolding r(2) append_assoc
    using c4 c5 by (simp add: im_used_def)
qed

lemma insert_resident_entry_image:
  assumes wf: "wf_image im" and room: "im_room im name" and len: "length (encode_utf16 name) \<le> 255"
  shows "insert_resident_entry (im_bytes im) parent child name = Ok (im_bytes (im_add parent child name im))"
proof -
  let ?A = "im_index_at im" and ?n = "entry_len_aligned name" and ?e = "new_entry child parent name"
  let ?P = "im_head im @ concat (im_before im)" and ?Z = "concat (im_after im) @ le32 0xFFFFFFFF @ im_tail im"
  let ?ih = "?A + length (im_attr im) + 16"
  have f: "28 \<le> length (im_head im)" "24 \<le> length (im_attr im)" "im_attr im ! 8 = 0" "length (im_root im) = 16"
    "le_val (seg (im_attr im) 20 22) = length (im_attr im)" "length (im_mark im) = 16" "im_total im < 2 ^ 32"
    using wf by (simp_all add: wf_image_def)
  have r: "im_bytes im = ?P @ (im_attr im @ im_index im) @ ?Z" "length ?P = ?A" by (simp_all add: im_bytes_def im_index_at_def)
  have L: "length (im_bytes im) = ?ih + im_total im + length (im_slack im) + length ?Z"
    unfolding r(1) using length_im_index [OF wf] by (simp add: im_index_at_def)
  have sA: "seg (im_bytes im) (?A + 20) (?A + 22) = seg (im_attr im) 20 22"
    unfolding r(1) r(2) [symmetric] using seg_shift [of 22 "im_attr im @ im_index im" ?P ?Z 20] f(2) by (simp add: seg_append_left)
  have s8: "im_bytes im ! (?A + 8) = 0"
    unfolding r(1) r(2) [symmetric] using f(2,3) by (simp add: nth_append)
  have sI: "seg (im_bytes im) (?A + length (im_attr im) + a) (?A + length (im_attr im) + b) = seg (im_index im) a b" if "b \<le> 28" for a b
    using seg_shift [of b "im_index im" "?P @ im_attr im" ?Z a] that length_im_index [OF wf]
    by (simp add: r(1) im_index_at_def im_total_def add.assoc)
  have hd: "le_val (seg (im_bytes im) (?ih + 4) (?ih + 8)) = im_total im" "le_val (seg (im_bytes im) (?ih + 8) (?ih + 12)) = im_alloc im"
    using sI [of 24 20] sI [of 28 24] index_header_fields [OF wf] by (simp_all add: add.assoc)
  have em: "?ih + im_total im - 16 = length (?P @ im_attr im @ im_root im @ le32 (12 + length (im_flags im))) + 4
      + length (le32 (im_alloc im) @ im_flags im @ concat (im_entries im))"
    using f(4) by (simp add: im_index_at_def im_total_def)
  have t: "28 \<le> im_total im" "?ih + im_total im - 16 + 16 = ?ih + im_total im" by (simp_all add: im_total_def)
  have "insert_resident_entry (im_bytes im) parent child name =
      rbind (copy_within (im_bytes im) (?ih + im_total im - 16) (?ih + im_total im - 16 + 16) (?ih + im_total im - 16 + ?n)) (\<lambda>record.
      rbind (copy_r record (?ih + im_total im - 16) (?ih + im_total im - 16 + ?n) ?e) (\<lambda>record.
      rbind (copy_r record (?ih + 4) (?ih + 8) (le32 (im_total im + ?n))) (\<lambda>record.
      rbind (rd32 record 24) (\<lambda>u. copy_r record 24 28 (le32 (u + ?n))))))"
    unfolding insert_resident_entry_def image_index_found [OF wf] map_err.simps rbind.simps Let_def s8 sA f(5) hd t(2)
      build_index_entry_new L
    using f(2) room t(1) by (simp add: im_room_def)
  also have "\<dots> = Ok (im_used ?n (im_head im) @ (concat (im_before im) @ im_attr im @ im_root im @ le32 (12 + length (im_flags im)))
      @ le32 (im_total im + ?n) @ (le32 (im_alloc im) @ im_flags im @ concat (im_entries im)) @ ?e @ im_mark im
      @ drop ?n (im_slack im) @ ?Z)"
    by (rule insert_moves [where t = "im_total im" and X = "?P @ im_attr im @ im_root im @ le32 (12 + length (im_flags im))"])
      (use f room em in \<open>simp_all add: new_entry_fields im_room_def im_bytes_def im_index_def im_index_at_def\<close>)
  also have "\<dots> = Ok (im_bytes (im_add parent child name im))"
    unfolding im_bytes_def im_index_def im_total_add by (simp add: im_add_def)
  finally show ?thesis .
qed

section \<open>Looking up after an insertion\<close>

lemma find_entry_append:
  "find_entry (es @ [e]) name =
     (if \<exists>x \<in> set es. names_entry name x then find_entry es name
      else if names_entry name e then Ok (entry_file_ref e 0 AND 0x0000FFFFFFFFFFFF) else Err FileNotFound)"
proof -
  have "find P (es @ [e]) = (if \<exists>x \<in> set es. P x then find P es else if P e then Some e else None)" for P
    by (induction es) auto
  then show ?thesis by (auto simp: find_entry_def find_None_iff split: option.splits)
qed

definition plain_name :: "rstr \<Rightarrow> bool" where
  "plain_name name \<longleftrightarrow> name \<noteq> [] \<and> length name \<le> 255 \<and> (\<forall>c \<in> set name. 0 < c \<and> c < 128)"

lemma plain_nameD:
  assumes "plain_name name"
  shows "length (encode_utf16 name) \<le> 255" "scalar_values name" "name \<noteq> []" "shown_name name = name" "str_len name \<le> 255"
proof -
  have a: "\<forall>c \<in> set name. 0 < c \<and> c < 128" "name \<noteq> []" "length name \<le> 255" using assms by (auto simp: plain_name_def)
  then show "length (encode_utf16 name) \<le> 255" by (simp add: encode_utf16_ascii)
  show "scalar_values name" using a by (auto simp: scalar_values_def)
  show "name \<noteq> []" "shown_name name = name" using a by (simp_all add: shown_name_ascii)
  have "str_len s = length s" if "\<forall>c \<in> set s. c < 128" for s
    using that by (induction s) (auto simp: str_len_def utf8_width_def)
  then show "str_len name \<le> 255" using a by simp
qed

lemma find_in_added:
  assumes wf: "wf_image im" and room: "im_room im name" and pn: "plain_name name"
  shows "index_list_directory (im_index (im_add parent child name im)) = Ok (entry_names (im_entries im) @ [name])"
    and "index_find_in_directory (im_index (im_add parent child name im)) other =
      (if is_ok (index_find_in_directory (im_index im) other) then index_find_in_directory (im_index im) other
       else if eq_ignore_ascii_case name other then Ok (child AND 0x0000FFFFFFFFFFFF) else Err FileNotFound)"
proof -
  note p = plain_nameD [OF pn]
  note read = image_index_read [OF wf_image_add [OF wf room p(1), of parent child]]
  have e: "entry_name (new_entry child parent name) = Some name" using new_entry_name [OF p(1-3)] p(4) by simp
  show "index_list_directory (im_index (im_add parent child name im)) = Ok (entry_names (im_entries im) @ [name])"
    using read(1) e by (simp add: im_add_def entry_names_def)
  have "is_ok (find_entry (im_entries im) other) \<longleftrightarrow> (\<exists>x \<in> set (im_entries im). names_entry other x)"
    using find_None_iff [of "names_entry other" "im_entries im"] by (auto simp: find_entry_def split: option.splits)
  then show "index_find_in_directory (im_index (im_add parent child name im)) other =
      (if is_ok (index_find_in_directory (im_index im) other) then index_find_in_directory (im_index im) other
       else if eq_ignore_ascii_case name other then Ok (child AND 0x0000FFFFFFFFFFFF) else Err FileNotFound)"
    unfolding read(2) image_index_read(2) [OF wf] using e new_entry_ok(2) [OF p(1)]
    by (simp add: im_add_def find_entry_append names_entry_def)
qed

section \<open>Statistics of a directory record\<close>

definition attr_stat :: "BootSector \<Rightarrow> u8 list \<Rightarrow> NtfsStat \<Rightarrow> (NtfsStat, NtfsError) result" where
  "attr_stat bs a st = stat_attribute bs (the (attribute_type (attr_code a))) a (a ! 8 = 0) st"

lemma stat_loop_wf_attr:
  assumes "wf_attr a"
  shows "stat_loop (pre @ a @ post) bs (length pre) st
       = rbind (attr_stat bs a st) (stat_loop (pre @ a @ post) bs (length pre + length a))"
proof -
  have "length pre + 8 < length (pre @ a @ post)" "(pre @ a @ post) ! (length pre + 8) = a ! 8" "0 < length a"
    using assms by (auto simp: wf_attr_def nth_append)
  moreover have "seg (pre @ a @ post) (length pre) (length pre + length a) = a" using seg_append_mid [of "length pre" pre _ a post] by simp
  ultimately have "next_attribute (pre @ a @ post) (length pre)
      = Ok (Some (the (attribute_type (attr_code a)), a, a ! 8 = 0, length pre + length a))"
    using assms attr_fields_shift [OF assms, of pre post] wf_attr_code [OF assms]
    by (auto simp: next_attribute_def Let_def index_r_def wf_attr_def)
  then show ?thesis by (subst stat_loop.simps) (simp add: attr_stat_def)
qed

lemma stat_loop_attrs:
  assumes "\<forall>a \<in> set as. wf_attr a"
  shows "stat_loop (pre @ concat as @ post) bs (length pre) st
       = rbind (rfold (attr_stat bs) as st) (stat_loop (pre @ concat as @ post) bs (length pre + length (concat as)))"
  using assms
proof (induction as arbitrary: pre st)
  case Nil
  then show ?case by simp
next
  case (Cons a as)
  have "stat_loop (pre @ a @ concat as @ post) bs (length pre) st
      = rbind (attr_stat bs a st) (stat_loop ((pre @ a) @ concat as @ post) bs (length (pre @ a)))"
    using Cons.prems by (subst stat_loop_wf_attr) auto
  also have "\<dots> = rbind (attr_stat bs a st) (\<lambda>st. rbind (rfold (attr_stat bs) as st)
      (stat_loop ((pre @ a) @ concat as @ post) bs (length (pre @ a) + length (concat as))))"
    using Cons.IH [of "pre @ a"] Cons.prems by (intro arg_cong2 [where f = rbind] ext) simp_all
  finally show ?case by (simp add: rbind_assoc add.assoc)
qed

text \<open>No other attribute looks at the index root.\<close>

fun set_index :: "u8 list \<Rightarrow> (NtfsStat, NtfsError) result \<Rightarrow> (NtfsStat, NtfsError) result" where
  "set_index d (Ok st) = Ok (st\<lparr>index_root := Some d\<rparr>)"
| "set_index d (Err e) = Err e"
| "set_index d Panic = Panic"

lemma rbind_case: "rbind m f = (case m of Ok a \<Rightarrow> f a | Err e \<Rightarrow> Err e | Panic \<Rightarrow> Panic)"
  by (cases m) auto

lemma attr_stat_index:
  assumes "wf_attr a" "attr_code a \<noteq> 0x90"
  shows "attr_stat bs a (st\<lparr>index_root := Some d\<rparr>) = set_index d (attr_stat bs a st)"
proof -
  have "the (attribute_type (attr_code a)) \<noteq> AtIndexRoot"
    using assms by (auto simp: wf_attr_def attribute_type_def split: if_splits)
  then show ?thesis
    by (cases "the (attribute_type (attr_code a))")
      (auto simp: attr_stat_def stat_attribute_def stat_data_def add_data_stream_def parse_filename_def Let_def rbind_case drop_r_def
        split: option.splits result.splits)
qed

lemma rfold_attr_stat_index:
  assumes "\<forall>a \<in> set as. wf_attr a \<and> attr_code a \<noteq> 0x90"
  shows "rfold (attr_stat bs) as (st\<lparr>index_root := Some d\<rparr>) = set_index d (rfold (attr_stat bs) as st)"
  using assms
proof (induction as arbitrary: st)
  case Nil
  then show ?case by simp
next
  case (Cons a as)
  then show ?case by (cases "attr_stat bs a st") (auto simp: attr_stat_index)
qed

definition im_stat :: "BootSector \<Rightarrow> dir_image \<Rightarrow> (NtfsStat, NtfsError) result" where
  "im_stat bs im = rbind (rfold (attr_stat bs) (im_before im) empty_stat)
     (\<lambda>st. rfold (attr_stat bs) (im_after im) (st\<lparr>is_directory := True\<rparr>))"

lemma attr_stat_directory:
  assumes "attr_stat bs a st = Ok st'" "is_directory st"
  shows "is_directory st'"
  using assms by (cases "the (attribute_type (attr_code a))")
    (auto simp: attr_stat_def stat_attribute_def stat_data_def add_data_stream_def parse_filename_def Let_def rbind_case drop_r_def
      split: option.splits result.splits if_splits prod.splits)

lemma im_stat_directory:
  assumes "im_stat bs im = Ok st"
  shows "is_directory st"
proof -
  have "is_directory st'" if "rfold (attr_stat bs) as s = Ok st'" "is_directory s" for as s st'
    using that by (induction as arbitrary: s) (auto simp: res_simps dest: attr_stat_directory)
  then show ?thesis using assms by (fastforce simp: im_stat_def res_simps)
qed

lemma parse_stat_image_dir:
  assumes wf: "wf_image im"
  shows "parse_stat (im_bytes im) bs = set_index (im_index im) (im_stat bs im)"
proof -
  let ?i = "im_attr im @ im_index im" and ?e = "le32 0xFFFFFFFF @ im_tail im"
  let ?P = "im_head im @ concat (im_before im)"
  have f: "28 \<le> length (im_head im)" "le_val (seg (im_head im) 20 22) = length (im_head im)"
    "\<forall>a \<in> set (im_before im). wf_attr a" "\<forall>a \<in> set (im_after im). wf_attr a \<and> attr_code a \<noteq> 0x90" "\<forall>a \<in> set (im_after im). wf_attr a"
    "wf_attr ?i" "attr_code ?i = 0x90" "24 \<le> length (im_attr im)" "im_attr im ! 8 = 0"
    "le_val (seg (im_attr im) 20 22) = length (im_attr im)"
    using wf by (simp_all add: wf_image_def attr_code_append)
  have r: "im_bytes im = im_head im @ concat (im_before im) @ (?i @ concat (im_after im) @ ?e)"
    "im_bytes im = ?P @ ?i @ (concat (im_after im) @ ?e)"
    "im_bytes im = (?P @ ?i) @ concat (im_after im) @ ?e"
    "im_bytes im = (?P @ ?i @ concat (im_after im)) @ le32 0xFFFFFFFF @ im_tail im"
    by (simp_all add: im_bytes_def)
  have "im_index im \<noteq> []" using wf by (auto simp: im_index_def wf_image_def)
  then have i: "attr_stat bs ?i st = Ok (st\<lparr>is_directory := True, index_root := Some (im_index im)\<rparr>)" for st
    using f(7-10) by (simp add: attr_stat_def attribute_type_def stat_attribute_def Let_def rd_Ok seg_append_left nth_append)
  have l1: "stat_loop (im_bytes im) bs (length (im_head im)) st
      = rbind (rfold (attr_stat bs) (im_before im) st) (stat_loop (im_bytes im) bs (length ?P))" for st
    using stat_loop_attrs [OF f(3), of "im_head im" "?i @ concat (im_after im) @ ?e"] unfolding r(1) by simp
  have l2: "stat_loop (im_bytes im) bs (length ?P) st
      = stat_loop (im_bytes im) bs (length (?P @ ?i)) (st\<lparr>is_directory := True, index_root := Some (im_index im)\<rparr>)" for st
    using stat_loop_wf_attr [OF f(6), of ?P "concat (im_after im) @ ?e" bs st] i [of st] unfolding r(2) by (simp add: add.assoc)
  have l3: "stat_loop (im_bytes im) bs (length (?P @ ?i)) st
      = rbind (rfold (attr_stat bs) (im_after im) st) (stat_loop (im_bytes im) bs (length (?P @ ?i @ concat (im_after im))))" for st
    using stat_loop_attrs [OF f(5), of "?P @ ?i" ?e] unfolding r(3) by (simp add: add.assoc)
  have l4: "stat_loop (im_bytes im) bs (length (?P @ ?i @ concat (im_after im))) st = Ok st" for st
    unfolding r(4) by (rule stat_loop_end) simp
  have l4': "stat_loop (im_bytes im) bs (length (?P @ ?i @ concat (im_after im))) = Ok" by (rule ext) (rule l4)
  have ok: "rbind m Ok = m" for m :: "(NtfsStat, NtfsError) result" by (cases m) auto
  have l: "stat_loop (im_bytes im) bs (length ?P)
      = (\<lambda>st. rfold (attr_stat bs) (im_after im) ((st\<lparr>is_directory := True\<rparr>)\<lparr>index_root := Some (im_index im)\<rparr>))"
    by (rule ext) (simp only: l2 l3 l4' ok)
  have "rd16 (im_bytes im) 20 = (Ok (length (im_head im)) :: (nat, NtfsError) result)"
    using f(1,2) by (simp add: rd_Ok im_bytes_def seg_append_left)
  then have "parse_stat (im_bytes im) bs = rbind (rfold (attr_stat bs) (im_before im) empty_stat)
      (\<lambda>st. rfold (attr_stat bs) (im_after im) ((st\<lparr>is_directory := True\<rparr>)\<lparr>index_root := Some (im_index im)\<rparr>))"
    by (simp only: parse_stat_def rbind.simps l1 l)
  also have "\<dots> = set_index (im_index im) (im_stat bs im)"
    unfolding rfold_attr_stat_index [OF f(4)] im_stat_def by (cases "rfold (attr_stat bs) (im_before im) empty_stat") simp_all
  finally show ?thesis .
qed

section \<open>Protected images\<close>

text \<open>The update sequence array lies in the header of the record.\<close>

definition im_protected :: "nat \<Rightarrow> dir_image \<Rightarrow> bool" where
  "im_protected ss im \<longleftrightarrow> good_layout (im_bytes im) ss
     \<and> usa_offset (im_bytes im) + 2 * usa_count (im_bytes im) \<le> length (im_head im) \<and> seg (im_head im) 0 4 = FILE_MAGIC"

lemma im_bytes_head: "im_bytes (im\<lparr>im_head := h\<rparr>) = h @ drop (length (im_head im)) (im_bytes im)"
  by (simp add: im_bytes_def im_index_def im_total_def)

lemma wf_image_head:
  "wf_image im \<Longrightarrow> length h = length (im_head im) \<Longrightarrow> seg h 20 22 = seg (im_head im) 20 22 \<Longrightarrow> wf_image (im\<lparr>im_head := h\<rparr>)"
  by (simp add: wf_image_def im_index_def im_total_def)

lemma im_protected_cong:
  assumes "im_protected ss im" "length (im_bytes im') = length (im_bytes im)" "length (im_head im') = length (im_head im)"
    and "\<And>p. p < 8 \<Longrightarrow> im_head im' ! p = im_head im ! p"
  shows "im_protected ss im'"
proof -
  have p: "good_layout (im_bytes im) ss" "usa_offset (im_bytes im) + 2 * usa_count (im_bytes im) \<le> length (im_head im)"
    "seg (im_head im) 0 4 = FILE_MAGIC" using assms(1) by (simp_all add: im_protected_def)
  have l: "8 \<le> length (im_head im)" using p(1,2) by (simp add: good_layout_def fixup_layout_def)
  have "im_bytes im' ! q = im_bytes im ! q" if "q < 8" for q
    using assms(3) assms(4) [OF that] that l by (simp add: im_bytes_def nth_append)
  note t = good_layout_transfer [OF p(1) assms(2) this]
  have "seg (im_head im') 0 4 = seg (im_head im) 0 4" using assms(3,4) by (intro seg_cong) auto
  with p t assms(3) show ?thesis by (simp add: im_protected_def)
qed

lemma im_protected_add:
  assumes "im_protected ss im" "wf_image im" "im_room im name"
  shows "im_protected ss (im_add parent child name im)"
proof (rule im_protected_cong [OF assms(1)])
  have h: "28 \<le> length (im_head im)" using assms(2) by (simp add: wf_image_def)
  show "length (im_head (im_add parent child name im)) = length (im_head im)"
    using im_used_head [OF h] by (simp add: im_add_def)
  then show "length (im_bytes (im_add parent child name im)) = length (im_bytes im)"
    using length_im_index_add [OF assms(3), of parent child] by (simp add: im_bytes_def) (simp add: im_add_def)
  show "im_head (im_add parent child name im) ! p = im_head im ! p" if "p < 8" for p
    using h that by (simp add: im_add_def im_used_def nth_blit)
qed

lemma image_fixups:
  assumes wf: "wf_image im" and pr: "im_protected ss im"
  obtains b h where "reapply_fixups (im_bytes im) ss = Ok b" "length b = length (im_bytes im)" "seg b 0 4 = FILE_MAGIC"
    "apply_fixups b ss = Ok (im_bytes (im\<lparr>im_head := h\<rparr>))" "wf_image (im\<lparr>im_head := h\<rparr>)" "im_protected ss (im\<lparr>im_head := h\<rparr>)"
    "length (im_bytes (im\<lparr>im_head := h\<rparr>)) = length (im_bytes im)"
proof -
  let ?r = "im_bytes im" and ?u = "usa_offset (im_bytes im)" and ?n = "usa_count (im_bytes im)" and ?H = "im_head im"
  have p: "good_layout ?r ss" "?u + 2 * ?n \<le> length ?H" "seg ?H 0 4 = FILE_MAGIC" "48 \<le> ?u" "1 \<le> ?n"
    using pr by (auto simp: im_protected_def good_layout_def fixup_layout_def)
  have L: "length ?H \<le> length ?r" by (simp add: im_bytes_def)
  obtain b c where bc: "reapply_fixups ?r ss = Ok b" "length b = length ?r" "\<forall>p < 8. b ! p = ?r ! p"
      "apply_fixups b ss = Ok c" "length c = length ?r"
      "\<forall>p < length ?r. p < ?u + 2 \<or> ?u + 2 * ?n \<le> p \<longrightarrow> c ! p = ?r ! p"
    using reapply_apply_round_trip [OF p(1)] by blast
  define v where "v = seg c (?u + 2) (?u + 2 + (2 * ?n - 2))"
  have n: "?u + 2 + (2 * ?n - 2) = ?u + 2 * ?n" using p(5) by simp
  have "c = blit ?r (?u + 2) v" unfolding v_def
    by (rule agree_outside_blit [OF bc(5)]) (use bc(6) p(2,5) L n in auto)
  moreover have lv: "length v = 2 * ?n - 2" using bc(5) p(2) L by (simp add: v_def)
  ultimately have c: "c = im_bytes (im\<lparr>im_head := blit ?H (?u + 2) v\<rparr>)"
    using p(2,5) unfolding im_bytes_head by (simp add: blit_def im_bytes_def)
  have h: "length (blit ?H (?u + 2) v) = length ?H" "seg (blit ?H (?u + 2) v) 20 22 = seg ?H 20 22"
    using lv p(2,4,5) by (simp_all add: length_blit seg_blit_disjoint)
  have "seg b 0 4 = seg ?r 0 4" using bc(2,3) by (intro seg_cong) auto
  also have "\<dots> = FILE_MAGIC" using p(2-4) by (simp add: im_bytes_def seg_append_left)
  finally have m: "seg b 0 4 = FILE_MAGIC" .
  have "blit ?H (?u + 2) v ! q = ?H ! q" if "q < 8" for q using that lv p(2,4,5) by (simp add: nth_blit)
  moreover have lc: "length (im_bytes (im\<lparr>im_head := blit ?H (?u + 2) v\<rparr>)) = length ?r" using bc(5) c by simp
  ultimately have "im_protected ss (im\<lparr>im_head := blit ?H (?u + 2) v\<rparr>)"
    using h(1) by (intro im_protected_cong [OF pr]) simp_all
  with that [OF bc(1,2) m] bc(4) c wf_image_head [OF wf h] lc show thesis by simp
qed

end
