(* ===== verification/NtfsCreate.thy ===== *)
theory NtfsCreate
  imports NtfsDir
begin

text \<open>
  \<open>create_file\<close> as a whole, on a device that keeps the block contract: the free record it finds, the record it
  builds, the entry it adds to the directory, and what look-up, listing and \<open>stat\<close> return afterwards.
\<close>

section \<open>Records on the device\<close>

lemma driver_device [simp]:
  "mft_record_offset (drv\<lparr>device := d\<rparr>) k = mft_record_offset drv k"
  "sector_bytes (drv\<lparr>device := d\<rparr>) = sector_bytes drv"
  "record_on_device g b c (drv\<lparr>device := d\<rparr>) k = record_on_device g b c drv k"
  by (simp_all add: mft_record_offset_def sector_bytes_def record_on_device_def)

lemma driver_fields: "device (drv\<lparr>device := d\<rparr>) = d" "record_size (drv\<lparr>device := d\<rparr>) = record_size drv"
  by simp_all

definition record_bytes :: "nat \<Rightarrow> ('d \<Rightarrow> nat \<Rightarrow> u8) \<Rightarrow> 'd NtfsDriver \<Rightarrow> u64 \<Rightarrow> u8 list" where
  "record_bytes granule bytes drv k =
     map (\<lambda>i. bytes (device drv) (unat (mft_record_offset drv k) * granule + i)) [0..<record_size drv]"

lemma length_record_bytes [simp]: "length (record_bytes g bytes drv k) = record_size drv"
  by (simp add: record_bytes_def)

text \<open>The first \<open>N\<close> records of the MFT lie on the device, without wrap-around of their addresses.\<close>

definition mft_fits :: "nat \<Rightarrow> nat \<Rightarrow> nat \<Rightarrow> 'd NtfsDriver \<Rightarrow> nat \<Rightarrow> bool" where
  "mft_fits granule burst capacity drv N \<longleftrightarrow> record_size drv \<le> burst
     \<and> (unat (mft_byte_offset (boot drv)) + N * record_size drv) * granule \<le> capacity
     \<and> unat (mft_byte_offset (boot drv)) + N * record_size drv < 2 ^ 64"

text \<open>The record is a directory whose bytes, with the fixups undone, are the image.\<close>

definition dir_record :: "nat \<Rightarrow> ('d \<Rightarrow> nat \<Rightarrow> u8) \<Rightarrow> 'd NtfsDriver \<Rightarrow> u64 \<Rightarrow> dir_image \<Rightarrow> bool" where
  "dir_record granule bytes drv k im \<longleftrightarrow>
     seg (record_bytes granule bytes drv k) 0 4 = FILE_MAGIC
     \<and> apply_fixups (record_bytes granule bytes drv k) (sector_bytes drv) = Ok (im_bytes im)
     \<and> length (im_bytes im) = record_size drv \<and> wf_image im \<and> im_protected (sector_bytes drv) im
     \<and> is_ok (im_stat (boot drv) im)"

text \<open>\<open>num\<close> is the first record from 16 on that is not in use.\<close>

definition record_in_use :: "nat \<Rightarrow> ('d \<Rightarrow> nat \<Rightarrow> u8) \<Rightarrow> 'd NtfsDriver \<Rightarrow> nat \<Rightarrow> bool" where
  "record_in_use granule bytes drv k \<longleftrightarrow> seg (record_bytes granule bytes drv (of_nat k)) 0 4 \<in> {FILE_MAGIC, BAAD_MAGIC}"

definition first_free :: "nat \<Rightarrow> ('d \<Rightarrow> nat \<Rightarrow> u8) \<Rightarrow> 'd NtfsDriver \<Rightarrow> nat \<Rightarrow> bool" where
  "first_free granule bytes drv num \<longleftrightarrow> 16 \<le> num \<and> num < 100000 \<and> \<not> record_in_use granule bytes drv num
     \<and> (\<forall>k \<in> {16..<num}. record_in_use granule bytes drv k)"

lemma mft_fits_device [simp]: "mft_fits g b c (drv\<lparr>device := d\<rparr>) N = mft_fits g b c drv N"
  by (simp add: mft_fits_def)

lemma mft_fits_offset:
  assumes "mft_fits granule burst capacity drv N" "unat k < N" "record_size drv < 2 ^ 63"
  shows "unat (mft_record_offset drv k) = unat (mft_byte_offset (boot drv)) + unat k * record_size drv"
proof -
  let ?b = "unat (mft_byte_offset (boot drv))"
  have "unat k * record_size drv \<le> N * record_size drv" using assms(2) by (intro mult_le_mono1) simp
  moreover have "?b + N * record_size drv < 2 ^ 64" using assms(1) by (simp add: mft_fits_def)
  ultimately have l: "?b + unat k * record_size drv < 2 ^ 64" by linarith
  have "unat (k * of_nat (record_size drv)) = unat k * record_size drv"
    using l assms(3) by (simp add: unat_word_ariths unat_of_nat)
  then show ?thesis using l by (simp add: mft_record_offset_def unat_word_ariths)
qed

lemma mft_fits_on_device:
  assumes "mft_fits granule burst capacity drv N" "unat k < N" "record_size drv < 2 ^ 63" "0 < granule"
  shows "record_on_device granule burst capacity drv k"
proof -
  let ?b = "unat (mft_byte_offset (boot drv))" and ?rs = "record_size drv"
  have "?b + unat k * ?rs + ?rs \<le> ?b + N * ?rs"
    using mult_le_mono1 [of "Suc (unat k)" N ?rs] assms(2) by simp
  then have "(?b + unat k * ?rs + ?rs) * granule \<le> (?b + N * ?rs) * granule" by (rule mult_le_mono1)
  also have "\<dots> \<le> capacity" using assms(1) by (simp add: mft_fits_def)
  finally have "(?b + unat k * ?rs + ?rs) * granule \<le> capacity" .
  moreover have "?rs \<le> ?rs * granule" using assms(4) by simp
  ultimately have "(?b + unat k * ?rs) * granule + ?rs \<le> capacity" unfolding add_mult_distrib by linarith
  then show ?thesis using assms(1) by (simp add: record_on_device_def mft_fits_offset [OF assms(1-3)] mft_fits_def)
qed

lemma mft_fits_apart:
  assumes "mft_fits granule burst capacity drv N" "unat k < N" "unat j < N" "record_size drv < 2 ^ 63" "k \<noteq> j"
  shows "unat (mft_record_offset drv k) + record_size drv \<le> unat (mft_record_offset drv j)
    \<or> unat (mft_record_offset drv j) + record_size drv \<le> unat (mft_record_offset drv k)"
proof -
  have "unat k < unat j \<or> unat j < unat k" using assms(5) by (metis linorder_neqE word_less_nat_alt)
  then have "Suc (unat k) * record_size drv \<le> unat j * record_size drv \<or> Suc (unat j) * record_size drv \<le> unat k * record_size drv"
    by (metis Suc_leI mult_le_mono1)
  then show ?thesis unfolding mft_fits_offset [OF assms(1,2,4)] mft_fits_offset [OF assms(1,3,4)] by auto
qed

lemma word_and_48: "unat (w :: u64) < 2 ^ 48 \<Longrightarrow> w AND 0x0000FFFFFFFFFFFF = w"
proof -
  assume a: "unat w < 2 ^ 48"
  have "w AND 0x0000FFFFFFFFFFFF = take_bit 48 w" by (simp add: take_bit_eq_mask mask_eq_exp_minus_1)
  also have "\<dots> = w" using a by (intro word_unat_eq_iff [THEN iffD2]) (simp add: unsigned_take_bit_eq take_bit_nat_eq_self)
  finally show ?thesis .
qed

context block_store
begin

abbreviation rec_at :: "'d NtfsDriver \<Rightarrow> u64 \<Rightarrow> u8 list" where
  "rec_at \<equiv> record_bytes granule bytes"

lemma rec_at_holds: "holds (device drv) (mft_record_offset drv k) b \<Longrightarrow> length b = record_size drv \<Longrightarrow> rec_at drv k = b"
  by (auto simp: holds_def record_bytes_def intro: nth_equalityI)

lemma holds_rec_at: "holds (device drv) (mft_record_offset drv k) (rec_at drv k)"
  by (simp add: holds_def record_bytes_def)

lemma rec_at_cong: "bytes d = bytes (device drv) \<Longrightarrow> rec_at (drv\<lparr>device := d\<rparr>) k = rec_at drv k"
  by (simp add: record_bytes_def)

lemma dir_record_cong:
  "bytes d = bytes (device drv) \<Longrightarrow> dir_record granule bytes (drv\<lparr>device := d\<rparr>) k im = dir_record granule bytes drv k im"
  by (simp add: dir_record_def rec_at_cong)

lemma read_record:
  assumes "ready (Suc n) (device drv)" "record_on_device granule burst capacity drv k" "record_size drv < 2 ^ 63"
    and "4 \<le> record_size drv" "seg (rec_at drv k) 0 4 = FILE_MAGIC"
  obtains d' where "read_mft_record ops drv k = (apply_fixups (rec_at drv k) (sector_bytes drv), drv\<lparr>device := d'\<rparr>)"
    "ready n d'" "bytes d' = bytes (device drv)"
  by (rule read_mft_record_holds [OF assms(1-3) holds_rec_at]) (use assms(4,5) that in simp_all)

lemma write_record:
  assumes "ready (Suc n) (device drv)" "mft_fits granule burst capacity drv N" "unat k < N" "record_size drv < 2 ^ 63"
    and "length b = record_size drv"
  obtains d' where "drv_write ops drv (mft_record_offset drv k) b = (Ok (), drv\<lparr>device := d'\<rparr>)" "ready n d'"
    "rec_at (drv\<lparr>device := d'\<rparr>) k = b" "\<And>j. j \<noteq> k \<Longrightarrow> unat j < N \<Longrightarrow> rec_at (drv\<lparr>device := d'\<rparr>) j = rec_at drv j"
proof -
  have on: "length b \<le> burst" "unat (mft_record_offset drv k) * granule + length b \<le> capacity"
    using mft_fits_on_device [OF assms(2-4) granule_pos] assms(5) by (simp_all add: record_on_device_def)
  obtain d' where d': "write_blocks ops (device drv) (mft_record_offset drv k) b = (Ok (), d')" "ready n d'"
      "holds d' (mft_record_offset drv k) b" "kept (mft_record_offset drv k) (length b) (device drv) d'"
    by (rule write_holds [OF assms(1) on])
  let ?drv = "drv\<lparr>device := d'\<rparr>"
  have "rec_at ?drv k = b" by (rule rec_at_holds) (use d'(3) assms(5) in simp_all)
  moreover have "rec_at ?drv j = rec_at drv j" if "j \<noteq> k" "unat j < N" for j
  proof (rule rec_at_holds)
    have "holds d' (mft_record_offset drv j) (rec_at drv j)"
      by (rule holds_kept [OF holds_rec_at d'(4)]) (use mft_fits_apart [OF assms(2) that(2) assms(3,4) that(1)] assms(5) in simp)
    then show "holds (device ?drv) (mft_record_offset ?drv j) (rec_at drv j)" by simp
  qed simp
  ultimately show thesis using that d'(1,2) by (simp add: drv_write_def)
qed

section \<open>Directories on the device\<close>

lemma dir_recordD:
  assumes "dir_record granule bytes drv k im"
  shows "seg (rec_at drv k) 0 4 = FILE_MAGIC" "apply_fixups (rec_at drv k) (sector_bytes drv) = Ok (im_bytes im)"
    "length (im_bytes im) = record_size drv" "wf_image im" "im_protected (sector_bytes drv) im" "is_ok (im_stat (boot drv) im)"
    "4 \<le> record_size drv"
proof -
  show d: "seg (rec_at drv k) 0 4 = FILE_MAGIC" "apply_fixups (rec_at drv k) (sector_bytes drv) = Ok (im_bytes im)"
    "length (im_bytes im) = record_size drv" "wf_image im" "im_protected (sector_bytes drv) im" "is_ok (im_stat (boot drv) im)"
    using assms by (simp_all add: dir_record_def)
  show "4 \<le> record_size drv" using d(3,4) by (simp add: wf_image_def flip: d(3)) (simp add: im_bytes_def)
qed

lemma stat_dir:
  assumes "ready (Suc n) (device drv)" "record_on_device granule burst capacity drv k" "record_size drv < 2 ^ 63"
    and dir: "dir_record granule bytes drv k im"
  obtains d' st where "stat ops drv \<lparr>record_number = k\<rparr> = (Ok st, drv\<lparr>device := d'\<rparr>)" "ready n d'" "bytes d' = bytes (device drv)"
    "index_root st = Some (im_index im)" "is_directory st"
proof -
  note d = dir_recordD [OF dir]
  obtain d' where d': "read_mft_record ops drv k = (apply_fixups (rec_at drv k) (sector_bytes drv), drv\<lparr>device := d'\<rparr>)"
    "ready n d'" "bytes d' = bytes (device drv)"
    using read_record [OF assms(1-3) d(7,1)] by blast
  obtain st where st: "im_stat (boot drv) im = Ok st" using d(6) by (auto simp: is_ok_iff)
  have "stat ops drv \<lparr>record_number = k\<rparr> = (Ok (st\<lparr>index_root := Some (im_index im)\<rparr>), drv\<lparr>device := d'\<rparr>)"
    using d'(1) d(2) st by (simp add: stat_def parse_stat_image_dir [OF d(4)])
  moreover have "is_directory st" using im_stat_directory [OF st] .
  ultimately show thesis using that [of "st\<lparr>index_root := Some (im_index im)\<rparr>" d'] d'(2,3) by simp
qed

lemma lookup_dir:
  assumes "ready (Suc n) (device drv)" "record_on_device granule burst capacity drv k" "record_size drv < 2 ^ 63"
    and dir: "dir_record granule bytes drv k im"
  obtains d' where "\<And>name. find_in_directory ops drv \<lparr>record_number = k\<rparr> name = (index_find_in_directory (im_index im) name, drv\<lparr>device := d'\<rparr>)"
    "list_directory ops drv \<lparr>record_number = k\<rparr> = (index_list_directory (im_index im), drv\<lparr>device := d'\<rparr>)"
    "ready n d'" "bytes d' = bytes (device drv)"
proof -
  obtain d' st where s: "stat ops drv \<lparr>record_number = k\<rparr> = (Ok st, drv\<lparr>device := d'\<rparr>)" "ready n d'"
    "bytes d' = bytes (device drv)" "index_root st = Some (im_index im)"
    using stat_dir [OF assms] by blast
  show thesis by (rule that [of d']) (use s in \<open>simp_all add: find_in_directory_def list_directory_def get_index_data_def\<close>)
qed

lemma is_directory_dir:
  assumes "ready (Suc n) (device drv)" "record_on_device granule burst capacity drv k" "record_size drv < 2 ^ 63"
    and dir: "dir_record granule bytes drv k im"
  obtains d' where "drv_is_directory ops drv \<lparr>record_number = k\<rparr> = (Ok True, drv\<lparr>device := d'\<rparr>)" "ready n d'"
    "bytes d' = bytes (device drv)"
proof (cases "k = 5")
  case True
  then show thesis using that [of "device drv"] ready_less [OF assms(1), of n] by (simp add: drv_is_directory_def)
next
  case False
  obtain d' st where "stat ops drv \<lparr>record_number = k\<rparr> = (Ok st, drv\<lparr>device := d'\<rparr>)" "ready n d'"
    "bytes d' = bytes (device drv)" "is_directory st"
    using stat_dir [OF assms] by blast
  then show thesis using that False by (simp add: drv_is_directory_def)
qed

lemma add_entry_dir:
  assumes r: "ready (Suc (Suc n)) (device drv)" and mft: "mft_fits granule burst capacity drv N" "unat p < N" "record_size drv < 2 ^ 63"
    and dir: "dir_record granule bytes drv p im" and room: "im_room im name" and len: "length (encode_utf16 name) \<le> 255"
  obtains d' h where "add_directory_entry ops drv \<lparr>record_number = p\<rparr> child name = (Ok (), drv\<lparr>device := d'\<rparr>)" "ready n d'"
    "dir_record granule bytes (drv\<lparr>device := d'\<rparr>) p ((im_add p child name im)\<lparr>im_head := h\<rparr>)"
    "\<And>j. j \<noteq> p \<Longrightarrow> unat j < N \<Longrightarrow> rec_at (drv\<lparr>device := d'\<rparr>) j = rec_at drv j"
proof -
  note d = dir_recordD [OF dir]
  let ?im = "im_add p child name im" and ?ss = "sector_bytes drv"
  note on = mft_fits_on_device [OF mft granule_pos]
  obtain d1 where d1: "read_mft_record ops drv p = (Ok (im_bytes im), drv\<lparr>device := d1\<rparr>)" "ready (Suc n) d1"
      "bytes d1 = bytes (device drv)"
    using read_record [OF r on mft(3) d(7,1)] d(2) by metis
  note wf = wf_image_add [OF d(4) room len, of p child] and pr = im_protected_add [OF d(5,4) room, of p child]
  obtain b h where b: "reapply_fixups (im_bytes ?im) ?ss = Ok b" "length b = length (im_bytes ?im)" "seg b 0 4 = FILE_MAGIC"
    "apply_fixups b ?ss = Ok (im_bytes (?im\<lparr>im_head := h\<rparr>))" "wf_image (?im\<lparr>im_head := h\<rparr>)" "im_protected ?ss (?im\<lparr>im_head := h\<rparr>)"
    "length (im_bytes (?im\<lparr>im_head := h\<rparr>)) = length (im_bytes ?im)"
    using image_fixups [OF wf pr] by blast
  have hl: "28 \<le> length (im_head im)" using d(4) by (simp add: wf_image_def)
  have L: "length (im_bytes ?im) = record_size drv"
    using d(3) length_im_index_add [OF room, of p child] im_used_head(1) [OF hl] by (simp add: im_bytes_def) (simp add: im_add_def)
  let ?drv1 = "drv\<lparr>device := d1\<rparr>"
  obtain d2 where d2: "drv_write ops ?drv1 (mft_record_offset ?drv1 p) b = (Ok (), ?drv1\<lparr>device := d2\<rparr>)" "ready n d2"
    "rec_at (?drv1\<lparr>device := d2\<rparr>) p = b" "\<And>j. j \<noteq> p \<Longrightarrow> unat j < N \<Longrightarrow> rec_at (?drv1\<lparr>device := d2\<rparr>) j = rec_at ?drv1 j"
    by (rule write_record [of n ?drv1 N p b]) (use d1(2) mft b(2) L in simp_all)
  have "add_to_resident_index ops ?drv1 (im_bytes im) \<lparr>record_number = p\<rparr> child name = (Ok (), drv\<lparr>device := d2\<rparr>)"
    using d2(1) b(1) by (simp add: add_to_resident_index_def insert_resident_entry_image [OF d(4) room len])
  then have a: "add_directory_entry ops drv \<lparr>record_number = p\<rparr> child name = (Ok (), drv\<lparr>device := d2\<rparr>)"
    using d1(1) by (simp add: add_directory_entry_def)
  have "length (im_bytes (?im\<lparr>im_head := h\<rparr>)) = record_size drv"
    using b(7) L by simp
  moreover have "im_stat (boot drv) (?im\<lparr>im_head := h\<rparr>) = im_stat (boot drv) im" by (simp add: im_stat_def im_add_def)
  ultimately have "dir_record granule bytes (drv\<lparr>device := d2\<rparr>) p (?im\<lparr>im_head := h\<rparr>)"
    using b d2(3) d(6) by (simp add: dir_record_def)
  moreover have "rec_at (drv\<lparr>device := d2\<rparr>) j = rec_at drv j" if "j \<noteq> p" "unat j < N" for j
    using d2(4) [OF that] rec_at_cong [OF d1(3)] by simp
  ultimately show thesis using that a d2(2) by blast
qed

section \<open>Creating a file\<close>

lemma rec_at_offset: "rec_at drv k = map (\<lambda>i. bytes (device drv) (unat (mft_record_offset drv k) * granule + i)) [0..<record_size drv]"
  by (simp add: record_bytes_def)

lemma scan_record:
  assumes "ready (Suc n) (device drv)" "record_on_device granule burst capacity drv (of_nat k)" "record_size drv < 2 ^ 63"
    and "4 \<le> record_size drv"
  obtains d' where "ready n d'" "bytes d' = bytes (device drv)"
    "\<And>ks. scan_free_record ops drv (k # ks) =
       (if record_in_use granule bytes drv k then scan_free_record ops (drv\<lparr>device := d'\<rparr>) ks
        else (Ok (of_nat k), drv\<lparr>device := d'\<rparr>))"
proof -
  obtain d' where "read_blocks ops (device drv) (mft_record_offset drv (of_nat k)) (replicate (record_size drv) 0) = (Ok (rec_at drv (of_nat k)), d')"
      "ready n d'" "bytes d' = bytes (device drv)"
    using read_holds [OF assms(1) holds_rec_at, of "replicate (record_size drv) 0" "of_nat k"] assms(2)
    by (auto simp: record_on_device_def)
  then show thesis using that [of d'] assms(3,4)
    by (auto simp: vec_zeroed_def drv_read_def slice_r_def record_in_use_def)
qed

lemma scan_finds_free:
  assumes "m \<le> num" "ready (Suc (num - m) + n) (device drv)" "num < 100000" "\<not> record_in_use granule bytes drv num"
    and "\<forall>k \<in> {m..<num}. record_in_use granule bytes drv k"
    and mft: "mft_fits granule burst capacity drv N" "num < N" "record_size drv < 2 ^ 63" and rs: "4 \<le> record_size drv"
  shows "\<exists>d'. scan_free_record ops drv [m..<100000] = (Ok (of_nat num), drv\<lparr>device := d'\<rparr>) \<and> ready n d' \<and> bytes d' = bytes (device drv)"
  using assms
proof (induction "num - m" arbitrary: m drv)
  case 0
  have on: "record_on_device granule burst capacity drv (of_nat m)"
    using 0 by (intro mft_fits_on_device [OF "0.prems"(6) _ _ granule_pos]) (simp_all add: unat_of_nat)
  have r: "ready (Suc n) (device drv)" using 0 by simp
  from scan_record [OF r on "0.prems"(8,9)] obtain d' where "ready n d'" "bytes d' = bytes (device drv)"
    "scan_free_record ops drv (m # [Suc m..<100000]) =
       (if record_in_use granule bytes drv m then scan_free_record ops (drv\<lparr>device := d'\<rparr>) [Suc m..<100000]
        else (Ok (of_nat m), drv\<lparr>device := d'\<rparr>))" by metis
  moreover have "m = num" using 0 by simp
  moreover have "[m..<100000] = m # [Suc m..<100000]" using 0 by (simp add: upt_conv_Cons)
  ultimately show ?case using 0 by auto
next
  case (Suc x)
  have m: "m < num" "num < N" "num < 100000" using Suc by auto
  have on: "record_on_device granule burst capacity drv (of_nat m)"
    by (rule mft_fits_on_device [OF Suc.prems(6) _ _ granule_pos]) (use Suc.prems m in \<open>simp_all add: unat_of_nat\<close>)
  have r: "ready (Suc (Suc (num - Suc m) + n)) (device drv)" using Suc.prems(2) m(1) by (simp add: Suc_diff_Suc)
  from scan_record [OF r on Suc.prems(8,9)] obtain d' where d': "ready (Suc (num - Suc m) + n) d'" "bytes d' = bytes (device drv)"
    "scan_free_record ops drv (m # [Suc m..<100000]) =
       (if record_in_use granule bytes drv m then scan_free_record ops (drv\<lparr>device := d'\<rparr>) [Suc m..<100000]
        else (Ok (of_nat m), drv\<lparr>device := d'\<rparr>))" by metis
  have u: "record_in_use granule bytes (drv\<lparr>device := d'\<rparr>) k = record_in_use granule bytes drv k" for k
    by (simp add: record_in_use_def rec_at_cong [OF d'(2)])
  have "\<exists>d''. scan_free_record ops (drv\<lparr>device := d'\<rparr>) [Suc m..<100000] = (Ok (of_nat num), drv\<lparr>device := d'\<rparr>\<lparr>device := d''\<rparr>)
      \<and> ready n d'' \<and> bytes d'' = bytes (device (drv\<lparr>device := d'\<rparr>))"
    by (rule Suc.hyps(1)) (use Suc.prems Suc.hyps(2) m d'(1) u in \<open>simp_all\<close>)
  moreover have "[m..<100000] = m # [Suc m..<100000]" using m by (simp add: upt_conv_Cons)
  ultimately show ?case using d'(2,3) Suc.prems(5) m(1) by auto
qed

lemma read_created:
  assumes r: "ready (Suc n) (device drv)" and mft: "mft_fits granule burst capacity drv N" "unat k < N"
    and fits: "record_fits (record_size drv) name dir data" and sv: "scalar_values name"
    and b: "rec_at drv k = b" "seg b 0 4 = FILE_MAGIC" "length usa = 4"
      "apply_fixups b (sector_bytes drv) = Ok (record_image (record_size drv) num name parent dir data usa)"
  obtains d' where "ready n d'" "bytes d' = bytes (device drv)"
    "open_file ops drv k = (Ok \<lparr>record_number = k\<rparr>, drv\<lparr>device := d'\<rparr>)"
    "stat ops drv \<lparr>record_number = k\<rparr> = (Ok (created_stat (record_size drv) name dir data), drv\<lparr>device := d'\<rparr>)"
proof -
  have rs: "record_size drv < 2 ^ 63" "4 \<le> record_size drv" using fits by (auto simp: record_fits_def used_end_def)
  have m: "seg (rec_at drv k) 0 4 = FILE_MAGIC" using b(1,2) by simp
  obtain d' where d': "read_mft_record ops drv k = (apply_fixups (rec_at drv k) (sector_bytes drv), drv\<lparr>device := d'\<rparr>)"
      "ready n d'" "bytes d' = bytes (device drv)"
    using read_record [OF r mft_fits_on_device [OF mft rs(1) granule_pos] rs m] by blast
  then show thesis using that b(1,4) parse_stat_image [OF fits sv b(3)] by (simp add: open_file_def stat_def)
qed

lemma create_file_runs:
  assumes r: "ready (num - 8) (device drv)" and mft: "mft_fits granule burst capacity drv N" "num < N" "unat p < N"
    and dir: "dir_record granule bytes drv p im" and room: "im_room im name" and pn: "plain_name name"
    and new: "index_find_in_directory (im_index im) name = Err FileNotFound"
    and free: "first_free granule bytes drv num"
    and fits: "record_fits (record_size drv) name is_dir data"
    and ss: "56 \<le> sector_bytes drv" "2 * sector_bytes drv \<le> record_size drv"
  obtains d h b usa where
    "create_file ops drv \<lparr>record_number = p\<rparr> name \<lparr>co_is_directory = is_dir, co_data = data\<rparr>
       = (Ok \<lparr>record_number = of_nat num\<rparr>, drv\<lparr>device := d\<rparr>)" "ready (Suc 0) d"
    "dir_record granule bytes (drv\<lparr>device := d\<rparr>) p ((im_add p (of_nat num) name im)\<lparr>im_head := h\<rparr>)"
    "rec_at (drv\<lparr>device := d\<rparr>) (of_nat num) = b" "seg b 0 4 = FILE_MAGIC" "length usa = 4"
    "apply_fixups b (sector_bytes drv) = Ok (record_image (record_size drv) (of_nat num) name p is_dir data usa)"
proof -
  let ?k = "of_nat num :: u64" and ?rs = "record_size drv" and ?ss = "sector_bytes drv"
  have rs: "?rs < 2 ^ 63" using fits by (simp add: record_fits_def)
  note d = dir_recordD [OF dir] and pl = plain_nameD [OF pn]
  note fr = free [unfolded first_free_def]
  have k: "unat ?k = num" "?k \<noteq> p" using fr d(1) by (auto simp: unat_of_nat record_in_use_def)
  have on: "record_on_device granule burst capacity drv p" by (rule mft_fits_on_device [OF mft(1,3) rs granule_pos])
  have r0: "ready (Suc (Suc (Suc (num - 16) + Suc (Suc (Suc (Suc (Suc 0))))))) (device drv)"
    by (rule ready_less [OF r]) (use fr [THEN conjunct1] in linarith)
  obtain d1 where d1: "drv_is_directory ops drv \<lparr>record_number = p\<rparr> = (Ok True, drv\<lparr>device := d1\<rparr>)"
      "ready (Suc (Suc (num - 16) + Suc (Suc (Suc (Suc (Suc 0)))))) d1" "bytes d1 = bytes (device drv)"
    using is_directory_dir [OF r0 on rs dir] by blast
  let ?v1 = "drv\<lparr>device := d1\<rparr>"
  obtain d2 where d2: "find_in_directory ops ?v1 \<lparr>record_number = p\<rparr> name = (Err FileNotFound, drv\<lparr>device := d2\<rparr>)"
      "ready (Suc (num - 16) + Suc (Suc (Suc (Suc (Suc 0))))) d2" "bytes d2 = bytes (device drv)"
  proof (rule lookup_dir [of "Suc (num - 16) + Suc (Suc (Suc (Suc (Suc 0))))" ?v1 p im])
  qed (use d1(2,3) on rs dir dir_record_cong [OF d1(3)] new that in simp_all)
  let ?v2 = "drv\<lparr>device := d2\<rparr>"
  have u: "record_in_use granule bytes ?v2 j = record_in_use granule bytes drv j" for j
    by (simp add: record_in_use_def rec_at_cong [OF d2(3)])
  have "\<exists>d'. scan_free_record ops ?v2 [16..<100000] = (Ok ?k, ?v2\<lparr>device := d'\<rparr>) \<and> ready (Suc (Suc (Suc (Suc (Suc 0))))) d'
      \<and> bytes d' = bytes (device ?v2)"
    by (rule scan_finds_free [where N = N]) (use d2(2) fr mft rs d(7) u in simp_all)
  then obtain d3 where d3: "allocate_mft_record ops ?v2 = (Ok ?k, ?v2\<lparr>device := d3\<rparr>)" "ready (Suc (Suc (Suc (Suc (Suc 0))))) d3"
      "bytes d3 = bytes (device ?v2)"
    unfolding allocate_mft_record_def by blast
  then have b3: "bytes d3 = bytes (device drv)" using d2(3) by simp
  let ?v3 = "drv\<lparr>device := d3\<rparr>"
  obtain b usa where b: "reapply_fixups (record_image ?rs ?k name p is_dir data (zeros 4)) ?ss = Ok b" "length b = ?rs"
      "seg b 0 4 = FILE_MAGIC" "length usa = 4" "apply_fixups b ?ss = Ok (record_image ?rs ?k name p is_dir data usa)"
    using record_image_fixups [OF fits ss] by blast
  have w: "ready (Suc (Suc (Suc (Suc (Suc 0))))) (device ?v3)" "mft_fits granule burst capacity ?v3 N" "unat ?k < N"
      "record_size ?v3 < 2 ^ 63" "length b = record_size ?v3"
    using d3(2) mft k rs b(2) by simp_all
  obtain d4 where d4: "drv_write ops ?v3 (mft_record_offset ?v3 ?k) b = (Ok (), ?v3\<lparr>device := d4\<rparr>)" "ready (Suc (Suc (Suc (Suc 0)))) d4"
      "rec_at (?v3\<lparr>device := d4\<rparr>) ?k = b" "\<And>j. j \<noteq> ?k \<Longrightarrow> unat j < N \<Longrightarrow> rec_at (?v3\<lparr>device := d4\<rparr>) j = rec_at ?v3 j"
    using write_record [OF w] by blast
  let ?v4 = "drv\<lparr>device := d4\<rparr>"
  have "rec_at ?v4 p = rec_at drv p" using d4(4) [OF k(2) [symmetric] mft(3)] rec_at_cong [OF b3] by simp
  then have dir4: "dir_record granule bytes ?v4 p im" using dir by (simp add: dir_record_def)
  obtain d5 h where d5: "add_directory_entry ops ?v4 \<lparr>record_number = p\<rparr> ?k name = (Ok (), ?v4\<lparr>device := d5\<rparr>)" "ready (Suc (Suc 0)) d5"
      "dir_record granule bytes (?v4\<lparr>device := d5\<rparr>) p ((im_add p ?k name im)\<lparr>im_head := h\<rparr>)"
      "\<And>j. j \<noteq> p \<Longrightarrow> unat j < N \<Longrightarrow> rec_at (?v4\<lparr>device := d5\<rparr>) j = rec_at ?v4 j"
    using add_entry_dir [of "Suc (Suc 0)" ?v4 N p im name] d4(2) mft rs dir4 room pl(1) by (metis driver_fields mft_fits_device)
  let ?v5 = "drv\<lparr>device := d5\<rparr>"
  have rec5: "rec_at ?v5 ?k = b" using d5(4) [OF k(2)] d4(3) mft(2) k(1) by simp
  obtain d6 where d6: "ready (Suc 0) d6" "bytes d6 = bytes d5" "open_file ops ?v5 ?k = (Ok \<lparr>record_number = ?k\<rparr>, drv\<lparr>device := d6\<rparr>)"
    using read_created [of "Suc 0" ?v5 N ?k name is_dir data b usa ?k p] d5(2) mft k(1) fits pl(2) rec5 b(3-5) by auto
  have c: "bytes d6 = bytes (device ?v5)" using d6(2) by simp
  have "create_file ops drv \<lparr>record_number = p\<rparr> name \<lparr>co_is_directory = is_dir, co_data = data\<rparr> = (Ok \<lparr>record_number = ?k\<rparr>, drv\<lparr>device := d6\<rparr>)"
    using d1(1) d2(1) d3(1) d4(1) d5(1) d6(3) b(1) pl(5) build_mft_record_image [OF fits, of ?k p]
    by (simp add: create_file_def)
  moreover have "dir_record granule bytes (drv\<lparr>device := d6\<rparr>) p ((im_add p ?k name im)\<lparr>im_head := h\<rparr>)"
    using d5(3) dir_record_cong [OF c] by simp
  moreover have "rec_at (drv\<lparr>device := d6\<rparr>) ?k = b" using rec5 rec_at_cong [OF c, of ?k] by simp
  ultimately show thesis using that d6(1) b(3-5) by blast
qed

end

text \<open>
  C9: on a conforming device, \<open>create_file\<close> in a directory whose resident index has room succeeds with the first
  free record; afterwards look-up in the directory finds that record under the new name, the listing is the old one
  with the name at its end, look-ups of all other names are as before, and \<open>stat\<close> reads the new record as the
  file or directory that was asked for.
\<close>

theorem create_file_then_find:
  assumes bs: "block_store ops granule burst capacity bytes ready" "ready (num - 8) (device drv)"
    and mft: "mft_fits granule burst capacity drv N" "num < N" "unat p < N"
    and dir: "dir_record granule bytes drv p im" "im_room im name" "plain_name name"
      "\<forall>n \<in> set (entry_names (im_entries im)). \<not> eq_ignore_ascii_case n name"
    and free: "first_free granule bytes drv num" and fits: "record_fits (record_size drv) name is_dir data"
    and ss: "56 \<le> sector_bytes drv" "2 * sector_bytes drv \<le> record_size drv"
  shows "\<exists>drv1 drv2 st. create_file ops drv \<lparr>record_number = p\<rparr> name \<lparr>co_is_directory = is_dir, co_data = data\<rparr>
        = (Ok \<lparr>record_number = of_nat num\<rparr>, drv1)
    \<and> list_directory ops drv1 \<lparr>record_number = p\<rparr> = (Ok (entry_names (im_entries im) @ [name]), drv2)
    \<and> find_in_directory ops drv1 \<lparr>record_number = p\<rparr> name = (Ok (of_nat num), drv2)
    \<and> (\<forall>other. \<not> eq_ignore_ascii_case name other \<longrightarrow>
         fst (find_in_directory ops drv1 \<lparr>record_number = p\<rparr> other) = fst (find_in_directory ops drv \<lparr>record_number = p\<rparr> other))
    \<and> fst (stat ops drv1 \<lparr>record_number = of_nat num\<rparr>) = Ok st \<and> is_directory st = is_dir
    \<and> stat_name st = Some name \<and> (\<not> is_dir \<longrightarrow> data_runs st = [Resident data])"
proof -
  note d = block_store.dir_recordD [OF bs(1) dir(1)] and pl = plain_nameD [OF dir(3)]
  have "\<not> names_entry name e" if "e \<in> set (im_entries im)" for e
    using dir(4) that by (auto simp: names_entry_def entry_names_def split: option.splits)
  then have new: "index_find_in_directory (im_index im) name = Err FileNotFound"
    by (auto simp: image_index_read [OF d(4)] find_entry_def find_Some_iff split: option.splits)
  obtain d1 h b usa where
    c: "create_file ops drv \<lparr>record_number = p\<rparr> name \<lparr>co_is_directory = is_dir, co_data = data\<rparr>
       = (Ok \<lparr>record_number = of_nat num\<rparr>, drv\<lparr>device := d1\<rparr>)" "ready (Suc 0) d1"
    "dir_record granule bytes (drv\<lparr>device := d1\<rparr>) p ((im_add p (of_nat num) name im)\<lparr>im_head := h\<rparr>)"
    "record_bytes granule bytes (drv\<lparr>device := d1\<rparr>) (of_nat num) = b" "seg b 0 4 = FILE_MAGIC" "length usa = 4"
    "apply_fixups b (sector_bytes drv) = Ok (record_image (record_size drv) (of_nat num) name p is_dir data usa)"
    by (rule block_store.create_file_runs [OF bs mft dir(1-3) new free fits ss])
  have rs: "record_size drv < 2 ^ 63" using fits by (simp add: record_fits_def)
  note g = block_store.granule_pos [OF bs(1)]
  note on = mft_fits_on_device [OF mft(1,3) rs g]
  let ?v = "drv\<lparr>device := d1\<rparr>" and ?im = "im_add p (of_nat num) name im"
  have ix: "im_index (?im\<lparr>im_head := h\<rparr>) = im_index ?im" by (simp add: im_index_def im_total_def)
  have num: "num < 100000" "16 \<le> num" using free by (auto simp: first_free_def)
  have r1: "ready (Suc 0) (device ?v)" "ready (Suc 0) (device drv)"
    using c(2) block_store.ready_less [OF bs] num(2) by simp_all
  obtain d2 where l: "\<And>x. find_in_directory ops ?v \<lparr>record_number = p\<rparr> x = (index_find_in_directory (im_index ?im) x, drv\<lparr>device := d2\<rparr>)"
      "list_directory ops ?v \<lparr>record_number = p\<rparr> = (index_list_directory (im_index ?im), drv\<lparr>device := d2\<rparr>)"
    using block_store.lookup_dir [OF bs(1) r1(1) _ _ c(3)] on rs unfolding ix by auto
  obtain d0 where l0: "\<And>x. find_in_directory ops drv \<lparr>record_number = p\<rparr> x = (index_find_in_directory (im_index im) x, drv\<lparr>device := d0\<rparr>)"
    using block_store.lookup_dir [OF bs(1) r1(2) on rs dir(1)] by blast
  have nf: "index_find_in_directory (im_index im) x = Err FileNotFound \<or> is_ok (index_find_in_directory (im_index im) x)" for x
    unfolding image_index_read [OF d(4)] find_entry_def by (simp split: option.splits)
  have m: "(of_nat num :: u64) AND 0x0000FFFFFFFFFFFF = of_nat num"
    using num(1) by (intro word_and_48) (simp add: unat_of_nat)
  note f = find_in_added [OF d(4) dir(2,3), of p "of_nat num"]
  have "eq_ignore_ascii_case name name" by (simp add: eq_ignore_ascii_case_def)
  then have found: "index_find_in_directory (im_index ?im) name = Ok (of_nat num)" using f(2) [of name] new m by simp
  have other: "index_find_in_directory (im_index ?im) x = index_find_in_directory (im_index im) x" if "\<not> eq_ignore_ascii_case name x" for x
    using f(2) [of x] nf [of x] that by auto
  have k: "unat (of_nat num :: u64) < N" using mft(2) num(1) by (simp add: unat_of_nat)
  obtain d3 where s: "stat ops ?v \<lparr>record_number = of_nat num\<rparr> = (Ok (created_stat (record_size drv) name is_dir data), drv\<lparr>device := d3\<rparr>)"
    using block_store.read_created [OF bs(1) r1(1) _ k _ pl(2) c(4-6), of is_dir data "of_nat num" p] mft(1) fits c(7) by auto
  show ?thesis
    by (rule exI [of _ ?v], rule exI [of _ "drv\<lparr>device := d2\<rparr>"], rule exI [of _ "created_stat (record_size drv) name is_dir data"])
      (use c(1) l l0 f(1) found other s pl(4) in \<open>simp add: created_stat_def empty_stat_def Let_def\<close>)
qed

text \<open>A volume with an empty root directory that has 200 bytes of room in its index.\<close>

definition sample_dir :: dir_image where
  "sample_dir =
     \<lparr>im_head = mft_header 1024 5 336 (zeros 4), im_before = [], im_attr = res_header 0x90 272 248 (zeros 2), im_root = zeros 16,
      im_alloc = 232, im_flags = zeros 4, im_entries = [], im_mark = zeros 8 @ le16 16 @ le16 0 @ le16 2 @ zeros 2,
      im_slack = zeros 200, im_after = [], im_tail = zeros 692\<rparr>"

definition sample_volume :: "u8 list \<Rightarrow> (nat \<Rightarrow> u8) NtfsDriver" where
  "sample_volume b = sample_driver\<lparr>device := \<lambda>q. if 13312 \<le> q \<and> q < 14336 then b ! (q - 13312) else 0\<rparr>"

lemma sample_dir_ok:
  "length (im_bytes sample_dir) = 1024" "wf_image sample_dir" "im_protected 512 sample_dir" "im_room sample_dir (str ''notes.txt'')"
proof -
  show l: "length (im_bytes sample_dir) = 1024"
    by (simp add: im_bytes_def im_index_def sample_dir_def)
  have f: "seg (im_head sample_dir) 20 22 = le16 56" "seg (im_head sample_dir) 0 4 = FILE_MAGIC"
    "seg (im_bytes sample_dir) 4 6 = le16 48" "seg (im_bytes sample_dir) 6 8 = le16 3" "length (im_head sample_dir) = 56"
    by (simp_all add: sample_dir_def mft_header_def seg_def FILE_MAGIC_def im_bytes_def)
  have ix: "length (im_index sample_dir) = 248" by (simp add: im_index_def sample_dir_def)
  have a: "attr_code (im_attr sample_dir) = 0x90" "seg (im_attr sample_dir @ im_index sample_dir) 4 8 = le32 272" "im_attr sample_dir ! 8 = 0"
    "seg (im_attr sample_dir) 20 22 = le16 24" "length (im_attr sample_dir) = 24"
    by (simp_all add: sample_dir_def res_header_def attr_code_def seg_def le_val_le32 nth_append)
  have "attr_code (im_attr sample_dir @ im_index sample_dir) = 0x90" using a(1,5) by (simp add: attr_code_append)
  then have w: "wf_attr (im_attr sample_dir @ im_index sample_dir)"
    using a(2,5) ix by (simp add: wf_attr_def attribute_type_def le_val_le32)
  have "entry_is_last (im_mark sample_dir) 0" by (simp add: entry_is_last_def fld_def seg_def sample_dir_def zeros_def le_val_le16)
  then show "wf_image sample_dir"
    using f a w by (simp add: wf_image_def le_val_le16) (simp add: sample_dir_def im_total_def)
  have "i = 1 \<or> i = 2" if "1 \<le> i" "i < 3" for i :: nat using that by linarith
  then show "im_protected 512 sample_dir"
    using f l by (fastforce simp: im_protected_def good_layout_def fixup_layout_def usa_offset_def usa_count_def le_val_le16)
  show "im_room sample_dir (str ''notes.txt'')"
    by (simp add: im_room_def sample_dir_def im_total_def entry_len_aligned_def name_key_len_def align8_def str_def
        encode_utf16_def utf16_units_def)
qed

lemma sample_volume_fields:
  "record_size (sample_volume b) = 1024" "sector_bytes (sample_volume b) = 512" "unat (mft_byte_offset (boot (sample_volume b))) = 8192"
  "unat (mft_record_offset (sample_volume b) 5) = 13312" "unat (mft_record_offset (sample_volume b) 16) = 24576"
  by (simp_all add: sample_volume_def sample_driver_def sector_bytes_def mft_byte_offset_def bytes_per_cluster_def mft_record_offset_def)

lemma sample_volume_records:
  assumes "length b = 1024"
  shows "record_bytes 1 (\<lambda>m. m) (sample_volume b) 5 = b" "record_bytes 1 (\<lambda>m. m) (sample_volume b) 16 = zeros 1024"
  using assms by (auto simp: record_bytes_def sample_volume_fields zeros_def intro!: nth_equalityI)
    (simp_all add: sample_volume_def)

theorem create_file_then_find_witness:
  "\<exists>b drv1 drv2 st. reapply_fixups (im_bytes sample_dir) 512 = Ok b
    \<and> create_file (ram_disk 512 4096) (sample_volume b) \<lparr>record_number = 5\<rparr> (str ''notes.txt'')
        \<lparr>co_is_directory = False, co_data = [1, 2, 3]\<rparr> = (Ok \<lparr>record_number = 16\<rparr>, drv1)
    \<and> list_directory (ram_disk 512 4096) drv1 \<lparr>record_number = 5\<rparr> = (Ok [str ''notes.txt''], drv2)
    \<and> find_in_directory (ram_disk 512 4096) drv1 \<lparr>record_number = 5\<rparr> (str ''notes.txt'') = (Ok 16, drv2)
    \<and> fst (stat (ram_disk 512 4096) drv1 \<lparr>record_number = 16\<rparr>) = Ok st \<and> data_runs st = [Resident [1, 2, 3]]"
proof -
  obtain b h where b: "reapply_fixups (im_bytes sample_dir) 512 = Ok b" "length b = length (im_bytes sample_dir)" "seg b 0 4 = FILE_MAGIC"
    "apply_fixups b 512 = Ok (im_bytes (sample_dir\<lparr>im_head := h\<rparr>))" "wf_image (sample_dir\<lparr>im_head := h\<rparr>)"
    "im_protected 512 (sample_dir\<lparr>im_head := h\<rparr>)" "length (im_bytes (sample_dir\<lparr>im_head := h\<rparr>)) = length (im_bytes sample_dir)"
    using image_fixups [OF sample_dir_ok(2,3)] by blast
  let ?v = "sample_volume b" and ?im = "sample_dir\<lparr>im_head := h\<rparr>"
  have l: "length b = 1024" using b(2) sample_dir_ok(1) by simp
  note v = sample_volume_fields [of b] sample_volume_records [OF l]
  have "im_stat bs ?im = Ok (empty_stat\<lparr>is_directory := True\<rparr>)" for bs by (simp add: im_stat_def sample_dir_def)
  then have dir: "dir_record 1 (\<lambda>m. m) ?v 5 ?im" using b sample_dir_ok(1) v by (simp add: dir_record_def)
  have four: "replicate 4 (0 :: u8) = [0, 0, 0, 0]" by (simp add: numeral_eq_Suc)
  have "seg (zeros 1024) 0 4 = replicate 4 0" by (simp add: seg_def zeros_def)
  then have z: "seg (zeros 1024) 0 4 \<notin> {FILE_MAGIC, BAAD_MAGIC}" unfolding four by (simp add: FILE_MAGIC_def BAAD_MAGIC_def)
  have "\<not> record_in_use 1 (\<lambda>m. m) ?v 16" unfolding record_in_use_def using z v(7) by simp
  then have free: "first_free 1 (\<lambda>m. m) ?v 16" by (simp add: first_free_def)
  have mft: "mft_fits 1 4096 (4096 * 512) ?v 64" by (simp add: mft_fits_def v)
  have room: "im_room ?im (str ''notes.txt'')" using sample_dir_ok(4) by (simp add: im_room_def im_total_def)
  have pn: "plain_name (str ''notes.txt'')" by (simp add: plain_name_def str_def)
  have e: "entry_names (im_entries ?im) = []" by (simp add: entry_names_def sample_dir_def)
  have fits: "record_fits (record_size ?v) (str ''notes.txt'') False [1, 2, 3]" using record_fits_notes by (simp add: v)
  have "\<exists>drv1 drv2 st. create_file (ram_disk 512 4096) ?v \<lparr>record_number = 5\<rparr> (str ''notes.txt'') \<lparr>co_is_directory = False, co_data = [1, 2, 3]\<rparr>
        = (Ok \<lparr>record_number = of_nat 16\<rparr>, drv1)
    \<and> list_directory (ram_disk 512 4096) drv1 \<lparr>record_number = 5\<rparr> = (Ok (entry_names (im_entries ?im) @ [str ''notes.txt'']), drv2)
    \<and> find_in_directory (ram_disk 512 4096) drv1 \<lparr>record_number = 5\<rparr> (str ''notes.txt'') = (Ok (of_nat 16), drv2)
    \<and> (\<forall>other. \<not> eq_ignore_ascii_case (str ''notes.txt'') other \<longrightarrow>
         fst (find_in_directory (ram_disk 512 4096) drv1 \<lparr>record_number = 5\<rparr> other) = fst (find_in_directory (ram_disk 512 4096) ?v \<lparr>record_number = 5\<rparr> other))
    \<and> fst (stat (ram_disk 512 4096) drv1 \<lparr>record_number = of_nat 16\<rparr>) = Ok st \<and> is_directory st = False
    \<and> stat_name st = Some (str ''notes.txt'') \<and> (\<not> False \<longrightarrow> data_runs st = [Resident [1, 2, 3]])"
    by (rule create_file_then_find [OF block_store_ram_disk TrueI mft _ _ dir room pn _ free fits]) (use e v in \<open>simp_all\<close>)
  then show ?thesis using b(1) e by auto
qed

end
