(* ===== verification/Machine.thy ===== *)
theory Machine
  imports Hal
begin

text \<open>
  What the two block drivers see of the machine: main memory, addressed physically and mapped for the
  processor at a fixed offset, and device registers behind \<open>read_volatile\<close> and \<open>write_volatile\<close>. The device
  is a parameter: a register write may change memory (DMA), and \<open>mm_tick\<close> is what the device does while the
  driver polls. Transfers stay within pages, so the lemmas read and write whole pages.
\<close>

record 'hw Machine =
  ram :: "u64 \<Rightarrow> u8"
  hw :: 'hw

record 'hw mmio =
  mm_off :: u64
  mm_rd :: "'hw \<Rightarrow> u64 \<Rightarrow> nat \<Rightarrow> nat"
  mm_wr :: "u64 \<Rightarrow> nat \<Rightarrow> nat \<Rightarrow> 'hw Machine \<Rightarrow> 'hw Machine"
  mm_tick :: "'hw Machine \<Rightarrow> 'hw Machine"

definition peek :: "(u64 \<Rightarrow> u8) \<Rightarrow> u64 \<Rightarrow> nat \<Rightarrow> u8 list" where
  "peek r a n = map (\<lambda>i. r (a + of_nat i)) [0..<n]"

definition poke :: "u64 \<Rightarrow> u8 list \<Rightarrow> (u64 \<Rightarrow> u8) \<Rightarrow> u64 \<Rightarrow> u8" where
  "poke a bs r = (\<lambda>p. if unat (p - a) < length bs then bs ! unat (p - a) else r p)"

definition rd_le :: "(u64 \<Rightarrow> u8) \<Rightarrow> u64 \<Rightarrow> nat \<Rightarrow> nat" where
  "rd_le r a n = le_val (peek r a n)"

text \<open>Access of the processor through the mapping, and of register blocks.\<close>

definition cpu_rd :: "'hw mmio \<Rightarrow> 'hw Machine \<Rightarrow> u64 \<Rightarrow> nat \<Rightarrow> u8 list" where
  "cpu_rd mm m v n = peek (ram m) (v - mm_off mm) n"

definition cpu_wr :: "'hw mmio \<Rightarrow> u64 \<Rightarrow> u8 list \<Rightarrow> 'hw Machine \<Rightarrow> 'hw Machine" where
  "cpu_wr mm v bs m = m\<lparr>ram := poke (v - mm_off mm) bs (ram m)\<rparr>"

definition rd_reg :: "'hw mmio \<Rightarrow> 'hw Machine \<Rightarrow> u64 \<Rightarrow> nat \<Rightarrow> nat" where
  "rd_reg mm m a w = mm_rd mm (hw m) a w"

text \<open>A device that \<open>dv\<close> shows in the state of the hardware, and a write of half of a 64-bit register.\<close>

definition view :: "('hw \<Rightarrow> 'd) \<Rightarrow> 'hw Machine \<Rightarrow> 'd Machine" where
  "view dv m = \<lparr>ram = ram m, hw = dv (hw m)\<rparr>"

lemma view_simps [simp]: "ram (view dv m) = ram m" "hw (view dv m) = dv (hw m)"
  by (simp_all add: view_def)

definition set_low :: "nat \<Rightarrow> u64 \<Rightarrow> u64" where
  "set_low v a = push_bit 32 (drop_bit 32 a) OR ucast (of_nat v :: u32)"

definition set_high :: "nat \<Rightarrow> u64 \<Rightarrow> u64" where
  "set_high v a = push_bit 32 (ucast (of_nat v :: u32)) OR ucast (ucast a :: u32)"

lemma set_halves: "set_high (unat (ucast (drop_bit 32 a) :: u32)) (set_low (unat (ucast a :: u32)) b) = (a :: u64)"
  by (rule bit_word_eqI) (auto simp: set_high_def set_low_def bit_simps)

type_synonym 'al dma_allocator = "'al \<Rightarrow> nat \<Rightarrow> nat \<Rightarrow> (DmaBuffer option, unit) result \<times> 'al"

section \<open>Pages\<close>

definition page_addr :: "u64 \<Rightarrow> bool" where
  "page_addr b \<longleftrightarrow> 4096 dvd unat b"

definition page :: "(u64 \<Rightarrow> u8) \<Rightarrow> u64 \<Rightarrow> u8 list" where
  "page r b = peek r b 4096"

lemma length_peek [simp]: "length (peek r a n) = n"
  by (simp add: peek_def)

lemma length_page [simp]: "length (page r b) = 4096"
  by (simp add: page_def)

lemma nth_peek: "i < n \<Longrightarrow> peek r a n ! i = r (a + of_nat i)"
  by (simp add: peek_def)

lemma unat_page_off: "page_addr b \<Longrightarrow> i < 4096 \<Longrightarrow> unat (b + of_nat i) = unat b + i"
proof -
  assume b: "page_addr b" and i: "i < 4096"
  obtain k where k: "unat b = 4096 * k" using b by (auto simp: page_addr_def dvd_def)
  have "unat b < 2 ^ 64" using unat_bound [of b] by simp
  then have "k < 2 ^ 52" unfolding k by simp
  then have "unat b + i < 2 ^ 64" unfolding k using i by simp
  then show ?thesis using i by (simp add: unat_word_ariths unat_of_nat)
qed

lemma page_diff:
  assumes "page_addr a" "page_addr b" "i < 4096" "j < 4096"
  shows "a + of_nat i = b + of_nat j \<longleftrightarrow> a = b \<and> i = j"
proof
  assume e: "a + of_nat i = b + of_nat j"
  obtain k l where k: "unat a = 4096 * k" "unat b = 4096 * l" using assms(1,2) by (auto simp: page_addr_def dvd_def)
  have "4096 * k + i = 4096 * l + j"
    using e unat_page_off [OF assms(1,3)] unat_page_off [OF assms(2,4)] k by simp
  then have "(4096 * k + i) div 4096 = (4096 * l + j) div 4096" "(4096 * k + i) mod 4096 = (4096 * l + j) mod 4096"
    by simp_all
  then have "k = l" "i = j" using assms(3,4) by simp_all
  with k show "a = b \<and> i = j" by (simp add: word_unat_eq_iff)
qed simp

lemma peek_page: "k + n \<le> 4096 \<Longrightarrow> peek r (b + of_nat k) n = seg (page r b) k (k + n)"
  by (rule nth_equalityI) (auto simp: page_def nth_peek nth_seg add.assoc)

lemma poke_page_same:
  assumes "k + length bs \<le> 4096"
  shows "page (poke (b + of_nat k) bs r) b = blit (page r b) k bs"
proof (rule nth_equalityI)
  show "length (page (poke (b + of_nat k) bs r) b) = length (blit (page r b) k bs)"
    using assms by (simp add: length_blit)
  fix i assume "i < length (page (poke (b + of_nat k) bs r) b)"
  then have i: "i < 4096" by simp
  have d: "b + of_nat i - (b + of_nat k) = (of_nat i - of_nat k :: u64)" by simp
  show "page (poke (b + of_nat k) bs r) b ! i = blit (page r b) k bs ! i"
  proof (cases "k \<le> i")
    case True
    then have "(of_nat i - of_nat k :: u64) = of_nat (i - k)" by simp
    then have "unat (of_nat i - of_nat k :: u64) = i - k" using i by (simp add: unat_of_nat)
    then show ?thesis using i True assms d by (auto simp: page_def nth_peek poke_def nth_blit)
  next
    case False
    have "\<not> unat (of_nat i - of_nat k :: u64) < length bs"
    proof
      let ?u = "unat (of_nat i - of_nat k :: u64)"
      assume u: "?u < length bs"
      have "0 + (of_nat i :: u64) = 0 + of_nat (k + ?u)" by simp
      then have "i = k + ?u" using page_diff [of 0 0 i "k + ?u"] i u assms by (simp add: page_addr_def)
      with False show False by simp
    qed
    then show ?thesis using i False assms d by (simp add: page_def nth_peek poke_def nth_blit)
  qed
qed

lemma poke_outside:
  assumes "page_addr a" "k + length bs \<le> 4096" "\<forall>i < 4096. p \<noteq> a + of_nat i"
  shows "poke (a + of_nat k) bs r p = r p"
proof -
  let ?u = "unat (p - (a + of_nat k))"
  have "\<not> ?u < length bs"
  proof
    assume "?u < length bs"
    then have "k + ?u < 4096" using assms(2) by simp
    with assms(3) have "p \<noteq> a + of_nat (k + ?u)" by blast
    then show False by simp
  qed
  then show ?thesis by (simp add: poke_def)
qed

lemma poke_page_other:
  assumes "page_addr a" "page_addr b" "a \<noteq> b" "k + length bs \<le> 4096"
  shows "page (poke (a + of_nat k) bs r) b = page r b"
  using assms page_diff [of b a] by (intro nth_equalityI) (simp_all add: page_def nth_peek poke_outside)

lemmas poke_page_same_0 = poke_page_same [where k = 0, simplified]
lemmas poke_page_other_0 = poke_page_other [where k = 0, simplified]
lemmas peek_page_0 = peek_page [where k = 0, simplified]

end
