(* ===== verification/Pci.thy ===== *)
theory Pci
  imports Hal
begin

text \<open>
  PCI configuration space (\<^verbatim>\<open>src/lib/hal/src/pci\<close>, \<^verbatim>\<open>src/lib/bus/src/pci\<close>): ECAM addressing and accessors, base
  address registers, enumeration, and the capability list. The configuration space of the machine is a
  parameter: \<open>cfg_rd\<close> reads a 32-bit register at an address, \<open>cfg_wr\<close> writes one; reading has no side
  effect. The two statics of \<^verbatim>\<open>ecam.rs\<close> and the machine make up the state.
\<close>

section \<open>ECAM\<close>

record 'hw cfg_ops =
  cfg_rd :: "'hw \<Rightarrow> u64 \<Rightarrow> u32"
  cfg_wr :: "'hw \<Rightarrow> u64 \<Rightarrow> u32 \<Rightarrow> 'hw"

record 'hw Ecam =
  ecam_phys_base :: u64
  ecam_phys_offset :: u64
  ecam_hw :: 'hw

definition init_ecam :: "u64 \<Rightarrow> u64 \<Rightarrow> 'hw Ecam \<Rightarrow> 'hw Ecam" where
  "init_ecam ecam_phys phys_offset s = s\<lparr>ecam_phys_base := ecam_phys, ecam_phys_offset := phys_offset\<rparr>"

definition ecam_is_ready :: "'hw Ecam \<Rightarrow> bool" where
  "ecam_is_ready s \<longleftrightarrow> ecam_phys_base s \<noteq> 0"

definition ecam_ptr :: "'hw Ecam \<Rightarrow> u8 \<Rightarrow> u8 \<Rightarrow> u8 \<Rightarrow> u16 \<Rightarrow> u64" where
  "ecam_ptr s bus dev func off =
     ecam_phys_base s + push_bit 20 (ucast bus) + push_bit 15 (ucast dev) + push_bit 12 (ucast func)
       + (ucast off AND 0xFFC) + ecam_phys_offset s"

definition read32 :: "'hw cfg_ops \<Rightarrow> 'hw Ecam \<Rightarrow> u8 \<Rightarrow> u8 \<Rightarrow> u8 \<Rightarrow> u16 \<Rightarrow> u32" where
  "read32 ops s bus dev func off = cfg_rd ops (ecam_hw s) (ecam_ptr s bus dev func off)"

definition read16 :: "'hw cfg_ops \<Rightarrow> 'hw Ecam \<Rightarrow> u8 \<Rightarrow> u8 \<Rightarrow> u8 \<Rightarrow> u16 \<Rightarrow> u16" where
  "read16 ops s bus dev func off =
     ucast (drop_bit (unat ((off AND 2) * 8)) (read32 ops s bus dev func (off AND NOT 3)))"

definition read8 :: "'hw cfg_ops \<Rightarrow> 'hw Ecam \<Rightarrow> u8 \<Rightarrow> u8 \<Rightarrow> u8 \<Rightarrow> u16 \<Rightarrow> u8" where
  "read8 ops s bus dev func off =
     ucast (drop_bit (unat ((off AND 3) * 8)) (read32 ops s bus dev func (off AND NOT 3)))"

definition write32 :: "'hw cfg_ops \<Rightarrow> 'hw Ecam \<Rightarrow> u8 \<Rightarrow> u8 \<Rightarrow> u8 \<Rightarrow> u16 \<Rightarrow> u32 \<Rightarrow> 'hw Ecam" where
  "write32 ops s bus dev func off val =
     s\<lparr>ecam_hw := cfg_wr ops (ecam_hw s) (ecam_ptr s bus dev func off) val\<rparr>"

definition write16 :: "'hw cfg_ops \<Rightarrow> 'hw Ecam \<Rightarrow> u8 \<Rightarrow> u8 \<Rightarrow> u8 \<Rightarrow> u16 \<Rightarrow> u16 \<Rightarrow> 'hw Ecam" where
  "write16 ops s bus dev func off val =
     (let cur = read32 ops s bus dev func (off AND NOT 3); shift = unat ((off AND 2) * 8)
      in write32 ops s bus dev func (off AND NOT 3)
           ((cur AND NOT (push_bit shift 0xFFFF)) OR push_bit shift (ucast val)))"

definition write8 :: "'hw cfg_ops \<Rightarrow> 'hw Ecam \<Rightarrow> u8 \<Rightarrow> u8 \<Rightarrow> u8 \<Rightarrow> u16 \<Rightarrow> u8 \<Rightarrow> 'hw Ecam" where
  "write8 ops s bus dev func off val =
     (let cur = read32 ops s bus dev func (off AND NOT 3); shift = unat ((off AND 3) * 8)
      in write32 ops s bus dev func (off AND NOT 3)
           ((cur AND NOT (push_bit shift 0xFF)) OR push_bit shift (ucast val)))"

section \<open>Base address registers\<close>

datatype Bar = Memory PhysAddr u64 bool | BarIo u16 u64 | Empty

fun mmio_phys :: "Bar \<Rightarrow> PhysAddr option" where
  "mmio_phys (Memory base n pf) = Some base"
| "mmio_phys _ = None"

fun io_port :: "Bar \<Rightarrow> u16 option" where
  "io_port (BarIo port n) = Some port"
| "io_port _ = None"

fun bar_size :: "Bar \<Rightarrow> u64" where
  "bar_size (Memory base n pf) = n"
| "bar_size (BarIo port n) = n"
| "bar_size Empty = 0"

text \<open>\<open>probe\<close>: the register, the number of slots it takes, and the machine after the sizing writes.\<close>

definition probe :: "'hw cfg_ops \<Rightarrow> 'hw Ecam \<Rightarrow> u8 \<Rightarrow> u8 \<Rightarrow> u8 \<Rightarrow> nat \<Rightarrow> (Bar \<times> nat) \<times> 'hw Ecam" where
  "probe ops s bus dev func idx =
     (let off = of_nat (0x10 + idx * 4);
          rd = (\<lambda>s off. read32 ops s bus dev func off);
          wr = (\<lambda>s off v. write32 ops s bus dev func off v);
          orig = rd s off
      in if orig = 0 \<or> orig = 0xFFFFFFFF then ((Empty, 1), s)
         else if orig AND 1 \<noteq> 0 then
           let s1 = wr s off 0xFFFFFFFF; msk = rd s1 off; s2 = wr s1 off orig;
               n = ucast (NOT (msk AND NOT 0xF) + 1)
           in ((BarIo (ucast (orig AND 0xFFFC)) n, 1), s2)
         else
           let bar_type = drop_bit 1 orig AND 3; prefetchable = drop_bit 3 orig AND 1 \<noteq> 0
           in if bar_type = 0 then
                let s1 = wr s off 0xFFFFFFFF; msk = rd s1 off; s2 = wr s1 off orig;
                    n = ucast (NOT (msk AND NOT 0xF) + 1); base = ucast orig AND NOT 0xF
                in ((Memory base n prefetchable, 1), s2)
              else if bar_type = 2 then
                let off_hi = off + 4; orig_hi = rd s off_hi;
                    s1 = wr s off 0xFFFFFFFF; s2 = wr s1 off_hi 0xFFFFFFFF;
                    mask_lo = ucast (rd s2 off); mask_hi = ucast (rd s2 off_hi);
                    s3 = wr s2 off orig; s4 = wr s3 off_hi orig_hi;
                    mask64 = (mask_lo AND NOT 0xF) OR push_bit 32 mask_hi;
                    n = NOT mask64 + 1;
                    base = (ucast orig AND NOT 0xF) OR push_bit 32 (ucast orig_hi)
                in ((Memory base n prefetchable, 2), s4)
              else ((Empty, 1), s))"

lemma probe_consumes: "((bar, n), s') = probe ops s bus dev func idx \<Longrightarrow> 0 < n"
  by (auto simp: probe_def Let_def split: if_splits)

function parse_bars ::
    "'hw cfg_ops \<Rightarrow> 'hw Ecam \<Rightarrow> u8 \<Rightarrow> u8 \<Rightarrow> u8 \<Rightarrow> nat \<Rightarrow> Bar list \<Rightarrow> Bar list \<times> 'hw Ecam" where
  "parse_bars ops s bus dev func i bars =
     (if i < 6
      then case probe ops s bus dev func i of
             ((bar, consumed), s') \<Rightarrow> parse_bars ops s' bus dev func (i + consumed) (bars[i := bar])
      else (bars, s))"
  by pat_completeness auto
termination
  by (relation "measure (\<lambda>(ops, s, bus, dev, func, i, bars). 6 - i)")
    (auto dest: probe_consumes)

declare parse_bars.simps [simp del]

definition parse_all :: "'hw cfg_ops \<Rightarrow> 'hw Ecam \<Rightarrow> u8 \<Rightarrow> u8 \<Rightarrow> u8 \<Rightarrow> Bar list \<times> 'hw Ecam" where
  "parse_all ops s bus dev func = parse_bars ops s bus dev func 0 (replicate 6 Empty)"

section \<open>Functions\<close>

record PciAddress =
  pa_bus :: u8
  pa_device :: u8
  pa_function :: u8

record PciDeviceInfo =
  pci_address :: PciAddress
  vendor_id :: u16
  device_id :: u16
  pci_class :: u8
  pci_subclass :: u8
  prog_if :: u8
  revision :: u8
  bars :: "Bar list"
  irq_line :: "u8 option"

definition bar_mmio :: "PciDeviceInfo \<Rightarrow> nat \<Rightarrow> PhysAddr option" where
  "bar_mmio info idx = (if idx < length (bars info) then mmio_phys (bars info ! idx) else None)"

definition bar_io :: "PciDeviceInfo \<Rightarrow> nat \<Rightarrow> u16 option" where
  "bar_io info idx = (if idx < length (bars info) then io_port (bars info ! idx) else None)"

definition info_read8 :: "'hw cfg_ops \<Rightarrow> 'hw Ecam \<Rightarrow> PciDeviceInfo \<Rightarrow> u16 \<Rightarrow> u8" where
  "info_read8 ops s i off =
     read8 ops s (pa_bus (pci_address i)) (pa_device (pci_address i)) (pa_function (pci_address i)) off"

definition info_read16 :: "'hw cfg_ops \<Rightarrow> 'hw Ecam \<Rightarrow> PciDeviceInfo \<Rightarrow> u16 \<Rightarrow> u16" where
  "info_read16 ops s i off =
     read16 ops s (pa_bus (pci_address i)) (pa_device (pci_address i)) (pa_function (pci_address i)) off"

definition info_read32 :: "'hw cfg_ops \<Rightarrow> 'hw Ecam \<Rightarrow> PciDeviceInfo \<Rightarrow> u16 \<Rightarrow> u32" where
  "info_read32 ops s i off =
     read32 ops s (pa_bus (pci_address i)) (pa_device (pci_address i)) (pa_function (pci_address i)) off"

definition info_write8 :: "'hw cfg_ops \<Rightarrow> 'hw Ecam \<Rightarrow> PciDeviceInfo \<Rightarrow> u16 \<Rightarrow> u8 \<Rightarrow> 'hw Ecam" where
  "info_write8 ops s i off val =
     write8 ops s (pa_bus (pci_address i)) (pa_device (pci_address i)) (pa_function (pci_address i)) off val"

definition info_write32 :: "'hw cfg_ops \<Rightarrow> 'hw Ecam \<Rightarrow> PciDeviceInfo \<Rightarrow> u16 \<Rightarrow> u32 \<Rightarrow> 'hw Ecam" where
  "info_write32 ops s i off val =
     write32 ops s (pa_bus (pci_address i)) (pa_device (pci_address i)) (pa_function (pci_address i)) off val"

definition info_write16 :: "'hw cfg_ops \<Rightarrow> 'hw Ecam \<Rightarrow> PciDeviceInfo \<Rightarrow> u16 \<Rightarrow> u16 \<Rightarrow> 'hw Ecam" where
  "info_write16 ops s i off val =
     write16 ops s (pa_bus (pci_address i)) (pa_device (pci_address i)) (pa_function (pci_address i)) off val"

definition enable_bus_master :: "'hw cfg_ops \<Rightarrow> 'hw Ecam \<Rightarrow> PciDeviceInfo \<Rightarrow> 'hw Ecam" where
  "enable_bus_master ops s i = info_write16 ops s i 0x04 (info_read16 ops s i 0x04 OR push_bit 2 1)"

definition enable_mmio :: "'hw cfg_ops \<Rightarrow> 'hw Ecam \<Rightarrow> PciDeviceInfo \<Rightarrow> 'hw Ecam" where
  "enable_mmio ops s i = info_write16 ops s i 0x04 (info_read16 ops s i 0x04 OR push_bit 1 1)"

section \<open>Enumeration\<close>

text \<open>The body of the innermost loop: a present function is described and reported.\<close>

definition describe_function ::
    "'hw cfg_ops \<Rightarrow> 'hw Ecam \<Rightarrow> u8 \<Rightarrow> u8 \<Rightarrow> u8 \<Rightarrow> PciDeviceInfo option \<times> 'hw Ecam" where
  "describe_function ops s bus dev func =
     (let val = read32 ops s bus dev func 0x00
      in if val AND 0xFFFF = 0xFFFF then (None, s)
         else
           let class_dw = read32 ops s bus dev func 0x08;
               header_type = read8 ops s bus dev func 0x0E AND NOT 0x80;
               (bs, s') = (if header_type = 0 then parse_all ops s bus dev func else (replicate 6 Empty, s));
               v = read8 ops s' bus dev func 0x3C
           in (Some \<lparr>pci_address = \<lparr>pa_bus = bus, pa_device = dev, pa_function = func\<rparr>,
                     vendor_id = ucast (val AND 0xFFFF), device_id = ucast (drop_bit 16 val),
                     pci_class = ucast (drop_bit 24 class_dw AND 0xFF),
                     pci_subclass = ucast (drop_bit 16 class_dw AND 0xFF),
                     prog_if = ucast (drop_bit 8 class_dw AND 0xFF), revision = ucast (class_dw AND 0xFF),
                     bars = bs, irq_line = (if v = 0xFF then None else Some v)\<rparr>, s'))"

text \<open>
  The callback \<open>f\<close> acts on the state \<open>'a\<close> it captures and may read the machine; no callback of the code
  writes to it.
\<close>

fun enum_functions ::
    "'hw cfg_ops \<Rightarrow> ('hw Ecam \<Rightarrow> PciDeviceInfo \<Rightarrow> 'a \<Rightarrow> 'a) \<Rightarrow> 'hw Ecam \<Rightarrow> u8 \<Rightarrow> u8 \<Rightarrow> u8 list \<Rightarrow> 'a \<Rightarrow> 'a \<times> 'hw Ecam" where
  "enum_functions ops f s bus dev [] a = (a, s)"
| "enum_functions ops f s bus dev (func # funcs) a =
     (case describe_function ops s bus dev func of
        (found, s) \<Rightarrow> enum_functions ops f s bus dev funcs (case found of Some i \<Rightarrow> f s i a | None \<Rightarrow> a))"

definition enum_device ::
    "'hw cfg_ops \<Rightarrow> ('hw Ecam \<Rightarrow> PciDeviceInfo \<Rightarrow> 'a \<Rightarrow> 'a) \<Rightarrow> 'hw Ecam \<Rightarrow> u8 \<Rightarrow> u8 \<Rightarrow> 'a \<Rightarrow> 'a \<times> 'hw Ecam" where
  "enum_device ops f s bus dev a =
     (if read32 ops s bus dev 0 0x00 AND 0xFFFF = 0xFFFF then (a, s)
      else
        let funcs = (if read8 ops s bus dev 0 0x0E AND 0x80 \<noteq> 0 then 8 else 1)
        in enum_functions ops f s bus dev (map of_nat [0..<funcs]) a)"

fun enum_devices ::
    "'hw cfg_ops \<Rightarrow> ('hw Ecam \<Rightarrow> PciDeviceInfo \<Rightarrow> 'a \<Rightarrow> 'a) \<Rightarrow> 'hw Ecam \<Rightarrow> (u8 \<times> u8) list \<Rightarrow> 'a \<Rightarrow> 'a \<times> 'hw Ecam" where
  "enum_devices ops f s [] a = (a, s)"
| "enum_devices ops f s ((bus, dev) # ds) a =
     (case enum_device ops f s bus dev a of (a, s) \<Rightarrow> enum_devices ops f s ds a)"

definition all_slots :: "(u8 \<times> u8) list" where
  "all_slots = concat (map (\<lambda>b. map (\<lambda>d. (of_nat b, of_nat d)) [0..<32]) [0..<256])"

definition enumerate ::
    "'hw cfg_ops \<Rightarrow> ('hw Ecam \<Rightarrow> PciDeviceInfo \<Rightarrow> 'a \<Rightarrow> 'a) \<Rightarrow> 'hw Ecam \<Rightarrow> 'a \<Rightarrow> ('a, unit) result \<times> 'hw Ecam" where
  "enumerate ops f s a =
     (if ecam_is_ready s then case enum_devices ops f s all_slots a of (a, s') \<Rightarrow> (Ok a, s') else (Panic, s))"

section \<open>Capabilities\<close>

datatype CapabilityId = Msi | MsiX | Pcie | VendorSpecific | PowerManagement | CapUnknown u8

definition cap_from_u8 :: "u8 \<Rightarrow> CapabilityId" where
  "cap_from_u8 v =
     (if v = 0x01 then PowerManagement else if v = 0x05 then Msi else if v = 0x10 then Pcie
      else if v = 0x11 then MsiX else if v = 0x09 then VendorSpecific else CapUnknown v)"

record Capability =
  cap_id :: CapabilityId
  cap_at :: u16

fun cap_walk :: "'hw cfg_ops \<Rightarrow> 'hw Ecam \<Rightarrow> PciDeviceInfo \<Rightarrow> nat \<Rightarrow> u16 \<Rightarrow> Capability list" where
  "cap_walk ops s i 0 off = []"
| "cap_walk ops s i (Suc n) off =
     (if off < 0x40 \<or> 0xFC < off then []
      else
        let next = info_read8 ops s i (off + 1) AND NOT 3
        in \<lparr>cap_id = cap_from_u8 (info_read8 ops s i off), cap_at = off\<rparr>
             # (if next = 0 then [] else cap_walk ops s i n (ucast next)))"

definition parse_capabilities :: "'hw cfg_ops \<Rightarrow> 'hw Ecam \<Rightarrow> PciDeviceInfo \<Rightarrow> Capability list" where
  "parse_capabilities ops s i =
     (if info_read16 ops s i 0x06 AND push_bit 4 1 = 0 then []
      else cap_walk ops s i 48 (ucast (info_read8 ops s i 0x34 AND NOT 3)))"

definition find_capability :: "'hw cfg_ops \<Rightarrow> 'hw Ecam \<Rightarrow> PciDeviceInfo \<Rightarrow> CapabilityId \<Rightarrow> u16 option" where
  "find_capability ops s i c = map_option cap_at (find (\<lambda>x. cap_id x = c) (parse_capabilities ops s i))"

end
