(* ===== verification/PciScan.thy ===== *)
theory PciScan
  imports Pci
begin

text \<open>
  What enumeration and the sizing of base address registers do on a configuration space whose base
  address registers behave as PCI requires: a write sets the writable bits of its register and nothing
  else. Sizing then leaves the configuration space as it was, so that a scan sees one and the same
  machine throughout.
\<close>

section \<open>Registers with writable bits\<close>

definition bar_registers :: "'hw Ecam \<Rightarrow> u64 set" where
  "bar_registers s = {ecam_ptr s b d f (of_nat (0x10 + i * 4)) | b d f i. i < 7}"

text \<open>\<open>m a\<close> are the writable bits of the register at \<open>a\<close>.\<close>

definition config_space :: "'hw cfg_ops \<Rightarrow> u64 set \<Rightarrow> (u64 \<Rightarrow> u32) \<Rightarrow> bool" where
  "config_space ops B m \<longleftrightarrow>
     (\<forall>hw a v. a \<in> B \<longrightarrow> cfg_rd ops (cfg_wr ops hw a v)
        = (cfg_rd ops hw)(a := (v AND m a) OR (cfg_rd ops hw a AND NOT (m a))))"

definition same_reads :: "'hw cfg_ops \<Rightarrow> 'hw Ecam \<Rightarrow> 'hw Ecam \<Rightarrow> bool" where
  "same_reads ops s s' \<longleftrightarrow> ecam_phys_base s' = ecam_phys_base s \<and> ecam_phys_offset s' = ecam_phys_offset s
     \<and> cfg_rd ops (ecam_hw s') = cfg_rd ops (ecam_hw s)"

lemma same_reads_refl: "same_reads ops s s"
  by (simp add: same_reads_def)

lemma same_reads_trans: "same_reads ops s s' \<Longrightarrow> same_reads ops s' s'' \<Longrightarrow> same_reads ops s s''"
  by (simp add: same_reads_def)

lemma same_reads_ptr: "same_reads ops s s' \<Longrightarrow> ecam_ptr s' = ecam_ptr s"
  by (intro ext) (simp add: same_reads_def ecam_ptr_def)

lemma same_reads_regs: "same_reads ops s s' \<Longrightarrow> bar_registers s' = bar_registers s"
  by (simp add: bar_registers_def same_reads_ptr)

lemma same_reads_read32: "same_reads ops s s' \<Longrightarrow> read32 ops s' = read32 ops s"
  unfolding fun_eq_iff read32_def by (simp add: same_reads_ptr) (simp add: same_reads_def)

lemma same_reads_read8: "same_reads ops s s' \<Longrightarrow> read8 ops s' = read8 ops s"
  by (intro ext) (simp add: read8_def same_reads_read32)

lemma restore_word:
  "((y AND m) OR z) AND NOT m = z AND NOT (m :: u32)" "(z AND NOT m) AND NOT m = z AND NOT (m :: u32)"
  "(x AND m) OR (x AND NOT m) = (x :: u32)"
  by (rule bit_word_eqI; auto simp: bit_simps)+

lemma write32_frame:
  "ecam_phys_base (write32 ops s b d f off v) = ecam_phys_base s"
  "ecam_phys_offset (write32 ops s b d f off v) = ecam_phys_offset s"
  "ecam_ptr (write32 ops s b d f off v) = ecam_ptr s"
  "bar_registers (write32 ops s b d f off v) = bar_registers s"
  by (auto simp: write32_def bar_registers_def ecam_ptr_def fun_eq_iff)

lemma write32_reads:
  assumes "config_space ops (bar_registers s) m" "ecam_ptr s b d f off \<in> bar_registers s"
  shows "cfg_rd ops (ecam_hw (write32 ops s b d f off v)) =
    (cfg_rd ops (ecam_hw s))(ecam_ptr s b d f off :=
       (v AND m (ecam_ptr s b d f off)) OR (read32 ops s b d f off AND NOT (m (ecam_ptr s b d f off))))"
  using assms by (simp add: config_space_def write32_def read32_def)

lemma bar_offset: "i < 7 \<Longrightarrow> ecam_ptr s b d f (of_nat (0x10 + i * 4)) \<in> bar_registers s"
  by (auto simp: bar_registers_def simp del: of_nat_add of_nat_mult)

lemma sizing_restores:
  assumes "config_space ops (bar_registers s) m" "ecam_ptr s b d f off \<in> bar_registers s"
  shows "same_reads ops s (write32 ops (write32 ops s b d f off v) b d f off (read32 ops s b d f off))"
    and "read32 ops (write32 ops s b d f off v) b d f off
      = (v AND m (ecam_ptr s b d f off)) OR (read32 ops s b d f off AND NOT (m (ecam_ptr s b d f off)))"
  using assms by (simp_all add: same_reads_def write32_frame write32_reads read32_def restore_word)

lemma sizing_restores_pair:
  assumes "config_space ops (bar_registers s) m"
    and "ecam_ptr s b d f off \<in> bar_registers s" "ecam_ptr s b d f hi \<in> bar_registers s"
  shows "same_reads ops s (write32 ops (write32 ops (write32 ops (write32 ops s b d f off v) b d f hi w)
      b d f off (read32 ops s b d f off)) b d f hi (read32 ops s b d f hi))"
  using assms
  by (cases "ecam_ptr s b d f off = ecam_ptr s b d f hi")
    (simp_all add: same_reads_def write32_frame write32_reads read32_def restore_word fun_upd_twist fun_eq_iff)

lemma probe_restores:
  assumes cs: "config_space ops (bar_registers s) m" and i: "i < 6"
  shows "same_reads ops s (snd (probe ops s b d f i))"
proof -
  define off :: u16 where "off = of_nat (0x10 + i * 4)"
  have o: "ecam_ptr s b d f off \<in> bar_registers s" using bar_offset [of i s b d f] i by (simp add: off_def)
  have h: "ecam_ptr s b d f (off + 4) \<in> bar_registers s"
    using bar_offset [of "Suc i" s b d f] i by (simp add: off_def add.commute)
  note r = sizing_restores(1) [OF cs o, of "0xFFFFFFFF"] sizing_restores_pair [OF cs o h, of "0xFFFFFFFF" "0xFFFFFFFF"]
  show ?thesis
    unfolding probe_def Let_def off_def [symmetric] by (simp add: r same_reads_refl)
qed

lemma parse_bars_restores:
  "config_space ops (bar_registers s) m \<Longrightarrow> same_reads ops s (snd (parse_bars ops s b d f i bs))"
proof (induction ops s b d f i bs rule: parse_bars.induct)
  case (1 ops s b d f i bs)
  show ?case
  proof (cases "i < 6")
    case True
    obtain bar n s' where p: "probe ops s b d f i = ((bar, n), s')" by (metis surj_pair)
    have "same_reads ops s s'" using probe_restores [OF 1(2) True, of b d f] p by simp
    then show ?thesis
      using 1(1) [OF True p [symmetric] refl] 1(2) True p same_reads_trans
      by (subst parse_bars.simps) (auto simp: same_reads_regs)
  next
    case False
    then show ?thesis by (subst parse_bars.simps) (simp add: same_reads_refl)
  qed
qed

lemma describe_function_restores:
  assumes "config_space ops (bar_registers s) m"
  shows "same_reads ops s (snd (describe_function ops s b d f))"
  using parse_bars_restores [OF assms, of b d f 0 "replicate 6 Empty"]
  by (auto simp: describe_function_def parse_all_def Let_def same_reads_refl split: prod.split)

section \<open>Enumeration\<close>

definition present :: "'hw cfg_ops \<Rightarrow> 'hw Ecam \<Rightarrow> u8 \<Rightarrow> u8 \<Rightarrow> u8 \<Rightarrow> bool" where
  "present ops s b d f \<longleftrightarrow> read32 ops s b d f 0 AND 0xFFFF \<noteq> 0xFFFF"

definition multifunction :: "'hw cfg_ops \<Rightarrow> 'hw Ecam \<Rightarrow> u8 \<Rightarrow> u8 \<Rightarrow> bool" where
  "multifunction ops s b d \<longleftrightarrow> read8 ops s b d 0 0x0E AND 0x80 \<noteq> 0"

abbreviation address :: "u8 \<Rightarrow> u8 \<Rightarrow> u8 \<Rightarrow> PciAddress" where
  "address b d f \<equiv> \<lparr>pa_bus = b, pa_device = d, pa_function = f\<rparr>"

lemma same_reads_present: "same_reads ops s s' \<Longrightarrow> present ops s' = present ops s"
  by (intro ext) (simp add: present_def same_reads_read32)

lemma same_reads_multifunction: "same_reads ops s s' \<Longrightarrow> multifunction ops s' = multifunction ops s"
  by (intro ext) (simp add: multifunction_def same_reads_read8)

lemma describe_function_address:
  "fst (describe_function ops s b d f) = None \<longleftrightarrow> \<not> present ops s b d f"
  "fst (describe_function ops s b d f) = Some i \<Longrightarrow> pci_address i = address b d f"
  by (auto simp: describe_function_def present_def Let_def split: prod.splits if_splits)

text \<open>The reports of a part of the scan: what was passed to the callback, on which machine.\<close>

type_synonym 'hw reports = "(PciDeviceInfo \<times> 'hw Ecam) list"

definition deliver :: "('hw Ecam \<Rightarrow> PciDeviceInfo \<Rightarrow> 'a \<Rightarrow> 'a) \<Rightarrow> 'hw reports \<Rightarrow> 'a \<Rightarrow> 'a" where
  "deliver f rs a = fold (\<lambda>(i, s) a. f s i a) rs a"

lemma deliver_simps [simp]: "deliver f [] a = a" "deliver f (r # rs) a = deliver f rs (f (snd r) (fst r) a)"
  "deliver f (xs @ ys) a = deliver f ys (deliver f xs a)"
  by (simp_all add: deliver_def case_prod_unfold)

definition scan_result ::
    "'hw cfg_ops \<Rightarrow> ('hw Ecam \<Rightarrow> PciDeviceInfo \<Rightarrow> 'a \<Rightarrow> 'a) \<Rightarrow> 'hw Ecam \<Rightarrow> 'a \<Rightarrow> PciAddress list \<Rightarrow> 'hw reports \<Rightarrow> 'a \<times> 'hw Ecam \<Rightarrow> bool" where
  "scan_result ops f s a as rs res \<longleftrightarrow> fst res = deliver f rs a \<and> map (pci_address \<circ> fst) rs = as
     \<and> same_reads ops s (snd res) \<and> (\<forall>(i, s') \<in> set rs. same_reads ops s s' \<and> vendor_id i \<noteq> 0xFFFF)"

lemma scan_result_Nil: "scan_result ops f s a [] [] (a, s)"
  by (simp add: scan_result_def same_reads_refl)

lemma scan_result_append:
  assumes "scan_result ops f s a as rs (a', s')" "scan_result ops f s' a' as' rs' res"
  shows "scan_result ops f s a (as @ as') (rs @ rs') res"
  using assms same_reads_trans [of ops s s'] unfolding scan_result_def by fastforce

lemma describe_function_vendor:
  assumes "fst (describe_function ops s b d f) = Some i"
  shows "vendor_id i \<noteq> 0xFFFF"
proof -
  have "(ucast (val AND 0xFFFF) :: u16) = 0xFFFF \<Longrightarrow> val AND 0xFFFF = 0xFFFF" for val :: u32
  proof -
    have m: "(0xFFFF :: u32) = mask 16" by (simp add: mask_eq_exp_minus_1)
    have "val AND 0xFFFF = ucast (ucast (val AND 0xFFFF) :: u16)"
      unfolding m by (intro bit_word_eqI) (auto simp: bit_simps)
    then show "(ucast (val AND 0xFFFF) :: u16) = 0xFFFF \<Longrightarrow> val AND 0xFFFF = 0xFFFF" by simp
  qed
  with assms show ?thesis by (auto simp: describe_function_def Let_def split: prod.splits if_splits)
qed

lemma describe_function_report:
  assumes "config_space ops (bar_registers s) m" "describe_function ops s b d func = (found, s')"
  shows "scan_result ops f s a (if present ops s b d func then [address b d func] else [])
    (case found of Some i \<Rightarrow> [(i, s')] | None \<Rightarrow> []) (case found of Some i \<Rightarrow> f s' i a | None \<Rightarrow> a, s')"
  using describe_function_restores [OF assms(1), of b d func] describe_function_address [of ops s b d func]
    describe_function_vendor [of ops s b d func] assms(2)
  by (cases found) (simp_all add: scan_result_def)

lemma enum_functions_reports:
  assumes "config_space ops (bar_registers s) m"
  shows "\<exists>rs. scan_result ops f s a (map (address b d) (filter (present ops s b d) fs)) rs (enum_functions ops f s b d fs a)"
  using assms
proof (induction fs arbitrary: s a)
  case Nil
  show ?case using scan_result_Nil [of ops f s a] by (intro exI [of _ "[]"]) simp
next
  case (Cons func fs)
  obtain found s' where d: "describe_function ops s b d func = (found, s')" by fastforce
  note one = describe_function_report [OF Cons.prems d, of f a]
  have sr: "same_reads ops s s'" using one by (simp add: scan_result_def)
  obtain rs where "scan_result ops f s' (case found of Some i \<Rightarrow> f s' i a | None \<Rightarrow> a)
      (map (address b d) (filter (present ops s b d) fs)) rs
      (enum_functions ops f s' b d fs (case found of Some i \<Rightarrow> f s' i a | None \<Rightarrow> a))"
    using Cons.IH [of s'] Cons.prems sr by (auto simp: same_reads_regs same_reads_present)
  from scan_result_append [OF one this] show ?case by (auto simp: d)
qed

definition scanned_functions :: "'hw cfg_ops \<Rightarrow> 'hw Ecam \<Rightarrow> u8 \<times> u8 \<Rightarrow> PciAddress list" where
  "scanned_functions ops s bd =
     (if present ops s (fst bd) (snd bd) 0
      then map (address (fst bd) (snd bd)) (filter (present ops s (fst bd) (snd bd))
             (map of_nat [0..<if multifunction ops s (fst bd) (snd bd) then 8 else 1]))
      else [])"

lemma enum_device_reports:
  assumes "config_space ops (bar_registers s) m"
  shows "\<exists>rs. scan_result ops f s a (scanned_functions ops s (b, d)) rs (enum_device ops f s b d a)"
  using enum_functions_reports [OF assms, of f a b d] scan_result_Nil [of ops f s a]
  by (auto simp: enum_device_def scanned_functions_def present_def [of ops s b d 0] multifunction_def)

lemma enum_devices_reports:
  assumes "config_space ops (bar_registers s) m"
  shows "\<exists>rs. scan_result ops f s a (concat (map (scanned_functions ops s) ds)) rs (enum_devices ops f s ds a)"
  using assms
proof (induction ds arbitrary: s a)
  case Nil
  show ?case using scan_result_Nil [of ops f s a] by (intro exI [of _ "[]"]) simp
next
  case (Cons bd ds)
  obtain b d where bd: "bd = (b, d)" by fastforce
  obtain a' s' where e: "enum_device ops f s b d a = (a', s')" by fastforce
  obtain rs where one: "scan_result ops f s a (scanned_functions ops s (b, d)) rs (a', s')"
    using enum_device_reports [OF Cons.prems, of f a b d] e by auto
  then have sr: "same_reads ops s s'" by (simp add: scan_result_def)
  then have "scanned_functions ops s' = scanned_functions ops s"
    by (intro ext) (simp add: scanned_functions_def same_reads_present same_reads_multifunction)
  then obtain rs' where "scan_result ops f s' a' (concat (map (scanned_functions ops s) ds)) rs' (enum_devices ops f s' ds a')"
    using Cons.IH [of s'] Cons.prems sr by (metis same_reads_regs)
  from scan_result_append [OF one this] show ?case by (auto simp: bd e)
qed

lemma of_nat_u8_inj: "m < 256 \<Longrightarrow> n < 256 \<Longrightarrow> (of_nat m :: u8) = of_nat n \<longleftrightarrow> m = n"
  by (simp add: word_of_nat_eq_iff take_bit_nat_eq_self)

lemma u8_of_nat: "(b :: u8) = of_nat (unat b)" "unat b < 256"
  using unat_u8_less [of b] by simp_all

lemma all_slots_set: "(b, d) \<in> set all_slots \<longleftrightarrow> d < 32"
proof -
  have "(\<exists>n < 32. d = of_nat n) \<longleftrightarrow> d < 32"
  proof
    assume "d < 32"
    then have "unat d < 32" by (simp add: word_less_nat_alt)
    then show "\<exists>n < 32. d = of_nat n" using u8_of_nat(1) by blast
  qed (auto simp: word_less_nat_alt unat_of_nat)
  moreover have "\<exists>n < 256. b = of_nat n" using u8_of_nat by blast
  ultimately show ?thesis by (auto simp: all_slots_def image_iff)
qed

lemma distinct_all_slots: "distinct all_slots"
proof -
  have row: "distinct (map (\<lambda>d. (of_nat b :: u8, of_nat d :: u8)) [0..<32])" for b
    by (auto simp: distinct_map inj_on_def of_nat_u8_inj)
  have "distinct (concat (map (\<lambda>b. map (\<lambda>d. (of_nat b :: u8, of_nat d :: u8)) [0..<32]) bs))"
    if "distinct bs" "\<forall>b \<in> set bs. b < 256" for bs
    using that by (induction bs) (auto simp: row of_nat_u8_inj)
  then show ?thesis by (simp add: all_slots_def)
qed

lemma scanned_functions_mem:
  "address b d f \<in> set (scanned_functions ops s bd) \<longleftrightarrow>
     bd = (b, d) \<and> f < 8 \<and> present ops s b d 0 \<and> present ops s b d f \<and> (f = 0 \<or> multifunction ops s b d)"
proof -
  have "(\<exists>n < 8. f = of_nat n) \<longleftrightarrow> f < 8"
  proof
    assume "f < 8"
    then have "unat f < 8" by (simp add: word_less_nat_alt)
    then show "\<exists>n < 8. f = of_nat n" using u8_of_nat(1) by blast
  qed (auto simp: word_less_nat_alt unat_of_nat)
  then show ?thesis by (cases bd) (auto simp: scanned_functions_def image_iff word_less_nat_alt)
qed

lemma scanned_functions_slot: "a \<in> set (scanned_functions ops s bd) \<Longrightarrow> (pa_bus a, pa_device a) = bd"
  by (auto simp: scanned_functions_def split: if_splits)

lemma distinct_scanned: "distinct ds \<Longrightarrow> distinct (concat (map (scanned_functions ops s) ds))"
proof (induction ds)
  case Nil
  then show ?case by simp
next
  case (Cons bd ds)
  have "distinct (scanned_functions ops s bd)"
    by (auto simp: scanned_functions_def distinct_map inj_on_def of_nat_u8_inj intro!: distinct_filter)
  moreover have "a \<notin> set (scanned_functions ops s bd')" if "bd' \<in> set ds" "a \<in> set (scanned_functions ops s bd)" for a bd'
    using scanned_functions_slot that Cons.prems by (metis distinct.simps(2))
  ultimately show ?case using Cons by auto
qed

text \<open>What a complete scan delivers, for any callback.\<close>

lemma enumerate_reports:
  assumes "config_space ops (bar_registers s) m" "ecam_phys_base s \<noteq> 0"
  shows "\<exists>rs s'. enumerate ops f s a = (Ok (deliver f rs a), s') \<and> distinct (map (pci_address \<circ> fst) rs)
    \<and> same_reads ops s s' \<and> (\<forall>(i, s'') \<in> set rs. same_reads ops s s'' \<and> vendor_id i \<noteq> 0xFFFF)
    \<and> (\<forall>b d f. address b d f \<in> set (map (pci_address \<circ> fst) rs) \<longleftrightarrow>
         d < 32 \<and> f < 8 \<and> present ops s b d 0 \<and> present ops s b d f \<and> (f = 0 \<or> multifunction ops s b d))"
proof -
  obtain a' s' where e: "enum_devices ops f s all_slots a = (a', s')" by fastforce
  obtain rs where r: "scan_result ops f s a (concat (map (scanned_functions ops s) all_slots)) rs (a', s')"
    using enum_devices_reports [OF assms(1), of f a all_slots] e by auto
  have m: "map (pci_address \<circ> fst) rs = concat (map (scanned_functions ops s) all_slots)"
    using r by (simp add: scan_result_def)
  have "address b d f \<in> set (map (pci_address \<circ> fst) rs) \<longleftrightarrow>
      d < 32 \<and> f < 8 \<and> present ops s b d 0 \<and> present ops s b d f \<and> (f = 0 \<or> multifunction ops s b d)" for b d f
    unfolding m using all_slots_set [of b d] by (auto simp: scanned_functions_mem)
  moreover have "distinct (map (pci_address \<circ> fst) rs)" unfolding m by (rule distinct_scanned [OF distinct_all_slots])
  moreover have "enumerate ops f s a = (Ok (deliver f rs a), s')"
    using assms(2) e r by (simp add: enumerate_def ecam_is_ready_def scan_result_def)
  ultimately show ?thesis using r unfolding scan_result_def by (intro exI [of _ rs] exI [of _ s']) simp
qed

text \<open>
  C18: on a conforming configuration space, enumeration calls its callback on every present function of
  every device whose function 0 is present, exactly once (functions 1 to 7 only of a multi-function device),
  and leaves all registers as they were.
\<close>

theorem enumerate_complete:
  assumes "config_space ops (bar_registers s) m" "ecam_phys_base s \<noteq> 0"
  shows "\<exists>rs s'. enumerate ops f s a = (Ok (deliver f rs a), s') \<and> distinct (map (pci_address \<circ> fst) rs)
    \<and> same_reads ops s s'
    \<and> (\<forall>b d f. address b d f \<in> set (map (pci_address \<circ> fst) rs) \<longleftrightarrow>
         d < 32 \<and> f < 8 \<and> present ops s b d 0 \<and> present ops s b d f \<and> (f = 0 \<or> multifunction ops s b d))"
  using enumerate_reports [OF assms, of f a] by blast

text \<open>A machine with one function, behind an ECAM window at \<open>0xB0000000\<close>.\<close>

definition sample_ops :: "(u64 \<Rightarrow> u32) cfg_ops" where
  "sample_ops = \<lparr>cfg_rd = (\<lambda>hw a. hw a),
                 cfg_wr = (\<lambda>hw a v. hw(a := (v AND NOT 0xFFF) OR (hw a AND 0xFFF)))\<rparr>"

definition sample_ecam :: "(u64 \<Rightarrow> u32) Ecam" where
  "sample_ecam = \<lparr>ecam_phys_base = 0xB0000000, ecam_phys_offset = 0,
     ecam_hw = (\<lambda>_. 0xFFFFFFFF)(0xB0018000 := 0x10421AF4, 0xB001800C := 0, 0xB0018010 := 0xFEBC0000)\<rparr>"

lemma sample_config_space: "config_space sample_ops B (\<lambda>_. NOT 0xFFF)"
  by (simp add: config_space_def sample_ops_def)

lemma sample_present:
  "present sample_ops sample_ecam 0 3 0" "\<not> present sample_ops sample_ecam 0 4 0" "ecam_phys_base sample_ecam \<noteq> 0"
  by (simp_all add: present_def read32_def ecam_ptr_def sample_ops_def sample_ecam_def)

theorem enumerate_complete_witness:
  "present sample_ops sample_ecam 0 3 0 \<and> \<not> present sample_ops sample_ecam 0 4 0
   \<and> (\<exists>rs s'. enumerate sample_ops (\<lambda>_ i is. is @ [pci_address i]) sample_ecam []
          = (Ok (deliver (\<lambda>_ :: (u64 \<Rightarrow> u32) Ecam. \<lambda>i is. is @ [pci_address i]) rs []), s')
        \<and> distinct (map (pci_address \<circ> fst) rs) \<and> same_reads sample_ops sample_ecam s'
        \<and> (\<forall>b d f. address b d f \<in> set (map (pci_address \<circ> fst) rs) \<longleftrightarrow>
             d < 32 \<and> f < 8 \<and> present sample_ops sample_ecam b d 0 \<and> present sample_ops sample_ecam b d f
             \<and> (f = 0 \<or> multifunction sample_ops sample_ecam b d)))"
  by (intro conjI sample_present enumerate_complete [OF sample_config_space])

section \<open>Sizes of base address registers\<close>

lemma probe_memory32:
  assumes "orig = read32 ops s b d f (of_nat (0x10 + i * 4))" "orig \<noteq> 0" "orig \<noteq> 0xFFFFFFFF" "orig AND 7 = 0"
    and "msk = read32 ops (write32 ops s b d f (of_nat (0x10 + i * 4)) 0xFFFFFFFF) b d f (of_nat (0x10 + i * 4))"
  shows "fst (probe ops s b d f i)
    = (Memory (ucast orig AND NOT 0xF) (ucast (NOT (msk AND NOT 0xF) + 1)) (drop_bit 3 orig AND 1 \<noteq> 0), 1)"
proof -
  have "orig AND 1 = (orig AND 7) AND 1" by (rule bit_word_eqI) (auto simp: bit_simps)
  moreover have "drop_bit 1 orig AND 3 = drop_bit 1 (orig AND 7)" by (rule bit_word_eqI) (auto simp: bit_simps)
  ultimately have "orig AND 1 = 0" "drop_bit 1 orig AND 3 = 0" unfolding assms(4) by simp_all
  with assms show ?thesis by (simp add: probe_def Let_def del: of_nat_add of_nat_mult)
qed

lemma size_mask:
  assumes "4 \<le> k" "k < 32" "(orig :: u32) AND mask k AND NOT 0xF = 0"
  shows "(ucast (NOT (((0xFFFFFFFF AND NOT (mask k)) OR (orig AND mask k)) AND NOT 0xF) + 1 :: u32) :: u64) = 2 ^ k"
proof -
  have m4: "(0xF :: u32) = mask 4" by (simp add: mask_eq_exp_minus_1)
  have low: "\<not> (bit orig n \<and> n < k \<and> 4 \<le> n)" for n
    using assms(2,3) bit_eq_iff [of "orig AND mask k AND NOT 0xF" 0] unfolding m4
    by (auto simp: bit_simps dest!: spec [of _ n])
  have "((0xFFFFFFFF AND NOT (mask k)) OR (orig AND mask k)) AND NOT 0xF = NOT (mask k :: u32)"
    unfolding m4
  proof (rule bit_word_eqI)
    fix n assume n: "n < LENGTH(32)"
    have "(0xFFFFFFFF :: u32) = mask 32" by (simp add: mask_eq_exp_minus_1)
    then have "bit (0xFFFFFFFF :: u32) n" using n by (simp only: bit_mask_iff) simp
    then show "bit (((0xFFFFFFFF AND NOT (mask k)) OR (orig AND mask k)) AND NOT (mask 4)) n = bit (NOT (mask k :: u32)) n"
      using low [of n] assms(1) n by (auto simp: bit_simps)
  qed
  then have "NOT (((0xFFFFFFFF AND NOT (mask k)) OR (orig AND mask k)) AND NOT 0xF) + 1 = (2 ^ k :: u32)"
    by (simp add: mask_eq_exp_minus_1)
  moreover have "(ucast (2 ^ k :: u32) :: u64) = 2 ^ k"
    by (rule bit_word_eqI) (use assms(2) in \<open>auto simp: bit_simps\<close>)
  ultimately show ?thesis by simp
qed

text \<open>
  A 32-bit memory base address register of \<open>2 ^ k\<close> bytes is reported with its base and that size, and
  keeps its value.
\<close>

theorem bar_size_memory32:
  assumes "config_space ops (bar_registers s) m" "i < 6" "off = of_nat (0x10 + i * 4)"
    and "4 \<le> k" "k < 32" "m (ecam_ptr s b d f off) = NOT (mask k)"
    and "orig = read32 ops s b d f off" "orig \<noteq> 0" "orig \<noteq> 0xFFFFFFFF" "orig AND 7 = 0" "orig AND mask k AND NOT 0xF = 0"
  shows "fst (probe ops s b d f i) = (Memory (ucast orig AND NOT 0xF) (2 ^ k) (drop_bit 3 orig AND 1 \<noteq> 0), 1)
    \<and> same_reads ops s (snd (probe ops s b d f i))"
proof -
  have o: "ecam_ptr s b d f off \<in> bar_registers s" using bar_offset [of i] assms(2,3) by simp
  have "read32 ops (write32 ops s b d f off 0xFFFFFFFF) b d f off = (0xFFFFFFFF AND NOT (mask k)) OR (orig AND mask k)"
    unfolding sizing_restores(2) [OF assms(1) o] assms(6) assms(7) [symmetric] by simp
  then show ?thesis
    using probe_memory32 [OF assms(7) [unfolded assms(3)] assms(8-10) refl] size_mask [OF assms(4,5,11)]
      probe_restores [OF assms(1,2)] unfolding assms(3) by simp
qed

theorem bar_size_memory32_witness:
  "fst (probe sample_ops sample_ecam 0 3 0 0) = (Memory 0xFEBC0000 (2 ^ 12) False, 1)"
proof -
  have r: "read32 sample_ops sample_ecam 0 3 0 (of_nat (0x10 + 0 * 4)) = 0xFEBC0000"
    by (simp add: read32_def ecam_ptr_def sample_ops_def sample_ecam_def)
  have "(0xFEBC0000 :: u32) AND mask 12 AND NOT 0xF = 0" by (simp add: mask_eq_exp_minus_1)
  moreover have "(NOT 0xFFF :: u32) = NOT (mask 12)" by (simp add: mask_eq_exp_minus_1)
  ultimately show ?thesis
    using bar_size_memory32 [OF sample_config_space, where s = sample_ecam and i = 0 and k = 12 and b = 0 and d = 3 and f = 0
        and orig = "0xFEBC0000"] r by simp
qed

text \<open>
  An I/O base address register of four ports is reported with sixteen: its two low address bits are
  masked off with the memory flags.
\<close>

theorem io_bar_size_wrong:
  assumes "config_space ops (bar_registers s) m" "i < 6" "off = of_nat (0x10 + i * 4)"
    and "m (ecam_ptr s b d f off) = NOT 3" "orig = read32 ops s b d f off" "orig AND 3 = 1" "orig \<noteq> 0xFFFFFFFF"
  shows "bar_size (fst (fst (probe ops s b d f i))) = 16"
proof -
  have o: "ecam_ptr s b d f off \<in> bar_registers s" using bar_offset [of i] assms(2,3) by simp
  have "orig AND 1 = (orig AND 3) AND 1" by (rule bit_word_eqI) (auto simp: bit_simps)
  then have odd: "orig AND 1 \<noteq> 0" "orig \<noteq> 0" using assms(6) by auto
  have msk: "read32 ops (write32 ops s b d f off 0xFFFFFFFF) b d f off = (0xFFFFFFFF AND NOT 3) OR (orig AND 3)"
    unfolding sizing_restores(2) [OF assms(1) o] assms(4) assms(5) [symmetric] by simp
  show ?thesis
    using odd assms(7) msk unfolding probe_def Let_def assms(3) [symmetric] assms(5) [symmetric]
    by (simp add: assms(6))
qed

theorem io_bar_size_wrong_witness:
  "bar_size (fst (fst (probe \<lparr>cfg_rd = (\<lambda>hw a. hw a), cfg_wr = (\<lambda>hw a v. hw(a := (v AND NOT 3) OR (hw a AND 3)))\<rparr>
     \<lparr>ecam_phys_base = 0xB0000000, ecam_phys_offset = 0, ecam_hw = (\<lambda>_ :: u64. 0xC001 :: u32)\<rparr> 0 0 0 0))) = 16"
  by (rule io_bar_size_wrong [where m = "\<lambda>_. NOT 3" and orig = "0xC001", OF _ _ refl])
    (simp_all add: config_space_def read32_def)

end
