(* ===== verification/Registry.thy ===== *)
theory Registry
  imports PciScan BTreeMap
begin

text \<open>
  The device registry (\<^verbatim>\<open>src/lib/device/src\<close>), the PCI bus that fills it (\<^verbatim>\<open>src/lib/bus/src/pci\<close>) and the
  driver registry (\<^verbatim>\<open>src/lib/driver/src\<close>). A \<open>dyn Device\<close> is a value with the record of its methods; the
  static \<open>NEXT_ID\<close> is part of the registry's state. Reader-writer locks are left out: each method runs to
  its end on one state.
\<close>

section \<open>Devices\<close>

type_synonym DeviceId = u64

datatype DeviceType = Block | Character | Network | Display | Bus | Platform | DtUnknown

datatype DeviceError = AlreadyRegistered | DevNotFound | ProbeFailed | DevUnsupported | DevIo IoError

record 'dev device_ops =
  d_name :: "'dev \<Rightarrow> rstr"
  d_type :: "'dev \<Rightarrow> DeviceType"
  d_probe :: "'dev \<Rightarrow> (unit, DeviceError) result"

record 'dev Entry =
  e_name :: rstr
  e_device :: 'dev

record 'dev DeviceRegistry =
  devices :: "(DeviceId, 'dev Entry) btree"
  name_index :: "(rstr, DeviceId) btree"
  next_id :: u64

definition registry_new :: "'dev DeviceRegistry" where
  "registry_new = \<lparr>devices = [], name_index = [], next_id = 1\<rparr>"

definition allocate_id :: "'dev DeviceRegistry \<Rightarrow> DeviceId \<times> 'dev DeviceRegistry" where
  "allocate_id reg = (next_id reg, reg\<lparr>next_id := next_id reg + 1\<rparr>)"

definition register ::
    "'dev device_ops \<Rightarrow> 'dev DeviceRegistry \<Rightarrow> 'dev \<Rightarrow> (DeviceId \<times> 'dev, DeviceError) result \<times> 'dev DeviceRegistry" where
  "register ops reg dev =
     (let name = d_name ops dev in
      if bt_get (name_index reg) name \<noteq> None then (Err AlreadyRegistered, reg)
      else sbind (map_err (\<lambda>_. ProbeFailed) (d_probe ops dev), reg) (\<lambda>_ reg.
        let (did, reg) = allocate_id reg in
        (Ok (did, dev),
         reg\<lparr>devices := bt_insert did \<lparr>e_name = name, e_device = dev\<rparr> (devices reg),
             name_index := bt_insert name did (name_index reg)\<rparr>)))"

text \<open>
  \<open>unregister\<close> also calls \<open>remove()\<close> on the device, which it hands out here; the only implementation does nothing.
\<close>

definition unregister ::
    "'dev DeviceRegistry \<Rightarrow> DeviceId \<Rightarrow> ('dev, DeviceError) result \<times> 'dev DeviceRegistry" where
  "unregister reg did =
     (case bt_get (devices reg) did of
        None \<Rightarrow> (Err DevNotFound, reg)
      | Some e \<Rightarrow>
          (Ok (e_device e),
           reg\<lparr>devices := bt_remove did (devices reg), name_index := bt_remove (e_name e) (name_index reg)\<rparr>))"

definition get_device :: "'dev DeviceRegistry \<Rightarrow> DeviceId \<Rightarrow> 'dev option" where
  "get_device reg did = map_option e_device (bt_get (devices reg) did)"

definition get_by_name :: "'dev DeviceRegistry \<Rightarrow> rstr \<Rightarrow> 'dev option" where
  "get_by_name reg name = Option.bind (bt_get (name_index reg) name) (get_device reg)"

definition by_type :: "'dev device_ops \<Rightarrow> 'dev DeviceRegistry \<Rightarrow> DeviceType \<Rightarrow> (DeviceId \<times> 'dev) list" where
  "by_type ops reg ty =
     map (\<lambda>(did, e). (did, e_device e)) (filter (\<lambda>(_, e). d_type ops (e_device e) = ty) (devices reg))"

definition registry_len :: "'dev DeviceRegistry \<Rightarrow> nat" where
  "registry_len reg = length (devices reg)"

section \<open>PCI functions as devices\<close>

record PciBusDevice =
  pci_info :: PciDeviceInfo
  pci_name :: rstr
  pci_caps :: "Capability list"

definition hex_lower :: "nat \<Rightarrow> rchar" where
  "hex_lower n = (if n < 10 then 48 + n else 87 + n)"

text \<open>\<open>{:02x}\<close> and \<open>{}\<close> of a byte.\<close>

definition fmt_02x :: "u8 \<Rightarrow> rstr" where
  "fmt_02x b = [hex_lower (unat b div 16), hex_lower (unat b mod 16)]"

definition fmt_dec :: "u8 \<Rightarrow> rstr" where
  "fmt_dec b =
     (if unat b < 10 then [48 + unat b]
      else if unat b < 100 then [48 + unat b div 10, 48 + unat b mod 10]
      else [48 + unat b div 100, 48 + unat b div 10 mod 10, 48 + unat b mod 10])"

definition pci_device_name :: "PciAddress \<Rightarrow> rstr" where
  "pci_device_name a =
     str ''pci:'' @ fmt_02x (pa_bus a) @ str '':'' @ fmt_02x (pa_device a) @ str ''.'' @ fmt_dec (pa_function a)"

definition pci_device_new :: "'hw cfg_ops \<Rightarrow> 'hw Ecam \<Rightarrow> PciDeviceInfo \<Rightarrow> PciBusDevice" where
  "pci_device_new ops s info =
     \<lparr>pci_info = info, pci_name = pci_device_name (pci_address info), pci_caps = parse_capabilities ops s info\<rparr>"

definition is_storage :: "PciBusDevice \<Rightarrow> bool" where
  "is_storage d \<longleftrightarrow> pci_class (pci_info d) = 0x01"

definition is_network :: "PciBusDevice \<Rightarrow> bool" where
  "is_network d \<longleftrightarrow> pci_class (pci_info d) = 0x02"

definition id_pair :: "PciBusDevice \<Rightarrow> u16 \<times> u16" where
  "id_pair d = (vendor_id (pci_info d), device_id (pci_info d))"

definition enable_dma :: "'hw cfg_ops \<Rightarrow> 'hw Ecam \<Rightarrow> PciBusDevice \<Rightarrow> 'hw Ecam" where
  "enable_dma ops s d = enable_bus_master ops s (pci_info d)"

definition pci_enable_mmio :: "'hw cfg_ops \<Rightarrow> 'hw Ecam \<Rightarrow> PciBusDevice \<Rightarrow> 'hw Ecam" where
  "pci_enable_mmio ops s d = enable_mmio ops s (pci_info d)"

definition pci_probe :: "PciBusDevice \<Rightarrow> (unit, DeviceError) result" where
  "pci_probe d = (if vendor_id (pci_info d) = 0xFFFF then Err ProbeFailed else Ok ())"

definition pci_ops :: "PciBusDevice device_ops" where
  "pci_ops = \<lparr>d_name = pci_name, d_type = (\<lambda>_. Bus), d_probe = pci_probe\<rparr>"

datatype BusError = NotInitialized | EnumerationFailed | ResourceConflict | DeviceRegistrationFailed

text \<open>\<open>PciBus::enumerate\<close>: the callback drops an error of \<open>register\<close>.\<close>

definition register_function ::
    "'hw cfg_ops \<Rightarrow> 'hw Ecam \<Rightarrow> PciDeviceInfo \<Rightarrow> PciBusDevice DeviceRegistry \<Rightarrow> PciBusDevice DeviceRegistry" where
  "register_function ops s info reg = snd (register pci_ops reg (pci_device_new ops s info))"

definition pci_bus_enumerate ::
    "'hw cfg_ops \<Rightarrow> 'hw Ecam \<Rightarrow> PciBusDevice DeviceRegistry
     \<Rightarrow> (unit, BusError) result \<times> PciBusDevice DeviceRegistry \<times> 'hw Ecam" where
  "pci_bus_enumerate ops s reg =
     (if \<not> ecam_is_ready s then (Err NotInitialized, reg, s)
      else case enumerate ops (register_function ops) s reg of
        (Ok reg', s') \<Rightarrow> (Ok (), reg', s')
      | (_, s') \<Rightarrow> (Panic, reg, s'))"

section \<open>Drivers\<close>

datatype MatchRule = PciId u16 u16 | PciClass u8 u8 | MatchName rstr

fun matches_pci :: "MatchRule \<Rightarrow> u16 \<Rightarrow> u16 \<Rightarrow> u8 \<Rightarrow> u8 \<Rightarrow> bool" where
  "matches_pci (PciId v d) vendor device cls sub \<longleftrightarrow> v = vendor \<and> d = device"
| "matches_pci (PciClass c s) vendor device cls sub \<longleftrightarrow> c = cls \<and> s = sub"
| "matches_pci (MatchName n) vendor device cls sub \<longleftrightarrow> False"

fun matches_name :: "MatchRule \<Rightarrow> rstr \<Rightarrow> bool" where
  "matches_name (MatchName n) name \<longleftrightarrow> n = name"
| "matches_name _ name \<longleftrightarrow> False"

datatype DriverError = BindFailed | AlreadyBound | NotBound | NoDriverFound | DrvUnsupported | DrvIo IoError

text \<open>
  A \<open>dyn Driver\<close> and the \<open>dyn DriverState\<close> it produces, over the state \<open>'w\<close> of the machine. \<open>bind\<close> and \<open>stop\<close>
  act on the machine. The pointer of \<open>as_block_device_ptr\<close> is the block device inside the state with the state as a
  function of it.
\<close>

record ('dev, 'st, 'w) Driver =
  drv_name :: rstr
  drv_rules :: "MatchRule list"
  drv_priority :: int
  drv_bind :: "DeviceId \<Rightarrow> 'dev \<Rightarrow> 'w \<Rightarrow> ('st, DriverError) result \<times> 'w"

record ('st, 'blk, 'w) state_ops =
  st_stop :: "'st \<Rightarrow> 'w \<Rightarrow> 'w"
  st_block :: "'st \<Rightarrow> 'blk option"
  st_blocks :: "'st \<Rightarrow> 'blk list"
  st_ptr :: "'st \<Rightarrow> ('blk \<times> ('blk \<Rightarrow> 'st)) option"

record ('dev, 'st) Binding =
  b_device_id :: DeviceId
  b_device :: 'dev
  b_driver_name :: rstr
  b_state :: "'st option"

record ('dev, 'st, 'w) DriverRegistry =
  drivers :: "('dev, 'st, 'w) Driver list"
  bindings :: "(DeviceId, ('dev, 'st) Binding) btree"

definition register_driver :: "('dev, 'st, 'w) Driver \<Rightarrow> ('dev, 'st, 'w) DriverRegistry \<Rightarrow> ('dev, 'st, 'w) DriverRegistry" where
  "register_driver d r = r\<lparr>drivers := drivers r @ [d]\<rparr>"

definition driver_matches :: "('dev, 'st, 'w) Driver \<Rightarrow> PciDeviceInfo \<Rightarrow> bool" where
  "driver_matches d info \<longleftrightarrow>
     (\<exists>rule \<in> set (drv_rules d). matches_pci rule (vendor_id info) (device_id info) (pci_class info) (pci_subclass info))"

fun best_driver ::
    "PciDeviceInfo \<Rightarrow> ('dev, 'st, 'w) Driver list \<Rightarrow> ('dev, 'st, 'w) Driver option \<Rightarrow> int \<Rightarrow> ('dev, 'st, 'w) Driver option" where
  "best_driver info [] best best_priority = best"
| "best_driver info (d # ds) best best_priority =
     (if driver_matches d info \<and> best_priority < drv_priority d
      then best_driver info ds (Some d) (drv_priority d)
      else best_driver info ds best best_priority)"

text \<open>\<open>downcast\<close> is \<open>as_any().downcast_ref::<PciBusDevice>()\<close>.\<close>

definition find_driver ::
    "('dev \<Rightarrow> PciBusDevice option) \<Rightarrow> ('dev, 'st, 'w) DriverRegistry \<Rightarrow> 'dev \<Rightarrow> (('dev, 'st, 'w) Driver, DriverError) result" where
  "find_driver downcast r dev =
     ok_or NoDriverFound
       (case downcast dev of
          None \<Rightarrow> None
        | Some pci \<Rightarrow> best_driver (pci_info pci) (drivers r) None (- (2 ^ 31)))"

definition try_bind ::
    "('dev \<Rightarrow> PciBusDevice option) \<Rightarrow> ('dev, 'st, 'w) DriverRegistry \<times> 'w \<Rightarrow> DeviceId \<Rightarrow> 'dev
     \<Rightarrow> (unit, DriverError) result \<times> ('dev, 'st, 'w) DriverRegistry \<times> 'w" where
  "try_bind downcast rw did dev =
     (let r = fst rw; w = snd rw in
      if bt_get (bindings r) did \<noteq> None then (Err AlreadyBound, r, w)
      else case find_driver downcast r dev of
        Err e \<Rightarrow> (Err e, r, w)
      | Panic \<Rightarrow> (Panic, r, w)
      | Ok drv \<Rightarrow>
          (case drv_bind drv did dev w of
             (Ok st, w) \<Rightarrow>
               (Ok (), r\<lparr>bindings := bt_insert did \<lparr>b_device_id = did, b_device = dev, b_driver_name = drv_name drv,
                                                  b_state = Some st\<rparr> (bindings r)\<rparr>, w)
           | (Err e, w) \<Rightarrow> (Err e, r, w)
           | (Panic, w) \<Rightarrow> (Panic, r, w)))"

fun bind_each ::
    "('dev \<Rightarrow> PciBusDevice option) \<Rightarrow> (DeviceId \<times> 'dev) list \<Rightarrow> ('dev, 'st, 'w) DriverRegistry \<times> 'w
     \<Rightarrow> (unit, DriverError) result \<times> ('dev, 'st, 'w) DriverRegistry \<times> 'w" where
  "bind_each downcast [] rw = (Ok (), rw)"
| "bind_each downcast ((did, dev) # ds) rw =
     (case try_bind downcast rw did dev of
        (Panic, rw) \<Rightarrow> (Panic, rw)
      | (_, rw) \<Rightarrow> bind_each downcast ds rw)"

definition bind_all ::
    "('dev \<Rightarrow> PciBusDevice option) \<Rightarrow> 'dev device_ops \<Rightarrow> 'dev DeviceRegistry \<Rightarrow> ('dev, 'st, 'w) DriverRegistry \<times> 'w
     \<Rightarrow> (unit, DriverError) result \<times> ('dev, 'st, 'w) DriverRegistry \<times> 'w" where
  "bind_all downcast dops devs rw = bind_each downcast (by_type dops devs Bus) rw"

text \<open>Dropping a \<open>Binding\<close> stops its state if it still has one.\<close>

definition drop_binding :: "('st, 'blk, 'w) state_ops \<Rightarrow> ('dev, 'st) Binding \<Rightarrow> 'w \<Rightarrow> 'w" where
  "drop_binding sops b w = (case b_state b of Some st \<Rightarrow> st_stop sops st w | None \<Rightarrow> w)"

definition unbind ::
    "('st, 'blk, 'w) state_ops \<Rightarrow> ('dev, 'st, 'w) DriverRegistry \<times> 'w \<Rightarrow> DeviceId
     \<Rightarrow> (unit, DriverError) result \<times> ('dev, 'st, 'w) DriverRegistry \<times> 'w" where
  "unbind sops rw did =
     (case bt_get (bindings (fst rw)) did of
        None \<Rightarrow> (Err NotBound, rw)
      | Some b \<Rightarrow> (Ok (), (fst rw)\<lparr>bindings := bt_remove did (bindings (fst rw))\<rparr>, drop_binding sops b (snd rw)))"

definition binding_for :: "('dev, 'st, 'w) DriverRegistry \<Rightarrow> DeviceId \<Rightarrow> DeviceId option" where
  "binding_for r did = (if bt_get (bindings r) did \<noteq> None then Some did else None)"

definition bound_count :: "('dev, 'st, 'w) DriverRegistry \<Rightarrow> nat" where
  "bound_count r = length (bindings r)"

text \<open>
  \<open>into_block_device\<close> takes the state out of the binding before the binding is dropped, so a state that is
  no block device is dropped without being stopped.
\<close>

definition into_block_device :: "('st, 'blk, 'w) state_ops \<Rightarrow> ('dev, 'st) Binding \<Rightarrow> 'blk option" where
  "into_block_device sops b = Option.bind (b_state b) (st_block sops)"

definition into_block_devices :: "('st, 'blk, 'w) state_ops \<Rightarrow> ('dev, 'st) Binding \<Rightarrow> 'blk list" where
  "into_block_devices sops b = (case b_state b of Some st \<Rightarrow> st_blocks sops st | None \<Rightarrow> [])"

fun take_first_block ::
    "('st, 'blk, 'w) state_ops \<Rightarrow> DeviceId list \<Rightarrow> (DeviceId, ('dev, 'st) Binding) btree
     \<Rightarrow> (DeviceId \<times> 'blk) option \<times> (DeviceId, ('dev, 'st) Binding) btree" where
  "take_first_block sops [] m = (None, m)"
| "take_first_block sops (did # ids) m =
     (case bt_get m did of
        None \<Rightarrow> take_first_block sops ids m
      | Some b \<Rightarrow>
          (case into_block_device sops b of
             Some blk \<Rightarrow> (Some (did, blk), bt_remove did m)
           | None \<Rightarrow> take_first_block sops ids (bt_remove did m)))"

definition take_block_device ::
    "('st, 'blk, 'w) state_ops \<Rightarrow> ('dev, 'st, 'w) DriverRegistry \<Rightarrow> (DeviceId \<times> 'blk) option \<times> ('dev, 'st, 'w) DriverRegistry" where
  "take_block_device sops r =
     (case take_first_block sops (map fst (bindings r)) (bindings r) of (x, m) \<Rightarrow> (x, r\<lparr>bindings := m\<rparr>))"

fun take_every_block ::
    "('st, 'blk, 'w) state_ops \<Rightarrow> DeviceId list \<Rightarrow> (DeviceId, ('dev, 'st) Binding) btree
     \<Rightarrow> (DeviceId \<times> 'blk) list \<times> (DeviceId, ('dev, 'st) Binding) btree" where
  "take_every_block sops [] m = ([], m)"
| "take_every_block sops (did # ids) m =
     (case bt_get m did of
        None \<Rightarrow> take_every_block sops ids m
      | Some b \<Rightarrow>
          (case take_every_block sops ids (bt_remove did m) of
             (rest, m') \<Rightarrow> (map (\<lambda>blk. (did, blk)) (into_block_devices sops b) @ rest, m')))"

definition take_all_block_devices ::
    "('st, 'blk, 'w) state_ops \<Rightarrow> ('dev, 'st, 'w) DriverRegistry \<Rightarrow> (DeviceId \<times> 'blk) list \<times> ('dev, 'st, 'w) DriverRegistry" where
  "take_all_block_devices sops r =
     (case take_every_block sops (map fst (bindings r)) (bindings r) of (x, m) \<Rightarrow> (x, r\<lparr>bindings := m\<rparr>))"

text \<open>
  \<open>for_each_block\<close> collects the pointers and then calls \<open>f\<close> on each; the pointers are to different states, so
  that the calls act on the states one after the other.
\<close>

fun for_each_entry ::
    "('st, 'blk, 'w) state_ops \<Rightarrow> (DeviceId \<Rightarrow> rstr \<Rightarrow> 'blk \<Rightarrow> 'a \<Rightarrow> 'blk \<times> 'a)
     \<Rightarrow> (DeviceId, ('dev, 'st) Binding) btree \<Rightarrow> 'a \<Rightarrow> (DeviceId, ('dev, 'st) Binding) btree \<times> 'a" where
  "for_each_entry sops f [] a = ([], a)"
| "for_each_entry sops f ((did, b) # m) a =
     (case Option.bind (b_state b) (st_ptr sops) of
        None \<Rightarrow> (case for_each_entry sops f m a of (m', a') \<Rightarrow> ((did, b) # m', a'))
      | Some (blk, put) \<Rightarrow>
          (case f did (b_driver_name b) blk a of (blk', a1) \<Rightarrow>
             case for_each_entry sops f m a1 of (m', a') \<Rightarrow> ((did, b\<lparr>b_state := Some (put blk')\<rparr>) # m', a')))"

definition for_each_block ::
    "('st, 'blk, 'w) state_ops \<Rightarrow> (DeviceId \<Rightarrow> rstr \<Rightarrow> 'blk \<Rightarrow> 'a \<Rightarrow> 'blk \<times> 'a)
     \<Rightarrow> ('dev, 'st, 'w) DriverRegistry \<Rightarrow> 'a \<Rightarrow> ('dev, 'st, 'w) DriverRegistry \<times> 'a" where
  "for_each_block sops f r a = (case for_each_entry sops f (bindings r) a of (m, a') \<Rightarrow> (r\<lparr>bindings := m\<rparr>, a'))"

end
