(* ===== verification/Ahci.thy ===== *)
theory Ahci
  imports Machine Registry
begin

text \<open>
  The AHCI driver (\<^verbatim>\<open>src/lib/driver/src/block/ahci\<close>): the registers of the host bus adapter and its ports, the
  polling loops with their iteration bounds, port bring-up, the one command slot it uses, and the driver state.
  The adapter is the device behind \<open>mm\<close>; it makes progress (\<open>mm_tick\<close>) between two polls.
\<close>

section \<open>Registers and structures\<close>

abbreviation AHCI_SECTOR_SIZE :: nat where "AHCI_SECTOR_SIZE \<equiv> 512"
abbreviation HBA_GHC :: u64 where "HBA_GHC \<equiv> 0x04"
abbreviation HBA_PI :: u64 where "HBA_PI \<equiv> 0x0C"
abbreviation HBA_PORTS :: u64 where "HBA_PORTS \<equiv> 0x100"
abbreviation PORT_SIZE :: u64 where "PORT_SIZE \<equiv> 0x80"
abbreviation PORT_CLB :: u64 where "PORT_CLB \<equiv> 0x00"
abbreviation PORT_CLBU :: u64 where "PORT_CLBU \<equiv> 0x04"
abbreviation PORT_FB :: u64 where "PORT_FB \<equiv> 0x08"
abbreviation PORT_FBU :: u64 where "PORT_FBU \<equiv> 0x0C"
abbreviation PORT_IS :: u64 where "PORT_IS \<equiv> 0x10"
abbreviation PORT_CMD :: u64 where "PORT_CMD \<equiv> 0x18"
abbreviation PORT_TFD :: u64 where "PORT_TFD \<equiv> 0x20"
abbreviation PORT_SSTS :: u64 where "PORT_SSTS \<equiv> 0x28"
abbreviation PORT_SERR :: u64 where "PORT_SERR \<equiv> 0x30"
abbreviation PORT_CI :: u64 where "PORT_CI \<equiv> 0x38"
abbreviation ATA_CMD_READ_SECTORS :: u8 where "ATA_CMD_READ_SECTORS \<equiv> 0x20"
abbreviation ATA_CMD_WRITE_SECTORS :: u8 where "ATA_CMD_WRITE_SECTORS \<equiv> 0x30"

record PortState =
  port_base :: u64
  cmd_list_buf :: DmaBuffer
  cmd_table_buf :: DmaBuffer
  rfis_buf :: DmaBuffer
  data_buf :: DmaBuffer

record FisRegH2D =
  fis_type :: u8
  pmport :: u8
  fis_command :: u8
  featurel :: u8
  lba0 :: u8
  lba1 :: u8
  lba2 :: u8
  fis_device :: u8
  lba3 :: u8
  lba4 :: u8
  lba5 :: u8
  featureh :: u8
  countl :: u8
  counth :: u8
  icc :: u8
  fis_control :: u8

definition fis_bytes :: "FisRegH2D \<Rightarrow> u8 list" where
  "fis_bytes f =
     [fis_type f, pmport f, fis_command f, featurel f, lba0 f, lba1 f, lba2 f, fis_device f, lba3 f, lba4 f, lba5 f,
      featureh f, countl f, counth f, icc f, fis_control f] @ zeros 4"

definition read_u32 :: "'hw mmio \<Rightarrow> 'hw Machine \<Rightarrow> u64 \<Rightarrow> u32" where
  "read_u32 mm m a = of_nat (rd_reg mm m a 4)"

definition write_u32 :: "'hw mmio \<Rightarrow> u64 \<Rightarrow> u32 \<Rightarrow> 'hw Machine \<Rightarrow> 'hw Machine" where
  "write_u32 mm a v m = mm_wr mm a 4 (unat v) m"

section \<open>Polling\<close>

fun poll_clear :: "'hw mmio \<Rightarrow> u64 \<Rightarrow> u32 \<Rightarrow> nat \<Rightarrow> 'hw Machine \<Rightarrow> bool \<times> 'hw Machine" where
  "poll_clear mm addr msk 0 m = (False, m)"
| "poll_clear mm addr msk (Suc n) m =
     (if read_u32 mm m addr AND msk = 0 then (True, m) else poll_clear mm addr msk n (mm_tick mm m))"

fun poll_set :: "'hw mmio \<Rightarrow> u64 \<Rightarrow> u32 \<Rightarrow> nat \<Rightarrow> 'hw Machine \<Rightarrow> bool \<times> 'hw Machine" where
  "poll_set mm addr msk 0 m = (False, m)"
| "poll_set mm addr msk (Suc n) m =
     (if read_u32 mm m addr AND msk \<noteq> 0 then (True, m) else poll_set mm addr msk n (mm_tick mm m))"

definition wait_for_clear :: "'hw mmio \<Rightarrow> u64 \<Rightarrow> u32 \<Rightarrow> u32 \<Rightarrow> 'hw Machine \<Rightarrow> bool \<times> 'hw Machine" where
  "wait_for_clear mm addr msk timeout_us m = poll_clear mm addr msk (unat (timeout_us * 100)) m"

definition wait_for_set :: "'hw mmio \<Rightarrow> u64 \<Rightarrow> u32 \<Rightarrow> u32 \<Rightarrow> 'hw Machine \<Rightarrow> bool \<times> 'hw Machine" where
  "wait_for_set mm addr msk timeout_us m = poll_set mm addr msk (unat (timeout_us * 100)) m"

text \<open>The pattern \<open>if !wait(..) { return Err(e) }\<close>.\<close>

definition must :: "'e \<Rightarrow> bool \<times> 's \<Rightarrow> (unit, 'e) result \<times> 's" where
  "must e r = (if fst r then Ok () else Err e, snd r)"

section \<open>Bringing a port up\<close>

definition dma_page_block :: "'al dma_allocator \<Rightarrow> 'hw Machine \<times> 'al \<Rightarrow> (DmaBuffer, BlockError) result \<times> 'hw Machine \<times> 'al" where
  "dma_page_block dma s =
     (case dma (snd s) 4096 4096 of
        (Ok (Some b), al) \<Rightarrow> (Ok b, fst s, al)
      | (Ok None, al) \<Rightarrow> (Err NoMemory, fst s, al)
      | (_, al) \<Rightarrow> (Panic, fst s, al))"

text \<open>Stop the command engine and the FIS receive engine if they run.\<close>

definition port_stop_engines :: "'hw mmio \<Rightarrow> u64 \<Rightarrow> 'hw Machine \<Rightarrow> (unit, BlockError) result \<times> 'hw Machine" where
  "port_stop_engines mm base m =
     (let cmd_reg = read_u32 mm m (base + PORT_CMD) in
      sbind (if cmd_reg AND 1 \<noteq> 0
             then must DeviceBusy (wait_for_clear mm (base + PORT_CMD) 0x8000 1000000
                    (write_u32 mm (base + PORT_CMD) (cmd_reg AND NOT 1) m))
             else (Ok (), m)) (\<lambda>_ m.
        if cmd_reg AND 0x10 \<noteq> 0
        then must DeviceBusy (wait_for_clear mm (base + PORT_CMD) 0x8000 100000
               (write_u32 mm (base + PORT_CMD) (cmd_reg AND NOT 0x10) m))
        else (Ok (), m)))"

text \<open>Point the port at its command list and FIS area, clear its status, start both engines.\<close>

definition port_start ::
    "'hw mmio \<Rightarrow> u64 \<Rightarrow> DmaBuffer \<Rightarrow> DmaBuffer \<Rightarrow> DmaBuffer \<Rightarrow> DmaBuffer \<Rightarrow> 'hw Machine \<Rightarrow> (unit, BlockError) result \<times> 'hw Machine" where
  "port_start mm base cl ct rf db m =
     (let m = cpu_wr mm (dma_virt cl) (zeros 4096) m;
          m = cpu_wr mm (dma_virt ct) (zeros 4096) m;
          m = cpu_wr mm (dma_virt rf) (zeros 4096) m;
          m = cpu_wr mm (dma_virt db) (zeros 4096) m;
          m = write_u32 mm (base + PORT_CLB) (ucast (dma_phys cl)) m;
          m = write_u32 mm (base + PORT_CLBU) (ucast (drop_bit 32 (dma_phys cl))) m;
          m = write_u32 mm (base + PORT_FB) (ucast (dma_phys rf)) m;
          m = write_u32 mm (base + PORT_FBU) (ucast (drop_bit 32 (dma_phys rf))) m;
          m = write_u32 mm (base + PORT_IS) 0xFFFFFFFF m;
          m = write_u32 mm (base + PORT_SERR) 0xFFFFFFFF m;
          m = write_u32 mm (base + PORT_CMD) (read_u32 mm m (base + PORT_CMD) OR 0x10) m
      in sbind (must DeviceError (wait_for_set mm (base + PORT_CMD) 0x4000 100000 m)) (\<lambda>_ m.
           must DeviceError (wait_for_set mm (base + PORT_CMD) 0x8000 100000
             (write_u32 mm (base + PORT_CMD) (read_u32 mm m (base + PORT_CMD) OR 1) m))))"

definition with_alloc :: "'al \<Rightarrow> ('a, 'e) result \<times> 's \<Rightarrow> ('a, 'e) result \<times> 's \<times> 'al" where
  "with_alloc al r = (fst r, snd r, al)"

definition port_init ::
    "'hw mmio \<Rightarrow> 'al dma_allocator \<Rightarrow> u64 \<Rightarrow> nat \<Rightarrow> 'hw Machine \<times> 'al \<Rightarrow> (PortState, BlockError) result \<times> 'hw Machine \<times> 'al" where
  "port_init mm dma mmio_base port s =
     (let base = mmio_base + HBA_PORTS + of_nat port * PORT_SIZE in
      sbind (with_alloc (snd s) (port_stop_engines mm base (fst s))) (\<lambda>_ s.
      sbind (dma_page_block dma s) (\<lambda>cl s.
      sbind (dma_page_block dma s) (\<lambda>ct s.
      sbind (dma_page_block dma s) (\<lambda>rf s.
      sbind (dma_page_block dma s) (\<lambda>db s.
      sbind (with_alloc (snd s) (port_start mm base cl ct rf db (fst s))) (\<lambda>_ s.
        (Ok \<lparr>port_base = base, cmd_list_buf = cl, cmd_table_buf = ct, rfis_buf = rf, data_buf = db\<rparr>, s))))))))"

section \<open>Commands\<close>

definition command_header :: "PortState \<Rightarrow> bool \<Rightarrow> u8 list" where
  "command_header p is_write =
     le16 (unat ((5 - 1 :: u16) OR (if is_write then 0x40 else 0))) @ le16 1 @ le32 0
       @ le32 (unat (ucast (dma_phys (cmd_table_buf p)) :: u32))
       @ le32 (unat (ucast (drop_bit 32 (dma_phys (cmd_table_buf p))) :: u32)) @ zeros 16"

definition command_fis :: "u8 \<Rightarrow> u64 \<Rightarrow> u16 \<Rightarrow> FisRegH2D" where
  "command_fis command lba cnt =
     \<lparr>fis_type = 0x27, pmport = 0x80, fis_command = command, featurel = 0,
      lba0 = ucast (lba AND 0xFF), lba1 = ucast (drop_bit 8 lba AND 0xFF), lba2 = ucast (drop_bit 16 lba AND 0xFF),
      fis_device = 0x40 OR ucast (drop_bit 24 lba AND 0x0F),
      lba3 = ucast (drop_bit 24 lba AND 0xFF), lba4 = ucast (drop_bit 32 lba AND 0xFF), lba5 = ucast (drop_bit 40 lba AND 0xFF),
      featureh = 0, countl = ucast (cnt AND 0xFF), counth = ucast (drop_bit 8 cnt AND 0xFF), icc = 0, fis_control = 0\<rparr>"

definition prdt_entry :: "PortState \<Rightarrow> u16 \<Rightarrow> u8 list" where
  "prdt_entry p cnt =
     le32 (unat (ucast (dma_phys (data_buf p)) :: u32)) @ le32 (unat (ucast (drop_bit 32 (dma_phys (data_buf p))) :: u32))
       @ le32 0 @ le32 (unat ((ucast cnt * 512 - 1 :: u32) OR 0x80000000))"

definition issue_command ::
    "'hw mmio \<Rightarrow> PortState \<Rightarrow> u8 \<Rightarrow> u64 \<Rightarrow> u16 \<Rightarrow> bool \<Rightarrow> 'hw Machine \<Rightarrow> (unit, BlockError) result \<times> 'hw Machine" where
  "issue_command mm p command lba cnt is_write m =
     sbind (must DeviceBusy (wait_for_clear mm (port_base p + PORT_TFD) 0x88 500000 m)) (\<lambda>_ m.
       let m = cpu_wr mm (dma_virt (cmd_list_buf p)) (command_header p is_write) m;
           m = cpu_wr mm (dma_virt (cmd_table_buf p)) (zeros 256) m;
           m = cpu_wr mm (dma_virt (cmd_table_buf p)) (fis_bytes (command_fis command lba cnt)) m;
           m = cpu_wr mm (dma_virt (cmd_table_buf p) + 128) (prdt_entry p cnt) m;
           m = write_u32 mm (port_base p + PORT_CI) 1 m
       in sbind (must Timeout (wait_for_clear mm (port_base p + PORT_CI) 1 5000000 m)) (\<lambda>_ m.
            let tfd = read_u32 mm m (port_base p + PORT_TFD)
            in (if tfd AND 1 \<noteq> 0 \<or> tfd AND 0x20 \<noteq> 0 then Err DeviceError else Ok (), m)))"

definition port_read_sectors ::
    "'hw mmio \<Rightarrow> PortState \<Rightarrow> 'hw Machine \<Rightarrow> u64 \<Rightarrow> u8 list \<Rightarrow> (u8 list, BlockError) result \<times> 'hw Machine" where
  "port_read_sectors mm p m lba buf =
     (if length buf < AHCI_SECTOR_SIZE then (Err InvalidBuffer, m)
      else sbind (issue_command mm p ATA_CMD_READ_SECTORS lba 1 False m) (\<lambda>_ m.
        (Ok (blit buf 0 (cpu_rd mm m (dma_virt (data_buf p)) AHCI_SECTOR_SIZE)), m)))"

definition port_write_sectors ::
    "'hw mmio \<Rightarrow> PortState \<Rightarrow> 'hw Machine \<Rightarrow> u64 \<Rightarrow> u8 list \<Rightarrow> (unit, BlockError) result \<times> 'hw Machine" where
  "port_write_sectors mm p m lba buf =
     (if length buf < AHCI_SECTOR_SIZE then (Err InvalidBuffer, m)
      else issue_command mm p ATA_CMD_WRITE_SECTORS lba 1 True
             (cpu_wr mm (dma_virt (data_buf p)) (take AHCI_SECTOR_SIZE buf) m))"

definition identify :: "'hw mmio \<Rightarrow> PortState \<Rightarrow> 'hw Machine \<Rightarrow> (u8 list, BlockError) result \<times> 'hw Machine" where
  "identify mm p m =
     sbind (issue_command mm p 0xEC 0 1 False m) (\<lambda>_ m. (Ok (cpu_rd mm m (dma_virt (data_buf p)) 512), m))"

definition identify_sector_count :: "'hw mmio \<Rightarrow> PortState \<Rightarrow> 'hw Machine \<Rightarrow> u64 option \<times> 'hw Machine" where
  "identify_sector_count mm p m =
     (case identify mm p m of
        (Ok buf, m) \<Rightarrow>
          (let lo = of_nat (le_val (seg buf 200 202)); hi = of_nat (le_val (seg buf 202 204));
               cnt = lo OR push_bit 16 hi
           in (if cnt = 0 then None else Some cnt, m))
      | (_, m) \<Rightarrow> (None, m))"

section \<open>The driver\<close>

record AhciPortWrapper =
  port_idx :: u8
  port_state :: PortState
  port_sectors :: u64

record AhciState =
  ahci_mmio_base :: u64
  ahci_ports :: "AhciPortWrapper list"

text \<open>The loop over the ports; a port that does not come up is skipped.\<close>

fun init_ports ::
    "'hw mmio \<Rightarrow> 'al dma_allocator \<Rightarrow> u64 \<Rightarrow> u32 \<Rightarrow> nat list \<Rightarrow> 'hw Machine \<times> 'al
     \<Rightarrow> (AhciPortWrapper list, rstr) result \<times> 'hw Machine \<times> 'al" where
  "init_ports mm dma mmio_base implemented [] s = (Ok [], s)"
| "init_ports mm dma mmio_base implemented (i # is) s =
     (let ssts = read_u32 mm (fst s) (mmio_base + 0x100 + of_nat i * 0x80 + PORT_SSTS);
          det = ssts AND 0xF; ipm = drop_bit 8 ssts AND 0xF
      in if implemented AND push_bit i 1 = 0 \<or> (det \<noteq> 1 \<and> det \<noteq> 3) \<or> ipm \<noteq> 1 then init_ports mm dma mmio_base implemented is s
         else case port_init mm dma mmio_base i s of
           (Ok st, m, al) \<Rightarrow>
             (case identify_sector_count mm st m of (cnt, m) \<Rightarrow>
                sbind (init_ports mm dma mmio_base implemented is (m, al)) (\<lambda>ws s.
                  (Ok (\<lparr>port_idx = of_nat i, port_state = st,
                        port_sectors = (case cnt of Some n \<Rightarrow> n | None \<Rightarrow> 131071)\<rparr> # ws), s)))
         | (Err _, s) \<Rightarrow> init_ports mm dma mmio_base implemented is s
         | (Panic, s) \<Rightarrow> (Panic, s))"

definition ahci_init ::
    "'hw mmio \<Rightarrow> 'al dma_allocator \<Rightarrow> u64 \<Rightarrow> 'hw Machine \<times> 'al \<Rightarrow> (AhciState, rstr) result \<times> 'hw Machine \<times> 'al" where
  "ahci_init mm dma mmio_base s =
     (let m = write_u32 mm (mmio_base + HBA_GHC) (read_u32 mm (fst s) (mmio_base + HBA_GHC) OR push_bit 31 1) (fst s)
      in sbind (init_ports mm dma mmio_base (read_u32 mm m (mmio_base + HBA_PI)) [0..<32] (m, snd s)) (\<lambda>ports s.
           if ports = [] then (Err (str ''AHCI: no usable ports found''), s)
           else (Ok \<lparr>ahci_mmio_base = mmio_base, ahci_ports = ports\<rparr>, s)))"

definition port_count :: "AhciState \<Rightarrow> nat" where
  "port_count st = length (ahci_ports st)"

definition ahci_stop :: "'hw mmio \<Rightarrow> AhciState \<Rightarrow> 'hw Machine \<Rightarrow> 'hw Machine" where
  "ahci_stop mm st m =
     fold (\<lambda>w m. let cmd = ahci_mmio_base st + 0x100 + ucast (port_idx w) * 0x80 + PORT_CMD
                 in write_u32 mm cmd (read_u32 mm m cmd AND NOT (push_bit 0 1 OR push_bit 4 1)) m) (ahci_ports st) m"

definition ahci_rules :: "MatchRule list" where
  "ahci_rules = [PciClass 0x01 0x06]"

definition ahci_bind ::
    "'c cfg_ops \<Rightarrow> 'hw mmio \<Rightarrow> 'al dma_allocator \<Rightarrow> ('dev \<Rightarrow> PciBusDevice option) \<Rightarrow> (AhciState \<Rightarrow> 'st)
     \<Rightarrow> DeviceId \<Rightarrow> 'dev \<Rightarrow> 'c Ecam \<times> 'hw Machine \<times> 'al \<Rightarrow> ('st, DriverError) result \<times> 'c Ecam \<times> 'hw Machine \<times> 'al" where
  "ahci_bind ops mm dma downcast state did dev w =
     (case downcast dev of
        None \<Rightarrow> (Err BindFailed, w)
      | Some pci \<Rightarrow>
          (let e = pci_enable_mmio ops (enable_dma ops (fst w) pci) pci in
           case bar_mmio (pci_info pci) 5 of
             None \<Rightarrow> (Err BindFailed, e, snd w)
           | Some abar \<Rightarrow>
               (case ahci_init mm dma (abar + mm_off mm) (snd w) of
                  (Ok st, s) \<Rightarrow> (Ok (state st), e, s)
                | (Err _, s) \<Rightarrow> (Err BindFailed, e, s)
                | (Panic, s) \<Rightarrow> (Panic, e, s))))"

definition ahci_driver ::
    "'c cfg_ops \<Rightarrow> 'hw mmio \<Rightarrow> 'al dma_allocator \<Rightarrow> ('dev \<Rightarrow> PciBusDevice option) \<Rightarrow> (AhciState \<Rightarrow> 'st)
     \<Rightarrow> ('dev, 'st, 'c Ecam \<times> 'hw Machine \<times> 'al) Driver" where
  "ahci_driver ops mm dma downcast state =
     \<lparr>drv_name = str ''ahci'', drv_rules = ahci_rules, drv_priority = 0, drv_bind = ahci_bind ops mm dma downcast state\<rparr>"

definition ahci_block :: "'hw mmio \<Rightarrow> (AhciPortWrapper \<times> 'hw Machine) block_device" where
  "ahci_block mm =
     \<lparr>read_blocks = (\<lambda>(w, m) lba buf. case port_read_sectors mm (port_state w) m lba buf of
         (r, m) \<Rightarrow> (map_err (\<lambda>_. ReadError) r, w, m)),
      write_blocks = (\<lambda>(w, m) lba buf. case port_write_sectors mm (port_state w) m lba buf of
         (r, m) \<Rightarrow> (map_err (\<lambda>_. WriteError) r, w, m)),
      block_size = (\<lambda>_. 512), block_count = (\<lambda>(w, _). port_sectors w)\<rparr>"

end
