(* ===== verification/AhciDisk.thy ===== *)
theory AhciDisk
  imports Ahci
begin

text \<open>
  What an AHCI host adapter with a disk on one port does (AHCI 1.3.1, chapters 3 to 5; ATA8-ACS for the commands), as
  far as this driver uses it, and the driver on it. \<open>hba\<close> is what the adapter shows: the registers of the port and the
  disk. The adapter itself is a parameter, in the locale \<open>ahci_adapter\<close>, whose laws state the documented behaviour: a register
  keeps what is written, the two engines of the port follow their enable bits some time later, and a command
  that is well formed in memory, issued while both engines run, is carried out some time after it was issued. In
  the meantime memory is open; afterwards the received FIS and the byte count of the command header have been written too.
\<close>

section \<open>The host adapter\<close>

record hba =
  hba_ci :: u32
  hba_tfd :: u32
  hba_pi :: u32
  hba_ssts :: u32
  hba_clb :: u64
  hba_fb :: u64
  hba_st :: bool
  hba_fre :: bool
  hba_fr :: bool
  hba_cr :: bool
  hba_ident :: "u8 list"
  hba_sectors :: "nat \<Rightarrow> u8 list"
  hba_count :: nat

text \<open>The address of a 28-bit command: three bytes and the low half of the device register.\<close>

definition lba28 :: "u8 list \<Rightarrow> nat" where
  "lba28 fis = le_val (seg fis 4 7) + 2 ^ 24 * (unat (fis ! 7) mod 16)"

text \<open>
  A command the adapter has to carry out: the port runs; the command header has a FIS length, the direction of the command in
  its bit W, no ATAPI command, one entry in the table of regions, and an aligned command table; the FIS is a command in a host to
  device FIS, in LBA mode for one sector that exists, or \<open>IDENTIFY\<close>; the region has 512 bytes at an even address. A
  host to device FIS has five double words. The fifth is reserved, and the length asked for is at least four: the adapter is
  taken to accept a FIS that ends with the last field.
\<close>

definition hba_accepts :: "hba Machine \<Rightarrow> bool" where
  "hba_accepts m \<longleftrightarrow>
     (let r = ram m; d = hw m;
          flags = rd_le r (hba_clb d) 2;
          table = of_nat (rd_le r (hba_clb d + 8) 8);
          fis = peek r table 20
      in hba_st d \<and> hba_fre d \<and> hba_fr d \<and> hba_cr d \<and> hba_ci d = 0 \<and> hba_tfd d AND 0x88 = 0
         \<and> 1024 dvd unat (hba_clb d) \<and> 256 dvd unat (hba_fb d) \<and> 128 dvd unat table
         \<and> 4 \<le> flags mod 32 \<and> even (flags div 32) \<and> odd (flags div 64) = (fis ! 2 = 0x30)
         \<and> rd_le r (hba_clb d + 2) 2 = 1
         \<and> fis ! 0 = 0x27 \<and> fis ! 1 AND 0x80 \<noteq> 0
         \<and> (fis ! 2 = 0xEC \<or> (fis ! 2 = 0x20 \<or> fis ! 2 = 0x30) \<and> fis ! 7 AND 0x40 \<noteq> 0 \<and> fis ! 12 = 1 \<and> lba28 fis < hba_count d)
         \<and> even (rd_le r (table + 128) 8) \<and> rd_le r (table + 140) 4 mod 2 ^ 22 = 511)"

text \<open>What the command does.\<close>

definition hba_execute :: "hba Machine \<Rightarrow> hba Machine" where
  "hba_execute m =
     (let r = ram m; d = (hw m)\<lparr>hba_ci := 0, hba_tfd := 0x50\<rparr>;
          table = of_nat (rd_le r (hba_clb d + 8) 8);
          fis = peek r table 20;
          data = of_nat (rd_le r (table + 128) 8);
          n = lba28 fis
      in if fis ! 2 = 0xEC then \<lparr>ram = poke data (hba_ident d) r, hw = d\<rparr>
         else if fis ! 2 = 0x20 then \<lparr>ram = poke data (hba_sectors d n) r, hw = d\<rparr>
         else \<lparr>ram = r, hw = d\<lparr>hba_sectors := (hba_sectors d)(n := peek r data 512)\<rparr>\<rparr>)"

text \<open>The registers of port \<open>k\<close>, and a write to one that holds something.\<close>

definition port_at :: "u64 \<Rightarrow> nat \<Rightarrow> u64" where
  "port_at abar k = abar + HBA_PORTS + of_nat k * PORT_SIZE"

definition hba_reg :: "u64 \<Rightarrow> u64 \<Rightarrow> nat \<Rightarrow> hba \<Rightarrow> hba" where
  "hba_reg base a v d =
     (if a = base + PORT_CMD then d\<lparr>hba_st := odd v, hba_fre := bit v 4\<rparr>
      else if a = base + PORT_CLB then d\<lparr>hba_clb := set_low v (hba_clb d)\<rparr>
      else if a = base + PORT_CLBU then d\<lparr>hba_clb := set_high v (hba_clb d)\<rparr>
      else if a = base + PORT_FB then d\<lparr>hba_fb := set_low v (hba_fb d)\<rparr>
      else if a = base + PORT_FBU then d\<lparr>hba_fb := set_high v (hba_fb d)\<rparr>
      else d)"

text \<open>
  The writes the specification allows: no reset of the controller, the addresses only while the engine that uses them is
  off, the command engine only once FIS are received.
\<close>

definition reg_allowed :: "u64 \<Rightarrow> u64 \<Rightarrow> u64 \<Rightarrow> nat \<Rightarrow> hba \<Rightarrow> bool" where
  "reg_allowed abar base a v d \<longleftrightarrow>
     a = abar + HBA_GHC \<and> even v
   \<or> a = base + PORT_IS \<or> a = base + PORT_SERR
   \<or> a = base + PORT_CMD \<and> (odd v \<longrightarrow> bit v 4 \<and> hba_fr d)
   \<or> (a = base + PORT_CLB \<or> a = base + PORT_CLBU) \<and> \<not> hba_st d \<and> \<not> hba_cr d
   \<or> (a = base + PORT_FB \<or> a = base + PORT_FBU) \<and> \<not> hba_fre d \<and> \<not> hba_fr d"

text \<open>The running engines (\<open>FR\<close>, \<open>CR\<close>) may follow their enable bits (\<open>FRE\<close>, \<open>ST\<close>); nothing else changes.\<close>

definition settles :: "hba \<Rightarrow> hba \<Rightarrow> bool" where
  "settles d d' \<longleftrightarrow> (\<exists>fr cr. d' = d\<lparr>hba_fr := fr, hba_cr := cr\<rparr> \<and> fr \<in> {hba_fr d, hba_fre d} \<and> cr \<in> {hba_cr d, hba_st d})"

locale ahci_adapter =
  fixes mm :: "'hw mmio"
    and hv :: "'hw \<Rightarrow> hba"
    and abar :: u64
    and k :: nat
    and spin delay :: nat
  assumes port: "k < 32"
    and in_time: "spin < 10000000" "delay < 500000000"
    and rd_ci: "mm_rd mm h (port_at abar k + PORT_CI) 4 = unat (hba_ci (hv h))"
    and rd_tfd: "mm_rd mm h (port_at abar k + PORT_TFD) 4 = unat (hba_tfd (hv h))"
    and rd_ssts: "mm_rd mm h (port_at abar k + PORT_SSTS) 4 = unat (hba_ssts (hv h))"
    and rd_pi: "mm_rd mm h (abar + HBA_PI) 4 = unat (hba_pi (hv h))"
    and rd_ghc: "even (mm_rd mm h (abar + HBA_GHC) 4)"
    and rd_cmd: "bit (mm_rd mm h (port_at abar k + PORT_CMD) 4) 0 = hba_st (hv h)"
      "bit (mm_rd mm h (port_at abar k + PORT_CMD) 4) 4 = hba_fre (hv h)"
      "bit (mm_rd mm h (port_at abar k + PORT_CMD) 4) 14 = hba_fr (hv h)"
      "bit (mm_rd mm h (port_at abar k + PORT_CMD) 4) 15 = hba_cr (hv h)"
    and reg_write: "reg_allowed abar (port_at abar k) a v (hv (hw m)) \<Longrightarrow>
      settles (hba_reg (port_at abar k) a v (hv (hw m))) (hv (hw (mm_wr mm a 4 v m)))"
    and idle_tick: "hba_ci (hv (hw m)) = 0 \<Longrightarrow> settles (hv (hw m)) (hv (hw (mm_tick mm m)))"
    and fr_follows: "hba_ci (hv (hw m)) = 0 \<Longrightarrow>
      \<exists>n \<le> spin. hba_fr (hv (hw ((mm_tick mm ^^ n) m))) = hba_fre (hv (hw m))"
    and cr_follows: "hba_ci (hv (hw m)) = 0 \<Longrightarrow> (hba_st (hv (hw m)) \<longrightarrow> hba_fre (hv (hw m)) \<and> hba_fr (hv (hw m))) \<Longrightarrow>
      \<exists>n \<le> spin. hba_cr (hv (hw ((mm_tick mm ^^ n) m))) = hba_st (hv (hw m))"
    and runs: "hba_accepts (view hv m) \<Longrightarrow>
      \<exists>n \<le> delay. (\<forall>i < n. hba_ci (hv (hw ((mm_tick mm ^^ i) (mm_wr mm (port_at abar k + PORT_CI) 4 1 m)))) AND 1 \<noteq> 0)
        \<and> hv (hw ((mm_tick mm ^^ n) (mm_wr mm (port_at abar k + PORT_CI) 4 1 m))) = hw (hba_execute (view hv m))
        \<and> (\<forall>p. 256 \<le> unat (p - hba_fb (hv (hw m))) \<and> 4 \<le> unat (p - (hba_clb (hv (hw m)) + 4)) \<longrightarrow>
             ram ((mm_tick mm ^^ n) (mm_wr mm (port_at abar k + PORT_CI) 4 1 m)) p = ram (hba_execute (view hv m)) p)"

section \<open>Polling\<close>

lemma poll_clear_ticks:
  assumes "\<And>i. i < k \<Longrightarrow> read_u32 mm ((mm_tick mm ^^ i) m) addr AND msk \<noteq> 0" "read_u32 mm ((mm_tick mm ^^ k) m) addr AND msk = 0" "k < n"
  shows "poll_clear mm addr msk n m = (True, (mm_tick mm ^^ k) m)"
  using assms
proof (induction k arbitrary: n m)
  case 0
  then show ?case by (cases n) auto
next
  case (Suc k)
  then obtain n' where n: "n = Suc n'" "k < n'" by (cases n) auto
  have "read_u32 mm m addr AND msk \<noteq> 0" using Suc.prems(1) [of 0] by simp
  moreover have "poll_clear mm addr msk n' (mm_tick mm m) = (True, (mm_tick mm ^^ k) (mm_tick mm m))"
  proof (rule Suc.IH)
    show "read_u32 mm ((mm_tick mm ^^ i) (mm_tick mm m)) addr AND msk \<noteq> 0" if "i < k" for i
      using Suc.prems(1) [of "Suc i"] that by (simp add: funpow_swap1)
  qed (use Suc.prems(2) n(2) in \<open>simp_all add: funpow_swap1\<close>)
  ultimately show ?case by (simp add: n(1) funpow_swap1)
qed

lemma poll_set_within:
  assumes "read_u32 mm ((mm_tick mm ^^ k) m) addr AND msk \<noteq> 0" "k < n"
  shows "\<exists>j \<le> k. poll_set mm addr msk n m = (True, (mm_tick mm ^^ j) m) \<and> read_u32 mm ((mm_tick mm ^^ j) m) addr AND msk \<noteq> 0"
  using assms
proof (induction k arbitrary: n m)
  case 0
  then show ?case by (cases n) auto
next
  case (Suc k)
  then obtain n' where n: "n = Suc n'" "k < n'" by (cases n) auto
  show ?case
  proof (cases "read_u32 mm m addr AND msk = 0")
    case True
    have "read_u32 mm ((mm_tick mm ^^ k) (mm_tick mm m)) addr AND msk \<noteq> 0" using Suc.prems(1) by (simp add: funpow_swap1)
    from Suc.IH [OF this n(2)] obtain j where "j \<le> k"
        "poll_set mm addr msk n' (mm_tick mm m) = (True, (mm_tick mm ^^ j) (mm_tick mm m))"
        "read_u32 mm ((mm_tick mm ^^ j) (mm_tick mm m)) addr AND msk \<noteq> 0"
      by blast
    with True n(1) show ?thesis by (intro exI [of _ "Suc j"]) (simp add: funpow_swap1)
  next
    case False
    with n(1) show ?thesis by (intro exI [of _ 0]) simp
  qed
qed

section \<open>The command in memory\<close>

lemma halves_le64:
  "le32 (unat (ucast a :: u32)) @ le32 (unat (ucast (drop_bit 32 a) :: u32)) = le64 (a :: u64)"
proof -
  let ?lo = "unat (ucast a :: u32)" and ?hi = "unat (ucast (drop_bit 32 a) :: u32)"
  have lo: "?lo = unat a mod 2 ^ 32" by (simp add: unsigned_ucast_eq take_bit_eq_mod)
  have "unat a div 2 ^ 32 < 2 ^ 32" using unat_bound [of a] by (simp add: div_less_iff_less_mult)
  then have hi: "?hi = unat a div 2 ^ 32"
    by (simp add: unsigned_ucast_eq drop_bit_eq_div unat_div take_bit_nat_eq_self)
  have "le_val (le32 ?lo @ le32 ?hi) = unat a"
    using unat_bound [of "ucast a :: u32"] unat_bound [of "ucast (drop_bit 32 a) :: u32"]
    by (simp add: le_val_append le_val_le32 del: le_bytes.simps) (simp add: lo hi)
  then show ?thesis using le64_of_nat_le_val [of "le32 ?lo @ le32 ?hi"] by simp
qed

text \<open>The pages a port uses, as the adapter and the processor see them.\<close>

definition port_pages :: "u64 \<Rightarrow> PortState \<Rightarrow> bool" where
  "port_pages off p \<longleftrightarrow>
     (\<forall>b \<in> {cmd_list_buf p, cmd_table_buf p, rfis_buf p, data_buf p}. page_addr (dma_phys b) \<and> dma_virt b = dma_phys b + off)
   \<and> distinct [dma_phys (cmd_list_buf p), dma_phys (cmd_table_buf p), dma_phys (rfis_buf p), dma_phys (data_buf p)]"

definition prepared :: "PortState \<Rightarrow> u8 \<Rightarrow> u64 \<Rightarrow> bool \<Rightarrow> (u64 \<Rightarrow> u8) \<Rightarrow> u64 \<Rightarrow> u8" where
  "prepared p cmd lba is_write r =
     poke (dma_phys (cmd_table_buf p) + 128) (prdt_entry p 1)
       (poke (dma_phys (cmd_table_buf p)) (fis_bytes (command_fis cmd lba 1))
         (poke (dma_phys (cmd_table_buf p)) (zeros 256)
           (poke (dma_phys (cmd_list_buf p)) (command_header p is_write) r)))"

lemma length_command [simp]: "length (fis_bytes f) = 20" "length (prdt_entry p n) = 16" "length (command_header p b) = 32"
  by (simp_all add: fis_bytes_def prdt_entry_def command_header_def del: le_bytes.simps)

lemma seg_halves:
  "seg (command_header p b) 8 16 = le64 (dma_phys (cmd_table_buf p))" "seg (prdt_entry p n) 0 8 = le64 (dma_phys (data_buf p))"
  by (simp_all add: command_header_def prdt_entry_def halves_le64 [symmetric] seg_def del: le_bytes.simps)

lemma seg_fields:
  "seg (command_header p b) 0 2 = le16 (if b then 68 else 4)" "seg (command_header p b) 2 4 = le16 1"
  "seg (prdt_entry p 1) 12 16 = le32 0x800001FF"
  by (simp_all add: command_header_def prdt_entry_def seg_def del: le_bytes.simps)

lemma unat_low_byte: "unat (ucast (x AND 0xFF :: u64) :: u8) = unat x mod 256"
proof -
  have "(0xFF :: u64) = mask 8" by (simp add: mask_eq_exp_minus_1)
  then have "x AND 0xFF = take_bit 8 x" by (simp only: take_bit_eq_mask)
  then show ?thesis by (simp add: unsigned_ucast_eq unsigned_take_bit_eq) (simp add: take_bit_eq_mod)
qed

lemma unat_device_register: "unat (0x40 OR ucast (x AND 0x0F :: u64) :: u8) mod 16 = unat x mod 16"
proof -
  have "(0x0F :: u64) = mask 4" by (simp add: mask_eq_exp_minus_1)
  then have x: "x AND 0x0F = take_bit 4 x" by (simp only: take_bit_eq_mask)
  have "unat (0x40 OR ucast (x AND 0x0F) :: u8) mod 16 = take_bit 4 (unat (0x40 OR ucast (take_bit 4 x) :: u8))"
    by (simp add: take_bit_eq_mod x)
  also have "\<dots> = take_bit 4 (unat x)"
    by (simp add: unsigned_or_eq unsigned_ucast_eq unsigned_take_bit_eq)
  finally show ?thesis by (simp add: take_bit_eq_mod)
qed

lemma lba28_command: "lba28 (fis_bytes (command_fis cmd lba 1)) = unat lba mod 2 ^ 28"
proof -
  let ?n = "unat lba"
  have d: "unat (drop_bit k lba) = ?n div 2 ^ k" for k
    using unat_bound [of lba] by (simp add: unsigned_drop_bit_eq take_bit_nat_eq_self) (simp add: drop_bit_eq_div)
  have "lba28 (fis_bytes (command_fis cmd lba 1)) =
      ?n mod 256 + 256 * (?n div 2 ^ 8 mod 256 + 256 * (?n div 2 ^ 16 mod 256)) + 2 ^ 24 * (?n div 2 ^ 24 mod 16)"
    by (simp add: lba28_def fis_bytes_def command_fis_def seg_def unat_low_byte unat_device_register d del: One_nat_def)
  also have "\<dots> = ?n mod (256 * (256 * (256 * 16)))"
    by (simp only: mod_mult2_eq div_mult2_eq [symmetric]) simp
  finally show ?thesis by simp
qed

text \<open>What the adapter finds in the command header and table and what the driver left alone.\<close>

lemma prepared_reads:
  assumes "port_pages off p"
  shows "rd_le (prepared p cmd lba w r) (dma_phys (cmd_list_buf p)) 2 = (if w then 68 else 4)"
    and "rd_le (prepared p cmd lba w r) (dma_phys (cmd_list_buf p) + 2) 2 = 1"
    and "of_nat (rd_le (prepared p cmd lba w r) (dma_phys (cmd_list_buf p) + 8) 8) = dma_phys (cmd_table_buf p)"
    and "peek (prepared p cmd lba w r) (dma_phys (cmd_table_buf p)) 20 = fis_bytes (command_fis cmd lba 1)"
    and "rd_le (prepared p cmd lba w r) (dma_phys (cmd_table_buf p) + 128) 8 = unat (dma_phys (data_buf p))"
    and "rd_le (prepared p cmd lba w r) (dma_phys (cmd_table_buf p) + 140) 4 = 0x800001FF"
    and "page (prepared p cmd lba w r) (dma_phys (data_buf p)) = page r (dma_phys (data_buf p))"
proof -
  let ?L = "dma_phys (cmd_list_buf p)" and ?T = "dma_phys (cmd_table_buf p)" and ?D = "dma_phys (data_buf p)"
  let ?r = "prepared p cmd lba w r"
  have pg: "page_addr ?L" "page_addr ?T" "page_addr ?D" and ne: "?T \<noteq> ?L" "?L \<noteq> ?D" "?T \<noteq> ?D"
    using assms by (auto simp: port_pages_def)
  note ps = poke_page_same [where k = 128, simplified] poke_page_other [where k = 128, simplified]
    poke_page_same_0 poke_page_other_0
  have L: "page ?r ?L = blit (page r ?L) 0 (command_header p w)"
    by (simp add: prepared_def ps pg ne)
  have T: "page ?r ?T = blit (blit (blit (page r ?T) 0 (zeros 256)) 0 (fis_bytes (command_fis cmd lba 1))) 128 (prdt_entry p 1)"
    using ne by (simp add: prepared_def ps pg)
  show "page ?r ?D = page r ?D" using ne by (simp add: prepared_def ps pg)
  have Ls: "seg (page ?r ?L) i j = seg (command_header p w) i j" if "i \<le> j" "j \<le> 32" for i j
  proof -
    have "seg (page ?r ?L) i j = seg (seg (page ?r ?L) 0 32) i j" using that by (simp add: seg_seg)
    then show ?thesis by (simp add: L seg_blit_same)
  qed
  have Ts: "seg (page ?r ?T) (128 + i) (128 + j) = seg (prdt_entry p 1) i j" if "i \<le> j" "j \<le> 16" for i j
  proof -
    have "seg (page ?r ?T) (128 + i) (128 + j) = seg (seg (page ?r ?T) 128 144) i j" using that by (simp add: seg_seg)
    then show ?thesis by (simp add: T seg_blit_same length_blit)
  qed
  show "rd_le ?r ?L 2 = (if w then 68 else 4)"
    using peek_page_0 [of 2 ?r ?L] by (simp add: rd_le_def Ls seg_fields le_val_le_bytes del: le_bytes.simps)
  show "rd_le ?r (?L + 2) 2 = 1"
    using peek_page [of 2 2 ?r ?L] by (simp add: rd_le_def Ls seg_fields le_val_le_bytes del: le_bytes.simps)
  show "of_nat (rd_le ?r (?L + 8) 8) = ?T"
    using peek_page [of 8 8 ?r ?L] by (simp add: rd_le_def Ls seg_halves of_nat_le_val_le64)
  show "rd_le ?r (?T + 128) 8 = unat ?D"
    using peek_page [of 128 8 ?r ?T] Ts [of 0 8] by (simp add: rd_le_def seg_halves le_val_le64)
  show "rd_le ?r (?T + 140) 4 = 0x800001FF"
    using peek_page [of 140 4 ?r ?T] Ts [of 12 16] by (simp add: rd_le_def seg_fields le_val_le32 del: le_bytes.simps)
  show "peek ?r ?T 20 = fis_bytes (command_fis cmd lba 1)"
    using peek_page_0 [of 20 ?r ?T] by (simp add: T seg_blit_same seg_blit_disjoint length_blit)
qed

text \<open>Bytes of one page are not in a range of another.\<close>

lemma page_apart:
  assumes "page_addr a" "page_addr b" "a \<noteq> b" "i < 4096" "j + n \<le> 4096"
  shows "n \<le> unat (a + of_nat i - (b + of_nat j))"
proof (rule ccontr)
  let ?u = "unat (a + of_nat i - (b + of_nat j))"
  assume "\<not> n \<le> ?u"
  then have "j + ?u < 4096" using assms(5) by linarith
  moreover have "a + of_nat i = b + of_nat (j + ?u)" by simp
  ultimately show False using page_diff [OF assms(1,2,4), of "j + ?u"] assms(3) by simp
qed

section \<open>The driver on the adapter\<close>

text \<open>The port runs, is idle, uses the pages of \<open>p\<close>, and its sectors have 512 bytes.\<close>

definition hba_ready :: "PortState \<Rightarrow> hba \<Rightarrow> bool" where
  "hba_ready p d \<longleftrightarrow> hba_ci d = 0 \<and> hba_tfd d AND 0x88 = 0 \<and> hba_clb d = dma_phys (cmd_list_buf p)
     \<and> hba_fb d = dma_phys (rfis_buf p) \<and> hba_st d \<and> hba_fre d \<and> hba_fr d \<and> hba_cr d
     \<and> (\<forall>n < hba_count d. length (hba_sectors d n) = 512)"

definition known_command :: "hba \<Rightarrow> u8 \<Rightarrow> u64 \<Rightarrow> bool" where
  "known_command d cmd lba \<longleftrightarrow> cmd = 0xEC \<or> (cmd = ATA_CMD_READ_SECTORS \<or> cmd = ATA_CMD_WRITE_SECTORS) \<and> unat lba mod 2 ^ 28 < hba_count d"

text \<open>The memory and the device when the command is issued.\<close>

definition issued :: "PortState \<Rightarrow> u8 \<Rightarrow> u64 \<Rightarrow> bool \<Rightarrow> hba Machine \<Rightarrow> hba Machine" where
  "issued p cmd lba w m = m\<lparr>ram := prepared p cmd lba w (ram m)\<rparr>"

lemma page_divides:
  assumes "page_addr a"
  shows "1024 dvd unat a" "256 dvd unat a" "128 dvd unat a" "even (unat a)"
proof -
  have p: "4096 dvd unat a" using assms by (simp add: page_addr_def)
  have "(1024 :: nat) dvd 4096" "(256 :: nat) dvd 4096" "(128 :: nat) dvd 4096" "(2 :: nat) dvd 4096" by presburger+
  from this [THEN dvd_trans, OF p] show "1024 dvd unat a" "256 dvd unat a" "128 dvd unat a" "even (unat a)" by auto
qed

lemma lba_mode: "(0x40 OR x :: u8) AND 0x40 \<noteq> 0"
proof -
  have "bit ((0x40 OR x) AND 0x40) 6" by (simp add: bit_simps)
  then show ?thesis by (metis bit_0_eq bot_apply bot_bool_def)
qed

lemma issued_accepted:
  assumes p: "port_pages off p" and rdy: "hba_ready p (hw m)" and known: "known_command (hw m) cmd lba"
    and w: "w \<longleftrightarrow> cmd = ATA_CMD_WRITE_SECTORS"
  shows "hba_accepts (issued p cmd lba w m)"
proof -
  have pg: "page_addr (dma_phys (cmd_list_buf p))" "page_addr (dma_phys (cmd_table_buf p))"
    "page_addr (dma_phys (rfis_buf p))" "page_addr (dma_phys (data_buf p))"
    using p by (simp_all add: port_pages_def)
  have f: "fis_bytes (command_fis cmd lba 1) ! 0 = 0x27" "fis_bytes (command_fis cmd lba 1) ! 1 = 0x80"
    "fis_bytes (command_fis cmd lba 1) ! 2 = cmd" "fis_bytes (command_fis cmd lba 1) ! 7 AND 0x40 \<noteq> 0"
    "fis_bytes (command_fis cmd lba 1) ! 12 = 1"
    by (simp_all add: fis_bytes_def command_fis_def lba_mode)
  have cl: "hba_clb (hw m) = dma_phys (cmd_list_buf p)" "hba_fb (hw m) = dma_phys (rfis_buf p)"
    using rdy by (simp_all add: hba_ready_def)
  have "hba_ci (hw m) = 0 \<and> hba_tfd (hw m) AND 0x88 = 0 \<and> hba_st (hw m) \<and> hba_fre (hw m) \<and> hba_fr (hw m) \<and> hba_cr (hw m)"
    using rdy by (simp add: hba_ready_def)
  moreover have "4 \<le> (if w then 68 else 4 :: nat) mod 32" "even ((if w then 68 else 4 :: nat) div 32)"
    "odd ((if w then 68 else 4 :: nat) div 64) \<longleftrightarrow> cmd = 0x30"
    using w by auto
  moreover have "cmd = 0xEC \<or> (cmd = 0x20 \<or> cmd = 0x30) \<and> lba28 (fis_bytes (command_fis cmd lba 1)) < hba_count (hw m)"
    using known by (auto simp: known_command_def lba28_command)
  ultimately show ?thesis
    using f page_divides(1) [OF pg(1)] page_divides(2) [OF pg(3)] page_divides(3) [OF pg(2)] page_divides(4) [OF pg(4)]
    unfolding hba_accepts_def Let_def issued_def
    by (simp add: cl prepared_reads [OF p])
qed

lemma execute_write:
  assumes "port_pages off p" "hba_clb (hw m) = dma_phys (cmd_list_buf p)"
  shows "hw (hba_execute (issued p ATA_CMD_WRITE_SECTORS lba w m)) = (hw m)\<lparr>hba_ci := 0, hba_tfd := 0x50,
       hba_sectors := (hba_sectors (hw m))(unat lba mod 2 ^ 28 := seg (page (ram m) (dma_phys (data_buf p))) 0 512)\<rparr>"
proof -
  have c: "fis_bytes (command_fis cmd lba 1) ! 2 = cmd" for cmd by (simp add: fis_bytes_def command_fis_def)
  show ?thesis
    unfolding hba_execute_def issued_def Let_def
    by (simp add: assms(2) prepared_reads [OF assms(1)] c peek_page_0 lba28_command [simplified])
qed

lemma execute_read:
  assumes "port_pages off p" "hba_clb (hw m) = dma_phys (cmd_list_buf p)"
  shows "hba_execute (issued p ATA_CMD_READ_SECTORS lba w m) =
    \<lparr>ram = poke (dma_phys (data_buf p)) (hba_sectors (hw m) (unat lba mod 2 ^ 28)) (prepared p ATA_CMD_READ_SECTORS lba w (ram m)),
     hw = (hw m)\<lparr>hba_ci := 0, hba_tfd := 0x50\<rparr>\<rparr>"
proof -
  have c: "fis_bytes (command_fis cmd lba 1) ! 2 = cmd" for cmd by (simp add: fis_bytes_def command_fis_def)
  show ?thesis
    unfolding hba_execute_def issued_def Let_def
    by (simp add: assms(2) prepared_reads [OF assms(1)] c lba28_command [simplified])
qed

lemma execute_identify:
  assumes "port_pages off p" "hba_clb (hw m) = dma_phys (cmd_list_buf p)"
  shows "hba_execute (issued p 0xEC lba w m) =
    \<lparr>ram = poke (dma_phys (data_buf p)) (hba_ident (hw m)) (prepared p 0xEC lba w (ram m)),
     hw = (hw m)\<lparr>hba_ci := 0, hba_tfd := 0x50\<rparr>\<rparr>"
proof -
  have c: "fis_bytes (command_fis cmd lba 1) ! 2 = cmd" for cmd by (simp add: fis_bytes_def command_fis_def)
  show ?thesis
    unfolding hba_execute_def issued_def Let_def
    by (simp add: assms(2) prepared_reads [OF assms(1)] c lba28_command [simplified])
qed

lemma hba_execute_status: "hba_ci (hw (hba_execute m)) = 0" "hba_tfd (hw (hba_execute m)) = 0x50"
  by (simp_all add: hba_execute_def Let_def)

context ahci_adapter
begin

lemma read_registers:
  "read_u32 mm m (port_at abar k + PORT_CI) = hba_ci (hv (hw m))" "read_u32 mm m (port_at abar k + PORT_TFD) = hba_tfd (hv (hw m))"
  "read_u32 mm m (port_at abar k + PORT_SSTS) = hba_ssts (hv (hw m))" "read_u32 mm m (abar + HBA_PI) = hba_pi (hv (hw m))"
  by (simp_all add: read_u32_def rd_reg_def rd_ci rd_tfd rd_ssts rd_pi del: add_0_right)

lemma issue_runs:
  assumes p: "port_pages (mm_off mm) p" "port_base p = port_at abar k" and rdy: "hba_ready p (hv (hw m))"
    and known: "known_command (hv (hw m)) cmd lba" and w: "w \<longleftrightarrow> cmd = ATA_CMD_WRITE_SECTORS"
  obtains m' where "issue_command mm p cmd lba 1 w m = (Ok (), m')"
    "hv (hw m') = hw (hba_execute (issued p cmd lba w (view hv m)))"
    "page (ram m') (dma_phys (data_buf p)) = page (ram (hba_execute (issued p cmd lba w (view hv m)))) (dma_phys (data_buf p))"
proof -
  let ?m1 = "m\<lparr>ram := prepared p cmd lba w (ram m)\<rparr>" and ?D = "dma_phys (data_buf p)"
  have v: "dma_virt (cmd_list_buf p) = dma_phys (cmd_list_buf p) + mm_off mm"
    "dma_virt (cmd_table_buf p) = dma_phys (cmd_table_buf p) + mm_off mm" "dma_virt (data_buf p) = dma_phys (data_buf p) + mm_off mm"
    using p(1) by (simp_all add: port_pages_def)
  have t: "dma_phys (cmd_table_buf p) + mm_off mm + 128 - mm_off mm = dma_phys (cmd_table_buf p) + 128" by simp
  have wr: "cpu_wr mm (dma_virt (cmd_table_buf p) + 128) (prdt_entry p 1)
       (cpu_wr mm (dma_virt (cmd_table_buf p)) (fis_bytes (command_fis cmd lba 1))
         (cpu_wr mm (dma_virt (cmd_table_buf p)) (zeros 256)
           (cpu_wr mm (dma_virt (cmd_list_buf p)) (command_header p w) m))) = ?m1"
    unfolding v cpu_wr_def t by (simp add: prepared_def)
  have iss: "issued p cmd lba w (view hv m) = view hv ?m1" by (simp add: issued_def view_def)
  have acc: "hba_accepts (view hv ?m1)"
    unfolding iss [symmetric] by (rule issued_accepted [OF p(1) _ _ w]) (use rdy known in simp_all)
  let ?w = "mm_wr mm (port_at abar k + PORT_CI) 4 1 ?m1"
  obtain n where n: "n \<le> delay" "\<And>i. i < n \<Longrightarrow> hba_ci (hv (hw ((mm_tick mm ^^ i) ?w))) AND 1 \<noteq> 0"
      "hv (hw ((mm_tick mm ^^ n) ?w)) = hw (hba_execute (view hv ?m1))"
      "\<And>q. 256 \<le> unat (q - hba_fb (hv (hw ?m1))) \<Longrightarrow> 4 \<le> unat (q - (hba_clb (hv (hw ?m1)) + 4)) \<Longrightarrow>
         ram ((mm_tick mm ^^ n) ?w) q = ram (hba_execute (view hv ?m1)) q"
    using runs [OF acc] by blast
  define m' where "m' = (mm_tick mm ^^ n) ?w"
  have "wait_for_clear mm (port_at abar k + PORT_TFD) 0x88 500000 m = (True, m)"
    using poll_clear_ticks [of 0 mm m "port_at abar k + PORT_TFD" "0x88" 50000000] rdy
    by (simp add: wait_for_clear_def read_registers hba_ready_def)
  moreover have "wait_for_clear mm (port_at abar k + PORT_CI) 1 5000000 ?w = (True, m')"
  proof -
    have "poll_clear mm (port_at abar k + PORT_CI) 1 500000000 ?w = (True, (mm_tick mm ^^ n) ?w)"
      by (rule poll_clear_ticks) (use n(1-3) in_time(2) in \<open>simp_all add: read_registers hba_execute_status\<close>)
    then show ?thesis by (simp add: wait_for_clear_def m'_def)
  qed
  moreover have "read_u32 mm m' (port_at abar k + PORT_TFD) = 0x50"
    unfolding read_registers m'_def n(3) hba_execute_status by (rule refl)
  ultimately have i: "issue_command mm p cmd lba 1 w m = (Ok (), m')"
    by (simp add: issue_command_def must_def Let_def wr p(2)) (simp add: write_u32_def)
  have "ram m' (?D + of_nat i) = ram (hba_execute (view hv ?m1)) (?D + of_nat i)" if "i < 4096" for i
  proof -
    have pg: "page_addr ?D" "page_addr (dma_phys (rfis_buf p))" "page_addr (dma_phys (cmd_list_buf p))"
      "?D \<noteq> dma_phys (rfis_buf p)" "?D \<noteq> dma_phys (cmd_list_buf p)"
      using p(1) by (auto simp: port_pages_def)
    have "hba_fb (hv (hw ?m1)) = dma_phys (rfis_buf p)" "hba_clb (hv (hw ?m1)) = dma_phys (cmd_list_buf p)"
      using rdy by (simp_all add: hba_ready_def)
    with n(4) [of "?D + of_nat i"] page_apart [OF pg(1,2,4) that, of 0 256] page_apart [OF pg(1,3,5) that, of 4 4]
    show ?thesis by (simp add: m'_def)
  qed
  then have "page (ram m') ?D = page (ram (hba_execute (view hv ?m1))) ?D" by (simp add: page_def peek_def)
  with i n(3) show thesis by (intro that [of m']) (simp_all add: iss m'_def)
qed

lemma write_on_hba:
  assumes p: "port_pages (mm_off mm) p" "port_base p = port_at abar k" and rdy: "hba_ready p (hv (hw m))"
    and "unat lba mod 2 ^ 28 < hba_count (hv (hw m))" "512 \<le> length bs"
  obtains m' where "port_write_sectors mm p m lba bs = (Ok (), m')" "hba_ready p (hv (hw m'))"
    "hba_count (hv (hw m')) = hba_count (hv (hw m))"
    "hba_sectors (hv (hw m')) = (hba_sectors (hv (hw m)))(unat lba mod 2 ^ 28 := take 512 bs)"
proof -
  let ?D = "dma_phys (data_buf p)"
  let ?m = "m\<lparr>ram := poke ?D (take 512 bs) (ram m)\<rparr>"
  have D: "cpu_wr mm (dma_virt (data_buf p)) (take 512 bs) m = ?m"
    using p(1) by (simp add: cpu_wr_def port_pages_def)
  have l: "length (take 512 bs) = 512" using assms(5) by simp
  have "page (ram ?m) ?D = blit (page (ram m) ?D) 0 (take 512 bs)"
    using poke_page_same_0 [of "take 512 bs" ?D "ram m"] l by simp
  then have s: "seg (page (ram ?m) ?D) 0 512 = take 512 bs"
    using seg_blit_same [of 0 "take 512 bs" "page (ram m) ?D" 512] l by simp
  have k: "known_command (hv (hw ?m)) ATA_CMD_WRITE_SECTORS lba" and r: "hba_ready p (hv (hw ?m))"
    using assms(3,4) by (simp_all add: known_command_def)
  obtain m' where m': "issue_command mm p ATA_CMD_WRITE_SECTORS lba 1 True ?m = (Ok (), m')"
      "hv (hw m') = hw (hba_execute (issued p ATA_CMD_WRITE_SECTORS lba True (view hv ?m)))"
    by (rule issue_runs [OF p r k, of True]) simp_all
  have "hv (hw m') = (hv (hw m))\<lparr>hba_ci := 0, hba_tfd := 0x50, hba_sectors := (hba_sectors (hv (hw m)))(unat lba mod 2 ^ 28 := take 512 bs)\<rparr>"
    using m'(2) execute_write [OF p(1), of "view hv ?m" lba True] rdy s by (simp add: hba_ready_def)
  with m'(1) rdy l assms(5) show thesis
    by (intro that [of m']) (simp_all add: port_write_sectors_def D hba_ready_def)
qed

lemma data_on_hba:
  assumes p: "port_pages (mm_off mm) p"
    and "page (ram m') (dma_phys (data_buf p)) = page (poke (dma_phys (data_buf p)) s r) (dma_phys (data_buf p))" "length s = 512"
  shows "cpu_rd mm m' (dma_virt (data_buf p)) 512 = s"
proof -
  let ?D = "dma_phys (data_buf p)"
  have "peek (ram m') ?D 512 = seg (page (poke ?D s r) ?D) 0 512"
    unfolding assms(2) [symmetric] by (rule peek_page_0) simp
  also have "page (poke ?D s r) ?D = blit (page r ?D) 0 s" by (rule poke_page_same_0) (simp add: assms(3))
  also have "seg (blit (page r ?D) 0 s) 0 512 = s" by (rule seg_blit_same) (simp_all add: assms(3))
  finally show ?thesis using p by (simp add: cpu_rd_def port_pages_def)
qed

lemma read_on_hba:
  assumes p: "port_pages (mm_off mm) p" "port_base p = port_at abar k" and rdy: "hba_ready p (hv (hw m))"
    and "unat lba mod 2 ^ 28 < hba_count (hv (hw m))" "512 \<le> length xs"
  obtains m' where "port_read_sectors mm p m lba xs = (Ok (blit xs 0 (hba_sectors (hv (hw m)) (unat lba mod 2 ^ 28))), m')"
    "hba_ready p (hv (hw m'))" "hba_count (hv (hw m')) = hba_count (hv (hw m))" "hba_sectors (hv (hw m')) = hba_sectors (hv (hw m))"
proof -
  have k: "known_command (hv (hw m)) ATA_CMD_READ_SECTORS lba" using assms(4) by (simp add: known_command_def)
  have l: "length (hba_sectors (hv (hw m)) (unat lba mod 2 ^ 28)) = 512" using rdy assms(4) by (simp add: hba_ready_def)
  obtain m' where m': "issue_command mm p ATA_CMD_READ_SECTORS lba 1 False m = (Ok (), m')"
      "hv (hw m') = hw (hba_execute (issued p ATA_CMD_READ_SECTORS lba False (view hv m)))"
      "page (ram m') (dma_phys (data_buf p)) = page (ram (hba_execute (issued p ATA_CMD_READ_SECTORS lba False (view hv m)))) (dma_phys (data_buf p))"
    by (rule issue_runs [OF p rdy k, of False]) simp_all
  have e: "hba_execute (issued p ATA_CMD_READ_SECTORS lba False (view hv m)) =
    \<lparr>ram = poke (dma_phys (data_buf p)) (hba_sectors (hv (hw m)) (unat lba mod 2 ^ 28)) (prepared p ATA_CMD_READ_SECTORS lba False (ram m)),
     hw = (hv (hw m))\<lparr>hba_ci := 0, hba_tfd := 0x50\<rparr>\<rparr>"
    using execute_read [OF p(1), of "view hv m" lba False] rdy by (simp add: hba_ready_def)
  have "cpu_rd mm m' (dma_virt (data_buf p)) 512 = hba_sectors (hv (hw m)) (unat lba mod 2 ^ 28)"
    using data_on_hba [OF p(1) _ l] m'(3) e by simp
  with m' e rdy assms(5) show thesis
    by (intro that [of m']) (simp_all add: port_read_sectors_def hba_ready_def)
qed

lemma write_then_read:
  assumes p: "port_pages (mm_off mm) p" "port_base p = port_at abar k" and rdy: "hba_ready p (hv (hw m))"
    and "unat lba mod 2 ^ 28 < hba_count (hv (hw m))" "unat lba' mod 2 ^ 28 < hba_count (hv (hw m))"
    and "512 \<le> length bs" "512 \<le> length xs"
  shows "\<exists>m1 m2. port_write_sectors mm p m lba bs = (Ok (), m1)
    \<and> hba_sectors (hv (hw m1)) = (hba_sectors (hv (hw m)))(unat lba mod 2 ^ 28 := take 512 bs)
    \<and> port_read_sectors mm p m1 lba' xs =
        (Ok (blit xs 0 (if unat lba' mod 2 ^ 28 = unat lba mod 2 ^ 28 then take 512 bs
                         else hba_sectors (hv (hw m)) (unat lba' mod 2 ^ 28))), m2)
    \<and> hba_sectors (hv (hw m2)) = hba_sectors (hv (hw m1))"
proof -
  obtain m1 where m1: "port_write_sectors mm p m lba bs = (Ok (), m1)" "hba_ready p (hv (hw m1))"
      "hba_count (hv (hw m1)) = hba_count (hv (hw m))"
      "hba_sectors (hv (hw m1)) = (hba_sectors (hv (hw m)))(unat lba mod 2 ^ 28 := take 512 bs)"
    by (rule write_on_hba [OF p rdy assms(4,6)])
  have "unat lba' mod 2 ^ 28 < hba_count (hv (hw m1))" using assms(5) m1(3) by simp
  then obtain m2 where m2: "port_read_sectors mm p m1 lba' xs = (Ok (blit xs 0 (hba_sectors (hv (hw m1)) (unat lba' mod 2 ^ 28))), m2)"
      "hba_sectors (hv (hw m2)) = hba_sectors (hv (hw m1))"
    by (rule read_on_hba [OF p m1(2) _ assms(7)])
  from m1 m2 show ?thesis by auto
qed

end

section \<open>Sectors\<close>


text \<open>
  The length of the FIS in the command header is too short: it says four double words, and the FIS the driver builds, like
  every host to device FIS, has five.
\<close>

theorem command_fis_length_short:
  "le_val (take 2 (command_header p w)) mod 32 = 4" "length (fis_bytes (command_fis cmd lba n)) = 5 * 4"
  by (simp_all add: command_header_def le_val_le_bytes del: le_bytes.simps)

section \<open>An adapter with a delay\<close>

text \<open>The registers of the controller are not those of a port.\<close>

lemma controller_register:
  assumes "k < 32" "c < 0x100" "x < 0x80"
  shows "mmio_base + of_nat c \<noteq> mmio_base + HBA_PORTS + of_nat k * PORT_SIZE + (of_nat x :: u64)"
proof
  assume "mmio_base + of_nat c = mmio_base + HBA_PORTS + of_nat k * PORT_SIZE + (of_nat x :: u64)"
  then have "(of_nat c :: u64) = of_nat (256 + k * 128 + x)" by (simp add: add.assoc)
  moreover have "unat (of_nat c :: u64) = c" "unat (of_nat (256 + k * 128 + x) :: u64) = 256 + k * 128 + x"
    using assms by (simp_all only: unat_of_nat) simp_all
  ultimately have "c = 256 + k * 128 + x" by metis
  then show False using assms by simp
qed

text \<open>
  An instance: the engines follow at the write, and a command takes \<open>delay\<close> ticks and one more. With it the FIS area is
  filled with \<open>0x34\<close>.
\<close>

record slow_hba =
  sh_hba :: hba
  sh_timer :: nat

definition slow_read :: "u64 \<Rightarrow> nat \<Rightarrow> slow_hba \<Rightarrow> u64 \<Rightarrow> nat \<Rightarrow> nat" where
  "slow_read abar k h a w =
     (let d = sh_hba h; base = port_at abar k in
      if a = base + PORT_CI then unat (hba_ci d)
      else if a = base + PORT_TFD then unat (hba_tfd d)
      else if a = base + PORT_SSTS then unat (hba_ssts d)
      else if a = base + PORT_CMD then
        of_bool (hba_st d) + (if hba_fre d then 0x10 else 0) + (if hba_fr d then 0x4000 else 0) + (if hba_cr d then 0x8000 else 0)
      else if a = abar + HBA_PI then unat (hba_pi d)
      else 0)"

definition slow_write :: "u64 \<Rightarrow> nat \<Rightarrow> nat \<Rightarrow> u64 \<Rightarrow> nat \<Rightarrow> nat \<Rightarrow> slow_hba Machine \<Rightarrow> slow_hba Machine" where
  "slow_write abar k delay a w v m =
     (let d = sh_hba (hw m); base = port_at abar k in
      if a = base + PORT_CI then
        (if hba_accepts (view sh_hba m) then m\<lparr>hw := \<lparr>sh_hba = d\<lparr>hba_ci := of_nat v\<rparr>, sh_timer = delay\<rparr>\<rparr> else m)
      else
        let d' = hba_reg base a v d
        in m\<lparr>hw := (hw m)\<lparr>sh_hba := d'\<lparr>hba_fr := hba_fre d', hba_cr := hba_st d'\<rparr>\<rparr>\<rparr>)"

definition slow_tick :: "slow_hba Machine \<Rightarrow> slow_hba Machine" where
  "slow_tick m =
     (let d = sh_hba (hw m) in
      if hba_ci d = 0 then m\<lparr>hw := (hw m)\<lparr>sh_hba := d\<lparr>hba_fr := hba_fre d, hba_cr := hba_st d\<rparr>\<rparr>\<rparr>
      else if 0 < sh_timer (hw m) then m\<lparr>hw := (hw m)\<lparr>sh_timer := sh_timer (hw m) - 1\<rparr>\<rparr>
      else
        let m' = hba_execute (view sh_hba m)
        in \<lparr>ram = poke (hba_fb d) (replicate 256 0x34) (poke (hba_clb d + 4) (le32 512) (ram m')), hw = (hw m)\<lparr>sh_hba := hw m'\<rparr>\<rparr>)"

definition slow_machine :: "u64 \<Rightarrow> u64 \<Rightarrow> nat \<Rightarrow> nat \<Rightarrow> slow_hba mmio" where
  "slow_machine off abar k delay =
     \<lparr>mm_off = off, mm_rd = slow_read abar k, mm_wr = slow_write abar k delay, mm_tick = slow_tick\<rparr>"

lemma slow_ticks:
  "hba_ci (sh_hba (hw m)) \<noteq> 0 \<Longrightarrow> i \<le> sh_timer (hw m) \<Longrightarrow>
   (slow_tick ^^ i) m = m\<lparr>hw := (hw m)\<lparr>sh_timer := sh_timer (hw m) - i\<rparr>\<rparr>"
  by (induction i) (auto simp: slow_tick_def Let_def)

lemma slow_runs:
  assumes "hba_accepts (view sh_hba m)"
  shows "\<exists>n \<le> Suc delay. (\<forall>i < n. hba_ci (sh_hba (hw ((slow_tick ^^ i) (slow_write abar k delay (port_at abar k + PORT_CI) 4 1 m)))) AND 1 \<noteq> 0)
        \<and> sh_hba (hw ((slow_tick ^^ n) (slow_write abar k delay (port_at abar k + PORT_CI) 4 1 m))) = hw (hba_execute (view sh_hba m))
        \<and> (\<forall>p. 256 \<le> unat (p - hba_fb (sh_hba (hw m))) \<and> 4 \<le> unat (p - (hba_clb (sh_hba (hw m)) + 4)) \<longrightarrow>
             ram ((slow_tick ^^ n) (slow_write abar k delay (port_at abar k + PORT_CI) 4 1 m)) p = ram (hba_execute (view sh_hba m)) p)"
proof -
  define m1 where "m1 = slow_write abar k delay (port_at abar k + PORT_CI) 4 1 m"
  have m1: "m1 = m\<lparr>hw := \<lparr>sh_hba = (sh_hba (hw m))\<lparr>hba_ci := 1\<rparr>, sh_timer = delay\<rparr>\<rparr>"
    using assms by (simp add: m1_def slow_write_def Let_def)
  have t: "(slow_tick ^^ i) m1 = m1\<lparr>hw := (hw m1)\<lparr>sh_timer := delay - i\<rparr>\<rparr>" if "i \<le> delay" for i
    using slow_ticks [of m1 i] that by (simp add: m1)
  have e: "hba_execute (view sh_hba (m1\<lparr>hw := (hw m1)\<lparr>sh_timer := 0\<rparr>\<rparr>)) = hba_execute (view sh_hba m)"
    by (simp add: m1 view_def hba_execute_def Let_def)
  have d: "(slow_tick ^^ Suc delay) m1 =
      \<lparr>ram = poke (hba_fb (sh_hba (hw m))) (replicate 256 0x34) (poke (hba_clb (sh_hba (hw m)) + 4) (le32 512) (ram (hba_execute (view sh_hba m)))),
       hw = \<lparr>sh_hba = hw (hba_execute (view sh_hba m)), sh_timer = 0\<rparr>\<rparr>"
    using e by (simp add: t) (simp add: slow_tick_def Let_def m1)
  have "\<forall>i < Suc delay. hba_ci (sh_hba (hw ((slow_tick ^^ i) m1))) AND 1 \<noteq> 0"
    by (simp add: t less_Suc_eq_le) (simp add: m1)
  then show ?thesis
    unfolding m1_def [symmetric] using d by (intro exI [of _ "Suc delay"]) (simp add: poke_def)
qed

lemma slow_adapter:
  assumes "k < 32" "Suc delay < 500000000"
  shows "ahci_adapter (slow_machine off abar k delay) sh_hba abar k 1 (Suc delay)"
proof (unfold_locales, goal_cases)
  case (7 h)
  then show ?case
    using controller_register [OF assms(1), of 12 "0x38" abar] controller_register [OF assms(1), of 12 "0x20" abar]
      controller_register [OF assms(1), of 12 "0x28" abar] controller_register [OF assms(1), of 12 "0x18" abar]
    by (simp add: slow_machine_def slow_read_def port_at_def Let_def)
next
  case (8 h)
  then show ?case
    using controller_register [OF assms(1), of 4 "0x38" abar] controller_register [OF assms(1), of 4 "0x20" abar]
      controller_register [OF assms(1), of 4 "0x28" abar] controller_register [OF assms(1), of 4 "0x18" abar]
    by (simp add: slow_machine_def slow_read_def port_at_def Let_def)
next
  case (13 a v m)
  have "(4 :: nat) < 256" by simp
  then have "a \<noteq> port_at abar k + PORT_CI"
    using 13 controller_register [OF assms(1), of 4 "0x38" abar] by (auto simp: reg_allowed_def port_at_def)
  then show ?case by (auto simp: slow_machine_def slow_write_def settles_def Let_def)
next
  case (14 m)
  then show ?case by (auto simp: slow_machine_def slow_tick_def Let_def settles_def)
next
  case (15 m)
  then show ?case by (intro exI [of _ 1]) (simp add: slow_machine_def slow_tick_def Let_def)
next
  case (16 m)
  then show ?case by (intro exI [of _ 1]) (simp add: slow_machine_def slow_tick_def Let_def)
next
  case (17 m)
  then show ?case using slow_runs [of m delay abar k] by (simp add: slow_machine_def)
qed (use assms in \<open>simp_all add: slow_machine_def slow_read_def Let_def bit_simps\<close>)

interpretation sh: ahci_adapter "slow_machine off 0xFEB00000 2 9" sh_hba "0xFEB00000" 2 1 10 for off
  using slow_adapter [of 2 9] by simp

definition example_port :: PortState where
  "example_port = \<lparr>port_base = 0xFEB00200, cmd_list_buf = \<lparr>dma_phys = 0x1000, dma_virt = 0x1000, dma_size = 4096\<rparr>,
     cmd_table_buf = \<lparr>dma_phys = 0x2000, dma_virt = 0x2000, dma_size = 4096\<rparr>,
     rfis_buf = \<lparr>dma_phys = 0x3000, dma_virt = 0x3000, dma_size = 4096\<rparr>,
     data_buf = \<lparr>dma_phys = 0x4000, dma_virt = 0x4000, dma_size = 4096\<rparr>\<rparr>"

text \<open>A disk whose sector \<open>n\<close> is filled with \<open>n\<close>.\<close>

definition example_hba :: "slow_hba Machine" where
  "example_hba = \<lparr>ram = (\<lambda>_. 0), hw = \<lparr>sh_hba = \<lparr>hba_ci = 0, hba_tfd = 0x50, hba_pi = 4, hba_ssts = 0x123, hba_clb = 0x1000,
     hba_fb = 0x3000, hba_st = True, hba_fre = True, hba_fr = True, hba_cr = True, hba_ident = zeros 512,
     hba_sectors = (\<lambda>n. replicate 512 (of_nat n)), hba_count = 2 ^ 28\<rparr>, sh_timer = 0\<rparr>\<rparr>"


end
