(* ===== verification/Virtio.thy ===== *)
theory Virtio
  imports Machine Registry
begin

text \<open>
  The virtio block driver (\<^verbatim>\<open>src/lib/driver/src/block/virtio\<close>): finding the capability structures, bringing the
  device up, and the request path over one queue with a fixed descriptor chain. \<open>mm\<close> is the machine with the
  device, \<open>dma\<close> the DMA allocator. An error message \<open>&'static str\<close> is a string; the polling loop gives \<open>None\<close> when it
  never ends.
\<close>

section \<open>Constants and structures\<close>

definition VENDOR_VIRTIO :: u16 where "VENDOR_VIRTIO = 0x1AF4"
definition DEVICE_VIRTIO_BLK :: u16 where "DEVICE_VIRTIO_BLK = 0x1042"
definition DEVICE_VIRTIO_BLK_L :: u16 where "DEVICE_VIRTIO_BLK_L = 0x1001"

abbreviation VIRTIO_STATUS_ACKNOWLEDGE :: u8 where "VIRTIO_STATUS_ACKNOWLEDGE \<equiv> 1"
abbreviation VIRTIO_STATUS_DRIVER :: u8 where "VIRTIO_STATUS_DRIVER \<equiv> 2"
abbreviation VIRTIO_STATUS_DRIVER_OK :: u8 where "VIRTIO_STATUS_DRIVER_OK \<equiv> 4"
abbreviation VIRTIO_STATUS_FEATURES_OK :: u8 where "VIRTIO_STATUS_FEATURES_OK \<equiv> 8"

abbreviation VIRTIO_PCI_CAP_COMMON_CFG :: u8 where "VIRTIO_PCI_CAP_COMMON_CFG \<equiv> 1"
abbreviation VIRTIO_PCI_CAP_NOTIFY_CFG :: u8 where "VIRTIO_PCI_CAP_NOTIFY_CFG \<equiv> 2"
abbreviation VIRTIO_PCI_CAP_DEVICE_CFG :: u8 where "VIRTIO_PCI_CAP_DEVICE_CFG \<equiv> 4"
abbreviation VIRTIO_BLK_T_IN :: nat where "VIRTIO_BLK_T_IN \<equiv> 0"
abbreviation VIRTIO_BLK_T_OUT :: nat where "VIRTIO_BLK_T_OUT \<equiv> 1"
abbreviation COMMON_DEVICE_FEATURE_SELECT :: u64 where "COMMON_DEVICE_FEATURE_SELECT \<equiv> 0x00"
abbreviation COMMON_DEVICE_FEATURE :: u64 where "COMMON_DEVICE_FEATURE \<equiv> 0x04"
abbreviation COMMON_DRIVER_FEATURE_SELECT :: u64 where "COMMON_DRIVER_FEATURE_SELECT \<equiv> 0x08"
abbreviation COMMON_DRIVER_FEATURE :: u64 where "COMMON_DRIVER_FEATURE \<equiv> 0x0C"
abbreviation COMMON_DEVICE_STATUS :: u64 where "COMMON_DEVICE_STATUS \<equiv> 0x14"
abbreviation COMMON_QUEUE_SELECT :: u64 where "COMMON_QUEUE_SELECT \<equiv> 0x16"
abbreviation COMMON_QUEUE_SIZE :: u64 where "COMMON_QUEUE_SIZE \<equiv> 0x18"
abbreviation COMMON_QUEUE_ENABLE :: u64 where "COMMON_QUEUE_ENABLE \<equiv> 0x1C"
abbreviation COMMON_QUEUE_DESC_LOW :: u64 where "COMMON_QUEUE_DESC_LOW \<equiv> 0x20"
abbreviation COMMON_QUEUE_DESC_HIGH :: u64 where "COMMON_QUEUE_DESC_HIGH \<equiv> 0x24"
abbreviation COMMON_QUEUE_AVAIL_LOW :: u64 where "COMMON_QUEUE_AVAIL_LOW \<equiv> 0x28"
abbreviation COMMON_QUEUE_AVAIL_HIGH :: u64 where "COMMON_QUEUE_AVAIL_HIGH \<equiv> 0x2C"
abbreviation COMMON_QUEUE_USED_LOW :: u64 where "COMMON_QUEUE_USED_LOW \<equiv> 0x30"
abbreviation COMMON_QUEUE_USED_HIGH :: u64 where "COMMON_QUEUE_USED_HIGH \<equiv> 0x34"

record VirtioCapInfo =
  vc_cfg_type :: u8
  vc_bar :: u8
  vc_offset :: u32
  vc_length :: u32
  vc_cap_offset :: u16

record VirtQueue =
  vq_desc :: u64
  vq_avail :: u64
  vq_used :: u64
  vq_size :: u16
  vq_last_used :: u16

record VirtioBlkState =
  common_cfg :: u64
  notify_base :: u64
  notify_off_multiplier :: u32
  sector_count :: u64
  queue :: VirtQueue
  desc_buf :: DmaBuffer
  avail_buf :: DmaBuffer
  used_buf :: DmaBuffer
  dma_buf :: DmaBuffer

section \<open>Capabilities\<close>

fun vcap_walk :: "'hw cfg_ops \<Rightarrow> 'hw Ecam \<Rightarrow> PciDeviceInfo \<Rightarrow> u8 \<Rightarrow> nat \<Rightarrow> u16 \<Rightarrow> VirtioCapInfo option" where
  "vcap_walk ops s i cfg_type 0 ptr = None"
| "vcap_walk ops s i cfg_type (Suc n) ptr =
     (if ptr < 0x40 then None
      else
        let next = info_read8 ops s i (ptr + 1) AND NOT 3;
            t = info_read8 ops s i (ptr + 3)
        in if info_read8 ops s i ptr = 0x09 \<and> t = cfg_type
           then Some \<lparr>vc_cfg_type = t, vc_bar = info_read8 ops s i (ptr + 4), vc_offset = info_read32 ops s i (ptr + 8),
                      vc_length = info_read32 ops s i (ptr + 12), vc_cap_offset = ptr\<rparr>
           else if next = 0 then None
           else vcap_walk ops s i cfg_type n (ucast next))"

definition find_virtio_cap :: "'hw cfg_ops \<Rightarrow> 'hw Ecam \<Rightarrow> PciDeviceInfo \<Rightarrow> u8 \<Rightarrow> VirtioCapInfo option" where
  "find_virtio_cap ops s i cfg_type =
     (if info_read16 ops s i 0x06 AND 0x10 = 0 then None
      else vcap_walk ops s i cfg_type 48 (ucast (info_read8 ops s i 0x34 AND NOT 3)))"

definition map_cap :: "PciDeviceInfo \<Rightarrow> VirtioCapInfo \<Rightarrow> u64 \<Rightarrow> (u64, rstr) result" where
  "map_cap i c phys_offset =
     rbind (ok_or (str ''BAR not found'') (bar_mmio i (unat (vc_bar c))))
       (\<lambda>bar. Ok (bar + ucast (vc_offset c) + phys_offset))"

section \<open>Bringing the device up\<close>

definition dma_page :: "'al dma_allocator \<Rightarrow> 'hw Machine \<times> 'al \<Rightarrow> (DmaBuffer, rstr) result \<times> 'hw Machine \<times> 'al" where
  "dma_page dma s =
     (case dma (snd s) 4096 4096 of
        (Ok (Some b), al) \<Rightarrow> (Ok b, fst s, al)
      | (Ok None, al) \<Rightarrow> (Err (str ''dma alloc failed''), fst s, al)
      | (_, al) \<Rightarrow> (Panic, fst s, al))"

text \<open>Steps 1 to 5: reset, acknowledge, negotiate features, select queue 0; the size of the queue.\<close>

definition negotiate :: "'hw mmio \<Rightarrow> u64 \<Rightarrow> 'hw Machine \<Rightarrow> (u16, rstr) result \<times> 'hw Machine" where
  "negotiate mm common m =
     (let m = mm_wr mm (common + COMMON_DEVICE_STATUS) 1 0 m;
          m = mm_wr mm (common + COMMON_DEVICE_STATUS) 1 (unat (VIRTIO_STATUS_ACKNOWLEDGE OR VIRTIO_STATUS_DRIVER)) m;
          m = mm_wr mm (common + COMMON_DEVICE_FEATURE_SELECT) 4 0 m;
          features = rd_reg mm m (common + COMMON_DEVICE_FEATURE) 4;
          m = mm_wr mm (common + COMMON_DRIVER_FEATURE_SELECT) 4 0 m;
          m = mm_wr mm (common + COMMON_DRIVER_FEATURE) 4 features m;
          m = mm_wr mm (common + COMMON_DEVICE_STATUS) 1
                (unat (VIRTIO_STATUS_ACKNOWLEDGE OR VIRTIO_STATUS_DRIVER OR VIRTIO_STATUS_FEATURES_OK)) m;
          status = of_nat (rd_reg mm m (common + COMMON_DEVICE_STATUS) 1)
      in if status AND VIRTIO_STATUS_FEATURES_OK = 0 then (Err (str ''FEATURES_OK rejected''), m)
         else
           let m = mm_wr mm (common + COMMON_QUEUE_SELECT) 2 0 m;
               queue_size_max = of_nat (rd_reg mm m (common + COMMON_QUEUE_SIZE) 2)
           in if queue_size_max = 0 then (Err (str ''queue 0 unavailable''), m)
              else
                let queue_size = min 64 queue_size_max
                in (Ok queue_size, mm_wr mm (common + COMMON_QUEUE_SIZE) 2 (unat queue_size) m))"

text \<open>Step 7: one 64-bit queue address in two halves.\<close>

definition set_queue_addr :: "'hw mmio \<Rightarrow> u64 \<Rightarrow> u64 \<Rightarrow> PhysAddr \<Rightarrow> 'hw Machine \<Rightarrow> 'hw Machine" where
  "set_queue_addr mm lo hi a m = mm_wr mm hi 4 (unat (high_u32 a)) (mm_wr mm lo 4 (unat (low_u32 a)) m)"

definition init_device ::
    "'hw mmio \<Rightarrow> 'al dma_allocator \<Rightarrow> u64 \<Rightarrow> u64 \<Rightarrow> u64 \<Rightarrow> u32 \<Rightarrow> 'hw Machine \<times> 'al
     \<Rightarrow> (VirtioBlkState, rstr) result \<times> 'hw Machine \<times> 'al" where
  "init_device mm dma common notify device_cfg multiplier s =
     (case negotiate mm common (fst s) of
        (Err e, m) \<Rightarrow> (Err e, m, snd s)
      | (Panic, m) \<Rightarrow> (Panic, m, snd s)
      | (Ok qsize, m) \<Rightarrow>
     sbind (dma_page dma (m, snd s)) (\<lambda>db s.
     sbind (dma_page dma s) (\<lambda>ab s.
     sbind (dma_page dma s) (\<lambda>ub s.
     sbind (dma_page dma s) (\<lambda>bb s.
       let m = cpu_wr mm (dma_virt ub) (zeros 4096) (cpu_wr mm (dma_virt ab) (zeros 4096)
                 (cpu_wr mm (dma_virt db) (zeros 4096) (fst s)));
           m = set_queue_addr mm (common + COMMON_QUEUE_DESC_LOW) (common + COMMON_QUEUE_DESC_HIGH) (dma_phys db) m;
           m = set_queue_addr mm (common + COMMON_QUEUE_AVAIL_LOW) (common + COMMON_QUEUE_AVAIL_HIGH) (dma_phys ab) m;
           m = set_queue_addr mm (common + COMMON_QUEUE_USED_LOW) (common + COMMON_QUEUE_USED_HIGH) (dma_phys ub) m;
           m = mm_wr mm (common + COMMON_QUEUE_ENABLE) 2 1 m;
           m = mm_wr mm (common + COMMON_DEVICE_STATUS) 1
                 (unat (VIRTIO_STATUS_ACKNOWLEDGE OR VIRTIO_STATUS_DRIVER OR VIRTIO_STATUS_FEATURES_OK
                        OR VIRTIO_STATUS_DRIVER_OK)) m
       in (Ok \<lparr>common_cfg = common, notify_base = notify, notify_off_multiplier = multiplier,
               sector_count = of_nat (rd_reg mm m device_cfg 8),
               queue = \<lparr>vq_desc = dma_virt db, vq_avail = dma_virt ab, vq_used = dma_virt ub, vq_size = qsize,
                        vq_last_used = 0\<rparr>,
               desc_buf = db, avail_buf = ab, used_buf = ub, dma_buf = bb\<rparr>, m, snd s))))))"

definition virtio_init ::
    "'c cfg_ops \<Rightarrow> 'hw mmio \<Rightarrow> 'al dma_allocator \<Rightarrow> PciBusDevice \<Rightarrow> u64 \<Rightarrow> 'c Ecam \<Rightarrow> 'hw Machine \<times> 'al
     \<Rightarrow> (VirtioBlkState, rstr) result \<times> 'hw Machine \<times> 'al" where
  "virtio_init ops mm dma pci phys_offset e s =
     (let info = pci_info pci in
      sbind (ok_or (str ''missing common cfg'') (find_virtio_cap ops e info VIRTIO_PCI_CAP_COMMON_CFG), s) (\<lambda>common_off s.
      sbind (ok_or (str ''missing notify cfg'') (find_virtio_cap ops e info VIRTIO_PCI_CAP_NOTIFY_CFG), s) (\<lambda>notify_off s.
      sbind (ok_or (str ''missing device cfg'') (find_virtio_cap ops e info VIRTIO_PCI_CAP_DEVICE_CFG), s) (\<lambda>device_off s.
      sbind (map_cap info common_off phys_offset, s) (\<lambda>common s.
      sbind (map_cap info notify_off phys_offset, s) (\<lambda>notify s.
      sbind (map_cap info device_off phys_offset, s) (\<lambda>device_cfg s.
        init_device mm dma common notify device_cfg (info_read32 ops e info (vc_cap_offset notify_off + 16)) s)))))))"

section \<open>Requests\<close>

text \<open>The layouts of the structures in memory: a descriptor, and the fields the driver uses of the two rings.\<close>

abbreviation virtq_desc :: "u64 \<Rightarrow> nat \<Rightarrow> nat \<Rightarrow> nat \<Rightarrow> u8 list" where
  "virtq_desc addr len flags next \<equiv> le64 addr @ le32 len @ le16 flags @ le16 next"

abbreviation VIRTQ_DESC_F_NEXT :: nat where "VIRTQ_DESC_F_NEXT \<equiv> 1"
abbreviation VIRTQ_DESC_F_WRITE :: nat where "VIRTQ_DESC_F_WRITE \<equiv> 2"

definition setup_chain ::
    "'hw mmio \<Rightarrow> VirtioBlkState \<Rightarrow> u64 \<Rightarrow> u64 \<Rightarrow> nat \<Rightarrow> bool \<Rightarrow> 'hw Machine \<Rightarrow> (unit, BlockError) result \<times> 'hw Machine" where
  "setup_chain mm v req_phys data_phys len is_read m =
     (let desc = dma_virt (desc_buf v); avail = dma_virt (avail_buf v);
          m = cpu_wr mm desc (virtq_desc req_phys 16 VIRTQ_DESC_F_NEXT 1) m;
          m = cpu_wr mm (desc + 16) (virtq_desc data_phys len (if is_read then 3 else 1) 2) m;
          m = cpu_wr mm (desc + 32) (virtq_desc (req_phys + 1024) 1 VIRTQ_DESC_F_WRITE 0) m;
          idx = le_val (cpu_rd mm m (avail + 2) 2)
      in if vq_size (queue v) = 0 \<or> 64 \<le> idx mod unat (vq_size (queue v)) then (Panic, m)
         else
           let m = cpu_wr mm (avail + 4 + of_nat (2 * (idx mod unat (vq_size (queue v))))) (le16 0) m
           in (Ok (), cpu_wr mm (avail + 2) (le16 (idx + 1)) m))"

definition used_idx :: "'hw mmio \<Rightarrow> VirtioBlkState \<Rightarrow> 'hw Machine \<Rightarrow> nat" where
  "used_idx mm v m = le_val (cpu_rd mm m (dma_virt (used_buf v) + 2) 2)"

partial_function (option) virtio_wait :: "'hw mmio \<Rightarrow> VirtioBlkState \<Rightarrow> 'hw Machine \<Rightarrow> 'hw Machine option" where
  [code]: "virtio_wait mm v m = (if used_idx mm v m \<noteq> 0 then Some m else virtio_wait mm v (mm_tick mm m))"

definition notify_and_wait :: "'hw mmio \<Rightarrow> VirtioBlkState \<Rightarrow> 'hw Machine \<Rightarrow> 'hw Machine option" where
  "notify_and_wait mm v m = virtio_wait mm v (mm_wr mm (notify_base v) 2 0 m)"

definition blk_req :: "nat \<Rightarrow> u64 \<Rightarrow> u8 list" where
  "blk_req type sector = le32 type @ le32 0 @ le64 sector"

definition virtio_read_sectors ::
    "'hw mmio \<Rightarrow> VirtioBlkState \<Rightarrow> 'hw Machine \<Rightarrow> u64 \<Rightarrow> u8 list \<Rightarrow> ((u8 list, BlockError) result \<times> 'hw Machine) option" where
  "virtio_read_sectors mm v m lba buf =
     (let sectors = (length buf + 511) div 512;
          m = cpu_wr mm (dma_virt (dma_buf v)) (blk_req VIRTIO_BLK_T_IN lba) m
      in case setup_chain mm v (dma_phys (dma_buf v)) (dma_phys (dma_buf v) + 512) (sectors * 512) True m of
           (Ok _, m) \<Rightarrow>
             map_option (\<lambda>m.
               (Ok (blit buf 0 (cpu_rd mm m (dma_virt (dma_buf v) + 512) (min (length buf) (sectors * 512)))), m))
               (notify_and_wait mm v m)
         | (Err e, m) \<Rightarrow> Some (Err e, m)
         | (Panic, m) \<Rightarrow> Some (Panic, m))"

definition virtio_write_sectors ::
    "'hw mmio \<Rightarrow> VirtioBlkState \<Rightarrow> 'hw Machine \<Rightarrow> u64 \<Rightarrow> u8 list \<Rightarrow> ((unit, BlockError) result \<times> 'hw Machine) option" where
  "virtio_write_sectors mm v m lba buf =
     (let sectors = (length buf + 511) div 512;
          m = cpu_wr mm (dma_virt (dma_buf v) + 512) buf m;
          m = cpu_wr mm (dma_virt (dma_buf v)) (blk_req VIRTIO_BLK_T_OUT lba) m
      in case setup_chain mm v (dma_phys (dma_buf v)) (dma_phys (dma_buf v) + 512) (sectors * 512) False m of
           (Ok _, m) \<Rightarrow> map_option (\<lambda>m. (Ok (), m)) (notify_and_wait mm v m)
         | (Err e, m) \<Rightarrow> Some (Err e, m)
         | (Panic, m) \<Rightarrow> Some (Panic, m))"

text \<open>
  The trait \<open>BlockDevice\<close>. A call that never returns yields no value to its caller; in the interface, which has
  no other way to say so, it is a \<open>Panic\<close>.
\<close>

definition or_never :: "'s \<Rightarrow> ((('a, 'e) result \<times> 's) option) \<Rightarrow> ('a, 'e) result \<times> 's" where
  "or_never s r = (case r of Some x \<Rightarrow> x | None \<Rightarrow> (Panic, s))"

definition virtio_block :: "'hw mmio \<Rightarrow> (VirtioBlkState \<times> 'hw Machine) block_device" where
  "virtio_block mm =
     \<lparr>read_blocks = (\<lambda>(v, m) lba buf. case or_never m (virtio_read_sectors mm v m lba buf) of (r, m) \<Rightarrow> (r, v, m)),
      write_blocks = (\<lambda>(v, m) lba buf. case or_never m (virtio_write_sectors mm v m lba buf) of (r, m) \<Rightarrow> (r, v, m)),
      block_size = (\<lambda>_. 512), block_count = (\<lambda>(v, _). sector_count v)\<rparr>"

definition virtio_stop :: "'hw mmio \<Rightarrow> VirtioBlkState \<Rightarrow> 'hw Machine \<Rightarrow> 'hw Machine" where
  "virtio_stop mm v m = mm_wr mm (common_cfg v + COMMON_DEVICE_STATUS) 1 0 m"

section \<open>The driver\<close>

definition virtio_rules :: "MatchRule list" where
  "virtio_rules = [PciId VENDOR_VIRTIO DEVICE_VIRTIO_BLK, PciId VENDOR_VIRTIO DEVICE_VIRTIO_BLK_L]"

definition virtio_bind ::
    "'c cfg_ops \<Rightarrow> 'hw mmio \<Rightarrow> 'al dma_allocator \<Rightarrow> ('dev \<Rightarrow> PciBusDevice option) \<Rightarrow> (VirtioBlkState \<Rightarrow> 'st)
     \<Rightarrow> DeviceId \<Rightarrow> 'dev \<Rightarrow> 'c Ecam \<times> 'hw Machine \<times> 'al \<Rightarrow> ('st, DriverError) result \<times> 'c Ecam \<times> 'hw Machine \<times> 'al" where
  "virtio_bind ops mm dma downcast state did dev w =
     (case downcast dev of
        None \<Rightarrow> (Err BindFailed, w)
      | Some pci \<Rightarrow>
          (let e = pci_enable_mmio ops (enable_dma ops (fst w) pci) pci in
           case virtio_init ops mm dma pci (mm_off mm) e (snd w) of
             (Ok st, s) \<Rightarrow> (Ok (state st), e, s)
           | (Err _, s) \<Rightarrow> (Err BindFailed, e, s)
           | (Panic, s) \<Rightarrow> (Panic, e, s)))"

definition virtio_driver ::
    "'c cfg_ops \<Rightarrow> 'hw mmio \<Rightarrow> 'al dma_allocator \<Rightarrow> ('dev \<Rightarrow> PciBusDevice option) \<Rightarrow> (VirtioBlkState \<Rightarrow> 'st)
     \<Rightarrow> ('dev, 'st, 'c Ecam \<times> 'hw Machine \<times> 'al) Driver" where
  "virtio_driver ops mm dma downcast state =
     \<lparr>drv_name = str ''virtio-blk'', drv_rules = virtio_rules, drv_priority = 0,
      drv_bind = virtio_bind ops mm dma downcast state\<rparr>"

end
