(* ===== verification/VirtioDisk.thy ===== *)
theory VirtioDisk
  imports Virtio BlockStore
begin

text \<open>
  What a virtio block device does (virtio 1.x, sections 2.7, 4.1 and 5.2), as far as this driver uses it, and the
  driver on such a device. \<open>vdisk\<close> is what the device shows: its registers and its disk. The device itself stays a
  parameter, in two locales: \<open>virtio_device\<close> has the laws of the registers, \<open>virtio_server\<close> adds that a well-formed
  request is served some time after the notification. When that is, is open; the driver polls meanwhile.
\<close>

section \<open>The device\<close>

record vdisk =
  vd_bytes :: "nat \<Rightarrow> u8"
  vd_sectors :: u64
  vd_features :: u32
  vd_accepts :: bool
  vd_status :: u8
  vd_qmax :: u16
  vd_qsize :: u16
  vd_desc :: u64
  vd_avail :: u64
  vd_used :: u64
  vd_enabled :: bool
  vd_last :: u16

text \<open>One request: a header, a data buffer and a status byte in three chained descriptors.\<close>

definition vd_transfer :: "nat \<Rightarrow> nat \<Rightarrow> u64 \<Rightarrow> nat \<Rightarrow> (u64 \<Rightarrow> u8) \<Rightarrow> vdisk \<Rightarrow> nat \<times> (u64 \<Rightarrow> u8) \<times> (nat \<Rightarrow> u8)" where
  "vd_transfer type pos data len r d =
     (if 1 < type then (2, r, vd_bytes d)
      else if 512 * unat (vd_sectors d) < pos + len then (1, r, vd_bytes d)
      else if type = 0 then (0, poke data (map (vd_bytes d) [pos..<pos + len]) r, vd_bytes d)
      else (0, r, \<lambda>p. if pos \<le> p \<and> p < pos + len then r (data + of_nat (p - pos)) else vd_bytes d p))"

definition vd_serve :: "vdisk Machine \<Rightarrow> vdisk Machine" where
  "vd_serve m =
     (let r = ram m; d = hw m;
          head = rd_le r (vd_avail d + of_nat (4 + 2 * (unat (vd_last d) mod unat (vd_qsize d)))) 2;
          d0 = vd_desc d + of_nat (16 * head);
          d1 = vd_desc d + of_nat (16 * rd_le r (d0 + 14) 2);
          d2 = vd_desc d + of_nat (16 * rd_le r (d1 + 14) 2);
          hdr = of_nat (rd_le r d0 8);
          len = rd_le r (d1 + 8) 4;
          type = rd_le r hdr 4;
          (st, r1, bs) = vd_transfer type (512 * rd_le r (hdr + 8) 8) (of_nat (rd_le r d1 8)) len r d;
          r2 = poke (of_nat (rd_le r d2 8)) [of_nat st] r1;
          u = rd_le r2 (vd_used d + 2) 2;
          r3 = poke (vd_used d + of_nat (4 + 8 * (u mod unat (vd_qsize d)))) (le32 head @ le32 (if type = 0 then len + 1 else 1)) r2
      in \<lparr>ram = poke (vd_used d + 2) (le16 (u + 1)) r3, hw = d\<lparr>vd_bytes := bs, vd_last := vd_last d + 1\<rparr>\<rparr>)"

text \<open>
  One request is waiting, and it is one a device has to serve: three chained descriptors, a header of 16 bytes and
  a status byte around whole sectors of data, with the flags the type of the request asks for.
\<close>

definition vd_waiting :: "vdisk Machine \<Rightarrow> bool" where
  "vd_waiting m \<longleftrightarrow>
     (let r = ram m; d = hw m; q = unat (vd_qsize d);
          head = rd_le r (vd_avail d + of_nat (4 + 2 * (unat (vd_last d) mod q))) 2;
          d0 = vd_desc d + of_nat (16 * head);
          d1 = vd_desc d + of_nat (16 * rd_le r (d0 + 14) 2);
          d2 = vd_desc d + of_nat (16 * rd_le r (d1 + 14) 2);
          type = rd_le r (of_nat (rd_le r d0 8)) 4
      in vd_enabled d \<and> vd_status d AND VIRTIO_STATUS_DRIVER_OK \<noteq> 0
         \<and> of_nat (rd_le r (vd_avail d + 2) 2) = vd_last d + 1
         \<and> head < q \<and> rd_le r (d0 + 14) 2 < q \<and> rd_le r (d1 + 14) 2 < q
         \<and> type \<le> 1 \<and> rd_le r (d0 + 8) 4 = 16 \<and> rd_le r (d0 + 12) 2 = VIRTQ_DESC_F_NEXT
         \<and> 512 dvd rd_le r (d1 + 8) 4
         \<and> rd_le r (d1 + 12) 2 = (if type = 0 then VIRTQ_DESC_F_WRITE + VIRTQ_DESC_F_NEXT else VIRTQ_DESC_F_NEXT)
         \<and> rd_le r (d2 + 8) 4 = 1 \<and> rd_le r (d2 + 12) 2 = VIRTQ_DESC_F_WRITE)"

definition vd_set_status :: "u8 \<Rightarrow> vdisk \<Rightarrow> vdisk" where
  "vd_set_status v d =
     (if v = 0 then d\<lparr>vd_status := 0, vd_qsize := vd_qmax d, vd_enabled := False, vd_last := 0\<rparr>
      else d\<lparr>vd_status := if vd_accepts d then v else v AND NOT VIRTIO_STATUS_FEATURES_OK\<rparr>)"

definition vd_reg :: "u64 \<Rightarrow> u64 \<Rightarrow> nat \<Rightarrow> vdisk \<Rightarrow> vdisk" where
  "vd_reg common a v d =
     (if a = common + COMMON_DEVICE_STATUS then vd_set_status (of_nat v) d
      else if a = common + COMMON_QUEUE_SIZE then d\<lparr>vd_qsize := of_nat v\<rparr>
      else if a = common + COMMON_QUEUE_ENABLE then d\<lparr>vd_enabled := v = 1\<rparr>
      else if a = common + COMMON_QUEUE_DESC_LOW then d\<lparr>vd_desc := set_low v (vd_desc d)\<rparr>
      else if a = common + COMMON_QUEUE_DESC_HIGH then d\<lparr>vd_desc := set_high v (vd_desc d)\<rparr>
      else if a = common + COMMON_QUEUE_AVAIL_LOW then d\<lparr>vd_avail := set_low v (vd_avail d)\<rparr>
      else if a = common + COMMON_QUEUE_AVAIL_HIGH then d\<lparr>vd_avail := set_high v (vd_avail d)\<rparr>
      else if a = common + COMMON_QUEUE_USED_LOW then d\<lparr>vd_used := set_low v (vd_used d)\<rparr>
      else if a = common + COMMON_QUEUE_USED_HIGH then d\<lparr>vd_used := set_high v (vd_used d)\<rparr>
      else d)"

definition vd_read :: "u64 \<Rightarrow> u64 \<Rightarrow> vdisk \<Rightarrow> u64 \<Rightarrow> nat \<Rightarrow> nat" where
  "vd_read common device_cfg d a w =
     (if a = common + COMMON_DEVICE_FEATURE then unat (vd_features d)
      else if a = common + COMMON_DEVICE_STATUS then unat (vd_status d)
      else if a = common + COMMON_QUEUE_SIZE then unat (vd_qsize d)
      else if a = device_cfg then unat (vd_sectors d)
      else 0)"

section \<open>Serving a chain\<close>

lemmas peek_at = peek_page [where k = 2, simplified] peek_page [where k = 8, simplified]
  peek_page [where k = 12, simplified] peek_page [where k = 14, simplified] peek_page [where k = 16, simplified]
  peek_page [where k = 24, simplified] peek_page [where k = 28, simplified] peek_page [where k = 30, simplified]
  peek_page [where k = 32, simplified] peek_page [where k = 40, simplified] peek_page [where k = 44, simplified]
  peek_page [where k = 512, simplified]

lemmas poke_at = poke_page_same [where k = 2, simplified] poke_page_same [where k = 16, simplified]
  poke_page_same [where k = 32, simplified] poke_page_same [where k = 512, simplified]
  poke_page_same [where k = 1024, simplified]

lemmas poke_off = poke_page_other [where k = 2, simplified] poke_page_other [where k = 16, simplified]
  poke_page_other [where k = 32, simplified] poke_page_other [where k = 512, simplified]
  poke_page_other [where k = 1024, simplified]

text \<open>The four pages of a driver, and the chain for the buffer \<open>b\<close> in them.\<close>

definition four_pages :: "vdisk \<Rightarrow> u64 \<Rightarrow> bool" where
  "four_pages d b \<longleftrightarrow> (\<forall>a \<in> {vd_desc d, vd_avail d, vd_used d, b}. page_addr a)
     \<and> distinct [vd_desc d, vd_avail d, vd_used d, b]"

definition chain_bytes :: "u64 \<Rightarrow> nat \<Rightarrow> bool \<Rightarrow> u8 list" where
  "chain_bytes b len is_read =
     (le64 b @ le32 16 @ le16 1 @ le16 1) @ (le64 (b + 512) @ le32 len @ le16 (if is_read then 3 else 1) @ le16 2)
       @ (le64 (b + 1024) @ le32 1 @ le16 2 @ le16 0)"

lemma chain_fields:
  assumes "take 48 p = chain_bytes b len is_read"
  shows "seg p 0 8 = le64 b" "seg p 8 12 = le32 16" "seg p 12 14 = le16 1" "seg p 14 16 = le16 1"
    "seg p 16 24 = le64 (b + 512)" "seg p 24 28 = le32 len" "seg p 28 30 = le16 (if is_read then 3 else 1)"
    "seg p 30 32 = le16 2" "seg p 32 40 = le64 (b + 1024)" "seg p 40 44 = le32 1" "seg p 44 46 = le16 2"
proof -
  have cut: "seg p i j = seg (take 48 p) i j" if "j \<le> 48" for i j
    using that by (simp add: seg_take)
  show "seg p 0 8 = le64 b" "seg p 8 12 = le32 16" "seg p 12 14 = le16 1" "seg p 14 16 = le16 1"
    "seg p 16 24 = le64 (b + 512)" "seg p 24 28 = le32 len" "seg p 28 30 = le16 (if is_read then 3 else 1)"
    "seg p 30 32 = le16 2" "seg p 32 40 = le64 (b + 1024)" "seg p 40 44 = le32 1" "seg p 44 46 = le16 2"
    by (simp_all add: cut assms) (simp_all add: seg_def chain_bytes_def del: le_bytes.simps)
qed

lemma blk_req_fields:
  assumes "take 16 p = blk_req type lba"
  shows "seg p 0 4 = le32 type" "seg p 8 16 = le64 lba"
proof -
  have cut: "seg p i j = seg (take 16 p) i j" if "j \<le> 16" for i j
    using that by (simp add: seg_take)
  show "seg p 0 4 = le32 type" "seg p 8 16 = le64 lba"
    by (simp_all add: cut assms) (simp_all add: seg_def blk_req_def del: le_bytes.simps)
qed

text \<open>The state just before a notification: the chain of a request of the driver is waiting.\<close>

definition posted :: "vdisk Machine \<Rightarrow> u64 \<Rightarrow> nat \<Rightarrow> u64 \<Rightarrow> nat \<Rightarrow> bool" where
  "posted m b type lba len \<longleftrightarrow> four_pages (hw m) b
     \<and> take 48 (page (ram m) (vd_desc (hw m))) = chain_bytes b len (type = 0)
     \<and> take 16 (page (ram m) b) = blk_req type lba
     \<and> (let k = 4 + 2 * (unat (vd_last (hw m)) mod unat (vd_qsize (hw m)))
        in seg (page (ram m) (vd_avail (hw m))) k (k + 2) = le16 0)
     \<and> 3 \<le> vd_qsize (hw m) \<and> vd_qsize (hw m) \<le> 64"

lemma slot_less:
  assumes "3 \<le> q" "q \<le> (64 :: u16)"
  shows "n mod unat q < 64" "3 \<le> unat q" "unat q \<le> 64"
proof -
  show q: "3 \<le> unat q" "unat q \<le> 64" using assms by (simp_all add: word_less_nat_alt word_le_nat_alt)
  have "n mod unat q < unat q" using q(1) by (intro mod_less_divisor) simp
  then show "n mod unat q < 64" using q(2) by (rule less_le_trans)
qed

lemma posted_fields:
  assumes "posted m b type lba len" "type \<le> 1" "len \<le> 512"
  shows "rd_le (ram m) (vd_avail (hw m) + of_nat (4 + 2 * (unat (vd_last (hw m)) mod unat (vd_qsize (hw m))))) 2 = 0"
    "rd_le (ram m) (vd_desc (hw m)) 8 = unat b" "rd_le (ram m) (vd_desc (hw m) + 8) 4 = 16"
    "rd_le (ram m) (vd_desc (hw m) + 12) 2 = 1" "rd_le (ram m) (vd_desc (hw m) + 14) 2 = 1"
    "rd_le (ram m) (vd_desc (hw m) + 16) 8 = unat (b + 512)" "rd_le (ram m) (vd_desc (hw m) + 24) 4 = len"
    "rd_le (ram m) (vd_desc (hw m) + 28) 2 = (if type = 0 then 3 else 1)" "rd_le (ram m) (vd_desc (hw m) + 30) 2 = 2"
    "rd_le (ram m) (vd_desc (hw m) + 32) 8 = unat (b + 1024)" "rd_le (ram m) (vd_desc (hw m) + 40) 4 = 1"
    "rd_le (ram m) (vd_desc (hw m) + 44) 2 = 2"
    "rd_le (ram m) b 4 = type" "rd_le (ram m) (b + 8) 8 = unat lba"
proof -
  note p = assms(1) [unfolded posted_def Let_def]
  note c = chain_fields [OF conjunct1 [OF conjunct2 [OF p]]] and q = blk_req_fields [OF conjunct1 [OF conjunct2 [OF conjunct2 [OF p]]]]
  have "unat (vd_last (hw m)) mod unat (vd_qsize (hw m)) < 64"
    using p slot_less(1) by blast
  then show "rd_le (ram m) (vd_avail (hw m) + of_nat (4 + 2 * (unat (vd_last (hw m)) mod unat (vd_qsize (hw m))))) 2 = 0"
    using p unfolding rd_le_def by (subst peek_page) (auto simp: buf_simps)
  show "rd_le (ram m) (vd_desc (hw m) + 8) 4 = 16"
    "rd_le (ram m) (vd_desc (hw m) + 12) 2 = 1" "rd_le (ram m) (vd_desc (hw m) + 14) 2 = 1"
    "rd_le (ram m) (vd_desc (hw m) + 16) 8 = unat (b + 512)" "rd_le (ram m) (vd_desc (hw m) + 24) 4 = len"
    "rd_le (ram m) (vd_desc (hw m) + 28) 2 = (if type = 0 then 3 else 1)" "rd_le (ram m) (vd_desc (hw m) + 30) 2 = 2"
    "rd_le (ram m) (vd_desc (hw m) + 32) 8 = unat (b + 1024)" "rd_le (ram m) (vd_desc (hw m) + 40) 4 = 1"
    "rd_le (ram m) (vd_desc (hw m) + 44) 2 = 2" "rd_le (ram m) (b + 8) 8 = unat lba"
    using assms(2,3) by (simp_all add: rd_le_def peek_at c q buf_simps del: le_bytes.simps)
  show "rd_le (ram m) (vd_desc (hw m)) 8 = unat b" "rd_le (ram m) b 4 = type"
    using assms(2,3) by (simp_all add: rd_le_def peek_page_0 c q buf_simps del: le_bytes.simps)
qed

lemma vd_waiting_chain:
  assumes p: "posted m b type lba len" "type \<le> 1" "len \<le> 512" and "512 dvd len"
    and "vd_enabled (hw m)" "vd_status (hw m) AND VIRTIO_STATUS_DRIVER_OK \<noteq> 0"
    and "of_nat (rd_le (ram m) (vd_avail (hw m) + 2) 2) = vd_last (hw m) + 1"
  shows "vd_waiting m"
proof -
  have "3 \<le> unat (vd_qsize (hw m))" using p(1) slot_less(2) by (auto simp: posted_def)
  then show ?thesis
    using assms(2-) unfolding vd_waiting_def Let_def
    by (simp add: posted_fields [OF p] add.commute [of 30] add.commute [of 24] add.commute [of 28] add.commute [of 40]
        add.commute [of 44] del: of_nat_add of_nat_mult)
qed

text \<open>
  What serving does to memory and disk: the data page gets the data of a read and the status byte, the page of
  the used ring the new index, and no other byte of the four pages changes.
\<close>

definition in_range :: "vdisk \<Rightarrow> u64 \<Rightarrow> nat \<Rightarrow> bool" where
  "in_range d lba len \<longleftrightarrow> 512 * unat lba + len \<le> 512 * unat (vd_sectors d)"

text \<open>The disk after a request of \<open>type\<close> with the data \<open>xs\<close>, and the data after it.\<close>

definition disk_after :: "nat \<Rightarrow> u64 \<Rightarrow> u8 list \<Rightarrow> vdisk \<Rightarrow> nat \<Rightarrow> u8" where
  "disk_after type lba xs d =
     (if type = 0 \<or> \<not> in_range d lba (length xs) then vd_bytes d
      else (\<lambda>p. if 512 * unat lba \<le> p \<and> p < 512 * unat lba + length xs then xs ! (p - 512 * unat lba) else vd_bytes d p))"

definition data_after :: "nat \<Rightarrow> u64 \<Rightarrow> u8 list \<Rightarrow> vdisk \<Rightarrow> u8 list" where
  "data_after type lba xs d =
     (if type = 0 \<and> in_range d lba (length xs)
      then map (vd_bytes d) [512 * unat lba..<512 * unat lba + length xs] else xs)"

lemma length_data_after [simp]: "length (data_after type lba xs d) = length xs"
  by (simp add: data_after_def)

lemma vd_transfer_pages:
  assumes "page_addr b" "len \<le> 512" "type \<le> 1"
    and "vd_transfer type (512 * unat lba) (b + 512) len r d = (st, r1, bs)" "xs = seg (page r b) 512 (512 + len)"
  shows "page r1 b = blit (page r b) 512 (data_after type lba xs d)"
    "page_addr a \<Longrightarrow> a \<noteq> b \<Longrightarrow> page r1 a = page r a" "bs = disk_after type lba xs d"
proof -
  have l: "length xs = len" using assms(2,5) by simp
  have x: "r (b + 512 + of_nat i) = xs ! i" if "i < len" for i
    using peek_page [of 512 len r b] assms(2,5) nth_peek [OF that, of r "b + 512"] by simp
  have same: "page r b = blit (page r b) 512 xs"
    using l assms(2) by (intro nth_equalityI) (auto simp: length_blit nth_blit assms(5) nth_seg)
  show "page r1 b = blit (page r b) 512 (data_after type lba xs d)"
    "page_addr a \<Longrightarrow> a \<noteq> b \<Longrightarrow> page r1 a = page r a"
    using assms(1-4) same l by (auto simp: vd_transfer_def data_after_def in_range_def poke_at poke_off split: if_splits)
  show "bs = disk_after type lba xs d"
    using assms(3,4) x l by (auto simp: vd_transfer_def disk_after_def in_range_def split: if_splits intro!: ext simp del: of_nat_diff)
qed

lemma vd_serve_chain:
  assumes p: "posted m b type lba len" and "type \<le> 1" "len \<le> 512" and xs: "xs = seg (page (ram m) b) 512 (512 + len)"
  obtains "hw (vd_serve m) = (hw m)\<lparr>vd_bytes := disk_after type lba xs (hw m), vd_last := vd_last (hw m) + 1\<rparr>"
    "seg (page (ram (vd_serve m)) b) 512 (512 + len) = data_after type lba xs (hw m)"
    "page (ram (vd_serve m)) (vd_avail (hw m)) = page (ram m) (vd_avail (hw m))"
    "rd_le (ram (vd_serve m)) (vd_used (hw m) + 2) 2 = Suc (rd_le (ram m) (vd_used (hw m) + 2) 2) mod 65536"
proof -
  obtain st r1 bs where t: "vd_transfer type (512 * unat lba) (b + 512) len (ram m) (hw m) = (st, r1, bs)"
    by (metis surj_pair)
  have pg: "page_addr b" "page_addr (vd_desc (hw m))" "page_addr (vd_avail (hw m))" "page_addr (vd_used (hw m))"
    "b \<noteq> vd_avail (hw m)" "b \<noteq> vd_used (hw m)" "vd_used (hw m) \<noteq> vd_avail (hw m)"
    using p by (auto simp: posted_def four_pages_def)
  have l: "length xs = len" using assms(3) xs by simp
  note tr = vd_transfer_pages [OF pg(1) assms(3,2) t xs]
  define r2 where "r2 = poke (b + 1024) [of_nat st] r1"
  define u where "u = rd_le r2 (vd_used (hw m) + 2) 2"
  have sl: "4 + 8 * (u mod unat (vd_qsize (hw m))) + 8 \<le> 4096"
    using slot_less(1) [of "vd_qsize (hw m)" u] p by (simp add: posted_def)
  define r3 where "r3 = poke (vd_used (hw m) + of_nat (4 + 8 * (u mod unat (vd_qsize (hw m)))))
    (le32 0 @ le32 (if type = 0 then len + 1 else 1)) r2"
  define r4 where "r4 = poke (vd_used (hw m) + 2) (le16 (u + 1)) r3"
  have serve: "vd_serve m = \<lparr>ram = r4, hw = (hw m)\<lparr>vd_bytes := bs, vd_last := vd_last (hw m) + 1\<rparr>\<rparr>"
    unfolding vd_serve_def Let_def r4_def r3_def u_def r2_def
    by (simp add: posted_fields [OF p assms(2,3)] t add.commute [of 30] add.commute [of 24] del: le_bytes.simps of_nat_add of_nat_mult)
  have r2: "page r2 a = page r1 a" if "page_addr a" "a \<noteq> b" for a
    unfolding r2_def using that pg(1) by (simp add: poke_off)
  have r2b: "page r2 b = blit (page r1 b) 1024 [of_nat st]" unfolding r2_def by (simp add: poke_at)
  have r4: "page r4 a = page r2 a" if "page_addr a" "a \<noteq> vd_used (hw m)" for a
  proof -
    have "page r3 a = page r2 a"
      unfolding r3_def using that pg(4) sl by (intro poke_page_other) auto
    then show ?thesis unfolding r4_def using that pg(4) by (simp add: poke_off)
  qed
  have u: "u = rd_le (ram m) (vd_used (hw m) + 2) 2"
    unfolding u_def rd_le_def by (simp add: peek_at r2 tr(2) pg(4) pg(6) [symmetric])
  have "rd_le r4 (vd_used (hw m) + 2) 2 = Suc u mod 65536"
  proof -
    have "page r4 (vd_used (hw m)) = blit (page r3 (vd_used (hw m))) 2 (le16 (u + 1))"
      unfolding r4_def by (simp add: poke_at)
    then show ?thesis unfolding rd_le_def by (simp add: peek_at buf_simps le_val_le_bytes)
  qed
  moreover have "seg (page r4 b) 512 (512 + len) = data_after type lba xs (hw m)"
    unfolding r4 [OF pg(1,6)] r2b tr(1) using assms(3) l by (simp add: buf_simps length_blit)
  moreover have "page r4 (vd_avail (hw m)) = page (ram m) (vd_avail (hw m))"
    using r4 r2 tr(2) pg by metis
  ultimately show thesis using that tr(3) unfolding serve u by simp
qed

section \<open>A request of the driver\<close>

lemma take_blit_0: "n = length ys \<Longrightarrow> take n (blit xs 0 ys) = ys"
  by (simp add: blit_def)

text \<open>The driver polls until the index of the used ring is not 0.\<close>

lemma virtio_wait_at:
  assumes "\<And>k. k < n \<Longrightarrow> used_idx mm v ((mm_tick mm ^^ k) m) = 0" "used_idx mm v ((mm_tick mm ^^ n) m) \<noteq> 0"
  shows "virtio_wait mm v m = Some ((mm_tick mm ^^ n) m)"
  using assms
proof (induction n arbitrary: m)
  case 0
  then show ?case by (subst virtio_wait.simps) simp
next
  case (Suc n)
  have "virtio_wait mm v (mm_tick mm m) = Some ((mm_tick mm ^^ n) (mm_tick mm m))"
  proof (rule Suc.IH)
    show "used_idx mm v ((mm_tick mm ^^ k) (mm_tick mm m)) = 0" if "k < n" for k
      using Suc.prems(1) [of "Suc k"] that by (simp add: funpow_swap1)
  qed (use Suc.prems(2) in \<open>simp add: funpow_swap1\<close>)
  then show ?case using Suc.prems(1) [of 0] by (subst virtio_wait.simps) (simp add: funpow_swap1)
qed

lemma sectors_of:
  assumes "n \<le> 512" "unat lba * 512 + n \<le> 512 * N"
  shows "(n + 511) div 512 * 512 \<le> 512" "512 * unat lba + (n + 511) div 512 * 512 \<le> 512 * N"
    "n \<le> (n + 511) div 512 * 512"
proof -
  have "(n + 511) div 512 = (if n = 0 then 0 else 1)"
    using assms(1) by (cases "n = 0") (auto intro!: div_nat_eqI)
  moreover have "unat lba + 1 \<le> N" if "0 < n"
  proof -
    have "512 * unat lba < 512 * N" using that assms(2) by linarith
    then show ?thesis by simp
  qed
  then have "512 * unat lba + 512 \<le> 512 * N" if "0 < n" using that by fastforce
  ultimately show "(n + 511) div 512 * 512 \<le> 512" "512 * unat lba + (n + 511) div 512 * 512 \<le> 512 * N"
    "n \<le> (n + 511) div 512 * 512"
    using assms by (auto split: if_splits)
qed

text \<open>The registers: a write other than a notification changes no memory; \<open>dv\<close> shows what it does to the device.\<close>

locale virtio_device =
  fixes mm :: "'hw mmio"
    and dv :: "'hw \<Rightarrow> vdisk"
    and common notify device_cfg :: u64
    and sectors :: u64
  assumes dev_write: "a \<noteq> notify \<Longrightarrow> view dv (mm_wr mm a w v m) = \<lparr>ram = ram m, hw = vd_reg common a v (dv (hw m))\<rparr>"
    and dev_read: "mm_rd mm h a w = vd_read common device_cfg (dv h) a w"
begin

text \<open>The driver's pages are those of the device, and both rings are as far as the device is.\<close>

definition bound :: "VirtioBlkState \<Rightarrow> 'hw Machine \<Rightarrow> bool" where
  "bound v m \<longleftrightarrow> (let d = dv (hw m) in
     four_pages d (dma_phys (dma_buf v))
     \<and> dma_phys (desc_buf v) = vd_desc d \<and> dma_phys (avail_buf v) = vd_avail d \<and> dma_phys (used_buf v) = vd_used d
     \<and> (\<forall>b \<in> {desc_buf v, avail_buf v, used_buf v, dma_buf v}. dma_virt b = dma_phys b + mm_off mm)
     \<and> vd_enabled d \<and> vd_status d AND VIRTIO_STATUS_DRIVER_OK \<noteq> 0
     \<and> vd_qsize d = vq_size (queue v) \<and> 3 \<le> vq_size (queue v) \<and> vq_size (queue v) \<le> 64
     \<and> notify_base v = notify \<and> sector_count v = vd_sectors d
     \<and> rd_le (ram m) (vd_avail d + 2) 2 = unat (vd_last d)
     \<and> rd_le (ram m) (vd_used d + 2) 2 = unat (vd_last d))"

lemma boundD:
  assumes "bound v m"
  shows "four_pages (dv (hw m)) (dma_phys (dma_buf v))"
    "dma_phys (desc_buf v) = vd_desc (dv (hw m))" "dma_phys (avail_buf v) = vd_avail (dv (hw m))"
    "dma_phys (used_buf v) = vd_used (dv (hw m))"
    "dma_virt (desc_buf v) = vd_desc (dv (hw m)) + mm_off mm" "dma_virt (avail_buf v) = vd_avail (dv (hw m)) + mm_off mm"
    "dma_virt (used_buf v) = vd_used (dv (hw m)) + mm_off mm" "dma_virt (dma_buf v) = dma_phys (dma_buf v) + mm_off mm"
    "vd_enabled (dv (hw m))" "vd_status (dv (hw m)) AND VIRTIO_STATUS_DRIVER_OK \<noteq> 0"
    "vd_qsize (dv (hw m)) = vq_size (queue v)" "3 \<le> vq_size (queue v)" "vq_size (queue v) \<le> 64"
    "notify_base v = notify" "sector_count v = vd_sectors (dv (hw m))"
    "rd_le (ram m) (vd_avail (dv (hw m)) + 2) 2 = unat (vd_last (dv (hw m)))"
    "rd_le (ram m) (vd_used (dv (hw m)) + 2) 2 = unat (vd_last (dv (hw m)))"
  using assms by (simp_all add: bound_def Let_def)

lemma setup_chain_posts:
  assumes b: "bound v m" and q: "take 16 (page (ram m) (dma_phys (dma_buf v))) = blk_req type lba"
    and l: "len \<le> 512" "512 dvd len" and ty: "type \<le> 1"
  obtains m' where "setup_chain mm v (dma_phys (dma_buf v)) (dma_phys (dma_buf v) + 512) len (type = 0) m = (Ok (), m')"
    "hw m' = hw m" "posted (view dv m') (dma_phys (dma_buf v)) type lba len" "vd_waiting (view dv m')"
    "page (ram m') (dma_phys (dma_buf v)) = page (ram m) (dma_phys (dma_buf v))"
    "rd_le (ram m') (vd_avail (dv (hw m)) + 2) 2 = Suc (unat (vd_last (dv (hw m)))) mod 65536"
    "rd_le (ram m') (vd_used (dv (hw m)) + 2) 2 = unat (vd_last (dv (hw m)))"
proof -
  let ?d = "dv (hw m)" and ?b = "dma_phys (dma_buf v)"
  define D where "D = vd_desc ?d"
  define A where "A = vd_avail ?d"
  define U where "U = vd_used ?d"
  define l where "l = unat (vd_last ?d)"
  define k where "k = 4 + 2 * (l mod unat (vq_size (queue v)))"
  note d = boundD [OF b, folded D_def A_def U_def l_def]
  have pg: "page_addr D" "page_addr A" "page_addr U" "page_addr ?b" "D \<noteq> A" "D \<noteq> U" "D \<noteq> ?b" "A \<noteq> U" "A \<noteq> ?b" "U \<noteq> ?b"
    "A \<noteq> D" "U \<noteq> D" "?b \<noteq> D" "U \<noteq> A" "?b \<noteq> A" "?b \<noteq> U"
    using d(1) by (auto simp: four_pages_def D_def A_def U_def)
  have k: "k + 2 \<le> 4096" "4 \<le> k" "l mod unat (vq_size (queue v)) < 64"
    using slot_less(1) [OF d(12,13), of l] by (simp_all add: k_def)
  define r1 where "r1 = poke D (le64 ?b @ le32 16 @ le16 1 @ le16 1) (ram m)"
  define r2 where "r2 = poke (D + 16) (le64 (?b + 512) @ le32 len @ le16 (if type = 0 then 3 else 1) @ le16 2) r1"
  define r3 where "r3 = poke (D + 32) (le64 (?b + 1024) @ le32 1 @ le16 2 @ le16 0) r2"
  define r4 where "r4 = poke (A + of_nat k) (le16 0) r3"
  define r5 where "r5 = poke (A + 2) (le16 (l + 1)) r4"
  have other3: "page r3 a = page (ram m) a" if "page_addr a" "D \<noteq> a" for a
    unfolding r3_def r2_def r1_def using that pg(1) by (simp add: poke_off poke_page_other_0)
  have idx: "le_val (peek r3 (A + 2) 2) = l"
    using d(16) other3 [OF pg(2,5)] by (simp add: rd_le_def peek_at)
  have q0: "vq_size (queue v) \<noteq> 0" using slot_less(2) [OF d(12,13)] by auto
  have chain: "setup_chain mm v ?b (?b + 512) len (type = 0) m = (Ok (), m\<lparr>ram := r5\<rparr>)"
  proof -
    have "A + 4 + of_nat (2 * (l mod unat (vq_size (queue v)))) = A + of_nat k" by (simp add: k_def)
    then show ?thesis
      using q0 k(3) idx unfolding setup_chain_def Let_def d(5,6) cpu_wr_def cpu_rd_def
      by (simp add: r5_def r4_def r3_def r2_def r1_def algebra_simps del: le_bytes.simps)
  qed
  have other: "page r5 a = page (ram m) a" if "page_addr a" "D \<noteq> a" "A \<noteq> a" for a
    unfolding r5_def r4_def using that pg(2) k(1) other3 by (simp add: poke_off poke_page_other)
  have "page r5 D = page r3 D"
    unfolding r5_def r4_def using pg k(1) by (simp add: poke_off poke_page_other)
  then have "take 48 (page r5 D) = chain_bytes ?b len (type = 0)"
    unfolding r3_def r2_def r1_def by (simp add: poke_at poke_page_same_0 blit_blit_adjacent take_blit_0 chain_bytes_def)
  moreover have ra: "page r5 A = blit (blit (page r3 A) k (le16 0)) 2 (le16 (l + 1))"
    unfolding r5_def r4_def using k(1) by (simp add: poke_at poke_page_same)
  then have "seg (page r5 A) k (k + 2) = le16 0"
    using k(1,2) by (simp add: buf_simps length_blit del: le_bytes.simps)
  ultimately have "posted (view dv (m\<lparr>ram := r5\<rparr>)) ?b type lba len"
    using q d(1,11,12,13) pg other [of ?b] unfolding posted_def Let_def
    by (simp add: D_def [symmetric] A_def [symmetric] l_def [symmetric] k_def)
  moreover have av: "rd_le r5 (A + 2) 2 = Suc l mod 65536"
    using k(1) by (simp add: rd_le_def peek_at ra buf_simps length_blit le_val_le_bytes)
  moreover have "(of_nat (rd_le r5 (A + 2) 2) :: u16) = vd_last ?d + 1"
    unfolding av l_def by (simp add: word_unat_eq_iff unat_of_nat unat_word_ariths)
  then have "vd_waiting (view dv (m\<lparr>ram := r5\<rparr>))" if "posted (view dv (m\<lparr>ram := r5\<rparr>)) ?b type lba len"
    using vd_waiting_chain [OF that ty l] d(9,10) by (simp add: A_def)
  moreover have "rd_le r5 (U + 2) 2 = l"
    using other [of U] pg d(17) by (simp add: rd_le_def peek_at)
  ultimately show thesis
    using that [of "m\<lparr>ram := r5\<rparr>"] chain other [of ?b] pg by (simp add: A_def U_def l_def)
qed

lemma used_idx_bound: "dma_virt (used_buf v) = U + mm_off mm \<Longrightarrow> used_idx mm v m = rd_le (ram m) (U + 2) 2"
  by (simp add: used_idx_def cpu_rd_def rd_le_def algebra_simps)

lemma bound_same:
  assumes "bound v m" "hw m' = hw m"
    and "rd_le (ram m') (vd_avail (dv (hw m)) + 2) 2 = rd_le (ram m) (vd_avail (dv (hw m)) + 2) 2"
    and "rd_le (ram m') (vd_used (dv (hw m)) + 2) 2 = rd_le (ram m) (vd_used (dv (hw m)) + 2) 2"
  shows "bound v m'"
  using assms by (simp add: bound_def Let_def)

lemma bound_buffer_write:
  assumes b: "bound v m" and k: "k + length bs \<le> 4096"
  shows "bound v (cpu_wr mm (dma_virt (dma_buf v) + of_nat k) bs m)"
    "page (ram (cpu_wr mm (dma_virt (dma_buf v) + of_nat k) bs m)) (dma_phys (dma_buf v))
      = blit (page (ram m) (dma_phys (dma_buf v))) k bs"
    "hw (cpu_wr mm (dma_virt (dma_buf v) + of_nat k) bs m) = hw m"
proof -
  let ?m = "cpu_wr mm (dma_virt (dma_buf v) + of_nat k) bs m" and ?b = "dma_phys (dma_buf v)"
  have r: "ram ?m = poke (?b + of_nat k) bs (ram m)"
    unfolding cpu_wr_def boundD(8) [OF b] by (simp add: algebra_simps)
  show "page (ram ?m) ?b = blit (page (ram m) ?b) k bs" unfolding r by (rule poke_page_same [OF k])
  show h: "hw ?m = hw m" by (simp add: cpu_wr_def)
  have f: "page_addr ?b" "page_addr (vd_avail (dv (hw m)))" "page_addr (vd_used (dv (hw m)))"
      "?b \<noteq> vd_avail (dv (hw m))" "?b \<noteq> vd_used (dv (hw m))"
    using boundD(1) [OF b] by (auto simp: four_pages_def)
  have "rd_le (ram ?m) (a + 2) 2 = rd_le (ram m) (a + 2) 2" if "page_addr a" "?b \<noteq> a" for a
    unfolding r rd_le_def using poke_page_other [OF f(1) that k] by (simp add: peek_at)
  then show "bound v ?m" using bound_same [OF b h] f by blast
qed

lemmas bound_header_write = bound_buffer_write [where k = 0, simplified]
lemmas bound_data_write = bound_buffer_write [where k = 512, simplified]

lemma length_blk_req [simp]: "length (blk_req type lba) = 16"
  by (simp add: blk_req_def)

lemma write_request:
  assumes b: "bound v m" and "length buf \<le> 512"
    and m: "m0 = cpu_wr mm (dma_virt (dma_buf v) + 512) buf m" "m1 = cpu_wr mm (dma_virt (dma_buf v)) (blk_req 1 lba) m0"
  shows "bound v m1" "hw m1 = hw m" "take 16 (page (ram m1) (dma_phys (dma_buf v))) = blk_req 1 lba"
    "i < length buf \<Longrightarrow> page (ram m1) (dma_phys (dma_buf v)) ! (512 + i) = buf ! i"
proof -
  have w0: "bound v m0" "page (ram m0) (dma_phys (dma_buf v)) = blit (page (ram m) (dma_phys (dma_buf v))) 512 buf" "hw m0 = hw m"
    using bound_data_write [OF b, of buf, folded m(1)] assms(2) by simp_all
  note w1 = bound_header_write [OF w0(1), of "blk_req 1 lba", folded m(2)]
  show "bound v m1" "hw m1 = hw m" "take 16 (page (ram m1) (dma_phys (dma_buf v))) = blk_req 1 lba"
    using w1 w0(3) by (simp_all add: take_blit_0)
  show "page (ram m1) (dma_phys (dma_buf v)) ! (512 + i) = buf ! i" if "i < length buf"
    using w1(2) w0(2) that assms(2) by (simp add: nth_blit length_blit)
qed

lemma read_request:
  assumes b: "bound v m" and m: "m0 = cpu_wr mm (dma_virt (dma_buf v)) (blk_req 0 lba) m"
  shows "bound v m0" "hw m0 = hw m" "take 16 (page (ram m0) (dma_phys (dma_buf v))) = blk_req 0 lba"
    "512 \<le> i \<Longrightarrow> i < 4096 \<Longrightarrow> page (ram m0) (dma_phys (dma_buf v)) ! i = page (ram m) (dma_phys (dma_buf v)) ! i"
  using bound_header_write [OF b, of "blk_req 0 lba", folded m] by (simp_all add: take_blit_0 nth_blit)

end

section \<open>Service\<close>

text \<open>
  A device that serves. Some time after the notification of a waiting request the request has been carried out; until
  then the index of the used ring is what it was. Nothing else is said of the meantime.
\<close>

locale virtio_server = virtio_device +
  assumes serve_later: "vd_waiting (view dv m) \<Longrightarrow>
    \<exists>n. (\<forall>k < n. rd_le (ram ((mm_tick mm ^^ k) (mm_wr mm notify 2 0 m))) (vd_used (dv (hw m)) + 2) 2
                = rd_le (ram m) (vd_used (dv (hw m)) + 2) 2)
       \<and> view dv ((mm_tick mm ^^ n) (mm_wr mm notify 2 0 m)) = vd_serve (view dv m)"
begin

text \<open>The first request: the driver waits until it is served.\<close>

lemma request_served:
  assumes b: "bound v m" and z: "vd_last (dv (hw m)) = 0"
    and q: "take 16 (page (ram m) (dma_phys (dma_buf v))) = blk_req type lba"
    and l: "len \<le> 512" "512 dvd len" and ty: "type \<le> 1" and xs: "xs = seg (page (ram m) (dma_phys (dma_buf v))) 512 (512 + len)"
  obtains m1 m' where
    "setup_chain mm v (dma_phys (dma_buf v)) (dma_phys (dma_buf v) + 512) len (type = 0) m = (Ok (), m1)"
    "notify_and_wait mm v m1 = Some m'" "bound v m'" "vd_bytes (dv (hw m')) = disk_after type lba xs (dv (hw m))"
    "seg (page (ram m') (dma_phys (dma_buf v))) 512 (512 + len) = data_after type lba xs (dv (hw m))"
    "vd_last (dv (hw m')) = 1"
proof -
  let ?d = "dv (hw m)" and ?b = "dma_phys (dma_buf v)"
  note d = boundD [OF b]
  obtain m1 where s: "setup_chain mm v ?b (?b + 512) len (type = 0) m = (Ok (), m1)" "hw m1 = hw m"
      "posted (view dv m1) ?b type lba len" "vd_waiting (view dv m1)" "page (ram m1) ?b = page (ram m) ?b"
      "rd_le (ram m1) (vd_avail ?d + 2) 2 = Suc (unat (vd_last ?d)) mod 65536"
      "rd_le (ram m1) (vd_used ?d + 2) 2 = unat (vd_last ?d)"
    by (rule setup_chain_posts [OF b q l ty])
  let ?w = "mm_wr mm notify 2 0 m1"
  obtain n where n: "\<And>k. k < n \<Longrightarrow> rd_le (ram ((mm_tick mm ^^ k) ?w)) (vd_used ?d + 2) 2 = 0"
      "view dv ((mm_tick mm ^^ n) ?w) = vd_serve (view dv m1)"
    using serve_later [OF s(4)] s(7) z by (auto simp: s(2))
  define m' where "m' = (mm_tick mm ^^ n) ?w"
  have x: "xs = seg (page (ram (view dv m1)) ?b) 512 (512 + len)" using xs s(5) by simp
  have h: "dv (hw m') = ?d\<lparr>vd_bytes := disk_after type lba xs ?d, vd_last := vd_last ?d + 1\<rparr>"
    and dat: "seg (page (ram m') ?b) 512 (512 + len) = data_after type lba xs ?d"
    and av: "page (ram m') (vd_avail ?d) = page (ram m1) (vd_avail ?d)"
    and us: "rd_le (ram m') (vd_used ?d + 2) 2 = Suc (rd_le (ram m1) (vd_used ?d + 2) 2) mod 65536"
    by (rule vd_serve_chain [OF s(3) ty l(1) x, unfolded n(2) [folded m'_def, symmetric] view_simps s(2)], assumption)+
  have av1: "rd_le (ram m') (vd_avail ?d + 2) 2 = 1"
    using av s(6) z by (simp add: rd_le_def peek_at)
  have us1: "rd_le (ram m') (vd_used ?d + 2) 2 = 1" using us s(7) z by simp
  note u = used_idx_bound [OF d(7)]
  have "virtio_wait mm v ?w = Some m'"
    unfolding m'_def by (rule virtio_wait_at) (use n(1) us1 in \<open>simp_all add: u m'_def\<close>)
  then have "notify_and_wait mm v m1 = Some m'" by (simp add: notify_and_wait_def d(14))
  moreover have "bound v m'" using b av1 us1 z by (simp add: bound_def Let_def h four_pages_def)
  ultimately show thesis using that [OF s(1)] h dat z by simp
qed

lemma read_sectors_first:
  assumes b: "bound v m" "vd_last (dv (hw m)) = 0"
    and l: "length buf \<le> 512" "unat lba * 512 + length buf \<le> 512 * unat (sector_count v)"
  shows "\<exists>m'. virtio_read_sectors mm v m lba buf
      = Some (Ok (map (\<lambda>i. vd_bytes (dv (hw m)) (unat lba * 512 + i)) [0..<length buf]), m')
    \<and> vd_bytes (dv (hw m')) = vd_bytes (dv (hw m))"
proof -
  let ?b = "dma_phys (dma_buf v)"
  define k where "k = (length buf + 511) div 512 * 512"
  define m0 where "m0 = cpu_wr mm (dma_virt (dma_buf v)) (blk_req 0 lba) m"
  note r = read_request [OF b(1) m0_def]
  have z: "vd_last (dv (hw m0)) = 0" using b(2) r(2) by simp
  note s = sectors_of [OF l, folded k_def]
  have dv: "512 dvd k" by (simp add: k_def)
  obtain m1 m' where c: "setup_chain mm v ?b (?b + 512) k True m0 = (Ok (), m1)" "notify_and_wait mm v m1 = Some m'"
      "vd_bytes (dv (hw m')) = disk_after 0 lba (seg (page (ram m0) ?b) 512 (512 + k)) (dv (hw m0))"
      "seg (page (ram m') ?b) 512 (512 + k) = data_after 0 lba (seg (page (ram m0) ?b) 512 (512 + k)) (dv (hw m0))"
    by (rule request_served [OF r(1) z r(3) s(1) dv _ refl]) simp_all
  have ir: "in_range (dv (hw m)) lba k" using s(2) boundD(15) [OF b(1)] by (simp add: in_range_def)
  have "cpu_rd mm m' (dma_virt (dma_buf v) + 512) (length buf) = seg (page (ram m') ?b) 512 (512 + length buf)"
    unfolding cpu_rd_def boundD(8) [OF b(1)] using l(1) by (simp add: peek_at algebra_simps)
  also have "\<dots> = take (length buf) (seg (page (ram m') ?b) 512 (512 + k))"
    using s(1,3) by (simp add: seg_def min_def)
  also have "\<dots> = map (\<lambda>i. vd_bytes (dv (hw m)) (unat lba * 512 + i)) [0..<length buf]"
    using s(1,3) by (intro nth_equalityI) (simp_all add: c(4) r(2) data_after_def ir mult.commute)
  finally have "cpu_rd mm m' (dma_virt (dma_buf v) + 512) (min (length buf) k)
      = map (\<lambda>i. vd_bytes (dv (hw m)) (unat lba * 512 + i)) [0..<length buf]"
    using s(3) by (simp add: min_def)
  with c r(2) show ?thesis
    unfolding virtio_read_sectors_def Let_def m0_def [symmetric] k_def [symmetric] by (simp add: blit_def disk_after_def)
qed

lemma write_sectors_first:
  assumes b: "bound v m" "vd_last (dv (hw m)) = 0"
    and l: "length buf \<le> 512" "unat lba * 512 + length buf \<le> 512 * unat (sector_count v)"
  shows "\<exists>m'. virtio_write_sectors mm v m lba buf = Some (Ok (), m') \<and> bound v m' \<and> vd_last (dv (hw m')) = 1
    \<and> (\<forall>i < length buf. vd_bytes (dv (hw m')) (unat lba * 512 + i) = buf ! i)
    \<and> (\<forall>i < length buf. page (ram m') (dma_phys (dma_buf v)) ! (512 + i) = buf ! i)
    \<and> (\<forall>p. p < unat lba * 512 \<or> unat lba * 512 + spill 512 (length buf) \<le> p
         \<longrightarrow> vd_bytes (dv (hw m')) p = vd_bytes (dv (hw m)) p)"
proof -
  let ?b = "dma_phys (dma_buf v)"
  define k where "k = (length buf + 511) div 512 * 512"
  define m0 where "m0 = cpu_wr mm (dma_virt (dma_buf v) + 512) buf m"
  define m1 where "m1 = cpu_wr mm (dma_virt (dma_buf v)) (blk_req 1 lba) m0"
  note w = write_request [OF b(1) l(1) m0_def m1_def]
  have z: "vd_last (dv (hw m1)) = 0" using b(2) w(2) by simp
  note s = sectors_of [OF l, folded k_def]
  have dv: "512 dvd k" by (simp add: k_def)
  let ?xs = "seg (page (ram m1) ?b) 512 (512 + k)"
  obtain m2 m' where c: "setup_chain mm v ?b (?b + 512) k False m1 = (Ok (), m2)" "notify_and_wait mm v m2 = Some m'"
      "bound v m'" "vd_bytes (dv (hw m')) = disk_after 1 lba ?xs (dv (hw m1))"
      "seg (page (ram m') ?b) 512 (512 + k) = data_after 1 lba ?xs (dv (hw m1))" "vd_last (dv (hw m')) = 1"
    by (rule request_served [OF w(1) z w(3) s(1) dv _ refl]) simp_all
  have ir: "in_range (dv (hw m)) lba k" using s(2) boundD(15) [OF b(1)] by (simp add: in_range_def)
  have xs: "?xs ! i = buf ! i" if "i < length buf" for i
    using w(4) that l(1) s by (simp add: nth_seg)
  then have "\<forall>i < length buf. vd_bytes (dv (hw m')) (unat lba * 512 + i) = buf ! i"
    using s(1,3) ir by (simp add: c(4) w(2) disk_after_def mult.commute)
  moreover have "\<forall>i < length buf. page (ram m') ?b ! (512 + i) = buf ! i"
  proof (intro allI impI)
    fix i assume i: "i < length buf"
    then have "page (ram m') ?b ! (512 + i) = seg (page (ram m') ?b) 512 (512 + k) ! i" using s by (simp add: nth_seg)
    then show "page (ram m') ?b ! (512 + i) = buf ! i" using xs [OF i] by (simp add: c(5) data_after_def)
  qed
  moreover have "\<forall>p. p < unat lba * 512 \<or> unat lba * 512 + spill 512 (length buf) \<le> p
         \<longrightarrow> vd_bytes (dv (hw m')) p = vd_bytes (dv (hw m)) p"
    by (use s(1) ir in \<open>auto simp: c(4) w(2) disk_after_def spill_def k_def mult.commute add.commute\<close>)
  moreover have "virtio_write_sectors mm v m lba buf = Some (Ok (), m')"
    using c(1,2) unfolding virtio_write_sectors_def Let_def m0_def [symmetric] m1_def [symmetric] k_def [symmetric] by simp
  ultimately show ?thesis using c(3,6) by blast
qed

text \<open>The contract of a block device, for one request.\<close>

definition fresh :: "nat \<Rightarrow> VirtioBlkState \<Rightarrow> 'a Machine \<Rightarrow> bool" where
  "fresh n v m \<longleftrightarrow> n = 0 \<or> n = 1 \<and> bound v m \<and> vd_last (dv (hw m)) = 0 \<and> sector_count v = sectors"

end

sublocale virtio_server \<subseteq> vb: block_store "virtio_block mm" 512 512 "512 * unat sectors" "\<lambda>(v, m). vd_bytes (dv (hw m))"
  "\<lambda>n (v, m). fresh n v m"
proof (unfold_locales, goal_cases)
  case 1
  then show ?case by simp
next
  case (2 n d k)
  then show ?case by (auto simp: fresh_def)
next
  case (3 n d buf a)
  then show ?case
    using read_sectors_first [of "fst d" "snd d" buf a]
    by (auto simp: virtio_block_def or_never_def fresh_def split: prod.splits)
next
  case (4 n d data a)
  then show ?case
    using write_sectors_first [of "fst d" "snd d" data a]
    by (auto simp: virtio_block_def or_never_def fresh_def split: prod.splits)
qed

section \<open>A device with a delay\<close>

text \<open>An instance: after a notification the device counts \<open>delay\<close> ticks down, then it serves.\<close>

record delayed =
  dl_disk :: vdisk
  dl_timer :: "nat option"

definition delayed_wr :: "u64 \<Rightarrow> u64 \<Rightarrow> nat \<Rightarrow> u64 \<Rightarrow> nat \<Rightarrow> nat \<Rightarrow> delayed Machine \<Rightarrow> delayed Machine" where
  "delayed_wr common notify delay a w v m =
     (if a = notify then m\<lparr>hw := (hw m)\<lparr>dl_timer := Some delay\<rparr>\<rparr>
      else m\<lparr>hw := (hw m)\<lparr>dl_disk := vd_reg common a v (dl_disk (hw m))\<rparr>\<rparr>)"

definition delayed_tick :: "delayed Machine \<Rightarrow> delayed Machine" where
  "delayed_tick m =
     (case dl_timer (hw m) of
        None \<Rightarrow> m
      | Some 0 \<Rightarrow>
          (let m' = (if vd_waiting (view dl_disk m) then vd_serve (view dl_disk m) else view dl_disk m)
           in \<lparr>ram = ram m', hw = \<lparr>dl_disk = hw m', dl_timer = None\<rparr>\<rparr>)
      | Some (Suc n) \<Rightarrow> m\<lparr>hw := (hw m)\<lparr>dl_timer := Some n\<rparr>\<rparr>)"

definition vd_machine :: "u64 \<Rightarrow> u64 \<Rightarrow> u64 \<Rightarrow> u64 \<Rightarrow> nat \<Rightarrow> delayed mmio" where
  "vd_machine off common notify device_cfg delay =
     \<lparr>mm_off = off, mm_rd = (\<lambda>h. vd_read common device_cfg (dl_disk h)), mm_wr = delayed_wr common notify delay,
      mm_tick = delayed_tick\<rparr>"

lemma delayed_ticks:
  "dl_timer (hw m) = Some n \<Longrightarrow> k \<le> n \<Longrightarrow> (delayed_tick ^^ k) m = m\<lparr>hw := (hw m)\<lparr>dl_timer := Some (n - k)\<rparr>\<rparr>"
proof (induction k)
  case (Suc k)
  obtain j where "n - k = Suc j" using Suc.prems(2) by (cases "n - k") auto
  moreover from this have "n - Suc k = j" by simp
  ultimately show ?case using Suc by (simp add: delayed_tick_def)
qed simp

lemma delayed_serves:
  assumes "vd_waiting (view dl_disk m)" "dl_timer (hw m) = Some n"
  shows "view dl_disk ((delayed_tick ^^ Suc n) m) = vd_serve (view dl_disk m)"
  using assms delayed_ticks [OF assms(2), of n] by (simp add: delayed_tick_def Let_def view_def)

interpretation vd: virtio_server "vd_machine off common notify device_cfg delay" dl_disk common notify device_cfg sectors
  for off common notify device_cfg delay sectors
proof (unfold_locales, goal_cases)
  case (1 a w v m)
  then show ?case by (simp add: vd_machine_def delayed_wr_def view_def)
next
  case (2 h a w)
  show ?case by (simp add: vd_machine_def)
next
  case (3 m)
  let ?w = "mm_wr (vd_machine off common notify device_cfg delay) notify 2 0 m"
  have w: "dl_timer (hw ?w) = Some delay" "view dl_disk ?w = view dl_disk m" "ram ?w = ram m"
    by (simp_all add: vd_machine_def delayed_wr_def view_def)
  have t: "mm_tick (vd_machine off common notify device_cfg delay) = delayed_tick" by (simp add: vd_machine_def)
  have "\<forall>k < Suc delay. ram ((delayed_tick ^^ k) ?w) = ram m"
    using delayed_ticks [OF w(1)] w(3) by (simp add: less_Suc_eq_le)
  moreover have "view dl_disk ((delayed_tick ^^ Suc delay) ?w) = vd_serve (view dl_disk m)"
    using delayed_serves [of ?w delay] w 3 by simp
  ultimately show ?case unfolding t by (intro exI [of _ "Suc delay"]) simp
qed

end
