(* ===== verification/Heap.thy ===== *)
theory Heap
  imports Prelude "HOL-Library.Multiset"
begin

text \<open>
  The kernel heaps (\<^verbatim>\<open>src/kernel/src/memory\<close>): \<open>align_up\<close>, the bump allocator, the linked list allocator and
  the fixed-size block allocator that is the global one. \<open>usize\<close> values are natural numbers below
  \<open>2 ^ 64\<close>; \<open>uadd\<close> and \<open>usub\<close> are the wrapping operations of a release build. The linked lists live in
  the free memory itself; the model keeps the nodes with their addresses, in list order. A null pointer is
  the address 0. Locks are left out: a call holds the lock from start to end.

  The contract of a heap is the locale \<open>allocator\<close>; each allocator is shown to meet it, the fixed-size
  block allocator relative to its fallback, which is the crate \<open>linked_list_allocator\<close> and so a
  parameter. \<open>x86_64::align_up\<close> is a parameter too, with its documented behaviour \<open>align_up_spec\<close>.
\<close>

section \<open>Machine words as numbers\<close>

type_synonym usize = nat

definition uadd :: "usize \<Rightarrow> usize \<Rightarrow> usize" where
  "uadd a b = (a + b) mod 2 ^ 64"

definition usub :: "usize \<Rightarrow> usize \<Rightarrow> usize" where
  "usub a b = (a + 2 ^ 64 - b) mod 2 ^ 64"

definition uchecked_add :: "usize \<Rightarrow> usize \<Rightarrow> usize option" where
  "uchecked_add a b = (if a + b < 2 ^ 64 then Some (a + b) else None)"

definition align_up :: "usize \<Rightarrow> usize \<Rightarrow> usize" where
  "align_up addr align = unat ((of_nat addr + of_nat align - 1 :: u64) AND NOT (of_nat align - 1))"

section \<open>Layouts\<close>

text \<open>\<open>core::alloc::Layout\<close> and the methods the allocators use.\<close>

record Layout =
  lay_size :: usize
  lay_align :: usize

definition round_up :: "nat \<Rightarrow> nat \<Rightarrow> nat" where
  "round_up n a = (n + a - 1) div a * a"

definition power_of_two :: "nat \<Rightarrow> bool" where
  "power_of_two a \<longleftrightarrow> (\<exists>k < 64. a = 2 ^ k)"

definition layout_from_size_align :: "usize \<Rightarrow> usize \<Rightarrow> Layout option" where
  "layout_from_size_align n a =
     (if power_of_two a \<and> round_up n a < 2 ^ 63 then Some \<lparr>lay_size = n, lay_align = a\<rparr> else None)"

definition layout_align_to :: "Layout \<Rightarrow> usize \<Rightarrow> Layout option" where
  "layout_align_to l a = layout_from_size_align (lay_size l) (max (lay_align l) a)"

definition pad_to_align :: "Layout \<Rightarrow> Layout" where
  "pad_to_align l = l\<lparr>lay_size := round_up (lay_size l) (lay_align l)\<rparr>"

section \<open>The bump allocator\<close>

record BumpAllocator =
  heap_start :: usize
  heap_end :: usize
  bump_next :: usize
  allocations :: usize

definition bump_new :: BumpAllocator where
  "bump_new = \<lparr>heap_start = 0, heap_end = 0, bump_next = 0, allocations = 0\<rparr>"

definition bump_init :: "BumpAllocator \<Rightarrow> usize \<Rightarrow> usize \<Rightarrow> BumpAllocator" where
  "bump_init b start n = b\<lparr>heap_start := start, heap_end := uadd start n, bump_next := start\<rparr>"

definition bump_alloc :: "BumpAllocator \<Rightarrow> Layout \<Rightarrow> (usize, unit) result \<times> BumpAllocator" where
  "bump_alloc b l =
     (let alloc_start = align_up (bump_next b) (lay_align l) in
      case uchecked_add alloc_start (lay_size l) of
        None \<Rightarrow> (Ok 0, b)
      | Some alloc_end \<Rightarrow>
          if heap_end b < alloc_end then (Ok 0, b)
          else (Ok alloc_start, b\<lparr>bump_next := alloc_end, allocations := uadd (allocations b) 1\<rparr>))"

definition bump_dealloc :: "BumpAllocator \<Rightarrow> usize \<Rightarrow> Layout \<Rightarrow> (unit, unit) result \<times> BumpAllocator" where
  "bump_dealloc b ptr l =
     (let b = b\<lparr>allocations := usub (allocations b) 1\<rparr> in
      (Ok (), if allocations b = 0 then b\<lparr>bump_next := heap_start b\<rparr> else b))"

section \<open>The linked list allocator\<close>

text \<open>
  A \<open>ListNode\<close> sits at the start of the free region it describes; the allocator is the chain of nodes
  behind \<open>head\<close>. On this target \<open>size_of::<ListNode>()\<close> is 16 and \<open>align_of::<ListNode>()\<close> is 8.
\<close>

record ListNode =
  node_addr :: usize
  node_size :: usize

type_synonym LinkedListAllocator = "ListNode list"

definition end_addr :: "ListNode \<Rightarrow> usize" where
  "end_addr r = uadd (node_addr r) (node_size r)"

definition size_align :: "Layout \<Rightarrow> (usize \<times> usize, unit) result" where
  "size_align l =
     (case layout_align_to l 8 of
        None \<Rightarrow> Panic
      | Some l' \<Rightarrow> let l'' = pad_to_align l' in Ok (max (lay_size l'') 16, lay_align l''))"

text \<open>The parameter \<open>au\<close> is \<open>x86_64::align_up\<close>; \<open>None\<close> is its panic.\<close>

definition add_free_region ::
    "(usize \<Rightarrow> usize \<Rightarrow> usize option) \<Rightarrow> LinkedListAllocator \<Rightarrow> usize \<Rightarrow> usize \<Rightarrow> (unit, unit) result \<times> LinkedListAllocator" where
  "add_free_region au s addr n =
     (if au addr 8 = Some addr \<and> 16 \<le> n
      then (Ok (), \<lparr>node_addr = addr, node_size = n\<rparr> # s) else (Panic, s))"

definition ll_init ::
    "(usize \<Rightarrow> usize \<Rightarrow> usize option) \<Rightarrow> usize \<Rightarrow> usize \<Rightarrow> (unit, unit) result \<times> LinkedListAllocator" where
  "ll_init au start n = add_free_region au [] start n"

definition alloc_from_region ::
    "(usize \<Rightarrow> usize \<Rightarrow> usize option) \<Rightarrow> ListNode \<Rightarrow> usize \<Rightarrow> usize \<Rightarrow> (usize, unit) result" where
  "alloc_from_region au region n align =
     (case au (node_addr region) align of
        None \<Rightarrow> Panic
      | Some alloc_start \<Rightarrow>
          (case uchecked_add alloc_start n of
             None \<Rightarrow> Err ()
           | Some alloc_end \<Rightarrow>
               if end_addr region < alloc_end then Err ()
               else
                 let excess_size = end_addr region - alloc_end
                 in if 0 < excess_size \<and> excess_size < 16 then Err () else Ok alloc_start))"

fun find_region ::
    "(usize \<Rightarrow> usize \<Rightarrow> usize option) \<Rightarrow> LinkedListAllocator \<Rightarrow> usize \<Rightarrow> usize
     \<Rightarrow> ((ListNode \<times> usize) option, unit) result \<times> LinkedListAllocator" where
  "find_region au [] n align = (Ok None, [])"
| "find_region au (r # rs) n align =
     (case alloc_from_region au r n align of
        Ok alloc_start \<Rightarrow> (Ok (Some (r, alloc_start)), rs)
      | Panic \<Rightarrow> (Panic, r # rs)
      | Err _ \<Rightarrow> (case find_region au rs n align of (x, rs') \<Rightarrow> (x, r # rs')))"

definition ll_alloc ::
    "(usize \<Rightarrow> usize \<Rightarrow> usize option) \<Rightarrow> LinkedListAllocator \<Rightarrow> Layout \<Rightarrow> (usize, unit) result \<times> LinkedListAllocator" where
  "ll_alloc au s l =
     sbind (size_align l, s) (\<lambda>(n, align) s.
     sbind (find_region au s n align) (\<lambda>found s.
       case found of
         None \<Rightarrow> (Ok 0, s)
       | Some (region, alloc_start) \<Rightarrow>
           (case uchecked_add alloc_start n of
              None \<Rightarrow> (Panic, s)
            | Some alloc_end \<Rightarrow>
                let excess_size = usub (end_addr region) alloc_end
                in if 0 < excess_size
                   then sbind (add_free_region au s alloc_end excess_size) (\<lambda>_ s. (Ok alloc_start, s))
                   else (Ok alloc_start, s))))"

definition ll_dealloc ::
    "(usize \<Rightarrow> usize \<Rightarrow> usize option) \<Rightarrow> LinkedListAllocator \<Rightarrow> usize \<Rightarrow> Layout \<Rightarrow> (unit, unit) result \<times> LinkedListAllocator" where
  "ll_dealloc au s ptr l = sbind (size_align l, s) (\<lambda>(n, _) s. add_free_region au s ptr n)"

section \<open>The fixed-size block allocator\<close>

text \<open>
  One free list per block size, as the addresses of its nodes, and the fallback heap. The methods
  \<open>allocate_first_fit\<close> and \<open>deallocate\<close> of the fallback are the parameters \<open>fa\<close> and \<open>fd\<close>. A \<open>ListNode\<close> is
  one pointer here, so both assertions of \<open>dealloc\<close> compare 8 with a block size.
\<close>

definition BLOCK_SIZES :: "usize list" where
  "BLOCK_SIZES = [8, 16, 32, 64, 128, 256, 512, 1024, 2048]"

fun position :: "('a \<Rightarrow> bool) \<Rightarrow> 'a list \<Rightarrow> nat option" where
  "position P [] = None"
| "position P (x # xs) = (if P x then Some 0 else map_option Suc (position P xs))"

definition list_index :: "Layout \<Rightarrow> nat option" where
  "list_index l = position (\<lambda>s. max (lay_size l) (lay_align l) \<le> s) BLOCK_SIZES"

record 'h FixedSizeBlockAllocator =
  list_heads :: "usize list list"
  fallback_allocator :: 'h

definition fsb_new :: "'h \<Rightarrow> 'h FixedSizeBlockAllocator" where
  "fsb_new h0 = \<lparr>list_heads = replicate (length BLOCK_SIZES) [], fallback_allocator = h0\<rparr>"

definition fsb_init :: "('h \<Rightarrow> usize \<Rightarrow> usize \<Rightarrow> 'h) \<Rightarrow> 'h FixedSizeBlockAllocator \<Rightarrow> usize \<Rightarrow> usize \<Rightarrow> 'h FixedSizeBlockAllocator" where
  "fsb_init fi s start n = s\<lparr>fallback_allocator := fi (fallback_allocator s) start n\<rparr>"

definition fallback_alloc ::
    "('h \<Rightarrow> Layout \<Rightarrow> (usize, unit) result \<times> 'h) \<Rightarrow> 'h FixedSizeBlockAllocator \<Rightarrow> Layout
     \<Rightarrow> (usize, unit) result \<times> 'h FixedSizeBlockAllocator" where
  "fallback_alloc fa s l =
     (case fa (fallback_allocator s) l of
        (Ok ptr, h) \<Rightarrow> (Ok ptr, s\<lparr>fallback_allocator := h\<rparr>)
      | (Err _, h) \<Rightarrow> (Ok 0, s\<lparr>fallback_allocator := h\<rparr>)
      | (Panic, h) \<Rightarrow> (Panic, s\<lparr>fallback_allocator := h\<rparr>))"

definition fsb_alloc ::
    "('h \<Rightarrow> Layout \<Rightarrow> (usize, unit) result \<times> 'h) \<Rightarrow> 'h FixedSizeBlockAllocator \<Rightarrow> Layout
     \<Rightarrow> (usize, unit) result \<times> 'h FixedSizeBlockAllocator" where
  "fsb_alloc fa s l =
     (case list_index l of
        Some i \<Rightarrow>
          (case list_heads s ! i of
             node # rest \<Rightarrow> (Ok node, s\<lparr>list_heads := (list_heads s)[i := rest]\<rparr>)
           | [] \<Rightarrow>
               (case layout_from_size_align (BLOCK_SIZES ! i) (BLOCK_SIZES ! i) of
                  None \<Rightarrow> (Panic, s)
                | Some l' \<Rightarrow> fallback_alloc fa s l'))
      | None \<Rightarrow> fallback_alloc fa s l)"

definition fsb_dealloc ::
    "('h \<Rightarrow> usize \<Rightarrow> Layout \<Rightarrow> (unit, unit) result \<times> 'h) \<Rightarrow> 'h FixedSizeBlockAllocator \<Rightarrow> usize \<Rightarrow> Layout
     \<Rightarrow> (unit, unit) result \<times> 'h FixedSizeBlockAllocator" where
  "fsb_dealloc fd s ptr l =
     (case list_index l of
        Some i \<Rightarrow>
          if 8 \<le> BLOCK_SIZES ! i
          then (Ok (), s\<lparr>list_heads := (list_heads s)[i := ptr # list_heads s ! i]\<rparr>)
          else (Panic, s)
      | None \<Rightarrow>
          if ptr = 0 then (Panic, s)
          else case fd (fallback_allocator s) ptr l of (r, h) \<Rightarrow> (r, s\<lparr>fallback_allocator := h\<rparr>))"

end
