(* ===== verification/HeapSafety.thy ===== *)
theory HeapSafety
  imports Heap
begin

text \<open>
  Safety of the heaps. A block is an address with the layout it was requested with. \<open>separate\<close> says
  that no two blocks of a list overlap, \<open>placed\<close> that a block is aligned and inside the heap. The locale
  \<open>allocator\<close> is the contract; its consequence \<open>run_safe\<close> speaks about whole sequences of requests.
\<close>

section \<open>Rounding\<close>

lemma power_of_two_pos: "power_of_two a \<Longrightarrow> 0 < a"
  by (auto simp: power_of_two_def)

lemma round_up_ge: "0 < a \<Longrightarrow> n \<le> round_up n a"
proof -
  assume a: "0 < a"
  have "(n + a - 1) mod a < a" using a by simp
  then have "n + a - 1 < round_up n a + a"
    using div_mult_mod_eq [of "n + a - 1" a] unfolding round_up_def by linarith
  with a show ?thesis by linarith
qed

lemma round_up_less: "0 < a \<Longrightarrow> round_up n a < n + a"
  using div_mult_mod_eq [of "n + a - 1" a] unfolding round_up_def by (metis One_nat_def Suc_pred add_gr_0 add.commute add_Suc_right le_add1 le_imp_less_Suc less_le_trans)

lemma round_up_dvd: "a dvd round_up n a"
  by (simp add: round_up_def)

lemma round_up_least: "0 < a \<Longrightarrow> a dvd m \<Longrightarrow> n \<le> m \<Longrightarrow> round_up n a \<le> m"
proof -
  assume a: "0 < a" "a dvd m" "n \<le> m"
  then obtain k where k: "m = a * k" by blast
  have "n + a - 1 < (k + 1) * a" using a k by (simp add: algebra_simps)
  then have "(n + a - 1) div a < k + 1" by (rule less_mult_imp_div_less)
  then show ?thesis by (simp add: round_up_def k mult.commute)
qed

lemma power_of_two_dvd: "power_of_two a \<Longrightarrow> power_of_two b \<Longrightarrow> a \<le> b \<Longrightarrow> a dvd b"
  by (auto simp: power_of_two_def le_imp_power_dvd)

lemma power_of_two_dvd_top: "power_of_two a \<Longrightarrow> 63 \<le> n \<Longrightarrow> a dvd 2 ^ n"
  by (auto simp: power_of_two_def intro!: le_imp_power_dvd)

lemma round_up_fits: "power_of_two a \<Longrightarrow> n \<le> 2 ^ 63 \<Longrightarrow> round_up n a \<le> 2 ^ 63"
proof -
  assume a: "power_of_two a" "n \<le> 2 ^ 63"
  then show ?thesis by (intro round_up_least power_of_two_dvd_top) (auto simp: power_of_two_pos)
qed

definition align_up_spec :: "(usize \<Rightarrow> usize \<Rightarrow> usize option) \<Rightarrow> bool" where
  "align_up_spec au \<longleftrightarrow>
     (\<forall>addr align. power_of_two align \<and> round_up addr align < 2 ^ 64 \<longrightarrow> au addr align = Some (round_up addr align))"

lemma word_and_not_mask: "(w :: u64) AND NOT (mask k) = push_bit k (drop_bit k w)"
  by (rule bit_word_eqI) (auto simp: bit_simps)

lemma align_up_value:
  assumes "power_of_two align" "round_up addr align < 2 ^ 64"
  shows "align_up addr align = round_up addr align"
proof -
  obtain k where k: "k < 64" "align = 2 ^ k" using assms(1) by (auto simp: power_of_two_def)
  have "align dvd 2 ^ 64" using assms(1) by (rule power_of_two_dvd_top) simp
  then have top: "round_up addr align + align \<le> 2 ^ 64"
    using round_up_dvd [of align addr] assms(2) k
    by (metis dvd_add_triv_right_iff dvd_diff_nat dvd_imp_le le_add_diff_inverse less_imp_le_nat less_numeral_extra(3) nat_add_left_cancel_le zero_less_diff)
  have small: "addr + align - 1 < 2 ^ 64"
    using round_up_ge [of align addr] top k by (simp add: power_of_two_pos assms(1))
  have al: "of_nat align - 1 = (mask k :: u64)" using k by (simp add: mask_eq_exp_minus_1)
  have "of_nat addr + of_nat align - 1 = (of_nat (addr + align - 1) :: u64)"
    using k by (subst of_nat_diff) (simp_all add: Suc_leI)
  then have "align_up addr align = unat (push_bit k (drop_bit k (of_nat (addr + align - 1) :: u64)))"
    unfolding align_up_def al by (simp add: word_and_not_mask)
  also have "\<dots> = round_up addr align"
  proof -
    have "unat (of_nat (addr + align - 1) :: u64) = addr + align - 1"
      using small by (simp add: unat_of_nat)
    then have "unat (drop_bit k (of_nat (addr + align - 1) :: u64)) = (addr + align - 1) div align"
      using small by (simp add: unsigned_drop_bit_eq k) (simp add: drop_bit_eq_div take_bit_nat_eq_self)
    then have "unat (push_bit k (drop_bit k (of_nat (addr + align - 1) :: u64))) = take_bit 64 (round_up addr align)"
      by (simp add: unsigned_push_bit_eq round_up_def k) (simp add: push_bit_eq_mult)
    then show ?thesis using assms(2) by (simp add: take_bit_nat_eq_self)
  qed
  finally show ?thesis .
qed

lemma align_up_spec_own: "align_up_spec (\<lambda>addr align. Some (align_up addr align))"
  by (simp add: align_up_spec_def align_up_value)

lemma usub_exact: "b \<le> a \<Longrightarrow> a < 2 ^ 64 \<Longrightarrow> usub a b = a - b"
proof -
  assume a: "b \<le> a" "a < 2 ^ 64"
  then have "a + 2 ^ 64 - b = (a - b) + 2 ^ 64" by simp
  with a show ?thesis by (simp only: usub_def mod_add_self2) simp
qed

section \<open>Blocks\<close>

type_synonym block = "usize \<times> Layout"

definition apart :: "nat \<times> nat \<Rightarrow> nat \<times> nat \<Rightarrow> bool" where
  "apart p q \<longleftrightarrow> fst p + snd p \<le> fst q \<or> fst q + snd q \<le> fst p"

definition separate :: "(nat \<times> nat) list \<Rightarrow> bool" where
  "separate ps \<longleftrightarrow> sorted_wrt apart ps"

definition span :: "block \<Rightarrow> nat \<times> nat" where
  "span b = (fst b, lay_size (snd b))"

definition placed :: "nat \<Rightarrow> nat \<Rightarrow> block \<Rightarrow> bool" where
  "placed lo hi b \<longleftrightarrow> lo \<le> fst b \<and> fst b + lay_size (snd b) \<le> hi \<and> lay_align (snd b) dvd fst b
     \<and> 0 < lay_size (snd b)"

lemma apart_sym: "apart p q \<longleftrightarrow> apart q p"
  by (auto simp: apart_def)

lemma apart_sub:
  "apart p q \<Longrightarrow> fst p \<le> fst p' \<Longrightarrow> fst p' + snd p' \<le> fst p + snd p \<Longrightarrow> apart p' q"
  by (auto simp: apart_def)

lemma separate_Nil: "separate []"
  by (simp add: separate_def)

lemma separate_Cons: "separate (p # ps) \<longleftrightarrow> (\<forall>q \<in> set ps. apart p q) \<and> separate ps"
  by (simp add: separate_def)

lemma separate_mid: "separate (ps @ q # qs) \<longleftrightarrow> separate (q # ps @ qs)"
  by (auto simp: separate_def sorted_wrt_append apart_sym)

lemma separate_mset: "mset ps = mset qs \<Longrightarrow> separate ps \<Longrightarrow> separate qs"
proof (induction ps arbitrary: qs)
  case Nil
  then show ?case by simp
next
  case (Cons p ps)
  then have "p \<in> set qs" by (metis list.set_intros(1) set_mset_mset)
  then obtain xs ys where q: "qs = xs @ p # ys" by (meson split_list)
  with Cons.prems have m: "mset ps = mset (xs @ ys)" by simp
  then have "separate (xs @ ys)" using Cons.IH Cons.prems(2) by (simp add: separate_Cons)
  moreover have "set ps = set (xs @ ys)" using m by (rule mset_eq_setD)
  ultimately show ?case using Cons.prems(2) by (simp add: q separate_mid separate_Cons)
qed

lemma separate_shrink:
  assumes "separate ps" "list_all2 (\<lambda>p q. fst p \<le> fst q \<and> fst q + snd q \<le> fst p + snd p) ps qs"
  shows "separate qs"
  using assms(2,1)
proof (induction rule: list_all2_induct)
  case Nil
  then show ?case by simp
next
  case (Cons p ps q qs)
  have "apart q r" if r: "r \<in> set qs" for r
  proof -
    obtain i where i: "i < length qs" "r = qs ! i" using r by (auto simp: in_set_conv_nth)
    have l: "length ps = length qs" using Cons.hyps(2) by (rule list_all2_lengthD)
    have p': "fst (ps ! i) \<le> fst r \<and> fst r + snd r \<le> fst (ps ! i) + snd (ps ! i)"
      using list_all2_nthD2 [OF Cons.hyps(2) i(1)] i(2) by simp
    have "apart p (ps ! i)" using Cons.prems i(1) l by (simp add: separate_Cons)
    then show ?thesis using p' Cons.hyps(1) by (metis apart_sub apart_sym)
  qed
  with Cons show ?case by (simp add: separate_Cons)
qed

section \<open>The contract\<close>

text \<open>
  A client's requests: allocate with a layout, or free the \<open>i\<close>-th of the live blocks. \<open>heap_run\<close> sends them
  to a heap and keeps the list of live blocks; a null pointer adds none.
\<close>

datatype request = Alloc Layout | Free nat

fun heap_run ::
    "('s \<Rightarrow> Layout \<Rightarrow> (usize, unit) result \<times> 's) \<Rightarrow> ('s \<Rightarrow> usize \<Rightarrow> Layout \<Rightarrow> (unit, unit) result \<times> 's)
     \<Rightarrow> 's \<Rightarrow> block list \<Rightarrow> request list \<Rightarrow> (block list, unit) result \<times> 's" where
  "heap_run al de s live [] = (Ok live, s)"
| "heap_run al de s live (Alloc l # rs) =
     sbind (al s l) (\<lambda>a s. heap_run al de s (if a = 0 then live else (a, l) # live) rs)"
| "heap_run al de s live (Free i # rs) =
     (if i < length live
      then sbind (de s (fst (live ! i)) (snd (live ! i)))
             (\<lambda>_ s. heap_run al de s (take i live @ drop (Suc i) live) rs)
      else heap_run al de s live rs)"

locale allocator =
  fixes alloc :: "'s \<Rightarrow> Layout \<Rightarrow> (usize, unit) result \<times> 's"
    and dealloc :: "'s \<Rightarrow> usize \<Rightarrow> Layout \<Rightarrow> (unit, unit) result \<times> 's"
    and admissible :: "Layout \<Rightarrow> bool"
    and inv :: "'s \<Rightarrow> block list \<Rightarrow> bool"
    and lo :: nat
    and hi :: nat
  assumes blocks: "inv s live \<Longrightarrow> separate (map span live) \<and> (\<forall>b \<in> set live. placed lo hi b \<and> fst b \<noteq> 0)"
    and alloc_ok: "inv s live \<Longrightarrow> admissible l \<Longrightarrow>
      \<exists>a s'. alloc s l = (Ok a, s') \<and> inv s' (if a = 0 then live else (a, l) # live)"
    and dealloc_ok: "inv s live \<Longrightarrow> mset live = mset ((a, l) # rest) \<Longrightarrow>
      \<exists>s'. dealloc s a l = (Ok (), s') \<and> inv s' rest"
begin

lemma run_keeps:
  "inv s live \<Longrightarrow> (\<And>l. Alloc l \<in> set rs \<Longrightarrow> admissible l) \<Longrightarrow>
   \<exists>live' s'. heap_run alloc dealloc s live rs = (Ok live', s') \<and> inv s' live'"
proof (induction rs arbitrary: s live)
  case Nil
  then show ?case by simp
next
  case (Cons r rs)
  note adm = Cons.prems(2)
  show ?case
  proof (cases r)
    case (Alloc l)
    obtain a s' where "alloc s l = (Ok a, s')" "inv s' (if a = 0 then live else (a, l) # live)"
      using alloc_ok [OF Cons.prems(1), of l] adm [of l] Alloc by auto
    then show ?thesis using Cons.IH adm by (simp add: Alloc)
  next
    case (Free i)
    show ?thesis
    proof (cases "i < length live")
      case True
      have "live = take i live @ live ! i # drop (Suc i) live" using True by (rule id_take_nth_drop)
      then have "mset live = mset ((fst (live ! i), snd (live ! i)) # take i live @ drop (Suc i) live)"
        by (metis mset_append mset.simps(2) prod.collapse union_mset_add_mset_right)
      then obtain s' where "dealloc s (fst (live ! i)) (snd (live ! i)) = (Ok (), s')"
          "inv s' (take i live @ drop (Suc i) live)"
        using dealloc_ok [OF Cons.prems(1)] by blast
      then show ?thesis using Cons.IH adm True by (simp add: Free)
    next
      case False
      then show ?thesis using Cons.IH Cons.prems(1) adm by (simp add: Free)
    qed
  qed
qed

lemma run_safe:
  assumes "inv s []" "\<And>l. Alloc l \<in> set rs \<Longrightarrow> admissible l"
  shows "\<exists>live s'. heap_run alloc dealloc s [] rs = (Ok live, s') \<and> separate (map span live)
     \<and> (\<forall>b \<in> set live. placed lo hi b)"
  using run_keeps [OF assms] blocks by blast

end

section \<open>The bump allocator\<close>

definition bump_admissible :: "Layout \<Rightarrow> bool" where
  "bump_admissible l \<longleftrightarrow> 0 < lay_size l \<and> power_of_two (lay_align l)"

definition bump_inv :: "nat \<Rightarrow> nat \<Rightarrow> BumpAllocator \<Rightarrow> block list \<Rightarrow> bool" where
  "bump_inv lo hi b live \<longleftrightarrow> heap_start b = lo \<and> heap_end b = hi \<and> 0 < lo \<and> hi \<le> 2 ^ 63
     \<and> lo \<le> bump_next b \<and> bump_next b \<le> hi \<and> allocations b = length live
     \<and> length live + lo \<le> bump_next b
     \<and> separate (map span live)
     \<and> (\<forall>x \<in> set live. placed lo hi x \<and> fst x + lay_size (snd x) \<le> bump_next b)"

lemma bump_alloc_keeps:
  assumes inv: "bump_inv lo hi b live" and adm: "bump_admissible l"
  shows "\<exists>a b'. bump_alloc b l = (Ok a, b') \<and> bump_inv lo hi b' (if a = 0 then live else (a, l) # live)"
proof -
  let ?a = "round_up (bump_next b) (lay_align l)"
  have pos: "0 < lay_align l" "0 < lay_size l" using adm by (auto simp: bump_admissible_def power_of_two_pos)
  have bn: "bump_next b \<le> 2 ^ 63" using inv by (simp add: bump_inv_def)
  have au: "align_up (bump_next b) (lay_align l) = ?a"
    using round_up_fits [OF _ bn, of "lay_align l"] adm by (intro align_up_value) (auto simp: bump_admissible_def)
  have ge: "bump_next b \<le> ?a" using pos(1) by (rule round_up_ge)
  show ?thesis
  proof (cases "?a + lay_size l \<le> hi")
    case False
    then have "bump_alloc b l = (Ok 0, b)"
      using inv by (auto simp: bump_alloc_def au Let_def uchecked_add_def bump_inv_def)
    with inv show ?thesis by simp
  next
    case True
    let ?b = "b\<lparr>bump_next := ?a + lay_size l, allocations := uadd (allocations b) 1\<rparr>"
    have n: "length live + lo \<le> bump_next b" "bump_next b \<le> hi" "hi \<le> 2 ^ 63" "allocations b = length live"
      using inv by (auto simp: bump_inv_def)
    then have "length live + 1 < 2 ^ 64" by simp
    then have al: "uadd (allocations b) 1 = Suc (length live)" using n(4) by (simp add: uadd_def)
    have a0: "?a \<noteq> 0" using ge inv by (auto simp: bump_inv_def)
    have "bump_alloc b l = (Ok ?a, ?b)"
      using True inv by (auto simp: bump_alloc_def au Let_def uchecked_add_def bump_inv_def)
    moreover have "bump_inv lo hi ?b ((?a, l) # live)"
      using inv True ge pos n round_up_dvd [of "lay_align l" "bump_next b"] unfolding bump_inv_def al
      by (fastforce simp: separate_Cons span_def apart_def placed_def)
    ultimately show ?thesis using a0 by auto
  qed
qed

lemma bump_dealloc_keeps:
  assumes inv: "bump_inv lo hi b live" and m: "mset live = mset ((a, l) # rest)"
  shows "\<exists>b'. bump_dealloc b a l = (Ok (), b') \<and> bump_inv lo hi b' rest"
proof -
  have len: "length live = Suc (length rest)" using mset_eq_length [OF m] by simp
  have sub: "set rest \<subseteq> set live" using mset_eq_setD [OF m] by auto
  have "separate (map span ((a, l) # rest))"
    by (rule separate_mset [of "map span live"]) (use inv m in \<open>auto simp: bump_inv_def\<close>)
  then have sep: "separate (map span rest)" by (simp add: separate_Cons)
  have n: "length live + lo \<le> bump_next b" "bump_next b \<le> hi" "hi \<le> 2 ^ 63" "allocations b = length live"
    using inv by (auto simp: bump_inv_def)
  then have al: "usub (allocations b) 1 = length rest" using len by (simp add: usub_def)
  show ?thesis
    using inv sub sep len unfolding bump_dealloc_def Let_def bump_inv_def al
    by (cases "rest = []") (auto simp: al)
qed

lemma bump_blocks:
  "bump_inv lo hi b live \<Longrightarrow> separate (map span live) \<and> (\<forall>x \<in> set live. placed lo hi x \<and> fst x \<noteq> 0)"
  by (auto simp: bump_inv_def placed_def)

interpretation bump: allocator bump_alloc bump_dealloc bump_admissible "bump_inv lo hi" lo hi
  for lo hi
  by unfold_locales (rule bump_blocks bump_alloc_keeps bump_dealloc_keeps; assumption)+

section \<open>The linked list allocator\<close>

text \<open>
  A layout is admissible when \<open>align_to\<close> can raise its alignment to that of a \<open>ListNode\<close>. Free regions
  and live blocks, the latter with their adjusted size, never overlap.
\<close>

definition ll_admissible :: "Layout \<Rightarrow> bool" where
  "ll_admissible l \<longleftrightarrow> 0 < lay_size l \<and> power_of_two (lay_align l)
     \<and> round_up (lay_size l) (max (lay_align l) 8) < 2 ^ 63"

definition ll_size :: "Layout \<Rightarrow> nat" where
  "ll_size l = max (round_up (lay_size l) (max (lay_align l) 8)) 16"

definition ll_block :: "block \<Rightarrow> nat \<times> nat" where
  "ll_block b = (fst b, ll_size (snd b))"

definition ll_region :: "ListNode \<Rightarrow> nat \<times> nat" where
  "ll_region r = (node_addr r, node_size r)"

definition ll_free_ok :: "nat \<Rightarrow> nat \<Rightarrow> ListNode \<Rightarrow> bool" where
  "ll_free_ok lo hi r \<longleftrightarrow> lo \<le> node_addr r \<and> node_addr r + node_size r \<le> hi \<and> 8 dvd node_addr r \<and> 16 \<le> node_size r"

definition ll_live_ok :: "nat \<Rightarrow> nat \<Rightarrow> block \<Rightarrow> bool" where
  "ll_live_ok lo hi b \<longleftrightarrow> ll_admissible (snd b) \<and> lo \<le> fst b \<and> fst b + ll_size (snd b) \<le> hi
     \<and> max (lay_align (snd b)) 8 dvd fst b"

definition ll_inv :: "nat \<Rightarrow> nat \<Rightarrow> LinkedListAllocator \<Rightarrow> block list \<Rightarrow> bool" where
  "ll_inv lo hi s live \<longleftrightarrow> 0 < lo \<and> hi \<le> 2 ^ 63 \<and> separate (map ll_region s @ map ll_block live)
     \<and> (\<forall>r \<in> set s. ll_free_ok lo hi r) \<and> (\<forall>b \<in> set live. ll_live_ok lo hi b)"

lemma power_of_two_8: "power_of_two 8"
  unfolding power_of_two_def by (rule exI [of _ 3]) simp

lemma power_of_two_max: "power_of_two a \<Longrightarrow> power_of_two b \<Longrightarrow> power_of_two (max a b)"
  by (simp add: max_def)

lemma max_align_8:
  assumes "power_of_two a"
  shows "power_of_two (max a 8)" "a dvd max a 8" "8 dvd max a 8"
  using assms power_of_two_8 by (auto intro!: power_of_two_max power_of_two_dvd)

lemma size_align_value:
  assumes "ll_admissible l"
  shows "size_align l = Ok (ll_size l, max (lay_align l) 8)"
  using assms max_align_8(1) [of "lay_align l"]
  by (simp add: ll_admissible_def size_align_def layout_align_to_def layout_from_size_align_def
      pad_to_align_def ll_size_def Let_def)

lemma ll_size_props:
  assumes "ll_admissible l"
  shows "lay_size l \<le> ll_size l" "8 dvd ll_size l" "16 \<le> ll_size l"
proof -
  have "8 dvd round_up (lay_size l) (max (lay_align l) 8)"
    by (rule dvd_trans [OF max_align_8(3) round_up_dvd]) (use assms in \<open>simp add: ll_admissible_def\<close>)
  then show "8 dvd ll_size l" by (simp add: ll_size_def max_def)
  show "lay_size l \<le> ll_size l"
    using round_up_ge [of "max (lay_align l) 8" "lay_size l"] by (simp add: ll_size_def le_max_iff_disj)
qed (simp add: ll_size_def)

lemma alloc_from_region_ok:
  assumes au: "align_up_spec au" and r: "ll_free_ok lo hi r" "hi \<le> 2 ^ 63" and al: "power_of_two align"
  shows "alloc_from_region au r n align \<noteq> Panic"
    and "alloc_from_region au r n align = Ok a \<Longrightarrow> a = round_up (node_addr r) align \<and> a + n \<le> node_addr r + node_size r
       \<and> (a + n = node_addr r + node_size r \<or> a + n + 16 \<le> node_addr r + node_size r)"
proof -
  have b: "node_addr r \<le> 2 ^ 63" "node_addr r + node_size r < 2 ^ 64" using r by (auto simp: ll_free_ok_def)
  have u: "au (node_addr r) align = Some (round_up (node_addr r) align)"
    using au round_up_fits [OF al b(1)] al by (simp add: align_up_spec_def)
  have e: "end_addr r = node_addr r + node_size r" using b(2) by (simp add: end_addr_def uadd_def)
  show "alloc_from_region au r n align \<noteq> Panic"
    by (simp add: alloc_from_region_def u Let_def split: option.split)
  show "a = round_up (node_addr r) align \<and> a + n \<le> node_addr r + node_size r
       \<and> (a + n = node_addr r + node_size r \<or> a + n + 16 \<le> node_addr r + node_size r)"
    if "alloc_from_region au r n align = Ok a"
    using that
    by (auto simp: alloc_from_region_def u e uchecked_add_def Let_def split: if_splits)
qed

lemma find_region_cases:
  assumes "align_up_spec au" "\<forall>r \<in> set s. ll_free_ok lo hi r" "hi \<le> 2 ^ 63" "power_of_two align"
  shows "find_region au s n align = (Ok None, s)
    \<or> (\<exists>xs r ys a. s = xs @ r # ys \<and> find_region au s n align = (Ok (Some (r, a)), xs @ ys)
         \<and> alloc_from_region au r n align = Ok a)"
  using assms(2)
proof (induction s)
  case Nil
  then show ?case by simp
next
  case (Cons r s)
  have np: "alloc_from_region au r n align \<noteq> Panic"
    by (rule alloc_from_region_ok(1) [OF assms(1) _ assms(3,4), of lo]) (use Cons.prems in simp)
  show ?case
  proof (cases "alloc_from_region au r n align")
    case (Ok a)
    then have "r # s = [] @ r # s \<and> find_region au (r # s) n align = (Ok (Some (r, a)), [] @ s)" by simp
    with Ok show ?thesis by blast
  next
    case (Err e)
    from Cons.IH Cons.prems consider "find_region au s n align = (Ok None, s)"
      | xs r' ys a where "s = xs @ r' # ys" "find_region au s n align = (Ok (Some (r', a)), xs @ ys)"
          "alloc_from_region au r' n align = Ok a"
      by auto
    then show ?thesis
    proof cases
      case 1
      with Err show ?thesis by simp
    next
      case 2
      with Err have "r # s = (r # xs) @ r' # ys \<and> find_region au (r # s) n align = (Ok (Some (r', a)), (r # xs) @ ys)"
        by simp
      with 2(3) show ?thesis by blast
    qed
  qed (use np in simp)
qed

lemma add_free_region_ok:
  assumes "align_up_spec au" "8 dvd addr" "16 \<le> n" "addr < 2 ^ 64"
  shows "add_free_region au s addr n = (Ok (), \<lparr>node_addr = addr, node_size = n\<rparr> # s)"
proof -
  have "round_up addr 8 = addr"
    using round_up_least [of 8 addr addr] round_up_ge [of 8 addr] assms(2) by simp
  with assms show ?thesis by (simp add: add_free_region_def align_up_spec_def power_of_two_8)
qed

text \<open>Carving an aligned block, and the rest behind it, out of a free region.\<close>

lemma separate_carve:
  assumes "separate (xs @ (A, N) # ys)" "A \<le> a" "a + n \<le> A + N"
  shows "separate ((a, n) # xs @ ys)" "separate ((a + n, A + N - (a + n)) # (a, n) # xs @ ys)"
proof -
  have s: "separate ((A, N) # xs @ ys)" using assms(1) by (simp add: separate_mid)
  then have "apart (a, n) q" "apart (a + n, A + N - (a + n)) q" if "q \<in> set (xs @ ys)" for q
    using that assms(2,3) apart_sub [of "(A, N)" q] by (auto simp: separate_Cons)
  then show "separate ((a, n) # xs @ ys)" "separate ((a + n, A + N - (a + n)) # (a, n) # xs @ ys)"
    using s by (simp_all add: separate_Cons) (simp add: apart_def)
qed

lemma ll_alloc_keeps:
  assumes au: "align_up_spec au" and inv: "ll_inv lo hi s live" and adm: "ll_admissible l"
  shows "\<exists>a s'. ll_alloc au s l = (Ok a, s') \<and> ll_inv lo hi s' (if a = 0 then live else (a, l) # live)"
proof -
  let ?al = "max (lay_align l) 8" and ?n = "ll_size l"
  have pal: "power_of_two ?al" using adm by (intro max_align_8) (simp add: ll_admissible_def)
  have hi: "hi \<le> 2 ^ 63" "\<forall>r \<in> set s. ll_free_ok lo hi r" "0 < lo" using inv by (auto simp: ll_inv_def)
  note sa = size_align_value [OF adm]
  consider "find_region au s ?n ?al = (Ok None, s)"
    | xs r ys a where "s = xs @ r # ys" "find_region au s ?n ?al = (Ok (Some (r, a)), xs @ ys)"
        "alloc_from_region au r ?n ?al = Ok a"
    using find_region_cases [OF au hi(2,1) pal] by blast
  then show ?thesis
  proof cases
    case 1
    with inv show ?thesis by (simp add: ll_alloc_def sa)
  next
    case 2
    have fr: "ll_free_ok lo hi r" using hi(2) 2(1) by simp
    let ?A = "node_addr r" and ?N = "node_size r"
    have a: "a = round_up ?A ?al" "a + ?n \<le> ?A + ?N" "a + ?n = ?A + ?N \<or> a + ?n + 16 \<le> ?A + ?N"
      using alloc_from_region_ok(2) [OF au fr hi(1) pal 2(3)] by auto
    have ge: "?A \<le> a" using a(1) round_up_ge pal by (simp add: power_of_two_pos)
    have bd: "?A + ?N \<le> hi" "lo \<le> ?A" using fr by (auto simp: ll_free_ok_def)
    have al: "?al dvd a" using a(1) round_up_dvd by simp
    have al8: "8 dvd a + ?n"
      using dvd_trans [OF max_align_8(3) al] ll_size_props(2) [OF adm] adm by (simp add: ll_admissible_def)
    have e: "end_addr r = ?A + ?N" using bd hi(1) by (simp add: end_addr_def uadd_def)
    have ex: "usub (end_addr r) (a + ?n) = ?A + ?N - (a + ?n)"
      unfolding e by (rule usub_exact) (use a(2) bd hi(1) in simp_all)
    have ca: "uchecked_add a ?n = Some (a + ?n)" using a(2) bd hi(1) by (simp add: uchecked_add_def)
    have sep: "separate (map ll_region xs @ (?A, ?N) # (map ll_region ys @ map ll_block live))"
      using inv 2(1) by (simp add: ll_inv_def ll_region_def)
    note carve = separate_carve [OF sep ge a(2)]
    let ?rest = "\<lparr>node_addr = a + ?n, node_size = ?A + ?N - (a + ?n)\<rparr>"
    define s' where "s' = (if a + ?n = ?A + ?N then xs @ ys else ?rest # xs @ ys)"
    have alloc: "ll_alloc au s l = (Ok a, s')"
      using add_free_region_ok [OF au al8, of "?A + ?N - (a + ?n)" "xs @ ys"] a(2,3) bd hi(1)
      by (auto simp: ll_alloc_def sa 2(2) ca ex s'_def)
    have "separate (map ll_region s' @ map ll_block ((a, l) # live))"
    proof (cases "a + ?n = ?A + ?N")
      case True
      then show ?thesis by (intro separate_mset [OF _ carve(1)]) (simp add: s'_def ll_block_def)
    next
      case False
      then show ?thesis by (intro separate_mset [OF _ carve(2)]) (simp add: s'_def ll_block_def ll_region_def)
    qed
    moreover have "\<forall>q \<in> set s'. ll_free_ok lo hi q"
      using hi(2) 2(1) a(2,3) ge bd al8 by (auto simp: s'_def ll_free_ok_def)
    moreover have "ll_live_ok lo hi (a, l)" using adm al ge bd a(2) by (simp add: ll_live_ok_def)
    ultimately have "ll_inv lo hi s' ((a, l) # live)" using inv by (simp add: ll_inv_def)
    moreover have "a \<noteq> 0" using ge bd(2) hi(3) by simp
    ultimately show ?thesis using alloc by auto
  qed
qed

lemma ll_dealloc_keeps:
  assumes au: "align_up_spec au" and inv: "ll_inv lo hi s live" and m: "mset live = mset ((a, l) # rest)"
  shows "\<exists>s'. ll_dealloc au s a l = (Ok (), s') \<and> ll_inv lo hi s' rest"
proof -
  have sub: "set live = insert (a, l) (set rest)" using mset_eq_setD [OF m] by simp
  then have b: "ll_live_ok lo hi (a, l)" using inv by (simp add: ll_inv_def)
  then have adm: "ll_admissible l" and bd: "lo \<le> a" "a + ll_size l \<le> hi" "max (lay_align l) 8 dvd a"
    by (auto simp: ll_live_ok_def)
  have a8: "8 dvd a" using dvd_trans [OF max_align_8(3) bd(3)] adm by (simp add: ll_admissible_def)
  have hi: "hi \<le> 2 ^ 63" using inv by (simp add: ll_inv_def)
  let ?s = "\<lparr>node_addr = a, node_size = ll_size l\<rparr> # s"
  have "ll_dealloc au s a l = (Ok (), ?s)"
    using add_free_region_ok [OF au a8, of "ll_size l" s] ll_size_props(3) [OF adm] bd hi
    by (simp add: ll_dealloc_def size_align_value [OF adm])
  moreover have "separate (map ll_region ?s @ map ll_block rest)"
    by (rule separate_mset [of "map ll_region s @ map ll_block live"])
      (use inv m in \<open>simp_all add: ll_inv_def ll_region_def ll_block_def\<close>)
  ultimately show ?thesis
    using inv sub bd a8 ll_size_props(3) [OF adm] by (auto simp: ll_inv_def ll_free_ok_def)
qed

lemma ll_blocks:
  assumes "ll_inv lo hi s live"
  shows "separate (map span live) \<and> (\<forall>b \<in> set live. placed lo hi b \<and> fst b \<noteq> 0)"
proof -
  have ok: "ll_live_ok lo hi b" "0 < lo" if "b \<in> set live" for b using assms that by (auto simp: ll_inv_def)
  have "separate (map ll_block live)" using assms by (simp add: ll_inv_def separate_def sorted_wrt_append)
  then have "separate (map span live)"
    by (rule separate_shrink)
      (use ok ll_size_props(1) in \<open>auto simp: list_all2_conv_all_nth ll_block_def span_def ll_live_ok_def\<close>)
  moreover have "placed lo hi b \<and> fst b \<noteq> 0" if "b \<in> set live" for b
    using ok [OF that] ll_size_props(1) [of "snd b"] max_align_8(2) [of "lay_align (snd b)"]
    by (auto simp: ll_live_ok_def placed_def ll_admissible_def elim: dvd_trans)
  ultimately show ?thesis by blast
qed

lemma ll_allocator:
  "align_up_spec au \<Longrightarrow> allocator (ll_alloc au) (ll_dealloc au) ll_admissible (ll_inv lo hi) lo hi"
  by unfold_locales (rule ll_blocks ll_alloc_keeps ll_dealloc_keeps; assumption)+

interpretation ll: allocator "ll_alloc (\<lambda>addr align. Some (align_up addr align))"
  "ll_dealloc (\<lambda>addr align. Some (align_up addr align))" ll_admissible "ll_inv lo hi" lo hi for lo hi
  by (rule ll_allocator [OF align_up_spec_own])

section \<open>The fixed-size block allocator\<close>

text \<open>
  Relative to a fallback heap that meets the contract and accepts a layout of every block size. The
  fallback owns every block ever handed out: the live ones, with their block layout where they have one,
  and those in the free lists.
\<close>

definition block_layout :: "nat \<Rightarrow> Layout" where
  "block_layout i = \<lparr>lay_size = BLOCK_SIZES ! i, lay_align = BLOCK_SIZES ! i\<rparr>"

definition null_on_err :: "('h \<Rightarrow> Layout \<Rightarrow> (usize, unit) result \<times> 'h) \<Rightarrow> 'h \<Rightarrow> Layout \<Rightarrow> (usize, unit) result \<times> 'h" where
  "null_on_err fa h l = (case fa h l of (Err _, h') \<Rightarrow> (Ok 0, h') | (r, h') \<Rightarrow> (r, h'))"

definition owned :: "block \<Rightarrow> block" where
  "owned b = (fst b, case list_index (snd b) of Some i \<Rightarrow> block_layout i | None \<Rightarrow> snd b)"

fun free_blocks :: "nat \<Rightarrow> usize list list \<Rightarrow> block list" where
  "free_blocks n [] = []"
| "free_blocks n (as # hs) = map (\<lambda>a. (a, block_layout n)) as @ free_blocks (Suc n) hs"

definition fsb_admissible :: "(Layout \<Rightarrow> bool) \<Rightarrow> Layout \<Rightarrow> bool" where
  "fsb_admissible adm l \<longleftrightarrow> 0 < lay_size l \<and> power_of_two (lay_align l) \<and> (list_index l = None \<longrightarrow> adm l)"

definition fsb_inv :: "(Layout \<Rightarrow> bool) \<Rightarrow> ('h \<Rightarrow> block list \<Rightarrow> bool) \<Rightarrow> 'h FixedSizeBlockAllocator \<Rightarrow> block list \<Rightarrow> bool" where
  "fsb_inv adm finv s live \<longleftrightarrow> length (list_heads s) = length BLOCK_SIZES
     \<and> (\<forall>b \<in> set live. fsb_admissible adm (snd b))
     \<and> (\<exists>fl. finv (fallback_allocator s) fl \<and> mset fl = mset (map owned live @ free_blocks 0 (list_heads s)))"

lemma position_Some: "position P xs = Some i \<Longrightarrow> i < length xs \<and> P (xs ! i)"
  by (induction xs arbitrary: i) (auto split: if_splits)

lemma block_sizes_props:
  "i < length BLOCK_SIZES \<Longrightarrow> power_of_two (BLOCK_SIZES ! i) \<and> 8 \<le> BLOCK_SIZES ! i \<and> BLOCK_SIZES ! i \<le> 2048"
proof -
  assume "i < length BLOCK_SIZES"
  then have i: "i < 9" by (simp add: BLOCK_SIZES_def)
  have "BLOCK_SIZES ! i = 2 ^ (3 + i)"
    using i by (auto simp: BLOCK_SIZES_def less_Suc_eq eval_nat_numeral)
  moreover have "(2 :: nat) ^ (3 + i) \<le> 2 ^ 11" using i by (intro power_increasing) auto
  moreover have "(2 :: nat) ^ 3 \<le> 2 ^ (3 + i)" by (intro power_increasing) auto
  ultimately show ?thesis using i unfolding power_of_two_def by (auto intro!: exI [of _ "3 + i"])
qed

lemma list_index_Some:
  assumes "list_index l = Some i"
  shows "i < length BLOCK_SIZES" "lay_size l \<le> BLOCK_SIZES ! i" "lay_align l \<le> BLOCK_SIZES ! i"
  using position_Some [OF assms [unfolded list_index_def]] by auto

lemma layout_block: "i < length BLOCK_SIZES \<Longrightarrow>
    layout_from_size_align (BLOCK_SIZES ! i) (BLOCK_SIZES ! i) = Some (block_layout i)"
proof -
  assume "i < length BLOCK_SIZES"
  then have b: "power_of_two (BLOCK_SIZES ! i)" "BLOCK_SIZES ! i \<le> 2048" using block_sizes_props by blast+
  have "round_up (BLOCK_SIZES ! i) (BLOCK_SIZES ! i) \<le> 2048"
    using b round_up_least [OF power_of_two_pos [OF b(1)] dvd_refl, of "BLOCK_SIZES ! i"] by simp
  with b show ?thesis by (simp add: layout_from_size_align_def block_layout_def)
qed

lemma free_blocks_push:
  "i < length hs \<Longrightarrow> mset (free_blocks n (hs[i := a # hs ! i])) = add_mset (a, block_layout (n + i)) (mset (free_blocks n hs))"
proof (induction hs arbitrary: i n)
  case Nil
  then show ?case by simp
next
  case (Cons h hs)
  then show ?case by (cases i) auto
qed

lemma free_blocks_pop:
  assumes "i < length hs" "hs ! i = a # rest"
  shows "mset (free_blocks n hs) = add_mset (a, block_layout (n + i)) (mset (free_blocks n (hs[i := rest])))"
proof -
  have "hs = (hs[i := rest])[i := a # (hs[i := rest]) ! i]" using assms list_update_id [of hs i] by simp
  then show ?thesis using free_blocks_push [of i "hs[i := rest]" n a] assms(1) by simp
qed

lemma fallback_alloc_null:
  "fallback_alloc fa s l = (case null_on_err fa (fallback_allocator s) l of (r, h) \<Rightarrow> (r, s\<lparr>fallback_allocator := h\<rparr>))"
  by (auto simp: fallback_alloc_def null_on_err_def split: prod.splits result.splits)

lemma owned_covers:
  assumes "fsb_admissible adm (snd b)"
  shows "lay_size (snd b) \<le> lay_size (snd (owned b))" "lay_align (snd b) dvd lay_align (snd (owned b))" "fst (owned b) = fst b"
proof -
  have p: "power_of_two (lay_align (snd b))" using assms by (simp add: fsb_admissible_def)
  show "lay_size (snd b) \<le> lay_size (snd (owned b))" "lay_align (snd b) dvd lay_align (snd (owned b))" "fst (owned b) = fst b"
    using list_index_Some [of "snd b"] power_of_two_dvd [OF p] block_sizes_props
    by (auto simp: owned_def block_layout_def split: option.split)
qed

locale fallback_heap = allocator "null_on_err fa" dealloc admissible inv lo hi
  for fa :: "'h \<Rightarrow> Layout \<Rightarrow> (usize, unit) result \<times> 'h"
    and dealloc :: "'h \<Rightarrow> usize \<Rightarrow> Layout \<Rightarrow> (unit, unit) result \<times> 'h"
    and admissible :: "Layout \<Rightarrow> bool"
    and inv :: "'h \<Rightarrow> block list \<Rightarrow> bool"
    and lo :: nat
    and hi :: nat +
  assumes block_layouts: "i < length BLOCK_SIZES \<Longrightarrow> admissible (block_layout i)"
begin

lemma fsb_blocks:
  assumes "fsb_inv admissible inv s live"
  shows "separate (map span live) \<and> (\<forall>b \<in> set live. placed lo hi b \<and> fst b \<noteq> 0)"
proof -
  obtain fl where fl: "inv (fallback_allocator s) fl" "mset fl = mset (map owned live @ free_blocks 0 (list_heads s))"
    using assms by (auto simp: fsb_inv_def)
  note c = owned_covers [of admissible]
  have adm: "fsb_admissible admissible (snd b)" if "b \<in> set live" for b using assms that by (auto simp: fsb_inv_def)
  have "mset (map span fl) = mset (map span (map owned live @ free_blocks 0 (list_heads s)))"
    using fl(2) by (metis mset_map)
  then have "separate (map span (map owned live @ free_blocks 0 (list_heads s)))"
    using blocks [OF fl(1)] separate_mset by blast
  then have "separate (map (span \<circ> owned) live)" by (simp add: separate_def sorted_wrt_append)
  then have "separate (map span live)"
    by (rule separate_shrink) (use adm c in \<open>auto simp: list_all2_conv_all_nth span_def\<close>)
  moreover have "placed lo hi b \<and> fst b \<noteq> 0" if b: "b \<in> set live" for b
  proof -
    have "owned b \<in> set fl" using mset_eq_setD [OF fl(2)] b by auto
    then have "placed lo hi (owned b)" "fst (owned b) \<noteq> 0" using blocks [OF fl(1)] by auto
    with c [OF adm [OF b]] adm [OF b] show ?thesis by (auto simp: placed_def fsb_admissible_def elim: dvd_trans)
  qed
  ultimately show ?thesis by blast
qed

lemma fsb_alloc_keeps:
  assumes inv: "fsb_inv admissible inv s live" and adm: "fsb_admissible admissible l"
  shows "\<exists>a s'. fsb_alloc fa s l = (Ok a, s') \<and> fsb_inv admissible inv s' (if a = 0 then live else (a, l) # live)"
proof -
  let ?h = "fallback_allocator s"
  obtain fl where fl: "inv ?h fl" "mset fl = mset (map owned live @ free_blocks 0 (list_heads s))"
    using assms by (auto simp: fsb_inv_def)
  have len: "length (list_heads s) = length BLOCK_SIZES" using inv by (simp add: fsb_inv_def)
  have fb: "\<exists>a s'. fallback_alloc fa s l' = (Ok a, s') \<and> fsb_inv admissible inv s' (if a = 0 then live else (a, l) # live)"
    if l': "admissible l'" "l' = snd (owned (0, l))" for l'
  proof -
    obtain a h' where a: "null_on_err fa ?h l' = (Ok a, h')" "inv h' (if a = 0 then fl else (a, l') # fl)"
      using alloc_ok [OF fl(1) l'(1)] by blast
    have "owned (a, l) = (a, l')" using l'(2) by (cases "list_index l") (simp_all add: owned_def)
    then have "fsb_inv admissible inv (s\<lparr>fallback_allocator := h'\<rparr>) (if a = 0 then live else (a, l) # live)"
      using inv adm fl(2) len a(2) unfolding fsb_inv_def
      by (intro conjI exI [of _ "if a = 0 then fl else (a, l') # fl"]) auto
    with a(1) show ?thesis by (simp add: fallback_alloc_null)
  qed
  show ?thesis
  proof (cases "list_index l")
    case None
    then have "fsb_alloc fa s l = fallback_alloc fa s l" "snd (owned (0, l)) = l"
      by (simp_all add: fsb_alloc_def owned_def)
    then show ?thesis using fb [of l] adm None by (simp add: fsb_admissible_def)
  next
    case (Some i)
    note i = list_index_Some(1) [OF Some]
    have o: "owned (a, l) = (a, block_layout i)" for a using Some by (simp add: owned_def)
    show ?thesis
    proof (cases "list_heads s ! i")
      case Nil
      then have "fsb_alloc fa s l = fallback_alloc fa s (block_layout i)"
        using Some layout_block [OF i] by (simp add: fsb_alloc_def)
      moreover have "block_layout i = snd (owned (0, l))" by (simp add: o)
      ultimately show ?thesis using fb [OF block_layouts [OF i]] by metis
    next
      case (Cons a rest)
      have m: "mset fl = mset (map owned ((a, l) # live) @ free_blocks 0 ((list_heads s)[i := rest]))"
        using fl(2) free_blocks_pop [of i "list_heads s" a rest 0] Cons i len o by simp
      then have "(a, block_layout i) \<in> set fl" using mset_eq_setD [OF m] o by simp
      then have "a \<noteq> 0" using blocks [OF fl(1)] by auto
      moreover have "fsb_alloc fa s l = (Ok a, s\<lparr>list_heads := (list_heads s)[i := rest]\<rparr>)"
        using Some Cons by (simp add: fsb_alloc_def)
      moreover have "fsb_inv admissible inv (s\<lparr>list_heads := (list_heads s)[i := rest]\<rparr>) ((a, l) # live)"
        using inv adm fl(1) m len unfolding fsb_inv_def by (intro conjI exI [of _ fl]) auto
      ultimately show ?thesis by simp
    qed
  qed
qed

lemma fsb_dealloc_keeps:
  assumes inv: "fsb_inv admissible inv s live" and live: "mset live = mset ((a, l) # rest)"
  shows "\<exists>s'. fsb_dealloc dealloc s a l = (Ok (), s') \<and> fsb_inv admissible inv s' rest"
proof -
  obtain fl where fl: "inv (fallback_allocator s) fl" "mset fl = mset (map owned live @ free_blocks 0 (list_heads s))"
    using assms by (auto simp: fsb_inv_def)
  have len: "length (list_heads s) = length BLOCK_SIZES" using inv by (simp add: fsb_inv_def)
  have sub: "set live = insert (a, l) (set rest)" using mset_eq_setD [OF live] by simp
  have m: "mset fl = mset (owned (a, l) # map owned rest @ free_blocks 0 (list_heads s))"
    using fl(2) live by (metis append_Cons list.simps(9) mset_append mset_map)
  show ?thesis
  proof (cases "list_index l")
    case None
    then have o: "owned (a, l) = (a, l)" by (simp add: owned_def)
    have "a \<noteq> 0" using fsb_blocks [OF inv] sub by auto
    moreover obtain h' where "dealloc (fallback_allocator s) a l = (Ok (), h')"
        "inv h' (map owned rest @ free_blocks 0 (list_heads s))"
      using dealloc_ok [OF fl(1) m [unfolded o]] by blast
    ultimately show ?thesis
      using None inv sub len by (auto simp: fsb_dealloc_def fsb_inv_def)
  next
    case (Some i)
    note i = list_index_Some(1) [OF Some]
    have "mset fl = mset (map owned rest @ free_blocks 0 ((list_heads s)[i := a # list_heads s ! i]))"
      using m free_blocks_push [of i "list_heads s" 0 a] i len Some by (simp add: owned_def)
    then show ?thesis
      using Some inv sub len fl(1) block_sizes_props [OF i] by (auto simp: fsb_dealloc_def fsb_inv_def)
  qed
qed

lemma fsb_allocator:
  "allocator (fsb_alloc fa) (fsb_dealloc dealloc) (fsb_admissible admissible) (fsb_inv admissible inv) lo hi"
  by (rule allocator.intro) (rule fsb_blocks fsb_alloc_keeps fsb_dealloc_keeps; assumption)+

end

sublocale fallback_heap \<subseteq> fsb: allocator "fsb_alloc fa" "fsb_dealloc dealloc" "fsb_admissible admissible"
  "fsb_inv admissible inv" lo hi
  by (rule fsb_allocator)

text \<open>
  The linked list allocator as a fallback: \<open>allocate_first_fit\<close> reports failure as an error value.
\<close>

definition first_fit :: "('h \<Rightarrow> Layout \<Rightarrow> (usize, unit) result \<times> 'h) \<Rightarrow> 'h \<Rightarrow> Layout \<Rightarrow> (usize, unit) result \<times> 'h" where
  "first_fit al h l = (case al h l of (Ok a, h') \<Rightarrow> (if a = 0 then Err () else Ok a, h') | (r, h') \<Rightarrow> (r, h'))"

lemma find_region_not_Err: "fst (find_region au s n align) \<noteq> Err e"
  by (induction s) (auto split: result.split prod.split)

lemma ll_alloc_not_Err: "fst (ll_alloc au s l) \<noteq> Err e"
  using find_region_not_Err [of au s _ _ e]
  by (auto simp: ll_alloc_def sbind_case size_align_def Let_def add_free_region_def split: result.split option.split)

lemma null_on_err_first_fit: "null_on_err (first_fit (ll_alloc au)) = ll_alloc au"
proof (rule ext, rule ext)
  fix h l
  show "null_on_err (first_fit (ll_alloc au)) h l = ll_alloc au h l"
    using ll_alloc_not_Err [of au h l]
    by (cases "ll_alloc au h l") (auto simp: null_on_err_def first_fit_def split: result.split)
qed

lemma block_layout_admissible: "i < length BLOCK_SIZES \<Longrightarrow> ll_admissible (block_layout i)"
proof -
  assume "i < length BLOCK_SIZES"
  then have b: "power_of_two (BLOCK_SIZES ! i)" "8 \<le> BLOCK_SIZES ! i" "BLOCK_SIZES ! i \<le> 2048"
    using block_sizes_props by blast+
  have "round_up (BLOCK_SIZES ! i) (BLOCK_SIZES ! i) \<le> 2048"
    using b round_up_least [OF power_of_two_pos [OF b(1)] dvd_refl, of "BLOCK_SIZES ! i"] by simp
  with b show ?thesis by (simp add: ll_admissible_def block_layout_def max_def)
qed

interpretation fsb_ll: fallback_heap "first_fit (ll_alloc (\<lambda>addr align. Some (align_up addr align)))"
  "ll_dealloc (\<lambda>addr align. Some (align_up addr align))" ll_admissible "ll_inv lo hi" lo hi for lo hi
  by (intro fallback_heap.intro fallback_heap_axioms.intro)
    (simp_all add: null_on_err_first_fit ll_allocator align_up_spec_own block_layout_admissible)

section \<open>Properties\<close>

text \<open>
  \<open>align_up\<close> returns the least multiple of the alignment that is not below the address, whenever that
  multiple is an address at all.
\<close>

theorem align_up_least:
  assumes "power_of_two align" "round_up addr align < 2 ^ 64"
  shows "addr \<le> align_up addr align \<and> align dvd align_up addr align
    \<and> (\<forall>m. addr \<le> m \<and> align dvd m \<longrightarrow> align_up addr align \<le> m)"
  unfolding align_up_value [OF assms]
  using round_up_ge round_up_dvd round_up_least power_of_two_pos [OF assms(1)] by blast

lemma power_of_two_numerals: "power_of_two 64" "power_of_two 4096" "power_of_two 1"
proof -
  have "\<exists>k < 64. (64 :: nat) = 2 ^ k" by (rule exI [of _ 6]) simp
  moreover have "\<exists>k < 64. (4096 :: nat) = 2 ^ k" by (rule exI [of _ 12]) simp
  moreover have "\<exists>k < 64. (1 :: nat) = 2 ^ k" by (rule exI [of _ 0]) simp
  ultimately show "power_of_two 64" "power_of_two 4096" "power_of_two 1" by (simp_all only: power_of_two_def)
qed

lemma power_of_two_1: "power_of_two (Suc 0)"
  using power_of_two_numerals(3) by simp

theorem align_up_least_witness:
  "4097 \<le> align_up 4097 4096 \<and> 4096 dvd align_up 4097 4096 \<and> align_up 4097 4096 \<le> 8192"
  using align_up_least [of 4096 4097] by (simp add: power_of_two_numerals round_up_def)

text \<open>
  C15: on a heap set up by \<open>init\<close>, the linked list allocator serves every sequence of allocations and
  frees without panicking, and the blocks that are live at its end are aligned, inside the heap and
  pairwise disjoint.
\<close>

theorem linked_list_heap_safe:
  assumes "align_up_spec au" "0 < start" "start + n \<le> 2 ^ 63" "8 dvd start" "16 \<le> n"
    and "\<And>l. Alloc l \<in> set rs \<Longrightarrow> ll_admissible l"
  shows "\<exists>s live s'. ll_init au start n = (Ok (), s) \<and> heap_run (ll_alloc au) (ll_dealloc au) s [] rs = (Ok live, s')
    \<and> separate (map span live) \<and> (\<forall>b \<in> set live. placed start (start + n) b)"
proof -
  let ?s = "[\<lparr>node_addr = start, node_size = n\<rparr>]"
  have "ll_init au start n = (Ok (), ?s)"
    unfolding ll_init_def by (rule add_free_region_ok) (use assms in simp_all)
  moreover have "ll_inv start (start + n) ?s []"
    using assms by (simp add: ll_inv_def ll_free_ok_def separate_Cons separate_Nil)
  ultimately show ?thesis
    using allocator.run_safe [OF ll_allocator [OF assms(1)], of start "start + n" ?s rs] assms(6) by blast
qed

theorem linked_list_heap_safe_witness:
  "\<exists>s live s'. ll_init (\<lambda>a b. Some (align_up a b)) 0x2000000 0x1000000 = (Ok (), s)
    \<and> heap_run (ll_alloc (\<lambda>a b. Some (align_up a b))) (ll_dealloc (\<lambda>a b. Some (align_up a b))) s []
        [Alloc \<lparr>lay_size = 24, lay_align = 8\<rparr>, Alloc \<lparr>lay_size = 100, lay_align = 64\<rparr>, Free 1] = (Ok live, s')
    \<and> separate (map span live)"
proof -
  have "ll_admissible \<lparr>lay_size = 24, lay_align = 8\<rparr>" "ll_admissible \<lparr>lay_size = 100, lay_align = 64\<rparr>"
    by (simp_all add: ll_admissible_def power_of_two_numerals power_of_two_8 round_up_def)
  then show ?thesis
    using linked_list_heap_safe [OF align_up_spec_own, where start = "0x2000000" and n = "0x1000000" and rs =
        "[Alloc \<lparr>lay_size = 24, lay_align = 8\<rparr>, Alloc \<lparr>lay_size = 100, lay_align = 64\<rparr>, Free 1]"]
    by auto
qed

text \<open>
  C14: the global allocator inherits safety from its fallback heap: whatever meets the contract of a heap
  as the fallback, every sequence of requests runs without panicking and leaves live blocks that are
  aligned, inside the heap and pairwise disjoint, although freed blocks are kept in the size lists.
\<close>

theorem fixed_size_block_heap_safe:
  assumes "fallback_heap fa fd adm finv lo hi" "finv h []"
    and "\<And>l. Alloc l \<in> set rs \<Longrightarrow> fsb_admissible adm l"
  shows "\<exists>live s'. heap_run (fsb_alloc fa) (fsb_dealloc fd) (fsb_new h) [] rs = (Ok live, s')
    \<and> separate (map span live) \<and> (\<forall>b \<in> set live. placed lo hi b)"
proof -
  have "free_blocks m (replicate k []) = []" for m k by (induction k arbitrary: m) auto
  then have "fsb_inv adm finv (fsb_new h) []" using assms(2) by (auto simp: fsb_inv_def fsb_new_def)
  then show ?thesis
    using allocator.run_safe [OF fallback_heap.fsb_allocator [OF assms(1)]] assms(3) by blast
qed

theorem fixed_size_block_heap_safe_witness:
  "\<exists>live s'. heap_run (fsb_alloc (first_fit (ll_alloc (\<lambda>a b. Some (align_up a b)))))
        (fsb_dealloc (ll_dealloc (\<lambda>a b. Some (align_up a b))))
        (fsb_new [\<lparr>node_addr = 0x2000000, node_size = 0x1000000\<rparr>]) []
        [Alloc \<lparr>lay_size = 24, lay_align = 8\<rparr>, Free 0, Alloc \<lparr>lay_size = 30, lay_align = 1\<rparr>,
         Alloc \<lparr>lay_size = 4096, lay_align = 4096\<rparr>] = (Ok live, s')
    \<and> separate (map span live)"
proof -
  have "ll_inv 0x2000000 0x3000000 [\<lparr>node_addr = 0x2000000, node_size = 0x1000000\<rparr>] []"
    by (simp add: ll_inv_def ll_free_ok_def separate_Cons separate_Nil)
  moreover have "fsb_admissible ll_admissible \<lparr>lay_size = 24, lay_align = 8\<rparr>"
    "fsb_admissible ll_admissible \<lparr>lay_size = 30, lay_align = 1\<rparr>"
    "fsb_admissible ll_admissible \<lparr>lay_size = 4096, lay_align = 4096\<rparr>"
    by (simp_all add: fsb_admissible_def ll_admissible_def power_of_two_numerals power_of_two_8 round_up_def
        list_index_def BLOCK_SIZES_def power_of_two_1)
  ultimately show ?thesis
    using fixed_size_block_heap_safe [OF fsb_ll.fallback_heap_axioms [of "0x2000000" "0x3000000"], where h = "[\<lparr>node_addr = 0x2000000, node_size = 0x1000000\<rparr>]"
        and rs = "[Alloc \<lparr>lay_size = 24, lay_align = 8\<rparr>, Free 0, Alloc \<lparr>lay_size = 30, lay_align = 1\<rparr>,
         Alloc \<lparr>lay_size = 4096, lay_align = 4096\<rparr>]"]
    by auto
qed

text \<open>
  The linked list allocator panics on a layout Rust allows: for \<open>isize::MAX\<close> bytes of alignment 1 the
  alignment cannot be raised, and \<open>alloc\<close> fails an \<open>expect\<close> where it should return a null pointer.
\<close>

theorem linked_list_alloc_panics:
  "layout_from_size_align (2 ^ 63 - 1) 1 = Some \<lparr>lay_size = 2 ^ 63 - 1, lay_align = 1\<rparr>
   \<and> ll_alloc au s \<lparr>lay_size = 2 ^ 63 - 1, lay_align = 1\<rparr> = (Panic, s)"
  using power_of_two_1
  by (simp add: layout_from_size_align_def ll_alloc_def size_align_def layout_align_to_def round_up_def)

end
