(* ===== verification/Frames.thy ===== *)
theory Frames
  imports Hal BTreeMap HeapSafety
begin

text \<open>
  Physical memory (\<^verbatim>\<open>src/kernel/src/memory/mod.rs\<close>, \<^verbatim>\<open>dma_alloc.rs\<close>, \<open>init_heap\<close> of \<^verbatim>\<open>alloc.rs\<close>): the memory map
  of the boot loader, the frame allocator over it, the page table walk, the mapping of the heap and the
  DMA allocator. The types of the crate \<open>x86_64\<close> appear as parameters: \<open>pf\<close> is
  \<open>PhysFrame::containing_address(PhysAddr::new(a))\<close> (a panic for an address of more than 52 bits),
  \<open>entry\<close> reads the entry of a page table, \<open>map_to\<close> is \<open>Mapper::map_to\<close>.
\<close>

section \<open>The memory map\<close>

datatype MemoryRegionKind =
    RkUnknown | Usable | Reserved | AcpiReclaimable | AcpiNvs | BadMemory | Bootloader | FrameBuffer

record MemoryRegion =
  mr_start :: u64
  mr_end :: u64
  mr_kind :: MemoryRegionKind

definition region_kind :: "nat \<Rightarrow> MemoryRegionKind" where
  "region_kind t =
     (if t = 1 then Usable else if t = 2 then Reserved else if t = 3 then AcpiReclaimable
      else if t = 4 then AcpiNvs else if t = 5 then BadMemory else RkUnknown)"

text \<open>\<open>read_unaligned\<close> of \<open>n\<close> bytes of memory.\<close>

definition mem_read :: "(u64 \<Rightarrow> u8) \<Rightarrow> nat \<Rightarrow> u64 \<Rightarrow> nat" where
  "mem_read mem n a = le_val (map (\<lambda>i. mem (a + of_nat i)) [0..<n])"

record BootInfoFrameAllocator =
  memory_map :: "MemoryRegion list"
  fa_next :: nat

definition frames_init :: "MemoryRegion list \<Rightarrow> BootInfoFrameAllocator" where
  "frames_init rs = \<lparr>memory_map = rs, fa_next = 0\<rparr>"

text \<open>The loop of \<open>init_from_raw\<close> over the remaining indices, with the number of regions stored so far.\<close>

fun collect_regions :: "(u64 \<Rightarrow> u8) \<Rightarrow> u64 \<Rightarrow> nat list \<Rightarrow> nat \<Rightarrow> MemoryRegion list" where
  "collect_regions mem ptr [] cnt = []"
| "collect_regions mem ptr (i # is) cnt =
     (let base = of_nat (mem_read mem 8 (ptr + of_nat i * 24));
          len = of_nat (mem_read mem 8 (ptr + of_nat i * 24 + 8));
          entry_type = mem_read mem 4 (ptr + of_nat i * 24 + 16)
      in if 256 \<le> cnt then []
         else if len = 0 then collect_regions mem ptr is cnt
         else \<lparr>mr_start = base, mr_end = base + len, mr_kind = region_kind entry_type\<rparr>
                # collect_regions mem ptr is (Suc cnt))"

definition init_from_raw :: "(u64 \<Rightarrow> u8) \<Rightarrow> u64 \<Rightarrow> u64 \<Rightarrow> BootInfoFrameAllocator" where
  "init_from_raw mem ptr len = \<lparr>memory_map = collect_regions mem ptr [0..<unat len] 0, fa_next = 0\<rparr>"

section \<open>Frames\<close>

definition ALLOC_START :: u64 where
  "ALLOC_START = 0x2000000"

definition region_pages :: "MemoryRegion \<Rightarrow> nat list" where
  "region_pages r =
     (let start = unat (max (mr_start r) ALLOC_START); stop = unat (mr_end r)
      in if stop \<le> start then []
         else map (\<lambda>k. start + 4096 * k) [0..<(stop - start + 4095) div 4096])"

definition usable_addresses :: "MemoryRegion list \<Rightarrow> nat list" where
  "usable_addresses rs = concat (map region_pages (filter (\<lambda>r. mr_kind r = Usable) rs))"

text \<open>\<open>nth\<close> on the lazy iterator: the addresses before the wanted one are turned into frames too.\<close>

fun frame_nth :: "(nat \<Rightarrow> (nat, unit) result) \<Rightarrow> nat list \<Rightarrow> nat \<Rightarrow> (nat option, unit) result" where
  "frame_nth pf [] n = Ok None"
| "frame_nth pf (a # as) n = rbind (pf a) (\<lambda>f. if n = 0 then Ok (Some f) else frame_nth pf as (n - 1))"

definition allocate_frame ::
    "(nat \<Rightarrow> (nat, unit) result) \<Rightarrow> BootInfoFrameAllocator \<Rightarrow> (nat option, unit) result \<times> BootInfoFrameAllocator" where
  "allocate_frame pf fa =
     (case frame_nth pf (usable_addresses (memory_map fa)) (fa_next fa) of
        Panic \<Rightarrow> (Panic, fa)
      | r \<Rightarrow> (r, fa\<lparr>fa_next := fa_next fa + 1\<rparr>))"

definition empty_allocate_frame :: "unit \<Rightarrow> (nat option, unit) result \<times> unit" where
  "empty_allocate_frame s = (Ok None, s)"

section \<open>Page tables\<close>

datatype FrameError = FrameNotPresent | HugeFrame

fun walk_tables :: "(nat \<Rightarrow> nat \<Rightarrow> nat + FrameError) \<Rightarrow> nat \<Rightarrow> nat list \<Rightarrow> (nat option, unit) result" where
  "walk_tables entry frame [] = Ok (Some frame)"
| "walk_tables entry frame (i # is) =
     (case entry frame i of
        Inl f \<Rightarrow> walk_tables entry f is
      | Inr FrameNotPresent \<Rightarrow> Ok None
      | Inr HugeFrame \<Rightarrow> Panic)"

text \<open>
  \<open>idx\<close> gives the four table indices of an address and \<open>poff\<close> its page offset; \<open>cr3\<close> is the frame of the
  level 4 table.
\<close>

definition translate_addr ::
    "(nat \<Rightarrow> nat \<Rightarrow> nat + FrameError) \<Rightarrow> (u64 \<Rightarrow> nat \<times> nat \<times> nat \<times> nat) \<Rightarrow> (u64 \<Rightarrow> nat) \<Rightarrow> nat \<Rightarrow> u64
     \<Rightarrow> (nat option, unit) result" where
  "translate_addr entry idx poff cr3 addr =
     (case idx addr of (p4, p3, p2, p1) \<Rightarrow>
       rbind (walk_tables entry cr3 [p4, p3, p2, p1]) (\<lambda>f. Ok (map_option (\<lambda>f. f + poff addr) f)))"

section \<open>Mapping the heap\<close>

datatype MapToError = FrameAllocationFailed | MapFailed

definition HEAP_START :: usize where
  "HEAP_START = 0x2000000"

definition HEAP_SIZE :: usize where
  "HEAP_SIZE = 16 * 1024 * 1024"

text \<open>
  \<open>Page::range_inclusive\<close> from the page of the first heap byte to the page of the last. \<open>map_to\<close> gets the
  mapper, the page, the frame and the frame allocator, from which it may take frames for page tables.
\<close>

definition heap_pages :: "nat list" where
  "heap_pages = map (\<lambda>k. HEAP_START + 4096 * k) [0..<HEAP_SIZE div 4096]"

fun map_pages ::
    "(nat \<Rightarrow> (nat, unit) result)
     \<Rightarrow> ('m \<Rightarrow> nat \<Rightarrow> nat \<Rightarrow> BootInfoFrameAllocator \<Rightarrow> (unit, MapToError) result \<times> 'm \<times> BootInfoFrameAllocator)
     \<Rightarrow> nat list \<Rightarrow> 'm \<times> BootInfoFrameAllocator \<Rightarrow> (unit, MapToError) result \<times> 'm \<times> BootInfoFrameAllocator" where
  "map_pages pf map_to [] s = (Ok (), s)"
| "map_pages pf map_to (page # pages) (m, fa) =
     (case allocate_frame pf fa of
        (Ok (Some frame), fa) \<Rightarrow> sbind (map_to m page frame fa) (\<lambda>_ s. map_pages pf map_to pages s)
      | (Ok None, fa) \<Rightarrow> (Err FrameAllocationFailed, m, fa)
      | (Err _, fa) \<Rightarrow> (Panic, m, fa)
      | (Panic, fa) \<Rightarrow> (Panic, m, fa))"

definition init_heap ::
    "(nat \<Rightarrow> (nat, unit) result)
     \<Rightarrow> ('m \<Rightarrow> nat \<Rightarrow> nat \<Rightarrow> BootInfoFrameAllocator \<Rightarrow> (unit, MapToError) result \<times> 'm \<times> BootInfoFrameAllocator)
     \<Rightarrow> ('h \<Rightarrow> usize \<Rightarrow> usize \<Rightarrow> 'h) \<Rightarrow> 'm \<Rightarrow> BootInfoFrameAllocator \<Rightarrow> 'h FixedSizeBlockAllocator
     \<Rightarrow> ('h FixedSizeBlockAllocator, MapToError) result \<times> 'm \<times> BootInfoFrameAllocator" where
  "init_heap pf map_to fi m fa heap =
     sbind (map_pages pf map_to heap_pages (m, fa)) (\<lambda>_ s. (Ok (fsb_init fi heap HEAP_START HEAP_SIZE), s))"

section \<open>DMA buffers\<close>

text \<open>The state behind the statics \<open>FRAME_ALLOC\<close> and \<open>ALLOC_TRACKER\<close>.\<close>

record DmaState =
  frame_alloc :: "BootInfoFrameAllocator option"
  alloc_tracker :: "(nat \<times> nat) list"

definition init_frame_allocator :: "BootInfoFrameAllocator \<Rightarrow> DmaState \<Rightarrow> DmaState" where
  "init_frame_allocator fa s = s\<lparr>frame_alloc := Some fa\<rparr>"

fun take_frames ::
    "(nat \<Rightarrow> (nat, unit) result) \<Rightarrow> nat \<Rightarrow> BootInfoFrameAllocator
     \<Rightarrow> (nat list option, unit) result \<times> BootInfoFrameAllocator" where
  "take_frames pf 0 fa = (Ok (Some []), fa)"
| "take_frames pf (Suc n) fa =
     (case allocate_frame pf fa of
        (Ok (Some f), fa) \<Rightarrow>
          (case take_frames pf n fa of
             (Ok (Some fs), fa) \<Rightarrow> (Ok (Some (f # fs)), fa)
           | (r, fa) \<Rightarrow> (r, fa))
      | (Ok None, fa) \<Rightarrow> (Ok None, fa)
      | (Err e, fa) \<Rightarrow> (Err e, fa)
      | (Panic, fa) \<Rightarrow> (Panic, fa))"

definition dma_alloc ::
    "(nat \<Rightarrow> (nat, unit) result) \<Rightarrow> u64 \<Rightarrow> DmaState \<Rightarrow> usize \<Rightarrow> usize \<Rightarrow> (DmaBuffer option, unit) result \<times> DmaState" where
  "dma_alloc pf phys_mem_offset s n align =
     (let pages = uadd n 4095 div 4096 in
      case frame_alloc s of
        None \<Rightarrow> (Ok None, s)
      | Some fa \<Rightarrow>
          (case take_frames pf pages fa of
             (Ok (Some frames), fa) \<Rightarrow>
               (let s = s\<lparr>frame_alloc := Some fa\<rparr> in
                case frames of
                  [] \<Rightarrow> (Panic, s)
                | base_phys # _ \<Rightarrow>
                    (Ok (Some \<lparr>dma_phys = of_nat base_phys, dma_virt = of_nat base_phys + phys_mem_offset,
                               dma_size = pages * 4096\<rparr>),
                     s\<lparr>alloc_tracker := bt_insert base_phys pages (alloc_tracker s)\<rparr>))
           | (Ok None, fa) \<Rightarrow> (Ok None, s\<lparr>frame_alloc := Some fa\<rparr>)
           | (Err _, fa) \<Rightarrow> (Panic, s\<lparr>frame_alloc := Some fa\<rparr>)
           | (Panic, fa) \<Rightarrow> (Panic, s\<lparr>frame_alloc := Some fa\<rparr>)))"

section \<open>Frames are never shared\<close>

text \<open>The documented behaviour of \<open>PhysAddr::new\<close> and \<open>PhysFrame::containing_address\<close>.\<close>

definition frame_spec :: "(nat \<Rightarrow> (nat, unit) result) \<Rightarrow> bool" where
  "frame_spec pf \<longleftrightarrow> (\<forall>a < 2 ^ 52. pf a = Ok (a div 4096 * 4096))"

definition regions_apart :: "MemoryRegion \<Rightarrow> MemoryRegion \<Rightarrow> bool" where
  "regions_apart r q \<longleftrightarrow> unat (mr_end r) \<le> unat (mr_start q) \<or> unat (mr_end q) \<le> unat (mr_start r)"

definition page_aligned_map :: "MemoryRegion list \<Rightarrow> bool" where
  "page_aligned_map rs \<longleftrightarrow>
     (\<forall>r \<in> set rs. mr_kind r = Usable \<longrightarrow>
        4096 dvd unat (mr_start r) \<and> 4096 dvd unat (mr_end r) \<and> unat (mr_end r) \<le> 2 ^ 52)
     \<and> sorted_wrt regions_apart (filter (\<lambda>r. mr_kind r = Usable) rs)"

definition in_usable :: "MemoryRegion list \<Rightarrow> nat \<Rightarrow> bool" where
  "in_usable rs f \<longleftrightarrow> 4096 dvd f \<and> 0x2000000 \<le> f
     \<and> (\<exists>r \<in> set rs. mr_kind r = Usable \<and> unat (mr_start r) \<le> f \<and> f + 4096 \<le> unat (mr_end r))"

lemma region_pages_mem:
  assumes "4096 dvd unat (mr_start r)" "4096 dvd unat (mr_end r)" "a \<in> set (region_pages r)"
  shows "4096 dvd a" "0x2000000 \<le> a" "unat (mr_start r) \<le> a" "a + 4096 \<le> unat (mr_end r)"
proof -
  let ?s = "unat (max (mr_start r) ALLOC_START)" and ?e = "unat (mr_end r)"
  obtain k where k: "k < (?e - ?s + 4095) div 4096" "a = ?s + 4096 * k" "?s < ?e"
    using assms(3) by (auto simp: region_pages_def Let_def split: if_splits)
  have s: "?s = max (unat (mr_start r)) 0x2000000"
    by (simp add: ALLOC_START_def max_def word_le_nat_alt)
  have d: "4096 dvd ?s" using assms(1) by (subst s) (simp add: max_def)
  then show "4096 dvd a" using k(2) by simp
  show "0x2000000 \<le> a" "unat (mr_start r) \<le> a" using k(2) s by simp_all
  obtain u v where "?s = 4096 * u" "?e = 4096 * v" using d assms(2) by blast
  moreover from this have "(?e - ?s + 4095) div 4096 = v - u" by (simp flip: diff_mult_distrib2)
  ultimately show "a + 4096 \<le> ?e" using k by auto
qed

lemma distinct_region_pages: "distinct (region_pages r)"
  by (auto simp: region_pages_def Let_def distinct_map inj_on_def)

lemma distinct_pages:
  assumes "sorted_wrt regions_apart us"
    and "\<And>r. r \<in> set us \<Longrightarrow> 4096 dvd unat (mr_start r) \<and> 4096 dvd unat (mr_end r)"
  shows "distinct (concat (map region_pages us))"
  using assms
proof (induction us)
  case Nil
  then show ?case by simp
next
  case (Cons r us)
  have "a \<notin> set (region_pages q)" if q: "q \<in> set us" and a: "a \<in> set (region_pages r)" for a q
  proof
    assume "a \<in> set (region_pages q)"
    moreover have "regions_apart r q" using Cons.prems(1) q by simp
    moreover have "4096 dvd unat (mr_start q) \<and> 4096 dvd unat (mr_end q)" "4096 dvd unat (mr_start r) \<and> 4096 dvd unat (mr_end r)"
      using Cons.prems(2) q by auto
    ultimately show False
      using region_pages_mem(3,4) [of r a] region_pages_mem(3,4) [of q a] a by (auto simp: regions_apart_def)
  qed
  then show ?case using Cons distinct_region_pages [of r] by auto
qed

lemma distinct_usable_addresses:
  assumes "page_aligned_map rs"
  shows "distinct (usable_addresses rs)"
proof -
  let ?us = "filter (\<lambda>r. mr_kind r = Usable) rs"
  have al: "4096 dvd unat (mr_start r) \<and> 4096 dvd unat (mr_end r)" if "r \<in> set ?us" for r
    using assms that by (auto simp: page_aligned_map_def)
  have "sorted_wrt regions_apart ?us" using assms by (simp add: page_aligned_map_def)
  then have "distinct (concat (map region_pages ?us))" using al
    by (rule distinct_pages)
  then show ?thesis by (simp add: usable_addresses_def)
qed

definition frame_list :: "MemoryRegion list \<Rightarrow> nat list" where
  "frame_list rs = map (\<lambda>a. a div 4096 * 4096) (usable_addresses rs)"

definition addressable :: "MemoryRegion list \<Rightarrow> bool" where
  "addressable rs \<longleftrightarrow> (\<forall>a \<in> set (usable_addresses rs). a < 2 ^ 52)"

lemma frame_nth_value:
  assumes "frame_spec pf" "\<forall>a \<in> set as. a < 2 ^ 52"
  shows "frame_nth pf as n = Ok (if n < length as then Some (as ! n div 4096 * 4096) else None)"
  using assms(2)
proof (induction as arbitrary: n)
  case Nil
  then show ?case by simp
next
  case (Cons a as)
  then have "pf a = Ok (a div 4096 * 4096)" using assms(1) by (simp add: frame_spec_def)
  with Cons show ?case by (cases n) auto
qed

lemma allocate_frame_value:
  assumes "frame_spec pf" "addressable (memory_map fa)"
  shows "allocate_frame pf fa =
    (Ok (if fa_next fa < length (frame_list (memory_map fa)) then Some (frame_list (memory_map fa) ! fa_next fa) else None),
     fa\<lparr>fa_next := fa_next fa + 1\<rparr>)"
  using assms by (simp add: allocate_frame_def frame_nth_value addressable_def frame_list_def)

lemma take_frames_value:
  assumes "frame_spec pf" "addressable (memory_map fa)"
  shows "take_frames pf n fa =
    (if fa_next fa + n \<le> length (frame_list (memory_map fa)) \<or> n = 0
     then (Ok (Some (take n (drop (fa_next fa) (frame_list (memory_map fa))))), fa\<lparr>fa_next := fa_next fa + n\<rparr>)
     else (Ok None, fa\<lparr>fa_next := max (fa_next fa) (length (frame_list (memory_map fa))) + 1\<rparr>))"
  using assms(2)
proof (induction n arbitrary: fa)
  case 0
  then show ?case by simp
next
  case (Suc n)
  let ?fl = "frame_list (memory_map fa)"
  have IH: "take_frames pf n (fa\<lparr>fa_next := fa_next fa + 1\<rparr>) =
    (if fa_next fa + 1 + n \<le> length ?fl \<or> n = 0
     then (Ok (Some (take n (drop (fa_next fa + 1) ?fl))), fa\<lparr>fa_next := fa_next fa + 1 + n\<rparr>)
     else (Ok None, fa\<lparr>fa_next := max (fa_next fa + 1) (length ?fl) + 1\<rparr>))"
    using Suc.IH [of "fa\<lparr>fa_next := fa_next fa + 1\<rparr>"] Suc.prems by simp
  show ?case
  proof (cases "fa_next fa < length ?fl")
    case True
    then have "drop (fa_next fa) ?fl = ?fl ! fa_next fa # drop (fa_next fa + 1) ?fl"
      by (metis Cons_nth_drop_Suc Suc_eq_plus1)
    with True IH show ?thesis
      by (simp add: allocate_frame_value [OF assms(1) Suc.prems])
  next
    case False
    then show ?thesis by (simp add: allocate_frame_value [OF assms(1) Suc.prems] max_def)
  qed
qed

lemma aligned_map_addressable:
  assumes "page_aligned_map rs"
  shows "addressable rs" "frame_list rs = usable_addresses rs" "\<forall>f \<in> set (usable_addresses rs). in_usable rs f"
proof -
  have u: "in_usable rs a \<and> a < 2 ^ 52" if a: "a \<in> set (usable_addresses rs)" for a
  proof -
    obtain r where r: "r \<in> set rs" "mr_kind r = Usable" "a \<in> set (region_pages r)"
      using a by (auto simp: usable_addresses_def)
    then have al: "4096 dvd unat (mr_start r)" "4096 dvd unat (mr_end r)" "unat (mr_end r) \<le> 2 ^ 52"
      using assms by (auto simp: page_aligned_map_def)
    show ?thesis using region_pages_mem [OF al(1,2) r(3)] r al(3) by (auto simp: in_usable_def)
  qed
  then show "addressable rs" "\<forall>f \<in> set (usable_addresses rs). in_usable rs f" by (auto simp: addressable_def)
  have "a div 4096 * 4096 = a" if "a \<in> set (usable_addresses rs)" for a
    using u [OF that] by (simp add: in_usable_def)
  then show "frame_list rs = usable_addresses rs" unfolding frame_list_def by (intro map_idI) blast
qed

text \<open>
  C16: on a memory map whose usable regions are page aligned and disjoint, two successive requests for
  frames get frames that are all different, at or above 32 MiB, page aligned and inside a usable region.
\<close>

theorem frames_never_shared:
  assumes "frame_spec pf" "page_aligned_map (memory_map fa)"
    and "take_frames pf n fa = (Ok (Some fs), fa1)" "take_frames pf m fa1 = (Ok (Some gs), fa2)"
  shows "distinct (fs @ gs) \<and> length fs = n \<and> length gs = m \<and> (\<forall>f \<in> set (fs @ gs). in_usable (memory_map fa) f)"
proof -
  let ?fl = "usable_addresses (memory_map fa)" and ?k = "fa_next fa"
  note al = aligned_map_addressable [OF assms(2)]
  have f: "fs = take n (drop ?k ?fl)" "memory_map fa1 = memory_map fa" "fa_next fa1 = ?k + n" "?k + n \<le> length ?fl \<or> n = 0"
    using assms(3) take_frames_value [OF assms(1) al(1), of n] al(2) by (auto split: if_splits)
  have g: "gs = take m (drop (?k + n) ?fl)" "?k + n + m \<le> length ?fl \<or> m = 0"
    using assms(4) take_frames_value [of pf fa1 m] assms(1) al(1,2) f(2,3) by (auto split: if_splits)
  have "fs @ gs = take (n + m) (drop ?k ?fl)" using f(1) g(1) by (simp add: take_add) (simp add: add.commute)
  moreover have "distinct ?fl" by (rule distinct_usable_addresses [OF assms(2)])
  ultimately have "distinct (fs @ gs)" "set (fs @ gs) \<subseteq> set ?fl"
    by (auto simp del: set_append dest!: in_set_takeD in_set_dropD)
  with al(3) f g show ?thesis by auto
qed

definition two_regions :: "MemoryRegion list" where
  "two_regions = [\<lparr>mr_start = 0, mr_end = 0x2002000, mr_kind = Usable\<rparr>,
     \<lparr>mr_start = 0x2002000, mr_end = 0x2004000, mr_kind = Reserved\<rparr>,
     \<lparr>mr_start = 0x2004000, mr_end = 0x2006000, mr_kind = Usable\<rparr>]"

lemma two_regions_frames: "usable_addresses two_regions = [0x2000000, 0x2001000, 0x2004000, 0x2005000]"
  by (simp add: two_regions_def usable_addresses_def region_pages_def ALLOC_START_def Let_def max_def upt_conv_Cons)

lemma two_regions_aligned: "page_aligned_map two_regions"
  by (simp add: page_aligned_map_def two_regions_def regions_apart_def)

definition page_of :: "nat \<Rightarrow> (nat, unit) result" where
  "page_of a = (if a < 2 ^ 52 then Ok (a div 4096 * 4096) else Panic)"

lemma frame_spec_page_of: "frame_spec page_of"
  by (simp add: frame_spec_def page_of_def)

theorem frames_never_shared_witness:
  "\<exists>fs fa1 gs fa2. take_frames page_of 3 (frames_init two_regions) = (Ok (Some fs), fa1)
     \<and> take_frames page_of 1 fa1 = (Ok (Some gs), fa2) \<and> distinct (fs @ gs) \<and> length fs = 3"
proof -
  have fl: "frame_list two_regions = [0x2000000, 0x2001000, 0x2004000, 0x2005000]"
    using aligned_map_addressable(2) [OF two_regions_aligned] two_regions_frames by simp
  note ad = aligned_map_addressable(1) [OF two_regions_aligned]
  let ?fa = "frames_init two_regions"
  have m: "memory_map ?fa = two_regions" "fa_next ?fa = 0" by (simp_all add: frames_init_def)
  have 1: "take_frames page_of 3 ?fa = (Ok (Some [0x2000000, 0x2001000, 0x2004000]), ?fa\<lparr>fa_next := 3\<rparr>)"
    using take_frames_value [OF frame_spec_page_of, of ?fa 3] ad fl by (simp add: m)
  have 2: "take_frames page_of 1 (?fa\<lparr>fa_next := 3\<rparr>) = (Ok (Some [0x2005000]), ?fa\<lparr>fa_next := 4\<rparr>)"
    using take_frames_value [OF frame_spec_page_of, of "?fa\<lparr>fa_next := 3\<rparr>" 1] ad fl by (simp add: m)
  show ?thesis
    using frames_never_shared [OF frame_spec_page_of _ 1 2] two_regions_aligned 1 2 unfolding m by blast
qed

text \<open>
  Without page alignment the same frame is handed out twice: when a usable region ends, and the next
  one begins, in the middle of a page, the page belongs to both.
\<close>

theorem unaligned_regions_share_a_frame:
  assumes "frame_spec pf"
  shows "\<exists>fa'. take_frames pf 3 (frames_init [\<lparr>mr_start = 0x2000000, mr_end = 0x2001800, mr_kind = Usable\<rparr>,
       \<lparr>mr_start = 0x2001800, mr_end = 0x2003000, mr_kind = Usable\<rparr>])
     = (Ok (Some [0x2000000, 0x2001000, 0x2001000]), fa')"
proof -
  let ?rs = "[\<lparr>mr_start = 0x2000000, mr_end = 0x2001800, mr_kind = Usable\<rparr>,
       \<lparr>mr_start = 0x2001800, mr_end = 0x2003000, mr_kind = Usable\<rparr>]"
  have us: "usable_addresses ?rs = [0x2000000, 0x2001000, 0x2001800, 0x2002800]"
    by (simp add: usable_addresses_def region_pages_def ALLOC_START_def Let_def max_def upt_conv_Cons)
  then have "addressable ?rs" "frame_list ?rs = [0x2000000, 0x2001000, 0x2001000, 0x2002000]"
    by (simp_all add: addressable_def frame_list_def)
  with take_frames_value [OF assms, of "frames_init ?rs" 3] show ?thesis by (simp add: frames_init_def)
qed

theorem unaligned_regions_share_a_frame_witness:
  "\<exists>fa'. take_frames page_of 3 (frames_init [\<lparr>mr_start = 0x2000000, mr_end = 0x2001800, mr_kind = Usable\<rparr>,
       \<lparr>mr_start = 0x2001800, mr_end = 0x2003000, mr_kind = Usable\<rparr>])
     = (Ok (Some [0x2000000, 0x2001000, 0x2001000]), fa')"
  by (rule unaligned_regions_share_a_frame [OF frame_spec_page_of])

section \<open>DMA buffers\<close>

lemma dma_alloc_value:
  assumes "frame_spec pf" "frame_alloc s = Some fa" "addressable (memory_map fa)"
    and "0 < n" "n + 4095 < 2 ^ 64" "fa_next fa + (n + 4095) div 4096 \<le> length (frame_list (memory_map fa))"
  shows "\<exists>s'. dma_alloc pf off s n al =
    (Ok (Some \<lparr>dma_phys = of_nat (frame_list (memory_map fa) ! fa_next fa),
               dma_virt = of_nat (frame_list (memory_map fa) ! fa_next fa) + off,
               dma_size = (n + 4095) div 4096 * 4096\<rparr>), s')"
proof -
  let ?p = "(n + 4095) div 4096" and ?fl = "frame_list (memory_map fa)"
  have p: "uadd n 4095 div 4096 = ?p" "0 < ?p" using assms(4,5) by (simp_all add: uadd_def)
  obtain q where q: "?p = Suc q" using p(2) gr0_implies_Suc by blast
  have "take ?p (drop (fa_next fa) ?fl) = ?fl ! fa_next fa # take q (drop (fa_next fa + 1) ?fl)"
    using assms(6) q by (simp add: Cons_nth_drop_Suc [symmetric])
  then show ?thesis
    using take_frames_value [OF assms(1,3), of ?p] assms(2,6) p
    by (simp add: dma_alloc_def Let_def)
qed

text \<open>
  A DMA buffer of at most one page lies inside usable memory above 32 MiB, is page aligned and large
  enough; an empty request panics.
\<close>

theorem dma_page_in_usable:
  assumes "frame_spec pf" "frame_alloc s = Some fa" "page_aligned_map (memory_map fa)"
    and "n \<le> 4096" "fa_next fa < length (frame_list (memory_map fa))"
  shows "if n = 0 then fst (dma_alloc pf off s n al) = Panic
    else \<exists>buf s'. dma_alloc pf off s n al = (Ok (Some buf), s') \<and> in_usable (memory_map fa) (unat (dma_phys buf))
      \<and> n \<le> dma_size buf \<and> dma_size buf = 4096 \<and> dma_virt buf = dma_phys buf + off"
proof (cases "n = 0")
  case True
  then show ?thesis using assms(2) by (simp add: dma_alloc_def uadd_def)
next
  case False
  note al = aligned_map_addressable [OF assms(3)]
  let ?f = "frame_list (memory_map fa) ! fa_next fa"
  have p: "(n + 4095) div 4096 = 1" using False assms(4) by auto
  have "?f \<in> set (usable_addresses (memory_map fa))" using assms(5) al(2) by simp
  then have f: "in_usable (memory_map fa) ?f" "?f < 2 ^ 52" using al(1,3) by (auto simp: addressable_def)
  then have u: "unat (of_nat ?f :: u64) = ?f" by (simp add: unat_of_nat)
  obtain s' where "dma_alloc pf off s n al
      = (Ok (Some \<lparr>dma_phys = of_nat ?f, dma_virt = of_nat ?f + off, dma_size = 4096\<rparr>), s')"
    using dma_alloc_value [OF assms(1,2) al(1), of n off al] False assms(4,5) p by auto
  with f(1) u False assms(4) show ?thesis by auto
qed

theorem dma_page_in_usable_witness:
  "\<exists>buf s'. dma_alloc page_of 0x1000 \<lparr>frame_alloc = Some (frames_init two_regions), alloc_tracker = []\<rparr> 100 8 = (Ok (Some buf), s')
     \<and> in_usable two_regions (unat (dma_phys buf))"
proof -
  have "fa_next (frames_init two_regions) < length (frame_list two_regions)" "memory_map (frames_init two_regions) = two_regions"
    by (simp_all add: frames_init_def frame_list_def two_regions_frames)
  with dma_page_in_usable [OF frame_spec_page_of, of "\<lparr>frame_alloc = Some (frames_init two_regions), alloc_tracker = []\<rparr>"
      "frames_init two_regions" 100 "0x1000" 8] two_regions_aligned
  show ?thesis by auto
qed

text \<open>
  A larger DMA buffer need not be contiguous: on a map with a reserved hole, a request for two pages is
  answered with a buffer whose second page is the reserved one.
\<close>

theorem dma_buffer_spans_hole:
  assumes "frame_spec pf"
  shows "\<exists>buf s'. dma_alloc pf off \<lparr>frame_alloc = Some \<lparr>memory_map = two_regions, fa_next = 1\<rparr>, alloc_tracker = []\<rparr> 8192 4096
      = (Ok (Some buf), s')
    \<and> dma_phys buf = 0x2001000 \<and> dma_size buf = 8192 \<and> \<not> in_usable two_regions (0x2001000 + 4096)"
proof -
  have fl: "frame_list two_regions = [0x2000000, 0x2001000, 0x2004000, 0x2005000]"
    using aligned_map_addressable(2) [OF two_regions_aligned] two_regions_frames by simp
  have "\<not> in_usable two_regions (0x2001000 + 4096)" by (simp add: in_usable_def two_regions_def)
  with dma_alloc_value [OF assms, of "\<lparr>frame_alloc = Some \<lparr>memory_map = two_regions, fa_next = 1\<rparr>, alloc_tracker = []\<rparr>"
      "\<lparr>memory_map = two_regions, fa_next = 1\<rparr>" 8192 off 4096] aligned_map_addressable(1) [OF two_regions_aligned]
  show ?thesis by (auto simp: fl)
qed

theorem dma_buffer_spans_hole_witness:
  "\<exists>buf s'. dma_alloc page_of 0 \<lparr>frame_alloc = Some \<lparr>memory_map = two_regions, fa_next = 1\<rparr>, alloc_tracker = []\<rparr> 8192 4096
      = (Ok (Some buf), s') \<and> dma_phys buf = 0x2001000 \<and> dma_size buf = 8192"
  using dma_buffer_spans_hole [OF frame_spec_page_of, of 0] by blast

end
