(* ===== verification/VirtioLaws.thy ===== *)
theory VirtioLaws
  imports VirtioDisk Frames
begin

text \<open>
  Properties of the virtio driver, on any device that keeps the laws of \<open>VirtioDisk\<close>: it comes up, its first request is
  carried out however long the device takes, a read returns only if the used ring moves, from the second request on the
  driver does not wait, and a request past the end of the disk is reported as done.
\<close>

section \<open>Polling\<close>

lemma virtio_wait_found:
  "used_idx mm v ((mm_tick mm ^^ k) m) \<noteq> 0 \<Longrightarrow> \<exists>j \<le> k. virtio_wait mm v m = Some ((mm_tick mm ^^ j) m)"
proof (induction k arbitrary: m)
  case 0
  then show ?case by (subst virtio_wait.simps) simp
next
  case (Suc k)
  show ?case
  proof (cases "used_idx mm v m = 0")
    case True
    have "used_idx mm v ((mm_tick mm ^^ k) (mm_tick mm m)) \<noteq> 0" using Suc.prems by (simp add: funpow_swap1)
    then obtain j where "j \<le> k" "virtio_wait mm v (mm_tick mm m) = Some ((mm_tick mm ^^ j) (mm_tick mm m))"
      using Suc.IH by blast
    with True show ?thesis by (subst virtio_wait.simps) (auto simp: funpow_swap1 intro!: exI [of _ "Suc j"])
  next
    case False
    then show ?thesis by (subst virtio_wait.simps) (auto intro!: exI [of _ 0])
  qed
qed

lemma virtio_wait_some:
  assumes "virtio_wait mm v m = Some m'"
  shows "\<exists>k. m' = (mm_tick mm ^^ k) m \<and> used_idx mm v m' \<noteq> 0"
proof (rule virtio_wait.raw_induct [OF _ assms, where P = "\<lambda>mm v m m'. \<exists>k. m' = (mm_tick mm ^^ k) m \<and> used_idx mm v m' \<noteq> 0"])
  fix wait and mm :: "'a mmio" and v m m'
  assume IH: "\<And>mm v m m'. wait mm v m = Some m' \<Longrightarrow> \<exists>k. m' = (mm_tick mm ^^ k) m \<and> used_idx mm v m' \<noteq> 0"
    and eq: "(if used_idx mm v m \<noteq> 0 then Some m else wait mm v (mm_tick mm m)) = Some m'"
  show "\<exists>k. m' = (mm_tick mm ^^ k) m \<and> used_idx mm v m' \<noteq> 0"
  proof (cases "used_idx mm v m = 0")
    case True
    with eq have "wait mm v (mm_tick mm m) = Some m'" by simp
    from IH [OF this] obtain k where "m' = (mm_tick mm ^^ k) (mm_tick mm m)" "used_idx mm v m' \<noteq> 0" by blast
    then show ?thesis by (intro exI [of _ "Suc k"]) (simp add: funpow_swap1)
  next
    case False
    with eq show ?thesis by (intro exI [of _ 0]) simp
  qed
qed

lemma virtio_wait_iff:
  "(\<exists>m'. virtio_wait mm v m = Some m') \<longleftrightarrow> (\<exists>k. used_idx mm v ((mm_tick mm ^^ k) m) \<noteq> 0)"
  using virtio_wait_found virtio_wait_some by metis

section \<open>Requests\<close>

abbreviation whole_sectors :: "u8 list \<Rightarrow> nat" where
  "whole_sectors buf \<equiv> (length buf + 511) div 512 * 512"

lemma whole_sectors_page: "length buf \<le> 512 \<Longrightarrow> whole_sectors buf \<le> 512 \<and> length buf \<le> whole_sectors buf"
  using sectors_of [of "length buf" 0 1] by simp

context virtio_device
begin

lemma read_posts:
  assumes b: "bound v m" and l: "length buf \<le> 512"
  obtains mq where "posted (view dv mq) (dma_phys (dma_buf v)) 0 lba (whole_sectors buf)" "hw mq = hw m"
    "rd_le (ram mq) (vd_used (dv (hw m)) + 2) 2 = unat (vd_last (dv (hw m)))"
    "\<And>i. 512 \<le> i \<Longrightarrow> i < 4096 \<Longrightarrow> page (ram mq) (dma_phys (dma_buf v)) ! i = page (ram m) (dma_phys (dma_buf v)) ! i"
    "virtio_read_sectors mm v m lba buf =
       map_option (\<lambda>m'. (Ok (blit buf 0 (cpu_rd mm m' (dma_virt (dma_buf v) + 512) (length buf))), m'))
         (virtio_wait mm v (mm_wr mm notify 2 0 mq))"
proof -
  let ?b = "dma_phys (dma_buf v)"
  define m0 where "m0 = cpu_wr mm (dma_virt (dma_buf v)) (blk_req 0 lba) m"
  note r = read_request [OF b m0_def] and k = whole_sectors_page [OF l]
  obtain mq where q: "setup_chain mm v ?b (?b + 512) (whole_sectors buf) True m0 = (Ok (), mq)" "hw mq = hw m0"
      "posted (view dv mq) ?b 0 lba (whole_sectors buf)" "page (ram mq) ?b = page (ram m0) ?b"
      "rd_le (ram mq) (vd_used (dv (hw m0)) + 2) 2 = unat (vd_last (dv (hw m0)))"
    by (rule setup_chain_posts [OF r(1,3), of "whole_sectors buf"]) (use k in simp_all)
  have "virtio_read_sectors mm v m lba buf =
       map_option (\<lambda>m'. (Ok (blit buf 0 (cpu_rd mm m' (dma_virt (dma_buf v) + 512) (length buf))), m'))
         (virtio_wait mm v (mm_wr mm notify 2 0 mq))"
    using k unfolding virtio_read_sectors_def Let_def m0_def [symmetric] q(1) notify_and_wait_def boundD(14) [OF b]
    by (simp add: min_def)
  with q r(2,4) show thesis by (intro that [of mq]) simp_all
qed

lemma read_returns_iff:
  assumes b: "bound v m" and l: "length buf \<le> 512"
  obtains mq where "posted (view dv mq) (dma_phys (dma_buf v)) 0 lba (whole_sectors buf)" "hw mq = hw m"
    "(\<exists>r. virtio_read_sectors mm v m lba buf = Some r)
      \<longleftrightarrow> (\<exists>k. rd_le (ram ((mm_tick mm ^^ k) (mm_wr mm notify 2 0 mq))) (vd_used (dv (hw m)) + 2) 2 \<noteq> 0)"
proof -
  obtain mq where q: "posted (view dv mq) (dma_phys (dma_buf v)) 0 lba (whole_sectors buf)" "hw mq = hw m"
    "virtio_read_sectors mm v m lba buf =
       map_option (\<lambda>m'. (Ok (blit buf 0 (cpu_rd mm m' (dma_virt (dma_buf v) + 512) (length buf))), m'))
         (virtio_wait mm v (mm_wr mm notify 2 0 mq))"
    using read_posts [OF assms] by blast
  have "(\<exists>r. virtio_read_sectors mm v m lba buf = Some r) \<longleftrightarrow> (\<exists>m'. virtio_wait mm v (mm_wr mm notify 2 0 mq) = Some m')"
    unfolding q(3) by blast
  with q(1,2) show thesis
    by (intro that [of mq]) (simp_all add: virtio_wait_iff used_idx_bound [OF boundD(7) [OF b]])
qed

text \<open>
  Once the index of the used ring is not 0 the driver does not wait: if the device has not changed memory by the time the
  notification is written, a read returns what the data buffer held before.
\<close>

lemma read_does_not_wait:
  assumes b: "bound v m" and l: "length buf \<le> 512" and "vd_last (dv (hw m)) \<noteq> 0"
    and quiet: "\<And>m. ram (mm_wr mm notify 2 0 m) = ram m"
  shows "\<exists>m'. virtio_read_sectors mm v m lba buf
    = Some (Ok (seg (page (ram m) (dma_phys (dma_buf v))) 512 (512 + length buf)), m')"
proof -
  let ?b = "dma_phys (dma_buf v)"
  obtain mq where q: "rd_le (ram mq) (vd_used (dv (hw m)) + 2) 2 = unat (vd_last (dv (hw m)))"
    "\<And>i. 512 \<le> i \<Longrightarrow> i < 4096 \<Longrightarrow> page (ram mq) ?b ! i = page (ram m) ?b ! i"
    "virtio_read_sectors mm v m lba buf =
       map_option (\<lambda>m'. (Ok (blit buf 0 (cpu_rd mm m' (dma_virt (dma_buf v) + 512) (length buf))), m'))
         (virtio_wait mm v (mm_wr mm notify 2 0 mq))"
    by (rule read_posts [OF b l, of lba]) (rule that, assumption+)
  have "used_idx mm v (mm_wr mm notify 2 0 mq) \<noteq> 0"
    using q(1) assms(3) by (simp add: used_idx_bound [OF boundD(7) [OF b]] quiet unat_eq_0)
  then have w: "virtio_wait mm v (mm_wr mm notify 2 0 mq) = Some (mm_wr mm notify 2 0 mq)"
    by (subst virtio_wait.simps) simp
  have "cpu_rd mm (mm_wr mm notify 2 0 mq) (dma_virt (dma_buf v) + 512) (length buf) = seg (page (ram mq) ?b) 512 (512 + length buf)"
    unfolding cpu_rd_def boundD(8) [OF b] using l by (simp add: peek_at algebra_simps quiet)
  also have "\<dots> = seg (page (ram m) ?b) 512 (512 + length buf)"
    using l q(2) by (intro nth_equalityI) (simp_all add: nth_seg)
  finally show ?thesis unfolding q(3) w using l by (simp add: blit_def)
qed

end

text \<open>The status byte of a request is not looked at.\<close>

context virtio_server
begin

lemma write_past_end:
  assumes b: "bound v m" "vd_last (dv (hw m)) = 0" and l: "length buf = 512" and "unat (sector_count v) \<le> unat lba"
  shows "\<exists>m'. virtio_write_sectors mm v m lba buf = Some (Ok (), m') \<and> vd_bytes (dv (hw m')) = vd_bytes (dv (hw m))"
proof -
  let ?b = "dma_phys (dma_buf v)"
  define m0 where "m0 = cpu_wr mm (dma_virt (dma_buf v) + 512) buf m"
  define m1 where "m1 = cpu_wr mm (dma_virt (dma_buf v)) (blk_req 1 lba) m0"
  note w = write_request [OF b(1) _ m0_def m1_def, unfolded l, simplified]
  have z: "vd_last (dv (hw m1)) = 0" using b(2) w(2) by simp
  obtain m2 m' where c: "setup_chain mm v ?b (?b + 512) 512 False m1 = (Ok (), m2)" "notify_and_wait mm v m2 = Some m'"
      "vd_bytes (dv (hw m')) = disk_after 1 lba (seg (page (ram m1) ?b) 512 (512 + 512)) (dv (hw m1))"
    by (rule request_served [OF w(1) z w(3) _ _ _ refl, where len = 512]) simp_all
  have "\<not> in_range (dv (hw m)) lba 512"
    using assms(4) boundD(15) [OF b(1)] by (simp add: in_range_def not_le)
  then have "vd_bytes (dv (hw m')) = vd_bytes (dv (hw m))" using c(3) w(2) by (simp add: disk_after_def)
  moreover have "virtio_write_sectors mm v m lba buf = Some (Ok (), m')"
    using c(1,2) unfolding virtio_write_sectors_def Let_def m0_def [symmetric] m1_def [symmetric] l by simp
  ultimately show ?thesis by blast
qed

lemma read_past_end:
  assumes b: "bound v m" "vd_last (dv (hw m)) = 0" and l: "length buf = 512" and "unat (sector_count v) \<le> unat lba"
  shows "\<exists>m'. virtio_read_sectors mm v m lba buf = Some (Ok (seg (page (ram m) (dma_phys (dma_buf v))) 512 1024), m')"
proof -
  let ?b = "dma_phys (dma_buf v)"
  define m0 where "m0 = cpu_wr mm (dma_virt (dma_buf v)) (blk_req 0 lba) m"
  note r = read_request [OF b(1) m0_def]
  have z: "vd_last (dv (hw m0)) = 0" using b(2) r(2) by simp
  obtain m1 m' where c: "setup_chain mm v ?b (?b + 512) 512 True m0 = (Ok (), m1)" "notify_and_wait mm v m1 = Some m'"
      "seg (page (ram m') ?b) 512 (512 + 512) = data_after 0 lba (seg (page (ram m0) ?b) 512 (512 + 512)) (dv (hw m0))"
    by (rule request_served [OF r(1) z r(3) _ _ _ refl, where len = 512]) simp_all
  have "\<not> in_range (dv (hw m)) lba 512"
    using assms(4) boundD(15) [OF b(1)] by (simp add: in_range_def not_le)
  then have "seg (page (ram m') ?b) 512 1024 = seg (page (ram m0) ?b) 512 1024" using c(3) r(2) by (simp add: data_after_def)
  also have "\<dots> = seg (page (ram m) ?b) 512 1024"
    using r(4) by (intro nth_equalityI) (simp_all add: nth_seg)
  finally have "cpu_rd mm m' (dma_virt (dma_buf v) + 512) 512 = seg (page (ram m) ?b) 512 1024"
    unfolding cpu_rd_def boundD(8) [OF b(1)] by (simp add: peek_at algebra_simps)
  with c l show ?thesis
    unfolding virtio_read_sectors_def Let_def m0_def [symmetric] by (simp add: blit_def)
qed

end

section \<open>Pages for the driver\<close>

text \<open>A DMA allocator hands out the pages of its stock one after the other.\<close>

locale dma_pages =
  fixes dma :: "'al dma_allocator"
    and off :: u64
    and stock :: "'al \<Rightarrow> u64 list"
  assumes stock_pages: "distinct (stock al) \<and> (\<forall>p \<in> set (stock al). page_addr p)"
    and next_page: "stock al = p # ps \<Longrightarrow>
      \<exists>al'. dma al 4096 4096 = (Ok (Some \<lparr>dma_phys = p, dma_virt = p + off, dma_size = 4096\<rparr>), al') \<and> stock al' = ps"
begin

definition buf :: "u64 \<Rightarrow> DmaBuffer" where
  "buf p = \<lparr>dma_phys = p, dma_virt = p + off, dma_size = 4096\<rparr>"

lemma buf_fields [simp]: "dma_phys (buf p) = p" "dma_virt (buf p) = p + off"
  by (simp_all add: buf_def)

lemma dma_page_next:
  assumes "stock al = p # ps"
  obtains al' where "dma_page dma (m, al) = (Ok (buf p), m, al')" "stock al' = ps"
  using next_page [OF assms] that by (auto simp: dma_page_def buf_def)

end

text \<open>The allocator of the kernel is one, over the frames of the memory map that are left.\<close>

definition frames_left :: "DmaState \<Rightarrow> u64 list" where
  "frames_left s =
     (case frame_alloc s of
        Some fa \<Rightarrow> (if page_aligned_map (memory_map fa) then map of_nat (drop (fa_next fa) (usable_addresses (memory_map fa))) else [])
      | None \<Rightarrow> [])"

locale kernel_dma =
  fixes pf :: "nat \<Rightarrow> (nat, unit) result"
    and off :: u64
  assumes frames: "frame_spec pf"

sublocale kernel_dma \<subseteq> dma_pages "dma_alloc pf off" off frames_left
proof (unfold_locales, goal_cases)
  case (1 al)
  show ?case
  proof (cases "frame_alloc al")
    case None
    then show ?thesis by (simp add: frames_left_def)
  next
    case (Some fa)
    show ?thesis
    proof (cases "page_aligned_map (memory_map fa)")
      case True
      note a = aligned_map_addressable [OF True]
      let ?fs = "drop (fa_next fa) (usable_addresses (memory_map fa))"
      have f: "\<forall>f \<in> set ?fs. f < 2 ^ 52 \<and> 4096 dvd f"
        using a(1,3) by (auto simp: addressable_def in_usable_def dest: in_set_dropD)
      then have u: "\<forall>f \<in> set ?fs. unat (of_nat f :: u64) = f" by (auto simp: unat_of_nat)
      have "distinct ?fs" using distinct_usable_addresses [OF True] by simp
      moreover have "inj_on (of_nat :: nat \<Rightarrow> u64) (set ?fs)" using u by (metis inj_on_inverseI)
      ultimately have "distinct (map (of_nat :: nat \<Rightarrow> u64) ?fs)" by (simp add: distinct_map)
      with True Some f u show ?thesis by (auto simp: frames_left_def page_addr_def)
    next
      case False
      with Some show ?thesis by (simp add: frames_left_def)
    qed
  qed
next
  case (2 al p ps)
  obtain fa where fa: "frame_alloc al = Some fa" "page_aligned_map (memory_map fa)"
      "map of_nat (drop (fa_next fa) (usable_addresses (memory_map fa))) = p # ps"
    using 2 by (auto simp: frames_left_def split: option.splits if_splits)
  note a = aligned_map_addressable [OF fa(2)]
  let ?fl = "usable_addresses (memory_map fa)"
  have n: "fa_next fa < length ?fl" using fa(3) by (metis drop_all list.distinct(1) list.map(1) not_le)
  then have d: "drop (fa_next fa) ?fl = ?fl ! fa_next fa # drop (Suc (fa_next fa)) ?fl" by (simp add: Cons_nth_drop_Suc)
  then have p: "p = of_nat (?fl ! fa_next fa)" "ps = map of_nat (drop (Suc (fa_next fa)) ?fl)" using fa(3) by auto
  have "take_frames pf 1 fa = (Ok (Some [?fl ! fa_next fa]), fa\<lparr>fa_next := Suc (fa_next fa)\<rparr>)"
    using take_frames_value [OF frames a(1), of 1] n d unfolding a(2) by simp
  with fa p show ?case by (simp add: dma_alloc_def uadd_def frames_left_def)
qed

interpretation kd: kernel_dma page_of off for off
  by unfold_locales (rule frame_spec_page_of)

section \<open>A driver brought up\<close>

definition register_offsets :: "u64 list" where
  "register_offsets = [0x00, 0x04, 0x08, 0x0C, 0x14, 0x16, 0x18, 0x1C, 0x20, 0x24, 0x28, 0x2C, 0x30, 0x34]"

locale virtio_setup = virtio_device mm dv common notify device_cfg sectors + dma_pages dma "mm_off mm" stock
  for mm :: "'hw mmio" and dv common notify device_cfg sectors and dma :: "'al dma_allocator" and stock +
  assumes windows: "\<forall>r \<in> set register_offsets. common + r \<noteq> notify \<and> device_cfg \<noteq> common + r"
begin

lemma reg_write:
  assumes "a \<noteq> notify"
  shows "ram (mm_wr mm a w v m) = ram m" "dv (hw (mm_wr mm a w v m)) = vd_reg common a v (dv (hw m))"
  using dev_write [OF assms, of w v m] by (simp_all add: view_def)

lemma reg_read: "rd_reg mm m a w = vd_read common device_cfg (dv (hw m)) a w"
  by (simp add: rd_reg_def dev_read)

lemmas window_facts = windows [unfolded register_offsets_def, simplified]

definition negotiated :: "vdisk \<Rightarrow> vdisk" where
  "negotiated d = d\<lparr>vd_status := 11, vd_qsize := min 64 (vd_qmax d), vd_enabled := False, vd_last := 0\<rparr>"

lemma negotiate_ok:
  assumes "vd_accepts (dv (hw m))" "vd_qmax (dv (hw m)) \<noteq> 0"
  obtains m' where "negotiate mm common m = (Ok (min 64 (vd_qmax (dv (hw m)))), m')" "ram m' = ram m"
    "dv (hw m') = negotiated (dv (hw m))"
proof -
  show thesis
    by (rule that [of "snd (negotiate mm common m)"])
      (use assms window_facts in \<open>simp_all add: negotiate_def Let_def reg_write reg_read vd_reg_def vd_read_def vd_set_status_def negotiated_def\<close>)
qed

lemma zero_page:
  "page_addr a \<Longrightarrow> rd_le (poke a (zeros 4096) r) (a + 2) 2 = 0"
  "page_addr a \<Longrightarrow> page_addr b \<Longrightarrow> a \<noteq> b \<Longrightarrow> rd_le (poke a (zeros 4096) r) (b + 2) 2 = rd_le r (b + 2) 2"
proof -
  have "blit (page r a) 0 (zeros 4096) = zeros 4096" by (simp add: blit_def)
  then show "rd_le (poke a (zeros 4096) r) (a + 2) 2 = 0"
    by (simp add: rd_le_def peek_at poke_page_same_0 seg_def zeros_def le_val_zeros [of 2, unfolded zeros_def])
  show "rd_le (poke a (zeros 4096) r) (b + 2) 2 = rd_le r (b + 2) 2" if "page_addr a" "page_addr b" "a \<noteq> b"
    using that by (simp add: rd_le_def peek_at poke_page_other_0)
qed

lemma init_device_binds:
  assumes d: "vd_accepts (dv (hw m))" "3 \<le> vd_qmax (dv (hw m))" and st: "stock al = p1 # p2 # p3 # p4 # ps"
  obtains v m' al' where "init_device mm dma common notify device_cfg mul (m, al) = (Ok v, m', al')"
    "bound v m'" "vd_last (dv (hw m')) = 0" "vd_bytes (dv (hw m')) = vd_bytes (dv (hw m))" "sector_count v = vd_sectors (dv (hw m))"
proof -
  have q: "vd_qmax (dv (hw m)) \<noteq> 0" "3 \<le> min 64 (vd_qmax (dv (hw m)))"
    using d(2) by (auto simp: min_def)
  obtain m0 where n: "negotiate mm common m = (Ok (min 64 (vd_qmax (dv (hw m)))), m0)" "ram m0 = ram m"
      "dv (hw m0) = negotiated (dv (hw m))"
    using negotiate_ok [OF d(1) q(1)] by blast
  obtain a1 where a1: "dma_page dma (m0, al) = (Ok (buf p1), m0, a1)" "stock a1 = p2 # p3 # p4 # ps" by (rule dma_page_next [OF st])
  obtain a2 where a2: "dma_page dma (m0, a1) = (Ok (buf p2), m0, a2)" "stock a2 = p3 # p4 # ps" by (rule dma_page_next [OF a1(2)])
  obtain a3 where a3: "dma_page dma (m0, a2) = (Ok (buf p3), m0, a3)" "stock a3 = p4 # ps" by (rule dma_page_next [OF a2(2)])
  obtain a4 where a4: "dma_page dma (m0, a3) = (Ok (buf p4), m0, a4)" by (rule dma_page_next [OF a3(2)])
  have pg: "page_addr p1" "page_addr p2" "page_addr p3" "page_addr p4" "distinct [p1, p2, p3, p4]"
    using stock_pages [of al] by (auto simp: st)
  obtain v m' where i: "init_device mm dma common notify device_cfg mul (m, al) = (Ok v, m', a4)"
      "desc_buf v = buf p1" "avail_buf v = buf p2" "used_buf v = buf p3" "dma_buf v = buf p4"
      "vq_size (queue v) = min 64 (vd_qmax (dv (hw m)))" "notify_base v = notify" "sector_count v = vd_sectors (dv (hw m))"
      "ram m' = poke p3 (zeros 4096) (poke p2 (zeros 4096) (poke p1 (zeros 4096) (ram m)))"
      "dv (hw m') = (negotiated (dv (hw m)))\<lparr>vd_desc := p1, vd_avail := p2, vd_used := p3, vd_enabled := True, vd_status := 15\<rparr>"
  proof (rule that)
    show "init_device mm dma common notify device_cfg mul (m, al)
        = (Ok (case init_device mm dma common notify device_cfg mul (m, al) of (Ok v, _) \<Rightarrow> v),
           fst (snd (init_device mm dma common notify device_cfg mul (m, al))), a4)"
      using n(1) a1(1) a2(1) a3(1) a4 by (simp add: init_device_def Let_def)
  qed (use n d q window_facts a1(1) a2(1) a3(1) a4 in \<open>simp_all add: init_device_def Let_def set_queue_addr_def cpu_wr_def
      reg_write reg_read vd_reg_def vd_read_def vd_set_status_def negotiated_def set_halves low_u32_def high_u32_def\<close>)
  have "bound v m'"
    using pg pg(5) [THEN distinct_rev [THEN iffD2]] q(2) unfolding bound_def Let_def i
    by (simp add: negotiated_def four_pages_def zero_page word_neq_0_conv)
  with i show thesis by (intro that [of v m' a4]) (simp_all add: negotiated_def)
qed

end

text \<open>The driver, its pages, and a device that serves.\<close>

locale virtio_started = virtio_server mm dv common notify device_cfg sectors + virtio_setup mm dv common notify device_cfg sectors dma stock
  for mm :: "'hw mmio" and dv common notify device_cfg sectors and dma :: "'al dma_allocator" and stock
begin

lemma first_read:
  assumes "bound v m" "vd_last (dv (hw m)) = 0" "lba < sector_count v" "length xs = 512"
  shows "\<exists>m'. virtio_read_sectors mm v m lba xs = Some (Ok (map (\<lambda>i. vd_bytes (dv (hw m)) (unat lba * 512 + i)) [0..<512]), m')
    \<and> vd_bytes (dv (hw m')) = vd_bytes (dv (hw m))"
proof -
  have "unat lba * 512 + length xs \<le> 512 * unat (sector_count v)" using assms(3,4) by (simp add: word_less_nat_alt)
  from read_sectors_first [OF assms(1,2) _ this] assms(4) show ?thesis by simp
qed

lemma first_write:
  assumes "bound v m" "vd_last (dv (hw m)) = 0" "lba < sector_count v" "length data = 512"
  shows "\<exists>m'. virtio_write_sectors mm v m lba data = Some (Ok (), m') \<and> bound v m' \<and> vd_last (dv (hw m')) = 1
    \<and> vd_bytes (dv (hw m')) = (\<lambda>p. if p div 512 = unat lba then data ! (p mod 512) else vd_bytes (dv (hw m)) p)
    \<and> seg (page (ram m') (dma_phys (dma_buf v))) 512 1024 = data"
proof -
  have "unat lba * 512 + length data \<le> 512 * unat (sector_count v)" using assms(3,4) by (simp add: word_less_nat_alt)
  from write_sectors_first [OF assms(1,2) _ this] assms(4) obtain m' where
    w: "virtio_write_sectors mm v m lba data = Some (Ok (), m')" "bound v m'" "vd_last (dv (hw m')) = 1"
      "\<forall>i < 512. vd_bytes (dv (hw m')) (unat lba * 512 + i) = data ! i"
      "\<forall>i < 512. page (ram m') (dma_phys (dma_buf v)) ! (512 + i) = data ! i"
      "\<forall>p. p < unat lba * 512 \<or> unat lba * 512 + spill 512 512 \<le> p \<longrightarrow> vd_bytes (dv (hw m')) p = vd_bytes (dv (hw m)) p"
    by auto
  have "vd_bytes (dv (hw m')) p = (if p div 512 = unat lba then data ! (p mod 512) else vd_bytes (dv (hw m)) p)" for p
  proof (cases "p div 512 = unat lba")
    case True
    then have "p = unat lba * 512 + p mod 512" by (metis div_mult_mod_eq)
    then show ?thesis using True w(4) [rule_format, of "p mod 512"] by simp
  next
    case False
    then have "p < unat lba * 512 \<or> unat lba * 512 + 512 \<le> p"
      by (metis div_less_iff_less_mult div_mult_mod_eq less_Suc_eq_le linorder_not_less mult_Suc add.commute
          nat_neq_iff not_less_eq zero_less_numeral)
    then have "vd_bytes (dv (hw m')) p = vd_bytes (dv (hw m)) p" using w(6) by (auto simp: spill_def)
    then show ?thesis using False by simp
  qed
  moreover have "seg (page (ram m') (dma_phys (dma_buf v))) 512 1024 = data"
    using w(5) assms(4) by (intro nth_equalityI) (simp_all add: nth_seg)
  ultimately show ?thesis using w(1-3) by blast
qed

end

lemma four_left: "4 \<le> length xs \<Longrightarrow> \<exists>p1 p2 p3 p4 ps. xs = p1 # p2 # p3 # p4 # ps"
  by (auto simp: numeral_eq_Suc Suc_le_length_iff)


text \<open>
  C21: On any device with the registers of a virtio device and whatever it does with memory, the first read of a driver that has
  come up returns if and only if, some number of device steps after the notification of its request, the
  16-bit index at offset 2 of the used ring, at the address the device was given, is not 0. There is no time-out.
\<close>

theorem virtio_read_returns_iff:
  assumes "virtio_setup mm dv common notify device_cfg dma stock"
    and "vd_accepts (dv (hw m))" "3 \<le> vd_qmax (dv (hw m))" "4 \<le> length (stock al)" "length buf \<le> 512"
  shows "\<exists>v m1 al1 mq. init_device mm dma common notify device_cfg mul (m, al) = (Ok v, m1, al1)
    \<and> posted (view dv mq) (dma_phys (dma_buf v)) VIRTIO_BLK_T_IN lba (whole_sectors buf) \<and> hw mq = hw m1
    \<and> ((\<exists>r. virtio_read_sectors mm v m1 lba buf = Some r)
       \<longleftrightarrow> (\<exists>k. rd_le (ram ((mm_tick mm ^^ k) (mm_wr mm notify 2 0 mq))) (vd_used (dv (hw mq)) + 2) 2 \<noteq> 0))"
proof -
  note dev = virtio_setup.axioms(1) [OF assms(1)]
  obtain p1 p2 p3 p4 ps where left: "stock al = p1 # p2 # p3 # p4 # ps" using four_left [OF assms(4)] by blast
  obtain v m1 al1 where i: "init_device mm dma common notify device_cfg mul (m, al) = (Ok v, m1, al1)"
      "virtio_device.bound mm dv notify v m1"
    by (rule virtio_setup.init_device_binds [OF assms(1-3) left])
  from virtio_device.read_returns_iff [OF dev i(2) assms(5), of lba] i(1) show ?thesis by metis
qed

text \<open>
  C22: From the second request on the driver does not wait, as the index of the used ring is not 0 any more. On a device
  that does not complete a request within the register write that announces it, a read that follows a write returns the
  data written, whichever sector it asks for and whatever the disk holds there.
\<close>

theorem virtio_second_read_stale:
  assumes "virtio_started mm dv common notify device_cfg dma stock" "\<forall>m. ram (mm_wr mm notify 2 0 m) = ram m"
    and "vd_accepts (dv (hw m))" "3 \<le> vd_qmax (dv (hw m))" "4 \<le> length (stock al)"
    and "lba < vd_sectors (dv (hw m))" "length data = 512" "length buf = 512"
  shows "\<exists>v m1 al1 m2 m3. init_device mm dma common notify device_cfg mul (m, al) = (Ok v, m1, al1)
    \<and> virtio_write_sectors mm v m1 lba data = Some (Ok (), m2)
    \<and> vd_bytes (dv (hw m2)) = (\<lambda>p. if p div 512 = unat lba then data ! (p mod 512) else vd_bytes (dv (hw m)) p)
    \<and> virtio_read_sectors mm v m2 lba' buf = Some (Ok data, m3)"
proof -
  note vs = virtio_started.axioms(2) [OF assms(1)]
  note dev = virtio_setup.axioms(1) [OF vs]
  obtain p1 p2 p3 p4 ps where left: "stock al = p1 # p2 # p3 # p4 # ps" using four_left [OF assms(5)] by blast
  obtain v m1 al1 where i: "init_device mm dma common notify device_cfg mul (m, al) = (Ok v, m1, al1)"
      "virtio_device.bound mm dv notify v m1" "vd_last (dv (hw m1)) = 0" "vd_bytes (dv (hw m1)) = vd_bytes (dv (hw m))"
      "sector_count v = vd_sectors (dv (hw m))"
    by (rule virtio_setup.init_device_binds [OF vs assms(3,4) left])
  have l: "lba < sector_count v" using assms(6) i(5) by simp
  obtain m2 where w: "virtio_write_sectors mm v m1 lba data = Some (Ok (), m2)" "virtio_device.bound mm dv notify v m2"
      "vd_last (dv (hw m2)) = 1" "vd_bytes (dv (hw m2)) = (\<lambda>p. if p div 512 = unat lba then data ! (p mod 512) else vd_bytes (dv (hw m1)) p)"
      "seg (page (ram m2) (dma_phys (dma_buf v))) 512 1024 = data"
    using virtio_started.first_write [OF assms(1) i(2,3) l assms(7)] by blast
  have n: "length buf \<le> 512" "vd_last (dv (hw m2)) \<noteq> 0" and q: "ram (mm_wr mm notify 2 0 m) = ram m" for m
    using w(3) assms(2,8) by simp_all
  obtain m3 where r: "virtio_read_sectors mm v m2 lba' buf = Some (Ok data, m3)"
    using virtio_device.read_does_not_wait [OF dev w(2) n q, of lba'] w(5) by (auto simp: assms(8))
  show ?thesis by (intro exI conjI) (rule i(1), rule w(1), rule w(4) [unfolded i(4)], rule r)
qed

text \<open>
  C27: the status byte of a request is not looked at. The first request, when it is a write past the end of the disk, which the
  device refuses, reports success and stores nothing; when it is a read there, it reports success with the bytes that
  happened to be in the data buffer.
\<close>

theorem past_end_reports_success:
  assumes "virtio_started mm dv common notify device_cfg dma stock"
    and "vd_accepts (dv (hw m))" "3 \<le> vd_qmax (dv (hw m))" "4 \<le> length (stock al)"
    and "vd_sectors (dv (hw m)) \<le> lba" "length buf = 512"
  shows "\<exists>v m1 al1. init_device mm dma common notify device_cfg mul (m, al) = (Ok v, m1, al1)
    \<and> (\<exists>m2. virtio_write_sectors mm v m1 lba buf = Some (Ok (), m2) \<and> vd_bytes (dv (hw m2)) = vd_bytes (dv (hw m)))
    \<and> (\<exists>m2. virtio_read_sectors mm v m1 lba buf
          = Some (Ok (seg (page (ram m1) (dma_phys (dma_buf v))) 512 1024), m2))"
proof -
  note vs = virtio_started.axioms [OF assms(1)]
  obtain p1 p2 p3 p4 ps where left: "stock al = p1 # p2 # p3 # p4 # ps" using four_left [OF assms(4)] by blast
  obtain v m1 al1 where i: "init_device mm dma common notify device_cfg mul (m, al) = (Ok v, m1, al1)"
      "virtio_device.bound mm dv notify v m1" "vd_last (dv (hw m1)) = 0" "vd_bytes (dv (hw m1)) = vd_bytes (dv (hw m))"
      "sector_count v = vd_sectors (dv (hw m))"
    by (rule virtio_setup.init_device_binds [OF vs(2) assms(2,3) left])
  have "unat (sector_count v) \<le> unat lba" using assms(5) i(5) by (simp add: word_le_nat_alt)
  note past = virtio_server.write_past_end [OF vs(1) i(2,3) assms(6) this] virtio_server.read_past_end [OF vs(1) i(2,3) assms(6) this]
  show ?thesis by (rule exI [of _ v], rule exI [of _ m1], rule exI [of _ al1], intro conjI i(1) past(1) [unfolded i(4)] past(2))
qed

section \<open>A machine\<close>

abbreviation sample_vd :: "delayed mmio" where
  "sample_vd \<equiv> vd_machine 0x1000 0xFE000000 0xFE003000 0xFE002000 20"

interpretation vs: virtio_started sample_vd dl_disk "0xFE000000" "0xFE003000" "0xFE002000" sectors
    "dma_alloc page_of 0x1000" frames_left for sectors
  by unfold_locales
    (simp_all add: vd_machine_def register_offsets_def kd.stock_pages kd.next_page [unfolded vd_machine_def])

text \<open>A disk of 64 sectors; sector \<open>n\<close> is filled with \<open>n\<close>.\<close>

definition sample_vdisk :: "delayed Machine" where
  "sample_vdisk = \<lparr>ram = (\<lambda>_. 0), hw = \<lparr>dl_disk = \<lparr>vd_bytes = (\<lambda>p. of_nat (p div 512)), vd_sectors = 64, vd_features = 0,
     vd_accepts = True, vd_status = 0, vd_qmax = 256, vd_qsize = 256, vd_desc = 0, vd_avail = 0, vd_used = 0,
     vd_enabled = False, vd_last = 0\<rparr>, dl_timer = None\<rparr>\<rparr>"

definition sample_dma :: DmaState where
  "sample_dma = \<lparr>frame_alloc = Some (frames_init two_regions), alloc_tracker = []\<rparr>"

lemma sample_dma_left: "length (frames_left sample_dma) = 4"
  using two_regions_aligned two_regions_frames by (simp add: frames_left_def sample_dma_def frames_init_def)

lemma sample_sector: "map (\<lambda>i. vd_bytes (dl_disk (hw sample_vdisk)) (unat (7 :: u64) * 512 + i)) [0..<512] = replicate 512 7"
proof -
  have "vd_bytes (dl_disk (hw sample_vdisk)) (unat (7 :: u64) * 512 + i) = 7" if "i < 512" for i
  proof -
    have "(3584 + i) div 512 = 7" using that by (intro div_nat_eqI) simp_all
    then show ?thesis by (simp add: sample_vdisk_def)
  qed
  then show ?thesis by (intro nth_equalityI) simp_all
qed

lemma sample_premises:
  "vd_accepts (dl_disk (hw sample_vdisk))" "3 \<le> vd_qmax (dl_disk (hw sample_vdisk))" "4 \<le> length (frames_left sample_dma)"
  "7 < vd_sectors (dl_disk (hw sample_vdisk))" "vd_sectors (dl_disk (hw sample_vdisk)) \<le> 64"
  "length (zeros 512) = 512" "length (zeros 512) \<le> 512" "length (replicate 512 x) = 512"
  "\<forall>m. ram (mm_wr sample_vd 0xFE003000 2 0 m) = ram m"
  by (simp_all add: sample_vdisk_def sample_dma_left vd_machine_def delayed_wr_def)


theorem virtio_read_returns_iff_witness:
  "\<exists>v m1 al1 mq. init_device sample_vd (dma_alloc page_of 0x1000) 0xFE000000 0xFE003000 0xFE002000 0
       (sample_vdisk, sample_dma) = (Ok v, m1, al1)
     \<and> posted (view dl_disk mq) (dma_phys (dma_buf v)) VIRTIO_BLK_T_IN 7 (whole_sectors (zeros 512)) \<and> hw mq = hw m1
     \<and> ((\<exists>r. virtio_read_sectors sample_vd v m1 7 (zeros 512) = Some r)
       \<longleftrightarrow> (\<exists>k. rd_le (ram ((mm_tick sample_vd ^^ k) (mm_wr sample_vd 0xFE003000 2 0 mq))) (vd_used (dl_disk (hw mq)) + 2) 2 \<noteq> 0))"
  by (rule virtio_read_returns_iff [OF vs.virtio_setup_axioms sample_premises(1-3,7)])

theorem virtio_second_read_stale_witness:
  "\<exists>v m1 al1 m2 m3. init_device sample_vd (dma_alloc page_of 0x1000) 0xFE000000 0xFE003000 0xFE002000 0
       (sample_vdisk, sample_dma) = (Ok v, m1, al1)
     \<and> virtio_write_sectors sample_vd v m1 7 (replicate 512 0xAB) = Some (Ok (), m2)
     \<and> vd_bytes (dl_disk (hw m2)) = (\<lambda>p. if p div 512 = unat (7 :: u64) then replicate 512 0xAB ! (p mod 512)
                                       else vd_bytes (dl_disk (hw sample_vdisk)) p)
     \<and> virtio_read_sectors sample_vd v m2 8 (zeros 512) = Some (Ok (replicate 512 0xAB), m3)"
  by (rule virtio_second_read_stale [OF vs.virtio_started_axioms sample_premises(9,1-4,8,6)])

theorem past_end_reports_success_witness:
  "\<exists>v m1 al1. init_device sample_vd (dma_alloc page_of 0x1000) 0xFE000000 0xFE003000 0xFE002000 0
       (sample_vdisk, sample_dma) = (Ok v, m1, al1)
     \<and> (\<exists>m2. virtio_write_sectors sample_vd v m1 64 (replicate 512 1) = Some (Ok (), m2)
            \<and> vd_bytes (dl_disk (hw m2)) = vd_bytes (dl_disk (hw sample_vdisk)))
     \<and> (\<exists>m2. virtio_read_sectors sample_vd v m1 64 (replicate 512 1)
          = Some (Ok (seg (page (ram m1) (dma_phys (dma_buf v))) 512 1024), m2))"
  by (rule past_end_reports_success [OF vs.virtio_started_axioms sample_premises(1-3,5,8)])

end
