(* ===== verification/AhciStart.thy ===== *)
theory AhciStart
  imports AhciDisk VirtioLaws
begin

text \<open>
  Start-up of the AHCI driver on an adapter that keeps the laws of \<open>AhciDisk\<close>, from the registers of the controller to the
  first transfers, and what becomes of a port that the firmware left running.
\<close>

section \<open>The engines of a port\<close>

lemma bit_and_exp: "i < 32 \<Longrightarrow> (of_nat n :: u32) AND push_bit i 1 \<noteq> 0 \<longleftrightarrow> bit n i"
proof -
  assume i: "i < 32"
  have "(of_nat n :: u32) AND push_bit i 1 \<noteq> 0 \<longleftrightarrow> bit (of_nat n :: u32) i"
  proof
    assume "(of_nat n :: u32) AND push_bit i 1 \<noteq> 0"
    then obtain j where "bit ((of_nat n :: u32) AND push_bit i 1) j" by (auto simp: bit_eq_iff)
    then show "bit (of_nat n :: u32) i" by (auto simp: bit_and_iff bit_exp_iff)
  next
    assume "bit (of_nat n :: u32) i"
    then have "bit ((of_nat n :: u32) AND push_bit i 1) i" using i by (simp add: bit_simps)
    then show "(of_nat n :: u32) AND push_bit i 1 \<noteq> 0" by (metis bit_0_eq bot_apply bot_bool_def)
  qed
  also have "bit (of_nat n :: u32) i \<longleftrightarrow> bit n i" using i by (simp add: bit_of_nat_iff)
  finally show ?thesis .
qed

lemma enable_keeps_even:
  assumes "even n"
  shows "even (unat ((of_nat n :: u32) OR push_bit 31 1))"
proof -
  have "bit (unat ((of_nat n :: u32) OR push_bit 31 1)) 0 \<longleftrightarrow> bit n 0"
    by (simp only: bit_unsigned_iff bit_or_iff bit_push_bit_iff bit_of_nat_iff) simp
  then show ?thesis using assms by (simp add: bit_0)
qed

lemma settles_trans:
  assumes "settles d d'" "settles d' d''"
  shows "settles d d''"
proof -
  obtain fr cr where 1: "d' = d\<lparr>hba_fr := fr, hba_cr := cr\<rparr>" "fr \<in> {hba_fr d, hba_fre d}" "cr \<in> {hba_cr d, hba_st d}"
    using assms(1) unfolding settles_def by blast
  obtain fr' cr' where 2: "d'' = d'\<lparr>hba_fr := fr', hba_cr := cr'\<rparr>" "fr' \<in> {hba_fr d', hba_fre d'}" "cr' \<in> {hba_cr d', hba_st d'}"
    using assms(2) unfolding settles_def by blast
  show ?thesis
    unfolding settles_def by (rule exI [of _ fr'], rule exI [of _ cr']) (use 1 2 in auto)
qed

lemma settles_refl: "settles d d"
  by (cases d) (auto simp: settles_def)

lemma settles_ci: "settles d d' \<Longrightarrow> hba_ci d' = hba_ci d"
  by (auto simp: settles_def)

definition asleep :: "hba \<Rightarrow> bool" where
  "asleep d \<longleftrightarrow> hba_ci d = 0 \<and> \<not> hba_st d \<and> \<not> hba_fre d \<and> \<not> hba_fr d \<and> \<not> hba_cr d"

context ahci_adapter
begin

abbreviation (input) port_cmd :: u64 where
  "port_cmd \<equiv> port_at abar k + PORT_CMD"

lemma cmd_bits:
  "read_u32 mm m port_cmd AND 1 \<noteq> 0 \<longleftrightarrow> hba_st (hv (hw m))" "read_u32 mm m port_cmd AND 0x10 \<noteq> 0 \<longleftrightarrow> hba_fre (hv (hw m))"
  "read_u32 mm m port_cmd AND 0x4000 \<noteq> 0 \<longleftrightarrow> hba_fr (hv (hw m))" "read_u32 mm m port_cmd AND 0x8000 \<noteq> 0 \<longleftrightarrow> hba_cr (hv (hw m))"
  using bit_and_exp [of 0 "mm_rd mm (hw m) port_cmd 4"] bit_and_exp [of 4 "mm_rd mm (hw m) port_cmd 4"]
    bit_and_exp [of 14 "mm_rd mm (hw m) port_cmd 4"] bit_and_exp [of 15 "mm_rd mm (hw m) port_cmd 4"]
  by (simp_all add: read_u32_def rd_reg_def rd_cmd [simplified])

text \<open>The value written back with one more bit.\<close>

lemma cmd_written:
  "odd (unat (read_u32 mm m port_cmd OR 0x10)) \<longleftrightarrow> hba_st (hv (hw m))" "bit (unat (read_u32 mm m port_cmd OR 0x10)) 4"
  "odd (unat (read_u32 mm m port_cmd OR 1))" "bit (unat (read_u32 mm m port_cmd OR 1)) 4 \<longleftrightarrow> hba_fre (hv (hw m))"
  using rd_cmd(1,2) [of "hw m"]
  by (simp_all add: read_u32_def rd_reg_def bit_unsigned_iff bit_or_iff bit_of_nat_iff flip: bit_0)

lemma reg_hv:
  "reg_allowed abar (port_at abar k) a (unat v) (hv (hw m)) \<Longrightarrow>
   settles (hba_reg (port_at abar k) a (unat v) (hv (hw m))) (hv (hw (write_u32 mm a v m)))"
  using reg_write [of a "unat v" m] by (simp add: write_u32_def)

text \<open>With both engines off and not running, a write to another register than the command register changes that one only.\<close>

lemma asleep_settles: "asleep d \<Longrightarrow> settles d d' \<Longrightarrow> d' = d"
  by (cases d) (auto simp: settles_def asleep_def)

lemma reg_asleep:
  assumes "reg_allowed abar (port_at abar k) a (unat v) (hv (hw m))" "asleep (hv (hw m))" "a \<noteq> port_cmd"
  shows "hv (hw (write_u32 mm a v m)) = hba_reg (port_at abar k) a (unat v) (hv (hw m))"
proof -
  have "asleep (hba_reg (port_at abar k) a (unat v) (hv (hw m)))"
    using assms(2,3) by (auto simp: asleep_def hba_reg_def)
  from asleep_settles [OF this reg_hv [OF assms(1)]] show ?thesis .
qed

lemma idle_ticks:
  assumes "hba_ci (hv (hw m)) = 0"
  shows "settles (hv (hw m)) (hv (hw ((mm_tick mm ^^ n) m)))"
proof (induction n)
  case 0
  then show ?case by (simp add: settles_refl)
next
  case (Suc n)
  then have "hba_ci (hv (hw ((mm_tick mm ^^ n) m))) = 0" using settles_ci assms by metis
  from settles_trans [OF Suc idle_tick [OF this]] show ?case by simp
qed

lemma wait_fr:
  assumes "hba_ci (hv (hw m)) = 0" "hba_fre (hv (hw m))"
  obtains m' where "wait_for_set mm port_cmd 0x4000 100000 m = (True, m')" "settles (hv (hw m)) (hv (hw m'))" "hba_fr (hv (hw m'))"
proof -
  obtain n where n: "n \<le> spin" "hba_fr (hv (hw ((mm_tick mm ^^ n) m)))" using fr_follows [OF assms(1)] assms(2) by auto
  then have "n < 10000000" using in_time(1) by linarith
  from poll_set_within [OF _ this, of mm m port_cmd "0x4000"] n(2) obtain j where
    "poll_set mm port_cmd 0x4000 10000000 m = (True, (mm_tick mm ^^ j) m)" "hba_fr (hv (hw ((mm_tick mm ^^ j) m)))"
    unfolding cmd_bits by blast
  then show thesis using that [of "(mm_tick mm ^^ j) m"] idle_ticks [OF assms(1)] by (simp add: wait_for_set_def)
qed

lemma wait_cr:
  assumes "hba_ci (hv (hw m)) = 0" "hba_st (hv (hw m))" "hba_fre (hv (hw m))" "hba_fr (hv (hw m))"
  obtains m' where "wait_for_set mm port_cmd 0x8000 100000 m = (True, m')" "settles (hv (hw m)) (hv (hw m'))" "hba_cr (hv (hw m'))"
proof -
  obtain n where n: "n \<le> spin" "hba_cr (hv (hw ((mm_tick mm ^^ n) m)))" using cr_follows [OF assms(1)] assms(2-4) by auto
  then have "n < 10000000" using in_time(1) by linarith
  from poll_set_within [OF _ this, of mm m port_cmd "0x8000"] n(2) obtain j where
    "poll_set mm port_cmd 0x8000 10000000 m = (True, (mm_tick mm ^^ j) m)" "hba_cr (hv (hw ((mm_tick mm ^^ j) m)))"
    unfolding cmd_bits by blast
  then show thesis using that [of "(mm_tick mm ^^ j) m"] idle_ticks [OF assms(1)] by (simp add: wait_for_set_def)
qed

lemma stop_idle: "asleep (hv (hw m)) \<Longrightarrow> port_stop_engines mm (port_at abar k) m = (Ok (), m)"
  using cmd_bits(1,2) [of m] by (simp add: port_stop_engines_def Let_def asleep_def)

text \<open>The registers are set, and both engines run.\<close>

definition running :: "u64 \<Rightarrow> u64 \<Rightarrow> hba \<Rightarrow> hba" where
  "running clb fb d = d\<lparr>hba_clb := clb, hba_fb := fb, hba_st := True, hba_fre := True, hba_fr := True, hba_cr := True\<rparr>"

lemma start_idle:
  assumes d: "asleep (hv (hw m))"
  obtains m' where "port_start mm (port_at abar k) cl ct rf db m = (Ok (), m')"
    "hv (hw m') = running (dma_phys cl) (dma_phys rf) (hv (hw m))"
proof -
  let ?b = "port_at abar k" and ?d = "hv (hw m)"
  define m0 where "m0 = cpu_wr mm (dma_virt db) (zeros 4096) (cpu_wr mm (dma_virt rf) (zeros 4096)
     (cpu_wr mm (dma_virt ct) (zeros 4096) (cpu_wr mm (dma_virt cl) (zeros 4096) m)))"
  define m1 where "m1 = write_u32 mm (?b + PORT_CLB) (ucast (dma_phys cl)) m0"
  define m2 where "m2 = write_u32 mm (?b + PORT_CLBU) (ucast (drop_bit 32 (dma_phys cl))) m1"
  define m3 where "m3 = write_u32 mm (?b + PORT_FB) (ucast (dma_phys rf)) m2"
  define m4 where "m4 = write_u32 mm (?b + PORT_FBU) (ucast (drop_bit 32 (dma_phys rf))) m3"
  define m5 where "m5 = write_u32 mm (?b + PORT_SERR) 0xFFFFFFFF (write_u32 mm (?b + PORT_IS) 0xFFFFFFFF m4)"
  define m6 where "m6 = write_u32 mm port_cmd (read_u32 mm m5 port_cmd OR 0x10) m5"
  have h0: "hv (hw m0) = ?d" by (simp add: m0_def cpu_wr_def)
  have off: "\<not> hba_st ?d" "\<not> hba_fre ?d" "\<not> hba_fr ?d" "\<not> hba_cr ?d" "hba_ci ?d = 0" using d by (simp_all add: asleep_def)
  have h2: "hv (hw m2) = ?d\<lparr>hba_clb := dma_phys cl\<rparr>"
    unfolding m2_def m1_def using off by (simp add: reg_asleep reg_allowed_def asleep_def hba_reg_def h0 set_halves)
  have h4: "hv (hw m4) = ?d\<lparr>hba_clb := dma_phys cl, hba_fb := dma_phys rf\<rparr>"
    unfolding m4_def m3_def using off by (simp add: reg_asleep reg_allowed_def asleep_def hba_reg_def h2 set_halves)
  have h5: "hv (hw m5) = ?d\<lparr>hba_clb := dma_phys cl, hba_fb := dma_phys rf\<rparr>"
    unfolding m5_def using off by (simp add: reg_asleep reg_allowed_def asleep_def hba_reg_def h4)
  have "reg_allowed abar ?b port_cmd (unat (read_u32 mm m5 port_cmd OR 0x10)) (hv (hw m5))"
    using off h5 by (simp add: reg_allowed_def cmd_written [simplified])
  from reg_hv [OF this] have s6: "settles (?d\<lparr>hba_clb := dma_phys cl, hba_fb := dma_phys rf, hba_st := False, hba_fre := True\<rparr>) (hv (hw m6))"
    using off h5 unfolding m6_def by (simp add: hba_reg_def cmd_written [simplified])
  obtain m7 where m7: "wait_for_set mm port_cmd 0x4000 100000 m6 = (True, m7)" "settles (hv (hw m6)) (hv (hw m7))" "hba_fr (hv (hw m7))"
    by (rule wait_fr [of m6]) (use s6 off in \<open>auto simp: settles_def\<close>)
  have h7: "hv (hw m7) = ?d\<lparr>hba_clb := dma_phys cl, hba_fb := dma_phys rf, hba_st := False, hba_fre := True, hba_fr := True, hba_cr := False\<rparr>"
    using settles_trans [OF s6 m7(2)] m7(3) off unfolding settles_def by auto
  define m8 where "m8 = write_u32 mm port_cmd (read_u32 mm m7 port_cmd OR 1) m7"
  have "reg_allowed abar ?b port_cmd (unat (read_u32 mm m7 port_cmd OR 1)) (hv (hw m7))"
    using h7 by (simp add: reg_allowed_def cmd_written [simplified])
  from reg_hv [OF this]
  have s8: "settles (?d\<lparr>hba_clb := dma_phys cl, hba_fb := dma_phys rf, hba_fr := True, hba_cr := False, hba_st := True, hba_fre := True\<rparr>) (hv (hw m8))"
    unfolding m8_def by (simp add: hba_reg_def cmd_written [simplified] h7)
  obtain m9 where m9: "wait_for_set mm port_cmd 0x8000 100000 m8 = (True, m9)" "settles (hv (hw m8)) (hv (hw m9))" "hba_cr (hv (hw m9))"
    by (rule wait_cr [of m8]) (use s8 off in \<open>auto simp: settles_def\<close>)
  have h9: "hv (hw m9) = running (dma_phys cl) (dma_phys rf) ?d"
    using settles_trans [OF s8 m9(2)] m9(3) unfolding settles_def running_def by auto
  have "port_start mm ?b cl ct rf db m = (Ok (), m9)"
    unfolding port_start_def Let_def m0_def [symmetric] m1_def [symmetric] m2_def [symmetric] m3_def [symmetric] m4_def [symmetric]
      m5_def [symmetric] m6_def [symmetric]
    by (simp add: m7(1) must_def m8_def [symmetric] m9(1))
  with h9 show thesis by (intro that)
qed

end

section \<open>Bringing a port up\<close>

definition port_of :: "u64 \<Rightarrow> DmaBuffer \<Rightarrow> DmaBuffer \<Rightarrow> DmaBuffer \<Rightarrow> DmaBuffer \<Rightarrow> PortState" where
  "port_of base cl ct rf db = \<lparr>port_base = base, cmd_list_buf = cl, cmd_table_buf = ct, rfis_buf = rf, data_buf = db\<rparr>"

locale ahci_setup = ahci_adapter mm hv abar k spin delay + dma_pages dma "mm_off mm" stock
  for mm :: "'hw mmio" and hv abar k spin delay and dma :: "'al dma_allocator" and stock
begin

lemma dma_page_block_next:
  assumes "stock al = p # ps"
  obtains al' where "dma_page_block dma (m, al) = (Ok (buf p), m, al')" "stock al' = ps"
  using next_page [OF assms] that by (auto simp: dma_page_block_def buf_def)

lemma port_init_idle:
  assumes "asleep (hv (hw m))" "stock al = p1 # p2 # p3 # p4 # ps"
  obtains m' al' where "port_init mm dma abar k (m, al) = (Ok (port_of (port_at abar k) (buf p1) (buf p2) (buf p3) (buf p4)), m', al')"
    "hv (hw m') = running p1 p3 (hv (hw m))" "port_pages (mm_off mm) (port_of (port_at abar k) (buf p1) (buf p2) (buf p3) (buf p4))"
proof -
  obtain a1 where a1: "dma_page_block dma (m, al) = (Ok (buf p1), m, a1)" "stock a1 = p2 # p3 # p4 # ps"
    using dma_page_block_next [OF assms(2)] by blast
  obtain a2 where a2: "dma_page_block dma (m, a1) = (Ok (buf p2), m, a2)" "stock a2 = p3 # p4 # ps"
    using dma_page_block_next [OF a1(2)] by blast
  obtain a3 where a3: "dma_page_block dma (m, a2) = (Ok (buf p3), m, a3)" "stock a3 = p4 # ps"
    using dma_page_block_next [OF a2(2)] by blast
  obtain a4 where a4: "dma_page_block dma (m, a3) = (Ok (buf p4), m, a4)" "stock a4 = ps"
    using dma_page_block_next [OF a3(2)] by blast
  obtain m' where m': "port_start mm (port_at abar k) (buf p1) (buf p2) (buf p3) (buf p4) m = (Ok (), m')"
      "hv (hw m') = running p1 p3 (hv (hw m))"
    using start_idle [OF assms(1), of "buf p1" "buf p2" "buf p3" "buf p4"] by auto
  have "port_init mm dma abar k (m, al) = (Ok (port_of (port_at abar k) (buf p1) (buf p2) (buf p3) (buf p4)), m', a4)"
    using a1(1) a2(1) a3(1) a4(1) stop_idle [OF assms(1)] m'(1)
    by (simp add: port_init_def Let_def with_alloc_def port_of_def flip: port_at_def)
  moreover have "port_pages (mm_off mm) (port_of (port_at abar k) (buf p1) (buf p2) (buf p3) (buf p4))"
    using stock_pages [of al] assms(2) by (auto simp: port_pages_def port_of_def)
  ultimately show thesis using that m'(2) by blast
qed

end

section \<open>Identification\<close>

text \<open>Words 100 and 101 of the answer to \<open>IDENTIFY\<close>.\<close>

definition ident_count :: "u8 list \<Rightarrow> nat" where
  "ident_count ident = le_val (seg ident 200 204)"

lemma or_words: "a < 65536 \<Longrightarrow> b < 65536 \<Longrightarrow> (of_nat a OR push_bit 16 (of_nat b) :: u64) = of_nat (a + 65536 * b)"
proof -
  assume ab: "a < 65536" "b < 65536"
  have "take_bit 16 a = a" using ab(1) by (simp add: take_bit_nat_eq_self)
  then have "\<not> bit a n" if "16 \<le> n" for n using that by (metis bit_take_bit_iff linorder_not_less)
  then have "(of_nat a :: u64) AND push_bit 16 (of_nat b) = 0"
    by (intro bit_word_eqI) (auto simp: bit_and_iff bit_push_bit_iff bit_of_nat_iff)
  then have "(of_nat a OR push_bit 16 (of_nat b) :: u64) = of_nat a + push_bit 16 (of_nat b)"
    by (rule disjunctive_add_eq_or [symmetric])
  then show ?thesis by (simp add: push_bit_eq_mult mult.commute)
qed

context ahci_adapter
begin

lemma identify_on_hba:
  assumes p: "port_pages (mm_off mm) p" "port_base p = port_at abar k" and rdy: "hba_ready p (hv (hw m))"
    and len: "length (hba_ident (hv (hw m))) = 512"
  obtains m' where "identify_sector_count mm p m
      = (if ident_count (hba_ident (hv (hw m))) = 0 then None else Some (of_nat (ident_count (hba_ident (hv (hw m))))), m')"
    "hba_ready p (hv (hw m'))" "hba_count (hv (hw m')) = hba_count (hv (hw m))" "hba_sectors (hv (hw m')) = hba_sectors (hv (hw m))"
    "hba_pi (hv (hw m')) = hba_pi (hv (hw m))"
proof -
  let ?s = "hba_ident (hv (hw m))"
  have k: "known_command (hv (hw m)) 0xEC 0" by (simp add: known_command_def)
  obtain m' where m': "issue_command mm p 0xEC 0 1 False m = (Ok (), m')"
      "hv (hw m') = hw (hba_execute (issued p 0xEC 0 False (view hv m)))"
      "page (ram m') (dma_phys (data_buf p)) = page (ram (hba_execute (issued p 0xEC 0 False (view hv m)))) (dma_phys (data_buf p))"
    by (rule issue_runs [OF p rdy k, of False]) simp_all
  have e: "hba_execute (issued p 0xEC 0 False (view hv m)) =
    \<lparr>ram = poke (dma_phys (data_buf p)) ?s (prepared p 0xEC 0 False (ram m)), hw = (hv (hw m))\<lparr>hba_ci := 0, hba_tfd := 0x50\<rparr>\<rparr>"
    using execute_identify [OF p(1), of "view hv m" 0 False] rdy by (simp add: hba_ready_def)
  have "cpu_rd mm m' (dma_virt (data_buf p)) 512 = ?s" using data_on_hba [OF p(1) _ len] m'(3) e by simp
  then have id: "identify mm p m = (Ok ?s, m')" by (simp add: identify_def m'(1))
  let ?a = "le_val (seg ?s 200 202)" and ?b = "le_val (seg ?s 202 204)"
  have ab: "?a < 65536" "?b < 65536" using le_val_bound [of "seg ?s 200 202"] le_val_bound [of "seg ?s 202 204"] len by simp_all
  have "seg ?s 200 204 = seg ?s 200 202 @ seg ?s 202 204" by (simp add: seg_join)
  then have n: "ident_count ?s = ?a + 65536 * ?b" using len by (simp add: ident_count_def le_val_append)
  have "ident_count ?s < 2 ^ 64" using ab unfolding n by simp
  then have z: "(of_nat (ident_count ?s) :: u64) = 0 \<longleftrightarrow> ident_count ?s = 0"
    by (simp add: word_unat_eq_iff unat_of_nat take_bit_nat_eq_self)
  have h: "hv (hw m') = (hv (hw m))\<lparr>hba_ci := 0, hba_tfd := 0x50\<rparr>" using m'(2) e by simp
  show thesis
  proof (rule that [of m'])
    show "identify_sector_count mm p m = (if ident_count ?s = 0 then None else Some (of_nat (ident_count ?s)), m')"
      using z unfolding identify_sector_count_def id prod.case result.case or_words [OF ab] Let_def n by simp
  qed (use h rdy in \<open>simp_all add: hba_ready_def\<close>)
qed

end

section \<open>The controller\<close>

lemma init_ports_skip:
  assumes "\<forall>i \<in> set is. implemented AND push_bit i 1 = 0"
  shows "init_ports mm dma mmio_base implemented (is @ js) s = init_ports mm dma mmio_base implemented js s"
  using assms by (induction "is") (simp_all add: Let_def)

lemma one_port_implemented:
  assumes "k < 32" "i < 32" "i \<noteq> k"
  shows "(push_bit k 1 :: u32) AND push_bit i 1 = 0" "(push_bit k 1 :: u32) AND push_bit k 1 \<noteq> 0"
proof -
  show "(push_bit k 1 :: u32) AND push_bit i 1 = 0"
    using assms(3) by (intro bit_word_eqI) (auto simp: bit_and_iff bit_push_bit_iff bit_exp_iff)
  have "bit ((push_bit k 1 :: u32) AND push_bit k 1) k" using assms(1) by (simp add: bit_and_iff bit_push_bit_iff bit_exp_iff)
  then show "(push_bit k 1 :: u32) AND push_bit k 1 \<noteq> 0" by (metis bit_0_eq bot_apply bot_bool_def)
qed

lemma init_ports_alone:
  assumes k: "k < 32"
  shows "init_ports mm dma mmio_base (push_bit k 1) [0..<32] s = init_ports mm dma mmio_base (push_bit k 1) (k # [Suc k..<32]) s"
    "init_ports mm dma mmio_base (push_bit k 1) [Suc k..<32] s = (Ok [], s)"
proof -
  have l: "[0..<32] = [0..<k] @ k # [Suc k..<32]"
    using k upt_add_eq_append [of 0 k "32 - k"] by (simp add: upt_conv_Cons)
  have "\<forall>i \<in> set [0..<k]. (push_bit k 1 :: u32) AND push_bit i 1 = 0" "\<forall>i \<in> set [Suc k..<32]. (push_bit k 1 :: u32) AND push_bit i 1 = 0"
    using one_port_implemented(1) [OF k] k by auto
  note skip = init_ports_skip [OF this(1)] init_ports_skip [OF this(2), where js = "[]"]
  show "init_ports mm dma mmio_base (push_bit k 1) [0..<32] s = init_ports mm dma mmio_base (push_bit k 1) (k # [Suc k..<32]) s"
    unfolding l by (rule skip(1))
  show "init_ports mm dma mmio_base (push_bit k 1) [Suc k..<32] s = (Ok [], s)" using skip(2) by simp
qed

lemma init_ports_one:
  assumes k: "k < 32" and ssts: "ssts AND 0xF = 1 \<or> ssts AND 0xF = 3" "drop_bit 8 ssts AND 0xF = 1"
    and rd: "read_u32 mm (fst s) (port_at mmio_base k + PORT_SSTS) = ssts"
    and init: "port_init mm dma mmio_base k s = (Ok st, m1, al1)" "identify_sector_count mm st m1 = (cnt, m2)"
  shows "init_ports mm dma mmio_base (push_bit k 1) [0..<32] s =
    (Ok [\<lparr>port_idx = of_nat k, port_state = st, port_sectors = (case cnt of Some n \<Rightarrow> n | None \<Rightarrow> 131071)\<rparr>], m2, al1)"
proof -
  have "read_u32 mm (fst s) (mmio_base + 0x100 + of_nat k * 0x80 + PORT_SSTS) = ssts"
    using rd by (simp add: port_at_def)
  then show ?thesis
    unfolding init_ports_alone(1) [OF k]
    using init_ports_alone(2) [OF k, of mm dma mmio_base "(m2, al1)"] ssts init one_port_implemented(2) [OF k, of "if k = 0 then 1 else 0"]
    by (auto simp: Let_def)
qed

text \<open>One idle port with a disk on it, and no other.\<close>

definition disk_attached :: "nat \<Rightarrow> hba \<Rightarrow> bool" where
  "disk_attached k d \<longleftrightarrow> hba_pi d = push_bit k 1
     \<and> (hba_ssts d AND 0xF = 1 \<or> hba_ssts d AND 0xF = 3) \<and> drop_bit 8 (hba_ssts d) AND 0xF = 1
     \<and> hba_ci d = 0 \<and> \<not> hba_st d \<and> \<not> hba_fre d \<and> \<not> hba_fr d \<and> \<not> hba_cr d \<and> hba_tfd d AND 0x88 = 0
     \<and> length (hba_ident d) = 512 \<and> (\<forall>n < hba_count d. length (hba_sectors d n) = 512)"

definition disk_size :: "hba \<Rightarrow> u64" where
  "disk_size d = (if ident_count (hba_ident d) = 0 then 131071 else of_nat (ident_count (hba_ident d)))"

context ahci_setup
begin

lemma ahci_init_ready:
  assumes d: "disk_attached k (hv (hw m))" and left: "stock al = p1 # p2 # p3 # p4 # ps"
  obtains st m1 al1 p where "ahci_init mm dma abar (m, al)
      = (Ok \<lparr>ahci_mmio_base = abar, ahci_ports = [\<lparr>port_idx = of_nat k, port_state = p, port_sectors = disk_size (hv (hw m))\<rparr>]\<rparr>, m1, al1)"
    "port_pages (mm_off mm) p" "port_base p = port_at abar k" "hba_ready p (hv (hw m1))"
    "hba_count (hv (hw m1)) = hba_count (hv (hw m))" "hba_sectors (hv (hw m1)) = hba_sectors (hv (hw m))"
proof -
  define m0 where "m0 = write_u32 mm (abar + HBA_GHC) (read_u32 mm m (abar + HBA_GHC) OR push_bit 31 1) m"
  have "even (unat (read_u32 mm m (abar + HBA_GHC) OR push_bit 31 1))"
    unfolding read_u32_def rd_reg_def by (rule enable_keeps_even [OF rd_ghc])
  moreover have "port_at abar k + r \<noteq> abar + HBA_GHC" if "r = of_nat x" "x < 0x80" for r :: u64 and x
    using controller_register [OF port, of 4 x abar] that by (auto simp: port_at_def)
  note this [of _ "0x18"] this [of _ 0] this [of _ 4] this [of _ 8] this [of _ 12]
  ultimately have h0: "hv (hw m0) = hv (hw m)"
    unfolding m0_def using d by (subst reg_asleep) (auto simp: reg_allowed_def hba_reg_def asleep_def disk_attached_def)
  let ?p = "port_of (port_at abar k) (buf p1) (buf p2) (buf p3) (buf p4)"
  have "asleep (hv (hw m0))" using d by (simp add: h0 disk_attached_def asleep_def)
  from port_init_idle [OF this left] obtain m' al1 where i: "port_init mm dma abar k (m0, al) = (Ok ?p, m', al1)"
      "hv (hw m') = running p1 p3 (hv (hw m))" "port_pages (mm_off mm) ?p"
    unfolding h0 by blast
  have b: "port_base ?p = port_at abar k" by (simp add: port_of_def)
  have r: "hba_ready ?p (hv (hw m'))" using d by (simp add: i(2) hba_ready_def running_def port_of_def disk_attached_def)
  have kept: "hba_ident (hv (hw m')) = hba_ident (hv (hw m))" "hba_count (hv (hw m')) = hba_count (hv (hw m))"
    "hba_sectors (hv (hw m')) = hba_sectors (hv (hw m))"
    by (simp_all add: i(2) running_def)
  have l: "length (hba_ident (hv (hw m'))) = 512" using d by (simp add: i(2) running_def disk_attached_def)
  obtain m1 where m1: "identify_sector_count mm ?p m'
      = (if ident_count (hba_ident (hv (hw m))) = 0 then None else Some (of_nat (ident_count (hba_ident (hv (hw m))))), m1)"
    "hba_ready ?p (hv (hw m1))" "hba_count (hv (hw m1)) = hba_count (hv (hw m))" "hba_sectors (hv (hw m1)) = hba_sectors (hv (hw m))"
    using identify_on_hba [OF i(3) b r l] unfolding kept by blast
  have s: "read_u32 mm (fst (m0, al)) (port_at abar k + PORT_SSTS) = hba_ssts (hv (hw m))" and pi: "read_u32 mm m0 (abar + HBA_PI) = push_bit k 1"
    using d by (simp_all add: read_registers h0 disk_attached_def)
  have "init_ports mm dma abar (push_bit k 1) [0..<32] (m0, al)
      = (Ok [\<lparr>port_idx = of_nat k, port_state = ?p, port_sectors = disk_size (hv (hw m))\<rparr>], m1, al1)"
    using init_ports_one [OF port _ _ s i(1) m1(1)] d by (simp add: disk_attached_def disk_size_def)
  then have "ahci_init mm dma abar (m, al)
      = (Ok \<lparr>ahci_mmio_base = abar, ahci_ports = [\<lparr>port_idx = of_nat k, port_state = ?p, port_sectors = disk_size (hv (hw m))\<rparr>]\<rparr>, m1, al1)"
    unfolding ahci_init_def Let_def fst_conv snd_conv m0_def [symmetric] pi by simp
  with i(3) b m1(2-4) show thesis using that by blast
qed

end


definition fresh_hba :: "bool \<Rightarrow> slow_hba Machine" where
  "fresh_hba on = \<lparr>ram = (\<lambda>_. 0), hw = \<lparr>sh_hba = \<lparr>hba_ci = 0, hba_tfd = 0x50, hba_pi = 4, hba_ssts = 0x123, hba_clb = 0, hba_fb = 0,
     hba_st = on, hba_fre = on, hba_fr = on, hba_cr = on, hba_ident = zeros 200 @ le32 1024 @ zeros 308,
     hba_sectors = (\<lambda>n. replicate 512 (of_nat n)), hba_count = 1024\<rparr>, sh_timer = 0\<rparr>\<rparr>"

abbreviation sample_ahci :: "slow_hba mmio" where
  "sample_ahci \<equiv> slow_machine 0 0xFEB00000 2 9"

lemma fresh_hba_attached: "disk_attached 2 (sh_hba (hw (fresh_hba False)))"
  by (simp add: disk_attached_def fresh_hba_def)

interpretation sa: ahci_setup sample_ahci sh_hba "0xFEB00000" 2 1 10 "dma_alloc page_of 0" frames_left
proof (unfold_locales, goal_cases)
  case (2 al p ps)
  then show ?case using kd.next_page [where off = 0] by (simp add: slow_machine_def)
qed (rule kd.stock_pages)


section \<open>Ports that are running\<close>

text \<open>
  An adapter that shows in the bit \<open>CR\<close>, from the write that sets \<open>ST\<close> on, that the command engine runs, as long as \<open>ST\<close> is set. On one
  that shows it later, the driver would find the engine stopped.
\<close>

definition cr_follows_st :: "'hw mmio \<Rightarrow> u64 \<Rightarrow> bool" where
  "cr_follows_st mm base \<longleftrightarrow> (\<forall>x v n. v AND 1 \<noteq> 0 \<longrightarrow>
     read_u32 mm ((mm_tick mm ^^ n) (write_u32 mm (base + PORT_CMD) v x)) (base + PORT_CMD) AND 0x8000 \<noteq> 0)"

lemma poll_clear_never:
  assumes "\<And>i. read_u32 mm ((mm_tick mm ^^ i) m) addr AND msk \<noteq> 0"
  shows "\<not> fst (poll_clear mm addr msk n m)"
  using assms
proof (induction n arbitrary: m)
  case 0
  then show ?case by simp
next
  case (Suc n)
  have "read_u32 mm ((mm_tick mm ^^ i) (mm_tick mm m)) addr AND msk \<noteq> 0" for i
    using Suc.prems [of "Suc i"] by (simp add: funpow_swap1)
  then have "\<not> fst (poll_clear mm addr msk n (mm_tick mm m))" by (rule Suc.IH)
  then show ?case using Suc.prems [of 0] by simp
qed

lemma running_port_busy:
  assumes "cr_follows_st mm (port_at mmio_base k)"
    and "read_u32 mm m (port_at mmio_base k + PORT_CMD) AND 1 \<noteq> 0" "read_u32 mm m (port_at mmio_base k + PORT_CMD) AND 0x10 \<noteq> 0"
  obtains m' where "port_init mm dma mmio_base k (m, al) = (Err DeviceBusy, m', al)"
proof -
  let ?b = "port_at mmio_base k"
  let ?c = "read_u32 mm m (?b + PORT_CMD)"
  have "(?c AND NOT 0x10) AND 1 = ?c AND 1" by (simp add: and.assoc)
  then have "(?c AND NOT 0x10) AND 1 \<noteq> 0" using assms(2) by simp
  then have never: "\<not> fst (wait_for_clear mm (?b + PORT_CMD) 0x8000 100000 (write_u32 mm (?b + PORT_CMD) (?c AND NOT 0x10) x))" for x
    using assms(1) unfolding wait_for_clear_def cr_follows_st_def by (intro poll_clear_never) blast
  obtain r m1 where w: "must DeviceBusy (wait_for_clear mm (?b + PORT_CMD) 0x8000 1000000 (write_u32 mm (?b + PORT_CMD) (?c AND NOT 1) m)) = (r, m1)"
    by fastforce
  have "\<exists>m'. port_stop_engines mm ?b m = (Err DeviceBusy, m')"
  proof (cases "r = Ok ()")
    case True
    then show ?thesis using w never [of m1] assms(2,3) by (simp add: port_stop_engines_def Let_def) (simp add: must_def)
  next
    case False
    then have "r = Err DeviceBusy" using w by (auto simp: must_def split: if_splits)
    then show ?thesis using w assms(2,3) by (simp add: port_stop_engines_def Let_def)
  qed
  then show thesis using that by (auto simp: port_init_def Let_def with_alloc_def simp flip: port_at_def)
qed

lemma init_ports_busy:
  assumes "port_init mm dma mmio_base k s = (Err e, s')"
  shows "init_ports mm dma mmio_base implemented (k # is) s = init_ports mm dma mmio_base implemented is s
    \<or> init_ports mm dma mmio_base implemented (k # is) s = init_ports mm dma mmio_base implemented is s'"
  by (cases "implemented AND push_bit k 1 = 0") (simp_all add: Let_def assms)

text \<open>
  On such an adapter, a controller whose only port was left running by the firmware is refused. To stop the second engine the driver writes
  the command register as it was before it cleared \<open>ST\<close>, which starts the command engine again; it then waits for the
  engine to stop, which it does not do, and gives the port up as busy.
\<close>

theorem running_port_is_refused:
  assumes "cr_follows_st mm (port_at mmio_base k)" "k < 32"
    and "m1 = write_u32 mm (mmio_base + HBA_GHC) (read_u32 mm m (mmio_base + HBA_GHC) OR push_bit 31 1) m"
    and "read_u32 mm m1 (mmio_base + HBA_PI) = push_bit k 1"
    and "read_u32 mm m1 (port_at mmio_base k + PORT_CMD) AND 1 \<noteq> 0" "read_u32 mm m1 (port_at mmio_base k + PORT_CMD) AND 0x10 \<noteq> 0"
  shows "\<exists>m'. ahci_init mm dma mmio_base (m, al) = (Err (str ''AHCI: no usable ports found''), m', al)"
proof -
  obtain m2 where busy: "port_init mm dma mmio_base k (m1, al) = (Err DeviceBusy, m2, al)"
    by (rule running_port_busy [OF assms(1,5,6)])
  note skip = init_ports_alone [OF assms(2)]
  have "\<exists>m'. init_ports mm dma mmio_base (push_bit k 1) [0..<32] (m1, al) = (Ok [], m', al)"
    using init_ports_busy [OF busy, of "push_bit k 1" "[Suc k..<32]"] unfolding skip by blast
  then obtain m' where none: "init_ports mm dma mmio_base (push_bit k 1) [0..<32] (m1, al) = (Ok [], m', al)" by blast
  show ?thesis
    unfolding ahci_init_def Let_def fst_conv snd_conv assms(3) [symmetric] assms(4) none by simp
qed

lemma slow_running:
  assumes "hba_st (sh_hba (hw x))" "hba_cr (sh_hba (hw x))"
  shows "hba_st (sh_hba (hw ((slow_tick ^^ n) x))) \<and> hba_cr (sh_hba (hw ((slow_tick ^^ n) x)))"
  by (induction n) (use assms in \<open>simp_all add: slow_tick_def hba_execute_def Let_def\<close>)

theorem running_port_is_refused_witness:
  "\<exists>m'. ahci_init sample_ahci (dma_alloc page_of 0) 0xFEB00000 (fresh_hba True, sample_dma)
     = (Err (str ''AHCI: no usable ports found''), m', sample_dma)"
proof -
  let ?c = "port_at 0xFEB00000 2 + PORT_CMD"
  have "cr_follows_st sample_ahci (port_at 0xFEB00000 2)"
    unfolding cr_follows_st_def sh.cmd_bits
  proof (intro allI impI)
    fix x :: "slow_hba Machine" and v :: u32 and n
    assume "v AND 1 \<noteq> 0"
    then have "odd (unat v)" using bit_and_exp [of 0 "unat v"] by (simp add: bit_0)
    then have "hba_st (sh_hba (hw (write_u32 sample_ahci ?c v x)))" "hba_cr (sh_hba (hw (write_u32 sample_ahci ?c v x)))"
      by (simp_all add: write_u32_def slow_machine_def slow_write_def hba_reg_def Let_def)
    from slow_running [OF this] show "hba_cr (sh_hba (hw ((mm_tick sample_ahci ^^ n) (write_u32 sample_ahci ?c v x))))"
      by (simp add: slow_machine_def)
  qed
  moreover have "write_u32 sample_ahci (0xFEB00000 + HBA_GHC) v (fresh_hba True) = fresh_hba True" for v
    by (simp add: write_u32_def slow_machine_def slow_write_def hba_reg_def port_at_def fresh_hba_def Let_def)
  moreover have "read_u32 sample_ahci (fresh_hba True) (0xFEB00000 + HBA_PI) = push_bit 2 1"
    by (simp add: sh.read_registers [simplified] fresh_hba_def)
  moreover have "read_u32 sample_ahci (fresh_hba True) ?c AND 1 \<noteq> 0" "read_u32 sample_ahci (fresh_hba True) ?c AND 0x10 \<noteq> 0"
    unfolding sh.cmd_bits by (simp_all add: fresh_hba_def)
  ultimately show ?thesis
    by (intro running_port_is_refused [where k = 2, OF _ _ refl]) simp_all
qed

end
