(* ===== verification/HeapMap.thy ===== *)
theory HeapMap
  imports Frames
begin

text \<open>
  The heap and the frames behind it: what \<open>init_heap\<close> leaves in the page tables and in the frame allocator, given a mapper
  with the documented behaviour of \<open>Mapper::map_to\<close>, and why later frames stay clear of the heap.
\<close>

section \<open>The mapper\<close>

text \<open>
  \<open>mapping\<close> is what the page tables translate, huge pages included. \<open>map_to\<close> enters an unmapped page, taking at most the
  three missing tables from the frame allocator. Pages are in the lower half of the address space.
\<close>

definition page_ok :: "nat \<Rightarrow> bool" where
  "page_ok p \<longleftrightarrow> 4096 dvd p \<and> p < 2 ^ 47"

locale page_mapper =
  fixes map_to :: "'m \<Rightarrow> nat \<Rightarrow> nat \<Rightarrow> BootInfoFrameAllocator \<Rightarrow> (unit, MapToError) result \<times> 'm \<times> BootInfoFrameAllocator"
    and mapping :: "'m \<Rightarrow> nat \<Rightarrow> nat option"
  assumes takes_frames: "map_to m p f fa = (r, m', fa') \<Longrightarrow>
      memory_map fa' = memory_map fa \<and> fa_next fa \<le> fa_next fa'"
    and enters: "mapping m p = None \<Longrightarrow> page_ok p \<Longrightarrow> addressable (memory_map fa) \<Longrightarrow> fa_next fa + 3 \<le> length (frame_list (memory_map fa)) \<Longrightarrow>
      \<exists>m' fa'. map_to m p f fa = (Ok (), m', fa') \<and> mapping m' = (mapping m)(p \<mapsto> f) \<and> fa_next fa' \<le> fa_next fa + 3"
begin

lemma map_pages_takes:
  assumes "frame_spec pf" "addressable (memory_map fa)" "map_pages pf map_to ps (m, fa) = (Ok (), m', fa')"
  shows "memory_map fa' = memory_map fa \<and> fa_next fa + length ps \<le> fa_next fa'"
  using assms(2,3)
proof (induction ps arbitrary: m fa)
  case Nil
  then show ?case by simp
next
  case (Cons p ps)
  let ?fl = "frame_list (memory_map fa)"
  have n: "fa_next fa < length ?fl"
    using Cons.prems by (auto simp: allocate_frame_value [OF assms(1) Cons.prems(1)] split: if_splits)
  obtain m1 fa1 where 1: "map_to m p (?fl ! fa_next fa) (fa\<lparr>fa_next := fa_next fa + 1\<rparr>) = (Ok (), m1, fa1)"
    "map_pages pf map_to ps (m1, fa1) = (Ok (), m', fa')"
    using Cons.prems n by (auto simp: allocate_frame_value [OF assms(1) Cons.prems(1)] res_simps)
  have t: "memory_map fa1 = memory_map fa" "fa_next fa + 1 \<le> fa_next fa1" using takes_frames [OF 1(1)] by auto
  show ?case using Cons.IH [OF _ 1(2)] Cons.prems(1) t by simp
qed

lemma map_pages_enters:
  assumes "frame_spec pf" "addressable (memory_map fa)" "distinct ps" "\<forall>p \<in> set ps. mapping m p = None \<and> page_ok p"
    and "fa_next fa + 4 * length ps \<le> length (frame_list (memory_map fa))"
  shows "\<exists>m' fa' is. map_pages pf map_to ps (m, fa) = (Ok (), m', fa') \<and> length is = length ps \<and> sorted_wrt (<) is
     \<and> (\<forall>i \<in> set is. fa_next fa \<le> i \<and> i < fa_next fa') \<and> fa_next fa' \<le> fa_next fa + 4 * length ps
     \<and> mapping m' = (mapping m)(ps [\<mapsto>] map ((!) (frame_list (memory_map fa))) is)"
  using assms(2-5)
proof (induction ps arbitrary: m fa)
  case Nil
  then show ?case by (intro exI [of _ m] exI [of _ fa] exI [of _ "[]"]) simp
next
  case (Cons p ps)
  let ?fl = "frame_list (memory_map fa)" and ?fa = "fa\<lparr>fa_next := fa_next fa + 1\<rparr>"
  have n: "fa_next fa < length ?fl" using Cons.prems(4) by simp
  have r: "fa_next ?fa + 3 \<le> length (frame_list (memory_map ?fa))" using Cons.prems(4) by simp
  obtain m1 fa1 where 1: "map_to m p (?fl ! fa_next fa) ?fa = (Ok (), m1, fa1)"
    "mapping m1 = (mapping m)(p \<mapsto> ?fl ! fa_next fa)" "fa_next fa1 \<le> fa_next ?fa + 3"
    using enters [OF _ _ _ r, of m p "?fl ! fa_next fa"] Cons.prems(1,3) by auto
  have t: "memory_map fa1 = memory_map fa" "fa_next fa + 1 \<le> fa_next fa1" using takes_frames [OF 1(1)] by auto
  have "\<exists>m' fa' is. map_pages pf map_to ps (m1, fa1) = (Ok (), m', fa') \<and> length is = length ps \<and> sorted_wrt (<) is
     \<and> (\<forall>i \<in> set is. fa_next fa1 \<le> i \<and> i < fa_next fa') \<and> fa_next fa' \<le> fa_next fa1 + 4 * length ps
     \<and> mapping m' = (mapping m1)(ps [\<mapsto>] map ((!) (frame_list (memory_map fa1))) is)"
    using Cons.prems t 1(2,3) by (intro Cons.IH) auto
  then obtain m' fa' js where js: "map_pages pf map_to ps (m1, fa1) = (Ok (), m', fa')" "length js = length ps"
     "sorted_wrt (<) js" "\<forall>i \<in> set js. fa_next fa1 \<le> i \<and> i < fa_next fa'" "fa_next fa' \<le> fa_next fa1 + 4 * length ps"
     "mapping m' = (mapping m1)(ps [\<mapsto>] map ((!) ?fl) js)"
    unfolding t(1) by blast
  have le: "fa_next fa1 + length ps \<le> fa_next fa'"
    using map_pages_takes [OF assms(1) _ js(1)] Cons.prems(1) t(1) by simp
  have "map_pages pf map_to (p # ps) (m, fa) = (Ok (), m', fa')"
    using n js(1) 1(1) by (simp add: allocate_frame_value [OF assms(1) Cons.prems(1)])
  moreover have "sorted_wrt (<) (fa_next fa # js)" using js(3,4) t(2) by fastforce
  moreover have "\<forall>i \<in> set (fa_next fa # js). fa_next fa \<le> i \<and> i < fa_next fa'" using js(4) t(2) le by fastforce
  ultimately show ?case using js(2,5,6) 1(2,3) t(2)
    by (intro exI [of _ m'] exI [of _ fa'] exI [of _ "fa_next fa # js"]) simp
qed

end

text \<open>Page tables that are all there, as the boot loader leaves them for the heap.\<close>

definition table_map_to ::
    "(nat \<Rightarrow> nat option) \<Rightarrow> nat \<Rightarrow> nat \<Rightarrow> BootInfoFrameAllocator
     \<Rightarrow> (unit, MapToError) result \<times> (nat \<Rightarrow> nat option) \<times> BootInfoFrameAllocator" where
  "table_map_to m p f fa = (if m p = None then (Ok (), m(p \<mapsto> f), fa) else (Err MapFailed, m, fa))"

interpretation tm: page_mapper table_map_to "\<lambda>m. m"
  by unfold_locales (auto simp: table_map_to_def split: if_splits)

section \<open>The heap\<close>

lemma heap_pages_simps [simp]: "length heap_pages = 4096" "distinct heap_pages"
  by (simp_all add: heap_pages_def HEAP_SIZE_def distinct_map inj_on_def)

lemma heap_pages_ok: "p \<in> set heap_pages \<Longrightarrow> page_ok p"
  by (auto simp: heap_pages_def page_ok_def HEAP_START_def HEAP_SIZE_def)

lemma map_upds_nth:
  assumes "distinct ps" "length vs = length ps" "i < length ps"
  shows "(m(ps [\<mapsto>] vs)) (ps ! i) = Some (vs ! i)"
proof -
  have "distinct (map fst (rev (zip ps vs)))" using assms(1,2) by (simp flip: rev_map)
  moreover have "(ps ! i, vs ! i) \<in> set (rev (zip ps vs))" using assms(2,3) by (auto simp: in_set_zip)
  ultimately show ?thesis by (simp add: map_upds_def map_add_Some_iff)
qed

text \<open>Each page of the heap gets a usable frame of its own, and no other page changes.\<close>

definition heap_mapped :: "(nat \<Rightarrow> nat option) \<Rightarrow> (nat \<Rightarrow> nat option) \<Rightarrow> MemoryRegion list \<Rightarrow> bool" where
  "heap_mapped before after rs \<longleftrightarrow>
     (\<forall>p. p \<notin> set heap_pages \<longrightarrow> after p = before p) \<and> inj_on after (set heap_pages)
   \<and> (\<forall>p \<in> set heap_pages. \<exists>f. after p = Some f \<and> in_usable rs f)"

lemma init_heap_maps:
  assumes pm: "page_mapper map_to mapping" and "frame_spec pf" "page_aligned_map (memory_map fa)"
    and "\<forall>p \<in> set heap_pages. mapping m p = None" "fa_next fa + 16384 \<le> length (usable_addresses (memory_map fa))"
  shows "\<exists>m' fa'. init_heap pf map_to fi m fa heap = (Ok (fsb_init fi heap HEAP_START HEAP_SIZE), m', fa')
     \<and> memory_map fa' = memory_map fa \<and> fa_next fa + 4096 \<le> fa_next fa' \<and> fa_next fa' \<le> fa_next fa + 16384
     \<and> heap_mapped (mapping m) (mapping m') (memory_map fa)"
proof -
  let ?fl = "usable_addresses (memory_map fa)"
  note al = aligned_map_addressable [OF assms(3)]
  obtain m' fa' ix where ix: "map_pages pf map_to heap_pages (m, fa) = (Ok (), m', fa')" "length ix = 4096"
     "sorted_wrt (<) ix" "\<forall>i \<in> set ix. i < fa_next fa'" "fa_next fa' \<le> fa_next fa + 16384"
     "mapping m' = (mapping m)(heap_pages [\<mapsto>] map ((!) ?fl) ix)"
    using page_mapper.map_pages_enters [OF pm assms(2) al(1) heap_pages_simps(2), of m] assms(4,5) heap_pages_ok al(2) by auto
  have lt: "i < length ?fl" if "i \<in> set ix" for i using ix(4,5) assms(5) that by fastforce
  have at: "mapping m' (heap_pages ! i) = Some (?fl ! (ix ! i))" if "i < 4096" for i
    using map_upds_nth [of heap_pages "map ((!) ?fl) ix" i "mapping m"] ix(2,6) that by simp
  have "distinct ix" using ix(3) by (simp add: strict_sorted_iff)
  then have inj: "?fl ! (ix ! i) = ?fl ! (ix ! j) \<longleftrightarrow> i = j" if "i < 4096" "j < 4096" for i j
    using distinct_usable_addresses [OF assms(3)] lt that ix(2) by (simp add: nth_eq_iff_index_eq)
  have "inj_on (mapping m') (set heap_pages)"
    by (rule inj_onI) (auto simp: in_set_conv_nth at inj)
  moreover have "\<exists>f. mapping m' p = Some f \<and> in_usable (memory_map fa) f" if "p \<in> set heap_pages" for p
  proof -
    obtain i where i: "i < 4096" "p = heap_pages ! i"
      using \<open>p \<in> set heap_pages\<close> by (auto simp: in_set_conv_nth)
    then have "?fl ! (ix ! i) \<in> set ?fl" using lt [of "ix ! i"] ix(2) by simp
    with al(3) at [OF i(1)] i(2) show ?thesis by blast
  qed
  moreover have "mapping m' p = mapping m p" if "p \<notin> set heap_pages" for p using that ix(6) by simp
  ultimately have "heap_mapped (mapping m) (mapping m') (memory_map fa)" by (simp add: heap_mapped_def)
  then show ?thesis
    using ix(1,5) page_mapper.map_pages_takes [OF pm assms(2) al(1) ix(1)] by (simp add: init_heap_def)
qed

section \<open>Frames behind the heap\<close>

text \<open>The usable regions come in ascending order, as a sorted E820 map lists them.\<close>

definition ascending_map :: "MemoryRegion list \<Rightarrow> bool" where
  "ascending_map rs \<longleftrightarrow> page_aligned_map rs
     \<and> sorted_wrt (\<lambda>r q. unat (mr_end r) \<le> unat (mr_start q)) (filter (\<lambda>r. mr_kind r = Usable) rs)"

lemma sorted_region_pages: "sorted_wrt (<) (region_pages r)"
  by (auto simp: region_pages_def Let_def sorted_wrt_iff_nth_less)

lemma sorted_pages:
  assumes "sorted_wrt (\<lambda>r q. unat (mr_end r) \<le> unat (mr_start q)) us"
    and "\<And>r. r \<in> set us \<Longrightarrow> 4096 dvd unat (mr_start r) \<and> 4096 dvd unat (mr_end r)"
  shows "sorted_wrt (<) (concat (map region_pages us))"
  using assms
proof (induction us)
  case Nil
  then show ?case by simp
next
  case (Cons r us)
  have "a < b" if a: "a \<in> set (region_pages r)" and q: "q \<in> set us" and b: "b \<in> set (region_pages q)" for a b q
    using region_pages_mem(4) [of r a] region_pages_mem(3) [of q b] a b q Cons.prems by fastforce
  then show ?case using Cons sorted_region_pages [of r] by (auto simp: sorted_wrt_append)
qed

lemma ascending_addresses:
  assumes "ascending_map rs"
  shows "i < length (usable_addresses rs) \<Longrightarrow> 0x2000000 + 4096 * i \<le> usable_addresses rs ! i"
proof (induction i)
  case 0
  then have "usable_addresses rs ! 0 \<in> set (usable_addresses rs)" by (intro nth_mem) simp
  then have "in_usable rs (usable_addresses rs ! 0)"
    using aligned_map_addressable(3) assms by (auto simp: ascending_map_def)
  then show ?case by (simp add: in_usable_def)
next
  case (Suc i)
  let ?xs = "usable_addresses rs"
  have "sorted_wrt (<) ?xs" unfolding usable_addresses_def using assms
    by (intro sorted_pages) (auto simp: ascending_map_def page_aligned_map_def)
  then have lt: "?xs ! i < ?xs ! Suc i" using Suc.prems by (simp add: sorted_wrt_iff_nth_less)
  have "in_usable rs (?xs ! j)" if "j < length ?xs" for j
    using aligned_map_addressable(3) assms nth_mem [OF that] by (auto simp: ascending_map_def)
  then have "4096 dvd ?xs ! i" "4096 dvd ?xs ! Suc i" using Suc.prems by (auto simp: in_usable_def)
  then have "?xs ! i + 4096 \<le> ?xs ! Suc i" using lt by (auto elim!: dvdE)
  with Suc show ?case by simp
qed

text \<open>What a request leaves of the frame allocator, and where its buffer starts.\<close>

lemma dma_alloc_frames:
  assumes "frame_spec pf" "frame_alloc s = Some fa" "addressable (memory_map fa)" "dma_alloc pf off s n al = (r, s')"
  shows "\<exists>fa'. frame_alloc s' = Some fa' \<and> memory_map fa' = memory_map fa \<and> fa_next fa \<le> fa_next fa'"
  using assms(2,4) take_frames_value [OF assms(1,3), of "uadd n 4095 div 4096"]
  by (auto simp: dma_alloc_def Let_def split: if_splits list.splits)

lemma dma_alloc_start:
  assumes "frame_spec pf" "frame_alloc s = Some fa" "addressable (memory_map fa)"
    and "dma_alloc pf off s n al = (Ok (Some buf), s')"
  shows "fa_next fa < length (frame_list (memory_map fa))" "dma_phys buf = of_nat (frame_list (memory_map fa) ! fa_next fa)"
    "dma_virt buf = dma_phys buf + off" "\<exists>fa'. frame_alloc s' = Some fa' \<and> memory_map fa' = memory_map fa \<and> fa_next fa < fa_next fa'"
proof -
  let ?fl = "frame_list (memory_map fa)" and ?p = "uadd n 4095 div 4096"
  have p: "?p \<noteq> 0"
  proof
    assume "?p = 0"
    then show False using assms(2,4) by (simp add: dma_alloc_def Let_def)
  qed
  have le: "fa_next fa + ?p \<le> length ?fl"
    using assms(2,4) p take_frames_value [OF assms(1,3), of ?p]
    by (auto simp: dma_alloc_def Let_def split: if_splits)
  then obtain fs where fs: "take ?p (drop (fa_next fa) ?fl) = ?fl ! fa_next fa # fs"
    using p by (cases ?p) (auto simp: Cons_nth_drop_Suc [symmetric])
  show "fa_next fa < length ?fl" using le p by simp
  show "dma_phys buf = of_nat (?fl ! fa_next fa)" "dma_virt buf = dma_phys buf + off"
    "\<exists>fa'. frame_alloc s' = Some fa' \<and> memory_map fa' = memory_map fa \<and> fa_next fa < fa_next fa'"
    using assms(2,4) p take_frames_value [OF assms(1,3), of ?p] le fs
    by (auto simp: dma_alloc_def Let_def)
qed

text \<open>The buffers a sequence of requests gets; a panic ends it.\<close>

fun dma_buffers :: "(nat \<Rightarrow> (nat, unit) result) \<Rightarrow> u64 \<Rightarrow> (usize \<times> usize) list \<Rightarrow> DmaState \<Rightarrow> DmaBuffer list" where
  "dma_buffers pf off [] s = []"
| "dma_buffers pf off ((n, align) # qs) s =
     (case dma_alloc pf off s n align of
        (Ok (Some b), s) \<Rightarrow> b # dma_buffers pf off qs s
      | (Ok None, s) \<Rightarrow> dma_buffers pf off qs s
      | _ \<Rightarrow> [])"

lemma dma_buffers_frames:
  assumes "frame_spec pf" "frame_alloc s = Some fa" "addressable (memory_map fa)" "b \<in> set (dma_buffers pf off qs s)"
  shows "\<exists>i. fa_next fa \<le> i \<and> i < length (frame_list (memory_map fa)) \<and> dma_phys b = of_nat (frame_list (memory_map fa) ! i)
    \<and> dma_virt b = dma_phys b + off"
  using assms(2-4)
proof (induction qs arbitrary: s fa)
  case (Cons q qs)
  obtain n al where q: "q = (n, al)" by fastforce
  obtain r s' where r: "dma_alloc pf off s n al = (r, s')" by fastforce
  obtain fa' where fa': "frame_alloc s' = Some fa'" "memory_map fa' = memory_map fa" "fa_next fa \<le> fa_next fa'"
    using dma_alloc_frames [OF assms(1) Cons.prems(1,2) r] by blast
  have rest: ?case if "b \<in> set (dma_buffers pf off qs s')"
  proof -
    have "addressable (memory_map fa')" using Cons.prems(2) fa'(2) by simp
    from Cons.IH [OF fa'(1) this that] fa'(3) show ?thesis unfolding fa'(2) by (meson le_trans)
  qed
  show ?case
  proof (cases "b \<in> set (dma_buffers pf off qs s')")
    case False
    with Cons.prems(3) q r have "r = Ok (Some b)" by (auto split: result.splits option.splits)
    with dma_alloc_start [OF assms(1) Cons.prems(1,2), of off n al b s'] r show ?thesis by blast
  qed (rule rest)
qed simp

lemma dma_buffers_apart:
  assumes "frame_spec pf" "frame_alloc s = Some fa" "page_aligned_map (memory_map fa)"
  shows "distinct (map dma_phys (dma_buffers pf off qs s))"
  using assms(2,3)
proof (induction qs arbitrary: s fa)
  case (Cons q qs)
  note al = aligned_map_addressable [OF Cons.prems(2)]
  let ?fl = "frame_list (memory_map fa)"
  obtain n a where q: "q = (n, a)" by fastforce
  obtain r s' where r: "dma_alloc pf off s n a = (r, s')" by fastforce
  obtain fa' where fa': "frame_alloc s' = Some fa'" "memory_map fa' = memory_map fa"
    using dma_alloc_frames [OF assms(1) Cons.prems(1) al(1) r] by blast
  have tail: "distinct (map dma_phys (dma_buffers pf off qs s'))"
    using Cons.IH [OF fa'(1)] Cons.prems(2) fa'(2) by simp
  have new: "dma_phys b \<noteq> dma_phys c" if b: "r = Ok (Some b)" and c: "c \<in> set (dma_buffers pf off qs s')" for b c
  proof -
    note st = dma_alloc_start [OF assms(1) Cons.prems(1) al(1) r [unfolded b]]
    have lt: "fa_next fa < fa_next fa'" using st(4) fa'(1) by auto
    obtain i where i: "fa_next fa' \<le> i" "i < length ?fl" "dma_phys c = of_nat (?fl ! i)"
      using dma_buffers_frames [OF assms(1) fa'(1) _ c] al(1) fa'(2) by auto
    have "?fl ! fa_next fa \<noteq> ?fl ! i"
      using distinct_usable_addresses [OF Cons.prems(2)] al(2) st(1) i lt by (simp add: nth_eq_iff_index_eq)
    moreover have "\<forall>x \<in> set ?fl. x < 2 ^ 52" using al(1) unfolding al(2) by (simp add: addressable_def)
    then have "?fl ! fa_next fa < 2 ^ 52" "?fl ! i < 2 ^ 52" using st(1) i(2) by simp_all
    then have "unat (of_nat (?fl ! fa_next fa) :: u64) = ?fl ! fa_next fa" "unat (of_nat (?fl ! i) :: u64) = ?fl ! i"
      by (simp_all add: unat_of_nat)
    ultimately show ?thesis using st(2) i(3) by (metis)
  qed
  show ?case using tail new q r by (auto split: result.splits option.splits)
qed simp

lemma dma_buffers_above:
  assumes "frame_spec pf" "frame_alloc s = Some fa" "ascending_map (memory_map fa)" "4096 \<le> fa_next fa"
    and "b \<in> set (dma_buffers pf off qs s)"
  shows "HEAP_START + HEAP_SIZE \<le> unat (dma_phys b) \<and> in_usable (memory_map fa) (unat (dma_phys b)) \<and> dma_virt b = dma_phys b + off"
proof -
  let ?fl = "usable_addresses (memory_map fa)"
  have a: "page_aligned_map (memory_map fa)" using assms(3) by (simp add: ascending_map_def)
  note al = aligned_map_addressable [OF a]
  obtain i where i: "fa_next fa \<le> i" "i < length ?fl" "dma_phys b = of_nat (?fl ! i)" "dma_virt b = dma_phys b + off"
    using dma_buffers_frames [OF assms(1,2) al(1) assms(5)] al(2) by auto
  have u: "?fl ! i < 2 ^ 52" "in_usable (memory_map fa) (?fl ! i)"
    using al(1,3) nth_mem [OF i(2)] by (auto simp: addressable_def)
  have "0x2000000 + 4096 * i \<le> ?fl ! i" by (rule ascending_addresses [OF assms(3) i(2)])
  then show ?thesis using u assms(4) i by (simp add: unat_of_nat HEAP_START_def HEAP_SIZE_def)
qed

end
