(* ===== verification/Paging.thy ===== *)
theory Paging
  imports HeapMap
begin

text \<open>
  Page tables of four levels, and what \<open>init_heap\<close> and \<open>translate_addr\<close> do on them (\<^verbatim>\<open>src/kernel/src/memory/mod.rs\<close>,
  \<^verbatim>\<open>alloc.rs\<close>). The mapper of the crate \<open>x86_64\<close> is a parameter; locale \<open>table_mapper\<close> states what its \<open>map_to\<close> does
  with a page whose three upper tables are there and whose own entry is free: it takes no frame and sets the entry. More is not
  asked of it, because the mapper reaches a table through the mapping of physical memory at an offset, and the boot loader
  leaves the 16 MiB of the heap out of that mapping: a new table in a frame there could not be filled. It leaves empty
  tables for the heap instead. Memory holds a tree of tables when the entries the processor reads are those of the tree. Shown: in
  memory that holds the tables \<open>init_heap\<close> leaves, \<open>translate_addr\<close> takes the heap one to one into usable frames, and every other
  address where it went before.
\<close>

section \<open>Tables\<close>

datatype 't slot = Sub nat 't | HugePage nat

type_synonym 't table = "nat \<Rightarrow> 't slot option"
type_synonym pt1 = "nat \<Rightarrow> nat option"
type_synonym pt4 = "pt1 table table table"

datatype found = Absent | Framed nat | InHuge nat

definition find1 :: "pt1 \<Rightarrow> nat \<Rightarrow> found" where
  "find1 t i = (case t i of None \<Rightarrow> Absent | Some f \<Rightarrow> Framed f)"

fun look :: "('t \<Rightarrow> 'x \<Rightarrow> found) \<Rightarrow> ('x \<Rightarrow> nat) \<Rightarrow> 't table \<Rightarrow> nat \<times> 'x \<Rightarrow> found" where
  "look lk off tb (i, x) = (case tb i of None \<Rightarrow> Absent | Some (Sub g t) \<Rightarrow> lk t x | Some (HugePage f) \<Rightarrow> InHuge (f + off x))"

definition find2 :: "pt1 table \<Rightarrow> nat \<times> nat \<Rightarrow> found" where
  "find2 = look find1 (\<lambda>i1. 2 ^ 12 * i1)"

definition find3 :: "pt1 table table \<Rightarrow> nat \<times> nat \<times> nat \<Rightarrow> found" where
  "find3 = look find2 (\<lambda>(i2, i1). 2 ^ 21 * i2 + 2 ^ 12 * i1)"

definition find4 :: "pt4 \<Rightarrow> nat \<times> nat \<times> nat \<times> nat \<Rightarrow> found" where
  "find4 = look find3 (\<lambda>(i3, i2, i1). 2 ^ 30 * i3 + 2 ^ 21 * i2 + 2 ^ 12 * i1)"

text \<open>\<open>p4_index\<close> to \<open>p1_index\<close> of an address.\<close>

definition indices :: "nat \<Rightarrow> nat \<times> nat \<times> nat \<times> nat" where
  "indices a = (a div 2 ^ 39 mod 512, a div 2 ^ 30 mod 512, a div 2 ^ 21 mod 512, a div 2 ^ 12 mod 512)"

lemma indices_rebuild:
  assumes "page_ok p"
  shows "(case indices p of (i4, i3, i2, i1) \<Rightarrow> 2 ^ 39 * i4 + 2 ^ 30 * i3 + 2 ^ 21 * i2 + 2 ^ 12 * i1) = p"
proof -
  obtain q where q: "p = 2 ^ 12 * q" using assms by (auto simp: page_ok_def dvd_def)
  have "q < 2 ^ 35" using assms by (simp add: page_ok_def q)
  then have "q div 2 ^ 27 < 512" by (simp add: less_mult_imp_div_less)
  moreover have "q = 512 * (512 * (512 * (q div 2 ^ 27) + q div 2 ^ 18 mod 512) + q div 2 ^ 9 mod 512) + q mod 512"
  proof -
    have "q div 2 ^ 18 = 512 * (q div 2 ^ 27) + q div 2 ^ 18 mod 512" "q div 2 ^ 9 = 512 * (q div 2 ^ 18) + q div 2 ^ 9 mod 512"
      using mult_div_mod_eq [of 512 "q div 2 ^ 18"] mult_div_mod_eq [of 512 "q div 2 ^ 9"] by (simp_all add: div_mult2_eq [symmetric])
    then show ?thesis using mult_div_mod_eq [of 512 q] by simp
  qed
  moreover have "p div 2 ^ 39 = q div 2 ^ 27" "p div 2 ^ 30 = q div 2 ^ 18" "p div 2 ^ 21 = q div 2 ^ 9" "p div 2 ^ 12 = q"
    unfolding q by (simp_all add: div_mult2_eq [of _ 4096, simplified])
  ultimately show ?thesis unfolding indices_def prod.case by (simp only: mod_less) (simp add: q)
qed

lemma indices_inj: "page_ok p \<Longrightarrow> page_ok q \<Longrightarrow> indices p = indices q \<longleftrightarrow> p = q"
  using indices_rebuild by metis

lemma indices_page: "indices (a div 4096 * 4096) = indices a"
proof -
  have "a div 4096 * 4096 div 2 ^ (12 + k) = a div 2 ^ (12 + k)" for k by (simp add: power_add div_mult2_eq)
  from this [of 27] this [of 18] this [of 9] this [of 0] show ?thesis by (simp add: indices_def)
qed

section \<open>The mapper\<close>

definition sub_table :: "'t table \<Rightarrow> nat \<Rightarrow> 't option" where
  "sub_table tb i = (case tb i of Some (Sub g t) \<Rightarrow> Some t | _ \<Rightarrow> None)"

text \<open>The tables on the way to a page are there.\<close>

fun tables_there :: "pt4 \<Rightarrow> nat \<times> nat \<times> nat \<times> nat \<Rightarrow> bool" where
  "tables_there m (i4, i3, i2, i1) \<longleftrightarrow>
     Option.bind (sub_table m i4) (\<lambda>t3. Option.bind (sub_table t3 i3) (\<lambda>t2. sub_table t2 i2)) \<noteq> None"

definition free_entry :: "pt4 \<Rightarrow> nat \<Rightarrow> bool" where
  "free_entry m p \<longleftrightarrow> page_ok p \<and> tables_there m (indices p) \<and> find4 m (indices p) = Absent"

locale table_mapper =
  fixes map_to :: "'m \<Rightarrow> nat \<Rightarrow> nat \<Rightarrow> BootInfoFrameAllocator \<Rightarrow> (unit, MapToError) result \<times> 'm \<times> BootInfoFrameAllocator"
    and tables :: "'m \<Rightarrow> pt4"
  assumes enters_entry: "free_entry (tables m) p \<Longrightarrow>
    \<exists>m'. map_to m p f fa = (Ok (), m', fa) \<and> find4 (tables m') = (find4 (tables m))(indices p := Framed f)
       \<and> tables_there (tables m') = tables_there (tables m)"
begin

text \<open>One page after the other gets one frame after the other.\<close>

lemma map_pages_entries:
  assumes "frame_spec pf" "addressable (memory_map fa)" "distinct ps" "\<forall>p \<in> set ps. free_entry (tables m) p"
    and "fa_next fa + length ps \<le> length (frame_list (memory_map fa))"
  shows "\<exists>m'. map_pages pf map_to ps (m, fa) = (Ok (), m', fa\<lparr>fa_next := fa_next fa + length ps\<rparr>)
    \<and> (\<forall>i < length ps. find4 (tables m') (indices (ps ! i)) = Framed (frame_list (memory_map fa) ! (fa_next fa + i)))
    \<and> (\<forall>x. x \<notin> indices ` set ps \<longrightarrow> find4 (tables m') x = find4 (tables m) x)"
  using assms(2-5)
proof (induction ps arbitrary: m fa)
  case Nil
  then show ?case by (intro exI [of _ m]) simp
next
  case (Cons p ps)
  let ?fl = "frame_list (memory_map fa)" and ?fa = "fa\<lparr>fa_next := fa_next fa + 1\<rparr>"
  have n: "fa_next fa < length ?fl" using Cons.prems(4) by simp
  obtain m1 where 1: "map_to m p (?fl ! fa_next fa) ?fa = (Ok (), m1, ?fa)"
    "find4 (tables m1) = (find4 (tables m))(indices p := Framed (?fl ! fa_next fa))" "tables_there (tables m1) = tables_there (tables m)"
    using enters_entry [of m p "?fl ! fa_next fa" ?fa] Cons.prems(3) by auto
  have ok: "page_ok p" "\<forall>q \<in> set ps. page_ok q" using Cons.prems(3) by (simp_all add: free_entry_def)
  have new: "indices p \<notin> indices ` set ps" using ok Cons.prems(2) by (auto simp: indices_inj)
  have "\<forall>q \<in> set ps. free_entry (tables m1) q"
  proof
    fix q assume "q \<in> set ps"
    then have "indices q \<noteq> indices p" "free_entry (tables m) q" using new Cons.prems(3) by (metis imageI, simp)
    then show "free_entry (tables m1) q" using 1(2,3) by (simp add: free_entry_def)
  qed
  then obtain m' where m': "map_pages pf map_to ps (m1, ?fa) = (Ok (), m', ?fa\<lparr>fa_next := fa_next ?fa + length ps\<rparr>)"
    "\<forall>i < length ps. find4 (tables m') (indices (ps ! i)) = Framed (?fl ! (fa_next ?fa + i))"
    "\<forall>x. x \<notin> indices ` set ps \<longrightarrow> find4 (tables m') x = find4 (tables m1) x"
    using Cons.IH [of ?fa m1] Cons.prems by auto
  have "map_pages pf map_to (p # ps) (m, fa) = (Ok (), m', fa\<lparr>fa_next := fa_next fa + length (p # ps)\<rparr>)"
    using n m'(1) 1(1) by (simp add: allocate_frame_value [OF assms(1) Cons.prems(1)])
  moreover have "\<forall>i < length (p # ps). find4 (tables m') (indices ((p # ps) ! i)) = Framed (?fl ! (fa_next fa + i))"
  proof (intro allI impI)
    fix i assume i: "i < length (p # ps)"
    show "find4 (tables m') (indices ((p # ps) ! i)) = Framed (?fl ! (fa_next fa + i))"
    proof (cases i)
      case 0
      then show ?thesis using m'(3) [rule_format, OF new] by (simp add: 1(2))
    next
      case (Suc j)
      then show ?thesis using m'(2) i by simp
    qed
  qed
  moreover have "find4 (tables m') x = find4 (tables m) x" if "x \<notin> indices ` set (p # ps)" for x
  proof -
    have "x \<notin> indices ` set ps" "x \<noteq> indices p" using that by simp_all
    then show ?thesis using m'(3) [rule_format, of x] by (simp add: 1(2))
  qed
  ultimately show ?case by blast
qed

end

section \<open>Tables in memory\<close>

text \<open>\<open>entry g i\<close> is \<open>entry.frame()\<close> of the entry \<open>i\<close> of the table in the frame \<open>g\<close>.\<close>

type_synonym entries = "nat \<Rightarrow> nat \<Rightarrow> nat + FrameError"

definition holds1 :: "entries \<Rightarrow> nat \<Rightarrow> pt1 \<Rightarrow> bool" where
  "holds1 entry g t \<longleftrightarrow> (\<forall>i < 512. entry g i = (case t i of None \<Rightarrow> Inr FrameNotPresent | Some f \<Rightarrow> Inl f))"

definition holds_table :: "(entries \<Rightarrow> nat \<Rightarrow> 't \<Rightarrow> bool) \<Rightarrow> entries \<Rightarrow> nat \<Rightarrow> 't table \<Rightarrow> bool" where
  "holds_table sub entry g tb \<longleftrightarrow> (\<forall>i < 512. case tb i of
       None \<Rightarrow> entry g i = Inr FrameNotPresent
     | Some (Sub h t) \<Rightarrow> entry g i = Inl h \<and> sub entry h t
     | Some (HugePage f) \<Rightarrow> entry g i = Inr HugeFrame)"

definition holds4 :: "entries \<Rightarrow> nat \<Rightarrow> pt4 \<Rightarrow> bool" where
  "holds4 = holds_table (holds_table (holds_table holds1))"

fun walk_result :: "found \<Rightarrow> (nat option, unit) result" where
  "walk_result Absent = Ok None"
| "walk_result (Framed f) = Ok (Some f)"
| "walk_result (InHuge f) = Panic"

lemma walk1: "holds1 entry g t \<Longrightarrow> i < 512 \<Longrightarrow> walk_tables entry g [i] = walk_result (find1 t i)"
  by (auto simp: holds1_def find1_def split: option.split)

lemma walk_down:
  assumes "holds_table sub entry g tb" "i < 512" "\<And>h t. sub entry h t \<Longrightarrow> walk_tables entry h is = walk_result (lk t x)"
  shows "walk_tables entry g (i # is) = walk_result (look lk off tb (i, x))"
  using assms(1) [unfolded holds_table_def, rule_format, OF assms(2)] assms(3) by (auto split: option.splits slot.splits)

lemma walk4:
  assumes "holds4 entry g m" "i4 < 512" "i3 < 512" "i2 < 512" "i1 < 512"
  shows "walk_tables entry g [i4, i3, i2, i1] = walk_result (find4 m (i4, i3, i2, i1))"
  using assms unfolding holds4_def find4_def find3_def find2_def by (intro walk_down walk1)

abbreviation translate :: "entries \<Rightarrow> nat \<Rightarrow> u64 \<Rightarrow> (nat option, unit) result" where
  "translate entry \<equiv> translate_addr entry (\<lambda>a. indices (unat a)) (\<lambda>a. unat a mod 4096)"

lemma translate_found:
  assumes "holds4 entry cr3 m"
  shows "translate entry cr3 a = rbind (walk_result (find4 m (indices (unat a)))) (\<lambda>f. Ok (map_option (\<lambda>f. f + unat a mod 4096) f))"
proof -
  obtain i4 i3 i2 i1 where i: "indices (unat a) = (i4, i3, i2, i1)" by (cases "indices (unat a)")
  then have "i4 < 512" "i3 < 512" "i2 < 512" "i1 < 512" by (auto simp: indices_def)
  then show ?thesis by (simp add: translate_addr_def i walk4 [OF assms] del: walk_tables.simps)
qed

section \<open>The heap in the tables\<close>

definition in_heap :: "u64 \<Rightarrow> bool" where
  "in_heap a \<longleftrightarrow> HEAP_START \<le> unat a \<and> unat a < HEAP_START + HEAP_SIZE"

lemma in_heap_page: "in_heap a \<longleftrightarrow> unat a div 4096 * 4096 \<in> set heap_pages"
proof
  assume "in_heap a"
  then have "unat a div 4096 = 0x2000 + (unat a div 4096 - 0x2000)" "unat a div 4096 - 0x2000 < 4096"
    by (simp_all add: in_heap_def HEAP_START_def HEAP_SIZE_def less_mult_imp_div_less) linarith+
  then show "unat a div 4096 * 4096 \<in> set heap_pages"
    by (auto simp: heap_pages_def HEAP_START_def HEAP_SIZE_def intro!: image_eqI [where x = "unat a div 4096 - 0x2000"])
next
  assume "unat a div 4096 * 4096 \<in> set heap_pages"
  then obtain k where "k < 4096" "unat a div 4096 * 4096 = 0x2000000 + 4096 * k"
    by (auto simp: heap_pages_def HEAP_START_def HEAP_SIZE_def)
  then show "in_heap a" using div_mult_mod_eq [of "unat a" 4096] mod_less_divisor [of 4096 "unat a"]
    unfolding in_heap_def HEAP_START_def HEAP_SIZE_def by linarith
qed

context table_mapper
begin

lemma heap_entries:
  assumes "frame_spec pf" "page_aligned_map (memory_map fa)" "\<forall>p \<in> set heap_pages. free_entry (tables m) p"
    and "fa_next fa + 4096 \<le> length (usable_addresses (memory_map fa))"
  obtains m' where "init_heap pf map_to fi m fa heap = (Ok (fsb_init fi heap HEAP_START HEAP_SIZE), m', fa\<lparr>fa_next := fa_next fa + 4096\<rparr>)"
    "\<And>i. i < 4096 \<Longrightarrow> find4 (tables m') (indices (heap_pages ! i)) = Framed (usable_addresses (memory_map fa) ! (fa_next fa + i))"
    "\<And>x. x \<notin> indices ` set heap_pages \<Longrightarrow> find4 (tables m') x = find4 (tables m) x"
proof -
  note al = aligned_map_addressable [OF assms(2)]
  obtain m' where "map_pages pf map_to heap_pages (m, fa) = (Ok (), m', fa\<lparr>fa_next := fa_next fa + 4096\<rparr>)"
    "\<forall>i < 4096. find4 (tables m') (indices (heap_pages ! i)) = Framed (usable_addresses (memory_map fa) ! (fa_next fa + i))"
    "\<forall>x. x \<notin> indices ` set heap_pages \<longrightarrow> find4 (tables m') x = find4 (tables m) x"
    using map_pages_entries [OF assms(1) al(1) heap_pages_simps(2) assms(3)] assms(4) unfolding al(2) heap_pages_simps by blast
  then show thesis by (intro that [of m']) (simp add: init_heap_def, blast, blast)
qed

text \<open>The frame behind a heap address.\<close>

lemma heap_address:
  assumes "in_heap a"
  obtains i where "i < 4096" "indices (unat a) = indices (heap_pages ! i)" "unat a div 4096 * 4096 = heap_pages ! i"
proof -
  have "unat a div 4096 * 4096 \<in> set heap_pages" using assms in_heap_page by blast
  then obtain i where "i < 4096" "unat a div 4096 * 4096 = heap_pages ! i" by (auto simp: in_set_conv_nth)
  with that show thesis using indices_page [of "unat a"] by metis
qed

lemma translated:
  assumes pf: "frame_spec pf" "page_aligned_map (memory_map fa)" "\<forall>p \<in> set heap_pages. free_entry (tables m) p"
    and n: "fa_next fa + 4096 \<le> length (usable_addresses (memory_map fa))"
  shows "\<exists>m'. init_heap pf map_to fi m fa heap = (Ok (fsb_init fi heap HEAP_START HEAP_SIZE), m', fa\<lparr>fa_next := fa_next fa + 4096\<rparr>)
    \<and> (\<forall>entry. holds4 entry cr3 (tables m') \<longrightarrow>
        (\<forall>a. in_heap a \<longrightarrow> (\<exists>f. in_usable (memory_map fa) f \<and> translate entry cr3 a = Ok (Some (f + unat a mod 4096))))
      \<and> (\<forall>a b. in_heap a \<and> in_heap b \<and> translate entry cr3 a = translate entry cr3 b \<longrightarrow> a = b)
      \<and> (\<forall>before a. holds4 before cr3 (tables m) \<and> unat a < 2 ^ 47 \<and> \<not> in_heap a \<longrightarrow> translate entry cr3 a = translate before cr3 a))"
proof -
  let ?fl = "usable_addresses (memory_map fa)"
  note al = aligned_map_addressable [OF pf(2)]
  obtain m' where m': "init_heap pf map_to fi m fa heap = (Ok (fsb_init fi heap HEAP_START HEAP_SIZE), m', fa\<lparr>fa_next := fa_next fa + 4096\<rparr>)"
    "\<And>i. i < 4096 \<Longrightarrow> find4 (tables m') (indices (heap_pages ! i)) = Framed (?fl ! (fa_next fa + i))"
    "\<And>x. x \<notin> indices ` set heap_pages \<Longrightarrow> find4 (tables m') x = find4 (tables m) x"
    using heap_entries [OF assms, of fi heap] by blast
  have us: "in_usable (memory_map fa) (?fl ! (fa_next fa + i))" if "i < 4096" for i
    using al(3) n that by (meson nth_mem less_le_trans nat_add_left_cancel_less)
  have at: "\<exists>i < 4096. unat a div 4096 * 4096 = heap_pages ! i
      \<and> (\<forall>entry. holds4 entry cr3 (tables m') \<longrightarrow> translate entry cr3 a = Ok (Some (?fl ! (fa_next fa + i) + unat a mod 4096)))"
    if a: "in_heap a" for a
  proof -
    obtain i where i: "i < 4096" "indices (unat a) = indices (heap_pages ! i)" "unat a div 4096 * 4096 = heap_pages ! i"
      by (rule heap_address [OF a])
    then show ?thesis using translate_found [of _ cr3 "tables m'" a] m'(2) [OF i(1)] by auto
  qed
  have inj: "a = b" if ab: "in_heap a" "in_heap b" "translate entry cr3 a = translate entry cr3 b" "holds4 entry cr3 (tables m')" for a b entry
  proof -
    obtain i j where i: "i < 4096" "unat a div 4096 * 4096 = heap_pages ! i" "translate entry cr3 a = Ok (Some (?fl ! (fa_next fa + i) + unat a mod 4096))"
      and j: "j < 4096" "unat b div 4096 * 4096 = heap_pages ! j" "translate entry cr3 b = Ok (Some (?fl ! (fa_next fa + j) + unat b mod 4096))"
      using at [OF ab(1)] at [OF ab(2)] ab(4) by blast
    obtain q r where q: "?fl ! (fa_next fa + i) = q * 4096" "?fl ! (fa_next fa + j) = r * 4096"
      using us [OF i(1)] us [OF j(1)] by (auto simp: in_usable_def dvd_def)
    then have "q * 4096 + unat a mod 4096 = r * 4096 + unat b mod 4096" using ab(3) i(3) j(3) by simp
    from mult_add_inj [OF this] have o: "q = r" "unat a mod 4096 = unat b mod 4096" by simp_all
    with q have "?fl ! (fa_next fa + i) = ?fl ! (fa_next fa + j)" by simp
    then have "i = j" using distinct_usable_addresses [OF pf(2)] n i(1) j(1) by (simp add: nth_eq_iff_index_eq)
    then have "unat a = unat b" using i(2) j(2) o(2) by (metis div_mult_mod_eq)
    then show ?thesis by (simp only: word_unat_eq_iff)
  qed
  have other: "translate entry cr3 a = translate before cr3 a"
    if e: "holds4 entry cr3 (tables m')" "holds4 before cr3 (tables m)" and a: "unat a < 2 ^ 47" "\<not> in_heap a" for entry before a
  proof -
    have p: "page_ok (unat a div 4096 * 4096)" using a(1) div_times_less_eq_dividend [of "unat a" 4096] by (simp add: page_ok_def)
    have "indices (unat a) \<notin> indices ` set heap_pages"
      using a(2) indices_inj [OF p] heap_pages_ok indices_page [of "unat a"] by (auto simp: in_heap_page)
    from m'(3) [OF this] show ?thesis by (simp add: translate_found [OF e(1)] translate_found [OF e(2)])
  qed
  show ?thesis
  proof (intro exI [of _ m'] conjI allI impI)
    fix entry
    assume e: "holds4 entry cr3 (tables m')"
    show "\<exists>f. in_usable (memory_map fa) f \<and> translate entry cr3 a = Ok (Some (f + unat a mod 4096))" if "in_heap a" for a
      using at [OF that] us e by blast
    show "a = b" if "in_heap a \<and> in_heap b \<and> translate entry cr3 a = translate entry cr3 b" for a b
      using inj [of a b entry] that e by blast
    show "translate entry cr3 a = translate before cr3 a" if "holds4 before cr3 (tables m) \<and> unat a < 2 ^ 47 \<and> \<not> in_heap a" for before a
      using other [of entry before a] that e by blast
  qed (rule m'(1))
qed

end

text \<open>
  C17: \<open>init_heap\<close> and \<open>translate_addr\<close> agree on page tables of four levels. Given a mapper that enters a page whose upper tables
  are there, 4096 usable frames, and the tables for the heap there with free entries, as the boot loader leaves them,
  \<open>init_heap\<close> succeeds and takes one frame for each page; in memory that holds the tables it leaves, \<open>translate_addr\<close> takes each
  of the 16 MiB heap addresses to its offset in a usable frame, no two to the same byte, and it treats every other address of the
  lower half as in memory that holds the tables from before, huge pages included.
\<close>

theorem heap_translates:
  fixes fa :: BootInfoFrameAllocator
  assumes "table_mapper map_to tables" "frame_spec pf" "page_aligned_map (memory_map fa)"
    and "\<forall>p \<in> set heap_pages. free_entry (tables m) p" "fa_next fa + 4096 \<le> length (usable_addresses (memory_map fa))"
  shows "\<exists>m'. init_heap pf map_to fi m fa heap = (Ok (fsb_init fi heap HEAP_START HEAP_SIZE), m', fa\<lparr>fa_next := fa_next fa + 4096\<rparr>)
    \<and> (\<forall>entry. holds4 entry cr3 (tables m') \<longrightarrow>
        (\<forall>a. in_heap a \<longrightarrow> (\<exists>f. in_usable (memory_map fa) f \<and> translate entry cr3 a = Ok (Some (f + unat a mod 4096))))
      \<and> (\<forall>a b. in_heap a \<and> in_heap b \<and> translate entry cr3 a = translate entry cr3 b \<longrightarrow> a = b)
      \<and> (\<forall>before a. holds4 before cr3 (tables m) \<and> unat a < 2 ^ 47 \<and> \<not> in_heap a \<longrightarrow> translate entry cr3 a = translate before cr3 a))"
  by (rule table_mapper.translated [OF assms])

section \<open>The tables of the boot loader\<close>

text \<open>An instance: a mapper that sets the entry when the upper tables are there, and gives up otherwise.\<close>

definition set_entry :: "nat \<Rightarrow> nat \<Rightarrow> pt1 \<Rightarrow> pt1 option" where
  "set_entry i f t = (if t i = None then Some (t(i \<mapsto> f)) else None)"

definition below :: "nat \<Rightarrow> ('t \<Rightarrow> 't option) \<Rightarrow> 't table \<Rightarrow> 't table option" where
  "below i ins tb = (case tb i of Some (Sub g t) \<Rightarrow> map_option (\<lambda>t'. tb(i \<mapsto> Sub g t')) (ins t) | _ \<Rightarrow> None)"

definition leaf_map_to :: "pt4 \<Rightarrow> nat \<Rightarrow> nat \<Rightarrow> BootInfoFrameAllocator \<Rightarrow> (unit, MapToError) result \<times> pt4 \<times> BootInfoFrameAllocator" where
  "leaf_map_to m p f fa =
     (case indices p of (i4, i3, i2, i1) \<Rightarrow>
        case below i4 (below i3 (below i2 (set_entry i1 f))) m of Some m' \<Rightarrow> (Ok (), m', fa) | None \<Rightarrow> (Err MapFailed, m, fa))"

lemma sub_table_Some: "sub_table tb i = Some t \<longleftrightarrow> (\<exists>g. tb i = Some (Sub g t))"
  by (auto simp: sub_table_def split: option.splits slot.splits)

interpretation lm: table_mapper leaf_map_to "\<lambda>m. m"
proof (unfold_locales, goal_cases)
  case (1 m p f fa)
  obtain i4 i3 i2 i1 where i: "indices p = (i4, i3, i2, i1)" by (cases "indices p")
  obtain t3 t2 t1 where "sub_table m i4 = Some t3" "sub_table t3 i3 = Some t2" "sub_table t2 i2 = Some t1"
    using 1 by (auto simp: free_entry_def i split: bind_splits)
  then obtain g4 g3 g2 where t: "m i4 = Some (Sub g4 t3)" "t3 i3 = Some (Sub g3 t2)" "t2 i2 = Some (Sub g2 t1)"
    unfolding sub_table_Some by blast
  have "t1 i1 = None" using 1 t by (simp add: free_entry_def i find4_def find3_def find2_def find1_def split: option.splits)
  then have m: "leaf_map_to m p f fa = (Ok (), m(i4 \<mapsto> Sub g4 (t3(i3 \<mapsto> Sub g3 (t2(i2 \<mapsto> Sub g2 (t1(i1 \<mapsto> f))))))), fa)"
    by (simp add: leaf_map_to_def i below_def set_entry_def t)
  let ?m = "m(i4 \<mapsto> Sub g4 (t3(i3 \<mapsto> Sub g3 (t2(i2 \<mapsto> Sub g2 (t1(i1 \<mapsto> f)))))))"
  have "find4 ?m x = ((find4 m)((i4, i3, i2, i1) := Framed f)) x" for x
    by (cases x) (auto simp: find4_def find3_def find2_def find1_def t split: option.splits slot.splits)
  moreover have "tables_there ?m x = tables_there m x" for x
    by (cases x) (auto simp: sub_table_def t split: option.splits slot.splits)
  ultimately show ?case unfolding m i by (intro exI [of _ ?m]) (simp add: fun_eq_iff)
qed

text \<open>
  The tables the boot loader leaves (\<^verbatim>\<open>src/bootloader/stage2/protected_mode/paging.asm\<close>): the first four GiB mapped to
  themselves with huge pages, but for the 16 MiB of the heap, for which there are eight empty page tables; and a table without
  present entries for the second 512 GiB.
\<close>

definition boot_directory :: "nat \<Rightarrow> pt1 table" where
  "boot_directory k i = Some (if k = 0 \<and> 16 \<le> i \<and> i < 24 then Sub (0x76000 + 0x1000 * (i - 16)) Map.empty else HugePage (2 ^ 30 * k + 2 ^ 21 * i))"

definition boot_tables :: pt4 where
  "boot_tables = [1 \<mapsto> Sub 0x7E000 Map.empty, 0 \<mapsto> Sub 0x71000 (\<lambda>k. if k < 4 then Some (Sub (0x72000 + 0x1000 * k) (boot_directory k)) else None)]"

definition boot_entries :: entries where
  "boot_entries g i =
     (if g = 0x70000 then if i = 0 then Inl 0x71000 else if i = 1 then Inl 0x7E000 else Inr FrameNotPresent
      else if g = 0x71000 then if i < 4 then Inl (0x72000 + 0x1000 * i) else Inr FrameNotPresent
      else if g = 0x72000 \<and> 16 \<le> i \<and> i < 24 then Inl (0x76000 + 0x1000 * (i - 16))
      else if g < 0x76000 then Inr HugeFrame else Inr FrameNotPresent)"

lemma boot_tables_held: "holds4 boot_entries 0x70000 boot_tables"
  by (auto simp: holds4_def holds_table_def holds1_def boot_tables_def boot_directory_def boot_entries_def)

lemma boot_heap_free:
  assumes "p \<in> set heap_pages"
  shows "free_entry boot_tables p"
proof -
  obtain k where k: "k < 4096" "p = 0x2000000 + 4096 * k" using assms by (auto simp: heap_pages_def HEAP_START_def HEAP_SIZE_def)
  have "p div 2 ^ 21 = 16 + k div 512" unfolding k(2) by simp
  moreover have "k div 512 < 8" using k(1) by (simp add: less_mult_imp_div_less)
  ultimately have "indices p = (0, 0, 16 + k div 512, p div 2 ^ 12 mod 512)" using k by (simp add: indices_def)
  then show ?thesis using \<open>k div 512 < 8\<close> heap_pages_ok [OF assms]
    by (simp add: free_entry_def find4_def find3_def find2_def find1_def sub_table_def boot_tables_def boot_directory_def)
qed

definition sample_memory :: "MemoryRegion list" where
  "sample_memory = [\<lparr>mr_start = 0, mr_end = 0x7000000, mr_kind = Usable\<rparr>]"

theorem heap_translates_witness:
  "\<exists>m'. init_heap page_of leaf_map_to (\<lambda>h _ _. h) boot_tables (frames_init sample_memory) (fsb_new ())
      = (Ok (fsb_init (\<lambda>h _ _. h) (fsb_new ()) HEAP_START HEAP_SIZE), m', (frames_init sample_memory)\<lparr>fa_next := 4096\<rparr>)
    \<and> (\<forall>entry. holds4 entry 0x70000 m' \<longrightarrow>
        (\<exists>f. in_usable sample_memory f \<and> translate entry 0x70000 0x2345678 = Ok (Some (f + 0x678)))
      \<and> translate entry 0x70000 0x1000 = Panic)"
proof -
  have fa: "memory_map (frames_init sample_memory) = sample_memory" "fa_next (frames_init sample_memory) = 0"
    by (simp_all add: frames_init_def)
  have "page_aligned_map sample_memory" "4096 \<le> length (usable_addresses sample_memory)"
    by (simp_all add: sample_memory_def page_aligned_map_def usable_addresses_def region_pages_def ALLOC_START_def max_def Let_def)
  moreover have "in_heap 0x2345678" "\<not> in_heap 0x1000" by (simp_all add: in_heap_def HEAP_START_def HEAP_SIZE_def)
  moreover have "translate boot_entries 0x70000 0x1000 = Panic"
    by (simp add: translate_addr_def indices_def boot_entries_def)
  ultimately show ?thesis
    using heap_translates [OF lm.table_mapper_axioms frame_spec_page_of, of "frames_init sample_memory" boot_tables "\<lambda>h _ _. h" "fsb_new ()" "0x70000"]
      boot_heap_free boot_tables_held unfolding fa by fastforce
qed

end
