(* ===== verification/Acpi.thy ===== *)
theory Acpi
  imports Machine Pci
begin

text \<open>
  ACPI (\<^verbatim>\<open>src/lib/hal/src/acpi\<close>): the services the kernel hands to the crate \<open>acpi\<close>, and the search of the base of the
  PCI configuration space. The crate itself appears as parameters: \<open>from_rsdp\<close> is \<open>AcpiTables::from_rsdp\<close>,
  \<open>regions\<close> is \<open>PciConfigRegions::new\<close>, \<open>physical_address\<close> its method of that name.
\<close>

section \<open>The handler\<close>

record KernelAcpiHandler =
  handler_offset :: u64

record PhysicalMapping =
  physical_start :: u64
  virtual_start :: u64
  region_length :: u64
  mapped_length :: u64
  mapping_handler :: KernelAcpiHandler

definition map_physical_region :: "KernelAcpiHandler \<Rightarrow> u64 \<Rightarrow> u64 \<Rightarrow> (PhysicalMapping, unit) result" where
  "map_physical_region h a n =
     (let virt = a + handler_offset h
      in if virt = 0 then Panic
         else Ok \<lparr>physical_start = a, virtual_start = virt, region_length = n, mapped_length = n, mapping_handler = h\<rparr>)"

text \<open>\<open>read_u8\<close> to \<open>read_u64\<close> and \<open>write_u8\<close> to \<open>write_u64\<close>, for \<open>n\<close> bytes.\<close>

definition acpi_read :: "'hw mmio \<Rightarrow> KernelAcpiHandler \<Rightarrow> nat \<Rightarrow> u64 \<Rightarrow> 'hw Machine \<Rightarrow> nat" where
  "acpi_read mm h n a m = le_val (cpu_rd mm m (a + handler_offset h) n)"

definition acpi_write :: "'hw mmio \<Rightarrow> KernelAcpiHandler \<Rightarrow> nat \<Rightarrow> u64 \<Rightarrow> nat \<Rightarrow> 'hw Machine \<Rightarrow> 'hw Machine" where
  "acpi_write mm h n a v m = cpu_wr mm (a + handler_offset h) (le_bytes n v) m"

text \<open>Port instructions of width \<open>n\<close>: \<open>Port::read\<close> and \<open>Port::write\<close>.\<close>

record 'io port_ops =
  port_in :: "nat \<Rightarrow> u16 \<Rightarrow> 'io \<Rightarrow> nat \<times> 'io"
  port_out :: "nat \<Rightarrow> u16 \<Rightarrow> nat \<Rightarrow> 'io \<Rightarrow> 'io"

definition acpi_read_io :: "'io port_ops \<Rightarrow> nat \<Rightarrow> u16 \<Rightarrow> 'io \<Rightarrow> nat \<times> 'io" where
  "acpi_read_io io n port s = port_in io n port s"

definition acpi_write_io :: "'io port_ops \<Rightarrow> nat \<Rightarrow> u16 \<Rightarrow> nat \<Rightarrow> 'io \<Rightarrow> 'io" where
  "acpi_write_io io n port v s = port_out io n port v s"

text \<open>Configuration space: reads go to the ECAM, writes are dropped.\<close>

definition read_pci_u8 :: "'c cfg_ops \<Rightarrow> 'c Ecam \<Rightarrow> PciAddress \<Rightarrow> u16 \<Rightarrow> u8" where
  "read_pci_u8 ops e a off = read8 ops e (pa_bus a) (pa_device a) (pa_function a) off"

definition read_pci_u16 :: "'c cfg_ops \<Rightarrow> 'c Ecam \<Rightarrow> PciAddress \<Rightarrow> u16 \<Rightarrow> u16" where
  "read_pci_u16 ops e a off = read16 ops e (pa_bus a) (pa_device a) (pa_function a) off"

definition read_pci_u32 :: "'c cfg_ops \<Rightarrow> 'c Ecam \<Rightarrow> PciAddress \<Rightarrow> u16 \<Rightarrow> u32" where
  "read_pci_u32 ops e a off = read32 ops e (pa_bus a) (pa_device a) (pa_function a) off"

definition write_pci :: "PciAddress \<Rightarrow> u16 \<Rightarrow> nat \<Rightarrow> 'c Ecam \<Rightarrow> 'c Ecam" where
  "write_pci a off v e = e"

text \<open>The iterations of the spin loop of \<open>stall\<close>; \<open>sleep\<close> is a stall.\<close>

definition stall :: "u64 \<Rightarrow> nat" where
  "stall microseconds = unat (microseconds * 3000)"

definition acpi_sleep :: "u64 \<Rightarrow> nat" where
  "acpi_sleep milliseconds = stall (milliseconds * 1000)"

definition nanos_since_boot :: u64 where
  "nanos_since_boot = 0"

section \<open>The configuration space\<close>

datatype AcpiError = ParseFailed | NoMcfg | NoEcamRegion

fun acpi_error_str :: "AcpiError \<Rightarrow> rstr" where
  "acpi_error_str ParseFailed = str ''failed to parse ACPI tables from RSDP''"
| "acpi_error_str NoMcfg = str ''no MCFG table found '' @ [0x2014] @ str '' not a Q35/PCIe machine?''"
| "acpi_error_str NoEcamRegion = str ''no ECAM region for segment 0 bus 0 in MCFG''"

record AcpiInfo =
  ai_ecam_base :: u64
  ai_phys_offset :: u64

record ('t, 'r) acpi_crate =
  from_rsdp :: "KernelAcpiHandler \<Rightarrow> u64 \<Rightarrow> 't option"
  pci_regions :: "'t \<Rightarrow> 'r option"
  physical_address :: "'r \<Rightarrow> u16 \<Rightarrow> u8 \<Rightarrow> u8 \<Rightarrow> u8 \<Rightarrow> u64 option"

definition init_from_rsdp :: "('t, 'r) acpi_crate \<Rightarrow> u64 \<Rightarrow> u64 \<Rightarrow> (AcpiInfo, AcpiError) result" where
  "init_from_rsdp ac rsdp_phys phys_offset =
     (case from_rsdp ac \<lparr>handler_offset = phys_offset\<rparr> rsdp_phys of
        None \<Rightarrow> Err ParseFailed
      | Some tables \<Rightarrow>
          (case pci_regions ac tables of
             None \<Rightarrow> Err NoMcfg
           | Some regions \<Rightarrow>
               (case physical_address ac regions 0 0 0 0 of
                  None \<Rightarrow> Err NoEcamRegion
                | Some base \<Rightarrow> Ok \<lparr>ai_ecam_base = base, ai_phys_offset = phys_offset\<rparr>)))"

section \<open>What the crate sees\<close>

text \<open>With the offset the mapping really has, the handler reads and writes physical memory.\<close>

lemma acpi_read_physical: "handler_offset h = mm_off mm \<Longrightarrow> acpi_read mm h n a m = rd_le (ram m) a n"
  by (simp add: acpi_read_def cpu_rd_def rd_le_def)

lemma stall_exact: "unat us * 3000 < 2 ^ 64 \<Longrightarrow> stall us = unat us * 3000"
  by (simp add: stall_def unat_word_ariths)

lemma acpi_write_read:
  assumes "handler_offset h = mm_off mm" "k + n \<le> 4096" "v < 256 ^ n"
  shows "acpi_read mm h n (b + of_nat k) (acpi_write mm h n (b + of_nat k) v m) = v"
proof -
  have l: "length (le_bytes n v) = n" by simp
  have "peek (poke (b + of_nat k) (le_bytes n v) (ram m)) (b + of_nat k) n = le_bytes n v"
    using poke_page_same [of k "le_bytes n v" b "ram m"] assms(2) l by (simp add: peek_page seg_blit_same)
  then show ?thesis using assms(1,3)
    by (simp add: acpi_read_def acpi_write_def cpu_rd_def cpu_wr_def le_val_le_bytes)
qed

end
