(* ===== verification/Directory.thy ===== *)
theory Directory
  imports Registry
begin

text \<open>
  What the two registries promise. The device registry refines a directory: a partial map from identifiers
  to devices with pairwise different names, in which a registration takes an unused identifier. Its two
  search trees stay inverse to each other. The driver registry picks the first matching driver of the highest
  priority, and the PCI bus enters every function of the machine into the device registry.
\<close>

section \<open>The directory\<close>

datatype 'dev reg_cmd = Register 'dev | Unregister DeviceId

datatype 'dev reply = Registered "(DeviceId \<times> 'dev, DeviceError) result" | Unregistered "('dev, DeviceError) result"

type_synonym 'dev directory = "DeviceId \<rightharpoonup> 'dev"

definition taken :: "'dev device_ops \<Rightarrow> 'dev directory \<Rightarrow> rstr \<Rightarrow> bool" where
  "taken ops m n \<longleftrightarrow> (\<exists>i d. m i = Some d \<and> d_name ops d = n)"

inductive dir_step :: "'dev device_ops \<Rightarrow> 'dev directory \<Rightarrow> 'dev reg_cmd \<Rightarrow> 'dev reply \<Rightarrow> 'dev directory \<Rightarrow> bool"
  for ops where
  duplicate: "taken ops m (d_name ops dev) \<Longrightarrow> dir_step ops m (Register dev) (Registered (Err AlreadyRegistered)) m"
| refused: "\<not> taken ops m (d_name ops dev) \<Longrightarrow> d_probe ops dev = Err e
    \<Longrightarrow> dir_step ops m (Register dev) (Registered (Err ProbeFailed)) m"
| panicked: "\<not> taken ops m (d_name ops dev) \<Longrightarrow> d_probe ops dev = Panic
    \<Longrightarrow> dir_step ops m (Register dev) (Registered Panic) m"
| entered: "\<not> taken ops m (d_name ops dev) \<Longrightarrow> d_probe ops dev = Ok () \<Longrightarrow> m i = None
    \<Longrightarrow> dir_step ops m (Register dev) (Registered (Ok (i, dev))) (m(i \<mapsto> dev))"
| removed: "m i = Some dev \<Longrightarrow> dir_step ops m (Unregister i) (Unregistered (Ok dev)) (m(i := None))"
| unknown: "m i = None \<Longrightarrow> dir_step ops m (Unregister i) (Unregistered (Err DevNotFound)) m"

inductive dir_run :: "'dev device_ops \<Rightarrow> 'dev directory \<Rightarrow> 'dev reg_cmd list \<Rightarrow> 'dev reply list \<Rightarrow> 'dev directory \<Rightarrow> bool"
  for ops where
  stop: "dir_run ops m [] [] m"
| step: "dir_step ops m c r m' \<Longrightarrow> dir_run ops m' cs rs m'' \<Longrightarrow> dir_run ops m (c # cs) (r # rs) m''"

section \<open>The registry refines it\<close>

fun reg_exec :: "'dev device_ops \<Rightarrow> 'dev DeviceRegistry \<Rightarrow> 'dev reg_cmd \<Rightarrow> 'dev reply \<times> 'dev DeviceRegistry" where
  "reg_exec ops reg (Register dev) = (case register ops reg dev of (r, reg') \<Rightarrow> (Registered r, reg'))"
| "reg_exec ops reg (Unregister i) = (case unregister reg i of (r, reg') \<Rightarrow> (Unregistered r, reg'))"

fun reg_run :: "'dev device_ops \<Rightarrow> 'dev DeviceRegistry \<Rightarrow> 'dev reg_cmd list \<Rightarrow> 'dev reply list \<times> 'dev DeviceRegistry" where
  "reg_run ops reg [] = ([], reg)"
| "reg_run ops reg (c # cs) =
     (case reg_exec ops reg c of (r, reg') \<Rightarrow> case reg_run ops reg' cs of (rs, reg'') \<Rightarrow> (r # rs, reg''))"

text \<open>\<open>n\<close> bounds the identifiers handed out so far.\<close>

definition reg_inv :: "'dev device_ops \<Rightarrow> nat \<Rightarrow> 'dev DeviceRegistry \<Rightarrow> bool" where
  "reg_inv ops n reg \<longleftrightarrow> bt.fresh_from unat (unat (next_id reg)) (devices reg) \<and> bt_wf (name_index reg)
     \<and> (\<forall>i e. bt_get (devices reg) i = Some e \<longrightarrow> e_name e = d_name ops (e_device e))
     \<and> (\<forall>nm i. bt_get (name_index reg) nm = Some i \<longleftrightarrow> (\<exists>e. bt_get (devices reg) i = Some e \<and> e_name e = nm))
     \<and> unat (next_id reg) \<le> n"

lemma reg_inv_new: "reg_inv ops 1 registry_new"
  by (simp add: reg_inv_def registry_new_def bt.fresh_from_empty bt.wf_empty)

lemma reg_inv_mono: "reg_inv ops n reg \<Longrightarrow> n \<le> n' \<Longrightarrow> reg_inv ops n' reg"
  by (auto simp: reg_inv_def)

lemma reg_inv_taken:
  "reg_inv ops n reg \<Longrightarrow> taken ops (get_device reg) nm \<longleftrightarrow> bt_get (name_index reg) nm \<noteq> None"
  unfolding reg_inv_def taken_def get_device_def by (auto simp: map_option_case split: option.splits) metis+

lemma get_by_name_iff:
  assumes "reg_inv ops n reg"
  shows "get_by_name reg nm = Some d \<longleftrightarrow> (\<exists>i. get_device reg i = Some d \<and> d_name ops d = nm)"
proof -
  have idx: "bt_get (name_index reg) nm = Some i \<longleftrightarrow> (\<exists>e. bt_get (devices reg) i = Some e \<and> e_name e = nm)" for i
    using assms by (simp add: reg_inv_def)
  have nm: "bt_get (devices reg) i = Some e \<Longrightarrow> e_name e = d_name ops (e_device e)" for i e
    using assms by (simp add: reg_inv_def)
  have "get_by_name reg nm = Some d \<longleftrightarrow> (\<exists>i e. bt_get (name_index reg) nm = Some i
      \<and> bt_get (devices reg) i = Some e \<and> e_device e = d)"
    by (auto simp: get_by_name_def get_device_def bind_eq_Some_conv)
  also have "\<dots> \<longleftrightarrow> (\<exists>i e. bt_get (devices reg) i = Some e \<and> e_name e = nm \<and> e_device e = d)"
    using idx by (metis option.inject)
  also have "\<dots> \<longleftrightarrow> (\<exists>i. get_device reg i = Some d \<and> d_name ops d = nm)"
    using nm by (auto simp: get_device_def)
  finally show ?thesis .
qed

lemma get_device_enter:
  assumes "bt_wf (devices reg)" "devices reg' = bt_insert i e (devices reg)"
  shows "get_device reg' = (get_device reg)(i \<mapsto> e_device e)"
  using assms by (auto simp: fun_eq_iff get_device_def bt.get_insert)

lemma unat_Suc: "unat (i :: u64) < 2 ^ 64 - 1 \<Longrightarrow> unat (i + 1) = Suc (unat i)"
  by (simp add: unat_word_ariths)

lemma register_enters:
  assumes inv: "reg_inv ops n reg" and n: "n < 2 ^ 64 - 1"
    and free: "bt_get (name_index reg) (d_name ops dev) = None" and ok: "d_probe ops dev = Ok ()"
  shows "\<exists>reg'. register ops reg dev = (Ok (next_id reg, dev), reg') \<and> reg_inv ops (Suc n) reg'
    \<and> get_device reg (next_id reg) = None \<and> get_device reg' = (get_device reg)(next_id reg \<mapsto> dev)"
proof -
  define i where "i = next_id reg"
  define e where "e = \<lparr>e_name = d_name ops dev, e_device = dev\<rparr>"
  define reg' where "reg' = reg\<lparr>next_id := i + 1, devices := bt_insert i e (devices reg),
      name_index := bt_insert (d_name ops dev) i (name_index reg)\<rparr>"
  have wf: "bt_wf (devices reg)" "bt_wf (name_index reg)" and new: "bt_get (devices reg) i = None"
    and nx: "unat (i + 1) = Suc (unat i)" "unat i \<le> n"
    using inv n bt.fresh_from_new [of unat "unat i" "devices reg" i] unat_Suc [of i]
    by (auto simp: reg_inv_def i_def bt.fresh_from_def)
  have "bt.fresh_from unat (unat (next_id reg')) (devices reg')"
    using inv bt.fresh_from_insert [of unat "unat i" "devices reg" i e] nx by (simp add: reg'_def reg_inv_def i_def)
  moreover have "bt_get (name_index reg') nm = Some j \<longleftrightarrow> (\<exists>x. bt_get (devices reg') j = Some x \<and> e_name x = nm)" for nm j
  proof -
    have idx: "bt_get (name_index reg) nm = Some j \<longleftrightarrow> (\<exists>x. bt_get (devices reg) j = Some x \<and> e_name x = nm)"
      using inv by (simp add: reg_inv_def)
    show ?thesis
    proof (cases "nm = d_name ops dev")
      case True
      then show ?thesis using idx new free wf by (auto simp: reg'_def bt.get_insert e_def)
    next
      case False
      then show ?thesis using idx new wf by (auto simp: reg'_def bt.get_insert e_def)
    qed
  qed
  moreover have "bt_get (devices reg') j = Some x \<Longrightarrow> e_name x = d_name ops (e_device x)" for j x
    using inv wf by (auto simp: reg'_def reg_inv_def bt.get_insert e_def split: if_splits)
  ultimately have "reg_inv ops (Suc n) reg'"
    using nx wf(2) by (auto simp: reg_inv_def reg'_def bt.wf_insert)
  moreover have "register ops reg dev = (Ok (i, dev), reg')"
    using free ok by (simp add: register_def Let_def allocate_id_def reg'_def e_def i_def)
  moreover have "get_device reg i = None" using new by (simp add: get_device_def)
  moreover have "get_device reg' = (get_device reg)(i \<mapsto> dev)"
    using get_device_enter [OF wf(1), of reg' i e] by (simp add: reg'_def e_def)
  ultimately show ?thesis by (auto simp: i_def)
qed

lemma register_refuses:
  "bt_get (name_index reg) (d_name ops dev) \<noteq> None \<Longrightarrow> register ops reg dev = (Err AlreadyRegistered, reg)"
  "bt_get (name_index reg) (d_name ops dev) = None \<Longrightarrow> d_probe ops dev = Err e \<Longrightarrow> register ops reg dev = (Err ProbeFailed, reg)"
  "bt_get (name_index reg) (d_name ops dev) = None \<Longrightarrow> d_probe ops dev = Panic \<Longrightarrow> register ops reg dev = (Panic, reg)"
  by (auto simp: register_def)

lemma register_simulates:
  assumes inv: "reg_inv ops n reg" and n: "n < 2 ^ 64 - 1"
  shows "\<exists>r reg'. register ops reg dev = (r, reg') \<and> reg_inv ops (Suc n) reg'
    \<and> dir_step ops (get_device reg) (Register dev) (Registered r) (get_device reg')"
proof (cases "bt_get (name_index reg) (d_name ops dev)")
  case (Some i)
  then show ?thesis
    using register_refuses(1) [of reg ops dev] reg_inv_taken [OF inv] reg_inv_mono [OF inv] dir_step.duplicate by fastforce
next
  case None
  note free = reg_inv_taken [OF inv, of "d_name ops dev", unfolded None, simplified]
  show ?thesis
  proof (cases "d_probe ops dev")
    case (Ok u)
    with register_enters [OF inv n None] free show ?thesis using dir_step.entered by fastforce
  qed (use register_refuses(2,3) [OF None] reg_inv_mono [OF inv] free dir_step.refused dir_step.panicked in \<open>fastforce+\<close>)
qed

lemma unregister_simulates:
  assumes inv: "reg_inv ops n reg"
  shows "\<exists>r reg'. unregister reg i = (r, reg') \<and> reg_inv ops n reg'
    \<and> dir_step ops (get_device reg) (Unregister i) (Unregistered r) (get_device reg')"
proof (cases "bt_get (devices reg) i")
  case None
  then show ?thesis using inv dir_step.unknown [of "get_device reg" i ops] by (simp add: unregister_def get_device_def)
next
  case (Some e)
  define reg' where
    "reg' = reg\<lparr>devices := bt_remove i (devices reg), name_index := bt_remove (e_name e) (name_index reg)\<rparr>"
  have wf: "bt_wf (devices reg)" "bt_wf (name_index reg)" using inv by (auto simp: reg_inv_def bt.fresh_from_def)
  have "bt_get (name_index reg') nm = Some j \<longleftrightarrow> (\<exists>x. bt_get (devices reg') j = Some x \<and> e_name x = nm)" for nm j
    using inv wf Some by (auto simp: reg'_def reg_inv_def bt.get_remove) (metis option.inject)+
  moreover have "bt_get (devices reg') j = Some x \<Longrightarrow> e_name x = d_name ops (e_device x)" for j x
    using inv wf by (auto simp: reg'_def reg_inv_def bt.get_remove split: if_splits)
  ultimately have "reg_inv ops n reg'"
    using inv wf(2) by (auto simp: reg_inv_def reg'_def bt.wf_remove bt.fresh_from_remove)
  moreover have "unregister reg i = (Ok (e_device e), reg')" using Some by (simp add: unregister_def reg'_def)
  moreover have "get_device reg' = (get_device reg)(i := None)" "get_device reg i = Some (e_device e)"
    using Some wf by (auto simp: fun_eq_iff get_device_def reg'_def bt.get_remove)
  ultimately show ?thesis using dir_step.removed by fastforce
qed

lemma reg_exec_simulates:
  assumes "reg_inv ops n reg" "n < 2 ^ 64 - 1"
  shows "\<exists>r reg'. reg_exec ops reg c = (r, reg') \<and> reg_inv ops (Suc n) reg'
    \<and> dir_step ops (get_device reg) c r (get_device reg')"
proof (cases c)
  case (Register dev)
  with register_simulates [OF assms, of dev] show ?thesis by auto
next
  case (Unregister i)
  with unregister_simulates [OF assms(1), of i] reg_inv_mono [of ops n _ "Suc n"] show ?thesis by auto
qed

lemma reg_run_simulates:
  assumes "reg_inv ops n reg" "n + length cs \<le> 2 ^ 64 - 1"
  shows "\<exists>rs reg'. reg_run ops reg cs = (rs, reg') \<and> reg_inv ops (n + length cs) reg'
    \<and> dir_run ops (get_device reg) cs rs (get_device reg')"
  using assms
proof (induction cs arbitrary: reg n)
  case Nil
  then show ?case by (auto intro: dir_run.stop)
next
  case (Cons c cs)
  then obtain r reg1 where one: "reg_exec ops reg c = (r, reg1)" "reg_inv ops (Suc n) reg1"
      "dir_step ops (get_device reg) c r (get_device reg1)"
    using reg_exec_simulates [OF Cons.prems(1), of c] by auto
  obtain rs reg2 where "reg_run ops reg1 cs = (rs, reg2)" "reg_inv ops (Suc n + length cs) reg2"
      "dir_run ops (get_device reg1) cs rs (get_device reg2)"
    using Cons.IH [OF one(2)] Cons.prems(2) by auto
  with one show ?case by (auto intro: dir_run.step)
qed

text \<open>
  C19: every sequence of registrations and removals (fewer than \<open>2 ^ 64\<close> of them) on a new registry is a run of
  the directory, with the same replies; identifiers are never shared, and the look-up by name finds exactly
  the device of that name.
\<close>

theorem registry_refines_directory:
  assumes "length cs < 2 ^ 64 - 1"
  shows "\<exists>rs reg'. reg_run ops registry_new cs = (rs, reg') \<and> dir_run ops Map.empty cs rs (get_device reg')
    \<and> (\<forall>nm d. get_by_name reg' nm = Some d \<longleftrightarrow> (\<exists>i. get_device reg' i = Some d \<and> d_name ops d = nm))"
proof -
  have new: "get_device registry_new = Map.empty" by (auto simp: get_device_def registry_new_def)
  obtain rs reg' where r: "reg_run ops registry_new cs = (rs, reg')" "reg_inv ops (1 + length cs) reg'"
      "dir_run ops (get_device registry_new) cs rs (get_device reg')"
    using reg_run_simulates [OF reg_inv_new, of cs ops] assms by (metis Suc_leI plus_1_eq_Suc)
  show ?thesis
    using r(1,3) get_by_name_iff [OF r(2)] by (intro exI [of _ rs] exI [of _ reg']) (simp add: new)
qed

theorem registry_refines_directory_witness:
  "\<exists>rs reg'. reg_run \<lparr>d_name = (\<lambda>d. str ''a''), d_type = (\<lambda>_. Bus), d_probe = (\<lambda>_ :: nat. Ok ())\<rparr> registry_new
       [Register 1, Register 2] = (rs, reg')
     \<and> dir_run \<lparr>d_name = (\<lambda>d. str ''a''), d_type = (\<lambda>_. Bus), d_probe = (\<lambda>_ :: nat. Ok ())\<rparr> Map.empty
         [Register 1, Register 2] rs (get_device reg')"
  using registry_refines_directory
    [of "[Register 1, Register 2]" "\<lparr>d_name = (\<lambda>d. str ''a''), d_type = (\<lambda>_. Bus), d_probe = (\<lambda>_ :: nat. Ok ())\<rparr>"]
  by auto

section \<open>The driver of a device\<close>

text \<open>\<open>d\<close> is the first matching driver of the highest priority, which is above \<open>p\<close>.\<close>

definition preferred :: "PciDeviceInfo \<Rightarrow> ('dev, 'st, 'w) Driver list \<Rightarrow> int \<Rightarrow> ('dev, 'st, 'w) Driver \<Rightarrow> bool" where
  "preferred info ds p d \<longleftrightarrow> driver_matches d info \<and> p < drv_priority d
     \<and> (\<exists>pre post. ds = pre @ d # post
          \<and> (\<forall>x \<in> set pre. driver_matches x info \<longrightarrow> drv_priority x < drv_priority d)
          \<and> (\<forall>x \<in> set post. driver_matches x info \<longrightarrow> drv_priority x \<le> drv_priority d))"

definition no_candidate :: "PciDeviceInfo \<Rightarrow> ('dev, 'st, 'w) Driver list \<Rightarrow> int \<Rightarrow> bool" where
  "no_candidate info ds p \<longleftrightarrow> (\<forall>x \<in> set ds. driver_matches x info \<longrightarrow> drv_priority x \<le> p)"

lemma preferred_Cons:
  assumes "preferred info ds q d" "p < drv_priority d" "driver_matches x info \<longrightarrow> drv_priority x < drv_priority d"
  shows "preferred info (x # ds) p d"
proof -
  from assms(1) obtain pre post where "x # ds = (x # pre) @ d # post"
    "\<forall>y \<in> set pre. driver_matches y info \<longrightarrow> drv_priority y < drv_priority d"
    "\<forall>y \<in> set post. driver_matches y info \<longrightarrow> drv_priority y \<le> drv_priority d"
    by (auto simp: preferred_def)
  with assms show ?thesis unfolding preferred_def by (metis set_ConsD)
qed

lemma preferred_first:
  "no_candidate info ds (drv_priority x) \<Longrightarrow> driver_matches x info \<Longrightarrow> p < drv_priority x \<Longrightarrow> preferred info (x # ds) p x"
  unfolding preferred_def no_candidate_def by (metis append_Nil empty_iff empty_set)

lemma preferred_above: "preferred info ds p d \<Longrightarrow> p < drv_priority d"
  by (simp add: preferred_def)

lemma best_driver_spec:
  "(no_candidate info ds p \<and> best_driver info ds best p = best)
   \<or> (\<exists>d. best_driver info ds best p = Some d \<and> preferred info ds p d)"
proof (induction ds arbitrary: best p)
  case Nil
  then show ?case by (simp add: no_candidate_def)
next
  case (Cons x ds)
  show ?case
  proof (cases "driver_matches x info \<and> p < drv_priority x")
    case True
    then show ?thesis
      using Cons.IH [where best = "Some x" and p = "drv_priority x"] preferred_first [of info ds x p]
        preferred_Cons [of info ds "drv_priority x"] preferred_above [of info ds "drv_priority x"] by fastforce
  next
    case False
    then show ?thesis
      using Cons.IH [where best = best and p = p] preferred_Cons [of info ds p _ p x] preferred_above [of info ds p]
      by (fastforce simp: no_candidate_def)
  qed
qed

text \<open>
  The driver found for a PCI function is the first one, in order of registration, among the
  matching drivers of the highest priority; \<open>NoDriverFound\<close> is reported exactly when no driver matches with a
  priority above \<open>i32::MIN\<close>, and for every device that is not a PCI function.
\<close>

theorem find_driver_preferred:
  "case downcast dev of
     None \<Rightarrow> find_driver downcast r dev = Err NoDriverFound
   | Some pci \<Rightarrow>
       (no_candidate (pci_info pci) (drivers r) (- (2 ^ 31)) \<and> find_driver downcast r dev = Err NoDriverFound)
       \<or> (\<exists>d. find_driver downcast r dev = Ok d \<and> preferred (pci_info pci) (drivers r) (- (2 ^ 31)) d)"
proof (cases "downcast dev")
  case (Some pci)
  then show ?thesis
    using best_driver_spec [of "pci_info pci" "drivers r" "- (2 ^ 31)" None] by (auto simp: find_driver_def)
qed (simp add: find_driver_def)

section \<open>Every PCI function becomes a device\<close>

lemma hex_lower_inj: "m < 16 \<Longrightarrow> n < 16 \<Longrightarrow> hex_lower m = hex_lower n \<longleftrightarrow> m = n"
  by (auto simp: hex_lower_def split: if_splits)

lemma fmt_02x_inj: "fmt_02x a = fmt_02x b \<longleftrightarrow> a = b"
proof
  assume "fmt_02x a = fmt_02x b"
  then have "unat a div 16 = unat b div 16" "unat a mod 16 = unat b mod 16"
    using unat_u8_less [of a] unat_u8_less [of b] by (simp_all add: fmt_02x_def hex_lower_inj)
  then show "a = b" by (metis div_mod_decomp word_unat_eq_iff)
qed simp

lemma digit_sum: "(n :: nat) = 100 * (n div 100) + 10 * (n div 10 mod 10) + n mod 10"
proof -
  have "n div 100 = n div 10 div 10" by (simp add: div_mult2_eq [symmetric])
  then show ?thesis using div_mod_decomp [of n 10] div_mod_decomp [of "n div 10" 10] by linarith
qed

lemma fmt_dec_inj: "fmt_dec a = fmt_dec b \<longleftrightarrow> a = b"
proof
  assume e: "fmt_dec a = fmt_dec b"
  have "unat a = unat b"
  proof (cases "unat a < 10")
    case True
    with e show ?thesis by (simp add: fmt_dec_def split: if_splits)
  next
    case False
    have "unat a div 100 = unat b div 100 \<and> unat a div 10 mod 10 = unat b div 10 mod 10 \<and> unat a mod 10 = unat b mod 10"
      using e False by (auto simp: fmt_dec_def split: if_splits)
    then show ?thesis using digit_sum [of "unat a"] digit_sum [of "unat b"] by linarith
  qed
  then show "a = b" by (simp add: word_unat_eq_iff)
qed simp

lemma pci_device_name_inj: "pci_device_name a = pci_device_name b \<longleftrightarrow> a = b"
proof
  assume "pci_device_name a = pci_device_name b"
  then have "fmt_02x (pa_bus a) = fmt_02x (pa_bus b)" "fmt_02x (pa_device a) = fmt_02x (pa_device b)"
      "fmt_dec (pa_function a) = fmt_dec (pa_function b)"
    by (auto simp: pci_device_name_def fmt_02x_def [where b = "pa_bus a"] fmt_02x_def [where b = "pa_bus b"]
        fmt_02x_def [where b = "pa_device a"] fmt_02x_def [where b = "pa_device b"])
  then show "a = b" by (simp add: fmt_02x_inj fmt_dec_inj)
qed simp

text \<open>
  The functions delivered so far, with different addresses and a valid vendor, are the devices found by name;
  \<open>n\<close> bounds the identifiers in use.
\<close>

lemma register_function_enters:
  assumes inv: "reg_inv pci_ops n reg" and n: "n < 2 ^ 64 - 1" and v: "vendor_id i \<noteq> 0xFFFF"
    and free: "get_by_name reg (pci_device_name (pci_address i)) = None"
  shows "reg_inv pci_ops (Suc n) (register_function ops s i reg)
    \<and> get_by_name (register_function ops s i reg)
      = (get_by_name reg)(pci_device_name (pci_address i) \<mapsto> pci_device_new ops s i)"
proof -
  let ?d = "pci_device_new ops s i" and ?reg' = "register_function ops s i reg"
  have nm: "d_name pci_ops ?d = pci_device_name (pci_address i)" and ok: "d_probe pci_ops ?d = Ok ()"
    using v by (simp_all add: pci_ops_def pci_device_new_def pci_probe_def)
  have "\<not> taken pci_ops (get_device reg) (d_name pci_ops ?d)"
    using free get_by_name_iff [OF inv, of "d_name pci_ops ?d"] unfolding nm taken_def by (metis option.distinct(1))
  then have "bt_get (name_index reg) (d_name pci_ops ?d) = None" using reg_inv_taken [OF inv] by blast
  from register_enters [OF inv n this ok] have r: "reg_inv pci_ops (Suc n) ?reg'"
      "get_device reg (next_id reg) = None" "get_device ?reg' = (get_device reg)(next_id reg \<mapsto> ?d)"
    by (auto simp: register_function_def)
  have "get_by_name ?reg' m = Some d \<longleftrightarrow> ((get_by_name reg)(pci_device_name (pci_address i) \<mapsto> ?d)) m = Some d" for m d
  proof (cases "m = pci_device_name (pci_address i)")
    case True
    then have "(\<exists>j. get_device reg j = Some d \<and> d_name pci_ops d = m) \<longleftrightarrow> False"
      using free get_by_name_iff [OF inv, of m d] by simp
    with True show ?thesis unfolding get_by_name_iff [OF r(1)] r(3) by (auto simp: nm)
  next
    case False
    have "(\<exists>j. ((get_device reg)(next_id reg \<mapsto> ?d)) j = Some d \<and> d_name pci_ops d = m)
        \<longleftrightarrow> (\<exists>j. get_device reg j = Some d \<and> d_name pci_ops d = m)"
      using r(2) False nm by (auto split: if_splits) (metis option.distinct(1))+
    with False show ?thesis unfolding get_by_name_iff [OF r(1)] r(3) by (simp add: get_by_name_iff [OF inv])
  qed
  then have "get_by_name ?reg' = (get_by_name reg)(pci_device_name (pci_address i) \<mapsto> ?d)"
    by (intro ext option.expand) (metis not_None_eq, metis option.sel not_None_eq)
  with r(1) show ?thesis by blast
qed

lemma deliver_registers:
  assumes "reg_inv pci_ops n reg" "n + length rs \<le> 2 ^ 64 - 1" "\<forall>(i, s) \<in> set rs. vendor_id i \<noteq> 0xFFFF"
    and "distinct (map (pci_address \<circ> fst) rs)"
    and "\<forall>a \<in> set (map (pci_address \<circ> fst) rs). get_by_name reg (pci_device_name a) = None"
  shows "get_by_name (deliver (register_function ops) rs reg)
    = (\<lambda>m. case find (\<lambda>(i, s). pci_device_name (pci_address i) = m) rs of
             Some (i, s) \<Rightarrow> Some (pci_device_new ops s i) | None \<Rightarrow> get_by_name reg m)"
  using assms
proof (induction rs arbitrary: reg n)
  case Nil
  then show ?case by simp
next
  case (Cons r rs)
  obtain i s where r: "r = (i, s)" by fastforce
  have one: "reg_inv pci_ops (Suc n) (register_function ops s i reg)"
      "get_by_name (register_function ops s i reg)
        = (get_by_name reg)(pci_device_name (pci_address i) \<mapsto> pci_device_new ops s i)"
    using register_function_enters [OF Cons.prems(1), of i ops s] Cons.prems by (auto simp: r)
  have rest: "\<forall>a \<in> set (map (pci_address \<circ> fst) rs).
      get_by_name (register_function ops s i reg) (pci_device_name a) = None"
    using Cons.prems(4,5) by (auto simp: r one(2) pci_device_name_inj image_iff)
  have "get_by_name (deliver (register_function ops) rs (register_function ops s i reg))
      = (\<lambda>m. case find (\<lambda>(i, s). pci_device_name (pci_address i) = m) rs of
               Some (i, s) \<Rightarrow> Some (pci_device_new ops s i) | None \<Rightarrow> get_by_name (register_function ops s i reg) m)"
    using Cons.prems by (intro Cons.IH [OF one(1) _ _ _ rest]) simp_all
  moreover have "find (\<lambda>(i, s). pci_device_name (pci_address i) = pci_device_name (pci_address j)) rs = None"
    if "j = i" for j
    using Cons.prems(4) that by (auto simp: r find_None_iff pci_device_name_inj image_iff)
  ultimately show ?case unfolding one(2) by (auto simp: r fun_eq_iff split: option.split)
qed

lemma get_by_name_new: "get_by_name registry_new m = None"
  by (simp add: get_by_name_def registry_new_def)

lemma distinct_addresses_length:
  assumes "distinct (map (pci_address \<circ> fst) rs)"
  shows "length rs \<le> 2 ^ 24"
proof -
  let ?f = "\<lambda>(b, d, f). address b d f"
  have "set (map (pci_address \<circ> fst) rs) \<subseteq> range ?f"
  proof
    fix x assume "x \<in> set (map (pci_address \<circ> fst) rs)"
    have "x = ?f (pa_bus x, pa_device x, pa_function x)" by simp
    then show "x \<in> range ?f" by (rule range_eqI)
  qed
  moreover have "card (range ?f) \<le> card (UNIV :: (u8 \<times> u8 \<times> u8) set)" by (rule card_image_le) simp
  moreover have "finite (range ?f)" by (rule finite_imageI) simp
  ultimately have "card (set (map (pci_address \<circ> fst) rs)) \<le> card (UNIV :: (u8 \<times> u8 \<times> u8) set)"
    using card_mono le_trans by blast
  also have "\<dots> = 2 ^ 24" by (simp add: card_word)
  finally show ?thesis using distinct_card [OF assms] by simp
qed

lemma pci_bus_enters_functions:
  assumes "config_space ops (bar_registers s) m" "ecam_phys_base s \<noteq> 0"
  shows "\<exists>reg' s'. pci_bus_enumerate ops s registry_new = (Ok (), reg', s') \<and> same_reads ops s s'
    \<and> (\<forall>b d f. get_by_name reg' (pci_device_name (address b d f)) \<noteq> None \<longleftrightarrow>
         d < 32 \<and> f < 8 \<and> present ops s b d 0 \<and> present ops s b d f \<and> (f = 0 \<or> multifunction ops s b d))
    \<and> (\<forall>b d f dev. get_by_name reg' (pci_device_name (address b d f)) = Some dev \<longrightarrow>
         pci_address (pci_info dev) = address b d f)"
proof -
  obtain rs s' where e: "enumerate ops (register_function ops) s registry_new
        = (Ok (deliver (register_function ops) rs registry_new), s')"
    and d: "distinct (map (pci_address \<circ> fst) rs)" and sr: "same_reads ops s s'"
    and v: "\<forall>(i, s'') \<in> set rs. same_reads ops s s'' \<and> vendor_id i \<noteq> 0xFFFF"
    and a: "\<forall>b d f. address b d f \<in> set (map (pci_address \<circ> fst) rs) \<longleftrightarrow>
         d < 32 \<and> f < 8 \<and> present ops s b d 0 \<and> present ops s b d f \<and> (f = 0 \<or> multifunction ops s b d)"
    using enumerate_reports [OF assms, of "register_function ops" registry_new]
    by (elim exE conjE) (rule that, assumption+)
  let ?reg = "deliver (register_function ops) rs registry_new"
  have "\<forall>(i, s) \<in> set rs. vendor_id i \<noteq> 0xFFFF" using v by auto
  moreover have "1 + length rs \<le> 2 ^ 64 - 1" using distinct_addresses_length [OF d] by simp
  ultimately have g: "get_by_name ?reg = (\<lambda>m. case find (\<lambda>(i, s). pci_device_name (pci_address i) = m) rs of
             Some (i, s) \<Rightarrow> Some (pci_device_new ops s i) | None \<Rightarrow> None)"
    using deliver_registers [OF reg_inv_new _ _ d, of ops] unfolding get_by_name_new by simp
  have n: "get_by_name ?reg (pci_device_name x) \<noteq> None \<longleftrightarrow> x \<in> set (map (pci_address \<circ> fst) rs)" for x
  proof -
    have "get_by_name ?reg (pci_device_name x) \<noteq> None \<longleftrightarrow> find (\<lambda>(i, s). pci_address i = x) rs \<noteq> None"
      unfolding g pci_device_name_inj by (auto split: option.splits)
    also have "\<dots> \<longleftrightarrow> (\<exists>r \<in> set rs. pci_address (fst r) = x)"
      by (auto simp: find_None_iff) force
    finally show ?thesis by auto
  qed
  have f: "get_by_name ?reg (pci_device_name x) = Some dev \<Longrightarrow> pci_address (pci_info dev) = x" for x dev
    unfolding g by (auto simp: find_Some_iff pci_device_name_inj pci_device_new_def split: option.splits)
  have "pci_bus_enumerate ops s registry_new = (Ok (), ?reg, s')"
    using assms(2) e by (simp add: pci_bus_enumerate_def ecam_is_ready_def)
  then show ?thesis using sr n f a by (intro exI [of _ ?reg] exI [of _ s']) simp
qed

text \<open>
  After the PCI bus has been enumerated into a new registry, the name \<open>pci:bus:device.function\<close> of an
  address finds a device exactly when the function is present (and function 0 with the multi-function bit
  where it is not function 0), and that device describes this very function.
\<close>

theorem pci_bus_registers_functions:
  assumes "config_space ops (bar_registers s) m" "ecam_phys_base s \<noteq> 0"
  shows "\<exists>reg' s'. pci_bus_enumerate ops s registry_new = (Ok (), reg', s') \<and> same_reads ops s s'
    \<and> (\<forall>b d f. get_by_name reg' (pci_device_name (address b d f)) \<noteq> None \<longleftrightarrow>
         d < 32 \<and> f < 8 \<and> present ops s b d 0 \<and> present ops s b d f \<and> (f = 0 \<or> multifunction ops s b d))
    \<and> (\<forall>b d f dev. get_by_name reg' (pci_device_name (address b d f)) = Some dev \<longrightarrow>
         pci_address (pci_info dev) = address b d f)"
  by (rule pci_bus_enters_functions [OF assms])

theorem pci_bus_registers_functions_witness:
  "\<exists>reg' s'. pci_bus_enumerate sample_ops sample_ecam registry_new = (Ok (), reg', s')
     \<and> get_by_name reg' (pci_device_name (address 0 3 0)) \<noteq> None
     \<and> get_by_name reg' (pci_device_name (address 0 4 0)) = None"
proof -
  obtain reg' s' where e: "pci_bus_enumerate sample_ops sample_ecam registry_new = (Ok (), reg', s')"
    and a: "\<forall>b d f. get_by_name reg' (pci_device_name (address b d f)) \<noteq> None \<longleftrightarrow>
         d < 32 \<and> f < 8 \<and> present sample_ops sample_ecam b d 0 \<and> present sample_ops sample_ecam b d f
         \<and> (f = 0 \<or> multifunction sample_ops sample_ecam b d)"
    using pci_bus_registers_functions [OF sample_config_space sample_present(3)]
    by (elim exE conjE) (rule that, assumption+)
  have "get_by_name reg' (pci_device_name (address 0 3 0)) \<noteq> None" using a [rule_format, of 0 3 0] sample_present by simp
  moreover have "get_by_name reg' (pci_device_name (address 0 4 0)) = None" using a [rule_format, of 0 4 0] sample_present by simp
  ultimately show ?thesis using e by (intro exI [of _ reg'] exI [of _ s']) simp
qed

end
