(* ===== verification/Blocks.thy ===== *)
theory Blocks
  imports VirtioLaws Ahci GptStore
begin

text \<open>
  The block devices of the driver crate behind one type (\<^verbatim>\<open>src/lib/driver/src/block/mod.rs\<close>), the driver states
  the registry keeps, and what the installer does with each disk it finds (\<^verbatim>\<open>src/installer/src/lib.rs\<close>).
\<close>

section \<open>Block devices and driver states\<close>

datatype BlockDeviceEnum = Virtio VirtioBlkState | Ahci AhciPortWrapper

definition from_virtio :: "VirtioBlkState \<Rightarrow> BlockDeviceEnum" where
  "from_virtio st = Virtio st"

definition from_ahci_port :: "u8 \<Rightarrow> PortState \<Rightarrow> u64 \<Rightarrow> BlockDeviceEnum" where
  "from_ahci_port i st n = Ahci \<lparr>port_idx = i, port_state = st, port_sectors = n\<rparr>"

fun enum_read ::
    "'hw mmio \<Rightarrow> BlockDeviceEnum \<times> 'hw Machine \<Rightarrow> u64 \<Rightarrow> u8 list \<Rightarrow> (u8 list, BlockError) result \<times> BlockDeviceEnum \<times> 'hw Machine" where
  "enum_read mm (Virtio v, m) lba buf =
     (case or_never m (virtio_read_sectors mm v m lba buf) of (r, m) \<Rightarrow> (r, Virtio v, m))"
| "enum_read mm (Ahci a, m) lba buf =
     (case port_read_sectors mm (port_state a) m lba buf of (r, m) \<Rightarrow> (map_err (\<lambda>_. ReadError) r, Ahci a, m))"

fun enum_write ::
    "'hw mmio \<Rightarrow> BlockDeviceEnum \<times> 'hw Machine \<Rightarrow> u64 \<Rightarrow> u8 list \<Rightarrow> (unit, BlockError) result \<times> BlockDeviceEnum \<times> 'hw Machine" where
  "enum_write mm (Virtio v, m) lba buf =
     (case or_never m (virtio_write_sectors mm v m lba buf) of (r, m) \<Rightarrow> (r, Virtio v, m))"
| "enum_write mm (Ahci a, m) lba buf =
     (case port_write_sectors mm (port_state a) m lba buf of (r, m) \<Rightarrow> (map_err (\<lambda>_. WriteError) r, Ahci a, m))"

fun enum_block_count :: "BlockDeviceEnum \<Rightarrow> u64" where
  "enum_block_count (Virtio v) = sector_count v"
| "enum_block_count (Ahci a) = port_sectors a"

definition enum_block :: "'hw mmio \<Rightarrow> (BlockDeviceEnum \<times> 'hw Machine) block_device" where
  "enum_block mm =
     \<lparr>read_blocks = enum_read mm, write_blocks = enum_write mm, block_size = (\<lambda>_. 512),
      block_count = (\<lambda>(d, _). enum_block_count d)\<rparr>"

datatype DriverStates = VirtioSt VirtioBlkState | AhciSt AhciState

fun state_stop :: "'hw mmio \<Rightarrow> DriverStates \<Rightarrow> 'hw Machine \<Rightarrow> 'hw Machine" where
  "state_stop mm (VirtioSt v) m = virtio_stop mm v m"
| "state_stop mm (AhciSt a) m = ahci_stop mm a m"

fun state_block :: "DriverStates \<Rightarrow> BlockDeviceEnum option" where
  "state_block (VirtioSt v) = Some (from_virtio v)"
| "state_block (AhciSt a) = None"

fun state_blocks :: "DriverStates \<Rightarrow> BlockDeviceEnum list" where
  "state_blocks (VirtioSt v) = [from_virtio v]"
| "state_blocks (AhciSt a) = map Ahci (ahci_ports a)"

text \<open>The device that \<open>as_block_device_ptr\<close> points to: the first port of an AHCI controller.\<close>

fun state_ptr :: "DriverStates \<Rightarrow> (BlockDeviceEnum \<times> (BlockDeviceEnum \<Rightarrow> DriverStates)) option" where
  "state_ptr (VirtioSt v) = Some (Virtio v, \<lambda>d. case d of Virtio v \<Rightarrow> VirtioSt v | Ahci _ \<Rightarrow> VirtioSt v)"
| "state_ptr (AhciSt a) =
     (case ahci_ports a of
        [] \<Rightarrow> None
      | w # ws \<Rightarrow> Some (Ahci w, \<lambda>d. AhciSt (a\<lparr>ahci_ports := (case d of Ahci w \<Rightarrow> w | Virtio _ \<Rightarrow> w) # ws\<rparr>)))"

definition driver_states :: "'hw mmio \<Rightarrow> (DriverStates, BlockDeviceEnum, 'e \<times> 'hw Machine \<times> 'al) state_ops" where
  "driver_states mm =
     \<lparr>st_stop = (\<lambda>st (e, m, al). (e, state_stop mm st m, al)), st_block = state_block, st_blocks = state_blocks, st_ptr = state_ptr\<rparr>"

section \<open>The installer\<close>

datatype disk_report =
    ReadFailed BlockError
  | BootDevice
  | GptFound GptInfo
  | DiskFormatted "u64 \<times> u64 \<times> u64 \<times> u64"
  | FormatFailed GptError

text \<open>
  What the closure of \<open>init\<close> does with one block device: skip one with the signature of a boot sector, report the
  partitions of one that has a table, format any other. \<open>GptError\<close>s of \<open>read_disk\<close> are only printed.
\<close>

definition inspect_disk :: "'d block_device \<Rightarrow> 'd gpt_env \<Rightarrow> (disk_report, unit) result \<times> 'd gpt_env" where
  "inspect_disk ops s =
     (let sector_size = block_size ops (fst s) in
      case read_blocks ops (fst s) 0 (replicate sector_size 0) of
        (Err e, d) \<Rightarrow> (Ok (ReadFailed e), d, snd s)
      | (Panic, d) \<Rightarrow> (Panic, d, snd s)
      | (Ok buf, d) \<Rightarrow>
          sbind (index_r buf 510, d, snd s) (\<lambda>b510 s.
          sbind (if b510 = 0x55 then index_r buf 511 else Ok 0, s) (\<lambda>b511 s.
            if b510 = 0x55 \<and> b511 = 0xAA then (Ok BootDevice, s)
            else case read_disk ops (fst s) of
              (Ok info, d) \<Rightarrow> (Ok (GptFound info), d, snd s)
            | (Panic, d) \<Rightarrow> (Panic, d, snd s)
            | (Err _, d) \<Rightarrow>
                (case format_disk ops (d, snd s) 0 of
                   (Ok x, s) \<Rightarrow> (Ok (DiskFormatted x), s)
                 | (Err e, s) \<Rightarrow> (Ok (FormatFailed e), s)
                 | (Panic, s) \<Rightarrow> (Panic, s)))))"

text \<open>
  The closure as \<open>for_each_block\<close> calls it, collecting what it prints; a panic ends the run. \<open>gpt_env\<close> carries the
  counter of the unique partition identifiers.
\<close>

definition inspect_next ::
    "'hw mmio \<Rightarrow> DeviceId \<Rightarrow> rstr \<Rightarrow> BlockDeviceEnum \<Rightarrow> ((DeviceId \<times> rstr \<times> disk_report) list, unit) result \<times> 'hw Machine \<times> u64
     \<Rightarrow> BlockDeviceEnum \<times> ((DeviceId \<times> rstr \<times> disk_report) list, unit) result \<times> 'hw Machine \<times> u64" where
  "inspect_next mm did driver_name dev a =
     (case a of
        (Ok seen, m, c) \<Rightarrow>
          (case inspect_disk (enum_block mm) ((dev, m), c) of
             (Ok r, (dev, m), c) \<Rightarrow> (dev, Ok (seen @ [(did, driver_name, r)]), m, c)
           | (_, (dev, m), c) \<Rightarrow> (dev, Panic, m, c))
      | _ \<Rightarrow> (dev, a))"

text \<open>
  \<open>init\<close> from the enumeration of the PCI bus on: register the two drivers, bind them, look at every disk.
\<close>

definition install_disks ::
    "'c cfg_ops \<Rightarrow> 'hw mmio \<Rightarrow> 'al dma_allocator \<Rightarrow> u64 \<Rightarrow> PciBusDevice DeviceRegistry \<Rightarrow> 'c Ecam \<times> 'hw Machine \<times> 'al
     \<Rightarrow> ((DeviceId \<times> rstr \<times> disk_report) list, unit) result \<times> PciBusDevice DeviceRegistry \<times> 'c Ecam \<times> 'hw Machine \<times> 'al \<times> u64" where
  "install_disks ops mm dma c reg w =
     (case pci_bus_enumerate ops (fst w) reg of
        (Ok _, reg, e) \<Rightarrow>
          (let drv = register_driver (ahci_driver ops mm dma Some AhciSt)
                       (register_driver (virtio_driver ops mm dma Some VirtioSt) \<lparr>drivers = [], bindings = []\<rparr>)
           in case bind_all Some pci_ops reg (drv, e, snd w) of
                (Panic, _, e, m, al) \<Rightarrow> (Panic, reg, e, m, al, c)
              | (_, drv, e, m, al) \<Rightarrow>
                  (case snd (for_each_block (driver_states mm) (inspect_next mm) drv (Ok [], m, c)) of
                     (r, m, c) \<Rightarrow> (r, reg, e, m, al, c)))
      | (_, reg, e) \<Rightarrow> (Panic, reg, e, fst (snd w), snd (snd w), c))"

text \<open>
  C25: on a conforming device, the installer leaves a disk it has formatted alone: looking at the disk again
  it finds the signature of the protective boot sector and changes no byte.
\<close>

theorem installer_keeps_formatted_disk:
  assumes bs: "block_store ops granule burst capacity bytes ready" and "ready 8 d"
    and "1048704 \<le> unat (block_count ops d)"
    and fits: "gpt_fits granule burst capacity (block_size ops d) (unat (block_count ops d)) 2"
  shows "\<exists>x d' c' d''. format_disk ops (d, c) want = (Ok x, d', c')
    \<and> inspect_disk ops (d', c') = (Ok BootDevice, d'', c') \<and> bytes d'' = bytes d'"
proof -
  let ?n = "formatted_size (block_count ops d) want" and ?c = "snd (generate_guid (snd (generate_guid c)))"
  let ?es = "formatted_entries c ?n" and ?S = "block_size ops d"
  have f2: "gpt_fits granule burst capacity (block_size ops d) (unat (block_count ops d)) (length ?es)"
    using fits by (simp add: formatted_entries_def numeral_2_eq_2)
  have r: "ready (3 + 5) d" using assms(2) by simp
  obtain d' where d': "write_gpt ops (d, ?c) ?es = (Ok (), d', snd (generate_guid ?c))" "ready 3 d'"
      "block_store.same_geometry ops d d'"
    and "\<exists>mbr. length mbr = ?S \<and> boot_signature mbr \<and> block_store.holds granule bytes d' 0 mbr"
    by (rule block_store.write_gpt_lays_out [OF bs r wf_formatted_entries f2, of ?c])
  then obtain mbr where mbr: "length mbr = ?S" "boot_signature mbr" "block_store.holds granule bytes d' 0 mbr" by blast
  have g: "block_size ops d' = ?S" using d'(3) by (simp add: block_store.same_geometry_def [OF bs])
  have room: "?S \<le> burst" "unat (0 :: u64) * granule + ?S \<le> capacity" "length (replicate ?S (0 :: u8)) = length mbr"
    using gpt_fits_capacity [OF fits block_store.granule_pos [OF bs], of 0 ?S] gpt_fits_room [OF fits] fits mbr(1)
    by (auto simp: gpt_fits_def)
  have r3: "ready (Suc 2) d'" using d'(2) by (simp add: eval_nat_numeral)
  obtain d'' where d'': "read_blocks ops d' 0 (replicate ?S 0) = (Ok mbr, d'')" "bytes d'' = bytes d'"
    by (rule block_store.read_holds [OF bs r3 mbr(3) room(3)]) (use room mbr(1) in auto)
  have "inspect_disk ops (d', c') = (Ok BootDevice, d'', c')" for c'
    using d''(1) mbr(2) by (simp add: inspect_disk_def g index_r_def boot_signature_def)
  with d'(1) d''(2) format_disk_writes [OF assms(3), of c want] show ?thesis by auto
qed

theorem installer_keeps_formatted_disk_witness:
  "\<exists>x d' c' d''. format_disk (ram_disk 512 2097152) (\<lambda>_. 0, 1) 0 = (Ok x, d', c')
     \<and> inspect_disk (ram_disk 512 2097152) (d', c') = (Ok BootDevice, d'', c') \<and> d'' = d'"
proof -
  have "gpt_fits 1 512 (2097152 * 512) (block_size (ram_disk 512 2097152) (\<lambda>_. 0))
     (unat (block_count (ram_disk 512 2097152) (\<lambda>_. 0))) 2"
    by (simp add: gpt_fits_def)
  from installer_keeps_formatted_disk [OF block_store_ram_disk TrueI _ this, of 1 0] show ?thesis by simp
qed

section \<open>Formatting through the AHCI driver\<close>

lemma write_gpt_entries_refused:
  assumes short: "\<And>d a data. length data < 512 \<Longrightarrow> fst (write_blocks ops d a data) \<noteq> Ok ()"
    and "\<forall>e \<in> set es. wf_entry e" "length es < 4"
  shows "fst (write_gpt ops s es) \<noteq> Ok ()"
proof
  assume "fst (write_gpt ops s es) = Ok ()"
  then obtain s' where "write_gpt ops s es = (Ok (), s')" by (metis prod.collapse)
  then obtain t a t' where "gpt_write_blocks ops t a (serialize_entries es) = (Ok (), t')"
    by (auto simp: write_gpt_def Let_def res_simps case_prod_beta split: if_splits)
  then have "fst (write_blocks ops (fst t) a (serialize_entries es)) = Ok ()"
    by (auto simp: gpt_write_blocks_def res_simps split: prod.splits)
  with short [of "serialize_entries es"] assms(2,3) show False by (simp add: length_serialize_entries)
qed

text \<open>
  C26: formatting a disk behind the AHCI driver never succeeds, on whatever hardware: the array of two
  partition entries is shorter than a sector, and the driver refuses such a buffer.
\<close>

theorem ahci_format_never_succeeds:
  "fst (format_disk (ahci_block mm) s want) \<noteq> Ok x"
proof -
  have short: "length data < 512 \<Longrightarrow> fst (write_blocks (ahci_block mm) d a data) \<noteq> Ok ()" for d a data
    by (auto simp: ahci_block_def port_write_sectors_def split: prod.splits)
  show ?thesis
  proof
    assume ok: "fst (format_disk (ahci_block mm) s want) = Ok x"
    show False
    proof (cases "1048704 \<le> unat (block_count (ahci_block mm) (fst s))")
      case True
      let ?n = "formatted_size (block_count (ahci_block mm) (fst s)) want"
      obtain s' where "write_gpt (ahci_block mm) (fst s, snd (generate_guid (snd (generate_guid (snd s)))))
          (formatted_entries (snd s) ?n) = (Ok (), s')"
      proof (cases s)
        case (Pair d c)
        obtain s' where "format_disk (ahci_block mm) (d, c) want = (Ok x, s')"
          using ok Pair by (metis prod.collapse)
        then show ?thesis using that True Pair
          by (auto simp: format_disk_writes [of "ahci_block mm" d c want] res_simps)
      qed
      then have "fst (write_gpt (ahci_block mm) (fst s, snd (generate_guid (snd (generate_guid (snd s)))))
          (formatted_entries (snd s) ?n)) = Ok ()" by simp
      moreover have "length (formatted_entries (snd s) ?n) < 4" by (simp add: formatted_entries_def)
      ultimately show False using write_gpt_entries_refused [OF short wf_formatted_entries] by blast
    next
      case False
      then show False using ok by (simp add: format_disk_def Let_def ESP_SIZE_SECTORS_def word_less_nat_alt)
    qed
  qed
qed

end
