(* ===== verification/Screen.thy ===== *)
theory Screen
  imports Prelude
begin

text \<open>
  The text console on the linear framebuffer (\<^verbatim>\<open>src/kernel/src/screen/mod.rs\<close>, the framebuffer description of
  \<^verbatim>\<open>src/lib/boot/src/lib.rs\<close>). Coordinates and offsets are \<open>usize\<close> and wrap; an index outside the framebuffer
  panics. The font of the crate \<open>font8x8\<close> is a parameter, and the locale \<open>glyphs\<close> says what the console needs of it.
\<close>

section \<open>The writer\<close>

record FrameBufferInfo =
  fb_addr :: u64
  fb_size :: u64
  fb_width :: u64
  fb_height :: u64
  fb_stride :: u64
  bytes_per_pixel :: u64
  pixel_format :: u64

record Writer =
  framebuffer :: "u8 list"
  fb_info :: FrameBufferInfo
  cur_x :: u64
  cur_y :: u64

definition writer_new :: "u8 list \<Rightarrow> FrameBufferInfo \<Rightarrow> Writer" where
  "writer_new fb fi = \<lparr>framebuffer = fb, fb_info = fi, cur_x = 0, cur_y = 0\<rparr>"

text \<open>\<open>self.framebuffer[i] = v\<close>\<close>

definition put_byte :: "u64 \<Rightarrow> u8 \<Rightarrow> Writer \<Rightarrow> (Writer, unit) result" where
  "put_byte i v w =
     (if unat i < length (framebuffer w) then Ok (w\<lparr>framebuffer := (framebuffer w)[unat i := v]\<rparr>) else Panic)"

definition write_pixel :: "u64 \<Rightarrow> u64 \<Rightarrow> u8 \<Rightarrow> u8 \<Rightarrow> u8 \<Rightarrow> Writer \<Rightarrow> (Writer, unit) result" where
  "write_pixel x y r g b w =
     (let offset = (y * fb_stride (fb_info w) + x) * bytes_per_pixel (fb_info w) in
      if pixel_format (fb_info w) = 0 then
        rbind (put_byte offset r w) (\<lambda>w. rbind (put_byte (offset + 1) g w) (put_byte (offset + 2) b))
      else if pixel_format (fb_info w) = 1 then
        rbind (put_byte offset b w) (\<lambda>w. rbind (put_byte (offset + 1) g w) (put_byte (offset + 2) r))
      else Ok w)"

definition clear_screen :: "u8 \<Rightarrow> u8 \<Rightarrow> u8 \<Rightarrow> Writer \<Rightarrow> (Writer, unit) result" where
  "clear_screen r g b w =
     rfold (\<lambda>y. rfold (\<lambda>x. write_pixel (of_nat x) (of_nat y) r g b) [0..<unat (fb_width (fb_info w))])
       [0..<unat (fb_height (fb_info w))] w"

definition writer_init :: "u8 list \<Rightarrow> FrameBufferInfo \<Rightarrow> (Writer, unit) result" where
  "writer_init fb fi = clear_screen 0 0 0 (writer_new fb fi)"

text \<open>The glyph of a character the font lacks is the one of the space; \<open>unwrap\<close> panics without that.\<close>

definition glyph_of :: "(rchar \<Rightarrow> u8 list option) \<Rightarrow> rchar \<Rightarrow> (u8 list, unit) result" where
  "glyph_of font c =
     (case font 32 of None \<Rightarrow> Panic | Some space \<Rightarrow> Ok (case font c of Some bitmap \<Rightarrow> bitmap | None \<Rightarrow> space))"

definition write_char ::
    "(rchar \<Rightarrow> u8 list option) \<Rightarrow> u64 \<Rightarrow> u64 \<Rightarrow> rchar \<Rightarrow> u8 \<Rightarrow> u8 \<Rightarrow> u8 \<Rightarrow> Writer \<Rightarrow> (Writer, unit) result" where
  "write_char font x y c r g b w =
     rbind (glyph_of font c) (\<lambda>bitmap.
       rfold (\<lambda>(row, byte).
         rfold (\<lambda>col w.
           if drop_bit col byte AND 1 = 1 then write_pixel (x + of_nat col) (y + of_nat row) r g b w else Ok w) [0..<8])
         (enumerate 0 bitmap) w)"

fun write_string ::
    "(rchar \<Rightarrow> u8 list option) \<Rightarrow> u64 \<Rightarrow> u64 \<Rightarrow> rstr \<Rightarrow> u8 \<Rightarrow> u8 \<Rightarrow> u8 \<Rightarrow> Writer \<Rightarrow> (Writer, unit) result" where
  "write_string font x y [] r g b w = Ok w"
| "write_string font x y (c # cs) r g b w =
     rbind (write_char font x y c r g b w) (\<lambda>w. write_string font (x + 8) y cs r g b w)"

text \<open>\<open>self.framebuffer[dst] = self.framebuffer[src]\<close>\<close>

definition copy_byte :: "u64 \<Rightarrow> u64 \<Rightarrow> Writer \<Rightarrow> (Writer, unit) result" where
  "copy_byte dst src w = rbind (index_r (framebuffer w) (unat src)) (\<lambda>v. put_byte dst v w)"

definition scroll_up :: "Writer \<Rightarrow> (Writer, unit) result" where
  "scroll_up w =
     (let row_height = 9 :: u64; width = fb_width (fb_info w); height = fb_height (fb_info w);
          bpp = bytes_per_pixel (fb_info w); stride = fb_stride (fb_info w)
      in rbind
        (rfold (\<lambda>y. rfold (\<lambda>x.
           let src = (of_nat y * stride + of_nat x) * bpp;
               dst = ((of_nat y - row_height) * stride + of_nat x) * bpp
           in rfold (\<lambda>i. copy_byte (dst + of_nat i) (src + of_nat i)) [0..<unat bpp]) [0..<unat width])
           [unat row_height..<unat height] w)
        (rfold (\<lambda>y. rfold (\<lambda>x. write_pixel (of_nat x) (of_nat y) 0 0 0) [0..<unat width])
           [unat (height - row_height)..<unat height]))"

text \<open>The common end of the two arms that may run off the last line.\<close>

definition scroll_if_full :: "Writer \<Rightarrow> (Writer, unit) result" where
  "scroll_if_full w =
     (if fb_height (fb_info w) < cur_y w + 9
      then rbind (scroll_up w) (\<lambda>w. Ok (w\<lparr>cur_y := cur_y w - 9\<rparr>)) else Ok w)"

definition write_at_cursor ::
    "(rchar \<Rightarrow> u8 list option) \<Rightarrow> u8 \<Rightarrow> u8 \<Rightarrow> u8 \<Rightarrow> rchar \<Rightarrow> Writer \<Rightarrow> (Writer, unit) result" where
  "write_at_cursor font r g b c w =
     (if c = 8 then
        (let w = (if 8 \<le> cur_x w then w\<lparr>cur_x := cur_x w - 8\<rparr>
                  else if 9 \<le> cur_y w then w\<lparr>cur_y := cur_y w - 9, cur_x := (fb_width (fb_info w) div 8) * 8 - 8\<rparr>
                  else w)
         in rfold (\<lambda>row. rfold (\<lambda>col w. write_pixel (cur_x w + of_nat col) (cur_y w + of_nat row) 0 0 0 w) [0..<8])
              [0..<8] w)
      else if c = 10 then scroll_if_full (w\<lparr>cur_x := 0, cur_y := cur_y w + 9\<rparr>)
      else rbind (write_char font (cur_x w) (cur_y w) c r g b w) (\<lambda>w.
        let w = w\<lparr>cur_x := cur_x w + 8\<rparr> in
        if fb_width (fb_info w) < cur_x w + 8
        then scroll_if_full (w\<lparr>cur_x := 0, cur_y := cur_y w + 9\<rparr>) else Ok w))"

definition write_string_at_cursor ::
    "(rchar \<Rightarrow> u8 list option) \<Rightarrow> rstr \<Rightarrow> u8 \<Rightarrow> u8 \<Rightarrow> u8 \<Rightarrow> Writer \<Rightarrow> (Writer, unit) result" where
  "write_string_at_cursor font s r g b w = rfold (write_at_cursor font r g b) s w"

definition write_str :: "(rchar \<Rightarrow> u8 list option) \<Rightarrow> rstr \<Rightarrow> Writer \<Rightarrow> (Writer, unit) result" where
  "write_str font s w = write_string_at_cursor font s 255 255 0 w"

section \<open>Printing\<close>

text \<open>
  The print functions of \<^verbatim>\<open>src/kernel/src/macros.rs\<close>. Their argument is the list of pieces \<open>fmt::Arguments\<close> hands to
  \<open>write_str\<close>. \<open>push\<close> is \<open>push_str\<close> of \<open>heapless::String\<close>, with \<open>None\<close> for its error; a failing piece ends the formatting.
\<close>

record 'b Console =
  screen_writer :: "Writer option"
  screen_locked :: bool
  interrupt_log :: 'b
  interrupts_enabled :: bool

fun write_pieces :: "('b \<Rightarrow> rstr \<Rightarrow> 'b option) \<Rightarrow> rstr list \<Rightarrow> 'b \<Rightarrow> bool \<times> 'b" where
  "write_pieces push [] buf = (True, buf)"
| "write_pieces push (s # ss) buf = (case push buf s of Some buf' \<Rightarrow> write_pieces push ss buf' | None \<Rightarrow> (False, buf))"

definition buffer_from_interrupt :: "('b \<Rightarrow> rstr \<Rightarrow> 'b option) \<Rightarrow> rstr list \<Rightarrow> 'b Console \<Rightarrow> 'b Console" where
  "buffer_from_interrupt push args con = con\<lparr>interrupt_log := snd (write_pieces push args (interrupt_log con))\<rparr>"

definition print_args ::
    "(rchar \<Rightarrow> u8 list option) \<Rightarrow> ('b \<Rightarrow> rstr \<Rightarrow> 'b option) \<Rightarrow> rstr list \<Rightarrow> 'b Console \<Rightarrow> ('b Console, unit) result" where
  "print_args font push args con =
     (if \<not> interrupts_enabled con then Ok (buffer_from_interrupt push args con)
      else if screen_locked con then Ok con
      else case screen_writer con of
        None \<Rightarrow> Ok con
      | Some w \<Rightarrow> rbind (rfold (write_str font) args w) (\<lambda>w. Ok (con\<lparr>screen_writer := Some w\<rparr>)))"

text \<open>\<open>_print_raw\<close> spins on the lock: \<open>None\<close> is a call that never returns.\<close>

definition print_raw :: "(rchar \<Rightarrow> u8 list option) \<Rightarrow> rstr \<Rightarrow> 'b Console \<Rightarrow> ('b Console, unit) result option" where
  "print_raw font s con =
     (if screen_locked con then None
      else Some (case screen_writer con of
        None \<Rightarrow> Ok con
      | Some w \<Rightarrow> rbind (write_str font s w) (\<lambda>w. Ok (con\<lparr>screen_writer := Some w\<rparr>))))"

text \<open>What \<open>_print_serial\<close> sends over the serial line: nothing if the message does not fit its buffer.\<close>

definition print_serial :: "('b \<Rightarrow> rstr \<Rightarrow> 'b option) \<Rightarrow> 'b \<Rightarrow> ('b \<Rightarrow> rstr) \<Rightarrow> rstr list \<Rightarrow> rstr" where
  "print_serial push fresh text_of args =
     (case write_pieces push (str ''[kernel] '' # args) fresh of (True, buf) \<Rightarrow> text_of buf | (False, _) \<Rightarrow> [])"

section \<open>Pixels\<close>

text \<open>The framebuffer has room for the visible area, and the area has room for one cell.\<close>

definition wf_writer :: "Writer \<Rightarrow> bool" where
  "wf_writer w \<longleftrightarrow>
     8 \<le> unat (fb_width (fb_info w)) \<and> 9 \<le> unat (fb_height (fb_info w))
   \<and> unat (fb_width (fb_info w)) \<le> unat (fb_stride (fb_info w)) \<and> 3 \<le> unat (bytes_per_pixel (fb_info w))
   \<and> unat (fb_height (fb_info w)) * unat (fb_stride (fb_info w)) * unat (bytes_per_pixel (fb_info w)) \<le> length (framebuffer w)
   \<and> length (framebuffer w) < 2 ^ 63"

definition on_screen :: "Writer \<Rightarrow> nat \<times> nat \<Rightarrow> bool" where
  "on_screen w p \<longleftrightarrow> fst p < unat (fb_width (fb_info w)) \<and> snd p < unat (fb_height (fb_info w))"

definition pixel_at :: "FrameBufferInfo \<Rightarrow> nat \<times> nat \<Rightarrow> nat" where
  "pixel_at fi p = (snd p * unat (fb_stride fi) + fst p) * unat (bytes_per_pixel fi)"

definition colour_bytes :: "FrameBufferInfo \<Rightarrow> u8 \<Rightarrow> u8 \<Rightarrow> u8 \<Rightarrow> u8 list" where
  "colour_bytes fi r g b =
     (if pixel_format fi = 0 then [r, g, b] else if pixel_format fi = 1 then [b, g, r] else [])"

definition paint :: "u8 \<Rightarrow> u8 \<Rightarrow> u8 \<Rightarrow> nat \<times> nat \<Rightarrow> Writer \<Rightarrow> Writer" where
  "paint r g b p w = w\<lparr>framebuffer := blit (framebuffer w) (pixel_at (fb_info w) p) (colour_bytes (fb_info w) r g b)\<rparr>"

lemma pixel_at_room:
  assumes "wf_writer w" "on_screen w p"
  shows "pixel_at (fb_info w) p + unat (bytes_per_pixel (fb_info w)) \<le> length (framebuffer w)"
proof -
  let ?S = "unat (fb_stride (fb_info w))" and ?B = "unat (bytes_per_pixel (fb_info w))"
  have "snd p * ?S + fst p + 1 \<le> (snd p + 1) * ?S"
    using assms by (auto simp: wf_writer_def on_screen_def)
  also have "\<dots> \<le> unat (fb_height (fb_info w)) * ?S"
    using assms(2) by (intro mult_right_mono) (auto simp: on_screen_def)
  finally have "(snd p * ?S + fst p + 1) * ?B \<le> unat (fb_height (fb_info w)) * ?S * ?B"
    by (rule mult_right_mono) simp
  then show ?thesis using assms(1) by (simp add: wf_writer_def pixel_at_def algebra_simps)
qed

lemma wf_paint [simp]: "wf_writer w \<Longrightarrow> on_screen w p \<Longrightarrow> wf_writer (paint r g b p w)"
proof -
  assume a: "wf_writer w" "on_screen w p"
  have "length (colour_bytes (fb_info w) r g b) \<le> 3" by (simp add: colour_bytes_def)
  then have "length (framebuffer (paint r g b p w)) = length (framebuffer w)"
    using pixel_at_room [OF a] a(1) by (auto simp: paint_def wf_writer_def intro!: length_blit)
  then show ?thesis using a(1) by (simp add: wf_writer_def paint_def)
qed

lemma unat_offset:
  assumes "pixel_at fi (x, y) + i < 2 ^ 64"
  shows "unat ((of_nat y * fb_stride fi + of_nat x) * bytes_per_pixel fi + of_nat i) = pixel_at fi (x, y) + i"
proof -
  have "(of_nat y * fb_stride fi + of_nat x) * bytes_per_pixel fi + of_nat i = (of_nat (pixel_at fi (x, y) + i) :: u64)"
    by (simp add: pixel_at_def)
  then show ?thesis using assms by (simp add: unat_of_nat del: of_nat_add)
qed

lemma write_pixel_on_screen:
  assumes "wf_writer w" "on_screen w (x, y)"
  shows "write_pixel (of_nat x) (of_nat y) r g b w = Ok (paint r g b (x, y) w)"
proof -
  let ?o = "(of_nat y * fb_stride (fb_info w) + of_nat x) * bytes_per_pixel (fb_info w)" and ?p = "pixel_at (fb_info w) (x, y)"
  have room: "?p + 3 \<le> length (framebuffer w)" "length (framebuffer w) < 2 ^ 63"
    using pixel_at_room [OF assms] assms(1) by (auto simp: wf_writer_def)
  have o: "unat ?o = ?p" "unat (?o + 1) = ?p + 1" "unat (?o + 2) = ?p + 2"
    using unat_offset [of "fb_info w" x y 0] unat_offset [of "fb_info w" x y 1] unat_offset [of "fb_info w" x y 2] room
    by simp_all
  have three: "((fb[p := a])[Suc p := b])[p + 2 := c] = blit fb p [a, b, c]" if "p + 3 \<le> length fb" for fb p and a b c :: u8
    using that by (intro nth_equalityI) (auto simp: length_blit nth_blit nth_list_update nth_Cons' numeral_3_eq_3 less_Suc_eq)
  show ?thesis
    using room by (auto simp: write_pixel_def Let_def put_byte_def o paint_def colour_bytes_def three [simplified])
qed

lemma write_pixel_words:
  assumes "wf_writer w" "unat x + i < unat (fb_width (fb_info w))" "unat y + j < unat (fb_height (fb_info w))"
  shows "write_pixel (x + of_nat i) (y + of_nat j) r g b w = Ok (paint r g b (unat x + i, unat y + j) w)"
  using write_pixel_on_screen [OF assms(1), of "unat x + i" "unat y + j"] assms(2,3) by (simp add: on_screen_def)

text \<open>Painting a list of pixels in one colour.\<close>

definition paint_all :: "u8 \<Rightarrow> u8 \<Rightarrow> u8 \<Rightarrow> (nat \<times> nat) list \<Rightarrow> Writer \<Rightarrow> Writer" where
  "paint_all r g b ps w = fold (paint r g b) ps w"

lemma paint_all_simps [simp]:
  "paint_all r g b [] w = w"
  "paint_all r g b (p # ps) w = paint_all r g b ps (paint r g b p w)"
  "paint_all r g b (ps @ qs) w = paint_all r g b qs (paint_all r g b ps w)"
  by (simp_all add: paint_all_def)

lemma paint_sel [simp]:
  "fb_info (paint r g b p w) = fb_info w" "cur_x (paint r g b p w) = cur_x w" "cur_y (paint r g b p w) = cur_y w"
  "on_screen (paint r g b p w) = on_screen w"
  by (simp_all add: paint_def on_screen_def fun_eq_iff)

lemma paint_all_sel [simp]:
  "fb_info (paint_all r g b ps w) = fb_info w" "cur_x (paint_all r g b ps w) = cur_x w"
  "cur_y (paint_all r g b ps w) = cur_y w" "on_screen (paint_all r g b ps w) = on_screen w"
  by (induction ps arbitrary: w) simp_all

lemma wf_paint_all: "wf_writer w \<Longrightarrow> list_all (on_screen w) ps \<Longrightarrow> wf_writer (paint_all r g b ps w)"
  by (induction ps arbitrary: w) simp_all

text \<open>A loop whose every turn paints a list of pixels paints them all.\<close>

lemma rfold_paint:
  assumes "\<And>z w. z \<in> set zs \<Longrightarrow> wf_writer w \<Longrightarrow> fb_info w = fi \<Longrightarrow> cur_x w = cx \<Longrightarrow> cur_y w = cy \<Longrightarrow>
      f z w = Ok (paint_all r g b (ps z) w) \<and> list_all (on_screen w) (ps z)"
    and "wf_writer w" "fb_info w = fi" "cur_x w = cx" "cur_y w = cy"
  shows "rfold f zs w = Ok (paint_all r g b (concat (map ps zs)) w) \<and> list_all (on_screen w) (concat (map ps zs))"
  using assms
proof (induction zs arbitrary: w)
  case Nil
  then show ?case by simp
next
  case (Cons z zs)
  have z: "f z w = Ok (paint_all r g b (ps z) w)" "list_all (on_screen w) (ps z)"
    using Cons.prems(1) [of z w] Cons.prems(2-) by auto
  let ?w = "paint_all r g b (ps z) w"
  have "rfold f zs ?w = Ok (paint_all r g b (concat (map ps zs)) ?w) \<and> list_all (on_screen ?w) (concat (map ps zs))"
    by (rule Cons.IH) (use Cons.prems z wf_paint_all in auto)
  then show ?case using z by simp
qed

section \<open>What is shown\<close>

definition shown :: "Writer \<Rightarrow> nat \<times> nat \<Rightarrow> nat \<Rightarrow> u8" where
  "shown w p i = framebuffer w ! (pixel_at (fb_info w) p + i)"

lemma pixel_at_inj:
  assumes "fst p < unat (fb_stride fi)" "fst q < unat (fb_stride fi)"
    and "i < unat (bytes_per_pixel fi)" "j < unat (bytes_per_pixel fi)" "pixel_at fi p + i = pixel_at fi q + j"
  shows "p = q \<and> i = j"
proof -
  let ?S = "unat (fb_stride fi)" and ?B = "unat (bytes_per_pixel fi)"
  have "snd p * ?S + fst p = snd q * ?S + fst q \<and> i = j"
    using assms(5) unfolding pixel_at_def by (rule mult_add_inj [OF _ assms(3,4)])
  moreover from this have "snd p = snd q \<and> fst p = fst q" using mult_add_inj [OF _ assms(1,2)] by blast
  ultimately show ?thesis by (simp add: prod_eq_iff)
qed

lemma shown_blit:
  assumes "wf_writer w" "on_screen w p" "on_screen w q" "length bs \<le> unat (bytes_per_pixel (fb_info w))"
    "i < unat (bytes_per_pixel (fb_info w))"
  shows "shown (w\<lparr>framebuffer := blit (framebuffer w) (pixel_at (fb_info w) p) bs\<rparr>) q i =
     (if q = p \<and> i < length bs then bs ! i else shown w q i)"
proof -
  let ?P = "pixel_at (fb_info w) p" and ?Q = "pixel_at (fb_info w) q"
  have room: "?P + length bs \<le> length (framebuffer w)" "?Q + i < length (framebuffer w)"
    using pixel_at_room [OF assms(1,2)] pixel_at_room [OF assms(1,3)] assms(4,5) by linarith+
  have "q = p" if "?P \<le> ?Q + i" "?Q + i < ?P + length bs"
    using pixel_at_inj [of q "fb_info w" p i "?Q + i - ?P"] that assms
    by (auto simp: on_screen_def wf_writer_def)
  then show ?thesis using room by (auto simp: shown_def nth_blit)
qed

lemma shown_paint_all:
  assumes "wf_writer w" "list_all (on_screen w) ps" "on_screen w q" "i < unat (bytes_per_pixel (fb_info w))"
  shows "shown (paint_all r g b ps w) q i =
     (if q \<in> set ps \<and> i < length (colour_bytes (fb_info w) r g b) then colour_bytes (fb_info w) r g b ! i else shown w q i)"
  using assms
proof (induction ps arbitrary: w)
  case Nil
  then show ?case by simp
next
  case (Cons p ps)
  have "length (colour_bytes (fb_info w) r g b) \<le> 3" by (simp add: colour_bytes_def)
  then have p: "shown (paint r g b p w) q i =
      (if q = p \<and> i < length (colour_bytes (fb_info w) r g b) then colour_bytes (fb_info w) r g b ! i else shown w q i)"
    using Cons.prems unfolding paint_def by (intro shown_blit) (auto simp: wf_writer_def)
  have "shown (paint_all r g b ps (paint r g b p w)) q i =
     (if q \<in> set ps \<and> i < length (colour_bytes (fb_info w) r g b) then colour_bytes (fb_info w) r g b ! i
      else shown (paint r g b p w) q i)"
    using Cons.IH [of "paint r g b p w"] Cons.prems by simp
  with p show ?case by auto
qed

section \<open>Scrolling\<close>

text \<open>Copying a pixel to a place before it.\<close>

lemma copy_pixel:
  assumes "wf_writer w" "on_screen w p" "on_screen w q" "snd q < snd p"
    and "n \<le> unat (bytes_per_pixel (fb_info w))"
  shows "rfold (\<lambda>i. copy_byte
        ((of_nat (snd q) * fb_stride (fb_info w) + of_nat (fst q)) * bytes_per_pixel (fb_info w) + of_nat i)
        ((of_nat (snd p) * fb_stride (fb_info w) + of_nat (fst p)) * bytes_per_pixel (fb_info w) + of_nat i)) [0..<n] w
     = Ok (w\<lparr>framebuffer := blit (framebuffer w) (pixel_at (fb_info w) q)
          (seg (framebuffer w) (pixel_at (fb_info w) p) (pixel_at (fb_info w) p + n))\<rparr>)"
proof -
  let ?B = "unat (bytes_per_pixel (fb_info w))" and ?fb = "framebuffer w"
  let ?P = "pixel_at (fb_info w) p" and ?Q = "pixel_at (fb_info w) q"
  have room: "?P + ?B \<le> length ?fb" "?Q + ?B \<le> length ?fb" "length ?fb < 2 ^ 63"
    using pixel_at_room assms by (auto simp: wf_writer_def)
  have "snd q * unat (fb_stride (fb_info w)) + fst q + 1 \<le> (snd q + 1) * unat (fb_stride (fb_info w))"
    using assms(1,3) by (auto simp: wf_writer_def on_screen_def)
  also have "\<dots> \<le> snd p * unat (fb_stride (fb_info w))" using assms(4) by (intro mult_right_mono) auto
  also have "\<dots> \<le> snd p * unat (fb_stride (fb_info w)) + fst p" by simp
  finally have before: "?Q + ?B \<le> ?P" unfolding pixel_at_def
    by (metis mult.commute mult_Suc_right Suc_eq_plus1 add.commute mult_le_mono2)
  show ?thesis using assms(5)
  proof (induction n)
    case 0
    then show ?case by (simp add: seg_def)
  next
    case (Suc n)
    let ?b = "blit ?fb ?Q (seg ?fb ?P (?P + n))"
    have l: "length ?b = length ?fb" using Suc.prems room by (intro length_blit) simp
    have o: "unat ((of_nat (snd p) * fb_stride (fb_info w) + of_nat (fst p)) * bytes_per_pixel (fb_info w) + of_nat n) = ?P + n"
      "unat ((of_nat (snd q) * fb_stride (fb_info w) + of_nat (fst q)) * bytes_per_pixel (fb_info w) + of_nat n) = ?Q + n"
      using unat_offset [of "fb_info w" "fst p" "snd p" n] unat_offset [of "fb_info w" "fst q" "snd q" n] room Suc.prems
      by simp_all
    have v: "?b ! (?P + n) = ?fb ! (?P + n)" using Suc.prems room before by (subst nth_blit) auto
    have "?b[?Q + n := ?fb ! (?P + n)] = blit ?fb ?Q (seg ?fb ?P (?P + Suc n))"
      using Suc.prems room by (intro nth_equalityI) (auto simp: l length_blit nth_blit nth_seg nth_list_update)
    then show ?case using Suc room
      by (simp add: rfold_append copy_byte_def index_r_def put_byte_def o l v)
  qed
qed

lemma shown_copied:
  assumes "wf_writer w" "on_screen w p" "on_screen w q" "on_screen w r" "i < unat (bytes_per_pixel (fb_info w))"
  defines "w' \<equiv> w\<lparr>framebuffer := blit (framebuffer w) (pixel_at (fb_info w) q) (seg (framebuffer w)
      (pixel_at (fb_info w) p) (pixel_at (fb_info w) p + unat (bytes_per_pixel (fb_info w))))\<rparr>"
  shows "shown w' r i = (if r = q then shown w p i else shown w r i)" and "wf_writer w'"
proof -
  let ?B = "unat (bytes_per_pixel (fb_info w))"
  let ?s = "seg (framebuffer w) (pixel_at (fb_info w) p) (pixel_at (fb_info w) p + ?B)"
  have room: "pixel_at (fb_info w) p + ?B \<le> length (framebuffer w)" "pixel_at (fb_info w) q + ?B \<le> length (framebuffer w)"
    using pixel_at_room assms(1-3) by auto
  then have l: "length ?s = ?B" by simp
  show "shown w' r i = (if r = q then shown w p i else shown w r i)"
    unfolding w'_def using shown_blit [OF assms(1,3,4), of ?s i] assms(5) l room by (simp add: nth_seg shown_def)
  show "wf_writer w'" using assms(1) l room by (simp add: wf_writer_def w'_def length_blit)
qed

text \<open>The state of the copying loops: rows above \<open>Y\<close> have moved, and of row \<open>Y\<close> the pixels before \<open>X\<close>.\<close>

definition scrolled :: "Writer \<Rightarrow> nat \<Rightarrow> nat \<Rightarrow> Writer \<Rightarrow> bool" where
  "scrolled w Y X w' \<longleftrightarrow>
     wf_writer w' \<and> fb_info w' = fb_info w \<and> cur_x w' = cur_x w \<and> cur_y w' = cur_y w
   \<and> (\<forall>q i. on_screen w q \<longrightarrow> i < unat (bytes_per_pixel (fb_info w)) \<longrightarrow>
        shown w' q i = (if snd q + 9 < Y \<or> snd q + 9 = Y \<and> fst q < X then shown w (fst q, snd q + 9) i else shown w q i))"

lemma scrolled_step:
  assumes "scrolled w y x w'" "9 \<le> y" "on_screen w (x, y)"
  shows "\<exists>w''. rfold (\<lambda>i. copy_byte
        (((of_nat y - 9) * fb_stride (fb_info w) + of_nat x) * bytes_per_pixel (fb_info w) + of_nat i)
        ((of_nat y * fb_stride (fb_info w) + of_nat x) * bytes_per_pixel (fb_info w) + of_nat i))
      [0..<unat (bytes_per_pixel (fb_info w))] w' = Ok w'' \<and> scrolled w y (Suc x) w''"
proof -
  let ?B = "unat (bytes_per_pixel (fb_info w))"
  define w'' where "w'' = w'\<lparr>framebuffer := blit (framebuffer w') (pixel_at (fb_info w') (x, y - 9)) (seg (framebuffer w')
      (pixel_at (fb_info w') (x, y)) (pixel_at (fb_info w') (x, y) + unat (bytes_per_pixel (fb_info w'))))\<rparr>"
  have w': "wf_writer w'" "fb_info w' = fb_info w" "on_screen w' = on_screen w"
    using assms(1) by (auto simp: scrolled_def on_screen_def fun_eq_iff)
  have q: "on_screen w' (x, y - 9)" using assms(3) w'(3) by (auto simp: on_screen_def)
  have p: "on_screen w' (x, y)" using assms(3) w'(3) by simp
  have d: "(of_nat (y - 9) :: u64) = of_nat y - 9" using assms(2) by (simp add: of_nat_diff)
  have ok: "rfold (\<lambda>i. copy_byte
        (((of_nat y - 9) * fb_stride (fb_info w) + of_nat x) * bytes_per_pixel (fb_info w) + of_nat i)
        ((of_nat y * fb_stride (fb_info w) + of_nat x) * bytes_per_pixel (fb_info w) + of_nat i)) [0..<?B] w' = Ok w''"
    using copy_pixel [OF w'(1) p q, of ?B] assms(2) by (simp add: w'(2) d w''_def)
  have "shown w'' r i = (if r = (x, y - 9) then shown w' (x, y) i else shown w' r i)" "wf_writer w''"
    if "on_screen w r" "i < ?B" for r i
    unfolding w''_def using shown_copied [OF w'(1) p q, of r i] that w'(2,3) by simp_all
  moreover have "0 < ?B" using w' by (simp add: wf_writer_def)
  ultimately have "scrolled w y (Suc x) w''"
    using assms w' by (auto simp: scrolled_def w''_def less_Suc_eq)
  with ok show ?thesis by blast
qed

lemma scroll_copies:
  assumes "wf_writer w"
  shows "\<exists>w'. rfold (\<lambda>y. rfold (\<lambda>x. rfold (\<lambda>i. copy_byte
        (((of_nat y - 9) * fb_stride (fb_info w) + of_nat x) * bytes_per_pixel (fb_info w) + of_nat i)
        ((of_nat y * fb_stride (fb_info w) + of_nat x) * bytes_per_pixel (fb_info w) + of_nat i))
      [0..<unat (bytes_per_pixel (fb_info w))]) [0..<unat (fb_width (fb_info w))]) [9..<unat (fb_height (fb_info w))] w = Ok w'
     \<and> scrolled w (unat (fb_height (fb_info w))) 0 w'"
proof -
  let ?W = "unat (fb_width (fb_info w))" and ?H = "unat (fb_height (fb_info w))"
  let ?row = "\<lambda>y. rfold (\<lambda>x. rfold (\<lambda>i. copy_byte
        (((of_nat y - 9) * fb_stride (fb_info w) + of_nat x) * bytes_per_pixel (fb_info w) + of_nat i)
        ((of_nat y * fb_stride (fb_info w) + of_nat x) * bytes_per_pixel (fb_info w) + of_nat i))
      [0..<unat (bytes_per_pixel (fb_info w))]) [0..<?W]"
  have row: "\<exists>w''. ?row y w' = Ok w'' \<and> scrolled w (Suc y) 0 w''" if "9 \<le> y" "y < ?H" "scrolled w y 0 w'" for y w'
  proof -
    have "\<exists>w''. ?row y w' = Ok w'' \<and> scrolled w y ?W w''"
      by (rule rfold_upt_inv) (use that scrolled_step [of w y] in \<open>auto simp: on_screen_def\<close>)
    moreover have "scrolled w y ?W w'' \<Longrightarrow> scrolled w (Suc y) 0 w''" for w''
      by (auto simp: scrolled_def on_screen_def less_Suc_eq)
    ultimately show ?thesis by blast
  qed
  have "scrolled w 9 0 w" using assms by (simp add: scrolled_def)
  moreover have "9 \<le> ?H" using assms by (simp add: wf_writer_def)
  ultimately show ?thesis using rfold_upt_inv [of 9 ?H "\<lambda>y. scrolled w y 0" ?row w] row by blast
qed

lemma scroll_up_shows:
  assumes "wf_writer w"
  obtains w' where "scroll_up w = Ok w'" "wf_writer w'" "fb_info w' = fb_info w" "cur_x w' = cur_x w" "cur_y w' = cur_y w"
    "\<And>q i. on_screen w q \<Longrightarrow> i < unat (bytes_per_pixel (fb_info w)) \<Longrightarrow> shown w' q i =
       (if snd q + 9 < unat (fb_height (fb_info w)) then shown w (fst q, snd q + 9) i
        else if i < length (colour_bytes (fb_info w) 0 0 0) then 0 else shown w q i)"
proof -
  let ?W = "unat (fb_width (fb_info w))" and ?H = "unat (fb_height (fb_info w))"
  have nine: "9 \<le> ?H" using assms by (simp add: wf_writer_def)
  from scroll_copies [OF assms] obtain w1 where w1: "rfold (\<lambda>y. rfold (\<lambda>x. rfold (\<lambda>i. copy_byte
        (((of_nat y - 9) * fb_stride (fb_info w) + of_nat x) * bytes_per_pixel (fb_info w) + of_nat i)
        ((of_nat y * fb_stride (fb_info w) + of_nat x) * bytes_per_pixel (fb_info w) + of_nat i))
      [0..<unat (bytes_per_pixel (fb_info w))]) [0..<?W]) [9..<?H] w = Ok w1" "scrolled w ?H 0 w1" by blast
  let ?ps = "concat (map (\<lambda>y. concat (map (\<lambda>x. [(x, y)]) [0..<?W])) [?H - 9..<?H])"
  have w1': "wf_writer w1" "fb_info w1 = fb_info w" "cur_x w1 = cur_x w" "cur_y w1 = cur_y w" "on_screen w1 = on_screen w"
    using w1(2) by (auto simp: scrolled_def on_screen_def fun_eq_iff)
  have "rfold (\<lambda>y. rfold (\<lambda>x. write_pixel (of_nat x) (of_nat y) 0 0 0) [0..<?W]) [?H - 9..<?H] w1 = Ok (paint_all 0 0 0 ?ps w1)
      \<and> list_all (on_screen w1) ?ps"
    by (rule rfold_paint [where fi = "fb_info w" and cx = "cur_x w" and cy = "cur_y w"], rule rfold_paint [where fi = "fb_info w" and cx = "cur_x w" and cy = "cur_y w"])
      (auto simp: w1' write_pixel_on_screen on_screen_def)
  moreover have "unat (fb_height (fb_info w) - 9) = ?H - 9" using nine by (simp add: unat_sub word_le_nat_alt)
  ultimately have ok: "scroll_up w = Ok (paint_all 0 0 0 ?ps w1)" and on: "list_all (on_screen w1) ?ps"
    using w1(1) by (simp_all add: scroll_up_def Let_def)
  have z: "i < length (colour_bytes (fb_info w) 0 0 0) \<Longrightarrow> colour_bytes (fb_info w) 0 0 0 ! i = 0" for i
    by (auto simp: colour_bytes_def nth_Cons' split: if_splits)
  show thesis
  proof (rule that [OF ok wf_paint_all [OF w1'(1) on]])
    fix q i assume q: "on_screen w q" and i: "i < unat (bytes_per_pixel (fb_info w))"
    have m: "q \<in> set ?ps \<longleftrightarrow> \<not> snd q + 9 < ?H"
      using q nine by (auto simp: on_screen_def image_iff prod_eq_iff intro!: bexI [of _ "snd q"])
    have s: "shown w1 q i = (if snd q + 9 < ?H then shown w (fst q, snd q + 9) i else shown w q i)"
      using w1(2) q i by (cases q) (simp add: scrolled_def)
    show "shown (paint_all 0 0 0 ?ps w1) q i = (if snd q + 9 < ?H then shown w (fst q, snd q + 9) i
        else if i < length (colour_bytes (fb_info w) 0 0 0) then 0 else shown w q i)"
      using shown_paint_all [OF w1'(1) on, of q i 0 0 0] q i m s z by (simp add: w1')
  qed (simp_all add: w1')
qed

section \<open>Characters\<close>

text \<open>What the console needs of the font: a glyph has eight rows, and the space has one.\<close>

locale glyphs =
  fixes font :: "rchar \<Rightarrow> u8 list option"
  assumes eight_rows: "font c = Some bitmap \<Longrightarrow> length bitmap = 8"
    and has_space: "font 32 \<noteq> None"
begin

lemma glyph_of_Ok: obtains bitmap where "glyph_of font c = Ok bitmap" "length bitmap = 8"
  using has_space eight_rows by (cases "font 32"; cases "font c") (auto simp: glyph_of_def)

end

definition glyph_pixels :: "u8 list \<Rightarrow> nat \<Rightarrow> nat \<Rightarrow> (nat \<times> nat) list" where
  "glyph_pixels bitmap x y =
     concat (map (\<lambda>(row, byte). concat (map (\<lambda>col. if drop_bit col byte AND 1 = 1 then [(x + col, y + row)] else []) [0..<8]))
       (enumerate 0 bitmap))"

definition cell :: "nat \<Rightarrow> nat \<Rightarrow> (nat \<times> nat) list" where
  "cell x y = concat (map (\<lambda>row. concat (map (\<lambda>col. [(x + col, y + row)]) [0..<8])) [0..<8])"

lemma set_cell: "p \<in> set (cell x y) \<longleftrightarrow> x \<le> fst p \<and> fst p < x + 8 \<and> y \<le> snd p \<and> snd p < y + 8"
proof -
  have "p \<in> set (cell x y) \<longleftrightarrow> (\<exists>row < 8. \<exists>col < 8. p = (x + col, y + row))"
    by (auto simp: cell_def image_iff)
  also have "\<dots> \<longleftrightarrow> x \<le> fst p \<and> fst p < x + 8 \<and> y \<le> snd p \<and> snd p < y + 8"
    by (cases p, simp) presburger
  finally show ?thesis .
qed

lemma glyph_pixels_in_cell: "length bitmap = 8 \<Longrightarrow> set (glyph_pixels bitmap x y) \<subseteq> set (cell x y)"
  by (auto simp: glyph_pixels_def set_cell in_set_enumerate_eq split: if_splits)

text \<open>The cell below and right of the cursor is on the screen, and text starts at a multiple of eight.\<close>

definition wf_cursor :: "Writer \<Rightarrow> bool" where
  "wf_cursor w \<longleftrightarrow> 8 dvd unat (cur_x w)
     \<and> unat (cur_x w) + 8 \<le> unat (fb_width (fb_info w)) \<and> unat (cur_y w) + 9 \<le> unat (fb_height (fb_info w))"

lemma write_char_paints:
  assumes "wf_writer w" "glyph_of font c = Ok bitmap" "length bitmap = 8"
    and "unat x + 8 \<le> unat (fb_width (fb_info w))" "unat y + 8 \<le> unat (fb_height (fb_info w))"
  shows "write_char font x y c r g b w = Ok (paint_all r g b (glyph_pixels bitmap (unat x) (unat y)) w)
     \<and> list_all (on_screen w) (glyph_pixels bitmap (unat x) (unat y))"
  unfolding write_char_def assms(2) rbind.simps glyph_pixels_def
proof (rule rfold_paint [where fi = "fb_info w" and cx = "cur_x w" and cy = "cur_y w"])
  fix z w' assume z: "z \<in> set (enumerate 0 bitmap)"
    and w': "wf_writer w'" "fb_info w' = fb_info w" "cur_x w' = cur_x w" "cur_y w' = cur_y w"
  obtain row byte where zz: "z = (row, byte)" by (cases z)
  with z assms(3) have row: "row < 8" by (auto simp: in_set_enumerate_eq)
  let ?ps = "\<lambda>col. if drop_bit col byte AND 1 = 1 then [(unat x + col, unat y + row)] else []"
  have "rfold (\<lambda>col w. if drop_bit col byte AND 1 = 1 then write_pixel (x + of_nat col) (y + of_nat row) r g b w else Ok w)
      [0..<8] w' = Ok (paint_all r g b (concat (map ?ps [0..<8])) w') \<and> list_all (on_screen w') (concat (map ?ps [0..<8]))"
    by (rule rfold_paint [where fi = "fb_info w" and cx = "cur_x w" and cy = "cur_y w"])
      (use w' row assms in \<open>auto simp: write_pixel_words on_screen_def\<close>)
  then show "(case z of (row, byte) \<Rightarrow> rfold (\<lambda>col w.
          if drop_bit col byte AND 1 = 1 then write_pixel (x + of_nat col) (y + of_nat row) r g b w else Ok w) [0..<8]) w' =
      Ok (paint_all r g b (case z of (row, byte) \<Rightarrow> concat (map (\<lambda>col.
          if drop_bit col byte AND 1 = 1 then [(unat x + col, unat y + row)] else []) [0..<8])) w')
      \<and> list_all (on_screen w') (case z of (row, byte) \<Rightarrow> concat (map (\<lambda>col.
          if drop_bit col byte AND 1 = 1 then [(unat x + col, unat y + row)] else []) [0..<8]))"
    by (simp add: zz)
qed (use assms(1) in simp_all)

lemma erase_cell_paints:
  assumes "wf_writer w" "wf_cursor w"
  shows "rfold (\<lambda>row. rfold (\<lambda>col w. write_pixel (cur_x w + of_nat col) (cur_y w + of_nat row) 0 0 0 w) [0..<8]) [0..<8] w
     = Ok (paint_all 0 0 0 (cell (unat (cur_x w)) (unat (cur_y w))) w)
     \<and> list_all (on_screen w) (cell (unat (cur_x w)) (unat (cur_y w)))"
  unfolding cell_def
  by (rule rfold_paint [where fi = "fb_info w" and cx = "cur_x w" and cy = "cur_y w"],
      rule rfold_paint [where fi = "fb_info w" and cx = "cur_x w" and cy = "cur_y w"])
    (use assms in \<open>auto simp: write_pixel_words on_screen_def wf_cursor_def\<close>)

section \<open>The cursor\<close>

lemma screen_small:
  assumes "wf_writer w"
  shows "unat (fb_height (fb_info w)) < 2 ^ 63" "unat (fb_width (fb_info w)) < 2 ^ 63"
proof -
  let ?W = "unat (fb_width (fb_info w))" and ?H = "unat (fb_height (fb_info w))"
  let ?S = "unat (fb_stride (fb_info w))" and ?B = "unat (bytes_per_pixel (fb_info w))"
  have "?H * 1 * 1 \<le> ?H * ?S * ?B" "1 * ?S * 1 \<le> ?H * ?S * ?B"
    using assms by (intro mult_le_mono; simp add: wf_writer_def)+
  then have "?H \<le> ?H * ?S * ?B" "?S \<le> ?H * ?S * ?B" by (simp_all only: mult_1_right mult_1)
  then show "?H < 2 ^ 63" "?W < 2 ^ 63" using assms unfolding wf_writer_def by linarith+
qed

lemma scroll_if_full_ok:
  assumes "wf_writer w" "8 dvd unat (cur_x w)" "unat (cur_x w) + 8 \<le> unat (fb_width (fb_info w))"
    and "9 \<le> unat (cur_y w)" "unat (cur_y w) \<le> unat (fb_height (fb_info w))"
  shows "\<exists>w'. scroll_if_full w = Ok w' \<and> wf_writer w' \<and> wf_cursor w' \<and> fb_info w' = fb_info w"
proof -
  have y: "unat (cur_y w + 9) = unat (cur_y w) + 9" "unat (cur_y w - 9) = unat (cur_y w) - 9"
    using assms(4,5) screen_small(1) [OF assms(1)] by (simp_all add: unat_word_ariths unat_sub word_le_nat_alt)
  obtain w' where w': "scroll_up w = Ok w'" "wf_writer w'" "fb_info w' = fb_info w" "cur_x w' = cur_x w" "cur_y w' = cur_y w"
    by (rule scroll_up_shows [OF assms(1)])
  have "wf_writer (w'\<lparr>cur_y := cur_y w' - 9\<rparr>)" using w'(2) by (simp add: wf_writer_def)
  then show ?thesis
    using assms w' y by (auto simp: scroll_if_full_def wf_cursor_def word_less_nat_alt)
qed

text \<open>Going back one cell from where the cursor goes after a character.\<close>

definition next_cell :: "Writer \<Rightarrow> Writer" where
  "next_cell w =
     (if fb_width (fb_info w) < cur_x w + 8 + 8 then w\<lparr>cur_x := 0, cur_y := cur_y w + 9\<rparr> else w\<lparr>cur_x := cur_x w + 8\<rparr>)"

definition previous_cell :: "Writer \<Rightarrow> Writer" where
  "previous_cell w =
     (if 8 \<le> cur_x w then w\<lparr>cur_x := cur_x w - 8\<rparr>
      else if 9 \<le> cur_y w then w\<lparr>cur_y := cur_y w - 9, cur_x := (fb_width (fb_info w) div 8) * 8 - 8\<rparr> else w)"

lemma cursor_words:
  assumes "wf_writer w" "wf_cursor w"
  shows "unat (cur_x w + 8) = unat (cur_x w) + 8" "unat (cur_x w + 8 + 8) = unat (cur_x w) + 16"
    "unat (cur_y w + 9) = unat (cur_y w) + 9" "unat (cur_y w + 9 + 9) = unat (cur_y w) + 18"
  using assms screen_small [OF assms(1)] by (simp_all add: wf_cursor_def unat_word_ariths)

lemma previous_next_cell:
  assumes "wf_writer w" "wf_cursor w"
  shows "previous_cell (next_cell w) = w"
proof -
  note cw = cursor_words [OF assms]
  have "(fb_width (fb_info w) div 8) * 8 - 8 = cur_x w" if "fb_width (fb_info w) < cur_x w + 8 + 8"
  proof -
    obtain k where k: "unat (cur_x w) = 8 * k" using assms(2) by (auto simp: wf_cursor_def)
    have "unat (fb_width (fb_info w)) div 8 = Suc k"
      using that cw assms(2) k by (intro div_nat_eqI) (auto simp: wf_cursor_def word_less_nat_alt)
    then have "unat (fb_width (fb_info w) div 8) = Suc k" by (simp add: unat_div)
    then have "fb_width (fb_info w) div 8 = of_nat (Suc k)" by (rule word_eq_of_natI)
    moreover have "cur_x w = of_nat (8 * k)" using k by (rule word_eq_of_natI)
    ultimately show ?thesis by (simp add: algebra_simps)
  qed
  then show ?thesis using cw assms(2)
    by (auto simp: previous_cell_def next_cell_def word_le_nat_alt wf_cursor_def)
qed

lemma wf_previous_cell:
  assumes "wf_writer w" "wf_cursor w"
  shows "wf_writer (previous_cell w)" "wf_cursor (previous_cell w)"
proof -
  let ?W = "unat (fb_width (fb_info w))"
  have "8 div 8 \<le> ?W div 8" using assms(1) by (intro div_le_mono) (simp add: wf_writer_def)
  then have "1 \<le> ?W div 8" by simp
  have le: "?W div 8 * 8 \<le> ?W" by (rule div_times_less_eq_dividend)
  then have m: "unat ((fb_width (fb_info w) div 8) * 8) = ?W div 8 * 8"
    using screen_small(2) [OF assms(1)] by (simp add: unat_word_ariths unat_div)
  then have "unat ((fb_width (fb_info w) div 8) * 8 - 8) = (?W div 8 - 1) * 8"
    using \<open>1 \<le> ?W div 8\<close> by (subst unat_sub) (simp_all add: word_le_nat_alt m diff_mult_distrib)
  moreover have "(?W div 8 - 1) * 8 + 8 \<le> ?W" using le \<open>1 \<le> ?W div 8\<close> by (simp add: diff_mult_distrib)
  moreover have "unat (cur_x w - 8) = unat (cur_x w) - 8" if "8 \<le> cur_x w"
    using that by (simp add: unat_sub)
  moreover have "unat (cur_y w - 9) = unat (cur_y w) - 9" if "9 \<le> cur_y w"
    using that by (simp add: unat_sub)
  ultimately show "wf_cursor (previous_cell w)"
    using assms(2) unfolding previous_cell_def wf_cursor_def
    by (auto simp: dvd_diff_nat le_diff_conv2)
  show "wf_writer (previous_cell w)" using assms(1) by (simp add: previous_cell_def wf_writer_def)
qed

lemma write_at_cursor_backspace: "write_at_cursor font r g b 8 w =
    rfold (\<lambda>row. rfold (\<lambda>col w. write_pixel (cur_x w + of_nat col) (cur_y w + of_nat row) 0 0 0 w) [0..<8]) [0..<8]
      (previous_cell w)"
  by (simp add: write_at_cursor_def previous_cell_def)

lemma backspace_paints:
  assumes "wf_writer w" "wf_cursor w"
  shows "write_at_cursor font r g b 8 w =
      Ok (paint_all 0 0 0 (cell (unat (cur_x (previous_cell w))) (unat (cur_y (previous_cell w)))) (previous_cell w))"
    and "list_all (on_screen w) (cell (unat (cur_x (previous_cell w))) (unat (cur_y (previous_cell w))))"
proof -
  have "on_screen (previous_cell w) = on_screen w" by (simp add: fun_eq_iff on_screen_def previous_cell_def)
  then show "write_at_cursor font r g b 8 w =
      Ok (paint_all 0 0 0 (cell (unat (cur_x (previous_cell w))) (unat (cur_y (previous_cell w)))) (previous_cell w))"
    "list_all (on_screen w) (cell (unat (cur_x (previous_cell w))) (unat (cur_y (previous_cell w))))"
    using erase_cell_paints [OF wf_previous_cell [OF assms]] by (simp_all add: write_at_cursor_backspace)
qed

context glyphs
begin

lemma char_paints:
  assumes "wf_writer w" "wf_cursor w"
  obtains ps where "\<And>r g b. write_char font (cur_x w) (cur_y w) c r g b w = Ok (paint_all r g b ps w)"
    "list_all (on_screen w) ps" "set ps \<subseteq> set (cell (unat (cur_x w)) (unat (cur_y w)))"
proof -
  obtain bitmap where g: "glyph_of font c = Ok bitmap" "length bitmap = 8" by (rule glyph_of_Ok)
  have "unat (cur_x w) + 8 \<le> unat (fb_width (fb_info w))" "unat (cur_y w) + 8 \<le> unat (fb_height (fb_info w))"
    using assms(2) by (auto simp: wf_cursor_def)
  note p = write_char_paints [OF assms(1) g this]
  show thesis
    by (rule that [of "glyph_pixels bitmap (unat (cur_x w)) (unat (cur_y w))"])
      (use p glyph_pixels_in_cell [OF g(2)] in auto)
qed

lemma cursor_step:
  assumes "wf_writer w" "wf_cursor w"
  shows "\<exists>w'. write_at_cursor font r g b c w = Ok w' \<and> wf_writer w' \<and> wf_cursor w' \<and> fb_info w' = fb_info w"
proof -
  note cw = cursor_words [OF assms]
  have line: "\<exists>w'. scroll_if_full (w1\<lparr>cur_x := 0, cur_y := cur_y w + 9\<rparr>) = Ok w' \<and> wf_writer w' \<and> wf_cursor w' \<and> fb_info w' = fb_info w"
    if "wf_writer w1" "fb_info w1 = fb_info w" for w1
    using scroll_if_full_ok [of "w1\<lparr>cur_x := 0, cur_y := cur_y w + 9\<rparr>"] that cw assms(2)
    by (auto simp: wf_writer_def wf_cursor_def)
  consider "c = 8" | "c = 10" | "c \<noteq> 8" "c \<noteq> 10" by blast
  then show ?thesis
  proof cases
    case 1
    let ?p = "previous_cell w"
    have on: "on_screen ?p = on_screen w" by (simp add: fun_eq_iff on_screen_def previous_cell_def)
    have "wf_writer (paint_all 0 0 0 (cell (unat (cur_x ?p)) (unat (cur_y ?p))) ?p)"
      using wf_paint_all [OF wf_previous_cell(1) [OF assms]] backspace_paints(2) [OF assms] by (simp add: on)
    moreover have "wf_cursor (paint_all 0 0 0 ps ?p)" for ps
      using wf_previous_cell(2) [OF assms] by (simp add: wf_cursor_def)
    moreover have "fb_info ?p = fb_info w" by (simp add: previous_cell_def)
    ultimately show ?thesis using backspace_paints(1) [OF assms] 1 by simp
  next
    case 2
    then show ?thesis using line [OF assms(1) refl] by (simp add: write_at_cursor_def)
  next
    case 3
    obtain ps where ps: "write_char font (cur_x w) (cur_y w) c r g b w = Ok (paint_all r g b ps w)" "list_all (on_screen w) ps"
      by (rule char_paints [OF assms, of c]) metis
    let ?q = "paint_all r g b ps w"
    have q: "wf_writer ?q" "fb_info ?q = fb_info w" using wf_paint_all [OF assms(1) ps(2)] by simp_all
    have q8: "wf_writer (?q\<lparr>cur_x := cur_x ?q + 8\<rparr>)" using q(1) by (simp add: wf_writer_def)
    have "wf_cursor (?q\<lparr>cur_x := cur_x ?q + 8\<rparr>)" if "\<not> fb_width (fb_info w) < cur_x w + 8 + 8"
      using that assms(2) cw by (auto simp: wf_cursor_def word_less_nat_alt)
    with q8 line [OF q] 3 ps(1) show ?thesis by (auto simp: write_at_cursor_def Let_def)
  qed
qed

lemma string_ok:
  assumes "wf_writer w" "wf_cursor w"
  shows "\<exists>w'. write_string_at_cursor font s r g b w = Ok w' \<and> wf_writer w' \<and> wf_cursor w' \<and> fb_info w' = fb_info w"
  using assms unfolding write_string_at_cursor_def
proof (induction s arbitrary: w)
  case Nil
  then show ?case by simp
next
  case (Cons c s)
  from cursor_step [OF Cons.prems] obtain w1 where "write_at_cursor font r g b c w = Ok w1" "wf_writer w1" "wf_cursor w1"
    "fb_info w1 = fb_info w" by blast
  with Cons.IH [of w1] show ?case by simp
qed

text \<open>A character away from the last line only paints its cell and moves the cursor on.\<close>

lemma char_moves_on:
  assumes "wf_writer w" "wf_cursor w" "unat (cur_y w) + 18 \<le> unat (fb_height (fb_info w))" "c \<noteq> 8" "c \<noteq> 10"
  obtains ps where "write_at_cursor font r g b c w = Ok (next_cell (paint_all r g b ps w))"
    "list_all (on_screen w) ps" "set ps \<subseteq> set (cell (unat (cur_x w)) (unat (cur_y w)))"
proof -
  obtain ps where ps: "write_char font (cur_x w) (cur_y w) c r g b w = Ok (paint_all r g b ps w)" "list_all (on_screen w) ps"
      "set ps \<subseteq> set (cell (unat (cur_x w)) (unat (cur_y w)))"
    by (rule char_paints [OF assms(1,2), of c]) metis
  have "\<not> fb_height (fb_info w) < cur_y w + 9 + 9"
    using cursor_words [OF assms(1,2)] assms(3) by (simp add: word_less_nat_alt)
  then have "write_at_cursor font r g b c w = Ok (next_cell (paint_all r g b ps w))"
    using assms(4,5) ps(1) by (simp add: write_at_cursor_def next_cell_def scroll_if_full_def Let_def)
  then show thesis using ps(2,3) by (rule that)
qed

text \<open>A character and a backspace.\<close>

lemma type_and_erase:
  assumes "wf_writer w" "wf_cursor w" "unat (cur_y w) + 18 \<le> unat (fb_height (fb_info w))" "c \<noteq> 8" "c \<noteq> 10"
  shows "\<exists>w'. rbind (write_at_cursor font r g b c w) (write_at_cursor font r g b 8) = Ok w' \<and> wf_writer w'
     \<and> cur_x w' = cur_x w \<and> cur_y w' = cur_y w \<and> fb_info w' = fb_info w
     \<and> (\<forall>p i. on_screen w p \<and> i < unat (bytes_per_pixel (fb_info w)) \<longrightarrow> shown w' p i =
          (if p \<in> set (cell (unat (cur_x w)) (unat (cur_y w))) \<and> i < length (colour_bytes (fb_info w) 0 0 0) then 0 else shown w p i))"
proof -
  let ?cell = "cell (unat (cur_x w)) (unat (cur_y w))"
  obtain ps where ps: "write_at_cursor font r g b c w = Ok (next_cell (paint_all r g b ps w))"
    "list_all (on_screen w) ps" "set ps \<subseteq> set ?cell" by (rule char_moves_on [OF assms])
  let ?a = "paint_all r g b ps w"
  have a: "wf_writer ?a" "wf_cursor ?a" using wf_paint_all [OF assms(1) ps(2)] assms(2) by (simp_all add: wf_cursor_def)
  have n: "wf_writer (next_cell ?a)" "wf_cursor (next_cell ?a)"
    using a assms(3) cursor_words [OF assms(1,2)]
    by (auto simp: next_cell_def wf_writer_def wf_cursor_def word_less_nat_alt)
  note e = backspace_paints [OF n, unfolded previous_next_cell [OF a]]
  have "on_screen (next_cell ?a) = on_screen w" by (simp add: next_cell_def on_screen_def fun_eq_iff)
  then have on: "list_all (on_screen w) ?cell" using e(2) by simp
  have z: "i < length (colour_bytes (fb_info w) 0 0 0) \<Longrightarrow> colour_bytes (fb_info w) 0 0 0 ! i = 0" for i
    by (auto simp: colour_bytes_def nth_Cons' split: if_splits)
  have l: "length (colour_bytes (fb_info w) r g b) = length (colour_bytes (fb_info w) 0 0 0)" by (simp add: colour_bytes_def)
  have sh: "shown (paint_all 0 0 0 ?cell ?a) p i =
      (if p \<in> set ?cell \<and> i < length (colour_bytes (fb_info w) 0 0 0) then 0 else shown w p i)"
    if "on_screen w p" "i < unat (bytes_per_pixel (fb_info w))" for p i
    using shown_paint_all [OF a(1), of ?cell p i 0 0 0] shown_paint_all [OF assms(1) ps(2), of p i r g b] that on ps(3) z l
    by auto
  have "wf_writer (paint_all 0 0 0 ?cell ?a)" using wf_paint_all [OF a(1)] on by simp
  with sh e(1) show ?thesis by (simp add: ps(1))
qed

end

lemma clear_screen_Ok:
  assumes "wf_writer w"
  obtains ps where "clear_screen r g b w = Ok (paint_all r g b ps w)" "list_all (on_screen w) ps"
    "\<And>p. on_screen w p \<Longrightarrow> p \<in> set ps"
proof -
  let ?ps = "concat (map (\<lambda>y. concat (map (\<lambda>x. [(x, y)]) [0..<unat (fb_width (fb_info w))])) [0..<unat (fb_height (fb_info w))])"
  have "clear_screen r g b w = Ok (paint_all r g b ?ps w) \<and> list_all (on_screen w) ?ps" unfolding clear_screen_def
    by (rule rfold_paint [where fi = "fb_info w" and cx = "cur_x w" and cy = "cur_y w"],
        rule rfold_paint [where fi = "fb_info w" and cx = "cur_x w" and cy = "cur_y w"])
      (use assms in \<open>auto simp: write_pixel_on_screen on_screen_def\<close>)
  moreover have "p \<in> set ?ps" if "on_screen w p" for p
    using that by (auto simp: on_screen_def image_iff prod_eq_iff intro!: bexI [of _ "snd p"])
  ultimately show thesis by (intro that [of ?ps]) auto
qed

lemma writer_init_ok:
  assumes "wf_writer (writer_new fb fi)"
  shows "\<exists>w. writer_init fb fi = Ok w \<and> wf_writer w \<and> wf_cursor w \<and> fb_info w = fi"
proof -
  obtain ps where "clear_screen 0 0 0 (writer_new fb fi) = Ok (paint_all 0 0 0 ps (writer_new fb fi))"
    "list_all (on_screen (writer_new fb fi)) ps"
    by (rule clear_screen_Ok [OF assms]) blast
  then show ?thesis using assms wf_paint_all [OF assms, of ps 0 0 0]
    by (auto simp: writer_init_def wf_cursor_def writer_new_def wf_writer_def)
qed

section \<open>Properties\<close>

text \<open>A font for examples: a frame for every printable ASCII character.\<close>

definition frame_font :: "rchar \<Rightarrow> u8 list option" where
  "frame_font c =
     (if c = 32 then Some (replicate 8 0)
      else if 32 < c \<and> c < 127 then Some [0xFF, 0x81, 0x81, 0x81, 0x81, 0x81, 0x81, 0xFF] else None)"

interpretation ff: glyphs frame_font
  by unfold_locales (auto simp: frame_font_def split: if_splits)

definition small_screen :: FrameBufferInfo where
  "small_screen = \<lparr>fb_addr = 0, fb_size = 1024, fb_width = 16, fb_height = 20, fb_stride = 16, bytes_per_pixel = 3, pixel_format = 0\<rparr>"

text \<open>
  C32: the console keeps its type: initialised on a framebuffer with room for the visible area, and with a font whose
  glyphs have eight rows, it prints every sequence of strings without a panic, and the cursor stays on a cell that is
  wholly visible.
\<close>

theorem console_stays_well_formed:
  assumes "glyphs font" "wf_writer (writer_new fb fi)"
  shows "\<exists>w. rbind (writer_init fb fi) (rfold (write_str font) ss) = Ok w \<and> wf_writer w \<and> wf_cursor w \<and> fb_info w = fi"
proof -
  have "\<exists>w'. rfold (write_str font) ss w = Ok w' \<and> wf_writer w' \<and> wf_cursor w' \<and> fb_info w' = fb_info w"
    if "wf_writer w" "wf_cursor w" for w
    using that
  proof (induction ss arbitrary: w)
    case Nil
    then show ?case by simp
  next
    case (Cons s ss)
    from glyphs.string_ok [OF assms(1) Cons.prems, of s 255 255 0] obtain w1
      where "write_str font s w = Ok w1" "wf_writer w1" "wf_cursor w1" "fb_info w1 = fb_info w"
      unfolding write_str_def by blast
    with Cons.IH [of w1] show ?case by simp
  qed
  with writer_init_ok [OF assms(2)] show ?thesis by force
qed

theorem console_stays_well_formed_witness:
  "\<exists>w. rbind (writer_init (replicate 1024 0) small_screen) (rfold (write_str frame_font) [str ''ab'', [10, 10, 8], str ''c'']) = Ok w
     \<and> wf_writer w \<and> wf_cursor w \<and> fb_info w = small_screen"
  by (rule console_stays_well_formed [OF ff.glyphs_axioms])
    (simp add: wf_writer_def writer_new_def small_screen_def)

text \<open>
  What the shell prints for a key and then for a backspace (the character, then backspace, space,
  backspace) leaves the cursor where it was, the cell black and every other pixel as it was, also at the end of
  a line; the cursor is not on the last line here, where the console would scroll.
\<close>

theorem echo_then_erase:
  assumes "glyphs font" "wf_writer w" "wf_cursor w" "unat (cur_y w) + 18 \<le> unat (fb_height (fb_info w))"
    and "c \<noteq> 8" "c \<noteq> 10"
  shows "\<exists>w'. write_string_at_cursor font [c, 8, 32, 8] r g b w = Ok w'
     \<and> cur_x w' = cur_x w \<and> cur_y w' = cur_y w \<and> fb_info w' = fb_info w
     \<and> (\<forall>p i. on_screen w p \<and> i < unat (bytes_per_pixel (fb_info w)) \<longrightarrow> shown w' p i =
          (if p \<in> set (cell (unat (cur_x w)) (unat (cur_y w))) \<and> i < length (colour_bytes (fb_info w) 0 0 0) then 0 else shown w p i))"
proof -
  let ?cell = "cell (unat (cur_x w)) (unat (cur_y w))"
  from glyphs.type_and_erase [OF assms] obtain w1
    where w1: "rbind (write_at_cursor font r g b c w) (write_at_cursor font r g b 8) = Ok w1" "wf_writer w1"
      "cur_x w1 = cur_x w" "cur_y w1 = cur_y w" "fb_info w1 = fb_info w"
      and s1: "\<And>p i. on_screen w p \<and> i < unat (bytes_per_pixel (fb_info w)) \<Longrightarrow> shown w1 p i =
        (if p \<in> set ?cell \<and> i < length (colour_bytes (fb_info w) 0 0 0) then 0 else shown w p i)" by blast
  have c1: "wf_cursor w1" "unat (cur_y w1) + 18 \<le> unat (fb_height (fb_info w1))" "on_screen w1 = on_screen w"
    using assms(3,4) w1(3-5) by (simp_all add: wf_cursor_def on_screen_def fun_eq_iff)
  from glyphs.type_and_erase [OF assms(1) w1(2) c1(1,2), of 32 r g b] obtain w2
    where w2: "rbind (write_at_cursor font r g b 32 w1) (write_at_cursor font r g b 8) = Ok w2"
      "cur_x w2 = cur_x w" "cur_y w2 = cur_y w" "fb_info w2 = fb_info w"
      and s2: "\<And>p i. on_screen w p \<and> i < unat (bytes_per_pixel (fb_info w)) \<Longrightarrow> shown w2 p i =
        (if p \<in> set ?cell \<and> i < length (colour_bytes (fb_info w) 0 0 0) then 0 else shown w1 p i)"
    unfolding w1(3-5) c1(3) by auto
  have "write_string_at_cursor font [c, 8, 32, 8] r g b w = Ok w2"
    using w1(1) w2(1) by (auto simp: write_string_at_cursor_def res_simps)
  with w2 s1 s2 show ?thesis by auto
qed

theorem echo_then_erase_witness:
  "\<exists>w'. write_string_at_cursor frame_font [97, 8, 32, 8] 255 255 0 (writer_new (replicate 1024 7) small_screen) = Ok w'
     \<and> cur_x w' = 0 \<and> cur_y w' = 0 \<and> shown w' (3, 7) 1 = 0 \<and> shown w' (8, 0) 1 = 7"
proof -
  let ?w = "writer_new (replicate 1024 7) small_screen"
  have wf: "wf_writer ?w" "wf_cursor ?w"
    by (simp_all add: wf_writer_def wf_cursor_def writer_new_def small_screen_def)
  have h: "unat (cur_y ?w) + 18 \<le> unat (fb_height (fb_info ?w))" by (simp add: writer_new_def small_screen_def)
  have o: "on_screen ?w (3, 7) \<and> 1 < unat (bytes_per_pixel (fb_info ?w))" "on_screen ?w (8, 0) \<and> 1 < unat (bytes_per_pixel (fb_info ?w))"
    by (simp_all add: on_screen_def writer_new_def small_screen_def)
  from echo_then_erase [OF ff.glyphs_axioms wf h, of 97 255 255 0] obtain w' where
    w': "write_string_at_cursor frame_font [97, 8, 32, 8] 255 255 0 ?w = Ok w'" "cur_x w' = cur_x ?w" "cur_y w' = cur_y ?w"
    "\<And>p i. on_screen ?w p \<and> i < unat (bytes_per_pixel (fb_info ?w)) \<Longrightarrow> shown w' p i =
       (if p \<in> set (cell (unat (cur_x ?w)) (unat (cur_y ?w))) \<and> i < length (colour_bytes (fb_info ?w) 0 0 0) then 0 else shown ?w p i)"
    by auto
  show ?thesis
    using w'(1-3) w'(4) [OF o(1)] w'(4) [OF o(2)]
    by (simp add: set_cell writer_new_def small_screen_def colour_bytes_def shown_def pixel_at_def)
qed

end
