(* ===== verification/Tasks.thy ===== *)
theory Tasks
  imports BTreeMap
begin

text \<open>
  Tasks, the cooperative executor and the interrupt handlers that wake it (\<^verbatim>\<open>src/kernel/src/task\<close>,
  \<^verbatim>\<open>src/kernel/src/interrupts/mod.rs\<close>, \<^verbatim>\<open>src/kernel/src/flags.rs\<close>). The queue of \<open>crossbeam_queue\<close> and the
  \<open>AtomicWaker\<close> of \<open>futures_util\<close> are parameters; the locales \<open>array_queue\<close> and \<open>atomic_waker\<close> state their documented
  behaviour. A future is a parameter too: its \<open>poll\<close> may arm wakers, and interrupts may arrive while it runs.
\<close>

section \<open>Queues and wakers\<close>

record ('q, 'a) queue_ops =
  q_new :: "nat \<Rightarrow> 'q"
  q_push :: "'a \<Rightarrow> 'q \<Rightarrow> bool \<times> 'q"
  q_pop :: "'q \<Rightarrow> 'a option \<times> 'q"
  q_is_empty :: "'q \<Rightarrow> bool"

text \<open>The bounded first-in first-out queue: \<open>push\<close> refuses an element when the queue is full.\<close>

locale array_queue =
  fixes qo :: "('q, 'a) queue_ops" and items :: "'q \<Rightarrow> 'a list" and cap :: "'q \<Rightarrow> nat"
  assumes items_new: "items (q_new qo n) = []" and cap_new: "cap (q_new qo n) = n"
    and push_room: "length (items q) < cap q \<Longrightarrow>
      fst (q_push qo x q) \<and> items (snd (q_push qo x q)) = items q @ [x] \<and> cap (snd (q_push qo x q)) = cap q"
    and push_full: "length (items q) \<ge> cap q \<Longrightarrow>
      \<not> fst (q_push qo x q) \<and> items (snd (q_push qo x q)) = items q \<and> cap (snd (q_push qo x q)) = cap q"
    and pop_items: "fst (q_pop qo q) = (case items q of [] \<Rightarrow> None | x # _ \<Rightarrow> Some x)"
    and pop_rest: "items (snd (q_pop qo q)) = tl (items q)" "cap (snd (q_pop qo q)) = cap q"
    and is_empty_iff: "q_is_empty qo q \<longleftrightarrow> items q = []"

text \<open>A queue for examples: its capacity and its elements.\<close>

definition list_queue :: "(nat \<times> 'a list, 'a) queue_ops" where
  "list_queue =
     \<lparr>q_new = (\<lambda>n. (n, [])),
      q_push = (\<lambda>x (n, xs). if length xs < n then (True, n, xs @ [x]) else (False, n, xs)),
      q_pop = (\<lambda>(n, xs). case xs of [] \<Rightarrow> (None, n, []) | x # ys \<Rightarrow> (Some x, n, ys)),
      q_is_empty = (\<lambda>(n, xs). xs = [])\<rparr>"

interpretation lq: array_queue list_queue snd fst
  by unfold_locales (auto simp: list_queue_def split: list.splits)

type_synonym TaskId = u64

text \<open>A \<open>Waker\<close> of the executor is the identifier of its task; the queue it pushes to is the executor's.\<close>

record 'aw waker_ops =
  aw_new :: 'aw
  aw_register :: "TaskId \<Rightarrow> 'aw \<Rightarrow> 'aw"
  aw_take :: "'aw \<Rightarrow> TaskId option \<times> 'aw"

text \<open>An \<open>AtomicWaker\<close> holds the waker registered last, until it is taken.\<close>

locale atomic_waker =
  fixes wo :: "'aw waker_ops" and holds :: "'aw \<Rightarrow> TaskId option"
  assumes holds_new: "holds (aw_new wo) = None"
    and holds_register: "holds (aw_register wo t a) = Some t"
    and take_holds: "fst (aw_take wo a) = holds a" "holds (snd (aw_take wo a)) = None"

definition cell_waker :: "TaskId option waker_ops" where
  "cell_waker = \<lparr>aw_new = None, aw_register = (\<lambda>t _. Some t), aw_take = (\<lambda>a. (a, None))\<rparr>"

interpretation cw: atomic_waker cell_waker "\<lambda>a. a"
  by unfold_locales (auto simp: cell_waker_def)

section \<open>State\<close>

record ('sq, 'aw) Flags =
  TIMER_TICKS :: u64
  SHOULD_YIELD_FLAG :: bool
  SCANCODE_QUEUE :: "'sq option"
  KEYBOARD_WAKER :: 'aw
  KEYBOARD_EVENT_COUNT :: u64
  TIMER_WAKER :: 'aw

record ('f, 'q) Executor =
  tasks :: "(TaskId, 'f) btree"
  task_queue :: 'q
  waker_cache :: "(TaskId, TaskId) btree"

record ('f, 'q, 'sq, 'aw) System =
  executor :: "('f, 'q) Executor"
  flags :: "('sq, 'aw) Flags"
  NEXT_ID :: u64

definition executor_new :: "('q, TaskId) queue_ops \<Rightarrow> ('f, 'q) Executor" where
  "executor_new qo = \<lparr>tasks = [], task_queue = q_new qo 100, waker_cache = []\<rparr>"

text \<open>\<open>Task::new\<close> takes the next identifier.\<close>

definition task_id_new :: "('f, 'q, 'sq, 'aw) System \<Rightarrow> TaskId \<times> ('f, 'q, 'sq, 'aw) System" where
  "task_id_new s = (NEXT_ID s, s\<lparr>NEXT_ID := NEXT_ID s + 1\<rparr>)"

section \<open>The executor\<close>

definition spawn :: "('q, TaskId) queue_ops \<Rightarrow> TaskId \<Rightarrow> 'f \<Rightarrow> ('f, 'q) Executor \<Rightarrow> (unit, unit) result \<times> ('f, 'q) Executor" where
  "spawn qo tid fut ex =
     (let ex' = ex\<lparr>tasks := bt_insert tid fut (tasks ex)\<rparr> in
      if bt_get (tasks ex) tid \<noteq> None then (Panic, ex')
      else case q_push qo tid (task_queue ex) of
        (True, q) \<Rightarrow> (Ok (), ex'\<lparr>task_queue := q\<rparr>)
      | (False, q) \<Rightarrow> (Panic, ex'\<lparr>task_queue := q\<rparr>))"

definition wake_task :: "('q, TaskId) queue_ops \<Rightarrow> TaskId \<Rightarrow> 'q \<Rightarrow> (unit, unit) result \<times> 'q" where
  "wake_task qo tid q = (case q_push qo tid q of (True, q) \<Rightarrow> (Ok (), q) | (False, q) \<Rightarrow> (Panic, q))"

fun wake_all :: "('q, TaskId) queue_ops \<Rightarrow> TaskId list \<Rightarrow> 'q \<Rightarrow> (unit, unit) result \<times> 'q" where
  "wake_all qo [] q = (Ok (), q)"
| "wake_all qo (t # ts) q = sbind (wake_task qo t q) (\<lambda>_. wake_all qo ts)"

text \<open>
  \<open>poll f t fl\<close> is a poll of the future \<open>f\<close> with the waker of task \<open>t\<close>: the tasks woken while it ran (by it or by an
  interrupt), whether it is \<open>Ready\<close>, and the future and the flags it leaves.
\<close>

type_synonym ('f, 'sq, 'aw) poll = "'f \<Rightarrow> TaskId \<Rightarrow> ('sq, 'aw) Flags \<Rightarrow> TaskId list \<times> bool \<times> 'f \<times> ('sq, 'aw) Flags"

datatype turn = Idle | Skipped TaskId | Polled TaskId

text \<open>One turn of the loop of \<open>run_ready_tasks\<close>.\<close>

definition run_next ::
    "('q, TaskId) queue_ops \<Rightarrow> ('f, 'sq, 'aw) poll \<Rightarrow> ('f, 'q, 'sq, 'aw) System \<Rightarrow> (turn, unit) result \<times> ('f, 'q, 'sq, 'aw) System" where
  "run_next qo poll s =
     (let ex = executor s in
      case q_pop qo (task_queue ex) of
        (None, q) \<Rightarrow> (Ok Idle, s\<lparr>executor := ex\<lparr>task_queue := q\<rparr>\<rparr>)
      | (Some tid, q) \<Rightarrow>
          (case bt_get (tasks ex) tid of
             None \<Rightarrow> (Ok (Skipped tid), s\<lparr>executor := ex\<lparr>task_queue := q\<rparr>\<rparr>)
           | Some fut \<Rightarrow>
               (let cache = (if bt_get (waker_cache ex) tid = None then bt_insert tid tid (waker_cache ex) else waker_cache ex)
                in case poll fut (case bt_get cache tid of Some t \<Rightarrow> t | None \<Rightarrow> tid) (flags s) of
                     (woken, ready, fut, fl) \<Rightarrow>
                       (case wake_all qo woken q of
                          (Ok _, q) \<Rightarrow>
                            (Ok (Polled tid),
                             s\<lparr>executor := \<lparr>tasks = (if ready then bt_remove tid (tasks ex) else bt_insert tid fut (tasks ex)),
                                            task_queue = q,
                                            waker_cache = (if ready then bt_remove tid cache else cache)\<rparr>,
                               flags := fl\<rparr>)
                        | (_, q) \<Rightarrow>
                            (Panic, s\<lparr>executor := ex\<lparr>tasks := bt_insert tid fut (tasks ex), task_queue := q, waker_cache := cache\<rparr>,
                                      flags := fl\<rparr>)))))"

partial_function (option) run_ready_tasks ::
    "('q, TaskId) queue_ops \<Rightarrow> ('f, 'sq, 'aw) poll \<Rightarrow> ('f, 'q, 'sq, 'aw) System
     \<Rightarrow> ((unit, unit) result \<times> ('f, 'q, 'sq, 'aw) System) option" where
  "run_ready_tasks qo poll s =
     (case run_next qo poll s of
        (Ok Idle, s) \<Rightarrow> Some (Ok (), s)
      | (Ok _, s) \<Rightarrow> run_ready_tasks qo poll s
      | (_, s) \<Rightarrow> Some (Panic, s))"

text \<open>Whether the executor halts until the next interrupt.\<close>

definition sleep_if_idle :: "('q, TaskId) queue_ops \<Rightarrow> ('f, 'q) Executor \<Rightarrow> bool" where
  "sleep_if_idle qo ex = q_is_empty qo (task_queue ex)"

section \<open>Interrupts\<close>

text \<open>\<open>AtomicWaker::wake\<close> takes the waker and wakes its task.\<close>

definition slot_wake ::
    "'aw waker_ops \<Rightarrow> ('q, TaskId) queue_ops \<Rightarrow> 'aw \<Rightarrow> 'q \<Rightarrow> (unit, unit) result \<times> 'aw \<times> 'q" where
  "slot_wake wo qo a q =
     (case aw_take wo a of
        (None, a) \<Rightarrow> (Ok (), a, q)
      | (Some t, a) \<Rightarrow> (case wake_task qo t q of (r, q) \<Rightarrow> (r, a, q)))"

definition timer_interrupt_handler ::
    "'aw waker_ops \<Rightarrow> ('q, TaskId) queue_ops \<Rightarrow> ('f, 'q, 'sq, 'aw) System \<Rightarrow> (unit, unit) result \<times> ('f, 'q, 'sq, 'aw) System" where
  "timer_interrupt_handler wo qo s =
     (let fl = (flags s)\<lparr>TIMER_TICKS := TIMER_TICKS (flags s) + 1, SHOULD_YIELD_FLAG := True\<rparr> in
      case slot_wake wo qo (TIMER_WAKER fl) (task_queue (executor s)) of
        (r, a, q) \<Rightarrow> (r, s\<lparr>executor := (executor s)\<lparr>task_queue := q\<rparr>, flags := fl\<lparr>TIMER_WAKER := a\<rparr>\<rparr>))"

definition keyboard_interrupt_handler ::
    "'aw waker_ops \<Rightarrow> ('sq, u8) queue_ops \<Rightarrow> ('q, TaskId) queue_ops \<Rightarrow> u8 \<Rightarrow> ('f, 'q, 'sq, 'aw) System
     \<Rightarrow> (unit, unit) result \<times> ('f, 'q, 'sq, 'aw) System" where
  "keyboard_interrupt_handler wo so qo scancode s =
     (let fl = (flags s)\<lparr>SCANCODE_QUEUE := map_option (\<lambda>sq. snd (q_push so scancode sq)) (SCANCODE_QUEUE (flags s)),
                         KEYBOARD_EVENT_COUNT := KEYBOARD_EVENT_COUNT (flags s) + 1\<rparr> in
      case slot_wake wo qo (KEYBOARD_WAKER fl) (task_queue (executor s)) of
        (r, a, q) \<Rightarrow> (r, s\<lparr>executor := (executor s)\<lparr>task_queue := q\<rparr>, flags := fl\<lparr>KEYBOARD_WAKER := a\<rparr>\<rparr>))"

section \<open>Leaf futures\<close>

definition sleep_new :: "u64 \<Rightarrow> ('sq, 'aw) Flags \<Rightarrow> u64" where
  "sleep_new ticks fl = TIMER_TICKS fl + ticks"

definition sleep_poll :: "'aw waker_ops \<Rightarrow> (u64, 'sq, 'aw) poll" where
  "sleep_poll wo target t fl =
     (if target \<le> TIMER_TICKS fl then ([], True, target, fl)
      else ([], False, target, fl\<lparr>TIMER_WAKER := aw_register wo t (TIMER_WAKER fl)\<rparr>))"

text \<open>\<open>ScancodeStream::new\<close> creates the queue once; a second stream panics.\<close>

definition scancode_stream_new :: "('sq, u8) queue_ops \<Rightarrow> ('sq, 'aw) Flags \<Rightarrow> (('sq, 'aw) Flags, unit) result" where
  "scancode_stream_new so fl =
     (if SCANCODE_QUEUE fl = None then Ok (fl\<lparr>SCANCODE_QUEUE := Some (q_new so 256)\<rparr>) else Panic)"

text \<open>
  \<open>poll_next\<close> in three steps, between which interrupts may arrive: take a scancode, register the waker, look again.
\<close>

definition pop_scancode ::
    "('sq, u8) queue_ops \<Rightarrow> ('f, 'q, 'sq, 'aw) System \<Rightarrow> (u8 option, unit) result \<times> ('f, 'q, 'sq, 'aw) System" where
  "pop_scancode so s =
     (case SCANCODE_QUEUE (flags s) of
        None \<Rightarrow> (Panic, s)
      | Some sq \<Rightarrow> (case q_pop so sq of (c, sq) \<Rightarrow> (Ok c, s\<lparr>flags := (flags s)\<lparr>SCANCODE_QUEUE := Some sq\<rparr>\<rparr>)))"

definition poll_next ::
    "'aw waker_ops \<Rightarrow> ('sq, u8) queue_ops \<Rightarrow> TaskId
     \<Rightarrow> (('f, 'q, 'sq, 'aw) System \<Rightarrow> (unit, unit) result \<times> ('f, 'q, 'sq, 'aw) System)
     \<Rightarrow> (('f, 'q, 'sq, 'aw) System \<Rightarrow> (unit, unit) result \<times> ('f, 'q, 'sq, 'aw) System)
     \<Rightarrow> ('f, 'q, 'sq, 'aw) System \<Rightarrow> (u8 option, unit) result \<times> ('f, 'q, 'sq, 'aw) System" where
  "poll_next wo so t irq1 irq2 s =
     sbind (pop_scancode so s) (\<lambda>c s.
       case c of
         Some code \<Rightarrow> (Ok (Some code), s)
       | None \<Rightarrow>
           sbind (irq1 s) (\<lambda>_ s.
           let s = s\<lparr>flags := (flags s)\<lparr>KEYBOARD_WAKER := aw_register wo t (KEYBOARD_WAKER (flags s))\<rparr>\<rparr> in
           sbind (irq2 s) (\<lambda>_ s.
           sbind (pop_scancode so s) (\<lambda>c s.
             case c of
               Some code \<Rightarrow> (Ok (Some code), s\<lparr>flags := (flags s)\<lparr>KEYBOARD_WAKER := snd (aw_take wo (KEYBOARD_WAKER (flags s)))\<rparr>\<rparr>)
             | None \<Rightarrow> (Ok None, s)))))"

text \<open>A burst of interrupts: \<open>None\<close> is a timer tick, \<open>Some c\<close> a key.\<close>

fun irqs ::
    "'aw waker_ops \<Rightarrow> ('sq, u8) queue_ops \<Rightarrow> ('q, TaskId) queue_ops \<Rightarrow> u8 option list \<Rightarrow> ('f, 'q, 'sq, 'aw) System
     \<Rightarrow> (unit, unit) result \<times> ('f, 'q, 'sq, 'aw) System" where
  "irqs wo so qo [] s = (Ok (), s)"
| "irqs wo so qo (None # xs) s = sbind (timer_interrupt_handler wo qo s) (\<lambda>_. irqs wo so qo xs)"
| "irqs wo so qo (Some c # xs) s = sbind (keyboard_interrupt_handler wo so qo c s) (\<lambda>_. irqs wo so qo xs)"

section \<open>The system\<close>

datatype 'f event = is_Spawn: Spawn 'f | Timer | Key u8 | Run

definition sys_step ::
    "'aw waker_ops \<Rightarrow> ('sq, u8) queue_ops \<Rightarrow> ('q, TaskId) queue_ops \<Rightarrow> ('f, 'sq, 'aw) poll \<Rightarrow> 'f event
     \<Rightarrow> ('f, 'q, 'sq, 'aw) System \<Rightarrow> (turn, unit) result \<times> ('f, 'q, 'sq, 'aw) System" where
  "sys_step wo so qo poll ev s =
     (case ev of
        Spawn f \<Rightarrow>
          (case task_id_new s of (t, s) \<Rightarrow>
             case spawn qo t f (executor s) of (r, ex) \<Rightarrow> sbind (r, s\<lparr>executor := ex\<rparr>) (\<lambda>_ s. (Ok Idle, s)))
      | Timer \<Rightarrow> sbind (timer_interrupt_handler wo qo s) (\<lambda>_ s. (Ok Idle, s))
      | Key c \<Rightarrow> sbind (keyboard_interrupt_handler wo so qo c s) (\<lambda>_ s. (Ok Idle, s))
      | Run \<Rightarrow> run_next qo poll s)"

text \<open>A run of the system, with the turns the executor took.\<close>

fun sys_run ::
    "'aw waker_ops \<Rightarrow> ('sq, u8) queue_ops \<Rightarrow> ('q, TaskId) queue_ops \<Rightarrow> ('f, 'sq, 'aw) poll \<Rightarrow> 'f event list
     \<Rightarrow> ('f, 'q, 'sq, 'aw) System \<Rightarrow> (turn list, unit) result \<times> ('f, 'q, 'sq, 'aw) System" where
  "sys_run wo so qo poll [] s = (Ok [], s)"
| "sys_run wo so qo poll (ev # evs) s =
     sbind (sys_step wo so qo poll ev s) (\<lambda>t s.
     sbind (sys_run wo so qo poll evs s) (\<lambda>ts s. (Ok (t # ts), s)))"

definition boot_system :: "'aw waker_ops \<Rightarrow> ('q, TaskId) queue_ops \<Rightarrow> ('f, 'q, 'sq, 'aw) System" where
  "boot_system wo qo =
     \<lparr>executor = executor_new qo,
      flags = \<lparr>TIMER_TICKS = 0, SHOULD_YIELD_FLAG = False, SCANCODE_QUEUE = None, KEYBOARD_WAKER = aw_new wo,
               KEYBOARD_EVENT_COUNT = 0, TIMER_WAKER = aw_new wo\<rparr>,
      NEXT_ID = 0\<rparr>"

section \<open>The task queue never overflows\<close>

context array_queue
begin

lemma push_cases:
  obtains q' where "q_push qo x q = (True, q')" "length (items q) < cap q" "items q' = items q @ [x]" "cap q' = cap q"
  | q' where "q_push qo x q = (False, q')" "cap q \<le> length (items q)" "items q' = items q" "cap q' = cap q"
  using push_room [of q x] push_full [of q x] by (cases "length (items q) < cap q"; cases "q_push qo x q") auto

lemma pop_cases:
  obtains q' where "q_pop qo q = (None, q')" "items q = []" "items q' = []" "cap q' = cap q"
  | x xs q' where "q_pop qo q = (Some x, q')" "items q = x # xs" "items q' = xs" "cap q' = cap q"
  using pop_items [of q] pop_rest [of q] by (cases "items q"; cases "q_pop qo q") auto

end

locale task_wakers = tq: array_queue qo items cap + aw: atomic_waker wo holds
  for qo :: "('q, TaskId) queue_ops" and items cap and wo :: "'aw waker_ops" and holds
begin

definition armed :: "('sq, 'aw) Flags \<Rightarrow> nat" where
  "armed fl = (if holds (KEYBOARD_WAKER fl) = None then 0 else 1) + (if holds (TIMER_WAKER fl) = None then 0 else 1)"

lemma wake_all_room:
  "length (items q) + length ts \<le> cap q \<Longrightarrow>
   \<exists>q'. wake_all qo ts q = (Ok (), q') \<and> items q' = items q @ ts \<and> cap q' = cap q"
proof (induction ts arbitrary: q)
  case Nil
  then show ?case by simp
next
  case (Cons t ts)
  obtain q1 where q1: "q_push qo t q = (True, q1)" "items q1 = items q @ [t]" "cap q1 = cap q"
    using Cons.prems by (cases rule: tq.push_cases [of t q]) auto
  with Cons.IH [of q1] Cons.prems show ?case by (auto simp: wake_task_def)
qed

lemma wake_all_items: "wake_all qo ts q = (Ok (), q') \<Longrightarrow> items q' = items q @ ts"
proof (induction ts arbitrary: q)
  case Nil
  then show ?case by simp
next
  case (Cons t ts)
  then show ?case by (cases rule: tq.push_cases [of t q]) (auto simp: wake_task_def)
qed

lemma slot_wake_room:
  assumes "length (items q) + (if holds a = None then 0 else 1) \<le> cap q"
  shows "\<exists>a' q'. slot_wake wo qo a q = (Ok (), a', q') \<and> holds a' = None \<and> cap q' = cap q
     \<and> items q' = items q @ (case holds a of None \<Rightarrow> [] | Some t \<Rightarrow> [t])"
proof (cases "holds a")
  case None
  then show ?thesis using aw.take_holds [of a] by (cases "aw_take wo a") (auto simp: slot_wake_def)
next
  case (Some t)
  then obtain a' where "aw_take wo a = (Some t, a')" "holds a' = None" using aw.take_holds [of a] by (cases "aw_take wo a") auto
  with Some wake_all_room [of q "[t]"] assms show ?thesis
    by (cases rule: tq.push_cases [of t q]) (auto simp: slot_wake_def wake_task_def)
qed

end

text \<open>
  What the executor needs of the futures: of the wakers that are armed and of its own turn, a poll uses at most one
  for each task it wakes, each waker it leaves armed, and its completion.
\<close>

locale executor_env = task_wakers qo items cap wo holds
  for qo :: "('q, TaskId) queue_ops" and items cap and wo :: "'aw waker_ops" and holds +
  fixes so :: "('sq, u8) queue_ops" and poll :: "('f, 'sq, 'aw) poll"
  assumes poll_arms: "poll f t fl = (woken, ready, f', fl') \<Longrightarrow>
    length woken + armed fl' + (if ready then 1 else 0) \<le> armed fl + 1"
begin

definition wf_system :: "nat \<Rightarrow> ('f, 'q, 'sq, 'aw) System \<Rightarrow> bool" where
  "wf_system n s \<longleftrightarrow>
     NEXT_ID s = of_nat n \<and> bt_wf (tasks (executor s)) \<and> bt_wf (waker_cache (executor s))
   \<and> (\<forall>t. bt_get (tasks (executor s)) t \<noteq> None \<longrightarrow> unat t < n)
   \<and> (\<forall>t v. bt_get (waker_cache (executor s)) t = Some v \<longrightarrow> v = t \<and> bt_get (tasks (executor s)) t \<noteq> None)
   \<and> length (tasks (executor s)) \<le> n \<and> cap (task_queue (executor s)) = 100
   \<and> length (items (task_queue (executor s))) + armed (flags s) \<le> length (tasks (executor s))"

lemma wf_boot: "wf_system 0 (boot_system wo qo)"
  by (simp add: wf_system_def boot_system_def executor_new_def bt_wf_def armed_def aw.holds_new tq.items_new tq.cap_new)

lemma spawn_ok:
  assumes "wf_system n s" "n < 100"
  shows "\<exists>s'. sys_step wo so qo poll (Spawn f) s = (Ok Idle, s') \<and> wf_system (Suc n) s'"
proof -
  let ?ex = "executor s" and ?t = "NEXT_ID s"
  have t: "unat ?t = n" using assms by (simp add: wf_system_def unat_of_nat)
  then have new: "bt_get (tasks ?ex) ?t = None" using assms(1) by (auto simp: wf_system_def)
  have "length (items (task_queue ?ex)) < cap (task_queue ?ex)" using assms by (auto simp: wf_system_def)
  then obtain q where q: "q_push qo ?t (task_queue ?ex) = (True, q)" "items q = items (task_queue ?ex) @ [?t]"
    "cap q = cap (task_queue ?ex)" by (cases rule: tq.push_cases [of ?t "task_queue ?ex"]) auto
  let ?s = "s\<lparr>NEXT_ID := ?t + 1, executor := ?ex\<lparr>tasks := bt_insert ?t f (tasks ?ex), task_queue := q\<rparr>\<rparr>"
  have "sys_step wo so qo poll (Spawn f) s = (Ok Idle, ?s)"
    using q(1) new by (simp add: sys_step_def task_id_new_def spawn_def)
  moreover have "wf_system (Suc n) ?s"
    using assms q(2,3) t new
    by (auto simp: wf_system_def bt_wf_insert bt_get_insert length_bt_insert less_SucI)
  ultimately show ?thesis by blast
qed

lemma irq_ok:
  assumes "wf_system n s" "n \<le> 100"
  shows "\<exists>s'. sys_step wo so qo poll Timer s = (Ok Idle, s') \<and> wf_system n s'"
    and "\<exists>s'. sys_step wo so qo poll (Key c) s = (Ok Idle, s') \<and> wf_system n s'"
proof -
  let ?q = "task_queue (executor s)"
  have len: "length (items ?q) + armed (flags s) \<le> cap ?q" using assms by (auto simp: wf_system_def)
  then have r: "length (items ?q) + (if holds (TIMER_WAKER (flags s)) = None then 0 else 1) \<le> cap ?q"
    "length (items ?q) + (if holds (KEYBOARD_WAKER (flags s)) = None then 0 else 1) \<le> cap ?q"
    by (auto simp: armed_def split: if_splits)
  from slot_wake_room [OF r(1)] show "\<exists>s'. sys_step wo so qo poll Timer s = (Ok Idle, s') \<and> wf_system n s'"
    using assms by (auto simp: sys_step_def timer_interrupt_handler_def Let_def wf_system_def armed_def split: option.splits)
  from slot_wake_room [OF r(2)] show "\<exists>s'. sys_step wo so qo poll (Key c) s = (Ok Idle, s') \<and> wf_system n s'"
    using assms by (auto simp: sys_step_def keyboard_interrupt_handler_def Let_def wf_system_def armed_def split: option.splits)
qed

lemma run_next_poll:
  assumes "wf_system n s" "n \<le> 100" "q_pop qo (task_queue (executor s)) = (Some t, q)" "items (task_queue (executor s)) = t # xs"
    "items q = xs" "cap q = cap (task_queue (executor s))" "bt_get (tasks (executor s)) t = Some f"
  shows "\<exists>s'. run_next qo poll s = (Ok (Polled t), s') \<and> wf_system n s'"
proof -
  let ?ex = "executor s"
  obtain woken ready f' fl where p: "poll f t (flags s) = (woken, ready, f', fl)" by (cases "poll f t (flags s)") auto
  have len: "Suc (length xs) + armed (flags s) \<le> length (tasks ?ex)" "length (tasks ?ex) \<le> n" "cap q = 100"
    using assms by (auto simp: wf_system_def)
  then have "length (items q) + length woken \<le> cap q" using poll_arms [OF p] assms(2,5) by simp
  from wake_all_room [OF this] obtain q' where q': "wake_all qo woken q = (Ok (), q')" "items q' = xs @ woken" "cap q' = 100"
    using len(3) assms(5) by auto
  let ?cache = "if bt_get (waker_cache ?ex) t = None then bt_insert t t (waker_cache ?ex) else waker_cache ?ex"
  have wfc: "bt_wf (waker_cache ?ex)" "bt_wf (tasks ?ex)" using assms(1) by (auto simp: wf_system_def)
  have ct: "(case bt_get ?cache t of Some x \<Rightarrow> x | None \<Rightarrow> t) = t"
    using assms(1) wfc by (auto simp: wf_system_def bt_get_insert split: option.splits)
  let ?s = "s\<lparr>executor := \<lparr>tasks = (if ready then bt_remove t (tasks ?ex) else bt_insert t f' (tasks ?ex)), task_queue = q',
      waker_cache = (if ready then bt_remove t ?cache else ?cache)\<rparr>, flags := fl\<rparr>"
  have run: "run_next qo poll s = (Ok (Polled t), ?s)"
    unfolding run_next_def Let_def assms(3) prod.case option.case assms(7) ct p q'(1) result.case by simp
  have "length (tasks (executor ?s)) + (if ready then 1 else 0) = length (tasks ?ex)"
    using wfc assms(7) length_bt_remove [of "tasks ?ex" t] by (simp add: length_bt_insert)
  then have "length (items q') + armed fl \<le> length (tasks (executor ?s))" "length (tasks (executor ?s)) \<le> n"
    using poll_arms [OF p] len q'(2) by simp_all
  moreover have "bt_wf (tasks (executor ?s))" "bt_wf (waker_cache (executor ?s))"
    using wfc by (auto simp: bt_wf_insert bt_wf_remove)
  moreover have "bt_get (tasks (executor ?s)) t' \<noteq> None \<longrightarrow> unat t' < n" for t'
    using assms(1,7) wfc by (auto simp: wf_system_def bt_get_insert bt_get_remove)
  moreover have "bt_get (waker_cache (executor ?s)) t' = Some v \<longrightarrow> v = t' \<and> bt_get (tasks (executor ?s)) t' \<noteq> None" for t' v
    using assms(1,7) wfc by (auto simp: wf_system_def bt_get_insert bt_get_remove)
  ultimately have "wf_system n ?s" using assms(1) q'(3) by (simp add: wf_system_def)
  with run show ?thesis by blast
qed

lemma run_ok:
  assumes "wf_system n s" "n \<le> 100"
  shows "\<exists>t s'. run_next qo poll s = (Ok t, s') \<and> wf_system n s'"
proof (cases rule: tq.pop_cases [of "task_queue (executor s)"])
  case (1 q')
  then show ?thesis using assms by (auto simp: run_next_def wf_system_def)
next
  case (2 t xs q')
  show ?thesis
  proof (cases "bt_get (tasks (executor s)) t")
    case None
    then show ?thesis using assms 2 by (auto simp: run_next_def wf_system_def)
  next
    case (Some f)
    then show ?thesis using run_next_poll [OF assms 2 Some] by blast
  qed
qed

lemma sys_run_ok:
  "wf_system n s \<Longrightarrow> n + length (filter is_Spawn evs) \<le> 100 \<Longrightarrow>
   \<exists>ts s'. sys_run wo so qo poll evs s = (Ok ts, s') \<and> wf_system (n + length (filter is_Spawn evs)) s'"
proof (induction evs arbitrary: n s)
  case Nil
  then show ?case by simp
next
  case (Cons ev evs)
  have "\<exists>t s1. sys_step wo so qo poll ev s = (Ok t, s1) \<and> wf_system (if is_Spawn ev then Suc n else n) s1"
  proof (cases ev)
    case (Spawn f)
    then show ?thesis using spawn_ok [OF Cons.prems(1), of f] Cons.prems(2) by auto
  next
    case Timer
    then show ?thesis using irq_ok(1) [OF Cons.prems(1)] Cons.prems(2) by auto
  next
    case (Key c)
    then show ?thesis using irq_ok(2) [OF Cons.prems(1), of c] Cons.prems(2) by auto
  next
    case Run
    then show ?thesis using run_ok [OF Cons.prems(1)] Cons.prems(2) by (auto simp: sys_step_def)
  qed
  then obtain t s1 where "sys_step wo so qo poll ev s = (Ok t, s1)" "wf_system (if is_Spawn ev then Suc n else n) s1" by blast
  with Cons.IH [of "if is_Spawn ev then Suc n else n" s1] Cons.prems(2) show ?case by (auto split: if_splits)
qed

end

text \<open>A \<open>Sleep\<close> arms at most the timer's waker, so the laws hold for tasks that sleep.\<close>

interpretation lw: task_wakers list_queue snd fst cell_waker "\<lambda>a. a"
  by unfold_locales

interpretation se: executor_env list_queue snd fst cell_waker "\<lambda>a. a" list_queue "sleep_poll cell_waker"
  by unfold_locales (auto simp: sleep_poll_def lw.armed_def cell_waker_def split: if_splits)

text \<open>
  C28: with at most a hundred tasks ever spawned, and futures whose poll arms at most one waker, the executor
  never panics, whatever the order of spawns, interrupts and turns: the queue of a hundred places never overflows, no
  identifier is used twice, and every cached waker is that of a live task.
\<close>

theorem executor_never_panics:
  assumes "executor_env qo items cap wo holds poll" "length (filter is_Spawn evs) \<le> 100"
  shows "\<exists>ts s. sys_run wo so qo poll evs (boot_system wo qo) = (Ok ts, s)
     \<and> length (items (task_queue (executor s))) \<le> length (tasks (executor s))
     \<and> (\<forall>t v. bt_get (waker_cache (executor s)) t = Some v \<longrightarrow> v = t \<and> bt_get (tasks (executor s)) t \<noteq> None)"
proof -
  from executor_env.sys_run_ok [OF assms(1) executor_env.wf_boot [OF assms(1)], of evs so] assms(2)
  obtain ts s where "sys_run wo so qo poll evs (boot_system wo qo) = (Ok ts, s)"
    "executor_env.wf_system items cap holds (length (filter is_Spawn evs)) s" by auto
  then show ?thesis by (auto simp: executor_env.wf_system_def [OF assms(1)])
qed

theorem executor_never_panics_witness:
  "\<exists>ts s. sys_run cell_waker list_queue list_queue (sleep_poll cell_waker) [Spawn 2, Run, Timer, Run, Spawn 5, Key 30, Run, Timer, Run]
       (boot_system cell_waker list_queue) = (Ok ts, s)
     \<and> length (snd (task_queue (executor s))) \<le> length (tasks (executor s))"
  using executor_never_panics [OF se.executor_env_axioms,
      of "[Spawn 2, Run, Timer, Run, Spawn 5, Key 30, Run, Timer, Run]" list_queue]
  by fastforce

section \<open>Every queued task is polled\<close>

context task_wakers
begin

definition queued :: "TaskId \<Rightarrow> nat \<Rightarrow> ('f, 'q, 'sq, 'aw) System \<Rightarrow> bool" where
  "queued t k s \<longleftrightarrow> bt_wf (tasks (executor s)) \<and> bt_get (tasks (executor s)) t \<noteq> None
     \<and> (\<exists>pre post. items (task_queue (executor s)) = pre @ t # post \<and> length pre = k)"

lemma queued_append:
  "queued t k s \<Longrightarrow> tasks (executor s') = tasks (executor s) \<Longrightarrow>
   items (task_queue (executor s')) = items (task_queue (executor s)) @ xs \<Longrightarrow> queued t k s'"
  by (fastforce simp: queued_def)

lemma slot_wake_items: "slot_wake wo qo a q = (Ok (), a', q') \<Longrightarrow> \<exists>xs. items q' = items q @ xs"
proof -
  assume a: "slot_wake wo qo a q = (Ok (), a', q')"
  show ?thesis
  proof (cases "fst (aw_take wo a)")
    case None
    with a show ?thesis by (cases "aw_take wo a") (simp add: slot_wake_def)
  next
    case (Some t)
    with a have "wake_all qo [t] q = (Ok (), q')"
      by (cases "aw_take wo a"; cases "wake_task qo t q") (simp add: slot_wake_def)
    then show ?thesis using wake_all_items by blast
  qed
qed

lemma queued_irq:
  assumes "queued t k s" "sys_step wo so qo poll ev s = (Ok r, s')" "ev = Timer \<or> ev = Key c"
  shows "queued t k s'"
proof -
  have "tasks (executor s') = tasks (executor s) \<and>
      (\<exists>xs. items (task_queue (executor s')) = items (task_queue (executor s)) @ xs)"
    using assms(2,3)
    by (auto simp: sys_step_def timer_interrupt_handler_def keyboard_interrupt_handler_def Let_def res_simps
        dest!: slot_wake_items split: prod.splits)
  with queued_append [OF assms(1)] show ?thesis by blast
qed

lemma queued_spawn:
  assumes "queued t k s" "sys_step wo so qo poll (Spawn f) s = (Ok r, s')"
  shows "queued t k s'"
proof (cases rule: tq.push_cases [of "NEXT_ID s" "task_queue (executor s)"])
  case (1 q')
  with assms(2) have "s' = s\<lparr>NEXT_ID := NEXT_ID s + 1,
      executor := (executor s)\<lparr>tasks := bt_insert (NEXT_ID s) f (tasks (executor s)), task_queue := q'\<rparr>\<rparr>"
    "bt_get (tasks (executor s)) (NEXT_ID s) = None"
    by (auto simp: sys_step_def task_id_new_def spawn_def Let_def split: if_splits)
  moreover obtain pre post where q: "items (task_queue (executor s)) = pre @ t # post" "length pre = k"
    using assms(1) by (auto simp: queued_def)
  ultimately have "bt_wf (tasks (executor s')) \<and> bt_get (tasks (executor s')) t \<noteq> None"
    "items (task_queue (executor s')) = pre @ t # (post @ [NEXT_ID s])"
    using assms(1) 1(3) by (simp_all add: queued_def bt_wf_insert bt_get_insert)
  then show ?thesis using q(2) unfolding queued_def by blast
next
  case (2 q')
  with assms(2) show ?thesis by (simp add: sys_step_def task_id_new_def spawn_def Let_def split: if_splits)
qed

lemma run_next_cases:
  assumes "run_next qo poll s = (Ok r, s')" "items (task_queue (executor s)) = h # xs"
  shows "r = Skipped h \<and> tasks (executor s') = tasks (executor s) \<and> items (task_queue (executor s')) = xs
       \<and> bt_get (tasks (executor s)) h = None
     \<or> r = Polled h \<and> bt_get (tasks (executor s)) h \<noteq> None
       \<and> (\<exists>f' woken. items (task_queue (executor s')) = xs @ woken \<and>
          (tasks (executor s') = bt_remove h (tasks (executor s)) \<or> tasks (executor s') = bt_insert h f' (tasks (executor s))))"
proof (cases rule: tq.pop_cases [of "task_queue (executor s)"])
  case (2 x ys q')
  then have h: "x = h" "ys = xs" using assms(2) by simp_all
  show ?thesis
  proof (cases "bt_get (tasks (executor s)) h")
    case None
    then show ?thesis using assms(1) 2 h by (auto simp: run_next_def)
  next
    case (Some f)
    define cache where "cache = (if bt_get (waker_cache (executor s)) h = None
      then bt_insert h h (waker_cache (executor s)) else waker_cache (executor s))"
    obtain woken ready f' fl where p: "poll f (case bt_get cache h of Some t \<Rightarrow> t | None \<Rightarrow> h) (flags s) = (woken, ready, f', fl)"
      by (metis prod.collapse)
    obtain u q where w: "wake_all qo woken q' = (u, q)" by (cases "wake_all qo woken q'")
    have e: "run_next qo poll s = (case u of
        Ok _ \<Rightarrow> (Ok (Polled h), s\<lparr>executor := \<lparr>tasks = (if ready then bt_remove h (tasks (executor s)) else bt_insert h f' (tasks (executor s))),
            task_queue = q, waker_cache = (if ready then bt_remove h cache else cache)\<rparr>, flags := fl\<rparr>)
      | _ \<Rightarrow> (Panic, s\<lparr>executor := (executor s)\<lparr>tasks := bt_insert h f' (tasks (executor s)), task_queue := q, waker_cache := cache\<rparr>,
            flags := fl\<rparr>))"
      using 2(1) Some p w unfolding h by (simp add: run_next_def Let_def cache_def [symmetric] split: result.split)
    then have "u = Ok ()" using assms(1) by (cases u) auto
    with e assms(1) wake_all_items [of woken q' q] w 2(3) h Some show ?thesis by auto
  qed
qed (use assms in simp)

lemma queued_run:
  assumes "queued t k s" "run_next qo poll s = (Ok r, s')" "r \<noteq> Polled t"
  shows "0 < k \<and> queued t (k - 1) s'"
proof -
  from assms(1) obtain pre post where q: "items (task_queue (executor s)) = pre @ t # post" "length pre = k"
    and w: "bt_wf (tasks (executor s))" "bt_get (tasks (executor s)) t \<noteq> None" by (auto simp: queued_def)
  show ?thesis
  proof (cases pre)
    case Nil
    with q run_next_cases [OF assms(2), of t post] w(2) assms(3) show ?thesis by auto
  next
    case (Cons h pre')
    with q run_next_cases [OF assms(2), of h "pre' @ t # post"] w assms(3) show ?thesis
      by (auto simp: queued_def bt_wf_remove bt_wf_insert bt_get_remove bt_get_insert)
  qed
qed

lemma queued_polled:
  assumes "sys_run wo so qo poll evs s = (Ok ts, s')" "queued t k s" "k < length (filter ((=) Run) evs)"
  shows "Polled t \<in> set ts"
  using assms
proof (induction evs arbitrary: s k ts)
  case Nil
  then show ?case by simp
next
  case (Cons ev evs)
  then obtain r s1 ts1 where step: "sys_step wo so qo poll ev s = (Ok r, s1)"
    and rest: "sys_run wo so qo poll evs s1 = (Ok ts1, s')" "ts = r # ts1" by (auto simp: res_simps)
  show ?case
  proof (cases "r = Polled t")
    case False
    have "\<exists>k'. queued t k' s1 \<and> k' < length (filter ((=) Run) evs)"
    proof (cases ev)
      case (Spawn f)
      then show ?thesis using queued_spawn [OF Cons.prems(2), of so poll f r s1] step Cons.prems(3) by auto
    next
      case Run
      then have "run_next qo poll s = (Ok r, s1)" using step by (simp add: sys_step_def)
      from queued_run [OF Cons.prems(2) this False] show ?thesis using Cons.prems(3) Run by auto
    qed (use queued_irq [OF Cons.prems(2) step] Cons.prems(3) in auto)
    then show ?thesis using Cons.IH rest by auto
  qed (use rest in simp)
qed

end

text \<open>
  C29: a task in the queue is polled after at most as many turns as the queue is long, whatever spawns and interrupts
  come in between.
\<close>

theorem queued_task_is_polled:
  assumes env: "executor_env qo items cap wo holds poll" and "length (filter is_Spawn (evs1 @ evs2)) \<le> 100"
    and "sys_run wo so qo poll evs1 (boot_system wo qo) = (Ok ts1, s)"
    and "bt_get (tasks (executor s)) t \<noteq> None" "t \<in> set (items (task_queue (executor s)))"
    and "length (items (task_queue (executor s))) \<le> length (filter ((=) Run) evs2)"
  shows "\<exists>ts2 s'. sys_run wo so qo poll evs2 s = (Ok ts2, s') \<and> Polled t \<in> set ts2"
proof -
  let ?n = "length (filter is_Spawn evs1)"
  have wf: "executor_env.wf_system items cap holds ?n s"
    using executor_env.sys_run_ok [OF env executor_env.wf_boot [OF env], of evs1 so] assms(2,3) by auto
  then obtain ts2 s' where run: "sys_run wo so qo poll evs2 s = (Ok ts2, s')"
    using executor_env.sys_run_ok [OF env wf, of evs2 so] assms(2) by auto
  obtain pre post where "items (task_queue (executor s)) = pre @ t # post" using assms(5) by (meson split_list)
  moreover have "bt_wf (tasks (executor s))" using wf by (simp add: executor_env.wf_system_def [OF env])
  ultimately have "task_wakers.queued items t (length pre) s" "length pre < length (filter ((=) Run) evs2)"
    using assms(4,6) by (auto simp: task_wakers.queued_def [OF executor_env.axioms(1) [OF env]])
  with task_wakers.queued_polled [OF executor_env.axioms(1) [OF env] run] run show ?thesis by blast
qed

theorem queued_task_is_polled_witness:
  "\<exists>ts2 s'. sys_run cell_waker list_queue list_queue (sleep_poll cell_waker) [Timer, Run, Spawn 7, Run]
      (snd (sys_run cell_waker list_queue list_queue (sleep_poll cell_waker) [Spawn 5, Spawn 6] (boot_system cell_waker list_queue)))
      = (Ok ts2, s') \<and> Polled 1 \<in> set ts2"
proof -
  let ?r = "sys_run cell_waker list_queue list_queue (sleep_poll cell_waker) [Spawn 5, Spawn 6] (boot_system cell_waker list_queue)"
  have ev: "fst ?r = Ok [Idle, Idle]" "tasks (executor (snd ?r)) = [(0, 5), (1, 6)]" "snd (task_queue (executor (snd ?r))) = [0, 1]"
    by (simp_all add: sys_step_def task_id_new_def spawn_def boot_system_def executor_new_def list_queue_def)
  obtain s where s: "?r = (Ok [Idle, Idle], s)" "tasks (executor s) = [(0, 5), (1, 6)]" "snd (task_queue (executor s)) = [0, 1]"
    using ev by (metis prod.collapse)
  have "\<exists>ts2 s'. sys_run cell_waker list_queue list_queue (sleep_poll cell_waker) [Timer, Run, Spawn 7, Run] s = (Ok ts2, s')
      \<and> Polled 1 \<in> set ts2"
    by (rule queued_task_is_polled [OF se.executor_env_axioms _ s(1)]) (simp_all add: s(2,3))
  then show ?thesis unfolding s(1) by (simp only: snd_conv)
qed

section \<open>Sleeping and typing\<close>

text \<open>\<open>rounds k\<close>: the timer ticks and the executor takes a turn, \<open>k\<close> times.\<close>

fun rounds :: "nat \<Rightarrow> 'f event list" where
  "rounds 0 = []"
| "rounds (Suc k) = rounds k @ [Timer, Run]"

lemma sys_run_append:
  "sys_run wo so qo poll (xs @ ys) s =
     sbind (sys_run wo so qo poll xs s) (\<lambda>ts s. sbind (sys_run wo so qo poll ys s) (\<lambda>us s. (Ok (ts @ us), s)))"
proof (induction xs arbitrary: s)
  case Nil
  then show ?case by (simp add: sbind_case prod_eq_iff split: result.split)
next
  case (Cons x xs)
  then show ?case by (simp add: sbind_case split: result.split)
qed

context task_wakers
begin

text \<open>A task that sleeps for \<open>n\<close> ticks from time \<open>T\<close> on, after \<open>k\<close> rounds.\<close>

definition sleeping :: "u64 \<Rightarrow> u64 \<Rightarrow> nat \<Rightarrow> (u64, 'q, 'sq, 'aw) System \<Rightarrow> bool" where
  "sleeping T n k s \<longleftrightarrow>
     tasks (executor s) = (if k < unat n then [(0, T + n)] else [])
   \<and> waker_cache (executor s) = (if k < unat n then [(0, 0)] else [])
   \<and> items (task_queue (executor s)) = [] \<and> cap (task_queue (executor s)) = 100
   \<and> TIMER_TICKS (flags s) = T + of_nat k \<and> holds (TIMER_WAKER (flags s)) = (if k < unat n then Some 0 else None)"

lemma sleep_poll_turn:
  assumes "items (task_queue (executor s)) = [0]" "cap (task_queue (executor s)) = 100"
    "tasks (executor s) = [(0, T + n)]" "waker_cache (executor s) = [] \<or> waker_cache (executor s) = [(0, 0)]"
    "TIMER_TICKS (flags s) = T + of_nat k" "holds (TIMER_WAKER (flags s)) = None" "k \<le> unat n" "unat T + unat n < 2 ^ 64"
  shows "\<exists>s'. run_next qo (sleep_poll wo) s = (Ok (Polled 0), s') \<and> sleeping T n k s'"
proof -
  have le: "T + n \<le> T + of_nat k \<longleftrightarrow> \<not> k < unat n"
    using assms(7,8) by (auto simp: word_le_nat_alt unat_word_ariths unat_of_nat)
  obtain q where q: "q_pop qo (task_queue (executor s)) = (Some 0, q)" "items q = []" "cap q = 100"
    using assms(1,2) by (cases rule: tq.pop_cases [of "task_queue (executor s)"]) auto
  show ?thesis
    using assms(3-6) q le
    by (auto simp: run_next_def sleep_poll_def sleeping_def Let_def bt_remove_def aw.holds_register)
qed

lemma sleeping_round:
  assumes "sleeping T n k s" "unat T + unat n < 2 ^ 64"
  shows "\<exists>ts s'. sys_run wo so qo (sleep_poll wo) [Timer, Run] s = (Ok ts, s') \<and> sleeping T n (Suc k) s'"
proof -
  have room: "length (items (task_queue (executor s))) + (if holds (TIMER_WAKER (flags s)) = None then 0 else 1)
      \<le> cap (task_queue (executor s))" using assms(1) by (simp add: sleeping_def)
  obtain a q where aq: "slot_wake wo qo (TIMER_WAKER (flags s)) (task_queue (executor s)) = (Ok (), a, q)" "holds a = None"
      "cap q = 100" "items q = (if k < unat n then [0] else [])"
    using slot_wake_room [OF room] assms(1) by (auto simp: sleeping_def)
  define s1 where "s1 = s\<lparr>executor := (executor s)\<lparr>task_queue := q\<rparr>, flags := (flags s)\<lparr>TIMER_TICKS := TIMER_TICKS (flags s) + 1,
      SHOULD_YIELD_FLAG := True, TIMER_WAKER := a\<rparr>\<rparr>"
  have step: "sys_step wo so qo (sleep_poll wo) Timer s = (Ok Idle, s1)"
    using aq(1) by (simp add: sys_step_def timer_interrupt_handler_def s1_def)
  have "\<exists>r s'. run_next qo (sleep_poll wo) s1 = (Ok r, s') \<and> sleeping T n (Suc k) s'"
  proof (cases "k < unat n")
    case True
    have "\<exists>s'. run_next qo (sleep_poll wo) s1 = (Ok (Polled 0), s') \<and> sleeping T n (Suc k) s'"
      by (rule sleep_poll_turn) (use True assms aq in \<open>simp_all add: sleeping_def s1_def\<close>)
    then show ?thesis by blast
  next
    case False
    then obtain q' where "q_pop qo q = (None, q')" "items q' = []" "cap q' = cap q"
      using aq(4) by (cases rule: tq.pop_cases [of q]) auto
    then have "run_next qo (sleep_poll wo) s1 = (Ok Idle, s1\<lparr>executor := (executor s1)\<lparr>task_queue := q'\<rparr>\<rparr>)"
      "sleeping T n (Suc k) (s1\<lparr>executor := (executor s1)\<lparr>task_queue := q'\<rparr>\<rparr>)"
      using False assms(1) aq by (simp_all add: sleeping_def s1_def run_next_def)
    then show ?thesis by blast
  qed
  then show ?thesis using step by (auto simp: sys_step_def [of wo so qo "sleep_poll wo" Run])
qed

lemma sleeping_rounds:
  assumes "sleeping T n 0 s" "unat T + unat n < 2 ^ 64"
  shows "\<exists>ts s'. sys_run wo so qo (sleep_poll wo) (rounds k) s = (Ok ts, s') \<and> sleeping T n k s'"
proof (induction k)
  case 0
  then show ?case using assms(1) by simp
next
  case (Suc k)
  then obtain ts s1 where "sys_run wo so qo (sleep_poll wo) (rounds k) s = (Ok ts, s1)" "sleeping T n k s1" by blast
  moreover from sleeping_round [OF this(2) assms(2)] obtain us s2
    where "sys_run wo so qo (sleep_poll wo) [Timer, Run] s1 = (Ok us, s2)" "sleeping T n (Suc k) s2" by blast
  ultimately show ?case by (simp add: sys_run_append del: sys_run.simps(2))
qed

lemma sleeping_start:
  assumes "unat T + unat n < 2 ^ 64"
  defines "s0 \<equiv> (boot_system wo qo)\<lparr>flags := (flags (boot_system wo qo))\<lparr>TIMER_TICKS := T\<rparr>\<rparr>"
  shows "\<exists>ts s'. sys_run wo so qo (sleep_poll wo) [Spawn (sleep_new n (flags s0)), Run] s0 = (Ok ts, s') \<and> sleeping T n 0 s'"
proof -
  obtain q where q: "q_push qo 0 (q_new qo 100) = (True, q)" "items q = [0]" "cap q = 100"
    by (cases rule: tq.push_cases [of 0 "q_new qo 100"]) (auto simp: tq.items_new tq.cap_new)
  define s1 where "s1 = s0\<lparr>NEXT_ID := 1, executor := (executor s0)\<lparr>tasks := [(0, T + n)], task_queue := q\<rparr>\<rparr>"
  have step: "sys_step wo so qo (sleep_poll wo) (Spawn (sleep_new n (flags s0))) s0 = (Ok Idle, s1)"
    using q(1) by (simp add: sys_step_def task_id_new_def spawn_def s1_def s0_def boot_system_def executor_new_def sleep_new_def)
  have "\<exists>s'. run_next qo (sleep_poll wo) s1 = (Ok (Polled 0), s') \<and> sleeping T n 0 s'"
    by (rule sleep_poll_turn)
      (use q assms(1) in \<open>simp_all add: s1_def s0_def boot_system_def executor_new_def aw.holds_new\<close>)
  then show ?thesis using step by (auto simp: sys_step_def [of wo so qo "sleep_poll wo" Run])
qed

end

text \<open>
  C30: in a freshly booted system whose only task awaits \<open>Sleep::new(n)\<close>, that task ends after exactly \<open>n\<close> timer
  interrupts, each followed by a turn of the executor, and not before, when the tick counter does not wrap in between.
  (Two sleeping tasks would share one waker.)
\<close>

theorem sleep_takes_n_ticks:
  assumes "array_queue qo items cap" "atomic_waker wo holds" "unat T + unat n < 2 ^ 64"
    and "s0 = (boot_system wo qo)\<lparr>flags := (flags (boot_system wo qo))\<lparr>TIMER_TICKS := T\<rparr>\<rparr>"
  shows "\<exists>ts s. sys_run wo so qo (sleep_poll wo) ([Spawn (sleep_new n (flags s0)), Run] @ rounds k) s0 = (Ok ts, s)
     \<and> (tasks (executor s) = [] \<longleftrightarrow> unat n \<le> k)"
proof -
  have tw: "task_wakers qo items cap wo holds" using assms(1,2) by (rule task_wakers.intro)
  from task_wakers.sleeping_start [OF tw assms(3), of so] obtain ts s1
    where s1: "sys_run wo so qo (sleep_poll wo) [Spawn (sleep_new n (flags s0)), Run] s0 = (Ok ts, s1)"
      "task_wakers.sleeping items cap holds T n 0 s1" unfolding assms(4) by blast
  from task_wakers.sleeping_rounds [OF tw s1(2) assms(3), of so k] obtain us s2
    where "sys_run wo so qo (sleep_poll wo) (rounds k) s1 = (Ok us, s2)" "task_wakers.sleeping items cap holds T n k s2" by blast
  with s1(1) show ?thesis
    by (simp only: sys_run_append sbind.simps) (auto simp: task_wakers.sleeping_def [OF tw])
qed

theorem sleep_takes_n_ticks_witness:
  "\<exists>ts s. sys_run cell_waker list_queue list_queue (sleep_poll cell_waker)
       ([Spawn (sleep_new 3 (flags (boot_system cell_waker list_queue :: (u64, _, nat \<times> u8 list, _) System))), Run] @ rounds 3)
       (boot_system cell_waker list_queue) = (Ok ts, s) \<and> tasks (executor s) = []"
proof -
  have b: "boot_system cell_waker list_queue = (boot_system cell_waker list_queue)\<lparr>flags :=
      (flags (boot_system cell_waker list_queue))\<lparr>TIMER_TICKS := 0\<rparr>\<rparr>" by (simp add: boot_system_def)
  from sleep_takes_n_ticks [OF lq.array_queue_axioms cw.atomic_waker_axioms _ b, of 3 list_queue 3] show ?thesis by simp
qed

text \<open>Interrupts keep the scancodes that are queued and the timer alone keeps the keyboard's waker.\<close>

definition scancodes :: "('sq \<Rightarrow> u8 list) \<Rightarrow> ('f, 'q, 'sq, 'aw) System \<Rightarrow> u8 list option" where
  "scancodes sitems s = map_option sitems (SCANCODE_QUEUE (flags s))"

lemma timer_keeps_keyboard:
  "timer_interrupt_handler wo qo s = (r, s') \<Longrightarrow> KEYBOARD_WAKER (flags s') = KEYBOARD_WAKER (flags s) \<and> SCANCODE_QUEUE (flags s') = SCANCODE_QUEUE (flags s)"
  by (auto simp: timer_interrupt_handler_def Let_def split: prod.splits)

lemma key_is_queued:
  assumes "array_queue so sitems scap" "keyboard_interrupt_handler wo so qo c s = (r, s')"
    "SCANCODE_QUEUE (flags s) = Some sq" "0 < scap sq"
  shows "\<exists>sq'. SCANCODE_QUEUE (flags s') = Some sq' \<and> scap sq' = scap sq \<and> sitems sq' \<noteq> []"
proof -
  have "SCANCODE_QUEUE (flags s') = Some (snd (q_push so c sq))"
    using assms(2,3) by (auto simp: keyboard_interrupt_handler_def Let_def split: prod.splits)
  then show ?thesis
    using assms(4) by (cases rule: array_queue.push_cases [OF assms(1), of c sq]) auto
qed

text \<open>When the second look finds nothing, no key came after the waker was registered.\<close>

lemma irqs_keep_waker:
  assumes "array_queue so sitems scap" "irqs wo so qo xs s = (Ok (), s')" "SCANCODE_QUEUE (flags s) = Some sq" "0 < scap sq"
  shows "\<exists>sq'. SCANCODE_QUEUE (flags s') = Some sq' \<and> scap sq' = scap sq
     \<and> (sitems sq \<noteq> [] \<longrightarrow> sitems sq' \<noteq> [])
     \<and> (sitems sq' = [] \<longrightarrow> KEYBOARD_WAKER (flags s') = KEYBOARD_WAKER (flags s))"
  using assms(2-)
proof (induction xs arbitrary: s sq)
  case Nil
  then show ?case by simp
next
  case (Cons x xs)
  show ?case
  proof (cases x)
    case None
    with Cons.prems(1) obtain s1 where s1: "timer_interrupt_handler wo qo s = (Ok (), s1)" "irqs wo so qo xs s1 = (Ok (), s')"
      by (auto simp: res_simps)
    with Cons.IH [OF s1(2), of sq] Cons.prems timer_keeps_keyboard [OF s1(1)] show ?thesis by simp
  next
    case (Some c)
    with Cons.prems(1) obtain s1 where s1: "keyboard_interrupt_handler wo so qo c s = (Ok (), s1)" "irqs wo so qo xs s1 = (Ok (), s')"
      by (auto simp: res_simps)
    from key_is_queued [OF assms(1) s1(1) Cons.prems(2,3)] obtain sq1
      where "SCANCODE_QUEUE (flags s1) = Some sq1" "scap sq1 = scap sq" "sitems sq1 \<noteq> []" by blast
    with Cons.IH [OF s1(2), of sq1] Cons.prems(3) show ?thesis by auto
  qed
qed

text \<open>
  C31: the keyboard stream loses no wake-up, whatever interrupts arrive inside \<open>poll_next\<close>: when it returns
  \<open>Pending\<close>, no scancode is waiting, and the next key is queued and puts the task back into the executor's queue.
\<close>

theorem scancode_wakeup_not_lost:
  assumes "array_queue so sitems scap" "array_queue qo items cap" "atomic_waker wo holds"
    and "SCANCODE_QUEUE (flags s) = Some sq" "0 < scap sq"
    and "poll_next wo so t (irqs wo so qo xs) (irqs wo so qo ys) s = (Ok None, s')"
    and "length (items (task_queue (executor s'))) < cap (task_queue (executor s'))"
  shows "scancodes sitems s' = Some []
     \<and> (\<exists>s''. keyboard_interrupt_handler wo so qo c s' = (Ok (), s'') \<and> scancodes sitems s'' = Some [c]
          \<and> items (task_queue (executor s'')) = items (task_queue (executor s')) @ [t])"
proof -
  obtain sq0 where p0: "pop_scancode so s = (Ok None, s\<lparr>flags := (flags s)\<lparr>SCANCODE_QUEUE := Some sq0\<rparr>\<rparr>)" "scap sq0 = scap sq"
    using assms(4,6) by (cases rule: array_queue.pop_cases [OF assms(1), of sq]) (auto simp: poll_next_def pop_scancode_def)
  with assms(6) obtain s1 s2 where i1: "irqs wo so qo xs (s\<lparr>flags := (flags s)\<lparr>SCANCODE_QUEUE := Some sq0\<rparr>\<rparr>) = (Ok (), s1)"
    and i2: "irqs wo so qo ys (s1\<lparr>flags := (flags s1)\<lparr>KEYBOARD_WAKER := aw_register wo t (KEYBOARD_WAKER (flags s1))\<rparr>\<rparr>) = (Ok (), s2)"
    and p2: "pop_scancode so s2 = (Ok None, s')"
    by (auto simp: poll_next_def res_simps Let_def split: option.splits)
  from irqs_keep_waker [OF assms(1) i1, of sq0] p0(2) assms(5) obtain sq1
    where sq1: "SCANCODE_QUEUE (flags s1) = Some sq1" "scap sq1 = scap sq" by auto
  from irqs_keep_waker [OF assms(1) i2, of sq1] sq1 assms(5) obtain sq2
    where sq2: "SCANCODE_QUEUE (flags s2) = Some sq2" "scap sq2 = scap sq"
      "sitems sq2 = [] \<Longrightarrow> KEYBOARD_WAKER (flags s2) = aw_register wo t (KEYBOARD_WAKER (flags s1))" by auto
  obtain sq3 where sq3: "s' = s2\<lparr>flags := (flags s2)\<lparr>SCANCODE_QUEUE := Some sq3\<rparr>\<rparr>" "sitems sq2 = []" "sitems sq3 = []" "scap sq3 = scap sq"
    using p2 sq2(1,2) by (cases rule: array_queue.pop_cases [OF assms(1), of sq2]) (auto simp: pop_scancode_def)
  have held: "holds (KEYBOARD_WAKER (flags s')) = Some t"
    using sq2(3) [OF sq3(2)] sq3(1) atomic_waker.holds_register [OF assms(3)] by simp
  have tw: "task_wakers qo items cap wo holds" using assms(2,3) by (rule task_wakers.intro)
  from task_wakers.slot_wake_room [OF tw, of "task_queue (executor s')" "KEYBOARD_WAKER (flags s')"] held assms(7)
  obtain a q where w: "slot_wake wo qo (KEYBOARD_WAKER (flags s')) (task_queue (executor s')) = (Ok (), a, q)"
    "items q = items (task_queue (executor s')) @ [t]" by auto
  have push: "sitems (snd (q_push so c sq3)) = [c]"
    using sq3(3,4) assms(5) by (cases rule: array_queue.push_cases [OF assms(1), of c sq3]) auto
  show ?thesis using sq3(1,3) w push by (simp add: scancodes_def keyboard_interrupt_handler_def Let_def)
qed

definition keyboard_system :: "(u64, nat \<times> TaskId list, nat \<times> u8 list, TaskId option) System" where
  "keyboard_system =
     (let s = boot_system cell_waker list_queue in s\<lparr>flags := (flags s)\<lparr>SCANCODE_QUEUE := Some (256, [])\<rparr>\<rparr>)"

theorem scancode_wakeup_not_lost_witness:
  "\<exists>s''. keyboard_interrupt_handler cell_waker list_queue list_queue 30
       (snd (poll_next cell_waker list_queue 4 (irqs cell_waker list_queue list_queue [None])
         (irqs cell_waker list_queue list_queue [None]) keyboard_system))
       = (Ok (), s'') \<and> snd (task_queue (executor s'')) = [4]"
proof -
  let ?s = keyboard_system
  let ?r = "poll_next cell_waker list_queue 4 (irqs cell_waker list_queue list_queue [None]) (irqs cell_waker list_queue list_queue [None]) ?s"
  have e: "fst ?r = Ok None" "task_queue (executor (snd ?r)) = (100, [])"
    by (simp_all add: keyboard_system_def poll_next_def pop_scancode_def boot_system_def list_queue_def cell_waker_def timer_interrupt_handler_def
        slot_wake_def executor_new_def)
  then obtain s' where s': "?r = (Ok None, s')" "task_queue (executor s') = (100, [])" by (metis prod.collapse)
  have q: "SCANCODE_QUEUE (flags ?s) = Some (256, [])" "0 < fst (256 :: nat, [] :: u8 list)"
    by (simp_all add: keyboard_system_def Let_def)
  have "length (snd (task_queue (executor s'))) < fst (task_queue (executor s'))" by (simp add: s'(2))
  from scancode_wakeup_not_lost [OF lq.array_queue_axioms lq.array_queue_axioms cw.atomic_waker_axioms q s'(1) this, of 30]
  show ?thesis unfolding s'(1) by (auto simp: s'(2))
qed

text \<open>
  When no poll wakes a task while it runs, \<open>run_ready_tasks\<close> returns, and leaves the queue empty.
\<close>

theorem run_ready_tasks_returns:
  assumes "array_queue qo items cap" "\<And>f t fl. fst (poll f t fl) = []"
  shows "\<exists>s'. run_ready_tasks qo poll s = Some (Ok (), s') \<and> items (task_queue (executor s')) = []"
proof (induction "length (items (task_queue (executor s)))" arbitrary: s)
  case 0
  then show ?case
    by (cases rule: array_queue.pop_cases [OF assms(1), of "task_queue (executor s)"])
      (auto simp: run_ready_tasks.simps [of qo poll s] run_next_def)
next
  case (Suc n)
  then obtain t xs q where q: "q_pop qo (task_queue (executor s)) = (Some t, q)" "items q = xs" "n = length xs"
    by (cases rule: array_queue.pop_cases [OF assms(1), of "task_queue (executor s)"]) auto
  have "\<exists>r s1. run_next qo poll s = (Ok r, s1) \<and> r \<noteq> Idle \<and> task_queue (executor s1) = q"
  proof (cases "bt_get (tasks (executor s)) t")
    case None
    then show ?thesis using q(1) by (simp add: run_next_def)
  next
    case (Some f)
    have w: "wake_all qo (fst (poll f u fl)) q = (Ok (), q)" for u fl by (simp add: assms(2))
    show ?thesis using q(1) Some by (simp add: run_next_def Let_def case_prod_beta w)
  qed
  then obtain r s1 where s1: "run_next qo poll s = (Ok r, s1)" "r \<noteq> Idle" "task_queue (executor s1) = q" by blast
  then have "run_ready_tasks qo poll s = run_ready_tasks qo poll s1"
    by (cases r) (simp_all add: run_ready_tasks.simps [of qo poll s])
  with Suc.hyps(1) [of s1] s1(3) q(2,3) show ?case by simp
qed

theorem run_ready_tasks_returns_witness:
  "\<exists>s'. run_ready_tasks list_queue (sleep_poll cell_waker) keyboard_system = Some (Ok (), s') \<and> snd (task_queue (executor s')) = []"
  by (rule run_ready_tasks_returns [OF lq.array_queue_axioms]) (simp add: sleep_poll_def)

end
