(* ===== verification/Startup.thy ===== *)
theory Startup
  imports Acpi HeapMap Directory Blocks Screen Tasks
begin

text \<open>
  How the parts come together: \<open>init\<close> and \<open>_start\<close> of the kernel (\<^verbatim>\<open>src/kernel/src/lib.rs\<close>, \<^verbatim>\<open>main.rs\<close>), \<open>init\<close> of the
  installer (\<^verbatim>\<open>src/installer/src/lib.rs\<close>), the interrupt table, and the statics they fill. What is printed over the
  serial line is left out. \<open>boot_env\<close> gathers the code outside the repository: \<open>VirtAddr::new\<close>, \<open>PhysFrame\<close>, the page
  table mapper and \<open>map_to\<close> of the crate \<open>x86_64\<close>, the fallback heap, the \<open>acpi\<close> crate, and the hardware.
\<close>

section \<open>State\<close>

record BootInfo =
  physical_memory_offset :: u64
  bi_memory_map :: u64
  memory_map_len :: u64
  bi_framebuffer :: FrameBufferInfo
  rsdp_addr :: u64
  fat32_partition_lba :: u64
  boot_disk :: u64

datatype gate = BreakpointGate | DoubleFaultGate nat | PageFaultGate | TimerGate | KeyboardGate

abbreviation PIC_1_OFFSET :: nat where "PIC_1_OFFSET \<equiv> 32"
abbreviation DOUBLE_FAULT_IST_INDEX :: nat where "DOUBLE_FAULT_IST_INDEX \<equiv> 0"

datatype InterruptIndex = TimerIndex | KeyboardIndex

fun as_irq :: "InterruptIndex \<Rightarrow> nat" where
  "as_irq TimerIndex = PIC_1_OFFSET"
| "as_irq KeyboardIndex = PIC_1_OFFSET + 1"

text \<open>The vectors of the exceptions are those of the processor: 3 a breakpoint, 8 a double fault, 14 a page fault.\<close>

definition IDT :: "nat \<Rightarrow> gate option" where
  "IDT = [3 \<mapsto> BreakpointGate, 8 \<mapsto> DoubleFaultGate DOUBLE_FAULT_IST_INDEX, as_irq TimerIndex \<mapsto> TimerGate,
          as_irq KeyboardIndex \<mapsto> KeyboardGate, 14 \<mapsto> PageFaultGate]"

record cpu =
  gdt_loaded :: bool
  idt_loaded :: "(nat \<Rightarrow> gate option) option"
  pic_masks :: "(u8 \<times> u8) option"

record ('m, 'h, 'c, 'hw, 'b) Kernel =
  k_console :: "'b Console"
  k_cpu :: cpu
  k_mapper :: "'m option"
  k_heap :: "'h FixedSizeBlockAllocator"
  k_dma :: DmaState
  k_phys_offset :: "u64 option"
  k_dma_offset :: "u64 option"
  k_ecam :: "'c Ecam"
  k_registry :: "PciBusDevice DeviceRegistry option"
  k_machine :: "'hw Machine"
  k_guids :: u64

type_synonym 'm map_to = "'m \<Rightarrow> nat \<Rightarrow> nat \<Rightarrow> BootInfoFrameAllocator \<Rightarrow> (unit, MapToError) result \<times> 'm \<times> BootInfoFrameAllocator"

record ('m, 'h, 'c, 'hw, 't, 'r) boot_env =
  virt_addr :: "u64 \<Rightarrow> (u64, unit) result"
  phys_frame :: "nat \<Rightarrow> (nat, unit) result"
  cr3 :: u64
  offset_page_table :: "u64 \<Rightarrow> u64 \<Rightarrow> 'm"
  map_to :: "'m map_to"
  fallback_init :: "'h \<Rightarrow> usize \<Rightarrow> usize \<Rightarrow> 'h"
  acpi_tables :: "('t, 'r) acpi_crate"
  cfg :: "'c cfg_ops"
  hardware :: "'hw mmio"

section \<open>Steps of the two programs\<close>

text \<open>\<open>Once::call_once\<close>: the first value stays.\<close>

fun call_once :: "'a option \<Rightarrow> 'a \<Rightarrow> 'a option" where
  "call_once None v = Some v"
| "call_once (Some w) v = Some w"

definition device_registry :: "('m, 'h, 'c, 'hw, 'b) Kernel \<Rightarrow> PciBusDevice DeviceRegistry" where
  "device_registry k = (case k_registry k of Some reg \<Rightarrow> reg | None \<Rightarrow> registry_new)"

text \<open>\<open>expect\<close>\<close>

definition expect :: "('a, 'e) result \<Rightarrow> ('a, unit) result" where
  "expect r = (case r of Ok a \<Rightarrow> Ok a | _ \<Rightarrow> Panic)"

definition screen_init :: "'hw mmio \<Rightarrow> FrameBufferInfo \<Rightarrow> ('m, 'h, 'c, 'hw, 'b) Kernel \<Rightarrow> (unit, unit) result \<times> ('m, 'h, 'c, 'hw, 'b) Kernel" where
  "screen_init mm fi k =
     (case writer_init (cpu_rd mm (k_machine k) (fb_addr fi) (unat (fb_size fi))) fi of
        Ok w \<Rightarrow> (Ok (), k\<lparr>k_console := (k_console k)\<lparr>screen_writer := Some w\<rparr>\<rparr>)
      | _ \<Rightarrow> (Panic, k))"

definition cpu_init :: "('m, 'h, 'c, 'hw, 'b) Kernel \<Rightarrow> ('m, 'h, 'c, 'hw, 'b) Kernel" where
  "cpu_init k =
     (let k = k\<lparr>k_cpu := (k_cpu k)\<lparr>gdt_loaded := True\<rparr>\<rparr>;
          k = k\<lparr>k_cpu := (k_cpu k)\<lparr>idt_loaded := Some IDT\<rparr>\<rparr>;
          k = k\<lparr>k_cpu := (k_cpu k)\<lparr>pic_masks := Some (0xFC, 0xFF)\<rparr>\<rparr>
      in k\<lparr>k_console := (k_console k)\<lparr>interrupts_enabled := True\<rparr>\<rparr>)"

text \<open>\<open>memory::init\<close>: the active level 4 table, seen through the mapping of physical memory.\<close>

definition memory_init :: "('m, 'h, 'c, 'hw, 't, 'r) boot_env \<Rightarrow> u64 \<Rightarrow> 'm" where
  "memory_init env off = offset_page_table env (off + cr3 env) off"

definition boot_frames :: "('m, 'h, 'c, 'hw, 't, 'r) boot_env \<Rightarrow> BootInfo \<Rightarrow> ('m, 'h, 'c, 'hw, 'b) Kernel \<Rightarrow> BootInfoFrameAllocator" where
  "boot_frames env bi k =
     init_from_raw (\<lambda>v. ram (k_machine k) (v - mm_off (hardware env))) (bi_memory_map bi) (memory_map_len bi)"

definition heap_up ::
    "('m, 'h, 'c, 'hw, 't, 'r) boot_env \<Rightarrow> BootInfo \<Rightarrow> u64 \<Rightarrow> ('m, 'h, 'c, 'hw, 'b) Kernel
     \<Rightarrow> (BootInfoFrameAllocator, unit) result \<times> ('m, 'h, 'c, 'hw, 'b) Kernel" where
  "heap_up env bi off k =
     (case init_heap (phys_frame env) (map_to env) (fallback_init env) (memory_init env off) (boot_frames env bi k) (k_heap k) of
        (Ok heap, m, fa) \<Rightarrow> (Ok fa, k\<lparr>k_heap := heap, k_mapper := Some m\<rparr>)
      | (_, m, fa) \<Rightarrow> (Panic, k\<lparr>k_mapper := Some m\<rparr>))"

text \<open>\<open>driver::init\<close>, with \<open>KernelDmaAllocator::new\<close> for the allocator.\<close>

definition driver_init :: "u64 \<Rightarrow> ('m, 'h, 'c, 'hw, 'b) Kernel \<Rightarrow> ('m, 'h, 'c, 'hw, 'b) Kernel" where
  "driver_init off k = k\<lparr>k_phys_offset := call_once (k_phys_offset k) off, k_dma_offset := call_once (k_dma_offset k) off\<rparr>"

definition acpi_ecam_init ::
    "('m, 'h, 'c, 'hw, 't, 'r) boot_env \<Rightarrow> BootInfo \<Rightarrow> u64 \<Rightarrow> ('m, 'h, 'c, 'hw, 'b) Kernel
     \<Rightarrow> (unit, unit) result \<times> ('m, 'h, 'c, 'hw, 'b) Kernel" where
  "acpi_ecam_init env bi off k =
     (case init_from_rsdp (acpi_tables env) (rsdp_addr bi) off of
        Ok info \<Rightarrow> (Ok (), k\<lparr>k_ecam := init_ecam (ai_ecam_base info) (ai_phys_offset info) (k_ecam k)\<rparr>)
      | _ \<Rightarrow> (Panic, k))"

section \<open>The kernel\<close>

definition enumerate_devices ::
    "('m, 'h, 'c, 'hw, 't, 'r) boot_env \<Rightarrow> ('m, 'h, 'c, 'hw, 'b) Kernel \<Rightarrow> (unit, unit) result \<times> ('m, 'h, 'c, 'hw, 'b) Kernel" where
  "enumerate_devices env k =
     (case pci_bus_enumerate (cfg env) (k_ecam k) (device_registry k) of
        (r, reg, e) \<Rightarrow> (expect r, k\<lparr>k_registry := Some reg, k_ecam := e\<rparr>))"

definition kernel_init ::
    "('m, 'h, 'c, 'hw, 't, 'r) boot_env \<Rightarrow> BootInfo \<Rightarrow> ('m, 'h, 'c, 'hw, 'b) Kernel \<Rightarrow> (unit, unit) result \<times> ('m, 'h, 'c, 'hw, 'b) Kernel" where
  "kernel_init env bi k =
     sbind (screen_init (hardware env) (bi_framebuffer bi) k) (\<lambda>_ k.
     sbind (virt_addr env (physical_memory_offset bi), cpu_init k) (\<lambda>off k.
     sbind (heap_up env bi off k) (\<lambda>fa k.
     let k = driver_init off (k\<lparr>k_dma := init_frame_allocator fa (k_dma k)\<rparr>) in
     sbind (acpi_ecam_init env bi off k) (\<lambda>_ k.
       enumerate_devices env k))))"

text \<open>\<open>_start\<close> up to \<open>executor.run()\<close>; \<open>sys\<close> holds the statics of the tasks.\<close>

definition kernel_start ::
    "('m, 'h, 'c, 'hw, 't, 'r) boot_env \<Rightarrow> ('q, TaskId) queue_ops \<Rightarrow> BootInfo \<Rightarrow> 'f \<Rightarrow> ('m, 'h, 'c, 'hw, 'b) Kernel \<times> ('f, 'q, 'sq, 'aw) System
     \<Rightarrow> (unit, unit) result \<times> ('m, 'h, 'c, 'hw, 'b) Kernel \<times> ('f, 'q, 'sq, 'aw) System" where
  "kernel_start env qo bi shell_task s =
     (case kernel_init env bi (fst s) of
        (Ok _, k) \<Rightarrow>
          (let sys = (snd s)\<lparr>executor := executor_new qo\<rparr>; (tid, sys) = task_id_new sys;
               (r, ex) = spawn qo tid shell_task (executor sys)
           in (r, k, sys\<lparr>executor := ex\<rparr>))
      | (r, k) \<Rightarrow> (r, k, snd s))"

section \<open>The installer\<close>

text \<open>
  The pages of the AHCI registers, mapped to themselves. \<open>Page::range\<close> leaves out the last page.
\<close>

definition bar5_pages :: "nat \<Rightarrow> nat \<Rightarrow> nat list" where
  "bar5_pages a b = map (\<lambda>k. a div 4096 * 4096 + 4096 * k) [0..<b div 4096 - a div 4096]"

fun map_identity :: "('m, 'h, 'c, 'hw, 't, 'r) boot_env \<Rightarrow> nat list \<Rightarrow> 'm \<times> BootInfoFrameAllocator \<Rightarrow> (unit, unit) result \<times> 'm \<times> BootInfoFrameAllocator" where
  "map_identity env [] s = (Ok (), s)"
| "map_identity env (pg # pgs) (m, fa) =
     (case phys_frame env pg of
        Ok frame \<Rightarrow>
          (case map_to env m pg frame fa of
             (Ok _, s) \<Rightarrow> map_identity env pgs s
           | (_, s) \<Rightarrow> (Panic, s))
      | _ \<Rightarrow> (Panic, m, fa))"

definition map_bar5 :: "('m, 'h, 'c, 'hw, 't, 'r) boot_env \<Rightarrow> PciBusDevice \<Rightarrow> 'm \<times> BootInfoFrameAllocator \<Rightarrow> (unit, unit) result \<times> 'm \<times> BootInfoFrameAllocator" where
  "map_bar5 env dev s =
     (if id_pair dev = (0x8086, 0x2922) then
        (case bar_mmio (pci_info dev) 5 of
           Some bar \<Rightarrow>
             sbind (virt_addr env bar, s) (\<lambda>start s.
             sbind (virt_addr env (bar + 0x4000), s) (\<lambda>stop s.
               map_identity env (bar5_pages (unat start) (unat stop)) s))
         | None \<Rightarrow> (Ok (), s))
      else (Ok (), s))"

fun map_bars :: "('m, 'h, 'c, 'hw, 't, 'r) boot_env \<Rightarrow> (DeviceId \<times> PciBusDevice) list \<Rightarrow> 'm \<times> BootInfoFrameAllocator \<Rightarrow> (unit, unit) result \<times> 'm \<times> BootInfoFrameAllocator" where
  "map_bars env [] s = (Ok (), s)"
| "map_bars env (d # ds) s = sbind (map_bar5 env (snd d) s) (\<lambda>_. map_bars env ds)"

definition ahci_window ::
    "('m, 'h, 'c, 'hw, 't, 'r) boot_env \<Rightarrow> BootInfoFrameAllocator \<Rightarrow> ('m, 'h, 'c, 'hw, 'b) Kernel
     \<Rightarrow> (BootInfoFrameAllocator, unit) result \<times> ('m, 'h, 'c, 'hw, 'b) Kernel" where
  "ahci_window env fa k =
     (let reg = device_registry k; k = k\<lparr>k_registry := Some reg\<rparr> in
      case k_mapper k of
        None \<Rightarrow> (Panic, k)
      | Some m \<Rightarrow>
          (case map_bars env (by_type pci_ops reg Bus) (m, fa) of
             (r, m, fa) \<Rightarrow> (rbind r (\<lambda>_. Ok fa), k\<lparr>k_mapper := Some m\<rparr>)))"

datatype QemuExitCode = Success | Failed

fun exit_code :: "QemuExitCode \<Rightarrow> u32" where
  "exit_code Success = 0x10"
| "exit_code Failed = 0x11"

text \<open>The drivers take the offset and the allocator that \<open>driver::init\<close> recorded.\<close>

definition installer_init ::
    "('m, 'h, 'c, 'hw, 't, 'r) boot_env \<Rightarrow> BootInfo \<Rightarrow> ('m, 'h, 'c, 'hw, 'b) Kernel
     \<Rightarrow> ((DeviceId \<times> rstr \<times> disk_report) list \<times> QemuExitCode, unit) result \<times> ('m, 'h, 'c, 'hw, 'b) Kernel" where
  "installer_init env bi k =
     sbind (virt_addr env (physical_memory_offset bi), k) (\<lambda>off k.
     sbind (heap_up env bi off k) (\<lambda>fa k.
     sbind (ahci_window env fa k) (\<lambda>fa k.
     let k = driver_init off (k\<lparr>k_dma := init_frame_allocator fa (k_dma k)\<rparr>) in
     sbind (acpi_ecam_init env bi off k) (\<lambda>_ k.
     case (k_phys_offset k, k_dma_offset k) of
       (Some poff, Some doff) \<Rightarrow>
         (case install_disks (cfg env) ((hardware env)\<lparr>mm_off := poff\<rparr>) (dma_alloc (phys_frame env) doff) (k_guids k)
            (device_registry k) (k_ecam k, k_machine k, k_dma k) of
            (r, reg, e, m, al, c) \<Rightarrow>
              (rbind r (\<lambda>reports. Ok (reports, Success)),
               k\<lparr>k_registry := Some reg, k_ecam := e, k_machine := m, k_dma := al, k_guids := c\<rparr>))
     | _ \<Rightarrow> (Panic, k)))))"

section \<open>The kernel comes up\<close>

text \<open>Every interrupt line the controllers let through has a gate.\<close>

definition irqs_have_gates :: "cpu \<Rightarrow> bool" where
  "irqs_have_gates c \<longleftrightarrow>
     (\<exists>idt m s. idt_loaded c = Some idt \<and> pic_masks c = Some (m, s)
        \<and> (\<forall>i < 8. \<not> bit m i \<longrightarrow> idt (PIC_1_OFFSET + i) \<noteq> None)
        \<and> (\<forall>i < 8. \<not> bit s i \<longrightarrow> idt (PIC_1_OFFSET + 8 + i) \<noteq> None))"

lemma cpu_init_gates: "irqs_have_gates (k_cpu (cpu_init k))"
proof -
  have "bit (0xFC :: u8) i" if "i < 8" "\<not> i < 2" for i
  proof -
    have "i \<in> {2, 3, 4, 5, 6, 7}" using that by auto
    then show ?thesis by auto
  qed
  then have "IDT (PIC_1_OFFSET + i) \<noteq> None" if "i < 8" "\<not> bit (0xFC :: u8) i" for i
    using that by (cases "i < 2") (auto simp: IDT_def less_2_cases_iff)
  moreover have "bit (0xFF :: u8) i" if "i < 8" for i
  proof -
    have "(0xFF :: u8) = mask 8" by (simp add: mask_eq_exp_minus_1)
    with that show ?thesis by (simp only: bit_mask_iff) simp
  qed
  ultimately show ?thesis by (auto simp: irqs_have_gates_def cpu_init_def Let_def)
qed

definition functions_registered :: "'c cfg_ops \<Rightarrow> 'c Ecam \<Rightarrow> PciBusDevice DeviceRegistry \<Rightarrow> bool" where
  "functions_registered ops e reg \<longleftrightarrow>
     (\<forall>b d f. get_by_name reg (pci_device_name (address b d f)) \<noteq> None \<longleftrightarrow>
        d < 32 \<and> f < 8 \<and> present ops e b d 0 \<and> present ops e b d f \<and> (f = 0 \<or> multifunction ops e b d))"

text \<open>What the code needs of the machine it is started on.\<close>

definition bootable ::
    "('m, 'h, 'c, 'hw, 't, 'r) boot_env \<Rightarrow> ('m \<Rightarrow> nat \<Rightarrow> nat option) \<Rightarrow> BootInfo \<Rightarrow> ('m, 'h, 'c, 'hw, 'b) Kernel \<Rightarrow> bool" where
  "bootable env mapping bi k \<longleftrightarrow>
     (let off = physical_memory_offset bi; fs = memory_map (boot_frames env bi k) in
      virt_addr env off = Ok off \<and> page_aligned_map fs \<and> 16384 \<le> length (usable_addresses fs)
      \<and> (\<forall>p \<in> set heap_pages. mapping (memory_init env off) p = None))"

lemma boot_frames_next [simp]: "fa_next (boot_frames env bi k) = 0"
  by (simp add: boot_frames_def init_from_raw_def)

lemma heap_up_ok:
  assumes "page_mapper (map_to env) mapping" "frame_spec (phys_frame env)" "bootable env mapping bi k"
    and "off = physical_memory_offset bi"
  shows "\<exists>m fa. heap_up env bi off k = (Ok fa, k\<lparr>k_heap := fsb_init (fallback_init env) (k_heap k) HEAP_START HEAP_SIZE, k_mapper := Some m\<rparr>)
     \<and> memory_map fa = memory_map (boot_frames env bi k) \<and> 4096 \<le> fa_next fa \<and> fa_next fa \<le> 16384
     \<and> heap_mapped (mapping (memory_init env off)) (mapping m) (memory_map (boot_frames env bi k))"
  using init_heap_maps [OF assms(1,2), of "boot_frames env bi k" "memory_init env off" "fallback_init env" "k_heap k"] assms(3,4)
  by (auto simp: heap_up_def bootable_def Let_def)

lemma bootable_cong:
  "k_machine k' = k_machine k \<Longrightarrow> bootable env mapping bi k' \<longleftrightarrow> bootable env mapping bi k"
  "k_machine k' = k_machine k \<Longrightarrow> boot_frames env bi k' = boot_frames env bi k"
  by (simp_all add: bootable_def boot_frames_def)

lemma kernel_init_ok:
  assumes pm: "page_mapper (map_to env) mapping" and fs: "frame_spec (phys_frame env)" and bt: "bootable env mapping bi k"
    and fb: "wf_writer (writer_new (cpu_rd (hardware env) (k_machine k) (fb_addr (bi_framebuffer bi))
          (unat (fb_size (bi_framebuffer bi)))) (bi_framebuffer bi))"
    and ac: "init_from_rsdp (acpi_tables env) (rsdp_addr bi) (physical_memory_offset bi) = Ok info" "ai_ecam_base info \<noteq> 0"
    and cs: "e = init_ecam (ai_ecam_base info) (ai_phys_offset info) (k_ecam k)" "config_space (cfg env) (bar_registers e) msk"
    and new: "k_registry k = None"
  shows "\<exists>k' m fa. kernel_init env bi k = (Ok (), k') \<and> k_mapper k' = Some m
     \<and> frame_alloc (k_dma k') = Some fa \<and> memory_map fa = memory_map (boot_frames env bi k) \<and> fa_next fa \<le> 16384
     \<and> heap_mapped (mapping (memory_init env (physical_memory_offset bi))) (mapping m) (memory_map (boot_frames env bi k))
     \<and> k_heap k' = fsb_init (fallback_init env) (k_heap k) HEAP_START HEAP_SIZE
     \<and> interrupts_enabled (k_console k') \<and> irqs_have_gates (k_cpu k')
     \<and> functions_registered (cfg env) e (device_registry k')"
proof -
  let ?off = "physical_memory_offset bi"
  obtain w where w: "writer_init (cpu_rd (hardware env) (k_machine k) (fb_addr (bi_framebuffer bi))
      (unat (fb_size (bi_framebuffer bi)))) (bi_framebuffer bi) = Ok w"
    using writer_init_ok [OF fb] by blast
  define k1 where "k1 = cpu_init (k\<lparr>k_console := (k_console k)\<lparr>screen_writer := Some w\<rparr>\<rparr>)"
  have k1: "k_machine k1 = k_machine k" "k_heap k1 = k_heap k" "k_ecam k1 = k_ecam k" "k_registry k1 = None"
    "interrupts_enabled (k_console k1)" "irqs_have_gates (k_cpu k1)"
    using new cpu_init_gates by (simp_all add: k1_def) (simp_all add: cpu_init_def Let_def)
  have bt1: "bootable env mapping bi k1" using bt bootable_cong(1) [OF k1(1)] by blast
  obtain m fa where h: "heap_up env bi ?off k1
        = (Ok fa, k1\<lparr>k_heap := fsb_init (fallback_init env) (k_heap k) HEAP_START HEAP_SIZE, k_mapper := Some m\<rparr>)"
      "heap_mapped (mapping (memory_init env ?off)) (mapping m) (memory_map (boot_frames env bi k))"
      "memory_map fa = memory_map (boot_frames env bi k)" "fa_next fa \<le> 16384"
    using heap_up_ok [OF pm fs bt1] k1(2) bootable_cong(2) [OF k1(1), of env bi] by auto
  have "ecam_phys_base e \<noteq> 0" using ac(2) cs(1) by (simp add: init_ecam_def)
  from pci_bus_enters_functions [OF cs(2) this] obtain reg e'
    where reg: "pci_bus_enumerate (cfg env) e registry_new = (Ok (), reg, e')" "functions_registered (cfg env) e reg"
    unfolding functions_registered_def by blast
  have va: "virt_addr env ?off = Ok ?off" using bt by (simp add: bootable_def Let_def)
  show ?thesis
    using h(2-4) k1 reg(2)
    by (simp add: kernel_init_def screen_init_def w va k1_def [symmetric] h(1) Let_def acpi_ecam_init_def ac(1) driver_init_def
          cs(1) [symmetric] enumerate_devices_def device_registry_def reg(1) expect_def
          init_frame_allocator_def)
qed

text \<open>
  C35: on a machine that offers what the code relies on, the kernel starts: \<open>_start\<close> reaches the executor without a panic
  and with the shell as the only, queued task; every page of the heap is mapped to a usable frame of its own and no
  other page has changed; interrupts are enabled, and every line the controllers let through has a gate; and the
  device registry holds exactly the PCI functions that are present.
\<close>

theorem kernel_starts_shell:
  assumes "page_mapper (map_to env) mapping" "frame_spec (phys_frame env)" "bootable env mapping bi k"
    and "wf_writer (writer_new (cpu_rd (hardware env) (k_machine k) (fb_addr (bi_framebuffer bi))
          (unat (fb_size (bi_framebuffer bi)))) (bi_framebuffer bi))"
    and "init_from_rsdp (acpi_tables env) (rsdp_addr bi) (physical_memory_offset bi) = Ok info" "ai_ecam_base info \<noteq> 0"
    and "e = init_ecam (ai_ecam_base info) (ai_phys_offset info) (k_ecam k)" "config_space (cfg env) (bar_registers e) msk"
    and "k_registry k = None" and "array_queue qo items cap"
  shows "\<exists>k' m sys'. kernel_start env qo bi shell (k, sys) = (Ok (), k', sys')
     \<and> tasks (executor sys') = [(NEXT_ID sys, shell)] \<and> items (task_queue (executor sys')) = [NEXT_ID sys]
     \<and> k_mapper k' = Some m
     \<and> heap_mapped (mapping (memory_init env (physical_memory_offset bi))) (mapping m) (memory_map (boot_frames env bi k))
     \<and> interrupts_enabled (k_console k') \<and> irqs_have_gates (k_cpu k')
     \<and> functions_registered (cfg env) e (device_registry k')"
proof -
  obtain k' m where k': "kernel_init env bi k = (Ok (), k')" "k_mapper k' = Some m"
     "heap_mapped (mapping (memory_init env (physical_memory_offset bi))) (mapping m) (memory_map (boot_frames env bi k))"
     "interrupts_enabled (k_console k')" "irqs_have_gates (k_cpu k')" "functions_registered (cfg env) e (device_registry k')"
    using kernel_init_ok [OF assms(1-9)] by blast
  let ?q = "q_push qo (NEXT_ID sys) (q_new qo 100)"
  have q: "fst ?q" "items (snd ?q) = [NEXT_ID sys]"
    using array_queue.push_room [OF assms(10), of "q_new qo 100" "NEXT_ID sys"]
      array_queue.items_new [OF assms(10), of 100] array_queue.cap_new [OF assms(10), of 100] by auto
  have "spawn qo (NEXT_ID sys) shell (executor_new qo)
      = (Ok (), \<lparr>tasks = [(NEXT_ID sys, shell)], task_queue = snd ?q, waker_cache = []\<rparr>)"
    using q(1) by (cases ?q) (simp add: spawn_def executor_new_def Let_def)
  with k' q(2) show ?thesis by (simp add: kernel_start_def task_id_new_def Let_def)
qed

lemma kernel_init_frames:
  fixes k k' :: "('m, 'h, 'c, 'hw, 'b) Kernel"
  assumes "kernel_init env bi k = (Ok (), k')"
  obtains fa off m where "frame_alloc (k_dma k') = Some fa"
    "map_pages (phys_frame env) (map_to env) heap_pages (memory_init env off, boot_frames env bi k) = (Ok (), m, fa)"
proof -
  from assms obtain k0 off k1 fa k2 k3 where
      1: "screen_init (hardware env) (bi_framebuffer bi) k = (Ok (), k0)" "cpu_init k0 = k1" "heap_up env bi off k1 = (Ok fa, k2)"
    and 2: "acpi_ecam_init env bi off (driver_init off (k2\<lparr>k_dma := init_frame_allocator fa (k_dma k2)\<rparr>)) = (Ok (), k3)"
      "enumerate_devices env k3 = (Ok (), k')"
    by (simp add: kernel_init_def sbind_Ok_iff Let_def) blast
  have "k_machine k0 = k_machine k" using 1(1) by (auto simp: screen_init_def split: result.splits)
  then have "k_machine k1 = k_machine k" using 1(2) by (auto simp: cpu_init_def Let_def)
  moreover have "k_dma k3 = init_frame_allocator fa (k_dma k2)"
    using 2(1) by (auto simp: acpi_ecam_init_def driver_init_def split: result.splits)
  then have "frame_alloc (k_dma k') = Some fa"
    using 2(2) by (auto simp: enumerate_devices_def init_frame_allocator_def split: prod.splits)
  moreover from 1(3) obtain m where "map_pages (phys_frame env) (map_to env) heap_pages
      (memory_init env off, boot_frames env bi k1) = (Ok (), m, fa)"
    by (auto simp: heap_up_def init_heap_def res_simps split: result.splits prod.splits)
  ultimately show ?thesis using that bootable_cong(2) [of k1 k env bi] by metis
qed

text \<open>
  C36: once the kernel is up, on a memory map in ascending order, whatever DMA buffers are then asked for, each begins at or above
  the end of the window of the heap, although both allocators begin at 32 MiB, and no two begin at the same address; the page at
  its beginning lies in usable memory, and with it the whole of a buffer of one page. (A longer buffer goes on past
  that page whatever the memory map says.) With the offset 0 of the boot loader none is a heap address.
\<close>

theorem dma_clear_of_heap_window:
  assumes "page_mapper (map_to env) mapping" "frame_spec (phys_frame env)"
    and "ascending_map (memory_map (boot_frames env bi k))"
    and "kernel_init env bi k = (Ok (), k')"
  shows "distinct (map dma_phys (dma_buffers (phys_frame env) off requests (k_dma k')))
     \<and> (\<forall>buf \<in> set (dma_buffers (phys_frame env) off requests (k_dma k')).
          HEAP_START + HEAP_SIZE \<le> unat (dma_phys buf) \<and> dma_virt buf = dma_phys buf + off
        \<and> in_usable (memory_map (boot_frames env bi k)) (unat (dma_phys buf)))"
proof -
  obtain fa o1 m where fa: "frame_alloc (k_dma k') = Some fa"
      "map_pages (phys_frame env) (map_to env) heap_pages (memory_init env o1, boot_frames env bi k) = (Ok (), m, fa)"
    by (rule kernel_init_frames [OF assms(4)])
  have pa: "page_aligned_map (memory_map (boot_frames env bi k))" using assms(3) by (simp add: ascending_map_def)
  then have mm: "memory_map fa = memory_map (boot_frames env bi k)" "4096 \<le> fa_next fa"
    using page_mapper.map_pages_takes [OF assms(1,2) _ fa(2)] aligned_map_addressable(1) by auto
  show ?thesis
    using dma_buffers_apart [OF assms(2) fa(1), of off requests] dma_buffers_above [OF assms(2) fa(1), of _ off requests] assms(3) pa mm
    by simp
qed

section \<open>The installer maps no registers\<close>

lemma ahci_window_new:
  "k_registry k = None \<Longrightarrow> k_mapper k = Some m \<Longrightarrow> ahci_window env fa k = (Ok fa, k\<lparr>k_registry := Some registry_new\<rparr>)"
  by (simp add: ahci_window_def device_registry_def by_type_def registry_new_def Let_def)

lemma acpi_ecam_init_mapper: "k_mapper (snd (acpi_ecam_init env bi off k)) = k_mapper k"
  by (simp add: acpi_ecam_init_def split: result.split)

text \<open>
  C37: \<open>init\<close> of the installer looks for the AHCI controller whose registers it means to map before the PCI bus has been
  enumerated. The registry is still empty then, so whatever devices the machine has and however the rest ends, the page
  tables differ from those of the boot loader in the pages of the heap only.
\<close>

theorem installer_maps_only_the_heap:
  assumes "page_mapper (map_to env) mapping" "frame_spec (phys_frame env)" "bootable env mapping bi k" "k_registry k = None"
    and "installer_init env bi k = (r, k')"
  shows "\<exists>m. k_mapper k' = Some m
     \<and> (\<forall>p. p \<notin> set heap_pages \<longrightarrow> mapping m p = mapping (memory_init env (physical_memory_offset bi)) p)"
proof -
  let ?off = "physical_memory_offset bi"
  obtain m fa where h: "heap_up env bi ?off k
        = (Ok fa, k\<lparr>k_heap := fsb_init (fallback_init env) (k_heap k) HEAP_START HEAP_SIZE, k_mapper := Some m\<rparr>)"
      "heap_mapped (mapping (memory_init env ?off)) (mapping m) (memory_map (boot_frames env bi k))"
    using heap_up_ok [OF assms(1-3)] by blast
  let ?k = "k\<lparr>k_heap := fsb_init (fallback_init env) (k_heap k) HEAP_START HEAP_SIZE, k_mapper := Some m\<rparr>"
  have w: "ahci_window env fa ?k = (Ok fa, ?k\<lparr>k_registry := Some registry_new\<rparr>)"
    by (rule ahci_window_new) (use assms(4) in simp_all)
  have va: "virt_addr env ?off = Ok ?off" using assms(3) by (simp add: bootable_def Let_def)
  define k2 where "k2 = driver_init ?off (?k\<lparr>k_registry := Some registry_new, k_dma := init_frame_allocator fa (k_dma k)\<rparr>)"
  obtain r3 k3 where a: "acpi_ecam_init env bi ?off k2 = (r3, k3)" by fastforce
  then have "k_mapper k3 = Some m"
    using acpi_ecam_init_mapper [of env bi ?off k2] by (simp add: k2_def driver_init_def)
  moreover have "k_mapper k' = k_mapper k3"
    using assms(5) by (cases r3) (auto simp: installer_init_def va h(1) w Let_def k2_def [symmetric] a split: option.splits prod.splits)
  ultimately show ?thesis using h(2) by (simp add: heap_mapped_def)
qed

section \<open>A machine\<close>

text \<open>One region of usable memory up to 112 MiB, a small screen, and the PCI function of \<open>sample_ecam\<close>.\<close>

definition sample_env :: "(nat \<Rightarrow> nat option, unit, u64 \<Rightarrow> u32, unit, unit, unit) boot_env" where
  "sample_env =
     \<lparr>virt_addr = Ok, phys_frame = page_of, cr3 = 0x70000, offset_page_table = (\<lambda>_ _. Map.empty), map_to = table_map_to,
      fallback_init = (\<lambda>h _ _. h),
      acpi_tables = \<lparr>from_rsdp = (\<lambda>_ _. Some ()), pci_regions = Some, physical_address = (\<lambda>_ _ _ _ _. Some 0xB0000000)\<rparr>,
      cfg = sample_ops, hardware = \<lparr>mm_off = 0, mm_rd = (\<lambda>_ _ _. 0), mm_wr = (\<lambda>_ _ _ m. m), mm_tick = (\<lambda>m. m)\<rparr>\<rparr>"

definition sample_boot :: BootInfo where
  "sample_boot = \<lparr>physical_memory_offset = 0, bi_memory_map = 0x5000, memory_map_len = 1, bi_framebuffer = small_screen,
     rsdp_addr = 0xE0000, fat32_partition_lba = 0, boot_disk = 0\<rparr>"

definition sample_kernel :: "(nat \<Rightarrow> nat option, unit, u64 \<Rightarrow> u32, unit, rstr) Kernel" where
  "sample_kernel =
     \<lparr>k_console = \<lparr>screen_writer = None, screen_locked = False, interrupt_log = [], interrupts_enabled = False\<rparr>,
      k_cpu = \<lparr>gdt_loaded = False, idt_loaded = None, pic_masks = None\<rparr>, k_mapper = None, k_heap = fsb_new (),
      k_dma = \<lparr>frame_alloc = None, alloc_tracker = []\<rparr>, k_phys_offset = None, k_dma_offset = None,
      k_ecam = sample_ecam, k_registry = None,
      k_machine = \<lparr>ram = (\<lambda>_. 0)(0x500B := 7, 0x5010 := 1), hw = ()\<rparr>, k_guids = 1\<rparr>"

lemma sample_frames:
  "memory_map (boot_frames sample_env sample_boot sample_kernel) = [\<lparr>mr_start = 0, mr_end = 0x7000000, mr_kind = Usable\<rparr>]"
  by (simp add: boot_frames_def init_from_raw_def sample_boot_def sample_env_def sample_kernel_def mem_read_def region_kind_def
        upt_conv_Cons)

lemma sample_map:
  "length (usable_addresses [\<lparr>mr_start = 0, mr_end = 0x7000000, mr_kind = Usable\<rparr>]) = 20480"
  "ascending_map [\<lparr>mr_start = 0, mr_end = 0x7000000, mr_kind = Usable\<rparr>]"
  by (simp_all add: usable_addresses_def region_pages_def ALLOC_START_def max_def Let_def ascending_map_def page_aligned_map_def)

lemma sample_bootable: "bootable sample_env (\<lambda>m. m) sample_boot sample_kernel"
  using sample_map by (simp add: bootable_def Let_def sample_frames ascending_map_def)
    (simp add: sample_env_def memory_init_def)

lemma sample_mapper: "page_mapper (map_to sample_env) (\<lambda>m. m)" "frame_spec (phys_frame sample_env)"
  using tm.page_mapper_axioms frame_spec_page_of by (simp_all add: sample_env_def)

lemma sample_screen:
  "wf_writer (writer_new (cpu_rd (hardware sample_env) (k_machine sample_kernel) (fb_addr (bi_framebuffer sample_boot))
     (unat (fb_size (bi_framebuffer sample_boot)))) (bi_framebuffer sample_boot))"
  by (simp add: wf_writer_def writer_new_def cpu_rd_def sample_boot_def small_screen_def)

lemma sample_acpi:
  "init_from_rsdp (acpi_tables sample_env) (rsdp_addr sample_boot) (physical_memory_offset sample_boot)
     = Ok \<lparr>ai_ecam_base = 0xB0000000, ai_phys_offset = 0\<rparr>"
  "init_ecam 0xB0000000 0 (k_ecam sample_kernel) = sample_ecam"
  by (simp_all add: init_from_rsdp_def sample_env_def sample_boot_def sample_kernel_def init_ecam_def sample_ecam_def)

theorem installer_maps_only_the_heap_witness:
  "\<exists>m. k_mapper (snd (installer_init sample_env sample_boot sample_kernel)) = Some m \<and> m 0xFEBF0000 = None"
proof -
  obtain r k' where i: "installer_init sample_env sample_boot sample_kernel = (r, k')" by fastforce
  have n: "k_registry sample_kernel = None" by (simp add: sample_kernel_def)
  have "0xFEBF0000 \<notin> set heap_pages" by (auto simp: heap_pages_def HEAP_START_def HEAP_SIZE_def)
  then show ?thesis
    using installer_maps_only_the_heap [OF sample_mapper sample_bootable n i] i
    by (auto simp: memory_init_def sample_env_def)
qed

lemmas sample_machine = sample_mapper sample_bootable sample_screen sample_acpi(1)

lemma sample_misc:
  "ai_ecam_base \<lparr>ai_ecam_base = 0xB0000000, ai_phys_offset = 0\<rparr> \<noteq> 0"
  "sample_ecam = init_ecam (ai_ecam_base \<lparr>ai_ecam_base = 0xB0000000, ai_phys_offset = 0\<rparr>)
     (ai_phys_offset \<lparr>ai_ecam_base = 0xB0000000, ai_phys_offset = 0\<rparr>) (k_ecam sample_kernel)"
  "config_space (cfg sample_env) (bar_registers sample_ecam) (\<lambda>_. NOT 0xFFF)" "k_registry sample_kernel = None"
  using sample_acpi(2) sample_config_space by (simp_all add: sample_env_def sample_kernel_def)

theorem kernel_starts_shell_witness:
  "\<exists>k' m sys'. kernel_start sample_env list_queue sample_boot (7 :: nat)
       (sample_kernel, boot_system cell_waker list_queue :: (nat, nat \<times> TaskId list, nat \<times> u8 list, TaskId option) System)
       = (Ok (), k', sys')
     \<and> tasks (executor sys') = [(0, 7)] \<and> k_mapper k' = Some m \<and> m 0x2000000 \<noteq> None
     \<and> get_by_name (device_registry k') (pci_device_name (address 0 3 0)) \<noteq> None"
proof -
  let ?sys = "boot_system cell_waker list_queue :: (nat, nat \<times> TaskId list, nat \<times> u8 list, TaskId option) System"
  obtain k' m sys' where k': "kernel_start sample_env list_queue sample_boot 7 (sample_kernel, ?sys) = (Ok (), k', sys')"
      "tasks (executor sys') = [(NEXT_ID ?sys, 7)]" "k_mapper k' = Some m"
    and h: "heap_mapped (memory_init sample_env (physical_memory_offset sample_boot)) m
        (memory_map (boot_frames sample_env sample_boot sample_kernel))"
    and f: "functions_registered (cfg sample_env) sample_ecam (device_registry k')"
    using kernel_starts_shell [OF sample_machine sample_misc lq.array_queue_axioms, of "7 :: nat" ?sys] by blast
  have "0x2000000 \<in> set heap_pages" by (auto simp: heap_pages_def HEAP_START_def HEAP_SIZE_def)
  then have "m 0x2000000 \<noteq> None" using h by (auto simp: heap_mapped_def)
  moreover have "get_by_name (device_registry k') (pci_device_name (address 0 3 0)) \<noteq> None"
    using f sample_present(1) unfolding functions_registered_def by (simp add: sample_env_def)
  ultimately show ?thesis using k' by (simp add: boot_system_def)
qed

theorem dma_clear_of_heap_window_witness:
  "\<exists>k' buf. kernel_init sample_env sample_boot sample_kernel = (Ok (), k')
     \<and> dma_buffers page_of 0 [(4096, 4096)] (k_dma k') = [buf] \<and> 0x3000000 \<le> unat (dma_virt buf)
     \<and> in_usable [\<lparr>mr_start = 0, mr_end = 0x7000000, mr_kind = Usable\<rparr>] (unat (dma_phys buf))"
proof -
  obtain k' m fa where k': "kernel_init sample_env sample_boot sample_kernel = (Ok (), k')" "frame_alloc (k_dma k') = Some fa"
      "memory_map fa = [\<lparr>mr_start = 0, mr_end = 0x7000000, mr_kind = Usable\<rparr>]" "fa_next fa \<le> 16384"
    using kernel_init_ok [OF sample_machine sample_misc] unfolding sample_frames by blast
  let ?rs = "[\<lparr>mr_start = 0, mr_end = 0x7000000, mr_kind = Usable\<rparr>] :: MemoryRegion list"
  have al: "page_aligned_map ?rs" using sample_map(2) by (simp add: ascending_map_def)
  have pf: "phys_frame sample_env = page_of" by (simp add: sample_env_def)
  have "addressable (memory_map fa)" "length (frame_list (memory_map fa)) = 20480"
    using aligned_map_addressable [OF al] sample_map(1) k'(3) by simp_all
  then obtain buf s' where b: "dma_alloc page_of 0 (k_dma k') 4096 4096 = (Ok (Some buf), s')"
    using dma_alloc_value [OF frame_spec_page_of k'(2), of 4096 0 4096] k'(4) by auto
  have bs: "dma_buffers page_of 0 [(4096, 4096)] (k_dma k') = [buf]" by (simp add: b)
  have rs: "memory_map (boot_frames sample_env sample_boot sample_kernel) = ?rs" by (simp add: sample_frames)
  have "ascending_map (memory_map (boot_frames sample_env sample_boot sample_kernel))"
    using sample_map(2) by (simp add: sample_frames)
  from dma_clear_of_heap_window [OF sample_mapper this k'(1), of 0 "[(4096, 4096)]", unfolded pf bs rs] k'(1) bs show ?thesis
    by (auto simp: HEAP_START_def HEAP_SIZE_def)
qed

end
