(* ===== verification/Shell.thy ===== *)
theory Shell
  imports BTreeMap
begin

text \<open>
  The shell (\<^verbatim>\<open>src/kernel/src/task/shell\<close>): the tokenizer and the pipeline parser, the history, the line editor, the
  commands, and the argument parsing that the \<open>#[command]\<close> attribute generates (\<^verbatim>\<open>src/lib/macros/src/lib.rs\<close>). The
  bounded vectors and strings of the crate \<open>heapless\<close> are parameters with the contracts \<open>heapless_vec\<close> and
  \<open>heapless_string\<close>; the keyboard decoder and the upper-case mapping of Unicode are parameters.
\<close>

section \<open>Bounded vectors and strings\<close>

record ('v, 'a) hvec_ops =
  hv_new :: 'v
  hv_push :: "'v \<Rightarrow> 'a \<Rightarrow> bool \<times> 'v"
  hv_items :: "'v \<Rightarrow> 'a list"

locale heapless_vec =
  fixes vo :: "('v, 'a) hvec_ops" and capacity :: nat
  assumes new_items: "hv_items vo (hv_new vo) = []"
    and push_items: "length (hv_items vo v) < capacity \<Longrightarrow> fst (hv_push vo v x) \<and> hv_items vo (snd (hv_push vo v x)) = hv_items vo v @ [x]"
    and push_refused: "capacity \<le> length (hv_items vo v) \<Longrightarrow> \<not> fst (hv_push vo v x) \<and> hv_items vo (snd (hv_push vo v x)) = hv_items vo v"
begin

lemma push_snd: "hv_items vo (snd (hv_push vo v x)) = (if length (hv_items vo v) < capacity then hv_items vo v @ [x] else hv_items vo v)"
  using push_items [of v x] push_refused [of v x] by auto

end

definition list_vec :: "nat \<Rightarrow> ('a list, 'a) hvec_ops" where
  "list_vec n = \<lparr>hv_new = [], hv_push = (\<lambda>v x. if length v < n then (True, v @ [x]) else (False, v)), hv_items = (\<lambda>v. v)\<rparr>"

interpretation lv: heapless_vec "list_vec n" n for n
  by unfold_locales (auto simp: list_vec_def)

text \<open>\<open>heapless::String<128>\<close>: \<open>push\<close> and \<open>push_str\<close> refuse what does not fit.\<close>

record 's hstr_ops =
  hs_new :: 's
  hs_push :: "'s \<Rightarrow> rchar \<Rightarrow> bool \<times> 's"
  hs_push_str :: "'s \<Rightarrow> rstr \<Rightarrow> bool \<times> 's"
  hs_pop :: "'s \<Rightarrow> rchar option \<times> 's"
  hs_clear :: "'s \<Rightarrow> 's"
  hs_text :: "'s \<Rightarrow> rstr"

locale heapless_string =
  fixes ho :: "'s hstr_ops" and bytes :: nat
  assumes new_text: "hs_text ho (hs_new ho) = []"
    and clear_text: "hs_text ho (hs_clear ho s) = []"
    and push_text: "str_len (hs_text ho s) + utf8_width c \<le> bytes \<Longrightarrow>
      fst (hs_push ho s c) \<and> hs_text ho (snd (hs_push ho s c)) = hs_text ho s @ [c]"
    and push_no_room: "bytes < str_len (hs_text ho s) + utf8_width c \<Longrightarrow>
      \<not> fst (hs_push ho s c) \<and> hs_text ho (snd (hs_push ho s c)) = hs_text ho s"
    and push_str_text: "str_len (hs_text ho s) + str_len t \<le> bytes \<Longrightarrow>
      fst (hs_push_str ho s t) \<and> hs_text ho (snd (hs_push_str ho s t)) = hs_text ho s @ t"
    and push_str_no_room: "bytes < str_len (hs_text ho s) + str_len t \<Longrightarrow>
      \<not> fst (hs_push_str ho s t) \<and> hs_text ho (snd (hs_push_str ho s t)) = hs_text ho s"
    and pop_text: "fst (hs_pop ho s) = (if hs_text ho s = [] then None else Some (last (hs_text ho s)))"
      "hs_text ho (snd (hs_pop ho s)) = butlast (hs_text ho s)"

definition list_string :: "nat \<Rightarrow> rstr hstr_ops" where
  "list_string n =
     \<lparr>hs_new = [],
      hs_push = (\<lambda>s c. if str_len s + utf8_width c \<le> n then (True, s @ [c]) else (False, s)),
      hs_push_str = (\<lambda>s t. if str_len s + str_len t \<le> n then (True, s @ t) else (False, s)),
      hs_pop = (\<lambda>s. (if s = [] then None else Some (last s), butlast s)),
      hs_clear = (\<lambda>_. []), hs_text = (\<lambda>s. s)\<rparr>"

interpretation ls: heapless_string "list_string n" n for n
  by unfold_locales (auto simp: list_string_def)

section \<open>Tokens and pipelines\<close>

datatype Token = Word rstr | Pipe

function tokenize_loop :: "('tv, Token) hvec_ops \<Rightarrow> rstr \<Rightarrow> 'tv \<Rightarrow> 'tv" where
  "tokenize_loop vo [] tokens = tokens"
| "tokenize_loop vo (c # cs) tokens =
     (if c = 32 then tokenize_loop vo cs tokens
      else if c = 124 then tokenize_loop vo cs (snd (hv_push vo tokens Pipe))
      else if c = 34 then
        tokenize_loop vo (drop 1 (dropWhile (\<lambda>c2. c2 \<noteq> 34) cs)) (snd (hv_push vo tokens (Word (takeWhile (\<lambda>c2. c2 \<noteq> 34) cs))))
      else
        tokenize_loop vo (dropWhile (\<lambda>c2. c2 \<noteq> 32 \<and> c2 \<noteq> 124) (c # cs))
          (snd (hv_push vo tokens (Word (takeWhile (\<lambda>c2. c2 \<noteq> 32 \<and> c2 \<noteq> 124) (c # cs))))))"
  by pat_completeness auto
termination
  by (relation "measure (\<lambda>(_, cs, _). length cs)")
    (auto simp: less_Suc_eq_le intro: order_trans [OF diff_le_self length_dropWhile_le] length_dropWhile_le)

definition tokenize :: "('tv, Token) hvec_ops \<Rightarrow> rstr \<Rightarrow> 'tv" where
  "tokenize vo input = tokenize_loop vo input (hv_new vo)"

record 'av Command =
  cmd_name :: rstr
  cmd_args :: 'av

definition empty_command :: "('av, rstr) hvec_ops \<Rightarrow> 'av Command" where
  "empty_command ao = \<lparr>cmd_name = [], cmd_args = hv_new ao\<rparr>"

fun parse_loop ::
    "('cv, 'av Command) hvec_ops \<Rightarrow> ('av, rstr) hvec_ops \<Rightarrow> Token list \<Rightarrow> 'cv \<Rightarrow> 'av Command \<Rightarrow> 'cv \<times> 'av Command" where
  "parse_loop co ao [] cmds current = (cmds, current)"
| "parse_loop co ao (Word w # ts) cmds current =
     (if cmd_name current = [] then parse_loop co ao ts cmds (current\<lparr>cmd_name := w\<rparr>)
      else parse_loop co ao ts cmds (current\<lparr>cmd_args := snd (hv_push ao (cmd_args current) w)\<rparr>))"
| "parse_loop co ao (Pipe # ts) cmds current = parse_loop co ao ts (snd (hv_push co cmds current)) (empty_command ao)"

definition parse_pipeline :: "('cv, 'av Command) hvec_ops \<Rightarrow> ('av, rstr) hvec_ops \<Rightarrow> Token list \<Rightarrow> 'cv" where
  "parse_pipeline co ao tokens =
     (case parse_loop co ao tokens (hv_new co) (empty_command ao) of
        (cmds, current) \<Rightarrow> if cmd_name current \<noteq> [] then snd (hv_push co cmds current) else cmds)"

section \<open>History\<close>

record ('hv) History =
  entries :: 'hv
  hist_index :: nat

definition history_new :: "('hv, 's) hvec_ops \<Rightarrow> 'hv History" where
  "history_new vo = \<lparr>entries = hv_new vo, hist_index = 0\<rparr>"

text \<open>\<open>String::try_from(line)\<close> fails when the line does not fit; a full history drops the line.\<close>

definition history_push :: "('hv, 's) hvec_ops \<Rightarrow> 's hstr_ops \<Rightarrow> rstr \<Rightarrow> 'hv History \<Rightarrow> 'hv History" where
  "history_push vo ho line h =
     (case hs_push_str ho (hs_new ho) line of
        (False, _) \<Rightarrow> h
      | (True, s) \<Rightarrow>
          (case hv_push vo (entries h) s of
             (True, v) \<Rightarrow> \<lparr>entries = v, hist_index = length (hv_items vo v)\<rparr>
           | (False, v) \<Rightarrow> h\<lparr>entries := v\<rparr>))"

definition history_up :: "('hv, 's) hvec_ops \<Rightarrow> 's hstr_ops \<Rightarrow> 'hv History \<Rightarrow> (rstr option, unit) result \<times> 'hv History" where
  "history_up vo ho h =
     (if 0 < hist_index h then
        (let i = hist_index h - 1 in
         (rbind (index_r (hv_items vo (entries h)) i) (\<lambda>s. Ok (Some (hs_text ho s))), h\<lparr>hist_index := i\<rparr>))
      else (Ok None, h))"

definition history_down :: "('hv, 's) hvec_ops \<Rightarrow> 's hstr_ops \<Rightarrow> 'hv History \<Rightarrow> (rstr option, unit) result \<times> 'hv History" where
  "history_down vo ho h =
     (if hist_index h + 1 < length (hv_items vo (entries h)) then
        (let i = hist_index h + 1 in
         (rbind (index_r (hv_items vo (entries h)) i) (\<lambda>s. Ok (Some (hs_text ho s))), h\<lparr>hist_index := i\<rparr>))
      else (Ok None, h))"

section \<open>Commands\<close>

text \<open>
  What a parameter of a command function is to the generated wrapper: a flag \<open>--name\<close>, an optional or a
  required positional argument of type \<open>String\<close> or \<open>usize\<close>.
\<close>

datatype arg_type = TString | TUsize
datatype param = is_Flag: Flag rstr | Optional arg_type | Required rstr arg_type
datatype arg_value = BoolV bool | StrV rstr | UsizeV u64 | NoneV

text \<open>\<open>str::parse::<usize>\<close>\<close>

definition parse_usize :: "rstr \<Rightarrow> u64 option" where
  "parse_usize s =
     (let ds = (if 1 < length s \<and> hd s = 43 then tl s else s) in
      if ds = [] \<or> \<not> list_all (\<lambda>c. 48 \<le> c \<and> c \<le> 57) ds then None
      else let n = foldl (\<lambda>a c. a * 10 + (c - 48)) 0 ds in if n < 2 ^ 64 then Some (of_nat n) else None)"

fun parse_arg :: "arg_type \<Rightarrow> rstr \<Rightarrow> arg_value option" where
  "parse_arg TString s = Some (StrV s)"
| "parse_arg TUsize s = map_option UsizeV (parse_usize s)"

text \<open>The statements the attribute puts in front of the body, in the order of the parameters; \<open>Err\<close> names the argument that is missing.\<close>

fun bind_params :: "param list \<Rightarrow> rstr list \<Rightarrow> rstr list \<Rightarrow> (arg_value list, rstr) result" where
  "bind_params [] args rest = Ok []"
| "bind_params (Flag name # ps) args rest =
     rbind (bind_params ps args rest) (\<lambda>vs. Ok (BoolV (str ''--'' @ name \<in> set args) # vs))"
| "bind_params (Optional ty # ps) args rest =
     (let v = (case rest of [] \<Rightarrow> NoneV | s # _ \<Rightarrow> (case parse_arg ty s of Some v \<Rightarrow> v | None \<Rightarrow> NoneV))
      in rbind (bind_params ps args (drop 1 rest)) (\<lambda>vs. Ok (v # vs)))"
| "bind_params (Required name ty # ps) args rest =
     (case rest of
        [] \<Rightarrow> Err name
      | s # rest' \<Rightarrow>
          (case parse_arg ty s of None \<Rightarrow> Err name | Some v \<Rightarrow> rbind (bind_params ps args rest') (\<lambda>vs. Ok (v # vs))))"

text \<open>What a command does, in order: print a text, sleep for some ticks.\<close>

datatype action = Print rstr | SleepTicks u64

definition println :: "rstr \<Rightarrow> action list" where
  "println s = [Print (s @ [10])]"

definition with_args :: "param list \<Rightarrow> (arg_value list \<Rightarrow> action list) \<Rightarrow> rstr list \<Rightarrow> action list" where
  "with_args ps body args =
     (case bind_params ps args (filter (\<lambda>a. take 2 a \<noteq> str ''--'') args) of
        Ok vs \<Rightarrow> body vs
      | Err name \<Rightarrow> println (str ''Missing or invalid argument: '' @ name)
      | Panic \<Rightarrow> [])"

definition resolve_path :: "rstr \<Rightarrow> rstr \<Rightarrow> rstr" where
  "resolve_path current path =
     (if path \<noteq> [] \<and> hd path = 47 then path
      else if path = str ''.'' then current
      else if path = str ''..'' then
        (if current = str ''/'' then str ''/''
         else let parts = str_split 47 (rev (dropWhile ((=) 47) (rev current))) in
              if length parts \<le> 1 then str ''/'' else concat (case butlast parts of [] \<Rightarrow> [] | p # ps \<Rightarrow> p # map (\<lambda>p. 47 # p) ps))
      else if current = str ''/'' then str ''/'' @ path else current @ str ''/'' @ path)"

definition change_dir :: "rstr \<Rightarrow> (unit, rstr) result" where
  "change_dir path = Err (str ''change_dir failed'')"

definition open_current_dir :: "('f, rstr) result" where
  "open_current_dir = Err (str ''open_current_dir failed'')"

definition list_current_dir :: "(rstr list, rstr) result" where
  "list_current_dir = Err (str ''list_current_dir failed'')"

definition cmd_cd :: "rstr list \<Rightarrow> action list" where
  "cmd_cd = with_args [Required (str ''path'') TString] (\<lambda>vs.
     case vs of [StrV path] \<Rightarrow> (case change_dir path of Err e \<Rightarrow> println (str ''cd: '' @ e) | _ \<Rightarrow> []) | _ \<Rightarrow> [])"

definition cmd_echo :: "(rstr \<Rightarrow> rstr) \<Rightarrow> rstr list \<Rightarrow> action list" where
  "cmd_echo to_uppercase = with_args [Required (str ''text'') TString, Flag (str ''upper'')] (\<lambda>vs.
     case vs of [StrV s, BoolV upper] \<Rightarrow> println (if upper then to_uppercase s else s) | _ \<Rightarrow> [])"

definition cmd_help :: "rstr list \<Rightarrow> rstr list \<Rightarrow> action list" where
  "cmd_help names = with_args [] (\<lambda>_. concat (map (\<lambda>name. println (str ''  '' @ name)) names))"

definition cmd_ls :: "rstr list \<Rightarrow> action list" where
  "cmd_ls = with_args [Optional TString] (\<lambda>_. [])"

definition cmd_mkdir :: "rstr list \<Rightarrow> action list" where
  "cmd_mkdir = with_args [Required (str ''_dirname'') TString] (\<lambda>_. [])"

definition cmd_touch :: "rstr list \<Rightarrow> action list" where
  "cmd_touch = with_args [Required (str ''_filename'') TString] (\<lambda>_. [])"

definition cmd_pwd :: "rstr \<Rightarrow> rstr list \<Rightarrow> action list" where
  "cmd_pwd current = with_args [] (\<lambda>_. println current)"

definition cmd_sleep :: "rstr list \<Rightarrow> action list" where
  "cmd_sleep = with_args [Optional TUsize] (\<lambda>vs. case vs of [UsizeV t] \<Rightarrow> [SleepTicks t] | _ \<Rightarrow> [])"

text \<open>\<open>func\<close> of an entry also gets what the commands read: the names of all commands and the current path.\<close>

record CommandEntry =
  ce_name :: rstr
  ce_short :: rstr
  ce_long :: rstr
  ce_func :: "rstr list \<Rightarrow> rstr \<Rightarrow> rstr list \<Rightarrow> action list"

text \<open>\<open>init_commands\<close> inserts the entries of the linker section, in whatever order the linker put them.\<close>

fun init_commands :: "CommandEntry list \<Rightarrow> (rstr, CommandEntry) btree \<Rightarrow> (rstr, CommandEntry) btree" where
  "init_commands [] m = m"
| "init_commands (e # es) m = init_commands es (bt_insert (ce_name e) e m)"

definition command_section :: "(rstr \<Rightarrow> rstr) \<Rightarrow> CommandEntry list" where
  "command_section to_uppercase =
     [\<lparr>ce_name = str ''cd'', ce_short = str ''Change directory'',
       ce_long = str ''Change current working directory. Usage: cd <path>'', ce_func = (\<lambda>_ _. cmd_cd)\<rparr>,
      \<lparr>ce_name = str ''echo'', ce_short = str ''Print text'',
       ce_long = str ''Prints the given text to the screen'', ce_func = (\<lambda>_ _. cmd_echo to_uppercase)\<rparr>,
      \<lparr>ce_name = str ''help'', ce_short = str ''List commands'',
       ce_long = str ''Lists all available shell commands'', ce_func = (\<lambda>names _. cmd_help names)\<rparr>,
      \<lparr>ce_name = str ''ls'', ce_short = str ''List directory contents'',
       ce_long = str ''List files and directories. Usage: ls [path]'', ce_func = (\<lambda>_ _. cmd_ls)\<rparr>,
      \<lparr>ce_name = str ''mkdir'', ce_short = str ''Create directory'',
       ce_long = str ''Create a new directory. Usage: mkdir <dirname>'', ce_func = (\<lambda>_ _. cmd_mkdir)\<rparr>,
      \<lparr>ce_name = str ''pwd'', ce_short = str ''Print working directory'',
       ce_long = str ''Print current directory path'', ce_func = (\<lambda>_ current. cmd_pwd current)\<rparr>,
      \<lparr>ce_name = str ''sleep'', ce_short = str ''Sleep for N ticks'',
       ce_long = str ''Pauses the shell for the given number of ticks'', ce_func = (\<lambda>_ _. cmd_sleep)\<rparr>,
      \<lparr>ce_name = str ''touch'', ce_short = str ''Create empty file'',
       ce_long = str ''Create a new empty file. Usage: touch <filename>'', ce_func = (\<lambda>_ _. cmd_touch)\<rparr>]"

fun execute_pipeline ::
    "(rstr, CommandEntry) btree \<Rightarrow> rstr \<Rightarrow> ('av, rstr) hvec_ops \<Rightarrow> 'av Command list \<Rightarrow> action list" where
  "execute_pipeline commands current ao [] = []"
| "execute_pipeline commands current ao (cmd # cmds) =
     (case bt_get commands (cmd_name cmd) of
        Some entry \<Rightarrow> ce_func entry (map fst commands) current (hv_items ao (cmd_args cmd))
      | None \<Rightarrow> println (str ''Unknown command: '' @ cmd_name cmd))
     @ execute_pipeline commands current ao cmds"

section \<open>The line editor\<close>

text \<open>\<open>str::replace\<close> for a pattern that is not empty.\<close>

function str_replace :: "rstr \<Rightarrow> rstr \<Rightarrow> rstr \<Rightarrow> rstr" where
  "str_replace pat rep [] = []"
| "str_replace pat rep (c # cs) =
     (if pat \<noteq> [] \<and> take (length pat) (c # cs) = pat then rep @ str_replace pat rep (drop (length pat) (c # cs))
      else c # str_replace pat rep cs)"
  by pat_completeness auto
termination
  by (relation "measure (\<lambda>(_, _, s). length s)") (auto simp: drop_Cons' intro: le_imp_less_Suc)

datatype key = Unicode rchar | KeyBackspace | KeyUp | KeyDown | OtherKey

record ('tv, 'cv, 'av, 'hv, 's) shell_env =
  token_ops :: "('tv, Token) hvec_ops"
  command_ops :: "('cv, 'av Command) hvec_ops"
  arg_ops :: "('av, rstr) hvec_ops"
  history_ops :: "('hv, 's) hvec_ops"
  line_ops :: "'s hstr_ops"
  command_map :: "(rstr, CommandEntry) btree"

record ('hv, 's) Shell =
  current_path :: rstr
  prompt_prefix :: rstr
  line :: 's
  history :: "'hv History"
  out :: "action list"

definition get_prompt :: "rstr \<Rightarrow> rstr" where
  "get_prompt path = path @ str ''> ''"

definition shell_start :: "('tv, 'cv, 'av, 'hv, 's) shell_env \<Rightarrow> ('hv, 's) Shell" where
  "shell_start env =
     \<lparr>current_path = str ''/'', prompt_prefix = get_prompt (str ''/''), line = hs_new (line_ops env),
      history = history_new (history_ops env), out = [Print (get_prompt (str ''/''))]\<rparr>"

definition clear_line :: "rstr \<Rightarrow> action list" where
  "clear_line l = replicate (str_len l) (Print [8, 32, 8])"

definition enter_line :: "('tv, 'cv, 'av, 'hv, 's) shell_env \<Rightarrow> ('hv, 's) Shell \<Rightarrow> ('hv, 's) Shell" where
  "enter_line env sh =
     (let l = hs_text (line_ops env) (line sh);
          token_line = str_replace (prompt_prefix sh) [10] l;
          tokens = hv_items (token_ops env) (tokenize (token_ops env) token_line);
          cmds = hv_items (command_ops env) (parse_pipeline (command_ops env) (arg_ops env) tokens)
      in sh\<lparr>history := history_push (history_ops env) (line_ops env) l (history sh),
            line := hs_clear (line_ops env) (line sh),
            out := out sh @ [Print [10]] @ execute_pipeline (command_map env) (current_path sh) (arg_ops env) cmds
                     @ [Print (get_prompt (current_path sh))]\<rparr>)"

text \<open>Put an entry of the history into the line.\<close>

definition recall_line :: "('tv, 'cv, 'av, 'hv, 's) shell_env \<Rightarrow> rstr \<Rightarrow> ('hv, 's) Shell \<Rightarrow> ('hv, 's) Shell" where
  "recall_line env entry sh =
     (let l = snd (hs_push_str (line_ops env) (hs_clear (line_ops env) (line sh)) entry) in
      sh\<lparr>line := l, out := out sh @ clear_line (hs_text (line_ops env) (line sh)) @ [Print (hs_text (line_ops env) l)]\<rparr>)"

definition handle_key :: "('tv, 'cv, 'av, 'hv, 's) shell_env \<Rightarrow> key \<Rightarrow> ('hv, 's) Shell \<Rightarrow> (unit, unit) result \<times> ('hv, 's) Shell" where
  "handle_key env k sh =
     (case k of
        Unicode c \<Rightarrow>
          (if c = 10 then (Ok (), enter_line env sh)
           else case hs_push (line_ops env) (line sh) c of
             (True, l) \<Rightarrow> (Ok (), sh\<lparr>line := l, out := out sh @ [Print [c]]\<rparr>)
           | (False, l) \<Rightarrow> (Ok (), sh\<lparr>line := l\<rparr>))
      | KeyBackspace \<Rightarrow>
          (case hs_pop (line_ops env) (line sh) of
             (Some _, l) \<Rightarrow> (Ok (), sh\<lparr>line := l, out := out sh @ [Print [8, 32, 8]]\<rparr>)
           | (None, l) \<Rightarrow> (Ok (), sh\<lparr>line := l\<rparr>))
      | KeyUp \<Rightarrow>
          (case history_up (history_ops env) (line_ops env) (history sh) of
             (r, h) \<Rightarrow> sbind (r, sh\<lparr>history := h\<rparr>) (\<lambda>prev sh.
               (Ok (), case prev of Some e \<Rightarrow> recall_line env e sh | None \<Rightarrow> sh)))
      | KeyDown \<Rightarrow>
          (case history_down (history_ops env) (line_ops env) (history sh) of
             (r, h) \<Rightarrow> sbind (r, sh\<lparr>history := h\<rparr>) (\<lambda>prev sh.
               (Ok (), case prev of Some e \<Rightarrow> recall_line env e sh | None \<Rightarrow> sh)))
      | OtherKey \<Rightarrow> (Ok (), sh))"

fun handle_keys :: "('tv, 'cv, 'av, 'hv, 's) shell_env \<Rightarrow> key list \<Rightarrow> ('hv, 's) Shell \<Rightarrow> (unit, unit) result \<times> ('hv, 's) Shell" where
  "handle_keys env [] sh = (Ok (), sh)"
| "handle_keys env (k # ks) sh = sbind (handle_key env k sh) (\<lambda>_. handle_keys env ks)"

text \<open>
  The loop of \<open>shell_task\<close> over the scancodes of the stream; \<open>decode\<close> is \<open>add_byte\<close> followed by
  \<open>process_keyevent\<close> of the keyboard crate.
\<close>

fun shell_task ::
    "('kb \<Rightarrow> u8 \<Rightarrow> key option \<times> 'kb) \<Rightarrow> ('tv, 'cv, 'av, 'hv, 's) shell_env \<Rightarrow> u8 list \<Rightarrow> 'kb \<Rightarrow> ('hv, 's) Shell
     \<Rightarrow> (unit, unit) result \<times> ('hv, 's) Shell" where
  "shell_task decode env [] kb sh = (Ok (), sh)"
| "shell_task decode env (code # codes) kb sh =
     (case decode kb code of
        (Some k, kb) \<Rightarrow> sbind (handle_key env k sh) (\<lambda>_. shell_task decode env codes kb)
      | (None, kb) \<Rightarrow> shell_task decode env codes kb sh)"

section \<open>Pipelines print and parse\<close>

definition show_word :: "rstr \<Rightarrow> rstr" where
  "show_word w = 34 # w @ [34, 32]"

fun show_token :: "Token \<Rightarrow> rstr" where
  "show_token (Word w) = show_word w"
| "show_token Pipe = [124]"

fun quotable :: "Token \<Rightarrow> bool" where
  "quotable (Word w) \<longleftrightarrow> 34 \<notin> set w"
| "quotable Pipe \<longleftrightarrow> True"

text \<open>The tokens of a list of commands, each a name with its arguments.\<close>

definition command_tokens :: "rstr \<times> rstr list \<Rightarrow> Token list" where
  "command_tokens c = Word (fst c) # map Word (snd c)"

fun pipeline_tokens :: "(rstr \<times> rstr list) list \<Rightarrow> Token list" where
  "pipeline_tokens [] = []"
| "pipeline_tokens [c] = command_tokens c"
| "pipeline_tokens (c # cs) = command_tokens c @ Pipe # pipeline_tokens cs"

definition show_pipeline :: "(rstr \<times> rstr list) list \<Rightarrow> rstr" where
  "show_pipeline cs = concat (map show_token (pipeline_tokens cs))"

lemma takeWhile_upto: "x \<notin> set w \<Longrightarrow> takeWhile (\<lambda>c. c \<noteq> x) (w @ x # r) = w"
  by (induction w) auto

lemma dropWhile_upto: "x \<notin> set w \<Longrightarrow> dropWhile (\<lambda>c. c \<noteq> x) (w @ x # r) = x # r"
  by (induction w) auto

context heapless_vec
begin

definition push_all :: "'a list \<Rightarrow> 'v \<Rightarrow> 'v" where
  "push_all xs v = fold (\<lambda>x v. snd (hv_push vo v x)) xs v"

lemma push_all_items: "length (hv_items vo v) + length xs \<le> capacity \<Longrightarrow> hv_items vo (push_all xs v) = hv_items vo v @ xs"
  by (induction xs arbitrary: v) (auto simp: push_all_def push_snd)

lemma push_all_simps [simp]: "push_all [] v = v" "push_all (x # xs) v = push_all xs (snd (hv_push vo v x))"
  by (simp_all add: push_all_def)

end

lemma tokenize_shown:
  assumes "heapless_vec vo n" "list_all quotable ts"
  shows "tokenize_loop vo (concat (map show_token ts)) v = heapless_vec.push_all vo ts v"
  using assms(2)
proof (induction ts arbitrary: v)
  case Nil
  then show ?case by (simp add: heapless_vec.push_all_simps [OF assms(1)])
next
  case (Cons t ts)
  then show ?case
    by (cases t) (simp_all add: show_word_def heapless_vec.push_all_simps [OF assms(1)] takeWhile_upto dropWhile_upto)
qed

definition built :: "('av, rstr) hvec_ops \<Rightarrow> rstr \<times> rstr list \<Rightarrow> 'av Command" where
  "built ao c = \<lparr>cmd_name = fst c, cmd_args = heapless_vec.push_all ao (snd c) (hv_new ao)\<rparr>"

lemma parse_words:
  assumes "heapless_vec ao n" "cmd_name current \<noteq> []"
  shows "parse_loop co ao (map Word ws @ ts) cmds current =
     parse_loop co ao ts cmds (current\<lparr>cmd_args := heapless_vec.push_all ao ws (cmd_args current)\<rparr>)"
  using assms(2) by (induction ws arbitrary: current) (simp_all add: heapless_vec.push_all_simps [OF assms(1)])

lemma parse_command:
  assumes "heapless_vec ao n" "fst c \<noteq> []"
  shows "parse_loop co ao (command_tokens c @ ts) cmds (empty_command ao) = parse_loop co ao ts cmds (built ao c)"
  using parse_words [OF assms(1), of "(empty_command ao)\<lparr>cmd_name := fst c\<rparr>"] assms(2)
  by (simp add: command_tokens_def empty_command_def built_def)

lemma parse_pipeline_tokens:
  assumes "heapless_vec co m" "heapless_vec ao n" "\<forall>c \<in> set cs. fst c \<noteq> []" "cs \<noteq> []"
  shows "\<exists>cmds' current. parse_loop co ao (pipeline_tokens cs) cmds (empty_command ao) = (cmds', current)
     \<and> cmd_name current \<noteq> [] \<and> snd (hv_push co cmds' current) = heapless_vec.push_all co (map (built ao) cs) cmds"
  using assms(3,4)
proof (induction cs arbitrary: cmds rule: pipeline_tokens.induct)
  case (2 c)
  then show ?case using parse_command [OF assms(2), of c co "[]" cmds]
    by (simp add: heapless_vec.push_all_simps [OF assms(1)] built_def)
next
  case (3 c c' cs)
  from "3.IH" [of "snd (hv_push co cmds (built ao c))"] "3.prems" show ?case
    using parse_command [OF assms(2), of c co "Pipe # pipeline_tokens (c' # cs)" cmds]
    by (simp add: heapless_vec.push_all_simps [OF assms(1)])
qed simp

lemma parse_shown:
  assumes "heapless_vec vo 64" "heapless_vec co 8" "heapless_vec ao 16"
    and "length cs \<le> 8" "length (pipeline_tokens cs) \<le> 64"
    and "\<forall>c \<in> set cs. fst c \<noteq> [] \<and> 34 \<notin> set (fst c) \<and> length (snd c) \<le> 16 \<and> (\<forall>a \<in> set (snd c). 34 \<notin> set a)"
  shows "map (\<lambda>c. (cmd_name c, hv_items ao (cmd_args c)))
      (hv_items co (parse_pipeline co ao (hv_items vo (tokenize vo (show_pipeline cs))))) = cs"
proof -
  have q: "list_all quotable (pipeline_tokens cs)" using assms(6)
    by (induction cs rule: pipeline_tokens.induct) (auto simp: command_tokens_def list_all_iff)
  have "hv_items vo (tokenize vo (show_pipeline cs)) = pipeline_tokens cs"
    using tokenize_shown [OF assms(1) q] heapless_vec.push_all_items [OF assms(1), of "hv_new vo" "pipeline_tokens cs"] assms(5)
    by (simp add: tokenize_def show_pipeline_def heapless_vec.new_items [OF assms(1)])
  moreover have "hv_items co (parse_pipeline co ao (pipeline_tokens cs)) = map (built ao) cs"
  proof (cases "cs = []")
    case True
    then show ?thesis by (simp add: parse_pipeline_def empty_command_def heapless_vec.new_items [OF assms(2)])
  next
    case False
    have "parse_pipeline co ao (pipeline_tokens cs) = heapless_vec.push_all co (map (built ao) cs) (hv_new co)"
      using parse_pipeline_tokens [OF assms(2,3) _ False, of "hv_new co"] assms(6) by (auto simp: parse_pipeline_def)
    then show ?thesis
      using heapless_vec.push_all_items [OF assms(2), of "hv_new co" "map (built ao) cs"] assms(4)
      by (simp add: heapless_vec.new_items [OF assms(2)])
  qed
  moreover have "(cmd_name (built ao c), hv_items ao (cmd_args (built ao c))) = c" if "c \<in> set cs" for c
    using heapless_vec.push_all_items [OF assms(3), of "hv_new ao" "snd c"] assms(6) that
    by (simp add: built_def heapless_vec.new_items [OF assms(3)])
  ultimately show ?thesis by (simp add: map_idI)
qed

text \<open>
  C33: the shell parses back what \<open>show_pipeline\<close> prints: up to eight commands with up to sixteen arguments each,
  all in quotes, with at most sixty-four tokens in all.
\<close>

theorem parse_shown_pipeline:
  assumes "heapless_vec vo 64" "heapless_vec co 8" "heapless_vec ao 16"
    and "length cs \<le> 8" "length (pipeline_tokens cs) \<le> 64"
    and "\<forall>c \<in> set cs. fst c \<noteq> [] \<and> 34 \<notin> set (fst c) \<and> length (snd c) \<le> 16 \<and> (\<forall>a \<in> set (snd c). 34 \<notin> set a)"
  shows "map (\<lambda>c. (cmd_name c, hv_items ao (cmd_args c)))
      (hv_items co (parse_pipeline co ao (hv_items vo (tokenize vo (show_pipeline cs))))) = cs"
  using assms by (rule parse_shown)

theorem parse_shown_pipeline_witness:
  "map (\<lambda>c. (cmd_name c, cmd_args c)) (hv_items (list_vec 8) (parse_pipeline (list_vec 8) (list_vec 16)
      (hv_items (list_vec 64) (tokenize (list_vec 64) (str (CHR 0x22 # ''echo'' @ [CHR 0x22, CHR 0x20, CHR 0x22] @ ''a | b'' @ [CHR 0x22, CHR 0x20] @ ''|''
        @ [CHR 0x22] @ ''pwd'' @ [CHR 0x22, CHR 0x20]))))))
   = [(str ''echo'', [str ''a | b'']), (str ''pwd'', [])]"
proof -
  have a: "hv_items (list_vec 16) = (\<lambda>v. v)" by (simp add: list_vec_def)
  from parse_shown_pipeline [OF lv.heapless_vec_axioms lv.heapless_vec_axioms lv.heapless_vec_axioms,
      of "[(str ''echo'', [str ''a | b'']), (str ''pwd'', [])]"]
  show ?thesis by (simp add: a str_def show_pipeline_def command_tokens_def show_word_def)
qed

section \<open>What the terminal shows\<close>

text \<open>
  The text on a terminal: a backspace takes the last character away, anything else is added. (On the framebuffer
  console a backspace moves back one cell and blanks it.)
\<close>

definition tape_char :: "rchar \<Rightarrow> rstr \<Rightarrow> rstr" where
  "tape_char c t = (if c = 8 then butlast t else t @ [c])"

fun tape :: "action list \<Rightarrow> rstr \<Rightarrow> rstr" where
  "tape [] t = t"
| "tape (Print s # as) t = tape as (fold tape_char s t)"
| "tape (SleepTicks n # as) t = tape as t"

lemma tape_append [simp]: "tape (as @ bs) t = tape bs (tape as t)"
  by (induction as t rule: tape.induct) auto

lemma tape_text: "8 \<notin> set s \<Longrightarrow> fold tape_char s t = t @ s"
  by (induction s arbitrary: t) (auto simp: tape_char_def)

definition plain :: "rstr \<Rightarrow> bool" where
  "plain s \<longleftrightarrow> (\<forall>c \<in> set s. c < 128 \<and> c \<noteq> 8 \<and> c \<noteq> 10)"

lemma plain_simps [simp]: "plain []" "plain (s @ t) \<longleftrightarrow> plain s \<and> plain t" "plain (c # s) \<longleftrightarrow> c < 128 \<and> c \<noteq> 8 \<and> c \<noteq> 10 \<and> plain s"
  by (auto simp: plain_def)

lemma plain_butlast: "plain s \<Longrightarrow> plain (butlast s)"
  by (auto simp: plain_def dest: in_set_butlastD)

lemma plain_len: "plain s \<Longrightarrow> str_len s = length s"
  by (induction s) (auto simp: str_len_def utf8_width_def)

lemma plain_shown: "plain s \<Longrightarrow> fold tape_char s t = t @ s"
  by (auto simp: plain_def intro!: tape_text)

lemma tape_erase: "tape (replicate n (Print [8, 32, 8])) (t @ s) = t" if "length s = n"
  using that
proof (induction n arbitrary: s)
  case 0
  then show ?case by simp
next
  case (Suc n)
  then show ?case by (cases s rule: rev_cases) (auto simp: tape_char_def butlast_append)
qed

lemma tape_clear_line: "plain s \<Longrightarrow> tape (clear_line s) (t @ s) = t"
  by (simp add: clear_line_def plain_len tape_erase)

locale shell_parts = hv: heapless_vec "history_ops env" 32 + hs: heapless_string "line_ops env" 128
  for env :: "('tv, 'cv, 'av, 'hv, 's) shell_env"
begin

definition wf_history :: "'hv History \<Rightarrow> bool" where
  "wf_history h \<longleftrightarrow> hist_index h \<le> length (hv_items (history_ops env) (entries h))
     \<and> (\<forall>e \<in> set (hv_items (history_ops env) (entries h)). plain (hs_text (line_ops env) e) \<and> str_len (hs_text (line_ops env) e) \<le> 128)"

definition shell_ok :: "('hv, 's) Shell \<Rightarrow> bool" where
  "shell_ok sh \<longleftrightarrow> plain (current_path sh) \<and> plain (hs_text (line_ops env) (line sh)) \<and> wf_history (history sh)
     \<and> (\<exists>pre. tape (out sh) [] = pre @ get_prompt (current_path sh) @ hs_text (line_ops env) (line sh))"

lemma wf_history_push:
  assumes "wf_history h" "plain l"
  shows "wf_history (history_push (history_ops env) (line_ops env) l h)"
proof (cases "str_len l \<le> 128")
  case True
  then obtain s where s: "hs_push_str (line_ops env) (hs_new (line_ops env)) l = (True, s)" "hs_text (line_ops env) s = l"
    using hs.push_str_text [of "hs_new (line_ops env)" l]
    by (cases "hs_push_str (line_ops env) (hs_new (line_ops env)) l") (auto simp: hs.new_text str_len_def)
  obtain b v where v: "hv_push (history_ops env) (entries h) s = (b, v)" by force
  show ?thesis using assms True s v hv.push_snd [of "entries h" s] hv.push_items [of "entries h" s]
    by (cases b) (auto simp: wf_history_def history_push_def split: if_splits)
next
  case False
  then have "\<not> fst (hs_push_str (line_ops env) (hs_new (line_ops env)) l)"
    using hs.push_str_no_room [of "hs_new (line_ops env)" l] by (simp add: hs.new_text str_len_def)
  then show ?thesis using assms(1) by (auto simp: history_push_def split: prod.splits bool.splits)
qed

lemma history_moves:
  assumes "wf_history h"
  shows "\<exists>prev h'. history_up (history_ops env) (line_ops env) h = (Ok prev, h') \<and> wf_history h'
      \<and> (\<forall>e. prev = Some e \<longrightarrow> plain e \<and> str_len e \<le> 128)"
    and "\<exists>prev h'. history_down (history_ops env) (line_ops env) h = (Ok prev, h') \<and> wf_history h'
      \<and> (\<forall>e. prev = Some e \<longrightarrow> plain e \<and> str_len e \<le> 128)"
  using assms by (auto simp: wf_history_def history_up_def history_down_def Let_def index_r_def)

lemma recall_ok:
  assumes "shell_ok sh" "plain e" "str_len e \<le> 128"
  shows "shell_ok (recall_line env e sh)"
proof -
  have t: "hs_text (line_ops env) (snd (hs_push_str (line_ops env) (hs_clear (line_ops env) (line sh)) e)) = e"
    using hs.push_str_text [of "hs_clear (line_ops env) (line sh)" e] assms(3) by (simp add: hs.clear_text str_len_def)
  from assms(1) obtain pre where p: "plain (hs_text (line_ops env) (line sh))"
    "tape (out sh) [] = (pre @ get_prompt (current_path sh)) @ hs_text (line_ops env) (line sh)" by (auto simp: shell_ok_def)
  show ?thesis using assms(1,2)
    by (auto simp: shell_ok_def recall_line_def Let_def t p(2) tape_clear_line [OF p(1)] plain_shown simp del: append_assoc)
qed

lemma enter_ok:
  assumes "shell_ok sh"
  shows "shell_ok (enter_line env sh)"
proof -
  have p: "plain (get_prompt (current_path sh))" using assms by (simp add: shell_ok_def get_prompt_def str_def)
  show ?thesis using assms wf_history_push [of "history sh" "hs_text (line_ops env) (line sh)"]
    by (auto simp: shell_ok_def enter_line_def Let_def hs.clear_text plain_shown [OF p])
qed

text \<open>The keys that keep to one byte and one cell for a character.\<close>

definition plain_key :: "key \<Rightarrow> bool" where
  "plain_key k \<longleftrightarrow> (case k of Unicode c \<Rightarrow> c < 128 \<and> c \<noteq> 8 | _ \<Rightarrow> True)"

lemma key_ok:
  assumes "shell_ok sh" "plain_key k"
  shows "\<exists>sh'. handle_key env k sh = (Ok (), sh') \<and> shell_ok sh'"
proof (cases k)
  case (Unicode c)
  let ?p = "hs_push (line_ops env) (line sh) c"
  show ?thesis
  proof (cases "c = 10")
    case True
    then show ?thesis using Unicode enter_ok [OF assms(1)] by (simp add: handle_key_def)
  next
    case False
    show ?thesis
    proof (cases "str_len (hs_text (line_ops env) (line sh)) + utf8_width c \<le> 128")
      case True
      then have "?p = (True, snd ?p)" "hs_text (line_ops env) (snd ?p) = hs_text (line_ops env) (line sh) @ [c]"
        using hs.push_text by (auto simp: prod_eq_iff)
      with False Unicode assms show ?thesis
        by (auto simp: handle_key_def shell_ok_def plain_key_def tape_char_def split: prod.splits)
    next
      case n: False
      then have "?p = (False, snd ?p)" "hs_text (line_ops env) (snd ?p) = hs_text (line_ops env) (line sh)"
        using hs.push_no_room [of "line sh" c] by (auto simp: prod_eq_iff)
      with False Unicode assms show ?thesis by (auto simp: handle_key_def shell_ok_def split: prod.splits)
    qed
  qed
next
  case KeyBackspace
  let ?l = "hs_text (line_ops env) (line sh)"
  have e: "tape [Print [8, 32, 8]] (t @ ?l) = t @ butlast ?l" if "?l \<noteq> []" for t
    using that by (cases ?l rule: rev_cases) (auto simp: tape_char_def butlast_append)
  obtain r l where p: "hs_pop (line_ops env) (line sh) = (r, l)" by force
  then have r: "r = (if ?l = [] then None else Some (last ?l))" "hs_text (line_ops env) l = butlast ?l"
    using hs.pop_text [of "line sh"] by simp_all
  from assms(1) obtain pre where o: "tape (out sh) [] = (pre @ get_prompt (current_path sh)) @ ?l" by (auto simp: shell_ok_def)
  show ?thesis
  proof (cases "?l = []")
    case True
    then show ?thesis using KeyBackspace p r assms(1) by (auto simp: handle_key_def shell_ok_def)
  next
    case False
    have "shell_ok (sh\<lparr>line := l, out := out sh @ [Print [8, 32, 8]]\<rparr>)"
      using assms(1) o e [OF False] by (auto simp: shell_ok_def r(2) plain_butlast simp del: tape.simps append_assoc)
    then show ?thesis using KeyBackspace p r(1) False by (simp add: handle_key_def)
  qed
next
  case KeyUp
  from history_moves(1) [of "history sh"] assms(1) obtain prev h where
    h: "history_up (history_ops env) (line_ops env) (history sh) = (Ok prev, h)" "wf_history h"
      "\<forall>e. prev = Some e \<longrightarrow> plain e \<and> str_len e \<le> 128" by (auto simp: shell_ok_def)
  then have "shell_ok (sh\<lparr>history := h\<rparr>)" using assms(1) by (simp add: shell_ok_def)
  then show ?thesis using KeyUp h recall_ok [of "sh\<lparr>history := h\<rparr>"] by (auto simp: handle_key_def split: option.split)
next
  case KeyDown
  from history_moves(2) [of "history sh"] assms(1) obtain prev h where
    h: "history_down (history_ops env) (line_ops env) (history sh) = (Ok prev, h)" "wf_history h"
      "\<forall>e. prev = Some e \<longrightarrow> plain e \<and> str_len e \<le> 128" by (auto simp: shell_ok_def)
  then have "shell_ok (sh\<lparr>history := h\<rparr>)" using assms(1) by (simp add: shell_ok_def)
  then show ?thesis using KeyDown h recall_ok [of "sh\<lparr>history := h\<rparr>"] by (auto simp: handle_key_def split: option.split)
next
  case OtherKey
  then show ?thesis using assms(1) by (simp add: handle_key_def)
qed

lemma keys_ok:
  "shell_ok sh \<Longrightarrow> list_all plain_key ks \<Longrightarrow> \<exists>sh'. handle_keys env ks sh = (Ok (), sh') \<and> shell_ok sh'"
proof (induction ks arbitrary: sh)
  case Nil
  then show ?case by simp
next
  case (Cons k ks)
  from key_ok [OF Cons.prems(1), of k] Cons.prems(2) obtain sh1 where "handle_key env k sh = (Ok (), sh1)" "shell_ok sh1" by auto
  with Cons.IH [of sh1] Cons.prems(2) show ?case by simp
qed

lemma start_ok: "shell_ok (shell_start env)"
  by (simp add: shell_ok_def shell_start_def wf_history_def history_new_def hv.new_items hs.new_text get_prompt_def str_def
      tape_char_def)

end

definition list_env :: "(Token list, rstr list Command list, rstr list, rstr list, rstr) shell_env" where
  "list_env =
     \<lparr>token_ops = list_vec 64, command_ops = list_vec 8, arg_ops = list_vec 16, history_ops = list_vec 32, line_ops = list_string 128,
      command_map = init_commands (command_section (\<lambda>s. s)) []\<rparr>"

interpretation sp: shell_parts list_env
proof -
  have e: "history_ops list_env = list_vec 32" "line_ops list_env = list_string 128" by (simp_all add: list_env_def)
  show "shell_parts list_env"
    unfolding shell_parts_def e by (intro conjI lv.heapless_vec_axioms ls.heapless_string_axioms)
qed

text \<open>
  C34: as long as the characters typed have one byte each and none is the control character U+0008, the shell never panics
  and the terminal ends with the prompt and exactly the line the shell will run, through typing, erasing, history and
  commands in any order. (The keys for erasing and for the history are keys of their own and are covered.)
\<close>

theorem terminal_shows_line:
  assumes "heapless_vec (history_ops env) 32" "heapless_string (line_ops env) 128"
    and "\<forall>c. Unicode c \<in> set ks \<longrightarrow> c < 128 \<and> c \<noteq> 8"
  shows "\<exists>sh pre. handle_keys env ks (shell_start env) = (Ok (), sh)
     \<and> tape (out sh) [] = pre @ get_prompt (current_path sh) @ hs_text (line_ops env) (line sh)"
proof -
  have sp: "shell_parts env" using assms(1,2) by (rule shell_parts.intro)
  have "list_all shell_parts.plain_key ks"
    using assms(3) by (auto simp: list_all_iff shell_parts.plain_key_def [OF sp] split: key.split)
  from shell_parts.keys_ok [OF sp shell_parts.start_ok [OF sp] this] show ?thesis
    by (auto simp: shell_parts.shell_ok_def [OF sp])
qed

theorem terminal_shows_line_witness:
  "\<exists>sh pre. handle_keys list_env [Unicode 112, Unicode 119, Unicode 100, Unicode 10, Unicode 120, KeyBackspace, KeyUp] (shell_start list_env)
      = (Ok (), sh) \<and> tape (out sh) [] = pre @ get_prompt (current_path sh) @ hs_text (line_ops list_env) (line sh)"
  by (rule terminal_shows_line [OF sp.hv.heapless_vec_axioms sp.hs.heapless_string_axioms]) auto

text \<open>The control character U+0008 is put on the line like any other, and erases a cell on the terminal.\<close>

lemma control_backspace_diverges:
  "hs_text (line_ops list_env) (line (snd (handle_keys list_env [Unicode 97, Unicode 8] (shell_start list_env)))) = [97, 8]"
  "tape (out (snd (handle_keys list_env [Unicode 97, Unicode 8] (shell_start list_env)))) [] = str ''/> ''"
  by code_simp+

text \<open>A character of two bytes takes one cell, but recalling a line then erases two: the prompt loses its space.\<close>

lemma two_byte_character_erases_prompt:
  "tape (out (snd (handle_keys list_env [Unicode 97, Unicode 10, Unicode 228, KeyUp] (shell_start list_env)))) [] =
     str ''/> a'' @ [10] @ str ''Unknown command: a'' @ [10] @ str ''/>a''"
  by code_simp

lemma parent_of_top_level_directory_is_empty: "resolve_path (str ''/a'') (str ''..'') = []"
  by code_simp

section \<open>History\<close>

context shell_parts
begin

definition remembered :: "'hv History \<Rightarrow> rstr list" where
  "remembered h = map (hs_text (line_ops env)) (hv_items (history_ops env) (entries h))"

lemma remember:
  assumes "str_len l \<le> 128"
  shows "remembered (history_push (history_ops env) (line_ops env) l h) = (if length (remembered h) < 32 then remembered h @ [l] else remembered h)"
    "hist_index (history_push (history_ops env) (line_ops env) l h) = (if length (remembered h) < 32 then Suc (length (remembered h)) else hist_index h)"
proof -
  obtain s where s: "hs_push_str (line_ops env) (hs_new (line_ops env)) l = (True, s)" "hs_text (line_ops env) s = l"
    using hs.push_str_text [of "hs_new (line_ops env)" l] assms
    by (cases "hs_push_str (line_ops env) (hs_new (line_ops env)) l") (auto simp: hs.new_text str_len_def)
  obtain b v where v: "hv_push (history_ops env) (entries h) s = (b, v)" by force
  have "b = (length (remembered h) < 32)"
    "hv_items (history_ops env) v = (if length (remembered h) < 32 then hv_items (history_ops env) (entries h) @ [s] else hv_items (history_ops env) (entries h))"
    using hv.push_snd [of "entries h" s] hv.push_items [of "entries h" s] hv.push_refused [of "entries h" s] v
    by (cases "length (hv_items (history_ops env) (entries h)) < 32"; simp add: remembered_def)+
  then show "remembered (history_push (history_ops env) (line_ops env) l h) = (if length (remembered h) < 32 then remembered h @ [l] else remembered h)"
    "hist_index (history_push (history_ops env) (line_ops env) l h) = (if length (remembered h) < 32 then Suc (length (remembered h)) else hist_index h)"
    using s v by (auto simp: history_push_def remembered_def)
qed

lemma remember_all:
  assumes "list_all (\<lambda>l. str_len l \<le> 128) ls"
  shows "remembered (fold (history_push (history_ops env) (line_ops env)) ls (history_new (history_ops env))) = take 32 ls
     \<and> hist_index (fold (history_push (history_ops env) (line_ops env)) ls (history_new (history_ops env))) = min 32 (length ls)"
  using assms
proof (induction ls rule: rev_induct)
  case Nil
  then show ?case by (simp add: history_new_def remembered_def hv.new_items)
next
  case (snoc l ls)
  then show ?case by (auto simp: remember min_def)
qed

lemma ups:
  "k \<le> hist_index h \<Longrightarrow> ((\<lambda>h. snd (history_up (history_ops env) (line_ops env) h)) ^^ k) h = h\<lparr>hist_index := hist_index h - k\<rparr>"
  by (induction k) (simp_all add: history_up_def Let_def)

end

text \<open>
  The history holds the first thirty-two lines entered, and the \<open>k\<close>-th press of the up key brings back the
  \<open>k\<close>-th last of them.
\<close>

theorem history_recalls:
  fixes env :: "('tv, 'cv, 'av, 'hv, 's) shell_env"
  assumes "heapless_vec (history_ops env) 32" "heapless_string (line_ops env) 128"
    and "\<forall>l \<in> set ls. str_len l \<le> 128" "k < min 32 (length ls)"
    and "h = fold (history_push (history_ops env) (line_ops env)) ls (history_new (history_ops env))"
  shows "fst (history_up (history_ops env) (line_ops env) (((\<lambda>h. snd (history_up (history_ops env) (line_ops env) h)) ^^ k) h))
     = Ok (Some (ls ! (min 32 (length ls) - 1 - k)))"
proof -
  have sp: "shell_parts env" using assms(1,2) by (rule shell_parts.intro)
  have r: "map (hs_text (line_ops env)) (hv_items (history_ops env) (entries h)) = take 32 ls" "hist_index h = min 32 (length ls)"
    using shell_parts.remember_all [OF sp, of ls] assms(3,5) by (auto simp: list_all_iff shell_parts.remembered_def [OF sp])
  let ?i = "min 32 (length ls) - 1 - k"
  have l: "length (hv_items (history_ops env) (entries h)) = min 32 (length ls)"
    using arg_cong [OF r(1), of length] by (simp add: min.commute)
  then have i: "?i < length (hv_items (history_ops env) (entries h))" using assms(4) by linarith
  then have "hs_text (line_ops env) (hv_items (history_ops env) (entries h) ! ?i) = take 32 ls ! ?i"
    using nth_map [OF i, of "hs_text (line_ops env)"] r(1) by simp
  then show ?thesis
    using shell_parts.ups [OF sp, of k h] r(2) i assms(4)
    by (simp add: history_up_def Let_def index_r_def diff_commute)
qed

theorem history_recalls_witness:
  "fst (history_up (list_vec 32) (list_string 128) (((\<lambda>h. snd (history_up (list_vec 32) (list_string 128) h)) ^^ 1)
      (fold (history_push (list_vec 32) (list_string 128)) [str ''a'', str ''b'', str ''c''] (history_new (list_vec 32)))))
   = Ok (Some (str ''b''))"
proof -
  have e: "history_ops list_env = list_vec 32" "line_ops list_env = list_string 128" by (simp_all add: list_env_def)
  show ?thesis
    using history_recalls [OF sp.hv.heapless_vec_axioms sp.hs.heapless_string_axioms, of "[str ''a'', str ''b'', str ''c'']" 1, OF _ _ refl]
    by (simp add: e str_len_def str_def utf8_width_def)
qed

section \<open>Running commands\<close>

lemma section_echo: "bt_get (init_commands (command_section up) []) (str ''echo'') =
    Some \<lparr>ce_name = str ''echo'', ce_short = str ''Print text'',
       ce_long = str ''Prints the given text to the screen'', ce_func = (\<lambda>_ _. cmd_echo up)\<rparr>"
  by (simp add: command_section_def str_def)

text \<open>
  A pipeline of quoted \<open>echo\<close> commands, as it is typed, prints its texts in order, from the tokenizer through the
  parser and the command table to the generated argument parsing; a text must not start with two dashes.
\<close>

theorem echo_pipeline_prints:
  assumes "heapless_vec vo 64" "heapless_vec co 8" "heapless_vec ao 16"
    and "length ws \<le> 8" "\<forall>w \<in> set ws. 34 \<notin> set w \<and> take 2 w \<noteq> str ''--''"
  shows "execute_pipeline (init_commands (command_section up) []) path ao
      (hv_items co (parse_pipeline co ao (hv_items vo (tokenize vo (show_pipeline (map (\<lambda>w. (str ''echo'', [w])) ws))))))
     = map (\<lambda>w. Print (w @ [10])) ws"
proof -
  let ?cs = "map (\<lambda>w. (str ''echo'', [w])) ws"
  have len: "length (pipeline_tokens (map (\<lambda>w. (str ''echo'', [w])) us)) \<le> 3 * length us" for us
    by (induction us rule: induct_list012) (auto simp: command_tokens_def)
  have parsed: "map (\<lambda>c. (cmd_name c, hv_items ao (cmd_args c)))
      (hv_items co (parse_pipeline co ao (hv_items vo (tokenize vo (show_pipeline ?cs))))) = ?cs"
    by (rule parse_shown [OF assms(1-3)]) (use assms(4,5) len [of ws] in \<open>auto simp: str_def\<close>)
  have run: "execute_pipeline (init_commands (command_section up) []) path ao cmds = map (\<lambda>w. Print (w @ [10])) us"
    if "map (\<lambda>c. (cmd_name c, hv_items ao (cmd_args c))) cmds = map (\<lambda>w. (str ''echo'', [w])) us"
      "\<forall>w \<in> set us. take 2 w \<noteq> str ''--''" for cmds us
    using that
  proof (induction cmds arbitrary: us)
    case Nil
    then show ?case by simp
  next
    case (Cons c cmds)
    then obtain u us' where us: "us = u # us'" by (cases us) auto
    have "cmd_echo up [u] = [Print (u @ [10])]"
      using Cons.prems(2) us by (auto simp: cmd_echo_def with_args_def println_def str_def)
    with Cons us show ?case by (simp add: section_echo)
  qed
  from run [OF parsed] assms(5) show ?thesis by blast
qed

theorem echo_pipeline_prints_witness:
  "execute_pipeline (init_commands (command_section (\<lambda>s. s)) []) (str ''/'') (list_vec 16)
      (hv_items (list_vec 8) (parse_pipeline (list_vec 8) (list_vec 16) (hv_items (list_vec 64)
        (tokenize (list_vec 64) (show_pipeline (map (\<lambda>w. (str ''echo'', [w])) [str ''a b'', str ''c'']))))))
     = [Print (str ''a b'' @ [10]), Print (str ''c'' @ [10])]"
  using echo_pipeline_prints [OF lv.heapless_vec_axioms lv.heapless_vec_axioms lv.heapless_vec_axioms,
      of "[str ''a b'', str ''c'']" "\<lambda>s. s" "str ''/''"]
  by (simp add: str_def)

end
