(* ===== verification/Entry.thy ===== *)
theory Entry
  imports Startup Shell
begin

text \<open>
  The entry points of the kernel and of the installer (\<^verbatim>\<open>src/kernel/src/main.rs\<close>, \<^verbatim>\<open>src/installer/src/main.rs\<close>), the ways the two
  programs end, the descriptor tables (\<^verbatim>\<open>src/kernel/src/interrupts/gdt.rs\<close>) and the handlers of the exceptions
  (\<^verbatim>\<open>src/kernel/src/interrupts/mod.rs\<close>). Parameters are the types of the crate \<open>x86_64\<close>, the strings of \<open>heapless\<close>,
  the text of a panic, and the addresses of the linker. \<open>SERIAL1\<close> is taken to be set up; the progress messages of \<open>init\<close> are
  left out. Shown: exactly the section \<open>.bss\<close> is cleared, the pointer the installer prints can be read back, the
  double fault gate uses a stack of its own whose top is within bounds and aligned, and the handler of that gate does
  not reach the serial port.
\<close>

section \<open>Ports\<close>

text \<open>Writes to I/O ports, oldest first. \<open>Uart\<close> is a message handed to \<open>send_bytes_exact\<close> of the crate \<open>uart_16550\<close>.\<close>

datatype port_out = Out8 u16 u8 | Out32 u16 u32 | Uart rstr

record ('m, 'h, 'c, 'hw, 'b) Platform =
  pf_kernel :: "('m, 'h, 'c, 'hw, 'b) Kernel"
  pf_ports :: "port_out list"

text \<open>No function of this file that the code types with \<open>!\<close> returns: each ends in one of three loops.\<close>

datatype ending = NopLoop | HltLoop | ExecutorLoop

definition port_write :: "port_out \<Rightarrow> ('m, 'h, 'c, 'hw, 'b) Platform \<Rightarrow> ('m, 'h, 'c, 'hw, 'b) Platform" where
  "port_write w p = p\<lparr>pf_ports := pf_ports p @ [w]\<rparr>"

definition on_machine :: "('hw Machine \<Rightarrow> 'hw Machine) \<Rightarrow> ('m, 'h, 'c, 'hw, 'b) Platform \<Rightarrow> ('m, 'h, 'c, 'hw, 'b) Platform" where
  "on_machine f p = p\<lparr>pf_kernel := (pf_kernel p)\<lparr>k_machine := f (k_machine (pf_kernel p))\<rparr>\<rparr>"

text \<open>The message is gathered in a \<open>String<256>\<close>, whose \<open>push_str\<close> refuses what does not fit.\<close>

definition try_push :: "'s hstr_ops \<Rightarrow> 's \<Rightarrow> rstr \<Rightarrow> 's option" where
  "try_push ho s t = (case hs_push_str ho s t of (True, s') \<Rightarrow> Some s' | (False, _) \<Rightarrow> None)"

text \<open>\<open>serial_print!\<close>; the macro \<open>serial_println!\<close> adds the line feed to the last literal of the format string.\<close>

definition serial_print :: "'s hstr_ops \<Rightarrow> rstr list \<Rightarrow> ('m, 'h, 'c, 'hw, 'b) Platform \<Rightarrow> ('m, 'h, 'c, 'hw, 'b) Platform" where
  "serial_print hl args p =
     (let t = print_serial (try_push hl) (hs_new hl) (hs_text hl) args in if t = [] then p else port_write (Uart t) p)"

section \<open>Ends of the programs\<close>

definition exit_qemu :: "QemuExitCode \<Rightarrow> ('m, 'h, 'c, 'hw, 'b) Platform \<Rightarrow> ending \<times> ('m, 'h, 'c, 'hw, 'b) Platform" where
  "exit_qemu code p = (NopLoop, port_write (Out32 0xF4 (exit_code code)) p)"

definition kernel_panic :: "'s hstr_ops \<Rightarrow> rstr \<Rightarrow> ('m, 'h, 'c, 'hw, 'b) Platform \<Rightarrow> ending \<times> ('m, 'h, 'c, 'hw, 'b) Platform" where
  "kernel_panic hl info p = exit_qemu Failed (serial_print hl [str ''panic! '', info, [10, 10]] p)"

definition installer_panic :: "'s hstr_ops \<Rightarrow> rstr \<Rightarrow> ('m, 'h, 'c, 'hw, 'b) Platform \<Rightarrow> ending \<times> ('m, 'h, 'c, 'hw, 'b) Platform" where
  "installer_panic hl info p = (HltLoop, serial_print hl [str ''panic! '', info, [10, 10]] p)"

section \<open>Entry points\<close>

text \<open>The section \<open>.bss\<close> is cleared before anything else runs; the subtraction of the two addresses wraps.\<close>

definition clear_bss :: "'hw mmio \<Rightarrow> u64 \<Rightarrow> u64 \<Rightarrow> 'hw Machine \<Rightarrow> 'hw Machine" where
  "clear_bss mm start_ptr end_ptr m = (let len = end_ptr - start_ptr in cpu_wr mm start_ptr (zeros (unat len)) m)"

definition installer_clear_bss :: "'hw mmio \<Rightarrow> u64 \<Rightarrow> u64 \<Rightarrow> 'hw Machine \<Rightarrow> 'hw Machine" where
  "installer_clear_bss mm start_ptr end_ptr m =
     (let len = end_ptr - start_ptr in if 0 < len then cpu_wr mm start_ptr (zeros (unat len)) m else m)"

definition kernel_entry ::
    "('m, 'h, 'c, 'hw, 't, 'r) boot_env \<Rightarrow> 's hstr_ops \<Rightarrow> ('q, TaskId) queue_ops \<Rightarrow> u64 \<times> u64 \<Rightarrow> BootInfo \<Rightarrow> 'f \<Rightarrow> rstr
     \<Rightarrow> ('m, 'h, 'c, 'hw, 'b) Platform \<times> ('f, 'q, 'sq, 'aw) System
     \<Rightarrow> ending \<times> ('m, 'h, 'c, 'hw, 'b) Platform \<times> ('f, 'q, 'sq, 'aw) System" where
  "kernel_entry env hl qo bss bi task info s =
     (let p = on_machine (clear_bss (hardware env) (fst bss) (snd bss)) (fst s) in
      case kernel_start env qo bi task (pf_kernel p, snd s) of
        (Ok _, k, sys) \<Rightarrow> (ExecutorLoop, p\<lparr>pf_kernel := k\<rparr>, sys)
      | (_, k, sys) \<Rightarrow> (case kernel_panic hl info (p\<lparr>pf_kernel := k\<rparr>) of (e, p) \<Rightarrow> (e, p, sys)))"

text \<open>The digits of the pointer, most significant first.\<close>

definition nibble_digit :: "u64 \<Rightarrow> nat \<Rightarrow> u8" where
  "nibble_digit ptr i =
     (let nibble = ucast (drop_bit (i * 4) ptr AND 0xF) in if nibble < 10 then 0x30 + nibble else 0x61 + nibble - 10)"

fun write_bytes_to_port :: "u16 \<Rightarrow> u8 list \<Rightarrow> ('m, 'h, 'c, 'hw, 'b) Platform \<Rightarrow> ('m, 'h, 'c, 'hw, 'b) Platform" where
  "write_bytes_to_port port [] p = p"
| "write_bytes_to_port port (b # bs) p = write_bytes_to_port port bs (port_write (Out8 port b) p)"

definition print_pointer :: "u64 \<Rightarrow> ('m, 'h, 'c, 'hw, 'b) Platform \<Rightarrow> ('m, 'h, 'c, 'hw, 'b) Platform" where
  "print_pointer ptr p =
     (let p = write_bytes_to_port 0x3F8 [0x70, 0x74, 0x72, 0x3D] p;
          p = write_bytes_to_port 0x3F8 (map (nibble_digit ptr) (rev [0..<16])) p
      in port_write (Out8 0x3F8 0x0A) p)"

definition installer_entry ::
    "('m, 'h, 'c, 'hw, 't, 'r) boot_env \<Rightarrow> 's hstr_ops \<Rightarrow> u64 \<times> u64 \<Rightarrow> u64 \<Rightarrow> BootInfo \<Rightarrow> rstr
     \<Rightarrow> ('m, 'h, 'c, 'hw, 'b) Platform \<Rightarrow> ending \<times> ('m, 'h, 'c, 'hw, 'b) Platform" where
  "installer_entry env hl bss ptr bi info p =
     (let p = print_pointer ptr p;
          p = write_bytes_to_port 0x3F8 (map of_nat (str ''[kernel] Starting up '' @ [10])) p;
          p = on_machine (installer_clear_bss (hardware env) (fst bss) (snd bss)) p
      in case installer_init env bi (pf_kernel p) of
           (Ok (_, code), k) \<Rightarrow> exit_qemu code (p\<lparr>pf_kernel := k\<rparr>)
         | (_, k) \<Rightarrow> installer_panic hl info (p\<lparr>pf_kernel := k\<rparr>))"

section \<open>Exceptions\<close>

text \<open>
  \<open>cr2\<close>, \<open>code\<close> and \<open>frame\<close> are the texts the crate \<open>x86_64\<close> formats. The double fault handler writes through a pointer to
  the address 0x3F8.
\<close>

definition page_fault_handler :: "'s hstr_ops \<Rightarrow> rstr \<Rightarrow> rstr \<Rightarrow> rstr list \<Rightarrow> ('m, 'h, 'c, 'hw, 'b) Platform \<Rightarrow> ('m, 'h, 'c, 'hw, 'b) Platform" where
  "page_fault_handler hl cr2 code frame p =
     (let p = serial_print hl [str ''EXCEPTION: PAGE FAULT'' @ [10]] p;
          p = serial_print hl [str ''Accessed Address: '', cr2, [10]] p;
          p = serial_print hl [str ''Error Code: '', code, [10]] p
      in serial_print hl (frame @ [[10]]) p)"

definition breakpoint_handler ::
    "(rchar \<Rightarrow> u8 list option) \<Rightarrow> ('b \<Rightarrow> rstr \<Rightarrow> 'b option) \<Rightarrow> rstr list \<Rightarrow> ('m, 'h, 'c, 'hw, 'b) Platform
     \<Rightarrow> (('m, 'h, 'c, 'hw, 'b) Platform, unit) result" where
  "breakpoint_handler font push frame p =
     rbind (print_args font push ((str ''EXCEPTION: BREAKPOINT'' @ [10]) # frame @ [[10]]) (k_console (pf_kernel p))) (\<lambda>con.
       Ok (p\<lparr>pf_kernel := (pf_kernel p)\<lparr>k_console := con\<rparr>\<rparr>))"

fun write_volatile_all :: "'hw mmio \<Rightarrow> u64 \<Rightarrow> u8 list \<Rightarrow> 'hw Machine \<Rightarrow> 'hw Machine" where
  "write_volatile_all mm ptr [] m = m"
| "write_volatile_all mm ptr (b # bs) m = write_volatile_all mm ptr bs (cpu_wr mm ptr [b] m)"

definition double_fault_handler :: "'hw mmio \<Rightarrow> ('m, 'h, 'c, 'hw, 'b) Platform \<Rightarrow> ending \<times> ('m, 'h, 'c, 'hw, 'b) Platform" where
  "double_fault_handler mm p =
     (HltLoop, on_machine (write_volatile_all mm 0x3F8 (map of_nat (str ''DOUBLE_FAULT'' @ [13, 10]))) p)"

section \<open>Descriptor tables\<close>

text \<open>
  The crate's task state segment has seven stack pointers for interrupts, zero at first; of it only these are used. Addresses are
  those of \<open>VirtAddr\<close>: \<open>new\<close>, addition and \<open>align_down\<close>, each of which panics outside the canonical addresses.
\<close>

abbreviation STACK_SIZE :: u64 where "STACK_SIZE \<equiv> 4096 * 5"

record TaskStateSegment =
  interrupt_stack_table :: "u64 list"

record virt_ops =
  va_new :: "u64 \<Rightarrow> (u64, unit) result"
  va_add :: "u64 \<Rightarrow> u64 \<Rightarrow> (u64, unit) result"
  va_align_down :: "u64 \<Rightarrow> u64 \<Rightarrow> (u64, unit) result"

record ('d, 'g) gdt_crate =
  gdt_new :: 'g
  gdt_append :: "'d \<Rightarrow> 'g \<Rightarrow> (u16, unit) result \<times> 'g"
  kernel_code_segment :: 'd
  kernel_data_segment :: 'd
  tss_segment :: "TaskStateSegment \<Rightarrow> 'd"

record Selectors =
  code_selector :: u16
  data_selector :: u16
  tss_selector :: u16

record 'g segments =
  gdtr :: "'g option"
  seg_cs :: u16
  seg_ds :: u16
  seg_ss :: u16
  seg_tr :: u16

definition TSS :: "virt_ops \<Rightarrow> u64 \<Rightarrow> (TaskStateSegment, unit) result" where
  "TSS va stack =
     rbind (va_new va stack) (\<lambda>stack_start.
     rbind (va_add va stack_start STACK_SIZE) (\<lambda>e.
     rbind (va_align_down va e 16) (\<lambda>stack_end.
     rbind (set_r (replicate 7 0) DOUBLE_FAULT_IST_INDEX stack_end) (\<lambda>ist.
       Ok \<lparr>interrupt_stack_table = ist\<rparr>))))"

definition GDT :: "('d, 'g) gdt_crate \<Rightarrow> virt_ops \<Rightarrow> u64 \<Rightarrow> (Selectors, unit) result \<times> 'g" where
  "GDT gc va stack =
     sbind (gdt_append gc (kernel_code_segment gc) (gdt_new gc)) (\<lambda>code g.
     sbind (gdt_append gc (kernel_data_segment gc) g) (\<lambda>data g.
     sbind (TSS va stack, g) (\<lambda>tss g.
     sbind (gdt_append gc (tss_segment gc tss) g) (\<lambda>tsel g.
       (Ok \<lparr>code_selector = code, data_selector = data, tss_selector = tsel\<rparr>, g)))))"

definition gdt_init :: "('d, 'g) gdt_crate \<Rightarrow> virt_ops \<Rightarrow> u64 \<Rightarrow> 'g segments \<Rightarrow> ('g segments, unit) result" where
  "gdt_init gc va stack r =
     (case GDT gc va stack of
        (Ok sel, g) \<Rightarrow>
          (let r = r\<lparr>gdtr := Some g\<rparr>; r = r\<lparr>seg_cs := code_selector sel\<rparr>; r = r\<lparr>seg_ds := data_selector sel\<rparr>;
               r = r\<lparr>seg_ss := data_selector sel\<rparr>
           in Ok (r\<lparr>seg_tr := tss_selector sel\<rparr>))
      | _ \<Rightarrow> Panic)"

section \<open>The section that is cleared\<close>

lemma poke_Nil: "poke a [] r = r"
  by (simp add: poke_def)

lemma poke_zeros:
  assumes "a \<le> b"
  shows "poke (a - off) (zeros (unat (b - a))) r (p - off) = (if a \<le> p \<and> p < b then 0 else r (p - off))"
proof -
  have "unat (p - off - (a - off)) < unat (b - a) \<longleftrightarrow> a \<le> p \<and> p < b"
    using assms by (simp add: word_less_nat_alt [symmetric]) unat_arith
  then show ?thesis by (simp add: poke_def zeros_def)
qed

text \<open>
  C38: with the two addresses of the linker in order, the entry points of both programs clear every byte of the section
  \<open>.bss\<close> and no other byte of memory.
\<close>

theorem bss_cleared_exactly:
  assumes "start_ptr \<le> end_ptr"
  shows "(\<forall>p. cpu_rd mm (clear_bss mm start_ptr end_ptr m) p 1 = (if start_ptr \<le> p \<and> p < end_ptr then [0] else cpu_rd mm m p 1))
    \<and> installer_clear_bss mm start_ptr end_ptr m = clear_bss mm start_ptr end_ptr m"
  using poke_zeros [OF assms]
  by (auto simp: clear_bss_def installer_clear_bss_def Let_def cpu_rd_def cpu_wr_def peek_def poke_Nil word_gt_0)

theorem bss_cleared_exactly_witness:
  "cpu_rd (hardware sample_env) (clear_bss (hardware sample_env) 0x680000 0x690000 (k_machine sample_kernel)) 0x68FFFF 1 = [0]
    \<and> cpu_rd (hardware sample_env) (clear_bss (hardware sample_env) 0x680000 0x690000 (k_machine sample_kernel)) 0x500B 1 = [7]"
  using bss_cleared_exactly [of "0x680000" "0x690000" "hardware sample_env"]
  by (simp add: cpu_rd_def peek_def sample_env_def sample_kernel_def)

section \<open>The pointer on the serial line\<close>

text \<open>Reading hexadecimal digits, most significant first.\<close>

definition hex_value :: "u8 \<Rightarrow> nat" where
  "hex_value c = (if c < 0x3A then unat (c - 0x30) else unat (c - 0x61) + 10)"

definition read_hex :: "nat \<Rightarrow> u8 list \<Rightarrow> nat" where
  "read_hex = foldl (\<lambda>v c. v * 16 + hex_value c)"

lemma hex_value_nibble:
  assumes "unat n < 16"
  shows "hex_value (if n < 10 then 0x30 + n else 0x61 + n - 10) = unat n"
proof -
  have d: "n < 10 \<longleftrightarrow> unat n < 10" by (simp add: word_less_nat_alt)
  show ?thesis
  proof (cases "n < 10")
    case True
    then have "0x30 + n < 0x3A" using d by (simp add: word_less_nat_alt unat_word_ariths)
    with True show ?thesis by (simp add: hex_value_def)
  next
    case False
    then have s: "unat (n - 10) = unat n - 10" by (subst unat_sub) (simp_all add: not_less)
    have "0x61 + n - 10 = 0x61 + (n - 10)" by simp
    moreover have "\<not> 0x61 + (n - 10) < 0x3A" using assms by (simp add: word_less_nat_alt unat_word_ariths s)
    ultimately show ?thesis using False d s by (simp add: hex_value_def)
  qed
qed

lemma hex_value_digit: "hex_value (nibble_digit ptr i) = unat ptr div 16 ^ i mod 16"
proof -
  define n :: u8 where "n = ucast (drop_bit (i * 4) ptr AND 0xF)"
  have "drop_bit (i * 4) ptr AND 0xF = take_bit 4 (drop_bit (i * 4) ptr)" by (simp add: take_bit_eq_mask mask_eq_exp_minus_1)
  then have "unat (drop_bit (i * 4) ptr AND 0xF) = take_bit 4 (drop_bit (i * 4) (unat ptr))"
    by (simp only: unsigned_take_bit_eq unat_drop_bit_eq)
  then have "unat (drop_bit (i * 4) ptr AND 0xF) = unat ptr div 16 ^ i mod 16"
    by (simp add: drop_bit_eq_div take_bit_eq_mod power_mult mult.commute [of i])
  moreover have "unat ptr div 16 ^ i mod 16 < 256" by (rule less_trans [of _ 16]) simp_all
  ultimately have n: "unat n = unat ptr div 16 ^ i mod 16" by (simp add: n_def unsigned_ucast_eq take_bit_eq_mod)
  then have "hex_value (if n < 10 then 0x30 + n else 0x61 + n - 10) = unat n" by (intro hex_value_nibble) simp
  then show ?thesis unfolding nibble_digit_def Let_def n_def [symmetric] n .
qed

lemma read_hex_digits: "read_hex v (map (nibble_digit ptr) (rev [0..<n])) = v * 16 ^ n + unat ptr mod 16 ^ n"
proof (induction n arbitrary: v)
  case 0
  then show ?case by (simp add: read_hex_def)
next
  case (Suc n)
  have "read_hex v (map (nibble_digit ptr) (rev [0..<Suc n]))
      = read_hex (v * 16 + unat ptr div 16 ^ n mod 16) (map (nibble_digit ptr) (rev [0..<n]))"
    by (simp add: read_hex_def hex_value_digit)
  also have "\<dots> = v * 16 ^ Suc n + (16 ^ n * (unat ptr div 16 ^ n mod 16) + unat ptr mod 16 ^ n)"
    by (simp add: Suc.IH algebra_simps)
  finally show ?case by (simp add: mod_mult2_eq mult.commute [of 16])
qed

lemma write_bytes_to_port_log:
  "write_bytes_to_port port bs p = p\<lparr>pf_ports := pf_ports p @ map (Out8 port) bs\<rparr>"
  by (induction bs arbitrary: p) (simp_all add: port_write_def)

lemma print_pointer_log:
  "print_pointer ptr p = p\<lparr>pf_ports := pf_ports p @
     map (Out8 0x3F8) ([0x70, 0x74, 0x72, 0x3D] @ map (nibble_digit ptr) (rev [0..<16]) @ [0x0A])\<rparr>"
  unfolding print_pointer_def Let_def write_bytes_to_port_log by (simp add: port_write_def del: upt_rec_numeral)

lemma keeps_ports [simp]: "pf_ports (on_machine f p) = pf_ports p"
  by (simp add: on_machine_def)

lemma serial_print_appends: "\<exists>more. pf_ports (serial_print hl args p) = pf_ports p @ more"
  by (simp add: serial_print_def port_write_def Let_def)

text \<open>
  Whatever happens later, the first bytes the installer sends over the serial port are \<open>ptr=\<close>, sixteen digits and a
  line feed; the digits, read as a hexadecimal number, are the address of the boot information.
\<close>

theorem installer_prints_pointer:
  "\<exists>e p' digits more. installer_entry env hl bss ptr bi info p = (e, p')
     \<and> pf_ports p' = pf_ports p @ map (Out8 0x3F8) ([0x70, 0x74, 0x72, 0x3D] @ digits @ [0x0A]) @ more
     \<and> length digits = 16 \<and> read_hex 0 digits = unat ptr"
proof -
  let ?digits = "map (nibble_digit ptr) (rev [0..<16])"
  let ?line = "pf_ports p @ map (Out8 0x3F8) ([0x70, 0x74, 0x72, 0x3D] @ ?digits @ [0x0A])"
  let ?p1 = "on_machine (installer_clear_bss (hardware env) (fst bss) (snd bss))
    (write_bytes_to_port 0x3F8 (map of_nat (str ''[kernel] Starting up '' @ [10])) (print_pointer ptr p))"
  obtain out1 where p1: "pf_ports ?p1 = ?line @ out1" unfolding keeps_ports write_bytes_to_port_log print_pointer_log by simp
  obtain r k where i: "installer_init env bi (pf_kernel ?p1) = (r, k)" by fastforce
  obtain out2 where "pf_ports (snd (installer_entry env hl bss ptr bi info p)) = pf_ports ?p1 @ out2"
    using serial_print_appends [of hl _ "?p1\<lparr>pf_kernel := k\<rparr>"] unfolding installer_entry_def Let_def i
    by (fastforce simp: exit_qemu_def installer_panic_def port_write_def split: result.split)
  then have "pf_ports (snd (installer_entry env hl bss ptr bi info p)) = ?line @ out1 @ out2" unfolding p1 by simp
  moreover have "read_hex 0 ?digits = unat ptr"
    using unat_u64_less [of ptr] unfolding read_hex_digits by simp
  ultimately show ?thesis
    by (intro exI [of _ "fst (installer_entry env hl bss ptr bi info p)"] exI [of _ "snd (installer_entry env hl bss ptr bi info p)"]
        exI [of _ ?digits] exI [of _ "out1 @ out2"]) (simp del: upt_rec_numeral)
qed

section \<open>Double faults\<close>

lemma cpu_wr_again: "cpu_wr mm ptr [b] (cpu_wr mm ptr [a] m) = cpu_wr mm ptr [b] m"
proof -
  have "poke a' [b] (poke a' [a] r) = poke a' [b] r" for a' r by (rule ext) (simp add: poke_def)
  then show ?thesis by (simp add: cpu_wr_def)
qed

lemma write_volatile_all_last:
  "bs \<noteq> [] \<Longrightarrow> write_volatile_all mm ptr bs m = cpu_wr mm ptr [last bs] m"
  by (induction mm ptr bs m rule: write_volatile_all.induct) (auto simp: cpu_wr_again)

text \<open>
  The handler of a double fault sends nothing to any port. It stores the characters of its message one after the other in the
  byte of main memory at the address 0x3F8, where the last one, the line feed, stays.
\<close>

theorem double_fault_is_silent:
  "\<exists>p'. double_fault_handler mm p = (HltLoop, p') \<and> pf_ports p' = pf_ports p
     \<and> k_machine (pf_kernel p') = cpu_wr mm 0x3F8 [0x0A] (k_machine (pf_kernel p))"
proof -
  let ?msg = "map of_nat (str ''DOUBLE_FAULT'' @ [13, 10]) :: u8 list"
  have l: "last ?msg = 0x0A" and n: "?msg \<noteq> []" by simp_all
  show ?thesis
    unfolding double_fault_handler_def on_machine_def write_volatile_all_last [OF n] l by simp
qed

section \<open>The stack of the double fault gate\<close>

text \<open>Virtual addresses are canonical: the upper 17 bits are equal.\<close>

definition canonical :: "u64 \<Rightarrow> bool" where
  "canonical a \<longleftrightarrow> unat a < 2 ^ 47 \<or> 2 ^ 64 - 2 ^ 47 \<le> unat a"

lemma canonical_aligned:
  assumes "canonical a" "k < 47"
  shows "canonical (of_nat (unat a div 2 ^ k * 2 ^ k))"
proof -
  define b where "b = unat a div 2 ^ k * 2 ^ k"
  have b: "b \<le> unat a" by (simp add: b_def div_times_less_eq_dividend)
  then have u: "unat (of_nat b :: u64) = b" using unat_u64_less [of a] by (simp add: unat_of_nat)
  have e: "(2 ^ 64 - 2 ^ 47 :: nat) = (2 ^ (64 - k) - 2 ^ (47 - k)) * 2 ^ k"
    using assms(2) by (simp add: diff_mult_distrib flip: power_add)
  have "2 ^ 64 - 2 ^ 47 \<le> b" if "2 ^ 64 - 2 ^ 47 \<le> unat a"
    using that unfolding e b_def by (intro mult_right_mono) (simp_all add: less_eq_div_iff_mult_less_eq)
  then show ?thesis using assms(1) b unfolding canonical_def b_def [symmetric] u by linarith
qed

locale virt_addrs =
  fixes va :: virt_ops
  assumes new_ok: "canonical a \<Longrightarrow> va_new va a = Ok a"
    and add_ok: "canonical a \<Longrightarrow> canonical (a + n) \<Longrightarrow> unat a + unat n < 2 ^ 64 \<Longrightarrow> va_add va a n = Ok (a + n)"
    and align_down_ok: "canonical a \<Longrightarrow> n = 2 ^ k \<Longrightarrow> k < 47 \<Longrightarrow> va_align_down va a n = Ok (of_nat (unat a div 2 ^ k * 2 ^ k))"
begin

lemma stack_top:
  assumes "unat stack + 20480 < 2 ^ 47" "16 dvd unat stack"
  shows "TSS va stack = Ok \<lparr>interrupt_stack_table = (replicate 7 0)[0 := stack + STACK_SIZE]\<rparr>"
proof -
  have u: "unat (stack + 20480) = unat stack + 20480" using assms(1) by (simp add: unat_word_ariths)
  have c: "canonical stack" "canonical (stack + 20480)" using assms(1) u by (simp_all add: canonical_def)
  have "16 dvd unat stack + 20480" using assms(2) by simp
  then have "unat (stack + 20480) div 2 ^ 4 * 2 ^ 4 = unat (stack + 20480)" unfolding u by simp
  then have a: "va_align_down va (stack + 20480) 16 = Ok (stack + 20480)"
    using align_down_ok [OF c(2), of 16 4] by simp
  have "va_add va stack 20480 = Ok (stack + 20480)" using add_ok [OF c] assms(1) by simp
  then show ?thesis using new_ok [OF c(1)] a by (simp add: TSS_def set_r_Ok blit_def numeral_eq_Suc)
qed

end

text \<open>
  The laws of \<open>GlobalDescriptorTable\<close>: there is room for the null descriptor and seven further slots, and a selector that was
  handed out selects its descriptor from then on.
\<close>

locale descriptor_table =
  fixes gc :: "('d, 'g) gdt_crate" and slots :: "'g \<Rightarrow> nat" and width :: "'d \<Rightarrow> nat" and selects :: "'g \<Rightarrow> u16 \<Rightarrow> 'd option"
  assumes new_slots: "slots (gdt_new gc) = 1"
    and widths: "width (kernel_code_segment gc) = 1" "width (kernel_data_segment gc) = 1" "width (tss_segment gc t) = 2"
    and append_ok: "slots g + width d \<le> 8 \<Longrightarrow> \<exists>sel g'. gdt_append gc d g = (Ok sel, g') \<and> slots g' = slots g + width d
      \<and> selects g' sel = Some d \<and> (\<forall>s d'. selects g s = Some d' \<longrightarrow> selects g' s = Some d')"
begin

lemma gdt_built:
  assumes "TSS va stack = Ok t"
  obtains sel g where "GDT gc va stack = (Ok sel, g)" "selects g (code_selector sel) = Some (kernel_code_segment gc)"
    "selects g (data_selector sel) = Some (kernel_data_segment gc)" "selects g (tss_selector sel) = Some (tss_segment gc t)"
proof -
  obtain c g1 where 1: "gdt_append gc (kernel_code_segment gc) (gdt_new gc) = (Ok c, g1)" "slots g1 = 2"
      "selects g1 c = Some (kernel_code_segment gc)"
    using append_ok [of "gdt_new gc" "kernel_code_segment gc"] new_slots widths by auto
  obtain d g2 where 2: "gdt_append gc (kernel_data_segment gc) g1 = (Ok d, g2)" "slots g2 = 3"
      "selects g2 d = Some (kernel_data_segment gc)" "selects g2 c = Some (kernel_code_segment gc)"
    using append_ok [of g1 "kernel_data_segment gc"] 1 widths by auto
  obtain s g3 where 3: "gdt_append gc (tss_segment gc t) g2 = (Ok s, g3)" "selects g3 s = Some (tss_segment gc t)"
      "selects g3 d = Some (kernel_data_segment gc)" "selects g3 c = Some (kernel_code_segment gc)"
    using append_ok [of g2 "tss_segment gc t"] 2 widths by auto
  show thesis
    by (rule that [of "\<lparr>code_selector = c, data_selector = d, tss_selector = s\<rparr>" g3])
      (use 1(1) 2(1) 3 assms in \<open>simp_all add: GDT_def\<close>)
qed

end

text \<open>The two interfaces hold of addresses checked as the crate documents it and of a table of eight slots.\<close>

definition checked_va :: virt_ops where
  "checked_va =
     (let new = (\<lambda>a. if canonical a then Ok a else Panic) in
      \<lparr>va_new = new, va_add = (\<lambda>a n. case checked_add a n of Some b \<Rightarrow> new b | None \<Rightarrow> Panic),
       va_align_down = (\<lambda>a n. new (of_nat (unat a div unat n * unat n)))\<rparr>)"

datatype sample_descriptor = CodeSeg | DataSeg | TssSeg TaskStateSegment

fun slot_width :: "sample_descriptor \<Rightarrow> nat" where
  "slot_width (TssSeg _) = 2"
| "slot_width _ = 1"

definition slot_count :: "sample_descriptor list \<Rightarrow> nat" where
  "slot_count ds = 1 + (\<Sum>d \<leftarrow> ds. slot_width d)"

definition slot_gdt :: "(sample_descriptor, sample_descriptor list) gdt_crate" where
  "slot_gdt =
     \<lparr>gdt_new = [],
      gdt_append = (\<lambda>d ds. if slot_count (ds @ [d]) \<le> 8 then (Ok (of_nat (slot_count ds * 8)), ds @ [d]) else (Panic, ds)),
      kernel_code_segment = CodeSeg, kernel_data_segment = DataSeg, tss_segment = TssSeg\<rparr>"

fun slot_find :: "nat \<Rightarrow> sample_descriptor list \<Rightarrow> nat \<Rightarrow> sample_descriptor option" where
  "slot_find n [] i = None"
| "slot_find n (d # ds) i = (if i = n * 8 then Some d else slot_find (n + slot_width d) ds i)"

lemma slot_width_pos: "0 < slot_width d"
  by (cases d) simp_all

lemma slot_find_above: "(n + (\<Sum>d \<leftarrow> ds. slot_width d)) * 8 \<le> i \<Longrightarrow> slot_find n ds i = None"
proof (induction n ds i rule: slot_find.induct)
  case (2 n d ds i)
  then show ?case using slot_width_pos [of d] by (simp add: add.assoc)
qed simp

lemma slot_find_append:
  "slot_find n (ds @ [d]) i =
     (case slot_find n ds i of Some x \<Rightarrow> Some x | None \<Rightarrow> if i = (n + (\<Sum>d \<leftarrow> ds. slot_width d)) * 8 then Some d else None)"
  by (induction n ds i rule: slot_find.induct) (simp_all add: add.assoc)

interpretation sg: descriptor_table slot_gdt slot_count slot_width "\<lambda>g s. slot_find 1 g (unat s)"
proof
  fix g d
  assume room: "slot_count g + slot_width d \<le> 8"
  have "unat (of_nat (slot_count g * 8) :: u16) = slot_count g * 8" using room by (simp add: unat_of_nat del: of_nat_mult)
  moreover have "slot_find 1 g (slot_count g * 8) = None" by (intro slot_find_above) (simp add: slot_count_def)
  ultimately show "\<exists>sel g'. gdt_append slot_gdt d g = (Ok sel, g') \<and> slot_count g' = slot_count g + slot_width d
      \<and> slot_find 1 g' (unat sel) = Some d \<and> (\<forall>s d'. slot_find 1 g (unat s) = Some d' \<longrightarrow> slot_find 1 g' (unat s) = Some d')"
    using room by (simp add: slot_gdt_def slot_count_def slot_find_append)
qed (simp_all add: slot_gdt_def slot_count_def)

interpretation cv: virt_addrs checked_va
proof
  fix a n :: u64 and k
  assume c: "canonical a"
  show "va_new checked_va a = Ok a" using c by (simp add: checked_va_def Let_def)
  show "va_add checked_va a n = Ok (a + n)" if "canonical (a + n)" "unat a + unat n < 2 ^ 64"
    using that by (simp add: checked_va_def Let_def checked_add_def)
  show "va_align_down checked_va a n = Ok (of_nat (unat a div 2 ^ k * 2 ^ k))" if n: "n = 2 ^ k" and k: "k < 47"
  proof -
    have "unat (of_nat (2 ^ k) :: u64) = 2 ^ k"
      using power_strict_increasing [of k 64 "2 :: nat"] k by (simp add: unat_of_nat del: of_nat_power)
    then have "unat n = 2 ^ k" by (simp add: n)
    moreover have "canonical (of_nat (unat a div 2 ^ k * 2 ^ k))" by (rule canonical_aligned [OF c k])
    ultimately show ?thesis using n by (simp add: checked_va_def Let_def)
  qed
qed

text \<open>
  C39: with the stack of the double fault handler aligned as its type demands and in the lower half of the address space,
  \<open>gdt::init\<close> returns with every segment register selecting the descriptor meant for it, and the entry of the task
  state segment that the double fault gate of the interrupt table names is the end of that stack: 20480 bytes above its
  start, not past it, and a multiple of 16.
\<close>

theorem double_fault_stack_in_bounds:
  assumes "virt_addrs va" "descriptor_table gc slots width selects"
    and "unat stack + 20480 < 2 ^ 47" "16 dvd unat stack"
  shows "\<exists>r' g t i. gdt_init gc va stack r = Ok r' \<and> gdtr r' = Some g \<and> selects g (seg_cs r') = Some (kernel_code_segment gc)
    \<and> selects g (seg_ds r') = Some (kernel_data_segment gc) \<and> selects g (seg_ss r') = Some (kernel_data_segment gc)
    \<and> selects g (seg_tr r') = Some (tss_segment gc t) \<and> IDT 8 = Some (DoubleFaultGate i)
    \<and> i < length (interrupt_stack_table t) \<and> unat (interrupt_stack_table t ! i) = unat stack + 20480
    \<and> 16 dvd unat (interrupt_stack_table t ! i)"
proof -
  have u: "unat (stack + 20480) = unat stack + 20480" using assms(3) by (simp add: unat_word_ariths)
  note t = virt_addrs.stack_top [OF assms(1,3,4)]
  have i: "IDT 8 = Some (DoubleFaultGate 0)" by (simp add: IDT_def)
  obtain sel g where "GDT gc va stack = (Ok sel, g)" "selects g (code_selector sel) = Some (kernel_code_segment gc)"
    "selects g (data_selector sel) = Some (kernel_data_segment gc)"
    "selects g (tss_selector sel) = Some (tss_segment gc \<lparr>interrupt_stack_table = (replicate 7 0)[0 := stack + STACK_SIZE]\<rparr>)"
    by (rule descriptor_table.gdt_built [OF assms(2) t])
  then show ?thesis using u i assms(4) by (auto simp: gdt_init_def Let_def intro!: exI)
qed

theorem double_fault_stack_in_bounds_witness:
  "\<exists>r' g t. gdt_init slot_gdt checked_va 0x612340 \<lparr>gdtr = None, seg_cs = 8, seg_ds = 0, seg_ss = 0, seg_tr = 0\<rparr> = Ok r'
     \<and> gdtr r' = Some g \<and> slot_find 1 g (unat (seg_tr r')) = Some (TssSeg t) \<and> unat (interrupt_stack_table t ! 0) = 0x617340"
proof -
  have "16 dvd unat (0x612340 :: u64)" by simp
  then show ?thesis
    using double_fault_stack_in_bounds [OF cv.virt_addrs_axioms sg.descriptor_table_axioms, of "0x612340"
        "\<lparr>gdtr = None, seg_cs = 8, seg_ds = 0, seg_ss = 0, seg_tr = 0\<rparr>"]
    by (auto simp: IDT_def slot_gdt_def)
qed

section \<open>Panics\<close>

context heapless_string
begin

lemma try_push_fits:
  "str_len (hs_text ho s @ t) \<le> bytes \<Longrightarrow> \<exists>s'. try_push ho s t = Some s' \<and> hs_text ho s' = hs_text ho s @ t"
  using push_str_text [of s t] by (auto simp: try_push_def split: prod.split bool.split)

lemma try_push_full: "bytes < str_len (hs_text ho s @ t) \<Longrightarrow> try_push ho s t = None"
  using push_str_no_room [of s t] by (auto simp: try_push_def split: prod.split)

lemma pieces_fit:
  "str_len (hs_text ho s @ concat ts) \<le> bytes \<Longrightarrow>
     \<exists>s'. write_pieces (try_push ho) ts s = (True, s') \<and> hs_text ho s' = hs_text ho s @ concat ts"
proof (induction ts arbitrary: s)
  case (Cons t ts)
  then obtain s' where "try_push ho s t = Some s'" "hs_text ho s' = hs_text ho s @ t"
    using try_push_fits [of s t] by auto
  then show ?case using Cons.IH [of s'] Cons.prems by simp
qed simp

lemma pieces_overflow:
  "str_len (hs_text ho s) \<le> bytes \<Longrightarrow> bytes < str_len (hs_text ho s @ concat ts) \<Longrightarrow> \<not> fst (write_pieces (try_push ho) ts s)"
proof (induction ts arbitrary: s)
  case (Cons t ts)
  show ?case
  proof (cases "str_len (hs_text ho s @ t) \<le> bytes")
    case True
    then obtain s' where "try_push ho s t = Some s'" "hs_text ho s' = hs_text ho s @ t" using try_push_fits [of s t] by auto
    then show ?thesis using Cons.IH [of s'] Cons.prems True by simp
  qed (simp add: try_push_full)
qed simp

lemma print_serial_bounded:
  "print_serial (try_push ho) (hs_new ho) (hs_text ho) args =
     (if 9 + str_len (concat args) \<le> bytes then str ''[kernel] '' @ concat args else [])"
proof -
  have p: "str_len (str ''[kernel] '') = 9" by (simp add: str_def str_len_def utf8_width_def)
  show ?thesis
  proof (cases "9 + str_len (concat args) \<le> bytes")
    case True
    then show ?thesis
      using pieces_fit [of "hs_new ho" "str ''[kernel] '' # args"] p by (auto simp: print_serial_def new_text)
  next
    case False
    then have "\<not> fst (write_pieces (try_push ho) (str ''[kernel] '' # args) (hs_new ho))"
      using p by (intro pieces_overflow) (simp_all add: new_text str_len_def)
    then obtain buf where "write_pieces (try_push ho) (str ''[kernel] '' # args) (hs_new ho) = (False, buf)" by (metis prod.collapse)
    then show ?thesis using False by (simp add: print_serial_def)
  qed
qed

lemma panic_report:
  assumes "bytes = 256"
  shows "kernel_panic ho info p = (NopLoop, p\<lparr>pf_ports := pf_ports p
     @ (if str_len info \<le> 238 then [Uart (str ''[kernel] panic! '' @ info @ [10, 10])] else []) @ [Out32 0xF4 0x11]\<rparr>)"
proof -
  have "str_len (concat [str ''panic! '', info, [10, 10]]) = 9 + str_len info"
    by (simp add: str_def str_len_def utf8_width_def)
  then have "print_serial (try_push ho) (hs_new ho) (hs_text ho) [str ''panic! '', info, [10, 10]] =
      (if str_len info \<le> 238 then str ''[kernel] panic! '' @ info @ [10, 10] else [])"
    unfolding print_serial_bounded assms by (auto simp: str_def)
  then show ?thesis by (simp add: kernel_panic_def exit_qemu_def port_write_def serial_print_def str_def)
qed

end

text \<open>
  The kernel either reaches its executor, without having written to a port, or it leaves QEMU with the code of a failure. In
  the second case the text of the panic is sent first if it has at most 238 bytes in UTF-8, and is lost altogether if it has more.
\<close>

theorem kernel_entry_ends:
  assumes "heapless_string hl 256"
  shows "\<exists>e p' sys'. kernel_entry env hl qo bss bi shell info (p, sys) = (e, p', sys')
    \<and> (e = ExecutorLoop \<and> pf_ports p' = pf_ports p
      \<or> e = NopLoop \<and> pf_ports p' = pf_ports p
          @ (if str_len info \<le> 238 then [Uart (str ''[kernel] panic! '' @ info @ [10, 10])] else []) @ [Out32 0xF4 0x11])"
proof -
  let ?p = "on_machine (clear_bss (hardware env) (fst bss) (snd bss)) p"
  obtain r k sys' where s: "kernel_start env qo bi shell (pf_kernel ?p, sys) = (r, k, sys')" by (metis prod_cases3)
  show ?thesis
    using heapless_string.panic_report [OF assms refl, of info "?p\<lparr>pf_kernel := k\<rparr>"]
    by (cases r) (simp_all add: kernel_entry_def s)
qed

theorem kernel_entry_ends_witness:
  "pf_ports (fst (snd (kernel_entry sample_env (list_string 256) list_queue (0x680000, 0x690000) sample_boot (7 :: nat) (replicate 239 65)
     (\<lparr>pf_kernel = sample_kernel, pf_ports = []\<rparr>, boot_system cell_waker list_queue :: (nat, nat \<times> TaskId list, nat \<times> u8 list, TaskId option) System))))
   \<in> {[], [Out32 0xF4 0x11]}"
proof -
  have "\<not> str_len (replicate 239 65) \<le> 238" by (simp add: str_len_def utf8_width_def sum_list_replicate)
  then show ?thesis
    using kernel_entry_ends [OF ls.heapless_string_axioms, of sample_env list_queue "(0x680000, 0x690000)" sample_boot "7 :: nat"
        "replicate 239 65" "\<lparr>pf_kernel = sample_kernel, pf_ports = []\<rparr>"
        "boot_system cell_waker list_queue :: (nat, nat \<times> TaskId list, nat \<times> u8 list, TaskId option) System"]
    by auto
qed

end
