(* ===== verification/CommandMacro.thy ===== *)
theory CommandMacro
  imports Shell
begin

text \<open>
  The attribute \<open>#[command]\<close> (\<^verbatim>\<open>src/lib/macros/src/lib.rs\<close>), at the time it is expanded: the parser of its arguments over the
  tokens \<open>syn\<close> hands to it, the classification of the parameters, the statements it puts in front of the body. What those
  statements do when the command runs is stated by \<open>run_stmts\<close>, and shown to be \<open>bind_params\<close> of the shell.
\<close>

section \<open>The arguments of the attribute\<close>

datatype token = TokIdent rstr | TokEq | TokComma | TokLit rstr | TokOther

record CommandArgs =
  ca_name :: rstr
  ca_short :: rstr
  ca_long :: rstr

datatype macro_error = UnexpectedToken | UnrecognizedArgument rstr

record parse_state =
  ps_name :: "rstr option"
  ps_short :: "rstr option"
  ps_long :: "rstr option"
  ps_err :: "macro_error option"

definition assign :: "rstr \<Rightarrow> rstr \<Rightarrow> parse_state \<Rightarrow> parse_state" where
  "assign ident v st =
     (if ident = str ''name'' then st\<lparr>ps_name := Some v\<rparr>
      else if ident = str ''short'' then st\<lparr>ps_short := Some v\<rparr>
      else if ident = str ''long'' then st\<lparr>ps_long := Some v\<rparr>
      else st\<lparr>ps_err := Some (UnrecognizedArgument ident)\<rparr>)"

text \<open>One turn of the loop takes an identifier, \<open>=\<close>, a literal and a comma if there is one; the comma is optional.\<close>

fun parse_args :: "token list \<Rightarrow> parse_state \<Rightarrow> (parse_state, macro_error) result" where
  "parse_args [] st = Ok st"
| "parse_args (TokIdent i # TokEq # TokLit v # TokComma # ts) st = parse_args ts (assign i v st)"
| "parse_args (TokIdent i # TokEq # TokLit v # ts) st = parse_args ts (assign i v st)"
| "parse_args ts st = Err UnexpectedToken"

definition parse_command_args :: "token list \<Rightarrow> (CommandArgs, macro_error) result" where
  "parse_command_args ts =
     rbind (parse_args ts \<lparr>ps_name = None, ps_short = None, ps_long = None, ps_err = None\<rparr>) (\<lambda>st.
       case ps_err st of
         Some e \<Rightarrow> Err e
       | None \<Rightarrow>
           (case (ps_name st, ps_short st, ps_long st) of
              (Some n, Some s, Some l) \<Rightarrow> Ok \<lparr>ca_name = n, ca_short = s, ca_long = l\<rparr>
            | _ \<Rightarrow> Panic))"

section \<open>Parameters\<close>

text \<open>A type as far as the macro looks at it: the segments of a path with the type arguments of the last, or another type.\<close>

datatype rust_type = PathType "rstr list" "rust_type list" | OtherType

record fn_param =
  fp_ident :: "rstr option"
  fp_type :: rust_type
  fp_attrs :: "rstr list"

datatype fn_arg = Receiver | Typed fn_param

fun is_option :: "rust_type \<Rightarrow> bool" where
  "is_option (PathType segs args) = (segs \<noteq> [] \<and> last segs = str ''Option'')"
| "is_option OtherType = False"

definition has_flag_attr :: "rstr list \<Rightarrow> bool" where
  "has_flag_attr attrs \<longleftrightarrow> list_ex (\<lambda>a. a = str ''flag'') attrs"

definition strip_flag_attr :: "rstr list \<Rightarrow> rstr list" where
  "strip_flag_attr attrs = filter (\<lambda>a. a \<noteq> str ''flag'') attrs"

section \<open>The expansion\<close>

datatype 'b stmt =
    LetArgs
  | LetIter
  | LetFlag rstr rstr
  | LetOption rstr rust_type
  | LetRequired rstr rust_type rstr
  | Body 'b

fun param_stmt :: "fn_arg \<Rightarrow> 'b stmt option" where
  "param_stmt Receiver = None"
| "param_stmt (Typed pt) =
     (case fp_ident pt of
        None \<Rightarrow> None
      | Some ident \<Rightarrow>
          Some (if has_flag_attr (fp_attrs pt) then LetFlag ident (str ''--'' @ ident)
                else if is_option (fp_type pt) then LetOption ident (fp_type pt)
                else LetRequired ident (fp_type pt) ident))"

record 'b expansion =
  ex_stmts :: "'b stmt list"
  ex_wrapper :: rstr
  ex_static :: rstr
  ex_entry :: CommandArgs

text \<open>\<open>to_upper\<close> is \<open>str::to_uppercase\<close>.\<close>

definition expand_command ::
    "(rstr \<Rightarrow> rstr) \<Rightarrow> token list \<Rightarrow> rstr \<Rightarrow> fn_arg list \<Rightarrow> 'b list \<Rightarrow> ('b expansion, macro_error) result" where
  "expand_command to_upper attr fn_name inputs body =
     rbind (parse_command_args attr) (\<lambda>args.
       Ok \<lparr>ex_stmts = LetArgs # LetIter # List.map_filter param_stmt inputs @ map Body body,
           ex_wrapper = fn_name @ str ''_wrapper'', ex_static = to_upper fn_name @ str ''_CMD_ENTRY'', ex_entry = args\<rparr>)"

section \<open>What the statements do\<close>

text \<open>
  The variables of the running function: \<open>__args\<close>, what is left of the iterator, and the values bound so far. \<open>Err\<close> is the
  early return after the message that names an argument.
\<close>

record frame =
  fr_args :: "rstr list"
  fr_iter :: "rstr list"
  fr_values :: "arg_value list"

definition next_arg :: "(rstr \<Rightarrow> arg_value option) \<Rightarrow> frame \<Rightarrow> arg_value option \<times> frame" where
  "next_arg parse fr =
     (case fr_iter fr of [] \<Rightarrow> (None, fr) | s # rest \<Rightarrow> (parse s, fr\<lparr>fr_iter := rest\<rparr>))"

text \<open>\<open>parse_as\<close> is \<open>str::parse\<close> at a type; for an \<open>Option\<close> it is that of its argument.\<close>

fun run_stmt :: "(rust_type \<Rightarrow> rstr \<Rightarrow> arg_value option) \<Rightarrow> rstr list \<Rightarrow> 'b stmt \<Rightarrow> frame \<Rightarrow> (frame, rstr) result" where
  "run_stmt parse_as args LetArgs fr = Ok (fr\<lparr>fr_args := args\<rparr>)"
| "run_stmt parse_as args LetIter fr = Ok (fr\<lparr>fr_iter := filter (\<lambda>a. take 2 a \<noteq> str ''--'') args\<rparr>)"
| "run_stmt parse_as args (LetFlag ident flag_str) fr =
     Ok (fr\<lparr>fr_values := fr_values fr @ [BoolV (list_ex (\<lambda>a. a = flag_str) (fr_args fr))]\<rparr>)"
| "run_stmt parse_as args (LetOption ident ty) fr =
     (case next_arg (case ty of PathType _ [t] \<Rightarrow> parse_as t | _ \<Rightarrow> (\<lambda>_. None)) fr of
        (v, fr) \<Rightarrow> Ok (fr\<lparr>fr_values := fr_values fr @ [case v of Some v \<Rightarrow> v | None \<Rightarrow> NoneV]\<rparr>))"
| "run_stmt parse_as args (LetRequired ident ty name) fr =
     (case next_arg (parse_as ty) fr of
        (Some v, fr) \<Rightarrow> Ok (fr\<lparr>fr_values := fr_values fr @ [v]\<rparr>)
      | (None, fr) \<Rightarrow> Err name)"
| "run_stmt parse_as args (Body b) fr = Ok fr"

fun run_stmts :: "(rust_type \<Rightarrow> rstr \<Rightarrow> arg_value option) \<Rightarrow> rstr list \<Rightarrow> 'b stmt list \<Rightarrow> frame \<Rightarrow> (frame, rstr) result" where
  "run_stmts parse_as args [] fr = Ok fr"
| "run_stmts parse_as args (s # ss) fr = rbind (run_stmt parse_as args s fr) (run_stmts parse_as args ss)"

section \<open>Commands of the shell\<close>

fun type_of :: "arg_type \<Rightarrow> rust_type" where
  "type_of TString = PathType [str ''String''] []"
| "type_of TUsize = PathType [str ''usize''] []"

definition parse_std :: "rust_type \<Rightarrow> rstr \<Rightarrow> arg_value option" where
  "parse_std ty s =
     (if ty = type_of TString then parse_arg TString s else if ty = type_of TUsize then parse_arg TUsize s else None)"

lemma parse_std_type_of [simp]: "parse_std (type_of ty) s = parse_arg ty s"
  by (cases ty) (auto simp: parse_std_def str_def)

text \<open>The source of a parameter as the command functions of the shell declare it.\<close>

fun declares :: "param \<Rightarrow> fn_arg \<Rightarrow> bool" where
  "declares (Flag name) a = (\<exists>ty attrs. a = Typed \<lparr>fp_ident = Some name, fp_type = ty, fp_attrs = attrs\<rparr> \<and> str ''flag'' \<in> set attrs)"
| "declares (Optional ty) a = (\<exists>name attrs. a = Typed \<lparr>fp_ident = Some name,
       fp_type = PathType [str ''Option''] [type_of ty], fp_attrs = attrs\<rparr> \<and> str ''flag'' \<notin> set attrs)"
| "declares (Required name ty) a =
     (\<exists>attrs. a = Typed \<lparr>fp_ident = Some name, fp_type = type_of ty, fp_attrs = attrs\<rparr> \<and> str ''flag'' \<notin> set attrs)"

lemma has_flag_attr_iff: "has_flag_attr attrs \<longleftrightarrow> str ''flag'' \<in> set attrs"
  by (auto simp: has_flag_attr_def list_ex_iff)

lemma type_of_not_option [simp]: "\<not> is_option (type_of ty)"
  by (cases ty) (auto simp: str_def)

lemma run_body: "run_stmts parse_as args (map Body body) fr = Ok fr"
  by (induction body) auto

lemma run_params:
  assumes "list_all2 declares ps inputs"
  shows "run_stmts parse_std args (List.map_filter param_stmt inputs @ map Body body) \<lparr>fr_args = args, fr_iter = rest, fr_values = vs\<rparr>
    = rbind (bind_params ps args rest)
        (\<lambda>ws. Ok \<lparr>fr_args = args, fr_iter = drop (length (filter (\<lambda>p. \<not> is_Flag p) ps)) rest, fr_values = vs @ ws\<rparr>)"
  using assms
proof (induction ps inputs arbitrary: rest vs rule: list_all2_induct)
  case Nil
  then show ?case by (simp add: List.map_filter_def run_body)
next
  case (Cons p ps a inputs)
  show ?case
  proof (cases p)
    case (Flag name)
    then show ?thesis using Cons
      by (auto simp: List.map_filter_def has_flag_attr_iff list_ex_iff rbind_assoc image_iff)
  next
    case (Optional ty)
    then show ?thesis using Cons
      by (cases rest) (auto simp: List.map_filter_def has_flag_attr_iff next_arg_def rbind_assoc split: option.splits)
  next
    case (Required name ty)
    then show ?thesis using Cons
      by (cases rest) (auto simp: List.map_filter_def has_flag_attr_iff next_arg_def rbind_assoc split: option.splits)
  qed
qed

text \<open>
  The statements the attribute generates bind the parameters as \<open>bind_params\<close> of the shell does: in the order of the
  declaration, flags from all arguments, the others from those that do not begin with two dashes; or they stop
  with the name of the first argument that is missing or does not parse.
\<close>

theorem expansion_binds_params:
  assumes "parse_command_args attr = Ok info" "list_all2 declares ps inputs"
  shows "\<exists>x. expand_command to_upper attr fn_name inputs body = Ok x \<and> ex_entry x = info
    \<and> rbind (run_stmts parse_std args (ex_stmts x) \<lparr>fr_args = [], fr_iter = [], fr_values = []\<rparr>) (\<lambda>fr. Ok (fr_values fr))
      = bind_params ps args (filter (\<lambda>a. take 2 a \<noteq> str ''--'') args)"
proof -
  let ?rest = "filter (\<lambda>a. take 2 a \<noteq> str ''--'') args"
  have "rbind (bind_params ps args ?rest) (\<lambda>ws. Ok ws) = bind_params ps args ?rest"
    by (cases "bind_params ps args ?rest") auto
  then show ?thesis
    using assms(1) run_params [OF assms(2), of args body ?rest "[]"] by (simp add: expand_command_def rbind_assoc)
qed

text \<open>The declaration of \<open>echo\<close>.\<close>

theorem expansion_binds_params_witness:
  "\<exists>x. expand_command (\<lambda>s. s)
      [TokIdent (str ''name''), TokEq, TokLit (str ''echo''), TokComma, TokIdent (str ''short''), TokEq, TokLit (str ''Print''), TokComma,
       TokIdent (str ''long''), TokEq, TokLit (str ''Print text'')] (str ''cmd_echo'')
      [Typed \<lparr>fp_ident = Some (str ''text''), fp_type = PathType [str ''String''] [], fp_attrs = []\<rparr>,
       Typed \<lparr>fp_ident = Some (str ''upper''), fp_type = PathType [str ''bool''] [], fp_attrs = [str ''flag'']\<rparr>] [()] = Ok x
    \<and> rbind (run_stmts parse_std [str ''--upper'', str ''hi''] (ex_stmts x) \<lparr>fr_args = [], fr_iter = [], fr_values = []\<rparr>) (\<lambda>fr. Ok (fr_values fr))
      = Ok [StrV (str ''hi''), BoolV True]"
proof -
  let ?attr = "[TokIdent (str ''name''), TokEq, TokLit (str ''echo''), TokComma, TokIdent (str ''short''), TokEq, TokLit (str ''Print''), TokComma,
       TokIdent (str ''long''), TokEq, TokLit (str ''Print text'')]"
  have a: "parse_command_args ?attr = Ok \<lparr>ca_name = str ''echo'', ca_short = str ''Print'', ca_long = str ''Print text''\<rparr>"
    by (simp add: parse_command_args_def assign_def str_def)
  have d: "list_all2 declares [Required (str ''text'') TString, Flag (str ''upper'')]
      [Typed \<lparr>fp_ident = Some (str ''text''), fp_type = PathType [str ''String''] [], fp_attrs = []\<rparr>,
       Typed \<lparr>fp_ident = Some (str ''upper''), fp_type = PathType [str ''bool''] [], fp_attrs = [str ''flag'']\<rparr>]" by simp
  have "bind_params [Required (str ''text'') TString, Flag (str ''upper'')] [str ''--upper'', str ''hi'']
      (filter (\<lambda>a. take 2 a \<noteq> str ''--'') [str ''--upper'', str ''hi'']) = Ok [StrV (str ''hi''), BoolV True]"
    by (simp add: str_def)
  then show ?thesis
    using expansion_binds_params [OF a d, of "\<lambda>s. s" "str ''cmd_echo''" "[()]" "[str ''--upper'', str ''hi'']"] by metis
qed

end
