(* ===== verification/Display.thy ===== *)
theory Display
  imports Registry
begin

text \<open>
  The rest of the interfaces of \<^verbatim>\<open>src/lib/hal\<close> and its users: the display traits with their default methods and the named
  colours (\<^verbatim>\<open>display/mod.rs\<close>), and the messages of the error types. No display driver is in the repository, so the
  traits appear as records of the methods an implementation supplies.
\<close>

section \<open>Colours\<close>

definition Color_new :: "u8 \<Rightarrow> u8 \<Rightarrow> u8 \<Rightarrow> Color" where
  "Color_new r g b = \<lparr>red = r, green = g, blue = b\<rparr>"

definition named_colors :: "(rstr \<times> Color) list" where
  "named_colors =
     [(str ''BLACK'', Color_new 0 0 0), (str ''WHITE'', Color_new 255 255 255), (str ''RED'', Color_new 255 0 0),
      (str ''GREEN'', Color_new 0 255 0), (str ''BLUE'', Color_new 0 0 255), (str ''YELLOW'', Color_new 255 255 0),
      (str ''CYAN'', Color_new 0 255 255), (str ''MAGENTA'', Color_new 255 0 255),
      (str ''GRAY'', Color_new 128 128 128), (str ''LIGHT_GRAY'', Color_new 192 192 192), (str ''DARK_GRAY'', Color_new 64 64 64),
      (str ''DARK_RED'', Color_new 139 0 0), (str ''DARK_GREEN'', Color_new 0 139 0), (str ''DARK_BLUE'', Color_new 0 0 139),
      (str ''LIGHT_RED'', Color_new 255 102 102), (str ''LIGHT_GREEN'', Color_new 102 255 102), (str ''LIGHT_BLUE'', Color_new 102 102 255),
      (str ''ORANGE'', Color_new 255 165 0), (str ''DARK_ORANGE'', Color_new 255 140 0), (str ''BROWN'', Color_new 139 69 19),
      (str ''TAN'', Color_new 210 180 140),
      (str ''PINK'', Color_new 255 182 193), (str ''HOT_PINK'', Color_new 255 105 180), (str ''PURPLE'', Color_new 128 0 128),
      (str ''VIOLET'', Color_new 238 130 238), (str ''INDIGO'', Color_new 75 0 130),
      (str ''BRIGHT_BLACK'', Color_new 85 85 85), (str ''BRIGHT_RED'', Color_new 255 85 85), (str ''BRIGHT_GREEN'', Color_new 85 255 85),
      (str ''BRIGHT_YELLOW'', Color_new 255 255 85), (str ''BRIGHT_BLUE'', Color_new 85 85 255), (str ''BRIGHT_MAGENTA'', Color_new 255 85 255),
      (str ''BRIGHT_CYAN'', Color_new 85 255 255), (str ''BRIGHT_WHITE'', Color_new 255 255 255),
      (str ''TRANSPARENT_BLACK'', Color_new 0 0 0), (str ''CORNFLOWER_BLUE'', Color_new 100 149 237), (str ''TEAL'', Color_new 0 128 128),
      (str ''OLIVE'', Color_new 128 128 0), (str ''MAROON'', Color_new 128 0 0), (str ''NAVY'', Color_new 0 0 128),
      (str ''LIME'', Color_new 0 255 0), (str ''AQUA'', Color_new 0 255 255), (str ''FUCHSIA'', Color_new 255 0 255),
      (str ''SILVER'', Color_new 192 192 192), (str ''GOLD'', Color_new 255 215 0), (str ''SALMON'', Color_new 250 128 114),
      (str ''CORAL'', Color_new 255 127 80), (str ''TURQUOISE'', Color_new 64 224 208), (str ''MINT'', Color_new 189 252 201),
      (str ''LAVENDER'', Color_new 230 230 250), (str ''BEIGE'', Color_new 245 245 220), (str ''IVORY'', Color_new 255 255 240),
      (str ''CRIMSON'', Color_new 220 20 60), (str ''SCARLET'', Color_new 255 36 0)]"

section \<open>Displays\<close>

record Rect =
  rect_x :: u32
  rect_y :: u32
  rect_width :: u32
  rect_height :: u32

record 'd display_ops =
  disp_width :: "'d \<Rightarrow> u32"
  disp_height :: "'d \<Rightarrow> u32"
  draw_pixel :: "u32 \<Rightarrow> u32 \<Rightarrow> Color \<Rightarrow> 'd \<Rightarrow> 'd"
  fill_rect :: "Rect \<Rightarrow> Color \<Rightarrow> 'd \<Rightarrow> 'd"
  flush :: "'d \<Rightarrow> 'd"

definition display_clear :: "('d, 'z) display_ops_scheme \<Rightarrow> Color \<Rightarrow> 'd \<Rightarrow> 'd" where
  "display_clear ops color d =
     fill_rect ops \<lparr>rect_x = 0, rect_y = 0, rect_width = disp_width ops d, rect_height = disp_height ops d\<rparr> color d"

record 'd text_display_ops = "'d display_ops" +
  draw_char :: "u32 \<Rightarrow> u32 \<Rightarrow> rchar \<Rightarrow> Color \<Rightarrow> 'd \<Rightarrow> 'd"

fun draw_str :: "'d text_display_ops \<Rightarrow> u32 \<Rightarrow> u32 \<Rightarrow> rstr \<Rightarrow> Color \<Rightarrow> 'd \<Rightarrow> 'd" where
  "draw_str ops cx y [] color d = d"
| "draw_str ops cx y (c # cs) color d = draw_str ops (cx + 8) y cs color (draw_char ops cx y c color d)"

record 'd framebuffer_display_ops = "'d display_ops" +
  fbd_framebuffer :: "'d \<Rightarrow> u32 list"
  fbd_stride :: "'d \<Rightarrow> nat"

section \<open>Messages\<close>

fun io_error_str :: "IoError \<Rightarrow> rstr" where
  "io_error_str UnexpectedEof = str ''unexpected EOF''"
| "io_error_str InvalidInput = str ''invalid input''"
| "io_error_str InvalidData = str ''invalid data''"
| "io_error_str TimedOut = str ''timed out''"
| "io_error_str Interrupted = str ''interrupted''"
| "io_error_str IoError.NotFound = str ''not found''"
| "io_error_str PermissionDenied = str ''permission denied''"
| "io_error_str OutOfMemory = str ''out of memory''"
| "io_error_str Unsupported = str ''unsupported''"
| "io_error_str IoError.Other = str ''other''"

fun block_error_str :: "BlockError \<Rightarrow> rstr" where
  "block_error_str DeviceNotReady = str ''device not ready''"
| "block_error_str BlockError.DeviceError = str ''device error''"
| "block_error_str DeviceBusy = str ''device busy''"
| "block_error_str Timeout = str ''timeout''"
| "block_error_str NoMemory = str ''no memory''"
| "block_error_str OutOfBounds = str ''out of bounds''"
| "block_error_str BadSector = str ''bad sector''"
| "block_error_str ReadError = str ''read error''"
| "block_error_str WriteError = str ''write error''"
| "block_error_str InvalidGeometry = str ''invalid geometry''"
| "block_error_str UnsupportedSectorSize = str ''unsupported sector size''"
| "block_error_str InvalidRequest = str ''invalid request''"
| "block_error_str InvalidBuffer = str ''invalid buffer''"
| "block_error_str BlockError.Other = str ''other''"

fun device_error_str :: "DeviceError \<Rightarrow> rstr" where
  "device_error_str AlreadyRegistered = str ''device already registered''"
| "device_error_str DevNotFound = str ''device not found''"
| "device_error_str ProbeFailed = str ''device probe failed''"
| "device_error_str DevUnsupported = str ''unsupported operation''"
| "device_error_str (DevIo e) = str ''I/O error''"

fun driver_error_str :: "DriverError \<Rightarrow> rstr" where
  "driver_error_str BindFailed = str ''driver bind failed''"
| "driver_error_str AlreadyBound = str ''device already has a driver bound''"
| "driver_error_str NotBound = str ''no driver bound to device''"
| "driver_error_str NoDriverFound = str ''no matching driver found''"
| "driver_error_str DrvUnsupported = str ''unsupported operation''"
| "driver_error_str (DrvIo e) = str ''I/O error''"

fun bus_error_str :: "BusError \<Rightarrow> rstr" where
  "bus_error_str NotInitialized = str ''bus not initialized''"
| "bus_error_str EnumerationFailed = str ''bus enumeration failed''"
| "bus_error_str ResourceConflict = str ''resource conflict''"
| "bus_error_str DeviceRegistrationFailed = str ''device registration failed''"

section \<open>Properties\<close>

text \<open>The calls \<open>draw_str\<close> makes: character \<open>i\<close> goes to column \<open>x + 8 i\<close>, with the wrap of 32 bits.\<close>

lemma draw_str_columns:
  "draw_str ops x y s color d
   = fold (\<lambda>(i, c). draw_char ops (x + of_nat (8 * i)) y c color) (List.enumerate 0 s) d"
proof (induction s arbitrary: x d)
  case Nil
  then show ?case by simp
next
  case (Cons c s)
  have "List.enumerate (Suc 0) s = map (\<lambda>(i, c). (Suc i, c)) (List.enumerate 0 s)"
    by (rule nth_equalityI) (auto simp: nth_enumerate_eq)
  then show ?case using Cons.IH [of "x + 8"]
    by (simp add: fold_map comp_def case_prod_beta distrib_left add.assoc)
qed

lemma io_error_str_inj: "io_error_str e = io_error_str e' \<Longrightarrow> e = e'"
  by (cases e; cases e') (auto simp: str_def)

lemma block_error_str_inj: "block_error_str e = block_error_str e' \<Longrightarrow> e = e'"
  by (cases e; cases e') (auto simp: str_def)

end
