(* ===== verification/Xtask.thy ===== *)
theory Xtask
  imports Prelude "HOL-Library.List_Lexorder"
begin

text \<open>
  The build tool (\<^verbatim>\<open>src/xtask\<close>): the cache of file hashes, the search for source files, the formatter, the three
  stages of the boot loader, the disk image, and the commands. The programs it starts, the hash, the JSON format of the
  cache and the order in which \<open>rayon\<close> runs a parallel loop are parameters, gathered in \<open>tools\<close>.
\<close>

section \<open>Files and programs\<close>

text \<open>
  A directory as \<open>read_dir\<close> lists it. \<open>d_dirs\<close> gives the contents of a directory by its path (\<open>None\<close> for an error), \<open>d_files\<close>
  the bytes of a file, and \<open>d_writable\<close> tells whether a file can be written.
\<close>

datatype dir_entry = FileEntry rstr | DirEntry rstr "dir_entry list"

record Disk =
  d_dirs :: "rstr \<Rightarrow> dir_entry list option"
  d_files :: "rstr \<Rightarrow> u8 list option"
  d_writable :: "rstr \<Rightarrow> bool"

type_synonym command_line = "rstr \<times> rstr list"

record Workspace =
  disk :: Disk
  ran_cmds :: "command_line list"

type_synonym BuildCache = "rstr \<Rightarrow> rstr option"

text \<open>
  \<open>exec\<close> starts a program and waits: \<open>None\<close> if it cannot be started, else whether it succeeded and the new disk.
\<close>

record tools =
  exec :: "command_line \<Rightarrow> Disk \<Rightarrow> (bool \<times> Disk) option"
  sha256_hex :: "u8 list \<Rightarrow> rstr"
  to_json :: "BuildCache \<Rightarrow> u8 list"
  from_json :: "u8 list \<Rightarrow> BuildCache option"
  schedule :: "rstr list \<Rightarrow> rstr list"

type_synonym 'a step = "Workspace \<Rightarrow> ('a, unit) result \<times> Workspace"

definition run_cmd :: "tools \<Rightarrow> command_line \<Rightarrow> unit step" where
  "run_cmd t c s =
     (case exec t c (disk s) of
        None \<Rightarrow> (Panic, s)
      | Some (ok, d) \<Rightarrow> (if ok then Ok () else Panic, s\<lparr>disk := d, ran_cmds := ran_cmds s @ [c]\<rparr>))"

definition fs_read :: "rstr \<Rightarrow> (u8 list) step" where
  "fs_read p s = (case d_files (disk s) p of Some bs \<Rightarrow> (Ok bs, s) | None \<Rightarrow> (Panic, s))"

definition fs_write :: "rstr \<Rightarrow> u8 list \<Rightarrow> unit step" where
  "fs_write p bs s =
     (if d_writable (disk s) p then (Ok (), s\<lparr>disk := (disk s)\<lparr>d_files := (d_files (disk s))(p \<mapsto> bs)\<rparr>\<rparr>) else (Panic, s))"

definition fs_copy :: "rstr \<Rightarrow> rstr \<Rightarrow> unit step" where
  "fs_copy p q s = sbind (fs_read p s) (\<lambda>bs. fs_write q bs)"

definition fs_create_dir_all :: "rstr \<Rightarrow> unit step" where
  "fs_create_dir_all p s =
     (if d_dirs (disk s) p \<noteq> None then (Ok (), s)
      else if d_writable (disk s) p then (Ok (), s\<lparr>disk := (disk s)\<lparr>d_dirs := (d_dirs (disk s))(p \<mapsto> [])\<rparr>\<rparr>)
      else (Panic, s))"

fun each :: "('a \<Rightarrow> unit step) \<Rightarrow> 'a list \<Rightarrow> unit step" where
  "each f [] s = (Ok (), s)"
| "each f (x # xs) s = sbind (f x s) (\<lambda>_. each f xs)"

definition hash_file :: "tools \<Rightarrow> rstr \<Rightarrow> rstr step" where
  "hash_file t path s = sbind (fs_read path s) (\<lambda>bs s. (Ok (sha256_hex t bs), s))"

section \<open>The cache\<close>

abbreviation CACHE_PATH :: rstr where "CACHE_PATH \<equiv> str ''.build/cache.json''"

definition cache_load :: "tools \<Rightarrow> Workspace \<Rightarrow> BuildCache" where
  "cache_load t s =
     (case Option.bind (d_files (disk s) CACHE_PATH) (from_json t) of Some c \<Rightarrow> c | None \<Rightarrow> Map.empty)"

definition cache_save :: "tools \<Rightarrow> BuildCache \<Rightarrow> unit step" where
  "cache_save t c s = fs_write CACHE_PATH (to_json t c) (snd (fs_create_dir_all (str ''.build'') s))"

definition is_dirty :: "BuildCache \<Rightarrow> rstr \<Rightarrow> rstr \<Rightarrow> bool" where
  "is_dirty c key hash = (case c key of Some old \<Rightarrow> old \<noteq> hash | None \<Rightarrow> True)"

definition cache_update :: "rstr \<Rightarrow> rstr \<Rightarrow> BuildCache \<Rightarrow> BuildCache" where
  "cache_update key hash c = c(key \<mapsto> hash)"

section \<open>Source files\<close>

text \<open>
  \<open>Path::extension\<close> of a file name: what follows its last dot, unless there is no dot or only one at the front.
\<close>

definition extension :: "rstr \<Rightarrow> rstr option" where
  "extension name =
     (let ext = rev (takeWhile (\<lambda>c. c \<noteq> 46) (rev name))
      in if length ext + 1 < length name then Some ext else None)"

definition join_path :: "rstr \<Rightarrow> rstr \<Rightarrow> rstr" where
  "join_path dir name = dir @ 47 # name"

definition junk_dir :: "rstr \<Rightarrow> bool" where
  "junk_dir name \<longleftrightarrow> take 1 name = str ''.'' \<or> name = str ''target'' \<or> name = str ''.build''"

fun collect_recursive :: "rstr \<Rightarrow> rstr \<Rightarrow> dir_entry list \<Rightarrow> rstr list" where
  "collect_recursive dir ext [] = []"
| "collect_recursive dir ext (DirEntry name es # rest) =
     (if junk_dir name then [] else collect_recursive (join_path dir name) ext es) @ collect_recursive dir ext rest"
| "collect_recursive dir ext (FileEntry name # rest) =
     (if extension name = Some ext then [join_path dir name] else []) @ collect_recursive dir ext rest"

definition find_files :: "rstr \<Rightarrow> rstr \<Rightarrow> Disk \<Rightarrow> rstr list" where
  "find_files dir ext d = sort (case d_dirs d dir of None \<Rightarrow> [] | Some es \<Rightarrow> collect_recursive dir ext es)"

definition find_c_files :: "rstr \<Rightarrow> Disk \<Rightarrow> rstr list" where
  "find_c_files dir d = find_files dir (str ''c'') d"

definition find_asm_files :: "rstr \<Rightarrow> Disk \<Rightarrow> rstr list" where
  "find_asm_files dir d = find_files dir (str ''asm'') d"

definition find_rust_files :: "rstr \<Rightarrow> Disk \<Rightarrow> rstr list" where
  "find_rust_files dir d = find_files (dir @ str ''/src'') (str ''rs'') d"

section \<open>Formatting\<close>

definition cache_key :: "rstr \<Rightarrow> rstr \<Rightarrow> rstr" where
  "cache_key prefix src = prefix @ 58 # src"

fun dirty_files :: "tools \<Rightarrow> BuildCache \<Rightarrow> rstr \<Rightarrow> rstr list \<Rightarrow> (rstr list) step" where
  "dirty_files t c prefix [] s = (Ok [], s)"
| "dirty_files t c prefix (src # files) s =
     sbind (hash_file t src s) (\<lambda>hash s.
     sbind (dirty_files t c prefix files s) (\<lambda>rest s.
       (Ok (if is_dirty c (cache_key prefix src) hash then src # rest else rest), s)))"

text \<open>A formatter that fails is only reported; one that cannot be started is a panic.\<close>

definition format_one :: "tools \<Rightarrow> rstr \<Rightarrow> rstr list \<Rightarrow> rstr \<Rightarrow> unit step" where
  "format_one t tool args src s =
     (case exec t (tool, args @ [src]) (disk s) of
        None \<Rightarrow> (Panic, s)
      | Some (_, d) \<Rightarrow> (Ok (), s\<lparr>disk := d, ran_cmds := ran_cmds s @ [(tool, args @ [src])]\<rparr>))"

fun record_hashes :: "tools \<Rightarrow> rstr \<Rightarrow> rstr list \<Rightarrow> BuildCache \<Rightarrow> BuildCache step" where
  "record_hashes t prefix [] c s = (Ok c, s)"
| "record_hashes t prefix (src # files) c s =
     sbind (hash_file t src s) (\<lambda>hash. record_hashes t prefix files (cache_update (cache_key prefix src) hash c))"

definition format_files :: "tools \<Rightarrow> BuildCache \<Rightarrow> rstr list \<Rightarrow> rstr \<Rightarrow> rstr list \<Rightarrow> rstr \<Rightarrow> BuildCache step" where
  "format_files t c files tool args prefix s =
     sbind (dirty_files t c prefix files s) (\<lambda>dirty s.
     sbind (each (format_one t tool args) (schedule t dirty) s) (\<lambda>_.
       record_hashes t prefix dirty c))"

definition format_c :: "tools \<Rightarrow> BuildCache \<Rightarrow> rstr list \<Rightarrow> BuildCache step" where
  "format_c t c files = format_files t c files (str ''clang-format'') [str ''-i''] (str ''fmt:c'')"

definition format_asm :: "tools \<Rightarrow> BuildCache \<Rightarrow> rstr list \<Rightarrow> BuildCache step" where
  "format_asm t c files = format_files t c files (str ''asmfmt'') [] (str ''fmt:asm'')"

definition format_rust :: "tools \<Rightarrow> BuildCache \<Rightarrow> rstr list \<Rightarrow> BuildCache step" where
  "format_rust t c files = format_files t c files (str ''rustfmt'') [] (str ''fmt:rust'')"

definition STAGE1_SRC :: rstr where "STAGE1_SRC = str ''bootloader/stage1''"
definition STAGE2_SRC :: rstr where "STAGE2_SRC = str ''bootloader/stage2''"
definition STAGE3_SRC :: rstr where "STAGE3_SRC = str ''bootloader/stage3/src''"
definition BUILD_DIR :: rstr where "BUILD_DIR = str ''.build''"

definition WORKSPACE_CRATES :: "rstr list" where
  "WORKSPACE_CRATES =
     [str ''installer'', str ''kernel'', str ''lib/driver'', str ''lib/macros'', str ''lib/hal'', str ''lib/boot'',
      str ''lib/device'', str ''lib/vfs'', str ''lib/sync'', str ''lib/bus'']"

fun format_crates :: "tools \<Rightarrow> rstr list \<Rightarrow> BuildCache \<Rightarrow> BuildCache step" where
  "format_crates t [] c s = (Ok c, s)"
| "format_crates t (krate # ks) c s =
     sbind (format_rust t c (find_rust_files krate (disk s)) s) (\<lambda>c. format_crates t ks c)"

definition format_all :: "tools \<Rightarrow> unit step" where
  "format_all t s =
     sbind (format_asm t (cache_load t s) (find_asm_files STAGE1_SRC (disk s)) s) (\<lambda>c s.
     sbind (format_asm t c (find_asm_files STAGE2_SRC (disk s)) s) (\<lambda>c s.
     let stage3_asm = find_asm_files STAGE3_SRC (disk s); stage3_c = find_c_files STAGE3_SRC (disk s) in
     sbind (format_asm t c stage3_asm s) (\<lambda>c s.
     sbind (format_c t c stage3_c s) (\<lambda>c s.
     sbind (format_crates t WORKSPACE_CRATES c s) (\<lambda>c. cache_save t c)))))"

section \<open>The boot loader\<close>

definition nasm_bin :: "rstr \<Rightarrow> rstr \<Rightarrow> command_line" where
  "nasm_bin src out = (str ''nasm'', [str ''-f'', str ''bin'', src, str ''-o'', out])"

text \<open>\<open>build\<close> of stage 1 and stage 2.\<close>

definition build_flat :: "tools \<Rightarrow> rstr \<Rightarrow> rstr \<Rightarrow> rstr \<Rightarrow> BuildCache \<Rightarrow> BuildCache step" where
  "build_flat t key src out c s =
     sbind (hash_file t src s) (\<lambda>hash s.
       if is_dirty c key hash then sbind (run_cmd t (nasm_bin src out) s) (\<lambda>_ s. (Ok (cache_update key hash c), s))
       else (Ok c, s))"

definition stage1_build :: "tools \<Rightarrow> BuildCache \<Rightarrow> BuildCache step" where
  "stage1_build t = build_flat t (str ''stage1_build'') (STAGE1_SRC @ str ''/main.asm'') (BUILD_DIR @ str ''/stage1.bin'')"

definition stage2_build :: "tools \<Rightarrow> BuildCache \<Rightarrow> BuildCache step" where
  "stage2_build t = build_flat t (str ''stage2_main.asm'') (STAGE2_SRC @ str ''/main.asm'') (BUILD_DIR @ str ''/stage2.bin'')"

definition STAGE3_OUT :: rstr where "STAGE3_OUT = str ''.build/stage3''"

fun hash_all :: "tools \<Rightarrow> rstr list \<Rightarrow> rstr step" where
  "hash_all t [] s = (Ok [], s)"
| "hash_all t (f # fs) s = sbind (hash_file t f s) (\<lambda>h s. sbind (hash_all t fs s) (\<lambda>rest s. (Ok (h @ rest), s)))"

definition object_of :: "rstr \<Rightarrow> rstr" where
  "object_of src = STAGE3_OUT @ 47 # map (\<lambda>c. if c = 47 then 95 else c) src @ str ''.o''"

definition compile_c :: "rstr \<Rightarrow> command_line" where
  "compile_c src = (str ''x86_64-elf-gcc'',
     [str ''-ffreestanding'', str ''-nostdlib'', str ''-m64'', str ''-O2'', str ''-c'', src, str ''-o'', object_of src])"

definition assemble_elf :: "rstr \<Rightarrow> command_line" where
  "assemble_elf src = (str ''nasm'', [str ''-f'', str ''elf64'', src, str ''-o'', object_of src])"

fun entry_name :: "dir_entry \<Rightarrow> rstr" where
  "entry_name (FileEntry n) = n"
| "entry_name (DirEntry n es) = n"

definition ends_with_o :: "rstr \<Rightarrow> bool" where
  "ends_with_o p \<longleftrightarrow> take 2 (rev p) = rev (str ''.o'')"

definition list_objects :: "(rstr list) step" where
  "list_objects s =
     (case d_dirs (disk s) STAGE3_OUT of
        None \<Rightarrow> (Panic, s)
      | Some es \<Rightarrow> (Ok (filter ends_with_o (map (\<lambda>e. join_path STAGE3_OUT (entry_name e)) es)), s))"

definition link_cmd :: "rstr list \<Rightarrow> command_line" where
  "link_cmd objs = (str ''x86_64-elf-ld'', objs @
     [str ''-T'', str ''bootloader/stage3/linker.ld'', str ''-nostdlib'', str ''--build-id=none'', str ''-o'', BUILD_DIR @ str ''/stage3.elf''])"

definition objcopy_cmd :: command_line where
  "objcopy_cmd = (str ''x86_64-elf-objcopy'',
     [str ''-O'', str ''binary'', BUILD_DIR @ str ''/stage3.elf'', BUILD_DIR @ str ''/stage3.bin''])"

definition stage3_build :: "tools \<Rightarrow> BuildCache \<Rightarrow> BuildCache step" where
  "stage3_build t c s =
     (let c_files = find_c_files STAGE3_SRC (disk s); asm_files = find_asm_files STAGE3_SRC (disk s) in
      sbind (hash_all t (c_files @ asm_files) s) (\<lambda>combined s.
        if \<not> is_dirty c (str ''stage3_build'') combined then (Ok c, s)
        else
          sbind (fs_create_dir_all STAGE3_OUT s) (\<lambda>_ s.
          sbind (each (run_cmd t) (map compile_c c_files) s) (\<lambda>_ s.
          sbind (each (run_cmd t) (map assemble_elf asm_files) s) (\<lambda>_ s.
          sbind (list_objects s) (\<lambda>objs s.
          sbind (run_cmd t (link_cmd objs) s) (\<lambda>_ s.
          sbind (run_cmd t objcopy_cmd s) (\<lambda>_ s.
            (Ok (cache_update (str ''stage3_build'') combined c), s)))))))))"

definition build_bootloader :: "tools \<Rightarrow> unit step" where
  "build_bootloader t s =
     sbind (stage1_build t (cache_load t s) s) (\<lambda>c s.
     sbind (stage2_build t c s) (\<lambda>c s.
     sbind (stage3_build t c s) (\<lambda>_ s. (Ok (), s))))"

section \<open>The programs and the disk image\<close>

definition cargo_build :: "rstr \<Rightarrow> command_line" where
  "cargo_build package = (str ''cargo'',
     [str ''build'', str ''--package'', package, str ''--release'', str ''--target'', str ''x86_64-unknown-none''])"

definition build_package :: "tools \<Rightarrow> rstr \<Rightarrow> rstr \<Rightarrow> unit step" where
  "build_package t package out s =
     sbind (run_cmd t (cargo_build package) s) (\<lambda>_ s.
     sbind (fs_create_dir_all (str ''.build'') s) (\<lambda>_.
       fs_copy (str ''target/x86_64-unknown-none/release/'' @ package) out))"

definition build_installer :: "tools \<Rightarrow> unit step" where
  "build_installer t = build_package t (str ''installer'') (str ''.build/installer.elf'')"

definition build_kernel :: "tools \<Rightarrow> unit step" where
  "build_kernel t = build_package t (str ''kernel'') (str ''.build/kernel.elf'')"

definition bash :: "rstr \<Rightarrow> command_line" where
  "bash script = (str ''bash'', [str ''-c'', script])"

definition stage3_sectors :: "nat \<Rightarrow> u16" where
  "stage3_sectors n = of_nat ((n + 511) div 512)"

text \<open>The two indexed assignments; an index past the end panics.\<close>

definition patch_stage1 :: "u16 \<Rightarrow> u8 list \<Rightarrow> (u8 list, unit) result" where
  "patch_stage1 n stage1 =
     (if 0x1A0 + 1 < length stage1
      then Ok (stage1[0x1A0 := ucast (n AND 0xFF), 0x1A0 + 1 := ucast (drop_bit 8 n)]) else Panic)"

definition dd_into :: "rstr \<Rightarrow> rstr \<Rightarrow> command_line" where
  "dd_into src seek = bash (str ''dd if=.build/'' @ src @ str '' of=.build/boot.img bs=512 seek='' @ seek @ str '' conv=notrunc status=none'')"

definition mcopy_into :: "rstr \<Rightarrow> rstr \<Rightarrow> command_line" where
  "mcopy_into src dst = bash (str ''mcopy -i .build/boot.img@@1048576 .build/'' @ src @ str '' ::'' @ dst)"

definition boot_image :: "tools \<Rightarrow> unit step" where
  "boot_image t s =
     sbind (each (run_cmd t)
       [bash (str ''dd if=/dev/zero of=.build/boot.img bs=1M count=64 status=none''),
        bash (str ''mkfs.fat -F 32 -n BOOTFS --offset 2048 .build/boot.img'')] s) (\<lambda>_ s.
     sbind (fs_read (str ''.build/stage3.bin'') s) (\<lambda>stage3 s.
     sbind (fs_read (str ''.build/stage1.bin'') s) (\<lambda>stage1 s.
     sbind (patch_stage1 (stage3_sectors (length stage3)) stage1, s) (\<lambda>stage1 s.
     sbind (fs_write (str ''.build/stage1.bin'') stage1 s) (\<lambda>_.
       each (run_cmd t)
         [dd_into (str ''stage1.bin'') (str ''0''), dd_into (str ''stage2.bin'') (str ''1''), dd_into (str ''stage3.bin'') (str ''32''),
          mcopy_into (str ''kernel.elf'') (str ''KERNEL.ELF''), mcopy_into (str ''installer.elf'') (str ''INSTALL.ELF''),
          mcopy_into (str ''stage1.bin'') (str ''STAGE1.BIN''), mcopy_into (str ''stage2.bin'') (str ''STAGE2.BIN''),
          mcopy_into (str ''stage3.bin'') (str ''STAGE3.BIN''),
          bash (str ''dd if=/dev/zero of=.build/disk.img bs=1M count=512 status=none'')])))))"

definition toolchain :: "tools \<Rightarrow> unit step" where
  "toolchain t = run_cmd t (bash (str ''tr -d '' @ [39, 92] @ str ''r'' @ [39] @ str '' < scripts/toolchain.sh | bash''))"

definition clean :: "tools \<Rightarrow> unit step" where
  "clean t = run_cmd t (str ''rm'', [str ''-rf'', str ''.build''])"

definition run_qemu :: "tools \<Rightarrow> unit step" where
  "run_qemu t = run_cmd t (str ''qemu-system-x86_64'',
     [str ''-machine'', str ''q35'', str ''-m'', str ''4G'', str ''-serial'', str ''stdio'', str ''-serial'', str ''file:.build/serial.log'',
      str ''-device'', str ''isa-debug-exit,iobase=0xf4,iosize=0x04'', str ''-d'', str ''int,cpu_reset,guest_errors'', str ''-D'', str ''qemu.log'',
      str ''-drive'', str ''id=boot,format=raw,if=none,file=.build/boot.img'', str ''-device'', str ''virtio-blk-pci,drive=boot'',
      str ''-drive'', str ''id=disk,format=raw,if=none,file=.build/disk.img'', str ''-device'', str ''virtio-blk-pci,drive=disk'',
      str ''-no-reboot'', str ''-no-shutdown''])"

definition debug :: "tools \<Rightarrow> unit step" where
  "debug t = run_cmd t (str ''qemu-system-x86_64'',
     [str ''-machine'', str ''q35'', str ''-m'', str ''4G'', str ''-serial'', str ''mon:stdio'',
      str ''-device'', str ''isa-debug-exit,iobase=0xf4,iosize=0x04'', str ''-drive'', str ''file=.build/boot.img,format=raw,if=ide,index=0'',
      str ''-drive'', str ''id=disk,format=raw,if=none,file=.build/disk.img'', str ''-device'', str ''virtio-blk-pci,drive=disk'',
      str ''-no-reboot'', str ''-s'', str ''-S''])"

section \<open>Commands\<close>

datatype Cmd = Toolchain | Build | Run | Debug | Clean | Fmt | Check

definition build :: "tools \<Rightarrow> unit step" where
  "build t s =
     sbind (fs_create_dir_all BUILD_DIR s) (\<lambda>_ s.
     sbind (build_bootloader t s) (\<lambda>_ s.
     sbind (build_kernel t s) (\<lambda>_ s.
     sbind (build_installer t s) (\<lambda>_. boot_image t))))"

fun xtask_main :: "tools \<Rightarrow> Cmd \<Rightarrow> unit step" where
  "xtask_main t Toolchain s = toolchain t s"
| "xtask_main t Fmt s = format_all t s"
| "xtask_main t Build s = build t s"
| "xtask_main t Check s = sbind (format_all t s) (\<lambda>_. build t)"
| "xtask_main t Run s = sbind (build t s) (\<lambda>_. run_qemu t)"
| "xtask_main t Debug s = sbind (build t s) (\<lambda>_. debug t)"
| "xtask_main t Clean s = clean t s"

section \<open>Formatting twice\<close>

definition content_hash :: "tools \<Rightarrow> Disk \<Rightarrow> rstr \<Rightarrow> rstr option" where
  "content_hash t d f = map_option (sha256_hex t) (d_files d f)"

lemma hash_file_iff [res_simps]: "hash_file t f s = (Ok h, s') \<longleftrightarrow> content_hash t (disk s) f = Some h \<and> s' = s"
  by (auto simp: hash_file_def fs_read_def content_hash_def split: option.splits)

lemma cache_key_inj [simp]: "cache_key p f = cache_key p g \<longleftrightarrow> f = g"
  by (simp add: cache_key_def)

definition up_to_date :: "tools \<Rightarrow> BuildCache \<Rightarrow> rstr \<Rightarrow> Disk \<Rightarrow> rstr \<Rightarrow> bool" where
  "up_to_date t c prefix d f \<longleftrightarrow> content_hash t d f \<noteq> None \<and> c (cache_key prefix f) = content_hash t d f"

lemma dirty_files_Ok:
  "dirty_files t c prefix files s = (Ok ds, s') \<Longrightarrow>
     s' = s \<and> ds = filter (\<lambda>f. \<not> up_to_date t c prefix (disk s) f) files \<and> (\<forall>f \<in> set files. content_hash t (disk s) f \<noteq> None)"
proof (induction files arbitrary: ds)
  case Nil
  then show ?case by simp
next
  case (Cons f files)
  then obtain h rest where h: "content_hash t (disk s) f = Some h" "dirty_files t c prefix files s = (Ok rest, s)"
      "s' = s" "ds = (if is_dirty c (cache_key prefix f) h then f # rest else rest)"
    by (auto simp: res_simps)
  have "is_dirty c (cache_key prefix f) h \<longleftrightarrow> \<not> up_to_date t c prefix (disk s) f"
    using h(1) by (auto simp: is_dirty_def up_to_date_def split: option.splits)
  then show ?case using Cons.IH [of rest] h by auto
qed

lemma record_hashes_Ok:
  "record_hashes t prefix files c s = (Ok c', s') \<Longrightarrow>
     s' = s \<and> (\<forall>f \<in> set files. up_to_date t c' prefix (disk s) f)
     \<and> (\<forall>k. k \<notin> cache_key prefix ` set files \<longrightarrow> c' k = c k)"
proof (induction files arbitrary: c)
  case Nil
  then show ?case by simp
next
  case (Cons f files)
  then obtain h where h: "content_hash t (disk s) f = Some h"
      "record_hashes t prefix files (cache_update (cache_key prefix f) h c) s = (Ok c', s')"
    by (auto simp: res_simps)
  have "up_to_date t c' prefix (disk s) f"
  proof (cases "f \<in> set files")
    case False
    then have "cache_key prefix f \<notin> cache_key prefix ` set files" by auto
    then show ?thesis using Cons.IH [OF h(2)] h(1) by (simp add: up_to_date_def cache_update_def)
  qed (use Cons.IH [OF h(2)] in blast)
  then show ?case using Cons.IH [OF h(2)] by (auto simp: cache_update_def)
qed

lemma each_format_Ok:
  "each (format_one t tool args) fs s = (Ok (), s') \<Longrightarrow> ran_cmds s' = ran_cmds s @ map (\<lambda>f. (tool, args @ [f])) fs"
proof (induction fs arbitrary: s)
  case (Cons f fs)
  then obtain s1 where "format_one t tool args f s = (Ok (), s1)" "each (format_one t tool args) fs s1 = (Ok (), s')"
    by (auto simp: res_simps)
  moreover from this(1) have "ran_cmds s1 = ran_cmds s @ [(tool, args @ [f])]"
    by (auto simp: format_one_def split: option.splits)
  ultimately show ?case using Cons.IH [of s1] by simp
qed simp

lemma format_files_Ok:
  assumes "format_files t c files tool args prefix s = (Ok c', s')"
  defines "ds \<equiv> filter (\<lambda>f. \<not> up_to_date t c prefix (disk s) f) files"
  shows "ran_cmds s' = ran_cmds s @ map (\<lambda>f. (tool, args @ [f])) (schedule t ds)"
    and "\<forall>f \<in> set ds. up_to_date t c' prefix (disk s') f"
    and "\<forall>k. k \<notin> cache_key prefix ` set ds \<longrightarrow> c' k = c k"
    and "\<forall>f \<in> set files. content_hash t (disk s) f \<noteq> None"
proof -
  obtain ds' s1 s2 where 1: "dirty_files t c prefix files s = (Ok ds', s1)"
      "each (format_one t tool args) (schedule t ds') s1 = (Ok (), s2)" "record_hashes t prefix ds' c s2 = (Ok c', s')"
    using assms(1) by (auto simp: format_files_def res_simps)
  note d = dirty_files_Ok [OF 1(1), folded ds_def]
  show "ran_cmds s' = ran_cmds s @ map (\<lambda>f. (tool, args @ [f])) (schedule t ds)"
    "\<forall>f \<in> set ds. up_to_date t c' prefix (disk s') f" "\<forall>k. k \<notin> cache_key prefix ` set ds \<longrightarrow> c' k = c k"
    "\<forall>f \<in> set files. content_hash t (disk s) f \<noteq> None"
    using d each_format_Ok [OF 1(2)] record_hashes_Ok [OF 1(3)] by auto
qed

text \<open>
  A second formatting pass over the same files starts the formatter exactly for those files that were up to date before
  the first pass and that the first pass changed all the same (a formatter that touches other files than the one
  it is given); every other file, one whose formatter failed included, is left alone.
\<close>

theorem second_format_pass:
  assumes "format_files t c files tool args prefix s = (Ok c1, s1)"
    and "format_files t c1 files tool args prefix s1 = (Ok c2, s2)"
  shows "ran_cmds s2 = ran_cmds s1 @ map (\<lambda>f. (tool, args @ [f]))
    (schedule t (filter (\<lambda>f. up_to_date t c prefix (disk s) f \<and> content_hash t (disk s1) f \<noteq> content_hash t (disk s) f) files))"
proof -
  note 1 = format_files_Ok [OF assms(1)] and 2 = format_files_Ok [OF assms(2)]
  have "(\<not> up_to_date t c1 prefix (disk s1) f) \<longleftrightarrow>
      up_to_date t c prefix (disk s) f \<and> content_hash t (disk s1) f \<noteq> content_hash t (disk s) f"
    if f: "f \<in> set files" for f
  proof (cases "up_to_date t c prefix (disk s) f")
    case True
    then have "cache_key prefix f \<notin> cache_key prefix ` set (filter (\<lambda>f. \<not> up_to_date t c prefix (disk s) f) files)" by auto
    then have "c1 (cache_key prefix f) = c (cache_key prefix f)" using 1(3) by blast
    with True 2(4) f show ?thesis by (auto simp: up_to_date_def)
  next
    case False
    then have "up_to_date t c1 prefix (disk s1) f" using 1(2) f by simp
    with False show ?thesis by simp
  qed
  then have "filter (\<lambda>f. \<not> up_to_date t c1 prefix (disk s1) f) files =
      filter (\<lambda>f. up_to_date t c prefix (disk s) f \<and> content_hash t (disk s1) f \<noteq> content_hash t (disk s) f) files"
    by (rule filter_cong [OF refl])
  then show ?thesis using 2(1) by simp
qed

text \<open>A workspace with two files and a formatter that always fails and changes nothing.\<close>

definition sample_tools :: tools where
  "sample_tools = \<lparr>exec = (\<lambda>c d. Some (fst c \<noteq> str ''asmfmt'', d)), sha256_hex = map unat, to_json = (\<lambda>_. [1]), from_json = (\<lambda>_. None),
     schedule = rev\<rparr>"

definition sample_workspace :: Workspace where
  "sample_workspace = \<lparr>disk = \<lparr>d_dirs = (\<lambda>_. Some []), d_files = (\<lambda>_. Some [7]), d_writable = (\<lambda>_. True)\<rparr>, ran_cmds = []\<rparr>"

theorem second_format_pass_witness:
  "\<exists>c1 s1 c2 s2. format_files sample_tools Map.empty [[97], [98]] (str ''asmfmt'') [] (str ''fmt:asm'') sample_workspace = (Ok c1, s1)
     \<and> ran_cmds s1 = [(str ''asmfmt'', [[98]]), (str ''asmfmt'', [[97]])]
     \<and> format_files sample_tools c1 [[97], [98]] (str ''asmfmt'') [] (str ''fmt:asm'') s1 = (Ok c2, s2) \<and> ran_cmds s2 = ran_cmds s1"
proof -
  let ?f = "\<lambda>c. format_files sample_tools c [[97], [98]] (str ''asmfmt'') [] (str ''fmt:asm'')"
  note d = format_files_def hash_file_def fs_read_def is_dirty_def format_one_def sample_tools_def sample_workspace_def cache_update_def
    cache_key_def
  let ?c = "[cache_key (str ''fmt:asm'') [97] \<mapsto> [7], cache_key (str ''fmt:asm'') [98] \<mapsto> [7]]"
  let ?s = "sample_workspace\<lparr>ran_cmds := [(str ''asmfmt'', [[98]]), (str ''asmfmt'', [[97]])]\<rparr>"
  have 1: "?f Map.empty sample_workspace = (Ok ?c, ?s)" by (simp add: d)
  have 2: "?f ?c ?s = (Ok ?c, ?s)" by (simp add: d)
  show ?thesis
    using second_format_pass [OF 1 2] 1 2 by (intro exI [of _ ?c] exI [of _ ?s]) simp
qed

section \<open>The boot loader is always rebuilt\<close>

text \<open>
  What the programs of the boot loader's build leave alone: the sources of the boot loader and the cache. \<open>build_command\<close>
  lists those programs as \<open>build_bootloader\<close> starts them. Each is told to write one file under \<^verbatim>\<open>.build\<close>. The other programs
  of the tool (the formatters, \<^verbatim>\<open>rm -rf .build\<close>, QEMU, Cargo) are left unconstrained.
\<close>

definition same_sources :: "Disk \<Rightarrow> Disk \<Rightarrow> bool" where
  "same_sources d d' \<longleftrightarrow>
     d_dirs d' STAGE3_SRC = d_dirs d STAGE3_SRC
     \<and> (\<forall>p. take 11 p = str ''bootloader/'' \<or> p = CACHE_PATH \<longrightarrow> d_files d' p = d_files d p)"

definition under_dir :: "rstr \<Rightarrow> rstr \<Rightarrow> bool" where
  "under_dir dir p \<longleftrightarrow> take (length dir + 1) p = dir @ [47]"

definition build_command :: "command_line \<Rightarrow> bool" where
  "build_command c \<longleftrightarrow>
     c = nasm_bin (STAGE1_SRC @ str ''/main.asm'') (BUILD_DIR @ str ''/stage1.bin'')
     \<or> c = nasm_bin (STAGE2_SRC @ str ''/main.asm'') (BUILD_DIR @ str ''/stage2.bin'')
     \<or> (\<exists>src. under_dir STAGE3_SRC src \<and> (c = compile_c src \<or> c = assemble_elf src))
     \<or> (\<exists>objs. (\<forall>obj\<in>set objs. under_dir STAGE3_OUT obj) \<and> c = link_cmd objs)
     \<or> c = objcopy_cmd"

definition builds_keep_sources :: "tools \<Rightarrow> bool" where
  "builds_keep_sources t \<longleftrightarrow> (\<forall>c d ok d'. build_command c \<longrightarrow> exec t c d = Some (ok, d') \<longrightarrow> same_sources d d')"

definition stage_commands :: "Disk \<Rightarrow> command_line set" where
  "stage_commands d =
     {nasm_bin (STAGE1_SRC @ str ''/main.asm'') (BUILD_DIR @ str ''/stage1.bin''),
      nasm_bin (STAGE2_SRC @ str ''/main.asm'') (BUILD_DIR @ str ''/stage2.bin''), objcopy_cmd}
   \<union> compile_c ` set (find_c_files STAGE3_SRC d) \<union> assemble_elf ` set (find_asm_files STAGE3_SRC d)"

definition no_stage_keys :: "BuildCache \<Rightarrow> bool" where
  "no_stage_keys c \<longleftrightarrow> c (str ''stage1_build'') = None \<and> c (str ''stage2_main.asm'') = None \<and> c (str ''stage3_build'') = None"

lemma same_sources_refl [simp]: "same_sources d d"
  by (simp add: same_sources_def)

lemma same_sources_trans: "same_sources d d' \<Longrightarrow> same_sources d' d'' \<Longrightarrow> same_sources d d''"
  by (simp add: same_sources_def)

lemma under_dir_iff: "under_dir dir p \<longleftrightarrow> (\<exists>r. p = dir @ 47 # r)"
proof
  assume "under_dir dir p"
  then have "p = (dir @ [47]) @ drop (length dir + 1) p"
    using append_take_drop_id [of "length dir + 1" p] by (simp add: under_dir_def)
  then show "\<exists>r. p = dir @ 47 # r" by (intro exI [of _ "drop (length dir + 1) p"]) simp
qed (auto simp: under_dir_def)

lemma collected_under_dir: "p \<in> set (collect_recursive dir ext es) \<Longrightarrow> under_dir dir p"
  by (induction dir ext es rule: collect_recursive.induct) (auto simp: under_dir_iff join_path_def split: if_splits)

lemma found_under_dir:
  "p \<in> set (find_c_files dir d) \<Longrightarrow> under_dir dir p" "p \<in> set (find_asm_files dir d) \<Longrightarrow> under_dir dir p"
  by (auto simp: find_c_files_def find_asm_files_def find_files_def split: option.splits dest: collected_under_dir)

lemma listed_under_dir: "list_objects s = (Ok objs, s') \<Longrightarrow> s' = s \<and> (\<forall>obj\<in>set objs. under_dir STAGE3_OUT obj)"
  by (auto simp: list_objects_def under_dir_def join_path_def split: option.splits)

lemma build_commands:
  "build_command (nasm_bin (STAGE1_SRC @ str ''/main.asm'') (BUILD_DIR @ str ''/stage1.bin''))"
  "build_command (nasm_bin (STAGE2_SRC @ str ''/main.asm'') (BUILD_DIR @ str ''/stage2.bin''))"
  "under_dir STAGE3_SRC src \<Longrightarrow> build_command (compile_c src)"
  "under_dir STAGE3_SRC src \<Longrightarrow> build_command (assemble_elf src)"
  "\<forall>obj\<in>set objs. under_dir STAGE3_OUT obj \<Longrightarrow> build_command (link_cmd objs)"
  "build_command objcopy_cmd"
  by (auto simp: build_command_def)

lemma run_cmd_Ok:
  "builds_keep_sources t \<Longrightarrow> build_command c \<Longrightarrow> run_cmd t c s = (Ok (), s')
    \<Longrightarrow> ran_cmds s' = ran_cmds s @ [c] \<and> same_sources (disk s) (disk s')"
  by (cases c; cases "exec t c (disk s)") (auto simp: run_cmd_def builds_keep_sources_def split: if_splits)

lemma each_run_Ok:
  assumes "builds_keep_sources t"
  shows "\<forall>c\<in>set cs. build_command c \<Longrightarrow> each (run_cmd t) cs s = (Ok (), s') \<Longrightarrow> ran_cmds s' = ran_cmds s @ cs \<and> same_sources (disk s) (disk s')"
proof (induction cs arbitrary: s)
  case (Cons c cs)
  then obtain s1 where 1: "run_cmd t c s = (Ok (), s1)" "each (run_cmd t) cs s1 = (Ok (), s')" by (auto simp: res_simps)
  show ?case using run_cmd_Ok [OF assms _ 1(1)] Cons.IH [OF _ 1(2)] Cons.prems(1) same_sources_trans by auto
qed simp

lemma build_flat_Ok:
  assumes "builds_keep_sources t" "build_command (nasm_bin src out)" "build_flat t key src out c s = (Ok c', s')" "c key = None"
  shows "ran_cmds s' = ran_cmds s @ [nasm_bin src out] \<and> same_sources (disk s) (disk s') \<and> (\<forall>k. k \<noteq> key \<longrightarrow> c' k = c k)"
  using assms(3,4) run_cmd_Ok [OF assms(1,2), of s]
  by (auto simp: build_flat_def is_dirty_def cache_update_def res_simps)

lemma hash_all_Ok: "hash_all t fs s = (Ok h, s') \<Longrightarrow> s' = s"
  by (induction fs arbitrary: h) (auto simp: res_simps)

lemma create_dir_Ok:
  "fs_create_dir_all p s = (Ok (), s') \<Longrightarrow> p \<noteq> STAGE3_SRC \<Longrightarrow> ran_cmds s' = ran_cmds s \<and> same_sources (disk s) (disk s')"
  by (auto simp: fs_create_dir_all_def same_sources_def split: if_splits)

lemma stage3_build_Ok:
  assumes "builds_keep_sources t" "stage3_build t c s = (Ok c', s')" "c (str ''stage3_build'') = None"
  shows "\<exists>cs. ran_cmds s' = ran_cmds s @ cs \<and> same_sources (disk s) (disk s')
    \<and> compile_c ` set (find_c_files STAGE3_SRC (disk s)) \<union> assemble_elf ` set (find_asm_files STAGE3_SRC (disk s)) \<union> {objcopy_cmd} \<subseteq> set cs"
proof -
  let ?c = "find_c_files STAGE3_SRC (disk s)" and ?a = "find_asm_files STAGE3_SRC (disk s)"
  obtain h s0 where h: "hash_all t (?c @ ?a) s = (Ok h, s0)" using assms(2) by (auto simp: stage3_build_def Let_def res_simps)
  then have s0: "s0 = s" by (rule hash_all_Ok)
  obtain s1 s2 s3 objs s4 s5 where 1: "fs_create_dir_all STAGE3_OUT s = (Ok (), s1)" "each (run_cmd t) (map compile_c ?c) s1 = (Ok (), s2)"
      "each (run_cmd t) (map assemble_elf ?a) s2 = (Ok (), s3)" "list_objects s3 = (Ok objs, s4)"
      "run_cmd t (link_cmd objs) s4 = (Ok (), s5)" "run_cmd t objcopy_cmd s5 = (Ok (), s')"
    using assms(2,3) h unfolding s0 by (auto simp: stage3_build_def Let_def res_simps is_dirty_def)
  have s4: "s4 = s3" and objs: "\<forall>obj\<in>set objs. under_dir STAGE3_OUT obj" using listed_under_dir [OF 1(4)] by auto
  have ne: "STAGE3_OUT \<noteq> STAGE3_SRC" by (simp add: STAGE3_OUT_def STAGE3_SRC_def str_def)
  have c: "\<forall>k\<in>set (map compile_c ?c). build_command k" and a: "\<forall>k\<in>set (map assemble_elf ?a). build_command k"
    using build_commands(3,4) found_under_dir by auto
  note all = create_dir_Ok [OF 1(1) ne] each_run_Ok [OF assms(1) c 1(2)] each_run_Ok [OF assms(1) a 1(3)]
    run_cmd_Ok [OF assms(1) build_commands(5) [OF objs] 1(5)] run_cmd_Ok [OF assms(1) build_commands(6) 1(6)]
  have "same_sources (disk s) (disk s')" using all s4 same_sources_trans by metis
  moreover have "ran_cmds s' = ran_cmds s @ (map compile_c ?c @ map assemble_elf ?a @ [link_cmd objs, objcopy_cmd])"
    using all s4 by simp
  ultimately show ?thesis by (intro exI [of _ "map compile_c ?c @ map assemble_elf ?a @ [link_cmd objs, objcopy_cmd]"]) auto
qed

lemma build_bootloader_Ok:
  assumes "builds_keep_sources t" "build_bootloader t s = (Ok (), s')" "no_stage_keys (cache_load t s)"
  shows "(\<exists>cs. ran_cmds s' = ran_cmds s @ cs \<and> stage_commands (disk s) \<subseteq> set cs) \<and> same_sources (disk s) (disk s')"
proof -
  let ?c = "cache_load t s"
  obtain c1 s1 c2 s2 c3 where 1: "stage1_build t ?c s = (Ok c1, s1)" "stage2_build t c1 s1 = (Ok c2, s2)" "stage3_build t c2 s2 = (Ok c3, s')"
    using assms(2) by (auto simp: build_bootloader_def res_simps)
  have k: "str ''stage2_main.asm'' \<noteq> str ''stage1_build''" "str ''stage3_build'' \<noteq> str ''stage1_build''" "str ''stage3_build'' \<noteq> str ''stage2_main.asm''"
    by (simp_all add: str_def)
  note a = build_flat_Ok [OF assms(1) build_commands(1) 1(1) [unfolded stage1_build_def]]
  have c1: "c1 (str ''stage2_main.asm'') = None" "c1 (str ''stage3_build'') = None"
    using a assms(3) k by (auto simp: no_stage_keys_def)
  note b = build_flat_Ok [OF assms(1) build_commands(2) 1(2) [unfolded stage2_build_def] c1(1)]
  have c2: "c2 (str ''stage3_build'') = None" using b c1(2) k by auto
  obtain cs where cs: "ran_cmds s' = ran_cmds s2 @ cs" "same_sources (disk s2) (disk s')"
      "compile_c ` set (find_c_files STAGE3_SRC (disk s2)) \<union> assemble_elf ` set (find_asm_files STAGE3_SRC (disk s2)) \<union> {objcopy_cmd} \<subseteq> set cs"
    using stage3_build_Ok [OF assms(1) 1(3) c2] by blast
  have ss: "same_sources (disk s) (disk s2)" using a b assms(3) same_sources_trans by (auto simp: no_stage_keys_def)
  then have "d_dirs (disk s2) STAGE3_SRC = d_dirs (disk s) STAGE3_SRC" by (simp add: same_sources_def)
  then have "find_c_files STAGE3_SRC (disk s2) = find_c_files STAGE3_SRC (disk s)"
    "find_asm_files STAGE3_SRC (disk s2) = find_asm_files STAGE3_SRC (disk s)"
    by (simp_all add: find_c_files_def find_asm_files_def find_files_def)
  with cs(1,3) a b assms(3) have "\<exists>cs. ran_cmds s' = ran_cmds s @ cs \<and> stage_commands (disk s) \<subseteq> set cs"
    by (intro exI [of _ "[nasm_bin (STAGE1_SRC @ str ''/main.asm'') (BUILD_DIR @ str ''/stage1.bin''),
           nasm_bin (STAGE2_SRC @ str ''/main.asm'') (BUILD_DIR @ str ''/stage2.bin'')] @ cs"])
       (auto simp: stage_commands_def no_stage_keys_def)
  then show ?thesis using same_sources_trans [OF ss cs(2)] by blast
qed

text \<open>
  C40: the cache does not save work on the boot loader. \<open>build_bootloader\<close> fills it and never writes it back. So when the
  stored cache has no entry for the three stages, and the programs this build starts leave the sources of the boot loader and
  the stored cache alone, a build right after a successful build changes no source and starts the assembler, the compiler
  and the converter for every source file again.
\<close>

theorem bootloader_rebuilt_every_time:
  assumes "builds_keep_sources t" "no_stage_keys (cache_load t s)"
    and "build_bootloader t s = (Ok (), s1)" "build_bootloader t s1 = (Ok (), s2)"
  shows "same_sources (disk s) (disk s1) \<and> (\<exists>cs. ran_cmds s2 = ran_cmds s1 @ cs \<and> stage_commands (disk s) \<subseteq> set cs)"
proof -
  have ss: "same_sources (disk s) (disk s1)" using build_bootloader_Ok [OF assms(1,3,2)] by blast
  then have "d_files (disk s1) CACHE_PATH = d_files (disk s) CACHE_PATH" "d_dirs (disk s1) STAGE3_SRC = d_dirs (disk s) STAGE3_SRC"
    by (auto simp: same_sources_def)
  then have "cache_load t s1 = cache_load t s" "stage_commands (disk s1) = stage_commands (disk s)"
    by (simp_all add: cache_load_def stage_commands_def find_c_files_def find_asm_files_def find_files_def)
  with build_bootloader_Ok [OF assms(1,4)] assms(2) ss show ?thesis by auto
qed

theorem bootloader_rebuilt_every_time_witness:
  "\<exists>s1 s2 cs. build_bootloader sample_tools sample_workspace = (Ok (), s1) \<and> build_bootloader sample_tools s1 = (Ok (), s2)
     \<and> ran_cmds s2 = ran_cmds s1 @ cs \<and> objcopy_cmd \<in> set cs"
proof -
  have k: "builds_keep_sources sample_tools" by (simp add: builds_keep_sources_def sample_tools_def)
  have n: "no_stage_keys (cache_load sample_tools sample_workspace)"
    by (simp add: no_stage_keys_def cache_load_def sample_tools_def sample_workspace_def)
  have b: "\<exists>s'. build_bootloader sample_tools s = (Ok (), s') \<and> disk s' = disk s" if "disk s = disk sample_workspace" for s
    using that
    by (simp add: build_bootloader_def stage1_build_def stage2_build_def stage3_build_def build_flat_def hash_file_def fs_read_def
        cache_load_def sample_tools_def sample_workspace_def is_dirty_def cache_update_def run_cmd_def find_c_files_def
        find_asm_files_def find_files_def fs_create_dir_all_def list_objects_def nasm_bin_def link_cmd_def objcopy_cmd_def str_def)
  obtain s1 where 1: "build_bootloader sample_tools sample_workspace = (Ok (), s1)" "disk s1 = disk sample_workspace"
    using b [OF refl] by blast
  obtain s2 where 2: "build_bootloader sample_tools s1 = (Ok (), s2)" using b [OF 1(2)] by blast
  from bootloader_rebuilt_every_time [OF k n 1(1) 2] 1(1) 2 show ?thesis by (auto simp: stage_commands_def)
qed

lemma format_keeps_stage_keys:
  assumes "format_files t c files tool args (str ''fmt:'' @ prefix) s = (Ok c', s')" "no_stage_keys c"
  shows "no_stage_keys c'"
proof -
  have "k \<notin> cache_key (str ''fmt:'' @ prefix) ` X" if "take 5 k = str ''stage''" for k X
    using that by (auto simp: cache_key_def str_def)
  then have "c' k = c k" if "take 5 k = str ''stage''" for k using format_files_Ok(3) [OF assms(1)] that by blast
  with assms(2) show ?thesis by (simp add: no_stage_keys_def str_def)
qed

section \<open>The boot image\<close>

text \<open>The first stage gets the number of sectors of the third, as long as it has fewer than \<open>2 ^ 16\<close>.\<close>

lemma patched_sectors:
  assumes "0x1A2 \<le> length stage1" "(n + 511) div 512 < 2 ^ 16"
  shows "\<exists>s. patch_stage1 (stage3_sectors n) stage1 = Ok s \<and> le_val (seg s 0x1A0 0x1A2) = (n + 511) div 512
     \<and> (\<forall>i < length stage1. i \<noteq> 0x1A0 \<longrightarrow> i \<noteq> 0x1A1 \<longrightarrow> s ! i = stage1 ! i)"
proof -
  let ?w = "stage3_sectors n" and ?q = "(n + 511) div 512"
  let ?s = "stage1[0x1A0 := ucast (?w AND 0xFF), 0x1A1 := ucast (drop_bit 8 ?w)] :: u8 list"
  have w: "unat ?w = ?q" using assms(2) by (simp add: stage3_sectors_def unat_of_nat)
  have "(0xFF :: u16) = mask 8" by (simp add: mask_eq_exp_minus_1)
  then have "?w AND 0xFF = take_bit 8 ?w" by (simp only: take_bit_eq_mask)
  then have lo: "unat (ucast (?w AND 0xFF) :: u8) = ?q mod 256"
    by (simp add: unsigned_ucast_eq unsigned_take_bit_eq w) (simp add: take_bit_eq_mod)
  have hi: "unat (ucast (drop_bit 8 ?w) :: u8) = ?q div 256"
    using assms(2) by (simp add: unsigned_ucast_eq drop_bit_eq_div unat_div w take_bit_nat_eq_self)
  have "seg ?s 0x1A0 0x1A2 = [ucast (?w AND 0xFF), ucast (drop_bit 8 ?w)]"
    using assms(1) by (intro nth_equalityI) (auto simp: nth_seg less_2_cases_iff nth_list_update)
  then have "le_val (seg ?s 0x1A0 0x1A2) = ?q" by (simp add: lo hi)
  then show ?thesis using assms(1) by (auto simp: patch_stage1_def)
qed

end
