(* ===== verification/Spec2Isabelle.thy ===== *)
theory Spec2Isabelle
  imports GptStore NtfsFs NtfsCreate AhciStart Paging Entry CommandMacro Display Xtask
begin

text \<open>
  Small OS: a verification development

  The program is a kernel for x86-64 written in Rust, the installer that shares its libraries, and the tool that builds
  both. The boot loader hands a \<open>BootInfo\<close> to \<open>_start\<close>. \<open>init\<close> sets up the screen, the interrupt table, the heap and the
  frame allocator, asks ACPI for the PCI configuration space and enters every PCI function into the device registry.
  The kernel then runs an executor with one task, the shell; the installer binds the two block drivers, looks at every
  disk, and formats those that have neither a boot signature nor a partition table. NTFS and the VFS sit on
  top of the block devices and are used as libraries.

  \<^bold>\<open>Conventions.\<close> A Rust call has three outcomes, \<open>Ok\<close>, \<open>Err\<close> and \<open>Panic\<close> (theory Prelude); a call that changes state
  returns the new state with any of them. A call that may never return has an \<open>option\<close> around its outcome, with
  \<open>None\<close> for never. The programs are built in release mode, so machine arithmetic wraps: values for which this matters
  are words, and \<open>usize\<close> has 64 bits. A trait object is a record of its methods. A \<open>BTreeMap\<close> is an ascending
  association list. Strings are lists of Unicode scalar values. Code that is not in the repository (crates,
  hardware, the programs the build tool starts) is an argument of the definitions that use it, and what the code relies
  on is a locale or a named predicate; the standard library is modelled where it is used.

  \<^bold>\<open>Theories and sources\<close> (paths under \<^verbatim>\<open>src/\<close>).
  \<^item> Prelude, BTreeMap: outcomes, byte buffers, little-endian numbers, UTF-8 widths, ordered maps. Locale \<open>map_store\<close> is the
    contract of a map, interpreted on \<open>bt_get\<close>, \<open>bt_insert\<close>, \<open>bt_remove\<close>.
  \<^item> Hal, Display: \<^verbatim>\<open>lib/hal/src\<close> without PCI and ACPI; error types and messages, addresses, colours, the traits
    \<open>BlockDevice\<close>, \<open>File\<close>, \<open>FileSystem\<close>, \<open>Display\<close> with their default methods.
  \<^item> GptFormat, GptDisk, BlockStore, GptStore: \<^verbatim>\<open>lib/vfs/src/partition\<close>. The on-disk format with its CRC, reading and writing of a
    table, the partition manager. Locale \<open>block_store\<close> is what the code expects of a block device: an array of bytes. It
    holds of a disk in memory (\<open>block_store_ram_disk\<close>) and, for its first request, of the virtio driver (sublocale in VirtioDisk).
  \<^item> NtfsTypes, NtfsFixups, NtfsRuns, NtfsAttr, NtfsIndex, NtfsRecord, NtfsWrite, NtfsDriver, NtfsDir, NtfsCreate, NtfsFs:
    \<^verbatim>\<open>lib/vfs/src/fs/ntfs\<close>, from the boot sector to the adapter for the VFS. NtfsDir has the image of a directory record and what an
    insertion does to it, NtfsCreate the creation of a file from the free record to the look-up. Locale \<open>byte_file\<close> is the contract of \<open>read_exact\<close>, interpreted on NTFS files.
  \<^item> Vfs: the other files of \<^verbatim>\<open>lib/vfs/src\<close>; paths, mounts, file descriptors.
  \<^item> Heap, HeapSafety, Frames, HeapMap, Paging: \<^verbatim>\<open>kernel/src/memory\<close>. Locale \<open>allocator\<close> is the contract of a heap, interpreted on the bump and
    the linked list allocator and, through the locale \<open>fallback_heap\<close>, on the fixed-size block allocator. Locale
    \<open>page_mapper\<close> states what \<open>Mapper::map_to\<close> does to a table of pages, and \<open>table_mapper\<close> (Paging) what it does to tables of four levels when the
    upper tables are there; from the latter follows what \<open>translate_addr\<close> finds after \<open>init_heap\<close>. Both have a sample mapper.
  \<^item> Pci, PciScan, Registry, Directory: \<^verbatim>\<open>lib/hal/src/pci\<close>, \<^verbatim>\<open>lib/bus/src\<close>, \<^verbatim>\<open>lib/device/src\<close>, \<^verbatim>\<open>lib/driver/src\<close> without \<^verbatim>\<open>block\<close>. Directory has the
    abstract directory that the device registry refines.
  \<^item> Acpi: \<^verbatim>\<open>lib/hal/src/acpi\<close>.
  \<^item> Machine, Virtio, VirtioDisk, VirtioLaws, Ahci, AhciDisk, AhciStart, Blocks: \<^verbatim>\<open>lib/driver/src/block\<close>. Machine has memory and device registers;
    the devices are parameters. Locale \<open>virtio_device\<close> has the registers of a virtio device, \<open>virtio_server\<close> adds that it serves a well-formed
    chain some time after the notification, \<open>virtio_setup\<close> and \<open>virtio_started\<close> (VirtioLaws) add initialisation. Locale
    \<open>ahci_adapter\<close> has the rules of AHCI and of 28-bit ATA commands: an adapter looks at the whole header, FIS, region descriptor and engine bits before it
    runs a command, takes a bounded time, and keeps out of memory it was not given; \<open>ahci_setup\<close> (AhciStart) adds the start of a port.
    \<open>dma_pages\<close> is the contract of the DMA allocator. Each is interpreted: the devices on machines that answer after a delay, \<open>dma_pages\<close> on the
    allocator of the kernel.
    Blocks also has the inspection of a disk by the installer.
  \<^item> Screen, Tasks, Shell: \<^verbatim>\<open>kernel/src/screen\<close>, \<^verbatim>\<open>kernel/src/macros.rs\<close>, \<^verbatim>\<open>kernel/src/task\<close>, the handlers of \<^verbatim>\<open>kernel/src/interrupts\<close>. Queues, atomic
    wakers, the fixed-capacity strings and vectors and the font are arguments with contracts (locales \<open>array_queue\<close>,
    \<open>atomic_waker\<close>, \<open>heapless_vec\<close>, \<open>heapless_string\<close>, \<open>glyphs\<close>); \<open>executor_env\<close> and \<open>shell_parts\<close> combine them.
  \<^item> CommandMacro: \<^verbatim>\<open>lib/macros/src\<close>.
  \<^item> Startup: \<^verbatim>\<open>kernel/src/lib.rs\<close>, \<^verbatim>\<open>kernel/src/main.rs\<close>, \<^verbatim>\<open>installer/src/lib.rs\<close>; how all of the above are put together.
  \<^item> Entry: the entry points and panic handlers of \<^verbatim>\<open>kernel/src/main.rs\<close> and \<^verbatim>\<open>installer/src/main.rs\<close>, \<^verbatim>\<open>kernel/src/interrupts/gdt.rs\<close> and the
    handlers of the exceptions. Locales \<open>virt_addrs\<close> and \<open>descriptor_table\<close> are the contracts of the crate \<open>x86_64\<close>.
  \<^item> Xtask: \<^verbatim>\<open>xtask/src\<close>.

  \<^bold>\<open>What is shown.\<close>
  \<^item> Partition tables: what is written is read back, also from the backup header; formatting gives the partitions the
    search functions find; the table-driven CRC is the bit-serial one.
  \<^item> NTFS: fixups detect torn sectors and are undone by their inverse, data runs decode to the signed sums, a look-up finds what the
    listing holds, a created file is found under its name and its record reads back, \<open>read_exact\<close> delivers the bytes of the file. A directory made by
    \<open>build_mft_record\<close> takes no entries.
  \<^item> VFS: the longest mount wins, descriptors are never reused.
  \<^item> Memory: the heaps never panic on admissible requests and keep live blocks aligned, in bounds and disjoint; frames are handed
    out once; DMA buffers begin at distinct addresses above the heap window, each with its first page in usable memory (a buffer of several pages may
    run on into reserved memory, \<open>dma_buffer_spans_hole\<close>); after \<open>init_heap\<close> the page tables take the heap one to one into usable frames and
    every other address where it went before.
  \<^item> PCI and registries: enumeration reports each function once and changes nothing; the registry refines a directory.
  \<^item> Block drivers: on a conforming virtio device the first request is carried out, whatever time it takes; exactly when the polling loop
    returns; that later reads do not wait and return stale bytes; that requests past the end report success. On a conforming AHCI
    adapter sectors are stored and read back, modulo \<open>2 ^ 28\<close> and from the start of the port on, provided the adapter accepts the FIS length in the
    header, which is one double word short (\<open>command_fis_length_short\<close>); a port that the firmware left running is
    refused where CR follows ST at once. Formatting through the AHCI driver never succeeds; the installer leaves a disk it has formatted alone.
  \<^item> Tasks, screen, shell: the executor never panics, serves every queued task and loses no keyboard wake-up; the console
    keeps its cursor on the screen; the terminal shows the edited line of single-byte characters; printed pipelines parse back and run in order.
  \<^item> Start: on a machine that offers what the code needs the kernel reaches the shell with heap, interrupts and
    registry in order; the installer never maps the AHCI registers; exactly the bss section is cleared; the double fault gate has a
    stack of its own with its top in bounds, but its handler reaches no port; a long panic message is lost.
  \<^item> Build tool: what a second formatting pass runs; the boot loader is built again every time.

  \<^bold>\<open>Bounds and fuel.\<close> The loops of the drivers that wait for a device have the iteration bounds of the code (AHCI), or none
  (virtio, a \<open>partial_function\<close>, with a theorem on when it returns). The walk over PCI capabilities is bounded as in the code. The
  task loop \<open>run_ready_tasks\<close> is a \<open>partial_function\<close> too, and shown to return. All other recursions terminate by
  structure or by a measure. A sorted memory map of \<open>16384\<close> free frames is enough for the start of the kernel: four for each of the
  4096 pages of its heap, as \<open>map_to\<close> may take three tables for each.

  \<^bold>\<open>Not modelled.\<close>
  \<^item> Allocation failure inside the registries, maps and strings of the programs: the heap is shown to serve its requests on its own.
  \<^item> That page tables are reached through the offset mapping of the boot loader: a mapper works on the tables themselves, and
    Paging assumes the upper tables of the heap window to be there.
  \<^item> \<^verbatim>\<open>bootloader\<close>: assembly and C that run before the kernel.
  \<^item> The instructions behind \<open>load\<close>, \<open>set_reg\<close>, \<open>load_tss\<close> and the initialisation of the interrupt controller and of the serial
    port, which are code of crates: the model records what was loaded and in which order.
  \<^item> The progress messages on the serial line. Those of the entry points, of panics and of exceptions are modelled.
  \<^item> Memory of other processors, and reordering: there is one processor, locks never contend except where the code tries a
    lock, and interrupts are steps between the steps of the model.
  \<^item> \<^verbatim>\<open>lib/sync\<close>: a placeholder that nothing calls.

  \<^bold>\<open>Further work.\<close> Creation of files in directories with an index allocation is modelled (\<open>add_directory_entry\<close>), and shown end to
  end for a resident index only. The boot loader, in another language, would be a development of its own.
\<close>

end
